(* ===== verification/Prelude.thy ===== *)
theory Prelude
  imports Main
begin

text \<open>
  The vocabulary every component of the development shares: programs that may throw and keep the
  state they reached, the loops of the source as combinators over them, a weakest-precondition
  calculus that proves facts about such programs, the safe-integer test of JavaScript, generic
  lemmas on lists, and the interface locales (\<open>ledger\<close>, \<open>guarded_machine\<close>) which the component
  theories interpret on their own definitions.
\<close>

section \<open>Collections\<close>

named_theorems wp_simps \<open>equations of the weakest-precondition calculus\<close>
named_theorems inv_intros \<open>one rule per operation: the operation keeps the invariant\<close>

section \<open>Results that may be errors\<close>

text \<open>A function that throws an error of its own, with no state: \<open>Inl\<close> the error.\<close>

definition bindE :: "'e + 'a \<Rightarrow> ('a \<Rightarrow> 'e + 'b) \<Rightarrow> 'e + 'b" where
  "bindE m f = (case m of Inl e \<Rightarrow> Inl e | Inr x \<Rightarrow> f x)"

lemma bindE_simps [simp]:
  "bindE (Inr x) f = f x"
  "bindE (Inl e) f = Inl e"
  by (simp_all add: bindE_def)

lemma bindE_Inr: "bindE m f = Inr y \<longleftrightarrow> (\<exists>x. m = Inr x \<and> f x = Inr y)"
  by (cases m) auto

lemma bindE_Inl: "bindE m f = Inl e \<longleftrightarrow> m = Inl e \<or> (\<exists>x. m = Inr x \<and> f x = Inl e)"
  by (cases m) auto

section \<open>Programs that may throw\<close>

text \<open>
  A method of the source reads and writes the fields of its object and either returns or throws.
  An exception does not undo the writes made before it, so the state is part of both outcomes.
\<close>

type_synonym ('s, 'e, 'a) prog = "'s \<Rightarrow> ('e + 'a) \<times> 's"

definition ok :: "'a \<Rightarrow> ('s, 'e, 'a) prog" where
  "ok x = (\<lambda>s. (Inr x, s))"

definition raise :: "'e \<Rightarrow> ('s, 'e, 'a) prog" where
  "raise e = (\<lambda>s. (Inl e, s))"

definition andThen :: "('s, 'e, 'a) prog \<Rightarrow> ('a \<Rightarrow> ('s, 'e, 'b) prog) \<Rightarrow> ('s, 'e, 'b) prog" where
  "andThen m f = (\<lambda>s. case m s of (Inl e, s') \<Rightarrow> (Inl e, s') | (Inr x, s') \<Rightarrow> f x s')"

definition gets :: "('s \<Rightarrow> 'a) \<Rightarrow> ('s, 'e, 'a) prog" where
  "gets f = (\<lambda>s. (Inr (f s), s))"

definition modify :: "('s \<Rightarrow> 's) \<Rightarrow> ('s, 'e, unit) prog" where
  "modify f = (\<lambda>s. (Inr (), f s))"

text \<open>\<open>if (b) throw e;\<close>\<close>

definition throwIf :: "bool \<Rightarrow> 'e \<Rightarrow> ('s, 'e, unit) prog" where
  "throwIf b e = (if b then raise e else ok ())"

text \<open>\<open>for (const x of xs) f(x);\<close> and the same loop collecting one result per element.\<close>

fun forEach :: "('a \<Rightarrow> ('s, 'e, unit) prog) \<Rightarrow> 'a list \<Rightarrow> ('s, 'e, unit) prog" where
  "forEach f [] = ok ()"
| "forEach f (x # xs) = andThen (f x) (\<lambda>_. forEach f xs)"

fun mapEach :: "('a \<Rightarrow> ('s, 'e, 'b) prog) \<Rightarrow> 'a list \<Rightarrow> ('s, 'e, 'b list) prog" where
  "mapEach f [] = ok []"
| "mapEach f (x # xs) = andThen (f x) (\<lambda>y. andThen (mapEach f xs) (\<lambda>ys. ok (y # ys)))"

text \<open>\<open>for (const x of xs) acc = f(x, acc);\<close>\<close>

fun foldEach :: "('a \<Rightarrow> 'b \<Rightarrow> ('s, 'e, 'b) prog) \<Rightarrow> 'a list \<Rightarrow> 'b \<Rightarrow> ('s, 'e, 'b) prog" where
  "foldEach f [] acc = ok acc"
| "foldEach f (x # xs) acc = andThen (f x acc) (\<lambda>acc'. foldEach f xs acc')"

text \<open>A pure computation that may fail, as a step of a program.\<close>

definition lift :: "'e + 'a \<Rightarrow> ('s, 'e, 'a) prog" where
  "lift r = (case r of Inl e \<Rightarrow> raise e | Inr x \<Rightarrow> ok x)"

lemma prog_apply [simp]:
  "ok x s = (Inr x, s)"
  "raise e s = (Inl e, s)"
  "gets g s = (Inr (g s), s)"
  "modify h s = (Inr (), h s)"
  by (simp_all add: ok_def raise_def gets_def modify_def)

lemma throwIf_apply [simp]: "throwIf b e s = (if b then Inl e else Inr (), s)"
  by (simp add: throwIf_def)

lemma andThen_apply: "andThen m f s = (case m s of (Inl e, s') \<Rightarrow> (Inl e, s') | (Inr x, s') \<Rightarrow> f x s')"
  by (simp add: andThen_def)

lemma andThen_Inr:
  "andThen m f s = (Inr y, t) \<longleftrightarrow> (\<exists>x s'. m s = (Inr x, s') \<and> f x s' = (Inr y, t))"
  by (auto simp: andThen_def split: prod.splits sum.splits)

lemma andThen_Inl:
  "andThen m f s = (Inl e, t) \<longleftrightarrow>
     m s = (Inl e, t) \<or> (\<exists>x s'. m s = (Inr x, s') \<and> f x s' = (Inl e, t))"
  by (auto simp: andThen_def split: prod.splits sum.splits)

lemma andThen_assoc: "andThen (andThen m f) g = andThen m (\<lambda>x. andThen (f x) g)"
  by (rule ext) (simp add: andThen_def split: prod.splits sum.splits)

lemma andThen_ok: "andThen (ok x) f = f x" "andThen (raise e) f = raise e"
  by (rule ext, simp add: andThen_def)+

text \<open>The simplifier writes \<open>ok x\<close> as \<open>Pair (Inr x)\<close>: the same facts for that form.\<close>

lemma andThen_simps [simp]:
  "andThen (Pair (Inr x)) f = f x"
  "andThen (Pair (Inl e)) f = Pair (Inl e)"
  by (rule ext, simp add: andThen_def)+

text \<open>A program seen by a caller with more errors than its own.\<close>

definition failing :: "('e \<Rightarrow> 'f) \<Rightarrow> ('s, 'e, 'a) prog \<Rightarrow> ('s, 'f, 'a) prog" where
  "failing f m = (\<lambda>s. case m s of (Inl e, t) \<Rightarrow> (Inl (f e), t) | (Inr x, t) \<Rightarrow> (Inr x, t))"

lemma failing_Inr: "failing f m s = (Inr x, t) \<longleftrightarrow> m s = (Inr x, t)"
  by (auto simp: failing_def split: prod.splits sum.splits)

lemma failing_Inl: "failing f m s = (Inl e, t) \<longleftrightarrow> (\<exists>d. m s = (Inl d, t) \<and> e = f d)"
  by (auto simp: failing_def split: prod.splits sum.splits)

section \<open>Weakest preconditions\<close>

text \<open>
  \<open>wp m Q E s\<close>: started in \<open>s\<close>, the program returns a value and state that satisfy \<open>Q\<close> or throws
  an error and leaves a state that satisfy \<open>E\<close>. Every program here terminates, so this is total
  correctness.
\<close>

definition wp :: "('s, 'e, 'a) prog \<Rightarrow> ('a \<Rightarrow> 's \<Rightarrow> bool) \<Rightarrow> ('e \<Rightarrow> 's \<Rightarrow> bool) \<Rightarrow> 's \<Rightarrow> bool" where
  "wp m Q E s = (case m s of (Inl e, s') \<Rightarrow> E e s' | (Inr x, s') \<Rightarrow> Q x s')"

lemma wp_ok [wp_simps]: "wp (ok x) Q E s = Q x s"
  by (simp add: wp_def)

lemma wp_raise [wp_simps]: "wp (raise e) Q E s = E e s"
  by (simp add: wp_def)

lemma wp_gets [wp_simps]: "wp (gets g) Q E s = Q (g s) s"
  by (simp add: wp_def)

lemma wp_modify [wp_simps]: "wp (modify h) Q E s = Q () (h s)"
  by (simp add: wp_def)

lemma wp_throwIf [wp_simps]: "wp (throwIf b e) Q E s = (if b then E e s else Q () s)"
  by (simp add: wp_def)

lemma wp_Pair [simp, wp_simps]:
  "wp (Pair r) Q E s = (case r of Inl e \<Rightarrow> E e s | Inr x \<Rightarrow> Q x s)"
  by (simp add: wp_def)

lemma wp_andThen [wp_simps]: "wp (andThen m f) Q E s = wp m (\<lambda>x. wp (f x) Q E) E s"
  by (auto simp: wp_def andThen_def split: prod.splits sum.splits)

lemma wp_if [wp_simps]: "wp (if b then m else n) Q E s = (if b then wp m Q E s else wp n Q E s)"
  by simp

lemma wp_case_option [wp_simps]:
  "wp (case x of None \<Rightarrow> m | Some y \<Rightarrow> f y) Q E s =
     (case x of None \<Rightarrow> wp m Q E s | Some y \<Rightarrow> wp (f y) Q E s)"
  by (simp split: option.split)

text \<open>The same equations for a program that is not yet applied to its state.\<close>

lemma wp_fun_andThen: "wp (andThen m f) Q E = wp m (\<lambda>x. wp (f x) Q E) E"
  by (simp add: fun_eq_iff wp_simps)

lemma wp_fun_ok: "wp (ok x) Q E = Q x"
  by (simp add: fun_eq_iff wp_simps)

lemma wp_fun_raise: "wp (raise e) Q E = E e"
  by (simp add: fun_eq_iff wp_simps)

lemma wp_fun_gets: "wp (gets g) Q E = (\<lambda>s. Q (g s) s)"
  by (simp add: fun_eq_iff wp_simps)

lemma wp_fun_modify: "wp (modify h) Q E = (\<lambda>s. Q () (h s))"
  by (simp add: fun_eq_iff wp_simps)

lemma wp_fun_throwIf: "wp (throwIf b e) Q E = (if b then E e else Q ())"
  by (simp add: fun_eq_iff wp_simps)

lemmas wp_funs = wp_fun_andThen wp_fun_ok wp_fun_raise wp_fun_gets wp_fun_modify wp_fun_throwIf

lemma wp_lift [wp_simps]: "wp (lift r) Q E s = (case r of Inl e \<Rightarrow> E e s | Inr x \<Rightarrow> Q x s)"
  by (cases r) (simp_all add: lift_def wp_def)

lemma wp_lift_if [simp]:
  "wp (lift (if b then Inr x else Inl e)) Q E = (\<lambda>s. if b then Q x s else E e s)"
  by (rule ext) (simp add: wp_lift)

lemma wp_failing [wp_simps]: "wp (failing f m) Q E s = wp m Q (\<lambda>e. E (f e)) s"
  by (auto simp: wp_def failing_def split: prod.splits sum.splits)

lemma wp_mono:
  assumes "wp m Q E s"
    and "\<And>x s'. Q x s' \<Longrightarrow> Q' x s'"
    and "\<And>e s'. E e s' \<Longrightarrow> E' e s'"
  shows "wp m Q' E' s"
  using assms by (auto simp: wp_def split: prod.splits sum.splits)

lemma wp_conj:
  "wp m Q E s \<Longrightarrow> wp m Q' E' s \<Longrightarrow> wp m (\<lambda>x s. Q x s \<and> Q' x s) (\<lambda>e s. E e s \<and> E' e s) s"
  by (auto simp: wp_def split: prod.splits sum.splits)

lemma wp_triv [simp]: "wp m (\<lambda>_ _. True) (\<lambda>_ _. True) s"
  by (simp add: wp_def split: prod.splits sum.splits)

lemma wp_Inr: "wp m Q E s \<Longrightarrow> m s = (Inr x, t) \<Longrightarrow> Q x t"
  by (simp add: wp_def)

lemma wp_Inl: "wp m Q E s \<Longrightarrow> m s = (Inl e, t) \<Longrightarrow> E e t"
  by (simp add: wp_def)

lemma wp_I:
  assumes "\<And>x t. m s = (Inr x, t) \<Longrightarrow> Q x t" and "\<And>e t. m s = (Inl e, t) \<Longrightarrow> E e t"
  shows "wp m Q E s"
  using assms by (auto simp: wp_def split: prod.splits sum.splits)

lemma wp_forEach:
  assumes "\<And>x s. x \<in> set xs \<Longrightarrow> I s \<Longrightarrow> wp (f x) (\<lambda>_. I) E s" and "I s"
  shows "wp (forEach f xs) (\<lambda>_. I) E s"
  using assms
proof (induction xs arbitrary: s)
  case Nil
  then show ?case by (simp add: wp_simps)
next
  case (Cons x xs)
  have "wp (f x) (\<lambda>_. I) E s" using Cons.prems by simp
  then have "wp (f x) (\<lambda>_. wp (forEach f xs) (\<lambda>_. I) E) E s"
    by (rule wp_mono) (use Cons in auto)
  then show ?case by (simp add: wp_simps)
qed

section \<open>Programs that only return values with a property\<close>

definition yields :: "('s, 'e, 'a) prog \<Rightarrow> ('a \<Rightarrow> bool) \<Rightarrow> bool" where
  "yields m P \<longleftrightarrow> (\<forall>s x t. m s = (Inr x, t) \<longrightarrow> P x)"

named_theorems yields_intros \<open>rules that follow the shape of a program\<close>

lemma yields_andThen [yields_intros]:
  "yields m P \<Longrightarrow> (\<And>x. P x \<Longrightarrow> yields (f x) Q) \<Longrightarrow> yields (andThen m f) Q"
  by (fastforce simp: yields_def andThen_Inr)

lemma yields_ok [yields_intros]: "P x \<Longrightarrow> yields (ok x) P"
  by (simp add: yields_def)

lemma yields_raise [yields_intros]: "yields (raise e) P"
  by (simp add: yields_def)

lemma yields_lift: "(\<And>x. r = Inr x \<Longrightarrow> P x) \<Longrightarrow> yields (lift r) P"
  by (auto simp: yields_def lift_def split: sum.splits)

lemma yields_throwIf: "(\<not> b \<Longrightarrow> P ()) \<Longrightarrow> yields (throwIf b e) P"
  by (auto simp: yields_def)

lemma yields_if [yields_intros]:
  "(b \<Longrightarrow> yields m P) \<Longrightarrow> (\<not> b \<Longrightarrow> yields n P) \<Longrightarrow> yields (if b then m else n) P"
  by simp

lemma yields_any [yields_intros]: "yields m (\<lambda>_. True)"
  by (simp add: yields_def)

lemma yieldsD: "yields m P \<Longrightarrow> m s = (Inr x, t) \<Longrightarrow> P x"
  by (auto simp: yields_def)

lemma yields_mono: "yields m P \<Longrightarrow> (\<And>x. P x \<Longrightarrow> Q x) \<Longrightarrow> yields m Q"
  by (auto simp: yields_def)

lemma yields_foldEach:
  assumes "\<And>x front rest acc. xs = front @ x # rest \<Longrightarrow> I front acc \<Longrightarrow> yields (f x acc) (I (front @ [x]))"
    and "I [] acc"
  shows "yields (foldEach f xs acc) (I xs)"
proof -
  have "\<lbrakk>xs = front @ rest; I front a\<rbrakk> \<Longrightarrow> yields (foldEach f rest a) (I xs)" for front rest a
  proof (induction rest arbitrary: front a)
    case Nil
    then show ?case by (simp add: yields_def)
  next
    case (Cons x rest)
    show ?case
      unfolding foldEach.simps
      by (rule yields_andThen [where P = "I (front @ [x])"])
        (use assms(1) Cons.prems in blast, use Cons.IH [of "front @ [x]"] Cons.prems(1) in auto)
  qed
  from this [of "[]" xs acc] assms(2) show ?thesis by simp
qed

lemma lift_Inr: "lift r s = (Inr x, t) \<longleftrightarrow> r = Inr x \<and> t = s"
  by (auto simp: lift_def split: sum.splits)

lemma yields_lift_eq: "yields (lift r) (\<lambda>x. r = Inr x)"
  by (rule yields_lift)

section \<open>Every outcome of a program\<close>

text \<open>Whatever state it starts from, the program returns a value with \<open>P\<close> or throws an error with \<open>F\<close>.\<close>

definition outcomes :: "('s, 'e, 'a) prog \<Rightarrow> ('a \<Rightarrow> bool) \<Rightarrow> ('e \<Rightarrow> bool) \<Rightarrow> bool" where
  "outcomes m P F \<longleftrightarrow> (\<forall>s. wp m (\<lambda>x _. P x) (\<lambda>e _. F e) s)"

lemma outcomes_andThen:
  "outcomes m P F \<Longrightarrow> (\<And>x. P x \<Longrightarrow> outcomes (f x) Q F) \<Longrightarrow> outcomes (andThen m f) Q F"
  unfolding outcomes_def wp_andThen by (blast intro: wp_mono)

lemma outcomes_ok: "P x \<Longrightarrow> outcomes (ok x) P F"
  by (simp add: outcomes_def wp_simps)

lemma outcomes_Pair [simp]:
  "outcomes (Pair (Inr x)) P F = P x" "outcomes (Pair (Inl e)) P F = F e"
  "outcomes (ok x) P F = P x" "outcomes (raise e) P F = F e"
  by (simp_all add: outcomes_def wp_def ok_def raise_def)

lemma outcomes_raise: "F e \<Longrightarrow> outcomes (raise e) P F"
  by (simp add: outcomes_def wp_simps)

lemma outcomes_lift: "(\<And>x. r = Inr x \<Longrightarrow> P x) \<Longrightarrow> (\<And>e. r = Inl e \<Longrightarrow> F e) \<Longrightarrow> outcomes (lift r) P F"
  by (cases r) (simp_all add: outcomes_def wp_simps)

lemma outcomes_throwIf: "(\<not> b \<Longrightarrow> P ()) \<Longrightarrow> (b \<Longrightarrow> F e) \<Longrightarrow> outcomes (throwIf b e) P F"
  by (simp add: outcomes_def wp_simps)

lemma outcomes_mono:
  "outcomes m P F \<Longrightarrow> (\<And>x. P x \<Longrightarrow> Q x) \<Longrightarrow> (\<And>e. F e \<Longrightarrow> G e) \<Longrightarrow> outcomes m Q G"
  unfolding outcomes_def by (blast intro: wp_mono)

lemma outcomesD:
  "outcomes m P F \<Longrightarrow> m s = (Inr x, t) \<Longrightarrow> P x"
  "outcomes m P F \<Longrightarrow> m s = (Inl e, t) \<Longrightarrow> F e"
  by (auto simp: outcomes_def wp_def dest: spec [where x = s])

section \<open>Throwing without effect\<close>

text \<open>The outcome of a method that, when it throws, leaves the state \<open>s\<close> it started from.\<close>

definition keeps_on_throw :: "'s \<Rightarrow> ('e + 'a) \<times> 's \<Rightarrow> bool" where
  "keeps_on_throw s r \<longleftrightarrow> (\<forall>e. fst r = Inl e \<longrightarrow> snd r = s)"

lemma keeps_intros:
  "keeps_on_throw s (Inl e, s)"
  "keeps_on_throw s (Inr x, t)"
  by (simp_all add: keeps_on_throw_def)

lemma keeps_splits:
  "(b \<Longrightarrow> keeps_on_throw s p) \<Longrightarrow> (\<not> b \<Longrightarrow> keeps_on_throw s q) \<Longrightarrow> keeps_on_throw s (if b then p else q)"
  "(\<And>e. m = Inl e \<Longrightarrow> keeps_on_throw s (f e)) \<Longrightarrow> (\<And>x. m = Inr x \<Longrightarrow> keeps_on_throw s (g x)) \<Longrightarrow>
     keeps_on_throw s (case m of Inl e \<Rightarrow> f e | Inr x \<Rightarrow> g x)"
  "(n = None \<Longrightarrow> keeps_on_throw s p) \<Longrightarrow> (\<And>x. n = Some x \<Longrightarrow> keeps_on_throw s (h x)) \<Longrightarrow>
     keeps_on_throw s (case n of None \<Rightarrow> p | Some x \<Rightarrow> h x)"
  "(xs = [] \<Longrightarrow> keeps_on_throw s p) \<Longrightarrow> (\<And>y ys. xs = y # ys \<Longrightarrow> keeps_on_throw s (k y ys)) \<Longrightarrow>
     keeps_on_throw s (case xs of [] \<Rightarrow> p | y # ys \<Rightarrow> k y ys)"
  by (simp_all split: sum.split option.split list.split)

lemma keeps_Inl: "keeps_on_throw s r \<Longrightarrow> fst r = Inl e \<Longrightarrow> snd r = s"
  by (simp add: keeps_on_throw_def)

section \<open>Integers of the source\<close>

text \<open>
  A \<open>number\<close> that the source tests with \<open>Number.isSafeInteger\<close> before it uses it is either an
  integer or something the test refuses (a fraction, NaN, an infinity, \<open>undefined\<close>).
\<close>

datatype js_number = Integral int | Nonintegral

definition MAX_SAFE_INTEGER :: int where
  "MAX_SAFE_INTEGER = 9007199254740991"

definition safe_integer :: "int \<Rightarrow> bool" where
  "safe_integer n \<longleftrightarrow> \<bar>n\<bar> \<le> MAX_SAFE_INTEGER"

definition is_count :: "int \<Rightarrow> bool" where
  "is_count n \<longleftrightarrow> safe_integer n \<and> 0 \<le> n"

fun number_is_count :: "js_number \<Rightarrow> bool" where
  "number_is_count (Integral n) = is_count n"
| "number_is_count Nonintegral = False"

fun integral_part :: "js_number \<Rightarrow> int" where
  "integral_part (Integral n) = n"
| "integral_part Nonintegral = 0"

lemma number_is_count_nonneg [simp]:
  "number_is_count x \<Longrightarrow> 0 \<le> integral_part x"
  "number_is_count x \<Longrightarrow> 0 \<le> a \<Longrightarrow> 0 \<le> a + integral_part x"
  by (cases x; simp add: is_count_def)+

lemma number_is_count_Integral: "number_is_count x \<longleftrightarrow> (\<exists>n. x = Integral n \<and> is_count n)"
  by (cases x) auto

lemma is_count_iff: "is_count n \<longleftrightarrow> 0 \<le> n \<and> n \<le> 9007199254740991"
  by (auto simp: is_count_def safe_integer_def MAX_SAFE_INTEGER_def)

section \<open>Lists\<close>

lemma sum_list_nonneg_int: "(\<And>x. x \<in> set xs \<Longrightarrow> 0 \<le> f x) \<Longrightarrow> 0 \<le> sum_list (map f xs :: int list)"
  by (induction xs) auto

lemma sum_list_member_le:
  "(\<And>y. y \<in> set xs \<Longrightarrow> (0 :: int) \<le> f y) \<Longrightarrow> x \<in> set xs \<Longrightarrow> f x \<le> sum_list (map f xs)"
proof (induction xs)
  case (Cons y ys)
  then have "0 \<le> sum_list (map f ys)" by (intro sum_list_nonneg_int) auto
  with Cons show ?case by (auto intro: order_trans)
qed simp

section \<open>Interfaces\<close>

text \<open>
  A ledger charges amounts against a limit: the contract that the archive reader, the projector
  and the narration pipeline rely on when they account for bytes, blocks and work units.
\<close>

locale ledger =
  fixes charge :: "int \<Rightarrow> ('s, 'e, unit) prog"
    and total :: "'s \<Rightarrow> int"
    and limit :: "'s \<Rightarrow> int"
    and wf :: "'s \<Rightarrow> bool"
  assumes within: "wf s \<Longrightarrow> total s \<le> limit s"
    and charged: "wf s \<Longrightarrow> charge n s = (Inr u, t) \<Longrightarrow>
      0 \<le> n \<and> wf t \<and> total t = total s + n \<and> limit t = limit s"
    and refused: "wf s \<Longrightarrow> charge n s = (Inl e, t) \<Longrightarrow>
      wf t \<and> total t = total s \<and> limit t = limit s"
begin

lemma charge_all:
  "wf s \<Longrightarrow> forEach charge ns s = (Inr u, t) \<Longrightarrow>
     wf t \<and> total t = total s + sum_list ns \<and> limit t = limit s \<and> (\<forall>n \<in> set ns. 0 \<le> n)"
proof (induction ns arbitrary: s)
  case Nil
  then show ?case by simp
next
  case (Cons n ns)
  from Cons.prems obtain u' s' where "charge n s = (Inr u', s')" "forEach charge ns s' = (Inr u, t)"
    by (auto simp: andThen_Inr)
  with Cons.IH [of s'] charged [OF Cons.prems(1)] show ?case by fastforce
qed

lemma charge_all_within:
  "wf s \<Longrightarrow> forEach charge ns s = (Inr u, t) \<Longrightarrow> total s + sum_list ns \<le> limit s"
  using charge_all [of s ns u t] within [of t] by simp

lemma overdraft_refused:
  assumes "wf s" and "limit s < total s + sum_list ns"
  shows "\<exists>e t. forEach charge ns s = (Inl e, t)"
proof (cases "forEach charge ns s")
  case (Pair r t)
  with assms charge_all_within [of s ns] show ?thesis by (cases r) force+
qed

lemma charge_all_wf: "wf s \<Longrightarrow> wf (snd (forEach charge ns s))"
proof (induction ns arbitrary: s)
  case (Cons n ns)
  obtain r s' where r: "charge n s = (r, s')" by (cases "charge n s")
  with Cons show ?case by (cases r) (auto simp: andThen_apply dest: charged refused)
qed simp

lemma charge_all_limit: "wf s \<Longrightarrow> limit (snd (forEach charge ns s)) = limit s"
proof (induction ns arbitrary: s)
  case (Cons n ns)
  obtain r s' where r: "charge n s = (r, s')" by (cases "charge n s")
  with Cons show ?case by (cases r) (auto simp: andThen_apply dest: charged refused)
qed simp

end

text \<open>
  A machine whose operations keep an invariant whether they return or throw. Runs are sequences
  of operations in any order: what a caller may do with the object.
\<close>

fun run :: "('op \<Rightarrow> 's \<Rightarrow> 'r \<times> 's) \<Rightarrow> 'op list \<Rightarrow> 's \<Rightarrow> 's" where
  "run step [] s = s"
| "run step (x # xs) s = run step xs (snd (step x s))"

fun run_results :: "('op \<Rightarrow> 's \<Rightarrow> 'r \<times> 's) \<Rightarrow> 'op list \<Rightarrow> 's \<Rightarrow> 'r list" where
  "run_results step [] s = []"
| "run_results step (x # xs) s = fst (step x s) # run_results step xs (snd (step x s))"

lemma run_append: "run step (xs @ ys) s = run step ys (run step xs s)"
  by (induction xs arbitrary: s) auto

locale guarded_machine =
  fixes step :: "'op \<Rightarrow> 's \<Rightarrow> 'r \<times> 's"
    and inv :: "'s \<Rightarrow> bool"
  assumes step_inv: "inv s \<Longrightarrow> inv (snd (step x s))"
begin

lemma run_inv: "inv s \<Longrightarrow> inv (run step xs s)"
  by (induction xs arbitrary: s) (auto intro: step_inv)

end

text \<open>A guarded machine that never takes a measure back: a revision number, a log of effects.\<close>

locale monotone_machine = guarded_machine +
  fixes progress :: "'s \<Rightarrow> nat"
  assumes step_progress: "inv s \<Longrightarrow> progress s \<le> progress (snd (step x s))"
begin

lemma run_progress: "inv s \<Longrightarrow> progress s \<le> progress (run step xs s)"
proof (induction xs arbitrary: s)
  case (Cons x xs)
  have "progress s \<le> progress (snd (step x s))" using Cons.prems by (rule step_progress)
  also have "\<dots> \<le> progress (run step xs (snd (step x s)))" by (rule Cons.IH [OF step_inv [OF Cons.prems]])
  finally show ?case by simp
qed simp

end

end
