(* ===== verification/Js_Number.thy ===== *)
theory Js_Number
  imports Complex_Main Prelude "HOL-Library.Log_Nat"
begin

text \<open>
  Arithmetic of JavaScript's \<open>number\<close> type where the source leaves the integers: every quotient,
  sum and difference of finite non-negative values is the exact rational result rounded to the
  nearest binary64 value, ties to even. \<open>js_round\<close> is that rounding on the normal range (the values
  the source computes lie between 2 to the power -30 and 2 to the power 60, so neither subnormal
  numbers nor overflow occur).
\<close>

definition round_half_even :: "rat \<Rightarrow> int" where
  "round_half_even x = (let n = \<lfloor>x\<rfloor>; f = x - of_int n
     in if f < 1 / 2 then n else if 1 / 2 < f then n + 1 else if even n then n else n + 1)"

text \<open>The exponent \<open>e\<close> with \<open>2 ^ e \<le> x < 2 ^ (e + 1)\<close>, from the bit lengths of the fraction.\<close>

definition binary_exponent :: "rat \<Rightarrow> int" where
  "binary_exponent x = (let (n, d) = quotient_of x; e = bitlen n - bitlen d
     in if x < 2 powi e then e - 1 else e)"

definition js_round :: "rat \<Rightarrow> rat" where
  "js_round x = (if x \<le> 0 then 0
     else let u = 2 powi (binary_exponent x - 52) in of_int (round_half_even (x / u)) * u)"

definition js_add :: "rat \<Rightarrow> rat \<Rightarrow> rat" where
  "js_add x y = js_round (x + y)"

definition js_sub :: "rat \<Rightarrow> rat \<Rightarrow> rat" where
  "js_sub x y = js_round (x - y)"

definition js_div :: "rat \<Rightarrow> rat \<Rightarrow> rat" where
  "js_div x y = js_round (x / y)"

lemma round_half_even_nonneg: "0 \<le> x \<Longrightarrow> 0 \<le> round_half_even x"
  by (auto simp: round_half_even_def Let_def)

lemma round_half_even_near: "\<bar>of_int (round_half_even x) - x\<bar> \<le> 1 / 2"
proof -
  have "of_int \<lfloor>x\<rfloor> \<le> x" "x < of_int \<lfloor>x\<rfloor> + 1" by linarith+
  then show ?thesis by (auto simp: round_half_even_def Let_def abs_le_iff)
qed

lemma round_half_even_of_int: "round_half_even (of_int n) = n"
  by (simp add: round_half_even_def)

lemma js_round_nonneg [simp]: "0 \<le> js_round x"
  by (auto simp: js_round_def Let_def intro!: mult_nonneg_nonneg round_half_even_nonneg)

lemma js_round_0 [simp]: "js_round 0 = 0"
  by (simp add: js_round_def)

lemma js_arith_nonneg [simp]: "0 \<le> js_add x y" "0 \<le> js_sub x y" "0 \<le> js_div x y"
  by (simp_all add: js_add_def js_sub_def js_div_def)

lemma js_div_0 [simp]: "js_div 0 y = 0"
  by (simp add: js_div_def)

lemma js_round_third: "js_round (1 / 3) = 6004799503160661 / 18014398509481984"
  by code_simp

section \<open>Exactness\<close>

lemma binary_exponent_le:
  assumes "0 < x"
  shows "2 powi (binary_exponent x) \<le> x"
proof -
  obtain n d where q: "quotient_of x = (n, d)" by fastforce
  have d: "0 < d" using quotient_of_denom_pos [OF q] .
  have x: "x = of_int n / of_int d" using quotient_of_div [OF q] .
  with assms d have n: "0 < n" by (simp add: zero_less_divide_iff)
  let ?e = "bitlen n - bitlen d"
  have bn: "2 powi (bitlen n - 1) \<le> (of_int n :: rat)"
  proof -
    have "(2 :: int) ^ nat (bitlen n - 1) \<le> n" using bitlen_bounds [OF n] by simp
    then have "of_int (2 ^ nat (bitlen n - 1)) \<le> (of_int n :: rat)" by (simp only: of_int_le_iff)
    moreover have "0 \<le> bitlen n - 1" using bitlen_ge_iff_power [of 1 n] n by simp
    ultimately show ?thesis by (simp add: power_int_def)
  qed
  have bd: "(of_int d :: rat) \<le> 2 powi (bitlen d)"
  proof -
    have "d < (2 :: int) ^ nat (bitlen d)" using bitlen_bounds [OF d] by simp
    then have "of_int d \<le> (of_int (2 ^ nat (bitlen d)) :: rat)" by (simp only: of_int_le_iff)
    moreover have "0 \<le> bitlen d" by (rule bitlen_nonneg)
    ultimately show ?thesis by (simp add: power_int_def)
  qed
  have "2 powi (bitlen n - 1 - bitlen d) = (2 powi (bitlen n - 1) / 2 powi (bitlen d) :: rat)"
    by (simp add: power_int_diff)
  also have "\<dots> \<le> of_int n / of_int d"
    using bn bd d n by (intro frac_le) simp_all
  finally have "2 powi (?e - 1) \<le> x" using x by (simp add: algebra_simps)
  then show ?thesis by (auto simp: binary_exponent_def q Let_def not_less)
qed

lemma js_round_error:
  assumes "0 < x"
  shows "\<bar>js_round x - x\<bar> \<le> x / 2 ^ 53"
proof -
  let ?u = "2 powi (binary_exponent x - 52) :: rat"
  have u: "0 < ?u" by simp
  have "?u = 2 powi (binary_exponent x) / 2 ^ 52"
    by (simp add: power_int_diff)
  with binary_exponent_le [OF assms] have le: "?u \<le> x / 2 ^ 52" by (simp add: divide_right_mono)
  have "js_round x - x = (of_int (round_half_even (x / ?u)) - x / ?u) * ?u"
    using assms u by (simp add: js_round_def Let_def left_diff_distrib)
  then have "\<bar>js_round x - x\<bar> = \<bar>of_int (round_half_even (x / ?u)) - x / ?u\<bar> * ?u"
    using u by (simp only: abs_mult abs_of_pos)
  also have "\<dots> \<le> 1 / 2 * ?u"
    using round_half_even_near [of "x / ?u"] u by (intro mult_right_mono) simp_all
  also have "\<dots> \<le> x / 2 ^ 53" using le by simp
  finally show ?thesis .
qed

lemma js_round_of_int:
  assumes "0 \<le> n" and "n < 2 ^ 53"
  shows "js_round (of_int n) = of_int n"
proof (cases "n = 0")
  case False
  let ?x = "of_int n :: rat"
  have x: "0 < ?x" using assms(1) False by simp
  have "2 powi (binary_exponent ?x) < (2 :: rat) powi 53"
  proof (rule order_le_less_trans [OF binary_exponent_le [OF x]])
    have "?x < of_int (2 ^ 53)" using assms(2) by (simp only: of_int_less_iff)
    then show "?x < 2 powi 53" by (simp add: power_int_def)
  qed
  then have "\<not> 53 \<le> binary_exponent ?x"
    using power_int_increasing [of 53 "binary_exponent ?x" "2 :: rat"] by auto
  then have e: "binary_exponent ?x \<le> 52" by simp
  define k where "k = nat (52 - binary_exponent ?x)"
  have "(2 :: rat) powi (binary_exponent ?x - 52) = inverse (2 ^ k)"
    using e by (simp add: k_def power_int_def power_one_over inverse_eq_divide)
  then have u: "?x / 2 powi (binary_exponent ?x - 52) = of_int (n * 2 ^ k)"
    by (simp add: divide_inverse)
  have "js_round ?x = of_int (round_half_even (of_int (n * 2 ^ k))) * 2 powi (binary_exponent ?x - 52)"
    using x by (simp only: js_round_def Let_def u) simp
  also have "\<dots> = of_int (n * 2 ^ k) * 2 powi (binary_exponent ?x - 52)"
    by (simp only: round_half_even_of_int)
  also have "\<dots> = ?x" by (subst u [symmetric]) simp
  finally show ?thesis .
qed simp

text \<open>
  The floor of a quotient of exact integers is the integer quotient: rounding cannot carry a
  non-integral quotient over the next integer, as the numerator is below 2 to the power 53.
\<close>

lemma js_div_fraction:
  assumes "0 \<le> a" and "a < 2 ^ 53" and "0 < b" and "\<not> b dvd a"
  shows "of_int (a div b) < js_div (of_int a) (of_int b) \<and> js_div (of_int a) (of_int b) < of_int (a div b) + 1"
proof -
  define q r where "q = a div b" and "r = a mod b"
  have a: "a = b * q + r" by (simp add: q_def r_def)
  have "r \<noteq> 0" "0 \<le> r" "r < b" using assms(3,4) by (auto simp: r_def dvd_eq_mod_eq_0)
  then have r: "1 \<le> r" "r \<le> b - 1" by simp_all
  let ?x = "of_int a / of_int b :: rat"
  have "0 < a" using assms by (auto simp: order_le_less)
  then have x: "0 < ?x" using assms by simp
  have xq: "?x = of_int q + of_int r / of_int b" using assms(3) by (simp add: a field_simps)
  have "(of_int a :: rat) < 2 ^ 53" using assms(2) by (metis of_int_less_iff of_int_numeral of_int_power)
  then have "?x / 2 ^ 53 < 1 / of_int b" using assms(3) by (simp add: field_simps)
  with js_round_error [OF x] have err: "\<bar>js_round ?x - ?x\<bar> < 1 / of_int b" by simp
  have "(1 :: rat) / of_int b \<le> of_int r / of_int b" "of_int r / of_int b \<le> (1 :: rat) - 1 / of_int b"
    using r assms(3) by (simp_all add: field_simps)
  with err xq show ?thesis by (simp_all add: abs_less_iff js_div_def q_def)
qed

lemma floor_js_div:
  assumes "0 \<le> a" and "a < 2 ^ 53" and "0 < b"
  shows "\<lfloor>js_div (of_int a) (of_int b)\<rfloor> = a div b"
proof (cases "b dvd a")
  case True
  then obtain q where q: "a = b * q" by (elim dvdE)
  with assms have "0 \<le> q" by (simp add: zero_le_mult_iff)
  moreover have "q \<le> a" using q assms \<open>0 \<le> q\<close> by (simp add: mult_le_cancel_right1)
  ultimately show ?thesis using q assms by (simp add: js_div_def js_round_of_int)
next
  case False
  with js_div_fraction [OF assms False] show ?thesis by (simp add: floor_eq_iff)
qed

end
