(* ===== verification/Ingestion_Policy.thy ===== *)
theory Ingestion_Policy
  imports Prelude
begin

text \<open>
  packages/epub/src/security/ingestion-policy.ts and packages/epub/src/archive/archive-error.ts:
  the error codes of the EPUB pipeline, the frozen default limits, and \<open>createEpubIngestionPolicy\<close>,
  which lets a caller tighten a limit and never loosen one.
\<close>

section \<open>Error codes\<close>

datatype epub_error =
    BrokenReference | Cancelled | InvalidContainer | InternalFailure | LocatorUnresolved
  | MalformedPackage | MalformedXml | ResourceLimitExceeded | UnsafeEntry | UnsupportedLayout
  | UnsupportedProtection | UnsupportedResource | UnsupportedVersion

section \<open>The policy\<close>

record ingestion_policy =
  maxCompressedEpubBytes :: int
  maxArchiveEntries :: int
  maxTotalUncompressedBytes :: int
  maxEntryUncompressedBytes :: int
  maxContainerOrPackageDocumentBytes :: int
  maxContentDocumentBytes :: int
  maxRasterImageBytes :: int
  maxArchivePathBytes :: int
  maxArchivePathComponentBytes :: int
  maxArchivePathComponents :: int
  maxManifestItems :: int
  maxManifestFallbackChainItems :: int
  maxXmlElementDepth :: int
  maxXmlAttributesPerElement :: int
  maxXmlNodesPerDocument :: int
  maxNavigationDepth :: int
  maxNavigationNodes :: int
  maxSpineItems :: int
  maxSemanticBlocks :: int
  maxDecodedPublicationTextBytes :: int
  maxProcessingTimeMs :: int
  maxCompressionRatio :: int
  compressionRatioGraceBytes :: int

definition MEBIBYTE :: int where
  "MEBIBYTE = 1048576"

definition DEFAULT_EPUB_INGESTION_POLICY :: ingestion_policy where
  "DEFAULT_EPUB_INGESTION_POLICY =
    \<lparr>maxCompressedEpubBytes = 100 * MEBIBYTE,
     maxArchiveEntries = 4096,
     maxTotalUncompressedBytes = 512 * MEBIBYTE,
     maxEntryUncompressedBytes = 64 * MEBIBYTE,
     maxContainerOrPackageDocumentBytes = 2 * MEBIBYTE,
     maxContentDocumentBytes = 8 * MEBIBYTE,
     maxRasterImageBytes = 32 * MEBIBYTE,
     maxArchivePathBytes = 2048,
     maxArchivePathComponentBytes = 255,
     maxArchivePathComponents = 32,
     maxManifestItems = 4096,
     maxManifestFallbackChainItems = 32,
     maxXmlElementDepth = 128,
     maxXmlAttributesPerElement = 256,
     maxXmlNodesPerDocument = 250000,
     maxNavigationDepth = 32,
     maxNavigationNodes = 10000,
     maxSpineItems = 4096,
     maxSemanticBlocks = 200000,
     maxDecodedPublicationTextBytes = 64 * MEBIBYTE,
     maxProcessingTimeMs = 30000,
     maxCompressionRatio = 100,
     compressionRatioGraceBytes = MEBIBYTE\<rparr>"

text \<open>
  \<open>Object.keys(DEFAULT_EPUB_INGESTION_POLICY)\<close> with the property read of each key. An overrides
  object is an association list from key to the \<open>number\<close> given for it (its keys are distinct,
  as the keys of an object are).
\<close>

definition policy_fields :: "(string \<times> (ingestion_policy \<Rightarrow> int)) list" where
  "policy_fields =
    [(''maxCompressedEpubBytes'', maxCompressedEpubBytes),
     (''maxArchiveEntries'', maxArchiveEntries),
     (''maxTotalUncompressedBytes'', maxTotalUncompressedBytes),
     (''maxEntryUncompressedBytes'', maxEntryUncompressedBytes),
     (''maxContainerOrPackageDocumentBytes'', maxContainerOrPackageDocumentBytes),
     (''maxContentDocumentBytes'', maxContentDocumentBytes),
     (''maxRasterImageBytes'', maxRasterImageBytes),
     (''maxArchivePathBytes'', maxArchivePathBytes),
     (''maxArchivePathComponentBytes'', maxArchivePathComponentBytes),
     (''maxArchivePathComponents'', maxArchivePathComponents),
     (''maxManifestItems'', maxManifestItems),
     (''maxManifestFallbackChainItems'', maxManifestFallbackChainItems),
     (''maxXmlElementDepth'', maxXmlElementDepth),
     (''maxXmlAttributesPerElement'', maxXmlAttributesPerElement),
     (''maxXmlNodesPerDocument'', maxXmlNodesPerDocument),
     (''maxNavigationDepth'', maxNavigationDepth),
     (''maxNavigationNodes'', maxNavigationNodes),
     (''maxSpineItems'', maxSpineItems),
     (''maxSemanticBlocks'', maxSemanticBlocks),
     (''maxDecodedPublicationTextBytes'', maxDecodedPublicationTextBytes),
     (''maxProcessingTimeMs'', maxProcessingTimeMs),
     (''maxCompressionRatio'', maxCompressionRatio),
     (''compressionRatioGraceBytes'', compressionRatioGraceBytes)]"

type_synonym policy_overrides = "(string \<times> js_number) list"

text \<open>\<open>{ ...DEFAULT, ...overrides }\<close>: the value of one key of the merged object.\<close>

definition merged_limit :: "policy_overrides \<Rightarrow> string \<Rightarrow> (ingestion_policy \<Rightarrow> int) \<Rightarrow> js_number" where
  "merged_limit ov k f =
     (case map_of ov k of Some v \<Rightarrow> v | None \<Rightarrow> Integral (f DEFAULT_EPUB_INGESTION_POLICY))"

definition merged_policy :: "policy_overrides \<Rightarrow> ingestion_policy" where
  "merged_policy ov = (let g = (\<lambda>k f. integral_part (merged_limit ov k f)) in
    \<lparr>maxCompressedEpubBytes = g ''maxCompressedEpubBytes'' maxCompressedEpubBytes,
     maxArchiveEntries = g ''maxArchiveEntries'' maxArchiveEntries,
     maxTotalUncompressedBytes = g ''maxTotalUncompressedBytes'' maxTotalUncompressedBytes,
     maxEntryUncompressedBytes = g ''maxEntryUncompressedBytes'' maxEntryUncompressedBytes,
     maxContainerOrPackageDocumentBytes =
       g ''maxContainerOrPackageDocumentBytes'' maxContainerOrPackageDocumentBytes,
     maxContentDocumentBytes = g ''maxContentDocumentBytes'' maxContentDocumentBytes,
     maxRasterImageBytes = g ''maxRasterImageBytes'' maxRasterImageBytes,
     maxArchivePathBytes = g ''maxArchivePathBytes'' maxArchivePathBytes,
     maxArchivePathComponentBytes = g ''maxArchivePathComponentBytes'' maxArchivePathComponentBytes,
     maxArchivePathComponents = g ''maxArchivePathComponents'' maxArchivePathComponents,
     maxManifestItems = g ''maxManifestItems'' maxManifestItems,
     maxManifestFallbackChainItems =
       g ''maxManifestFallbackChainItems'' maxManifestFallbackChainItems,
     maxXmlElementDepth = g ''maxXmlElementDepth'' maxXmlElementDepth,
     maxXmlAttributesPerElement = g ''maxXmlAttributesPerElement'' maxXmlAttributesPerElement,
     maxXmlNodesPerDocument = g ''maxXmlNodesPerDocument'' maxXmlNodesPerDocument,
     maxNavigationDepth = g ''maxNavigationDepth'' maxNavigationDepth,
     maxNavigationNodes = g ''maxNavigationNodes'' maxNavigationNodes,
     maxSpineItems = g ''maxSpineItems'' maxSpineItems,
     maxSemanticBlocks = g ''maxSemanticBlocks'' maxSemanticBlocks,
     maxDecodedPublicationTextBytes =
       g ''maxDecodedPublicationTextBytes'' maxDecodedPublicationTextBytes,
     maxProcessingTimeMs = g ''maxProcessingTimeMs'' maxProcessingTimeMs,
     maxCompressionRatio = g ''maxCompressionRatio'' maxCompressionRatio,
     compressionRatioGraceBytes = g ''compressionRatioGraceBytes'' compressionRatioGraceBytes\<rparr>)"

text \<open>One iteration of the validation loop: a safe integer from 0 to the default limit.\<close>

fun admitted_limit :: "js_number \<Rightarrow> int \<Rightarrow> bool" where
  "admitted_limit Nonintegral d \<longleftrightarrow> False"
| "admitted_limit (Integral v) d \<longleftrightarrow> safe_integer v \<and> \<not> v < 0 \<and> \<not> d < v"

definition createEpubIngestionPolicy :: "policy_overrides \<Rightarrow> epub_error + ingestion_policy" where
  "createEpubIngestionPolicy ov =
     (if \<exists>k \<in> set (map fst ov). k \<notin> set (map fst policy_fields) then Inl InternalFailure
      else if \<exists>(k, f) \<in> set policy_fields.
          \<not> admitted_limit (merged_limit ov k f) (f DEFAULT_EPUB_INGESTION_POLICY)
        then Inl InternalFailure
      else Inr (merged_policy ov))"

lemma default_policy_simps:
  "maxCompressedEpubBytes DEFAULT_EPUB_INGESTION_POLICY = 104857600"
  "maxArchiveEntries DEFAULT_EPUB_INGESTION_POLICY = 4096"
  "maxTotalUncompressedBytes DEFAULT_EPUB_INGESTION_POLICY = 536870912"
  "maxEntryUncompressedBytes DEFAULT_EPUB_INGESTION_POLICY = 67108864"
  "maxArchivePathBytes DEFAULT_EPUB_INGESTION_POLICY = 2048"
  "maxArchivePathComponentBytes DEFAULT_EPUB_INGESTION_POLICY = 255"
  "maxArchivePathComponents DEFAULT_EPUB_INGESTION_POLICY = 32"
  "maxSemanticBlocks DEFAULT_EPUB_INGESTION_POLICY = 200000"
  "maxDecodedPublicationTextBytes DEFAULT_EPUB_INGESTION_POLICY = 67108864"
  "maxProcessingTimeMs DEFAULT_EPUB_INGESTION_POLICY = 30000"
  "maxCompressionRatio DEFAULT_EPUB_INGESTION_POLICY = 100"
  "compressionRatioGraceBytes DEFAULT_EPUB_INGESTION_POLICY = 1048576"
  by (simp_all add: DEFAULT_EPUB_INGESTION_POLICY_def MEBIBYTE_def)

section \<open>Properties\<close>

text \<open>A policy no looser than the defaults: what every consumer of a policy relies on.\<close>

definition policy_wf :: "ingestion_policy \<Rightarrow> bool" where
  "policy_wf p \<longleftrightarrow>
     (\<forall>(k, f) \<in> set policy_fields. 0 \<le> f p \<and> f p \<le> f DEFAULT_EPUB_INGESTION_POLICY)"

text \<open>The overrides object that spells out every limit of a policy.\<close>

definition policy_entries :: "ingestion_policy \<Rightarrow> policy_overrides" where
  "policy_entries p = map (\<lambda>(k, f). (k, Integral (f p))) policy_fields"

lemma policy_field_of_merged:
  "(k, f) \<in> set policy_fields \<Longrightarrow> f (merged_policy ov) = integral_part (merged_limit ov k f)"
  by (auto simp: policy_fields_def merged_policy_def Let_def)

lemma admitted_limit_iff:
  "admitted_limit x d \<longleftrightarrow> (\<exists>v. x = Integral v \<and> safe_integer v \<and> 0 \<le> v \<and> v \<le> d)"
  by (cases x) auto

lemma createEpubIngestionPolicy_Inr:
  "createEpubIngestionPolicy ov = Inr p \<longleftrightarrow>
     (set (map fst ov) \<subseteq> set (map fst policy_fields) \<and> p = merged_policy ov \<and>
      (\<forall>(k, f) \<in> set policy_fields.
         admitted_limit (merged_limit ov k f) (f DEFAULT_EPUB_INGESTION_POLICY)))"
  by (auto simp: createEpubIngestionPolicy_def)

lemma policy_wf_simps:
  assumes "policy_wf p"
  shows "0 \<le> maxCompressedEpubBytes p" "maxCompressedEpubBytes p \<le> 104857600"
    "0 \<le> maxArchiveEntries p" "maxArchiveEntries p \<le> 4096"
    "0 \<le> maxTotalUncompressedBytes p" "maxTotalUncompressedBytes p \<le> 536870912"
    "0 \<le> maxEntryUncompressedBytes p" "maxEntryUncompressedBytes p \<le> 67108864"
    "0 \<le> maxSemanticBlocks p" "maxSemanticBlocks p \<le> 200000"
    "0 \<le> maxDecodedPublicationTextBytes p" "maxDecodedPublicationTextBytes p \<le> 67108864"
    "0 \<le> maxProcessingTimeMs p" "maxProcessingTimeMs p \<le> 30000"
    "0 \<le> maxCompressionRatio p" "maxCompressionRatio p \<le> 100"
    "0 \<le> compressionRatioGraceBytes p" "compressionRatioGraceBytes p \<le> 1048576"
  using assms
  by (simp_all add: policy_wf_def policy_fields_def DEFAULT_EPUB_INGESTION_POLICY_def MEBIBYTE_def)

lemma distinct_policy_keys: "distinct (map fst policy_fields)"
  by (simp add: policy_fields_def)

lemma map_of_policy_entries:
  "(k, f) \<in> set policy_fields \<Longrightarrow> map_of (policy_entries p) k = Some (Integral (f p))"
proof -
  assume kf: "(k, f) \<in> set policy_fields"
  have "map fst (policy_entries p) = map fst policy_fields"
    by (simp add: policy_entries_def split_def)
  then have "distinct (map fst (policy_entries p))"
    by (simp add: distinct_policy_keys)
  moreover have "(k, Integral (f p)) \<in> set (policy_entries p)"
    using kf by (force simp: policy_entries_def)
  ultimately show ?thesis by simp
qed

lemma createEpubIngestionPolicy_wf: "createEpubIngestionPolicy ov = Inr p \<Longrightarrow> policy_wf p"
  by (fastforce simp: createEpubIngestionPolicy_Inr policy_wf_def policy_field_of_merged
      admitted_limit_iff)

lemma policy_eqI:
  assumes "\<forall>(k, f) \<in> set policy_fields. f p = f q"
  shows "p = (q :: ingestion_policy)"
  using assms by (simp add: policy_fields_def)

lemma createEpubIngestionPolicy_entries:
  assumes "policy_wf p"
  shows "createEpubIngestionPolicy (policy_entries p) = Inr p"
proof -
  have m: "merged_limit (policy_entries p) k f = Integral (f p)" if "(k, f) \<in> set policy_fields" for k f
    using map_of_policy_entries [OF that] by (simp add: merged_limit_def)
  have d: "f DEFAULT_EPUB_INGESTION_POLICY \<le> MAX_SAFE_INTEGER" if "(k, f) \<in> set policy_fields" for k f
    using that by (auto simp: policy_fields_def DEFAULT_EPUB_INGESTION_POLICY_def MEBIBYTE_def
        MAX_SAFE_INTEGER_def)
  have a: "admitted_limit (Integral (f p)) (f DEFAULT_EPUB_INGESTION_POLICY)"
    if "(k, f) \<in> set policy_fields" for k f
    using assms that d [OF that] by (fastforce simp: policy_wf_def safe_integer_def)
  have "merged_policy (policy_entries p) = p"
    by (rule policy_eqI) (auto simp: policy_field_of_merged m)
  moreover have "set (map fst (policy_entries p)) = set (map fst policy_fields)"
    by (force simp: policy_entries_def)
  ultimately show ?thesis
    using m a by (fastforce simp: createEpubIngestionPolicy_Inr simp del: admitted_limit.simps)
qed

text \<open>
  A policy the constructor accepts never loosens a default limit: every limit is a
  non-negative integer at most the frozen default, an overridden limit has exactly the value given
  and every other limit is the default.
\<close>

theorem createEpubIngestionPolicy_never_loosens:
  assumes "createEpubIngestionPolicy ov = Inr p"
    and "(k, f) \<in> set policy_fields"
  shows "0 \<le> f p \<and> f p \<le> f DEFAULT_EPUB_INGESTION_POLICY \<and>
    (case map_of ov k of Some v \<Rightarrow> v = Integral (f p) | None \<Rightarrow> f p = f DEFAULT_EPUB_INGESTION_POLICY)"
proof -
  from assms have "admitted_limit (merged_limit ov k f) (f DEFAULT_EPUB_INGESTION_POLICY)"
    and p: "p = merged_policy ov"
    by (auto simp: createEpubIngestionPolicy_Inr)
  then obtain v where "merged_limit ov k f = Integral v" "0 \<le> v" "v \<le> f DEFAULT_EPUB_INGESTION_POLICY"
    by (auto simp: admitted_limit_iff)
  with p assms(2) show ?thesis
    by (auto simp: policy_field_of_merged merged_limit_def split: option.splits)
qed

theorem createEpubIngestionPolicy_never_loosens_witness:
  "maxArchiveEntries (merged_policy [(''maxArchiveEntries'', Integral 7)]) = 7"
proof -
  have "createEpubIngestionPolicy [(''maxArchiveEntries'', Integral 7)] =
      Inr (merged_policy [(''maxArchiveEntries'', Integral 7)])"
    by code_simp
  from createEpubIngestionPolicy_never_loosens [OF this, of "''maxArchiveEntries''" maxArchiveEntries]
  show ?thesis by (simp add: policy_fields_def)
qed

end
