(* ===== verification/Processing_Budget.thy ===== *)
theory Processing_Budget
  imports Js_Number Ingestion_Policy
begin

text \<open>
  packages/epub/src/security/processing-budget.ts: the object that accounts for every byte, entry,
  text and block of one ingestion and for its deadline. The clock and the abort signal belong to the
  host: \<open>ticks n\<close> is what the budget sees when it looks for the n-th time.
\<close>

section \<open>State\<close>

text \<open>What \<open>clock.now()\<close> does: throw, return NaN or an infinity, or return a finite number.\<close>

datatype clock_reading = ClockThrows | ClockNotFinite | ClockAt rat

record tick =
  aborted :: bool
  reading :: clock_reading

record budget =
  policy :: ingestion_policy
  ticks :: "nat \<Rightarrow> tick"
  looked :: nat
  startedAtMs :: rat
  lastObservedAtMs :: rat
  archiveInputRegistered :: bool
  archiveEntryCount :: int
  declaredCompressedBytes :: int
  declaredUncompressedBytes :: int
  observedUncompressedBytes :: int
  compressedReadBytes :: int
  decodedPublicationTextBytes :: int
  semanticBlockCount :: int

type_synonym 'a budget_prog = "(budget, epub_error, 'a) prog"

section \<open>Checks\<close>

fun readClock :: "clock_reading \<Rightarrow> epub_error + rat" where
  "readClock ClockThrows = Inl InternalFailure"
| "readClock ClockNotFinite = Inl InternalFailure"
| "readClock (ClockAt t) =
     (if t < 0 \<or> of_int MAX_SAFE_INTEGER < t then Inl InternalFailure else Inr t)"

definition assertSafeNonnegativeInteger :: "js_number \<Rightarrow> ('s, epub_error, int) prog" where
  "assertSafeNonnegativeInteger x =
     (if number_is_count x then ok (integral_part x) else raise InternalFailure)"

definition addWithinSafeInteger :: "int \<Rightarrow> int \<Rightarrow> ('s, epub_error, int) prog" where
  "addWithinSafeInteger l r =
     (if MAX_SAFE_INTEGER - r < l then raise ResourceLimitExceeded else ok (l + r))"

definition ratioExceeded :: "ingestion_policy \<Rightarrow> int \<Rightarrow> int \<Rightarrow> bool" where
  "ratioExceeded p observed compressed \<longleftrightarrow>
     (0 < observed \<and> compressed = 0) \<or>
     (compressionRatioGraceBytes p < observed \<and> compressed * maxCompressionRatio p < observed)"

definition assertCompressionRatio :: "ingestion_policy \<Rightarrow> int \<Rightarrow> int \<Rightarrow> ('s, epub_error, unit) prog" where
  "assertCompressionRatio p observed compressed =
     throwIf (ratioExceeded p observed compressed) ResourceLimitExceeded"

definition checkpoint :: "unit budget_prog" where
  "checkpoint b = (let t = ticks b (looked b); b = b\<lparr>looked := Suc (looked b)\<rparr> in
     if aborted t then (Inl Cancelled, b)
     else case readClock (reading t) of
       Inl e \<Rightarrow> (Inl e, b)
     | Inr now \<Rightarrow>
         if now < lastObservedAtMs b then (Inl InternalFailure, b)
         else let b = b\<lparr>lastObservedAtMs := now\<rparr> in
           if of_int (maxProcessingTimeMs (policy b)) < js_sub now (startedAtMs b)
           then (Inl Cancelled, b) else (Inr (), b))"

text \<open>
  The constructor: the policy, the first clock reading, then a checkpoint. It throws when any of
  them does; no budget exists then.
\<close>

definition createEpubProcessingBudget ::
    "policy_overrides \<Rightarrow> (nat \<Rightarrow> tick) \<Rightarrow> epub_error + budget" where
  "createEpubProcessingBudget ov env =
     (case createEpubIngestionPolicy ov of
        Inl e \<Rightarrow> Inl e
      | Inr p \<Rightarrow>
          (case readClock (reading (env 0)) of
             Inl e \<Rightarrow> Inl e
           | Inr t0 \<Rightarrow>
               (let b = \<lparr>policy = p, ticks = env, looked = 1, startedAtMs = t0,
                   lastObservedAtMs = t0, archiveInputRegistered = False, archiveEntryCount = 0,
                   declaredCompressedBytes = 0, declaredUncompressedBytes = 0,
                   observedUncompressedBytes = 0, compressedReadBytes = 0,
                   decodedPublicationTextBytes = 0, semanticBlockCount = 0\<rparr>
                in case checkpoint b of (Inl e, b') \<Rightarrow> Inl e | (Inr u, b') \<Rightarrow> Inr b')))"

section \<open>Operations\<close>

definition registerArchiveInput :: "js_number \<Rightarrow> unit budget_prog" where
  "registerArchiveInput byteLength =
     andThen checkpoint (\<lambda>_.
     andThen (assertSafeNonnegativeInteger byteLength) (\<lambda>n.
     andThen (gets archiveInputRegistered) (\<lambda>again.
     andThen (throwIf again InternalFailure) (\<lambda>_.
     andThen (gets policy) (\<lambda>p.
     andThen (throwIf (maxCompressedEpubBytes p < n) ResourceLimitExceeded) (\<lambda>_.
     modify (\<lambda>b. b\<lparr>archiveInputRegistered := True\<rparr>)))))))"

definition registerArchiveEntryDeclaration :: "js_number \<Rightarrow> js_number \<Rightarrow> unit budget_prog" where
  "registerArchiveEntryDeclaration compressedSize uncompressedSize =
     andThen checkpoint (\<lambda>_.
     andThen (assertSafeNonnegativeInteger compressedSize) (\<lambda>c.
     andThen (assertSafeNonnegativeInteger uncompressedSize) (\<lambda>u.
     andThen (gets archiveEntryCount) (\<lambda>entries.
     andThen (gets declaredCompressedBytes) (\<lambda>dc.
     andThen (addWithinSafeInteger dc c) (\<lambda>nextCompressed.
     andThen (gets declaredUncompressedBytes) (\<lambda>du.
     andThen (addWithinSafeInteger du u) (\<lambda>nextDeclared.
     andThen (gets policy) (\<lambda>p.
     andThen (throwIf (maxArchiveEntries p < entries + 1 \<or> maxCompressedEpubBytes p < c \<or>
         maxEntryUncompressedBytes p < u \<or> maxTotalUncompressedBytes p < nextDeclared)
       ResourceLimitExceeded) (\<lambda>_.
     andThen (assertCompressionRatio p u c) (\<lambda>_.
     andThen (assertCompressionRatio p nextDeclared nextCompressed) (\<lambda>_.
     modify (\<lambda>b. b\<lparr>archiveEntryCount := entries + 1, declaredCompressedBytes := nextCompressed,
       declaredUncompressedBytes := nextDeclared\<rparr>)))))))))))))"

definition observeDecodedPublicationText :: "js_number \<Rightarrow> unit budget_prog" where
  "observeDecodedPublicationText byteLength =
     andThen checkpoint (\<lambda>_.
     andThen (assertSafeNonnegativeInteger byteLength) (\<lambda>n.
     andThen (gets decodedPublicationTextBytes) (\<lambda>d.
     andThen (addWithinSafeInteger d n) (\<lambda>next.
     andThen (gets policy) (\<lambda>p.
     andThen (throwIf (maxDecodedPublicationTextBytes p < next) ResourceLimitExceeded) (\<lambda>_.
     modify (\<lambda>b. b\<lparr>decodedPublicationTextBytes := next\<rparr>)))))))"

definition observeSemanticBlock :: "unit budget_prog" where
  "observeSemanticBlock =
     andThen checkpoint (\<lambda>_.
     andThen (gets semanticBlockCount) (\<lambda>n.
     andThen (addWithinSafeInteger n 1) (\<lambda>next.
     andThen (gets policy) (\<lambda>p.
     andThen (throwIf (maxSemanticBlocks p < next) ResourceLimitExceeded) (\<lambda>_.
     modify (\<lambda>b. b\<lparr>semanticBlockCount := next\<rparr>))))))"

text \<open>
  \<open>createResourceOperation\<close>: a budget of its own for one lazy read, with the same policy and clock,
  that also stops when the caller's signal does. Its first look is the owner's next one.
\<close>

definition createResourceOperation :: "(nat \<Rightarrow> bool) \<Rightarrow> budget \<Rightarrow> epub_error + budget" where
  "createResourceOperation callerAborted b =
     createEpubProcessingBudget (policy_entries (policy b))
       (\<lambda>n. (ticks b (looked b + n))\<lparr>aborted :=
          aborted (ticks b (looked b + n)) \<or> callerAborted (looked b + n)\<rparr>)"

subsection \<open>Reading one archive entry\<close>

text \<open>
  The closure \<open>beginArchiveEntryRead\<close> returns keeps the entry's own counters and a reference to the budget
  it charges. \<open>readBudget\<close> is the budget as the read sees it while it runs; \<open>Budget_Users\<close> lets any number of
  reads share one budget by handing each the current one. The \<open>checkpoint\<close> callback is the budget's own, which
  is what every caller passes or leaves as the default.
\<close>

record entry_read =
  readBudget :: budget
  compressedSizeOf :: int
  declaredSizeOf :: int
  maximumOutputBytes :: int
  observedBytes :: int
  completed :: bool

type_synonym 'a read_prog = "(entry_read, epub_error, 'a) prog"

definition beginArchiveEntryRead ::
    "js_number \<Rightarrow> js_number \<Rightarrow> js_number option \<Rightarrow> entry_read budget_prog" where
  "beginArchiveEntryRead compressedSize declaredUncompressedSize maximumOption =
     andThen (gets policy) (\<lambda>p.
     andThen checkpoint (\<lambda>_.
     andThen (assertSafeNonnegativeInteger compressedSize) (\<lambda>c.
     andThen (assertSafeNonnegativeInteger declaredUncompressedSize) (\<lambda>d.
     andThen (assertSafeNonnegativeInteger
       (case maximumOption of None \<Rightarrow> Integral (maxEntryUncompressedBytes p) | Some m \<Rightarrow> m)) (\<lambda>m.
     andThen (throwIf (maxEntryUncompressedBytes p < m) InternalFailure) (\<lambda>_.
     andThen (throwIf (maxCompressedEpubBytes p < c \<or> m < d \<or> maxEntryUncompressedBytes p < d)
       ResourceLimitExceeded) (\<lambda>_.
     andThen (assertCompressionRatio p d c) (\<lambda>_.
     gets (\<lambda>b. \<lparr>readBudget = b, compressedSizeOf = c, declaredSizeOf = d, maximumOutputBytes = m,
       observedBytes = 0, completed = False\<rparr>)))))))))"

text \<open>A program on the budget run inside the read.\<close>

definition onBudget :: "'a budget_prog \<Rightarrow> 'a read_prog" where
  "onBudget m r = (case m (readBudget r) of (x, b) \<Rightarrow> (x, r\<lparr>readBudget := b\<rparr>))"

definition observe :: "js_number \<Rightarrow> unit read_prog" where
  "observe byteLength =
     andThen (onBudget checkpoint) (\<lambda>_.
     andThen (assertSafeNonnegativeInteger byteLength) (\<lambda>n.
     andThen (gets id) (\<lambda>r.
     andThen (throwIf (completed r) InternalFailure) (\<lambda>_.
     andThen (addWithinSafeInteger (observedBytes r) n) (\<lambda>nextEntry.
     andThen (addWithinSafeInteger (observedUncompressedBytes (readBudget r)) n) (\<lambda>nextTotal.
     andThen (addWithinSafeInteger (compressedReadBytes (readBudget r)) (compressedSizeOf r)) (\<lambda>prospective.
     andThen (throwIf (maximumOutputBytes r < nextEntry \<or>
         maxEntryUncompressedBytes (policy (readBudget r)) < nextEntry \<or>
         maxTotalUncompressedBytes (policy (readBudget r)) < nextTotal) ResourceLimitExceeded) (\<lambda>_.
     andThen (assertCompressionRatio (policy (readBudget r)) nextEntry (compressedSizeOf r)) (\<lambda>_.
     andThen (assertCompressionRatio (policy (readBudget r)) nextTotal prospective) (\<lambda>_.
     modify (\<lambda>r. r\<lparr>observedBytes := nextEntry,
       readBudget := (readBudget r)\<lparr>observedUncompressedBytes := nextTotal\<rparr>\<rparr>)))))))))))"

definition complete :: "unit read_prog" where
  "complete =
     andThen (onBudget checkpoint) (\<lambda>_.
     andThen (gets id) (\<lambda>r.
     andThen (throwIf (completed r \<or> observedBytes r \<noteq> declaredSizeOf r) InternalFailure) (\<lambda>_.
     andThen (modify (\<lambda>r. r\<lparr>completed := True\<rparr>)) (\<lambda>_.
     andThen (addWithinSafeInteger (compressedReadBytes (readBudget r)) (compressedSizeOf r)) (\<lambda>next.
     modify (\<lambda>r. r\<lparr>readBudget := (readBudget r)\<lparr>compressedReadBytes := next\<rparr>\<rparr>))))))"

section \<open>Checkpoints\<close>

lemma readClock_Inr: "readClock r = Inr t \<longleftrightarrow> r = ClockAt t \<and> 0 \<le> t \<and> t \<le> of_int MAX_SAFE_INTEGER"
  by (cases r) auto

lemma readClock_Inl: "readClock r = Inl e \<Longrightarrow> e = InternalFailure"
  by (cases r) (auto split: if_splits)

text \<open>All a checkpoint changes: it looks once more and moves the last observed instant forward.\<close>

lemma wp_checkpoint:
  assumes "\<And>t. lastObservedAtMs b \<le> t \<Longrightarrow> t \<le> of_int MAX_SAFE_INTEGER \<Longrightarrow>
      \<not> aborted (ticks b (looked b)) \<Longrightarrow>
      js_sub t (startedAtMs b) \<le> of_int (maxProcessingTimeMs (policy b)) \<Longrightarrow>
      Q () (b\<lparr>looked := Suc (looked b), lastObservedAtMs := t\<rparr>)"
    and "\<And>e t. e \<in> {Cancelled, InternalFailure} \<Longrightarrow> lastObservedAtMs b \<le> t \<Longrightarrow>
      t \<le> max (lastObservedAtMs b) (of_int MAX_SAFE_INTEGER) \<Longrightarrow>
      E e (b\<lparr>looked := Suc (looked b), lastObservedAtMs := t\<rparr>)"
  shows "wp checkpoint Q E b"
proof -
  have same: "b\<lparr>looked := Suc (looked b), lastObservedAtMs := lastObservedAtMs b\<rparr> =
      b\<lparr>looked := Suc (looked b)\<rparr>"
    by (rule budget.equality) simp_all
  have early: "E e (b\<lparr>looked := Suc (looked b)\<rparr>)" if "e \<in> {Cancelled, InternalFailure}" for e
    using assms(2) [of e "lastObservedAtMs b"] that by (simp only: same)
  show ?thesis
  proof (cases "readClock (reading (ticks b (looked b)))")
    case (Inl e)
    with readClock_Inl [OF Inl] early show ?thesis
      by (simp add: wp_def checkpoint_def Let_def)
  next
    case (Inr t)
    then have "t \<le> of_int MAX_SAFE_INTEGER" by (auto simp: readClock_Inr)
    with Inr assms(1) [of t] assms(2) [of _ t] early show ?thesis
      by (simp add: wp_def checkpoint_def Let_def)
  qed
qed

lemma checkpoint_aborted:
  "aborted (ticks b (looked b)) \<Longrightarrow> checkpoint b = (Inl Cancelled, b\<lparr>looked := Suc (looked b)\<rparr>)"
  by (simp add: checkpoint_def Let_def)

lemma wp_assertSafe [wp_simps]:
  "wp (assertSafeNonnegativeInteger x) Q E s =
     (if number_is_count x then Q (integral_part x) s else E InternalFailure s)"
  by (simp add: assertSafeNonnegativeInteger_def wp_simps)

lemma wp_addWithin [wp_simps]:
  "wp (addWithinSafeInteger l r) Q E s =
     (if MAX_SAFE_INTEGER - r < l then E ResourceLimitExceeded s else Q (l + r) s)"
  by (simp add: addWithinSafeInteger_def wp_simps)

lemma wp_ratio [wp_simps]:
  "wp (assertCompressionRatio p obs c) Q E s =
     (if ratioExceeded p obs c then E ResourceLimitExceeded s else Q () s)"
  by (simp add: assertCompressionRatio_def wp_simps)

lemma number_is_count_part: "number_is_count x \<Longrightarrow> 0 \<le> integral_part x \<and> integral_part x \<le> MAX_SAFE_INTEGER"
  by (cases x) (auto simp: is_count_def safe_integer_def)

section \<open>The accounting invariant\<close>

definition budget_wf :: "budget \<Rightarrow> bool" where
  "budget_wf b \<longleftrightarrow> policy_wf (policy b) \<and>
     0 \<le> archiveEntryCount b \<and> archiveEntryCount b \<le> maxArchiveEntries (policy b) \<and>
     0 \<le> declaredCompressedBytes b \<and>
     0 \<le> declaredUncompressedBytes b \<and>
     declaredUncompressedBytes b \<le> maxTotalUncompressedBytes (policy b) \<and>
     \<not> ratioExceeded (policy b) (declaredUncompressedBytes b) (declaredCompressedBytes b) \<and>
     0 \<le> observedUncompressedBytes b \<and>
     observedUncompressedBytes b \<le> maxTotalUncompressedBytes (policy b) \<and>
     0 \<le> compressedReadBytes b \<and> compressedReadBytes b \<le> MAX_SAFE_INTEGER \<and>
     0 \<le> decodedPublicationTextBytes b \<and>
     decodedPublicationTextBytes b \<le> maxDecodedPublicationTextBytes (policy b) \<and>
     0 \<le> semanticBlockCount b \<and> semanticBlockCount b \<le> maxSemanticBlocks (policy b) \<and>
     0 \<le> startedAtMs b \<and> startedAtMs b \<le> lastObservedAtMs b"

datatype budget_op =
    Checkpoint
  | RegisterArchiveInput js_number
  | RegisterArchiveEntryDeclaration js_number js_number
  | ObserveDecodedPublicationText js_number
  | ObserveSemanticBlock

fun budget_step :: "budget_op \<Rightarrow> unit budget_prog" where
  "budget_step Checkpoint = checkpoint"
| "budget_step (RegisterArchiveInput n) = registerArchiveInput n"
| "budget_step (RegisterArchiveEntryDeclaration c u) = registerArchiveEntryDeclaration c u"
| "budget_step (ObserveDecodedPublicationText n) = observeDecodedPublicationText n"
| "budget_step ObserveSemanticBlock = observeSemanticBlock"

lemmas budget_op_defs = registerArchiveInput_def registerArchiveEntryDeclaration_def
  observeDecodedPublicationText_def observeSemanticBlock_def

lemma budget_step_wf:
  assumes wf: "budget_wf b"
  shows "wp (budget_step x) (\<lambda>_. budget_wf) (\<lambda>_. budget_wf) b"
  using wf
  by (cases x)
    (auto simp: budget_op_defs wp_simps intro!: wp_checkpoint simp del: fun_upd_apply
      simp: budget_wf_def)

lemma budget_step_looked: "looked b < looked (snd (budget_step x b))"
proof -
  have "wp (budget_step x) (\<lambda>_ t. looked b < looked t) (\<lambda>_ t. looked b < looked t) b"
    by (cases x) (auto simp: budget_op_defs wp_simps intro!: wp_checkpoint)
  then show ?thesis by (auto simp: wp_def split: prod.splits sum.splits)
qed

lemma wp_snd: "wp m (\<lambda>_. P) (\<lambda>_. P) s = P (snd (m s))"
  by (auto simp: wp_def split: prod.splits sum.splits)

interpretation budget_machine: monotone_machine budget_step budget_wf looked
proof unfold_locales
  show "budget_wf b \<Longrightarrow> budget_wf (snd (budget_step x b))" for b x
    using budget_step_wf by (simp add: wp_snd)
  show "looked b \<le> looked (snd (budget_step x b))" for b x
    using budget_step_looked [of b x] by simp
qed

lemma ratioExceeded_0 [simp]: "policy_wf p \<Longrightarrow> \<not> ratioExceeded p 0 c"
  using policy_wf_simps(17) [of p] by (simp add: ratioExceeded_def)

lemma createEpubProcessingBudget_Inr:
  assumes "createEpubProcessingBudget ov env = Inr b"
  shows "budget_wf b \<and> createEpubIngestionPolicy ov = Inr (policy b) \<and> ticks b = env \<and>
    archiveEntryCount b = 0 \<and> declaredCompressedBytes b = 0 \<and> declaredUncompressedBytes b = 0 \<and>
    observedUncompressedBytes b = 0 \<and> compressedReadBytes b = 0 \<and>
    decodedPublicationTextBytes b = 0 \<and> semanticBlockCount b = 0 \<and> \<not> archiveInputRegistered b"
proof -
  from assms obtain p t0 where p: "createEpubIngestionPolicy ov = Inr p"
    and t0: "readClock (reading (env 0)) = Inr t0"
    by (auto simp: createEpubProcessingBudget_def split: sum.splits)
  define b0 where "b0 = \<lparr>policy = p, ticks = env, looked = 1, startedAtMs = t0,
      lastObservedAtMs = t0, archiveInputRegistered = False, archiveEntryCount = 0,
      declaredCompressedBytes = 0, declaredUncompressedBytes = 0, observedUncompressedBytes = 0,
      compressedReadBytes = 0, decodedPublicationTextBytes = 0, semanticBlockCount = 0\<rparr>"
  from assms p t0 have c: "checkpoint b0 = (Inr (), b)"
    by (auto simp: createEpubProcessingBudget_def b0_def Let_def split: sum.splits prod.splits)
  have wf: "policy_wf p" using createEpubIngestionPolicy_wf [OF p] .
  have "wp checkpoint (\<lambda>_ b. budget_wf b \<and> policy b = p \<and> ticks b = env \<and>
    archiveEntryCount b = 0 \<and> declaredCompressedBytes b = 0 \<and> declaredUncompressedBytes b = 0 \<and>
    observedUncompressedBytes b = 0 \<and> compressedReadBytes b = 0 \<and>
    decodedPublicationTextBytes b = 0 \<and> semanticBlockCount b = 0 \<and> \<not> archiveInputRegistered b)
    (\<lambda>_ _. True) b0"
    using wf policy_wf_simps [OF wf] t0
    by (intro wp_checkpoint) (auto simp: b0_def budget_wf_def readClock_Inr MAX_SAFE_INTEGER_def)
  with c p show ?thesis by (auto simp: wp_def)
qed

text \<open>An operation that throws leaves every counter as it was: only the last look is recorded.\<close>

lemma budget_step_throws:
  "wp (budget_step x) (\<lambda>_ _. True)
     (\<lambda>e t. \<exists>l a. t = b\<lparr>looked := l, lastObservedAtMs := a\<rparr> \<and> lastObservedAtMs b \<le> a) b"
proof -
  have "wp (budget_step x) (\<lambda>_ _. True)
     (\<lambda>e t. \<exists>a. t = b\<lparr>looked := Suc (looked b), lastObservedAtMs := a\<rparr> \<and> lastObservedAtMs b \<le> a) b"
    by (cases x) (auto simp: budget_op_defs wp_simps intro!: wp_checkpoint)
  then show ?thesis by (rule wp_mono) auto
qed

section \<open>The contract of one entry read\<close>

definition read_wf :: "entry_read \<Rightarrow> bool" where
  "read_wf r \<longleftrightarrow> budget_wf (readBudget r) \<and>
     0 \<le> observedBytes r \<and> observedBytes r \<le> maximumOutputBytes r \<and>
     maximumOutputBytes r \<le> maxEntryUncompressedBytes (policy (readBudget r)) \<and>
     0 \<le> compressedSizeOf r \<and> compressedSizeOf r \<le> maxCompressedEpubBytes (policy (readBudget r)) \<and>
     0 \<le> declaredSizeOf r \<and> declaredSizeOf r \<le> maximumOutputBytes r \<and>
     \<not> ratioExceeded (policy (readBudget r)) (observedBytes r) (compressedSizeOf r)"

lemma wp_onBudget: "wp (onBudget m) Q E r = wp m (\<lambda>x b. Q x (r\<lparr>readBudget := b\<rparr>)) (\<lambda>e b. E e (r\<lparr>readBudget := b\<rparr>)) (readBudget r)"
  by (auto simp: wp_def onBudget_def split: prod.splits sum.splits)

lemma beginArchiveEntryRead_wf:
  assumes "budget_wf b"
  shows "wp (beginArchiveEntryRead c d m)
    (\<lambda>r b'. read_wf r \<and> readBudget r = b' \<and> policy b' = policy b \<and> budget_wf b' \<and>
       c = Integral (compressedSizeOf r) \<and> d = Integral (declaredSizeOf r) \<and> observedBytes r = 0 \<and>
       \<not> completed r \<and>
       \<not> ratioExceeded (policy b) (declaredSizeOf r) (compressedSizeOf r) \<and>
       observedUncompressedBytes b' = observedUncompressedBytes b \<and>
       compressedReadBytes b' = compressedReadBytes b)
    (\<lambda>e. budget_wf) b"
  using assms
  by (auto simp: beginArchiveEntryRead_def wp_simps read_wf_def budget_wf_def
      number_is_count_Integral is_count_def intro!: wp_checkpoint)

text \<open>The effect of a chunk: both counters grow by its length, within every bound.\<close>

lemma observe_effect:
  assumes "observe n r = (Inr u, r')"
  shows "\<exists>k t. n = Integral k \<and> 0 \<le> k \<and> lastObservedAtMs (readBudget r) \<le> t \<and> \<not> completed r \<and>
    r' = r\<lparr>observedBytes := observedBytes r + k,
      readBudget := (readBudget r)\<lparr>looked := Suc (looked (readBudget r)), lastObservedAtMs := t,
        observedUncompressedBytes := observedUncompressedBytes (readBudget r) + k\<rparr>\<rparr> \<and>
    observedBytes r + k \<le> maximumOutputBytes r \<and>
    observedBytes r + k \<le> maxEntryUncompressedBytes (policy (readBudget r)) \<and>
    observedUncompressedBytes (readBudget r) + k \<le> maxTotalUncompressedBytes (policy (readBudget r)) \<and>
    \<not> ratioExceeded (policy (readBudget r)) (observedBytes r + k) (compressedSizeOf r) \<and>
    \<not> ratioExceeded (policy (readBudget r)) (observedUncompressedBytes (readBudget r) + k)
      (compressedReadBytes (readBudget r) + compressedSizeOf r)"
  (is "?P r'")
proof -
  have "wp (observe n) (\<lambda>_. ?P) (\<lambda>_ _. True) r"
    unfolding observe_def
    by (simp add: wp_simps wp_onBudget, rule wp_checkpoint)
      (auto simp: number_is_count_Integral is_count_def)
  with assms show ?thesis by (simp add: wp_def)
qed

lemma observe_throws:
  assumes "observe n r = (Inl e, r')"
  shows "\<exists>l t. lastObservedAtMs (readBudget r) \<le> t \<and>
    r' = r\<lparr>readBudget := (readBudget r)\<lparr>looked := l, lastObservedAtMs := t\<rparr>\<rparr>"
  (is "?P r'")
proof -
  have "wp (observe n) (\<lambda>_ _. True) (\<lambda>_. ?P) r"
    unfolding observe_def
    by (simp add: wp_simps wp_onBudget, rule wp_checkpoint) auto
  with assms show ?thesis by (simp add: wp_def)
qed

lemma complete_effect:
  assumes "complete r = (Inr u, r')"
  shows "\<exists>t. lastObservedAtMs (readBudget r) \<le> t \<and> \<not> completed r \<and> observedBytes r = declaredSizeOf r \<and>
    compressedReadBytes (readBudget r) + compressedSizeOf r \<le> MAX_SAFE_INTEGER \<and>
    r' = r\<lparr>completed := True,
      readBudget := (readBudget r)\<lparr>looked := Suc (looked (readBudget r)), lastObservedAtMs := t,
        compressedReadBytes := compressedReadBytes (readBudget r) + compressedSizeOf r\<rparr>\<rparr>"
  (is "?P r'")
proof -
  have "wp complete (\<lambda>_. ?P) (\<lambda>_ _. True) r"
    unfolding complete_def
    by (simp add: wp_simps wp_onBudget, rule wp_checkpoint) auto
  with assms show ?thesis by (simp add: wp_def)
qed

lemma observe_wf:
  assumes "read_wf r" "observe n r = (Inr u, r')"
  shows "read_wf r'"
  using observe_effect [OF assms(2)] assms(1) by (auto simp: read_wf_def budget_wf_def)

lemma observe_throws_wf:
  assumes "read_wf r" "observe n r = (Inl e, r')"
  shows "read_wf r'"
  using observe_throws [OF assms(2)] assms(1) by (auto simp: read_wf_def budget_wf_def)

interpretation entry_ledger:
  ledger "\<lambda>k. observe (Integral k)" observedBytes maximumOutputBytes read_wf
proof unfold_locales
  fix r n u t
  assume wf: "read_wf r" and eq: "observe (Integral n) r = (Inr u, t)"
  show "0 \<le> n \<and> read_wf t \<and> observedBytes t = observedBytes r + n \<and>
      maximumOutputBytes t = maximumOutputBytes r"
    using observe_effect [OF eq] observe_wf [OF wf eq] by auto
next
  fix r n e t
  assume wf: "read_wf r" and eq: "observe (Integral n) r = (Inl e, t)"
  show "read_wf t \<and> observedBytes t = observedBytes r \<and> maximumOutputBytes t = maximumOutputBytes r"
    using observe_throws [OF eq] observe_throws_wf [OF wf eq] by auto
qed (simp add: read_wf_def)

lemma text_effect:
  assumes "observeDecodedPublicationText (Integral n) b = (Inr u, t)"
  shows "0 \<le> n \<and> decodedPublicationTextBytes t = decodedPublicationTextBytes b + n \<and> policy t = policy b"
proof -
  have "wp (observeDecodedPublicationText (Integral n))
    (\<lambda>_ t. 0 \<le> n \<and> decodedPublicationTextBytes t = decodedPublicationTextBytes b + n \<and>
       policy t = policy b) (\<lambda>_ _. True) b"
    unfolding observeDecodedPublicationText_def
    by (simp add: wp_simps, rule wp_checkpoint) (auto simp: wp_simps is_count_def)
  with assms show ?thesis by (simp add: wp_def)
qed

interpretation text_ledger:
  ledger "\<lambda>k. observeDecodedPublicationText (Integral k)" decodedPublicationTextBytes
    "\<lambda>b. maxDecodedPublicationTextBytes (policy b)" budget_wf
proof unfold_locales
  fix b n u t
  assume wf: "budget_wf b" and eq: "observeDecodedPublicationText (Integral n) b = (Inr u, t)"
  have "budget_wf t"
    using budget_step_wf [OF wf, of "ObserveDecodedPublicationText (Integral n)"] eq by (simp add: wp_def)
  with text_effect [OF eq] show "0 \<le> n \<and> budget_wf t \<and>
      decodedPublicationTextBytes t = decodedPublicationTextBytes b + n \<and>
      maxDecodedPublicationTextBytes (policy t) = maxDecodedPublicationTextBytes (policy b)"
    by simp
next
  fix b n e t
  assume wf: "budget_wf b" and eq: "observeDecodedPublicationText (Integral n) b = (Inl e, t)"
  show "budget_wf t \<and> decodedPublicationTextBytes t = decodedPublicationTextBytes b \<and>
      maxDecodedPublicationTextBytes (policy t) = maxDecodedPublicationTextBytes (policy b)"
    using budget_step_wf [OF wf, of "ObserveDecodedPublicationText (Integral n)"]
      budget_step_throws [of "ObserveDecodedPublicationText (Integral n)" b] eq
    by (auto simp: wp_def)
qed (simp add: budget_wf_def)

section \<open>A budget to try them on\<close>

definition quiet_env :: "nat \<Rightarrow> tick" where
  "quiet_env n = \<lparr>aborted = False, reading = ClockAt 5\<rparr>"

definition sample_budget :: budget where
  "sample_budget = \<lparr>policy = DEFAULT_EPUB_INGESTION_POLICY, ticks = quiet_env, looked = Suc (Suc 0),
     startedAtMs = 5, lastObservedAtMs = 5, archiveInputRegistered = False, archiveEntryCount = 0,
     declaredCompressedBytes = 0, declaredUncompressedBytes = 0, observedUncompressedBytes = 0,
     compressedReadBytes = 0, decodedPublicationTextBytes = 0, semanticBlockCount = 0\<rparr>"

lemma sample_policy: "createEpubIngestionPolicy [] = Inr DEFAULT_EPUB_INGESTION_POLICY"
  by (simp add: createEpubIngestionPolicy_Inr merged_limit_def)
    (auto simp: policy_fields_def merged_policy_def merged_limit_def DEFAULT_EPUB_INGESTION_POLICY_def
      safe_integer_def MAX_SAFE_INTEGER_def MEBIBYTE_def)

lemma sample_created: "createEpubProcessingBudget [] quiet_env = Inr sample_budget"
  by (simp add: createEpubProcessingBudget_def sample_policy quiet_env_def checkpoint_def
      Let_def js_sub_def MAX_SAFE_INTEGER_def sample_budget_def default_policy_simps)

section \<open>Properties of single operations\<close>

text \<open>
  An operation of the budget that throws changes no counter: apart from the record of its last
  look at the clock, the budget is exactly what it was.
\<close>

theorem budget_throw_changes_nothing:
  assumes "budget_step x b = (Inl e, t)"
  shows "t = b\<lparr>looked := looked t, lastObservedAtMs := lastObservedAtMs t\<rparr>"
  using budget_step_throws [of x b] assms by (auto simp: wp_def)

theorem budget_throw_changes_nothing_witness:
  "\<exists>t. budget_step (RegisterArchiveInput Nonintegral) sample_budget = (Inl InternalFailure, t) \<and>
     t = sample_budget\<lparr>looked := looked t, lastObservedAtMs := lastObservedAtMs t\<rparr>"
proof -
  have "budget_step (RegisterArchiveInput Nonintegral) sample_budget =
      (Inl InternalFailure, snd (budget_step (RegisterArchiveInput Nonintegral) sample_budget))"
    by (simp add: registerArchiveInput_def andThen_apply checkpoint_def Let_def sample_budget_def
        quiet_env_def MAX_SAFE_INTEGER_def js_sub_def default_policy_simps
        assertSafeNonnegativeInteger_def)
  with budget_throw_changes_nothing [OF this] show ?thesis by metis
qed

text \<open>
  Cancellation is prompt: when the signal is aborted at the moment of a call, every operation
  of the budget throws \<open>cancelled\<close> before it accounts for anything.
\<close>

theorem aborted_budget_refuses_work:
  assumes "aborted (ticks b (looked b))"
  shows "budget_step x b = (Inl Cancelled, b\<lparr>looked := Suc (looked b)\<rparr>)"
  using checkpoint_aborted [OF assms] by (cases x) (simp_all add: budget_op_defs andThen_apply)

theorem aborted_budget_refuses_work_witness:
  "fst (budget_step ObserveSemanticBlock
     (sample_budget\<lparr>ticks := \<lambda>_. \<lparr>aborted = True, reading = ClockThrows\<rparr>\<rparr>)) = Inl Cancelled"
  using aborted_budget_refuses_work [of
      "sample_budget\<lparr>ticks := \<lambda>_. \<lparr>aborted = True, reading = ClockThrows\<rparr>\<rparr>" ObserveSemanticBlock]
  by simp

lemma forEach_observe_frame:
  "forEach (\<lambda>k. observe (Integral k)) chunks r = (Inr u, r') \<Longrightarrow>
     policy (readBudget r') = policy (readBudget r) \<and> compressedSizeOf r' = compressedSizeOf r \<and>
     declaredSizeOf r' = declaredSizeOf r \<and> maximumOutputBytes r' = maximumOutputBytes r \<and>
     compressedReadBytes (readBudget r') = compressedReadBytes (readBudget r) \<and>
     observedUncompressedBytes (readBudget r') - observedBytes r' =
       observedUncompressedBytes (readBudget r) - observedBytes r"
proof (induction chunks arbitrary: r)
  case (Cons k ks)
  then obtain v s where "observe (Integral k) r = (Inr v, s)"
    and rest: "forEach (\<lambda>k. observe (Integral k)) ks s = (Inr u, r')"
    by (auto simp: andThen_Inr)
  from observe_effect [OF this(1)] Cons.IH [OF rest] show ?case by auto
qed simp

text \<open>
  Inflation is bounded end to end: when an entry read is opened, fed chunks and completed
  without an exception, the chunks add up to exactly the declared size, that size is within the
  caller's maximum, the entry limit and the compression ratio, and the budget's totals grew by
  exactly the entry's uncompressed and compressed sizes.
\<close>

theorem entry_read_inflates_exactly_as_declared:
  assumes "budget_wf b"
    and "beginArchiveEntryRead (Integral c) (Integral d) (Some (Integral m)) b = (Inr r, b1)"
    and "andThen (forEach (\<lambda>k. observe (Integral k)) chunks) (\<lambda>_. complete) r = (Inr (), r')"
  shows "sum_list chunks = d \<and> (\<forall>k \<in> set chunks. 0 \<le> k) \<and> d \<le> m \<and>
    d \<le> maxEntryUncompressedBytes (policy b) \<and> \<not> ratioExceeded (policy b) d c \<and>
    observedUncompressedBytes (readBudget r') = observedUncompressedBytes b + d \<and>
    compressedReadBytes (readBudget r') = compressedReadBytes b + c"
proof -
  have "wp (beginArchiveEntryRead (Integral c) (Integral d) (Some (Integral m)))
      (\<lambda>r b'. maximumOutputBytes r = m) (\<lambda>_ _. True) b"
    by (auto simp: beginArchiveEntryRead_def wp_simps intro!: wp_checkpoint)
  with assms(2) have m: "maximumOutputBytes r = m" by (simp add: wp_def)
  from beginArchiveEntryRead_wf [OF assms(1), of "Integral c" "Integral d" "Some (Integral m)"] assms(2)
  have r: "read_wf r" "readBudget r = b1" "policy b1 = policy b" "compressedSizeOf r = c"
      "declaredSizeOf r = d" "observedBytes r = 0" "\<not> ratioExceeded (policy b) d c"
      "observedUncompressedBytes b1 = observedUncompressedBytes b"
      "compressedReadBytes b1 = compressedReadBytes b"
    by (auto simp: wp_def)
  from assms(3) obtain u s where s: "forEach (\<lambda>k. observe (Integral k)) chunks r = (Inr u, s)"
    and c: "complete s = (Inr (), r')"
    by (auto simp: andThen_Inr)
  from r(1) have dm: "d \<le> m" "m \<le> maxEntryUncompressedBytes (policy b)"
    using r m by (auto simp: read_wf_def)
  from entry_ledger.charge_all [OF r(1) s] forEach_observe_frame [OF s] complete_effect [OF c] r dm
  show ?thesis by (auto simp: algebra_simps)
qed

theorem entry_read_inflates_exactly_as_declared_witness:
  "sum_list [2, 3 :: int] = 5 \<and> \<not> ratioExceeded DEFAULT_EPUB_INGESTION_POLICY 5 4"
proof -
  have wf: "budget_wf sample_budget"
    using createEpubProcessingBudget_Inr [OF sample_created] by simp
  obtain r b1 where "beginArchiveEntryRead (Integral 4) (Integral 5) (Some (Integral 6)) sample_budget = (Inr r, b1)"
    and "andThen (forEach (\<lambda>k. observe (Integral k)) [2, 3]) (\<lambda>_. complete) r =
      (Inr (), snd (andThen (forEach (\<lambda>k. observe (Integral k)) [2, 3]) (\<lambda>_. complete) r))"
    by (simp add: beginArchiveEntryRead_def andThen_apply checkpoint_def Let_def sample_budget_def
        quiet_env_def MAX_SAFE_INTEGER_def js_sub_def default_policy_simps
        assertSafeNonnegativeInteger_def is_count_iff assertCompressionRatio_def
        ratioExceeded_def observe_def complete_def onBudget_def addWithinSafeInteger_def)
  from entry_read_inflates_exactly_as_declared [OF wf this]
  show ?thesis by (simp add: sample_budget_def)
qed

end
