(* ===== verification/Js_Value.thy ===== *)
theory Js_Value
  imports Complex_Main Prelude "HOL-Library.Word"
begin

text \<open>
  The values of the source language that the contracts decode: strings as sequences of 16-bit code
  units with their code points, numbers with the cases the decoders tell apart (a finite value, the
  negative zero, NaN and the infinities), and the values a JSON document or a caller can hand over.
\<close>

section \<open>Strings\<close>

type_synonym js_string = "16 word list"

text \<open>The contents of a \<open>Uint8Array\<close>.\<close>

type_synonym bytes = "8 word list"

text \<open>The string literal of the source with the given ASCII characters.\<close>

definition js :: "string \<Rightarrow> js_string" where
  "js = map of_char"

definition is_high_surrogate :: "16 word \<Rightarrow> bool" where
  "is_high_surrogate u \<longleftrightarrow> 0xD800 \<le> u \<and> u \<le> 0xDBFF"

definition is_low_surrogate :: "16 word \<Rightarrow> bool" where
  "is_low_surrogate u \<longleftrightarrow> 0xDC00 \<le> u \<and> u \<le> 0xDFFF"

definition surrogate_code_point :: "16 word \<Rightarrow> 16 word \<Rightarrow> nat" where
  "surrogate_code_point h l = 0x10000 + (unat h - 0xD800) * 0x400 + (unat l - 0xDC00)"

text \<open>
  \<open>Array.from(text)\<close>: a high surrogate followed by a low one is one code point, every other unit,
  a lone surrogate included, is a code point of its own.
\<close>

fun code_points :: "js_string \<Rightarrow> nat list" where
  "code_points [] = []"
| "code_points [u] = [unat u]"
| "code_points (u # v # us) =
     (if is_high_surrogate u \<and> is_low_surrogate v then surrogate_code_point u v # code_points us
      else unat u # code_points (v # us))"

text \<open>The UTF-16 units of a code point, and the bytes \<open>TextEncoder\<close> produces for it.\<close>

definition utf16_units :: "nat \<Rightarrow> js_string" where
  "utf16_units c = (if c < 0x10000 then [of_nat c]
     else [of_nat (0xD800 + (c - 0x10000) div 0x400), of_nat (0xDC00 + (c - 0x10000) mod 0x400)])"

definition utf8_length :: "nat \<Rightarrow> nat" where
  "utf8_length c = (if c < 0x80 then 1 else if c < 0x800 then 2 else if c < 0x10000 then 3 else 4)"

text \<open>The characters \<open>String.prototype.trim\<close> removes.\<close>

definition is_trimmed :: "nat \<Rightarrow> bool" where
  "is_trimmed c \<longleftrightarrow> c \<in> set [9, 10, 11, 12, 13, 32, 0xA0, 0x1680, 0x2028, 0x2029, 0x202F, 0x205F, 0x3000, 0xFEFF]
     \<or> (0x2000 \<le> c \<and> c \<le> 0x200A)"

definition starts_or_ends_trimmed :: "nat list \<Rightarrow> bool" where
  "starts_or_ends_trimmed cs \<longleftrightarrow> cs \<noteq> [] \<and> (is_trimmed (hd cs) \<or> is_trimmed (last cs))"

lemma length_utf16_units: "length (utf16_units c) = (if c < 0x10000 then 1 else 2)"
  by (simp add: utf16_units_def)

lemma code_points_Nil [simp]: "code_points s = [] \<longleftrightarrow> s = []"
  by (cases s rule: code_points.cases) auto

lemma length_code_points_le: "length (code_points s) \<le> length s"
  by (induction s rule: code_points.induct) auto

section \<open>Numbers\<close>

text \<open>A finite \<open>number\<close> by its exact value; \<open>NegZero\<close> is the value \<open>Object.is(x, -0)\<close> detects.\<close>

datatype js_num = Finite rat | NegZero | NonFinite

fun num_value :: "js_num \<Rightarrow> rat" where
  "num_value (Finite r) = r"
| "num_value NegZero = 0"
| "num_value NonFinite = 0"

fun is_finite_num :: "js_num \<Rightarrow> bool" where
  "is_finite_num NonFinite = False"
| "is_finite_num _ = True"

definition is_integer_num :: "js_num \<Rightarrow> bool" where
  "is_integer_num x \<longleftrightarrow> is_finite_num x \<and> of_int \<lfloor>num_value x\<rfloor> = num_value x"

text \<open>\<open>Number.isSafeInteger\<close>: true of the negative zero as well.\<close>

definition is_safe_integer_num :: "js_num \<Rightarrow> bool" where
  "is_safe_integer_num x \<longleftrightarrow> is_integer_num x \<and> safe_integer \<lfloor>num_value x\<rfloor>"

section \<open>Values\<close>

datatype js_value =
    JUndefined
  | JNull
  | JBool bool
  | JNumber js_num
  | JString js_string
  | JArray "js_value list"
  | JObject "(string \<times> js_value) list"

text \<open>\<open>o.k\<close> of an object: \<open>undefined\<close> when the key is absent.\<close>

definition property :: "(string \<times> js_value) list \<Rightarrow> string \<Rightarrow> js_value" where
  "property fields k = (case map_of fields k of Some v \<Rightarrow> v | None \<Rightarrow> JUndefined)"

lemma property_Nil [simp]: "property [] k = JUndefined"
  by (simp add: property_def)

lemma property_Cons [simp]: "property ((k', v) # fields) k = (if k = k' then v else property fields k)"
  by (simp add: property_def)

end
