(* ===== verification/Locator_Contract.thy ===== *)
theory Locator_Contract
  imports Js_Value
begin

text \<open>
  packages/shared/src/contracts/locator.ts with the primitives it builds on
  (packages/shared/src/primitives) and the generated schema validators it calls
  (packages/shared/src/generated/validators/standalone.ts): decoding a reading locator or a locator
  range from an untrusted value, and the order of reading positions.
\<close>

section \<open>Types\<close>

datatype locator_error_code = Malformed | UnsupportedVersion

text \<open>A decoder throws its own error, or the \<open>RangeError\<close>/\<open>TypeError\<close> of a primitive escapes.\<close>

datatype locator_failure = LocatorContractError locator_error_code | PrimitiveError

record book_identity =
  scheme :: js_string
  schemeVersion :: int
  identityValue :: js_string

datatype anchor_kind = ElementId

record structural_anchor =
  anchorKind :: anchor_kind
  formatVersion :: int
  anchorValue :: js_string
  anchorIndex :: int

record reading_locator =
  locatorSchemaVersion :: int
  bookIdentity :: book_identity
  spineItemId :: js_string
  spineItemIndex :: int
  anchor :: structural_anchor
  textOffsetCodePoints :: int
  progression :: "rat option"

record locator_range =
  rangeSchemaVersion :: int
  rangeStart :: reading_locator
  rangeEnd :: reading_locator

section \<open>Primitives\<close>

fun createSchemaVersion :: "js_value \<Rightarrow> locator_failure + int" where
  "createSchemaVersion (JNumber x) =
     (if \<not> is_finite_num x \<or> \<not> is_safe_integer_num x \<or> num_value x \<le> 0 \<or> x = NegZero
      then Inl PrimitiveError else Inr \<lfloor>num_value x\<rfloor>)"
| "createSchemaVersion _ = Inl PrimitiveError"

fun createIndex :: "js_value \<Rightarrow> locator_failure + int" where
  "createIndex (JNumber x) =
     (if \<not> is_finite_num x \<or> \<not> is_safe_integer_num x \<or> num_value x < 0 \<or> x = NegZero
      then Inl PrimitiveError else Inr \<lfloor>num_value x\<rfloor>)"
| "createIndex _ = Inl PrimitiveError"

fun createProgression :: "js_value \<Rightarrow> locator_failure + rat" where
  "createProgression (JNumber x) =
     (if \<not> is_finite_num x \<or> num_value x < 0 \<or> 1 < num_value x \<or> x = NegZero
      then Inl PrimitiveError else Inr (num_value x))"
| "createProgression _ = Inl PrimitiveError"

definition is_control_character :: "nat \<Rightarrow> bool" where
  "is_control_character c \<longleftrightarrow> c \<le> 0x1F \<or> c = 0x7F"

fun createIdentifier :: "js_value \<Rightarrow> locator_failure + js_string" where
  "createIdentifier (JString s) = (let cs = code_points s in
     if length cs = 0 \<or> 128 < length cs \<or> starts_or_ends_trimmed cs \<or> list_ex is_control_character cs
     then Inl PrimitiveError else Inr s)"
| "createIdentifier _ = Inl PrimitiveError"

section \<open>Schema validators\<close>

definition is_lower :: "nat \<Rightarrow> bool" where
  "is_lower c \<longleftrightarrow> 97 \<le> c \<and> c \<le> 122"

definition is_upper :: "nat \<Rightarrow> bool" where
  "is_upper c \<longleftrightarrow> 65 \<le> c \<and> c \<le> 90"

definition is_digit :: "nat \<Rightarrow> bool" where
  "is_digit c \<longleftrightarrow> 48 \<le> c \<and> c \<le> 57"

definition is_alnum :: "nat \<Rightarrow> bool" where
  "is_alnum c \<longleftrightarrow> is_lower c \<or> is_upper c \<or> is_digit c"

text \<open>\<open>^[a-z][a-z0-9-]*$\<close>\<close>

definition scheme_pattern :: "nat list \<Rightarrow> bool" where
  "scheme_pattern cs = (case cs of [] \<Rightarrow> False
     | c # ds \<Rightarrow> is_lower c \<and> list_all (\<lambda>d. is_lower d \<or> is_digit d \<or> d = 45) ds)"

text \<open>\<open>^[A-Za-z0-9._~-]+$\<close>\<close>

definition identity_value_pattern :: "nat list \<Rightarrow> bool" where
  "identity_value_pattern cs \<longleftrightarrow> cs \<noteq> [] \<and> list_all (\<lambda>d. is_alnum d \<or> d \<in> {46, 95, 126, 45}) cs"

text \<open>\<open>^[A-Za-z0-9_][A-Za-z0-9._:-]*$\<close>\<close>

definition anchor_pattern :: "nat list \<Rightarrow> bool" where
  "anchor_pattern cs = (case cs of [] \<Rightarrow> False
     | c # ds \<Rightarrow> (is_alnum c \<or> c = 95) \<and> list_all (\<lambda>d. is_alnum d \<or> d \<in> {46, 95, 58, 45}) ds)"

text \<open>
  The identifier pattern: edges that are neither control characters nor white space, an interior
  without control characters.
\<close>

definition identifier_edge :: "nat \<Rightarrow> bool" where
  "identifier_edge c \<longleftrightarrow> \<not> (c \<le> 0x20 \<or> c = 0x7F \<or> c = 0xA0 \<or> c = 0x1680 \<or> (0x2000 \<le> c \<and> c \<le> 0x200A) \<or>
     c = 0x2028 \<or> c = 0x2029 \<or> c = 0x202F \<or> c = 0x205F \<or> c = 0x3000 \<or> c = 0xFEFF)"

definition identifier_pattern :: "nat list \<Rightarrow> bool" where
  "identifier_pattern cs = (case cs of [] \<Rightarrow> False
     | c # ds \<Rightarrow> identifier_edge c \<and>
         (ds = [] \<or> (list_all (\<lambda>d. \<not> is_control_character d) (butlast ds) \<and> identifier_edge (last ds))))"

fun valid_string :: "nat \<Rightarrow> (nat list \<Rightarrow> bool) \<Rightarrow> js_value \<Rightarrow> bool" where
  "valid_string limit pattern (JString s) =
     (let cs = code_points s in \<not> limit < length cs \<and> \<not> length cs < 1 \<and> pattern cs)"
| "valid_string limit pattern _ = False"

fun valid_integer :: "int \<Rightarrow> js_value \<Rightarrow> bool" where
  "valid_integer low (JNumber x) =
     (is_integer_num x \<and> \<not> of_int MAX_SAFE_INTEGER < num_value x \<and> \<not> num_value x < of_int low)"
| "valid_integer low _ = False"

fun valid_version_1 :: "js_value \<Rightarrow> bool" where
  "valid_version_1 (JNumber x) = (valid_integer 1 (JNumber x) \<and> num_value x = 1)"
| "valid_version_1 _ = False"

fun valid_progression :: "js_value \<Rightarrow> bool" where
  "valid_progression (JNumber x) = (is_finite_num x \<and> \<not> 1 < num_value x \<and> \<not> num_value x < 0)"
| "valid_progression _ = False"

definition only_keys :: "string list \<Rightarrow> (string \<times> js_value) list \<Rightarrow> bool" where
  "only_keys ks kvs \<longleftrightarrow> list_all (\<lambda>(k, v). k \<in> set ks) kvs"

fun validateBookIdentity :: "js_value \<Rightarrow> bool" where
  "validateBookIdentity (JObject kv) =
     (only_keys [''scheme'', ''schemeVersion'', ''value''] kv \<and>
      valid_string 64 scheme_pattern (property kv ''scheme'') \<and>
      valid_integer 1 (property kv ''schemeVersion'') \<and>
      valid_string 128 identifier_pattern (property kv ''value'') \<and>
      valid_string 512 identity_value_pattern (property kv ''value''))"
| "validateBookIdentity _ = False"

fun validateAnchor :: "js_value \<Rightarrow> bool" where
  "validateAnchor (JObject kv) =
     (only_keys [''kind'', ''formatVersion'', ''value'', ''anchorIndex''] kv \<and>
      property kv ''kind'' = JString (js ''element-id'') \<and>
      valid_version_1 (property kv ''formatVersion'') \<and>
      valid_string 128 anchor_pattern (property kv ''value'') \<and>
      valid_integer 0 (property kv ''anchorIndex''))"
| "validateAnchor _ = False"

fun validateReadingLocatorV1Wire :: "js_value \<Rightarrow> bool" where
  "validateReadingLocatorV1Wire (JObject kv) =
     (only_keys [''schemaVersion'', ''bookIdentity'', ''spineItemId'', ''spineItemIndex'', ''anchor'',
        ''textOffsetCodePoints'', ''progression''] kv \<and>
      valid_version_1 (property kv ''schemaVersion'') \<and>
      validateBookIdentity (property kv ''bookIdentity'') \<and>
      valid_string 128 identifier_pattern (property kv ''spineItemId'') \<and>
      valid_integer 0 (property kv ''spineItemIndex'') \<and>
      validateAnchor (property kv ''anchor'') \<and>
      valid_integer 0 (property kv ''textOffsetCodePoints'') \<and>
      (property kv ''progression'' = JUndefined \<or> valid_progression (property kv ''progression'')))"
| "validateReadingLocatorV1Wire _ = False"

fun validateLocatorRangeV1Wire :: "js_value \<Rightarrow> bool" where
  "validateLocatorRangeV1Wire (JObject kv) =
     (only_keys [''schemaVersion'', ''start'', ''end''] kv \<and>
      valid_version_1 (property kv ''schemaVersion'') \<and>
      validateReadingLocatorV1Wire (property kv ''start'') \<and>
      validateReadingLocatorV1Wire (property kv ''end''))"
| "validateLocatorRangeV1Wire _ = False"

section \<open>Decoding\<close>

fun readRecord :: "js_value \<Rightarrow> locator_failure + (string \<times> js_value) list" where
  "readRecord (JObject kv) = Inr kv"
| "readRecord _ = Inl (LocatorContractError Malformed)"

definition readSupportedVersion :: "js_value \<Rightarrow> int \<Rightarrow> locator_failure + int" where
  "readSupportedVersion v supported =
     (case createSchemaVersion v of
        Inl _ \<Rightarrow> Inl (LocatorContractError Malformed)
      | Inr n \<Rightarrow> if n \<noteq> supported then Inl (LocatorContractError UnsupportedVersion) else Inr n)"

definition preflightReadingLocator :: "js_value \<Rightarrow> locator_failure + int" where
  "preflightReadingLocator input =
     bindE (readRecord input) (\<lambda>locator.
     bindE (readSupportedVersion (property locator ''schemaVersion'') 1) (\<lambda>version.
     bindE (readRecord (property locator ''anchor'')) (\<lambda>anchor.
     bindE (readSupportedVersion (property anchor ''formatVersion'') 1) (\<lambda>_. Inr version))))"

fun objectFields :: "js_value \<Rightarrow> (string \<times> js_value) list" where
  "objectFields (JObject kv) = kv"
| "objectFields _ = []"

fun stringValue :: "js_value \<Rightarrow> js_string" where
  "stringValue (JString s) = s"
| "stringValue _ = []"

definition createDomainLocator :: "js_value \<Rightarrow> int \<Rightarrow> locator_failure + reading_locator" where
  "createDomainLocator wire version =
     (let w = objectFields wire; b = objectFields (property w ''bookIdentity'');
        a = objectFields (property w ''anchor'') in
     bindE (if property w ''progression'' = JUndefined then Inr None
        else bindE (createProgression (property w ''progression'')) (\<lambda>p. Inr (Some p))) (\<lambda>p.
     bindE (createSchemaVersion (property b ''schemeVersion'')) (\<lambda>sv.
     bindE (createIdentifier (property b ''value'')) (\<lambda>bv.
     bindE (createIdentifier (property w ''spineItemId'')) (\<lambda>si.
     bindE (createIndex (property w ''spineItemIndex'')) (\<lambda>sx.
     bindE (createSchemaVersion (property a ''formatVersion'')) (\<lambda>fv.
     bindE (createIndex (property a ''anchorIndex'')) (\<lambda>ax.
     bindE (createIndex (property w ''textOffsetCodePoints'')) (\<lambda>ofs.
     Inr \<lparr>locatorSchemaVersion = version,
       bookIdentity = \<lparr>scheme = stringValue (property b ''scheme''), schemeVersion = sv, identityValue = bv\<rparr>,
       spineItemId = si, spineItemIndex = sx,
       anchor = \<lparr>anchorKind = ElementId, formatVersion = fv,
         anchorValue = stringValue (property a ''value''), anchorIndex = ax\<rparr>,
       textOffsetCodePoints = ofs, progression = p\<rparr>)))))))))"

definition bookIdentitiesMatch :: "book_identity \<Rightarrow> book_identity \<Rightarrow> bool" where
  "bookIdentitiesMatch l r \<longleftrightarrow> scheme l = scheme r \<and> schemeVersion l = schemeVersion r \<and>
     identityValue l = identityValue r"

definition structuralAnchorsMatch :: "structural_anchor \<Rightarrow> structural_anchor \<Rightarrow> bool" where
  "structuralAnchorsMatch l r \<longleftrightarrow> anchorKind l = anchorKind r \<and> formatVersion l = formatVersion r \<and>
     anchorValue l = anchorValue r"

definition compareLocatorPositions :: "reading_locator \<Rightarrow> reading_locator \<Rightarrow> locator_failure + int" where
  "compareLocatorPositions s e =
     (let sameSpineId = (spineItemId s = spineItemId e);
        sameSpineIndex = (spineItemIndex s = spineItemIndex e) in
      if sameSpineId \<noteq> sameSpineIndex then Inl (LocatorContractError Malformed)
      else if \<not> sameSpineIndex then Inr (spineItemIndex s - spineItemIndex e)
      else let sameAnchor = structuralAnchorsMatch (anchor s) (anchor e);
          sameAnchorIndex = (anchorIndex (anchor s) = anchorIndex (anchor e)) in
        if sameAnchor \<noteq> sameAnchorIndex then Inl (LocatorContractError Malformed)
        else if \<not> sameAnchorIndex then Inr (anchorIndex (anchor s) - anchorIndex (anchor e))
        else Inr (textOffsetCodePoints s - textOffsetCodePoints e))"

definition decodeReadingLocatorV1 :: "js_value \<Rightarrow> locator_failure + reading_locator" where
  "decodeReadingLocatorV1 input =
     bindE (preflightReadingLocator input) (\<lambda>version.
     if \<not> validateReadingLocatorV1Wire input then Inl (LocatorContractError Malformed)
     else createDomainLocator input version)"

fun progression_exceeds :: "rat option \<Rightarrow> rat option \<Rightarrow> bool" where
  "progression_exceeds (Some p) (Some q) = (q < p)"
| "progression_exceeds _ _ = False"

definition decodeLocatorRangeV1 :: "js_value \<Rightarrow> locator_failure + locator_range" where
  "decodeLocatorRangeV1 input =
     bindE (readRecord input) (\<lambda>range.
     bindE (readSupportedVersion (property range ''schemaVersion'') 1) (\<lambda>version.
     bindE (preflightReadingLocator (property range ''start'')) (\<lambda>sv.
     bindE (preflightReadingLocator (property range ''end'')) (\<lambda>ev.
     if \<not> validateLocatorRangeV1Wire input then Inl (LocatorContractError Malformed)
     else
       bindE (createDomainLocator (property range ''start'') sv) (\<lambda>s.
       bindE (createDomainLocator (property range ''end'') ev) (\<lambda>e.
       if \<not> bookIdentitiesMatch (bookIdentity s) (bookIdentity e)
         then Inl (LocatorContractError Malformed)
       else bindE (compareLocatorPositions s e) (\<lambda>d.
         if 0 < d then Inl (LocatorContractError Malformed)
         else if progression_exceeds (progression s) (progression e)
           then Inl (LocatorContractError Malformed)
         else Inr \<lparr>rangeSchemaVersion = version, rangeStart = s, rangeEnd = e\<rparr>)))))))"

section \<open>Validated values build\<close>

lemma if_Inl_Inr: "(if b then Inl e else m) = Inr y \<longleftrightarrow> \<not> b \<and> m = Inr y"
  by simp

lemma identifier_edge_plain: "identifier_edge c \<Longrightarrow> \<not> is_trimmed c \<and> \<not> is_control_character c"
  by (auto simp: identifier_edge_def is_trimmed_def is_control_character_def)

lemma identifier_pattern_plain:
  assumes "identifier_pattern cs"
  shows "cs \<noteq> [] \<and> \<not> starts_or_ends_trimmed cs \<and> \<not> list_ex is_control_character cs"
proof -
  from assms obtain c ds where cs: "cs = c # ds" and c: "identifier_edge c"
    and ds: "ds = [] \<or> list_all (\<lambda>d. \<not> is_control_character d) (butlast ds) \<and> identifier_edge (last ds)"
    by (cases cs) (auto simp: identifier_pattern_def)
  show ?thesis
  proof (cases "ds = []")
    case True
    with c cs show ?thesis
      by (simp add: starts_or_ends_trimmed_def identifier_edge_plain)
  next
    case False
    then have "set ds = set (butlast ds) \<union> {last ds}"
      by (metis append_butlast_last_id list.set(1) list.simps(15) set_append)
    then have "\<not> list_ex is_control_character ds"
      using ds False identifier_edge_plain [of "last ds"] by (auto simp: list_ex_iff list_all_iff)
    with c cs ds False show ?thesis
      by (simp add: starts_or_ends_trimmed_def identifier_edge_plain)
  qed
qed

text \<open>A value the schema admits as an identifier is one \<open>createIdentifier\<close> accepts.\<close>

lemma valid_identifier:
  "valid_string n identifier_pattern v \<Longrightarrow> n \<le> 128 \<Longrightarrow> createIdentifier v = Inr (stringValue v)"
  by (cases v) (auto simp: Let_def dest!: identifier_pattern_plain)

lemma valid_integer_iff:
  "valid_integer low v \<longleftrightarrow> (\<exists>x. v = JNumber x \<and> is_integer_num x \<and>
     low \<le> \<lfloor>num_value x\<rfloor> \<and> \<lfloor>num_value x\<rfloor> \<le> MAX_SAFE_INTEGER)"
proof (cases v)
  case (JNumber x)
  have "num_value x < of_int low \<longleftrightarrow> \<lfloor>num_value x\<rfloor> < low" by (simp add: floor_less_iff)
  moreover have "is_integer_num x \<Longrightarrow>
      (of_int MAX_SAFE_INTEGER < num_value x \<longleftrightarrow> MAX_SAFE_INTEGER < \<lfloor>num_value x\<rfloor>)"
    by (metis is_integer_num_def of_int_less_iff)
  ultimately show ?thesis using JNumber by auto
qed auto

lemma valid_index:
  assumes "valid_integer 0 v"
  shows "createIndex v = (if v = JNumber NegZero then Inl PrimitiveError
    else Inr \<lfloor>num_value (case v of JNumber x \<Rightarrow> x)\<rfloor>)"
proof -
  from assms obtain x where v: "v = JNumber x" and x: "is_integer_num x" "0 \<le> \<lfloor>num_value x\<rfloor>"
      "\<lfloor>num_value x\<rfloor> \<le> MAX_SAFE_INTEGER"
    by (auto simp: valid_integer_iff)
  from x have "is_safe_integer_num x" "is_finite_num x" "0 \<le> num_value x"
    by (auto simp: is_safe_integer_num_def safe_integer_def is_integer_num_def zero_le_floor)
  with v show ?thesis by auto
qed

lemma valid_version:
  assumes "valid_integer 1 v"
  shows "createSchemaVersion v = Inr \<lfloor>num_value (case v of JNumber x \<Rightarrow> x)\<rfloor>"
proof -
  from assms obtain x where v: "v = JNumber x" and x: "is_integer_num x" "1 \<le> \<lfloor>num_value x\<rfloor>"
      "\<lfloor>num_value x\<rfloor> \<le> MAX_SAFE_INTEGER"
    by (auto simp: valid_integer_iff)
  from x(2) have "0 < num_value x" by linarith
  with x have "is_safe_integer_num x" "is_finite_num x" "x \<noteq> NegZero"
    by (auto simp: is_safe_integer_num_def safe_integer_def is_integer_num_def)
  with v \<open>0 < num_value x\<close> show ?thesis by auto
qed

section \<open>The decoded locators\<close>

text \<open>What a locator that came out of the decoder satisfies.\<close>

definition identity_wf :: "book_identity \<Rightarrow> bool" where
  "identity_wf b \<longleftrightarrow> valid_string 64 scheme_pattern (JString (scheme b)) \<and>
     1 \<le> schemeVersion b \<and> schemeVersion b \<le> MAX_SAFE_INTEGER \<and>
     valid_string 128 identifier_pattern (JString (identityValue b)) \<and>
     valid_string 512 identity_value_pattern (JString (identityValue b))"

definition anchor_wf :: "structural_anchor \<Rightarrow> bool" where
  "anchor_wf a \<longleftrightarrow> formatVersion a = 1 \<and> valid_string 128 anchor_pattern (JString (anchorValue a)) \<and>
     0 \<le> anchorIndex a \<and> anchorIndex a \<le> MAX_SAFE_INTEGER"

definition locator_wf :: "reading_locator \<Rightarrow> bool" where
  "locator_wf l \<longleftrightarrow> locatorSchemaVersion l = 1 \<and> identity_wf (bookIdentity l) \<and>
     valid_string 128 identifier_pattern (JString (spineItemId l)) \<and>
     0 \<le> spineItemIndex l \<and> spineItemIndex l \<le> MAX_SAFE_INTEGER \<and> anchor_wf (anchor l) \<and>
     0 \<le> textOffsetCodePoints l \<and> textOffsetCodePoints l \<le> MAX_SAFE_INTEGER \<and>
     (case progression l of None \<Rightarrow> True | Some p \<Rightarrow> 0 \<le> p \<and> p \<le> 1)"

text \<open>The wire value of a locator: the object \<open>JSON.stringify\<close> would write.\<close>

definition wire_int :: "int \<Rightarrow> js_value" where
  "wire_int n = JNumber (Finite (of_int n))"

definition identity_wire :: "book_identity \<Rightarrow> js_value" where
  "identity_wire b = JObject [(''scheme'', JString (scheme b)), (''schemeVersion'', wire_int (schemeVersion b)),
     (''value'', JString (identityValue b))]"

definition anchor_wire :: "structural_anchor \<Rightarrow> js_value" where
  "anchor_wire a = JObject [(''kind'', JString (js ''element-id'')), (''formatVersion'', wire_int (formatVersion a)),
     (''value'', JString (anchorValue a)), (''anchorIndex'', wire_int (anchorIndex a))]"

definition locator_wire :: "reading_locator \<Rightarrow> js_value" where
  "locator_wire l = JObject ([(''schemaVersion'', wire_int (locatorSchemaVersion l)),
     (''bookIdentity'', identity_wire (bookIdentity l)),
     (''spineItemId'', JString (spineItemId l)), (''spineItemIndex'', wire_int (spineItemIndex l)),
     (''anchor'', anchor_wire (anchor l)), (''textOffsetCodePoints'', wire_int (textOffsetCodePoints l))] @
     (case progression l of None \<Rightarrow> [] | Some p \<Rightarrow> [(''progression'', JNumber (Finite p))]))"

definition range_wire :: "locator_range \<Rightarrow> js_value" where
  "range_wire r = JObject [(''schemaVersion'', wire_int (rangeSchemaVersion r)),
     (''start'', locator_wire (rangeStart r)), (''end'', locator_wire (rangeEnd r))]"

lemma valid_wire_int: "valid_integer low (wire_int n) \<longleftrightarrow> low \<le> n \<and> n \<le> MAX_SAFE_INTEGER"
  by (simp add: wire_int_def is_integer_num_def linorder_not_less del: of_int_le_iff of_int_less_iff
      flip: of_int_le_iff of_int_less_iff) (auto simp: not_less)

lemma num_value_wire: "\<lfloor>num_value (case wire_int n of JNumber x \<Rightarrow> x)\<rfloor> = n"
  by (simp add: wire_int_def)

lemma wire_int_nonzero: "wire_int n \<noteq> JNumber NegZero" "wire_int n \<noteq> JUndefined"
  by (simp_all add: wire_int_def)

lemma createIndex_wire: "0 \<le> n \<Longrightarrow> n \<le> MAX_SAFE_INTEGER \<Longrightarrow> createIndex (wire_int n) = Inr n"
  using valid_index [of "wire_int n"] by (simp add: valid_wire_int num_value_wire wire_int_nonzero)

lemma createSchemaVersion_wire:
  "1 \<le> n \<Longrightarrow> n \<le> MAX_SAFE_INTEGER \<Longrightarrow> createSchemaVersion (wire_int n) = Inr n"
  using valid_version [of "wire_int n"] by (simp add: valid_wire_int num_value_wire)

lemma valid_version_1_wire: "valid_version_1 (wire_int 1)"
  using valid_wire_int [of 1 1] by (simp add: wire_int_def MAX_SAFE_INTEGER_def)

lemma only_keys_simps [simp]:
  "only_keys ks []"
  "only_keys ks ((k, v) # kvs) \<longleftrightarrow> k \<in> set ks \<and> only_keys ks kvs"
  "only_keys ks (kvs @ kvs') \<longleftrightarrow> only_keys ks kvs \<and> only_keys ks kvs'"
  by (simp_all add: only_keys_def)

lemma validate_identity_wire: "identity_wf b \<Longrightarrow> validateBookIdentity (identity_wire b)"
  by (simp add: identity_wf_def identity_wire_def valid_wire_int del: valid_string.simps)

lemma validate_anchor_wire: "anchor_wf a \<Longrightarrow> validateAnchor (anchor_wire a)"
  by (simp add: anchor_wf_def anchor_wire_def valid_wire_int valid_version_1_wire del: valid_string.simps)

lemma property_append:
  "property (kvs @ kvs') k = (if k \<in> fst ` set kvs then property kvs k else property kvs' k)"
  by (auto simp: property_def map_add_def map_of_eq_None_iff split: option.splits)
    (metis domI dom_map_of_conv_image_fst image_eqI fst_conv)+

lemma progression_wire:
  "property (case progression l of None \<Rightarrow> [] | Some p \<Rightarrow> [(''progression'', JNumber (Finite p))]) ''progression'' =
     (case progression l of None \<Rightarrow> JUndefined | Some p \<Rightarrow> JNumber (Finite p))"
  by (simp split: option.splits)

lemmas locator_wire_props = locator_wire_def property_append progression_wire

lemma validate_locator_wire: "locator_wf l \<Longrightarrow> validateReadingLocatorV1Wire (locator_wire l)"
  by (simp add: locator_wf_def locator_wire_props valid_wire_int valid_version_1_wire
      validate_identity_wire validate_anchor_wire del: valid_string.simps split: option.splits)

lemma createDomainLocator_wire:
  assumes "locator_wf l"
  shows "createDomainLocator (locator_wire l) 1 = Inr l"
proof -
  have b: "createSchemaVersion (wire_int (schemeVersion (bookIdentity l))) = Inr (schemeVersion (bookIdentity l))"
    "createIdentifier (JString (identityValue (bookIdentity l))) = Inr (identityValue (bookIdentity l))"
    "createIdentifier (JString (spineItemId l)) = Inr (spineItemId l)"
    using assms by (simp_all add: locator_wf_def identity_wf_def createSchemaVersion_wire
        valid_identifier [of 128] del: valid_string.simps createIdentifier.simps)
  have i: "createIndex (wire_int (spineItemIndex l)) = Inr (spineItemIndex l)"
    "createIndex (wire_int (anchorIndex (anchor l))) = Inr (anchorIndex (anchor l))"
    "createIndex (wire_int (textOffsetCodePoints l)) = Inr (textOffsetCodePoints l)"
    "createSchemaVersion (wire_int (formatVersion (anchor l))) = Inr (formatVersion (anchor l))"
    using assms by (simp_all add: locator_wf_def anchor_wf_def createIndex_wire createSchemaVersion_wire
        MAX_SAFE_INTEGER_def)
  have p: "progression l = Some q \<Longrightarrow> createProgression (JNumber (Finite q)) = Inr q" for q
    using assms by (simp add: locator_wf_def)
  have "anchorKind (anchor l) = ElementId" by (cases "anchorKind (anchor l)") simp
  moreover have "locatorSchemaVersion l = 1" using assms by (simp add: locator_wf_def)
  ultimately show ?thesis
    by (cases "progression l")
      (simp_all add: createDomainLocator_def locator_wire_props identity_wire_def anchor_wire_def b i p
        del: createIndex.simps createProgression.simps createIdentifier.simps createSchemaVersion.simps)
qed

lemma preflight_wire:
  assumes "locator_wf l"
  shows "preflightReadingLocator (locator_wire l) = Inr 1"
proof -
  have "readSupportedVersion (wire_int 1) 1 = Inr 1"
    using createSchemaVersion_wire [of 1] by (simp add: readSupportedVersion_def MAX_SAFE_INTEGER_def)
  moreover have "locatorSchemaVersion l = 1" "formatVersion (anchor l) = 1"
    using assms by (simp_all add: locator_wf_def anchor_wf_def)
  ultimately show ?thesis
    by (simp add: preflightReadingLocator_def locator_wire_props anchor_wire_def
        readSupportedVersion_def del: createSchemaVersion.simps)
qed

lemma decodeReadingLocatorV1_wire: "locator_wf l \<Longrightarrow> decodeReadingLocatorV1 (locator_wire l) = Inr l"
  by (simp add: decodeReadingLocatorV1_def preflight_wire validate_locator_wire createDomainLocator_wire)

subsection \<open>Whatever decodes is well formed\<close>

lemma readSupportedVersion_Inr: "readSupportedVersion v n = Inr m \<Longrightarrow> m = n"
  by (auto simp: readSupportedVersion_def split: sum.splits if_splits)

lemma preflight_Inr: "preflightReadingLocator v = Inr n \<Longrightarrow> n = 1"
  by (auto simp: preflightReadingLocator_def bindE_Inr dest: readSupportedVersion_Inr)

lemma preflight_Inl: "preflightReadingLocator v = Inl e \<Longrightarrow> \<exists>c. e = LocatorContractError c"
proof -
  have r: "readRecord w = Inl e \<Longrightarrow> \<exists>c. e = LocatorContractError c" for w by (cases w) auto
  have s: "readSupportedVersion w n = Inl e \<Longrightarrow> \<exists>c. e = LocatorContractError c" for w n
    by (auto simp: readSupportedVersion_def split: sum.splits if_splits)
  show "preflightReadingLocator v = Inl e \<Longrightarrow> \<exists>c. e = LocatorContractError c"
    by (auto simp: preflightReadingLocator_def bindE_Inl dest: r s)
qed

lemma createIndex_Inr:
  "createIndex v = Inr n \<Longrightarrow> 0 \<le> n \<and> n \<le> MAX_SAFE_INTEGER"
  by (cases v) (auto simp: is_safe_integer_num_def safe_integer_def split: if_splits)

lemma createSchemaVersion_Inr:
  "createSchemaVersion v = Inr n \<Longrightarrow> 1 \<le> n \<and> n \<le> MAX_SAFE_INTEGER"
proof (cases v)
  case (JNumber x)
  assume "createSchemaVersion v = Inr n"
  with JNumber have n: "n = \<lfloor>num_value x\<rfloor>" "is_safe_integer_num x" "0 < num_value x"
    by (auto split: if_splits)
  then have "of_int n = num_value x" by (simp add: is_safe_integer_num_def is_integer_num_def)
  with n have "0 < n" by (metis of_int_0_less_iff)
  with n show ?thesis by (simp add: is_safe_integer_num_def safe_integer_def)
qed auto

lemma createProgression_Inr: "createProgression v = Inr p \<Longrightarrow> 0 \<le> p \<and> p \<le> 1"
  by (cases v) (auto split: if_splits)

lemma valid_version_1_Inr: "valid_version_1 v \<Longrightarrow> createSchemaVersion v = Inr 1"
proof (cases v)
  case (JNumber x)
  assume v: "valid_version_1 v"
  with JNumber have "valid_integer 1 v" "num_value x = 1" by auto
  with valid_version [of v] JNumber show ?thesis by simp
qed auto

lemma valid_string_value: "valid_string n P v \<Longrightarrow> valid_string n P (JString (stringValue v))"
  by (cases v) auto

lemma validateBookIdentity_parts:
  assumes "validateBookIdentity v"
  shows "\<exists>sv. createSchemaVersion (property (objectFields v) ''schemeVersion'') = Inr sv \<and>
    createIdentifier (property (objectFields v) ''value'') = Inr (stringValue (property (objectFields v) ''value'')) \<and>
    identity_wf \<lparr>scheme = stringValue (property (objectFields v) ''scheme''), schemeVersion = sv,
      identityValue = stringValue (property (objectFields v) ''value'')\<rparr>"
proof (cases v)
  case (JObject kvs)
  with assms have sv: "valid_integer 1 (property kvs ''schemeVersion'')"
    and val: "valid_string 128 identifier_pattern (property kvs ''value'')"
      "valid_string 512 identity_value_pattern (property kvs ''value'')"
      "valid_string 64 scheme_pattern (property kvs ''scheme'')"
    by (simp_all del: valid_string.simps valid_integer.simps)
  from valid_version [OF sv] obtain n where n: "createSchemaVersion (property kvs ''schemeVersion'') = Inr n"
    by blast
  from createSchemaVersion_Inr [OF this] valid_identifier [OF val(1)] n val [THEN valid_string_value] JObject
  show ?thesis by (simp add: identity_wf_def del: valid_string.simps createSchemaVersion.simps createIdentifier.simps)
qed (use assms in auto)

lemma validateAnchor_parts:
  assumes "validateAnchor v"
  shows "createSchemaVersion (property (objectFields v) ''formatVersion'') = Inr 1"
    and "valid_integer 0 (property (objectFields v) ''anchorIndex'')"
    and "valid_string 128 anchor_pattern (JString (stringValue (property (objectFields v) ''value'')))"
  using assms by (cases v; auto simp del: valid_string.simps valid_integer.simps createSchemaVersion.simps
      dest: valid_version_1_Inr valid_string_value)+

text \<open>Where a negative zero slips through the schema, which admits it as a number from 0 on.\<close>

definition has_negative_zero :: "js_value \<Rightarrow> bool" where
  "has_negative_zero v \<longleftrightarrow> JNumber NegZero \<in>
     {property (objectFields v) ''spineItemIndex'', property (objectFields v) ''textOffsetCodePoints'',
      property (objectFields v) ''progression'',
      property (objectFields (property (objectFields v) ''anchor'')) ''anchorIndex''}"

lemma validated_parts:
  assumes "validateReadingLocatorV1Wire v"
  shows "validateBookIdentity (property (objectFields v) ''bookIdentity'')"
    and "valid_string 128 identifier_pattern (property (objectFields v) ''spineItemId'')"
    and "valid_integer 0 (property (objectFields v) ''spineItemIndex'')"
    and "validateAnchor (property (objectFields v) ''anchor'')"
    and "valid_integer 0 (property (objectFields v) ''textOffsetCodePoints'')"
    and "property (objectFields v) ''progression'' = JUndefined \<or>
      valid_progression (property (objectFields v) ''progression'')"
  using assms by (cases v; simp del: valid_string.simps valid_integer.simps valid_progression.simps)+

lemma valid_progression_creates:
  "valid_progression v \<Longrightarrow> createProgression v =
     (if v = JNumber NegZero then Inl PrimitiveError else Inr (num_value (case v of JNumber x \<Rightarrow> x)))"
  by (cases v) auto

lemma validated_domain_wf:
  assumes v: "validateReadingLocatorV1Wire v" and l: "createDomainLocator v 1 = Inr l"
  shows "locator_wf l"
proof -
  note parts = validated_parts [OF v]
  note a = validateAnchor_parts [OF parts(4)]
  from validateBookIdentity_parts [OF parts(1)] valid_identifier [OF parts(2)] a(1) l
  show ?thesis
    by (auto simp: createDomainLocator_def Let_def bindE_Inr locator_wf_def anchor_wf_def
        valid_string_value [OF parts(2)] a(3)
        simp del: valid_string.simps createIdentifier.simps createSchemaVersion.simps createIndex.simps createProgression.simps
        dest: createIndex_Inr createProgression_Inr split: if_splits option.splits)
qed

lemma validated_domain_total:
  assumes v: "validateReadingLocatorV1Wire v"
  shows "createDomainLocator v n = Inl e \<longleftrightarrow> e = PrimitiveError \<and> has_negative_zero v"
proof -
  note parts = validated_parts [OF v]
  note a = validateAnchor_parts [OF parts(4)]
  from validateBookIdentity_parts [OF parts(1)] valid_identifier [OF parts(2)] a(1) parts(6)
  show ?thesis
    by (auto simp: createDomainLocator_def Let_def bindE_Inl valid_index [OF parts(3)]
        valid_index [OF parts(5)] valid_index [OF a(2)] valid_progression_creates has_negative_zero_def
        simp del: createIdentifier.simps createSchemaVersion.simps createIndex.simps createProgression.simps valid_progression.simps
        split: if_splits)
qed

lemma validated_preflight:
  assumes "validateReadingLocatorV1Wire v"
  shows "preflightReadingLocator v = Inr 1"
proof (cases v)
  case (JObject w)
  with assms have s: "valid_version_1 (property w ''schemaVersion'')"
    and a: "validateAnchor (property w ''anchor'')"
    by (simp_all del: valid_version_1.simps valid_string.simps)
  from a obtain kvs where "property w ''anchor'' = JObject kvs" by (cases "property w ''anchor''") auto
  with valid_version_1_Inr [OF s] validateAnchor_parts(1) [OF a] JObject show ?thesis
    by (simp add: preflightReadingLocator_def readSupportedVersion_def del: createSchemaVersion.simps)
qed (use assms in auto)

lemma decodeReadingLocatorV1_Inr:
  "decodeReadingLocatorV1 v = Inr l \<longleftrightarrow> validateReadingLocatorV1Wire v \<and> createDomainLocator v 1 = Inr l"
  by (auto simp: decodeReadingLocatorV1_def bindE_Inr validated_preflight dest: preflight_Inr split: if_splits)

lemma decodeReadingLocatorV1_wf: "decodeReadingLocatorV1 v = Inr l \<Longrightarrow> locator_wf l"
  by (auto simp: decodeReadingLocatorV1_Inr validated_domain_wf)

section \<open>Reading positions\<close>

text \<open>
  A position in a publication: spine item, then anchor within it, then offset within the anchor's
  text. Reading order is the lexicographic order.
\<close>

datatype position = Position (spine_of: int) (anchor_of: int) (offset_of: int)

instantiation position :: linorder
begin

definition less_eq_position :: "position \<Rightarrow> position \<Rightarrow> bool" where
  "less_eq_position p q \<longleftrightarrow> spine_of p < spine_of q \<or> (spine_of p = spine_of q \<and>
     (anchor_of p < anchor_of q \<or> (anchor_of p = anchor_of q \<and> offset_of p \<le> offset_of q)))"

definition less_position :: "position \<Rightarrow> position \<Rightarrow> bool" where
  "less_position p q \<longleftrightarrow> p \<le> q \<and> p \<noteq> (q :: position)"

instance
proof
  fix p q r :: position
  show "p < q \<longleftrightarrow> p \<le> q \<and> \<not> q \<le> p"
    by (cases p; cases q) (auto simp: less_eq_position_def less_position_def)
  show "p \<le> p" by (simp add: less_eq_position_def)
  show "p \<le> q \<Longrightarrow> q \<le> r \<Longrightarrow> p \<le> r" by (auto simp: less_eq_position_def)
  show "p \<le> q \<Longrightarrow> q \<le> p \<Longrightarrow> p = q" by (cases p; cases q) (auto simp: less_eq_position_def)
  show "p \<le> q \<or> q \<le> p" by (auto simp: less_eq_position_def)
qed

end

definition position_of :: "reading_locator \<Rightarrow> position" where
  "position_of l = Position (spineItemIndex l) (anchorIndex (anchor l)) (textOffsetCodePoints l)"

lemma compareLocatorPositions_order:
  "compareLocatorPositions s e = Inr d \<Longrightarrow> (0 < d \<longleftrightarrow> position_of e < position_of s) \<and>
     (d < 0 \<longleftrightarrow> position_of s < position_of e)"
  by (auto simp: compareLocatorPositions_def Let_def position_of_def less_position_def
      less_eq_position_def split: if_splits)

text \<open>Two locators of one publication agree on where an index is.\<close>

definition consistent_positions :: "reading_locator \<Rightarrow> reading_locator \<Rightarrow> bool" where
  "consistent_positions s e \<longleftrightarrow>
     (spineItemId s = spineItemId e \<longleftrightarrow> spineItemIndex s = spineItemIndex e) \<and>
     (spineItemIndex s = spineItemIndex e \<longrightarrow>
       (structuralAnchorsMatch (anchor s) (anchor e) \<longleftrightarrow> anchorIndex (anchor s) = anchorIndex (anchor e)))"

lemma compareLocatorPositions_Inr:
  "(\<exists>d. compareLocatorPositions s e = Inr d) \<longleftrightarrow> consistent_positions s e"
  by (auto simp: compareLocatorPositions_def Let_def consistent_positions_def)

lemma compareLocatorPositions_Inl: "compareLocatorPositions s e = Inl f \<Longrightarrow> f = LocatorContractError Malformed"
  by (auto simp: compareLocatorPositions_def Let_def split: if_splits)

text \<open>What a decoded range satisfies.\<close>

definition range_wf :: "locator_range \<Rightarrow> bool" where
  "range_wf r \<longleftrightarrow> rangeSchemaVersion r = 1 \<and> locator_wf (rangeStart r) \<and> locator_wf (rangeEnd r) \<and>
     bookIdentity (rangeStart r) = bookIdentity (rangeEnd r) \<and>
     consistent_positions (rangeStart r) (rangeEnd r) \<and>
     position_of (rangeStart r) \<le> position_of (rangeEnd r) \<and>
     \<not> progression_exceeds (progression (rangeStart r)) (progression (rangeEnd r))"

lemma bookIdentitiesMatch_eq: "bookIdentitiesMatch l r \<longleftrightarrow> l = r"
  by (auto simp: bookIdentitiesMatch_def intro: book_identity.equality)

lemma decodeLocatorRangeV1_wf:
  assumes "decodeLocatorRangeV1 v = Inr r"
  shows "range_wf r"
proof -
  from assms obtain kvs n sv ev s e d where v: "readRecord v = Inr kvs" and val: "validateLocatorRangeV1Wire v"
    and n: "readSupportedVersion (property kvs ''schemaVersion'') 1 = Inr n"
      "preflightReadingLocator (property kvs ''start'') = Inr sv"
      "preflightReadingLocator (property kvs ''end'') = Inr ev"
    and se: "createDomainLocator (property kvs ''start'') sv = Inr s"
      "createDomainLocator (property kvs ''end'') ev = Inr e"
    and rest: "bookIdentitiesMatch (bookIdentity s) (bookIdentity e)" "compareLocatorPositions s e = Inr d"
      "\<not> 0 < d" "\<not> progression_exceeds (progression s) (progression e)"
      "r = \<lparr>rangeSchemaVersion = n, rangeStart = s, rangeEnd = e\<rparr>"
    unfolding decodeLocatorRangeV1_def bindE_Inr if_Inl_Inr not_not sum.inject by metis
  from readSupportedVersion_Inr [OF n(1)] preflight_Inr [OF n(2)] preflight_Inr [OF n(3)]
  have [simp]: "n = 1" "sv = 1" "ev = 1" by simp_all
  from v have v: "v = JObject kvs" by (cases v) auto
  from val v have "validateReadingLocatorV1Wire (property kvs ''start'')"
    "validateReadingLocatorV1Wire (property kvs ''end'')" by auto
  with se have "locator_wf s \<and> locator_wf e" by (auto intro: validated_domain_wf)
  with rest compareLocatorPositions_order [OF rest(2)] compareLocatorPositions_Inr [of s e] show ?thesis
    by (auto simp: range_wf_def bookIdentitiesMatch_eq not_less)
qed

lemma decodeLocatorRangeV1_wire:
  assumes "range_wf r"
  shows "decodeLocatorRangeV1 (range_wire r) = Inr r"
proof -
  have wf: "locator_wf (rangeStart r)" "locator_wf (rangeEnd r)" "rangeSchemaVersion r = 1"
    using assms by (simp_all add: range_wf_def)
  obtain d where d: "compareLocatorPositions (rangeStart r) (rangeEnd r) = Inr d" "\<not> 0 < d"
    using assms compareLocatorPositions_order compareLocatorPositions_Inr
    by (metis range_wf_def not_less)
  have "readSupportedVersion (wire_int 1) 1 = Inr 1"
    using createSchemaVersion_wire [of 1] by (simp add: readSupportedVersion_def MAX_SAFE_INTEGER_def)
  with d wf assms show ?thesis
    by (simp add: decodeLocatorRangeV1_def range_wire_def preflight_wire validate_locator_wire
        createDomainLocator_wire valid_version_1_wire range_wf_def bookIdentitiesMatch_eq)
qed

section \<open>Properties\<close>

definition sample_identity :: book_identity where
  "sample_identity = \<lparr>scheme = js ''epub-content'', schemeVersion = 1, identityValue = js ''book-7''\<rparr>"

definition sample_locator :: "int \<Rightarrow> reading_locator" where
  "sample_locator n = \<lparr>locatorSchemaVersion = 1, bookIdentity = sample_identity, spineItemId = js ''chapter-2'',
     spineItemIndex = 1, anchor = \<lparr>anchorKind = ElementId, formatVersion = 1, anchorValue = js ''p12'',
     anchorIndex = 11\<rparr>, textOffsetCodePoints = n, progression = Some (1 / 4)\<rparr>"

definition sample_range :: locator_range where
  "sample_range = \<lparr>rangeSchemaVersion = 1, rangeStart = sample_locator 3, rangeEnd = sample_locator 40\<rparr>"

lemma sample_code_points:
  "code_points (js ''epub-content'') = [101, 112, 117, 98, 45, 99, 111, 110, 116, 101, 110, 116]"
  "code_points (js ''book-7'') = [98, 111, 111, 107, 45, 55]"
  "code_points (js ''chapter-2'') = [99, 104, 97, 112, 116, 101, 114, 45, 50]"
  "code_points (js ''p12'') = [112, 49, 50]"
  by (simp_all add: js_def is_high_surrogate_def is_low_surrogate_def)

lemma sample_locator_wf: "0 \<le> n \<Longrightarrow> n \<le> MAX_SAFE_INTEGER \<Longrightarrow> locator_wf (sample_locator n)"
  by (simp add: locator_wf_def identity_wf_def anchor_wf_def sample_locator_def sample_identity_def
      sample_code_points MAX_SAFE_INTEGER_def scheme_pattern_def identity_value_pattern_def
      anchor_pattern_def identifier_pattern_def is_alnum_def is_lower_def is_upper_def is_digit_def
      identifier_edge_def is_control_character_def)

lemma sample_range_wf: "range_wf sample_range"
proof -
  have "locator_wf (sample_locator 3)" "locator_wf (sample_locator 40)"
    by (rule sample_locator_wf; simp add: MAX_SAFE_INTEGER_def)+
  then show ?thesis
    by (simp add: range_wf_def sample_range_def sample_locator_def consistent_positions_def
        structuralAnchorsMatch_def position_of_def less_eq_position_def)
qed

lemma sample_decodes:
  "decodeReadingLocatorV1 (locator_wire (sample_locator 3)) = Inr (sample_locator 3)"
  "decodeLocatorRangeV1 (range_wire sample_range) = Inr sample_range"
  using sample_range_wf
  by (simp_all add: decodeReadingLocatorV1_wire sample_locator_wf MAX_SAFE_INTEGER_def decodeLocatorRangeV1_wire)

text \<open>
  C7. Decoding is canonical: a locator that decodes from any value at all has every field within its
  schema bounds, and the wire form of the decoded locator decodes to the same locator again.
\<close>

theorem decoded_locator_is_canonical:
  assumes "decodeReadingLocatorV1 v = Inr l"
  shows "locator_wf l \<and> decodeReadingLocatorV1 (locator_wire l) = Inr l"
  using decodeReadingLocatorV1_wf [OF assms] by (simp add: decodeReadingLocatorV1_wire)

theorem decoded_locator_is_canonical_witness:
  "locator_wf (sample_locator 3)"
  using decoded_locator_is_canonical [OF sample_decodes(1)] by simp

text \<open>
  C8. Exactly the values the schema admits decode, but for one case: a field that holds the negative
  zero passes the schema and is then refused by a primitive constructor, so an error that is not a
  \<open>LocatorContractError\<close> escapes. Every other refusal is a \<open>LocatorContractError\<close>.
\<close>

theorem decode_outcomes:
  "((\<exists>l. decodeReadingLocatorV1 v = Inr l) \<longleftrightarrow> validateReadingLocatorV1Wire v \<and> \<not> has_negative_zero v) \<and>
   (decodeReadingLocatorV1 v = Inl PrimitiveError \<longleftrightarrow> validateReadingLocatorV1Wire v \<and> has_negative_zero v)"
proof (cases "validateReadingLocatorV1Wire v")
  case True
  then have "decodeReadingLocatorV1 v = createDomainLocator v 1"
    by (simp add: decodeReadingLocatorV1_def validated_preflight)
  with True validated_domain_total [OF True, of 1] show ?thesis
    by (cases "createDomainLocator v 1") auto
next
  case False
  then show ?thesis
    by (auto simp: decodeReadingLocatorV1_def bindE_Inr bindE_Inl dest: preflight_Inl)
qed

text \<open>
  A range that decodes lies in one publication, its ends agree on what each spine and anchor
  index names, it does not run backwards in reading order nor in progression, and its wire form
  decodes to it.
\<close>

theorem decoded_range_is_ordered:
  assumes "decodeLocatorRangeV1 v = Inr r"
  shows "bookIdentity (rangeStart r) = bookIdentity (rangeEnd r) \<and>
    consistent_positions (rangeStart r) (rangeEnd r) \<and>
    position_of (rangeStart r) \<le> position_of (rangeEnd r) \<and>
    \<not> progression_exceeds (progression (rangeStart r)) (progression (rangeEnd r)) \<and>
    decodeLocatorRangeV1 (range_wire r) = Inr r"
  using decodeLocatorRangeV1_wf [OF assms] decodeLocatorRangeV1_wire by (simp add: range_wf_def)

theorem decoded_range_is_ordered_witness:
  "position_of (rangeStart sample_range) \<le> position_of (rangeEnd sample_range)"
  using decoded_range_is_ordered [OF sample_decodes(2)] by simp

text \<open>The escape happens: a locator whose text offset is the negative zero.\<close>

definition negative_zero_wire :: js_value where
  "negative_zero_wire = JObject [(''schemaVersion'', wire_int 1), (''bookIdentity'', identity_wire sample_identity),
     (''spineItemId'', JString (js ''chapter-2'')), (''spineItemIndex'', wire_int 1),
     (''anchor'', anchor_wire (anchor (sample_locator 3))), (''textOffsetCodePoints'', JNumber NegZero)]"

lemma negative_zero_offset_escapes: "decodeReadingLocatorV1 negative_zero_wire = Inl PrimitiveError"
proof -
  have wf: "locator_wf (sample_locator 3)" by (rule sample_locator_wf) (simp_all add: MAX_SAFE_INTEGER_def)
  then have "identity_wf sample_identity" "anchor_wf (anchor (sample_locator 3))"
    "valid_string 128 identifier_pattern (JString (js ''chapter-2''))"
    unfolding locator_wf_def by (simp_all add: sample_locator_def)
  then have "validateReadingLocatorV1Wire negative_zero_wire"
    by (simp add: negative_zero_wire_def validate_identity_wire validate_anchor_wire valid_version_1_wire
        valid_wire_int is_integer_num_def MAX_SAFE_INTEGER_def del: valid_string.simps)
  moreover have "has_negative_zero negative_zero_wire"
    by (simp add: has_negative_zero_def negative_zero_wire_def)
  ultimately show ?thesis
    by (simp add: decodeReadingLocatorV1_def validated_preflight validated_domain_total)
qed

end
