(* ===== verification/Buffer_Authority.thy ===== *)
theory Buffer_Authority
  imports Js_Number Js_Value
begin

text \<open>
  apps/desktop/src/tts/adaptive-buffer-authority.ts: the frozen limits of the narration buffer, the
  resource snapshot and its evaluation, and the thresholds of playback; and
  apps/desktop/src/tts/playback-transition-policy.ts: the closed set of pauses between segments.
  Numbers of the snapshot are integers here: the scheduler computes them from validated counts.
\<close>

section \<open>The frozen authority\<close>

definition SAMPLE_RATE_HZ :: int where "SAMPLE_RATE_HZ = 24000"
definition BYTES_PER_SAMPLE :: int where "BYTES_PER_SAMPLE = 4"

definition sampleFrames_of_seconds :: "int \<Rightarrow> int" where
  "sampleFrames_of_seconds seconds = seconds * SAMPLE_RATE_HZ"

definition quickStartMs :: int where "quickStartMs = 15000"
definition lowWaterMarkMs :: int where "lowWaterMarkMs = 10000"
definition refillResumeMs :: int where "refillResumeMs = 60000"
definition preparedTargetsMs :: "int list" where "preparedTargetsMs = [60000, 120000, 300000, 600000]"
definition maximumBufferMs :: int where "maximumBufferMs = 1800000"

definition maximumSampleFrames :: int where "maximumSampleFrames = sampleFrames_of_seconds 1800"
definition maximumPayloadBytes :: int where "maximumPayloadBytes = sampleFrames_of_seconds 1800 * BYTES_PER_SAMPLE"
definition maximumCompleteUnits :: int where "maximumCompleteUnits = 256"
definition maximumMetadataEntries :: int where "maximumMetadataEntries = 256"
definition serviceUnitReservationSampleFrames :: int where
  "serviceUnitReservationSampleFrames = sampleFrames_of_seconds 20"
definition serviceUnitReservationPayloadBytes :: int where
  "serviceUnitReservationPayloadBytes = sampleFrames_of_seconds 20 * BYTES_PER_SAMPLE"

definition maximumRetainedBatches :: int where "maximumRetainedBatches = 1"
definition maximumRetainedSegments :: int where "maximumRetainedSegments = 16"
definition maximumNarrationCodePoints :: int where "maximumNarrationCodePoints = 8192"
definition maximumNarrationUtf8Bytes :: int where "maximumNarrationUtf8Bytes = 24576"
definition maximumRetainedSentences :: int where "maximumRetainedSentences = 64"

definition maximumActiveNarrationPreparations :: int where "maximumActiveNarrationPreparations = 1"
definition maximumActiveSyntheses :: int where "maximumActiveSyntheses = 1"
definition maximumServiceQueuedSyntheses :: int where "maximumServiceQueuedSyntheses = 0"

lemmas authority_constants = SAMPLE_RATE_HZ_def BYTES_PER_SAMPLE_def sampleFrames_of_seconds_def
  quickStartMs_def lowWaterMarkMs_def refillResumeMs_def preparedTargetsMs_def maximumBufferMs_def
  maximumSampleFrames_def maximumPayloadBytes_def maximumCompleteUnits_def maximumMetadataEntries_def
  serviceUnitReservationSampleFrames_def serviceUnitReservationPayloadBytes_def
  maximumRetainedBatches_def maximumRetainedSegments_def maximumNarrationCodePoints_def
  maximumNarrationUtf8Bytes_def maximumRetainedSentences_def maximumActiveNarrationPreparations_def
  maximumActiveSyntheses_def maximumServiceQueuedSyntheses_def

section \<open>Conversions\<close>

datatype range_error = RangeError

definition playableMillisecondsFromSampleFrames :: "int \<Rightarrow> range_error + int" where
  "playableMillisecondsFromSampleFrames n =
     (if \<not> is_count n \<or> \<lfloor>js_div (of_int MAX_SAFE_INTEGER) 1000\<rfloor> < n then Inl RangeError
      else Inr \<lfloor>js_div (of_int (n * 1000)) (of_int SAMPLE_RATE_HZ)\<rfloor>)"

definition sampleFramesFromPlayableMilliseconds :: "int \<Rightarrow> range_error + int" where
  "sampleFramesFromPlayableMilliseconds ms =
     (if \<not> is_count ms \<or> \<lfloor>js_div (of_int MAX_SAFE_INTEGER) (of_int SAMPLE_RATE_HZ)\<rfloor> < ms
      then Inl RangeError
      else let product = ms * SAMPLE_RATE_HZ in
        if product mod 1000 \<noteq> 0 then Inl RangeError
        else Inr \<lfloor>js_div (of_int product) 1000\<rfloor>)"

section \<open>Thresholds\<close>

record thresholds =
  lowWaterMark :: int
  targetBuffer :: int
  maximumBuffer :: int

definition createAdaptiveBufferThresholds :: "int \<Rightarrow> int option \<Rightarrow> range_error + thresholds" where
  "createAdaptiveBufferThresholds requested remaining =
     (if requested \<notin> set (quickStartMs # refillResumeMs # preparedTargetsMs) then Inl RangeError
      else if (case remaining of None \<Rightarrow> False | Some r \<Rightarrow> \<not> is_count r \<or> r = 0) then Inl RangeError
      else let target = (case remaining of None \<Rightarrow> requested | Some r \<Rightarrow> min requested r) in
        Inr \<lparr>lowWaterMark = min lowWaterMarkMs target, targetBuffer = target,
          maximumBuffer = maximumBufferMs\<rparr>)"

section \<open>Resources\<close>

record resources =
  audioSampleFrames :: int
  audioPayloadBytes :: int
  completeAudioUnits :: int
  audioMetadataEntries :: int
  retainedPreparedBatches :: int
  retainedPreparedSegments :: int
  retainedNarrationCodePoints :: int
  retainedNarrationUtf8Bytes :: int
  retainedNarrationSentences :: int
  activeNarrationPreparations :: int
  activeSyntheses :: int
  serviceQueuedSyntheses :: int

datatype resource_limit =
    ActiveNarrationPreparationsLimit | ActiveSynthesesLimit | AudioMetadataEntriesLimit
  | AudioPayloadBytesLimit | AudioSampleFramesLimit | CompleteAudioUnitsLimit | InvalidSnapshot
  | PreparedBatchesLimit | PreparedNarrationCodePointsLimit | PreparedNarrationSentencesLimit
  | PreparedNarrationUtf8BytesLimit | PreparedSegmentsLimit | ServiceQueuedSynthesesLimit

datatype evaluation = Accepted | Rejected resource_limit

definition resource_checks :: "resources \<Rightarrow> (int \<times> int \<times> resource_limit) list" where
  "resource_checks r =
    [(audioSampleFrames r, maximumSampleFrames, AudioSampleFramesLimit),
     (audioPayloadBytes r, maximumPayloadBytes, AudioPayloadBytesLimit),
     (completeAudioUnits r, maximumCompleteUnits, CompleteAudioUnitsLimit),
     (audioMetadataEntries r, maximumMetadataEntries, AudioMetadataEntriesLimit),
     (retainedPreparedBatches r, maximumRetainedBatches, PreparedBatchesLimit),
     (retainedPreparedSegments r, maximumRetainedSegments, PreparedSegmentsLimit),
     (retainedNarrationCodePoints r, maximumNarrationCodePoints, PreparedNarrationCodePointsLimit),
     (retainedNarrationUtf8Bytes r, maximumNarrationUtf8Bytes, PreparedNarrationUtf8BytesLimit),
     (retainedNarrationSentences r, maximumRetainedSentences, PreparedNarrationSentencesLimit),
     (activeNarrationPreparations r, maximumActiveNarrationPreparations, ActiveNarrationPreparationsLimit),
     (activeSyntheses r, maximumActiveSyntheses, ActiveSynthesesLimit),
     (serviceQueuedSyntheses r, maximumServiceQueuedSyntheses, ServiceQueuedSynthesesLimit)]"

definition resource_values :: "resources \<Rightarrow> int list" where
  "resource_values r = map fst (resource_checks r)"

fun first_exceeded :: "(int \<times> int \<times> resource_limit) list \<Rightarrow> evaluation" where
  "first_exceeded [] = Accepted"
| "first_exceeded ((v, maximum, limit) # cs) = (if maximum < v then Rejected limit else first_exceeded cs)"

definition evaluateAdaptiveBufferResources :: "resources \<Rightarrow> evaluation" where
  "evaluateAdaptiveBufferResources r =
     (if list_ex (\<lambda>v. \<not> is_count v) (resource_values r) then Rejected InvalidSnapshot
      else first_exceeded (resource_checks r))"

definition canReserveAdaptiveBufferServiceUnit :: "resources \<Rightarrow> bool" where
  "canReserveAdaptiveBufferServiceUnit r \<longleftrightarrow> evaluateAdaptiveBufferResources
     (r\<lparr>audioSampleFrames := audioSampleFrames r + serviceUnitReservationSampleFrames,
        audioPayloadBytes := audioPayloadBytes r + serviceUnitReservationPayloadBytes,
        completeAudioUnits := completeAudioUnits r + 1,
        audioMetadataEntries := audioMetadataEntries r + 1,
        activeSyntheses := activeSyntheses r + 1\<rparr>) = Accepted"

section \<open>Pauses\<close>

datatype boundary_reason = Clause | DialogueTurn | HardLimit | Heading | Paragraph | SceneBreak | Sentence | Token

fun boundaryMs :: "boundary_reason \<Rightarrow> int" where
  "boundaryMs Clause = 150"
| "boundaryMs DialogueTurn = 400"
| "boundaryMs HardLimit = 0"
| "boundaryMs Heading = 750"
| "boundaryMs Paragraph = 600"
| "boundaryMs SceneBreak = 1200"
| "boundaryMs Sentence = 300"
| "boundaryMs Token = 0"

definition ellipsisMs :: int where "ellipsisMs = 900"

fun isPlaybackTransitionPauseMs :: "js_number \<Rightarrow> bool" where
  "isPlaybackTransitionPauseMs (Integral v) \<longleftrightarrow> safe_integer v \<and>
     v \<in> set (map boundaryMs [Clause, DialogueTurn, HardLimit, Heading, Paragraph, SceneBreak, Sentence, Token]
       @ [ellipsisMs])"
| "isPlaybackTransitionPauseMs Nonintegral \<longleftrightarrow> False"

text \<open>
  The terminal ellipsis of a text: three full stops or the ellipsis character, then any closing
  quotation marks and brackets, then white space.
\<close>

definition is_closing_mark :: "nat \<Rightarrow> bool" where
  "is_closing_mark c \<longleftrightarrow> c \<in> set [0x22, 0x27, 0xBB, 0x201D, 0x2019, 0x203A, 0x29, 0x5D, 0x7D]"

definition TERMINAL_ELLIPSIS :: "nat list \<Rightarrow> bool" where
  "TERMINAL_ELLIPSIS cs = (let r = dropWhile is_closing_mark (dropWhile is_trimmed (rev cs))
     in take 1 r = [0x2026] \<or> take 3 r = [0x2E, 0x2E, 0x2E])"

definition playbackTransitionPauseMsForPreparedSegment :: "boundary_reason \<Rightarrow> js_string \<Rightarrow> int" where
  "playbackTransitionPauseMsForPreparedSegment reason text =
     (if TERMINAL_ELLIPSIS (code_points text) then ellipsisMs else boundaryMs reason)"

section \<open>Facts\<close>

text \<open>Every pause the policy computes is one the scheduler admits.\<close>

lemma pause_admitted:
  "isPlaybackTransitionPauseMs (Integral (playbackTransitionPauseMsForPreparedSegment reason text))"
  by (cases reason)
    (simp_all add: playbackTransitionPauseMsForPreparedSegment_def ellipsisMs_def safe_integer_def MAX_SAFE_INTEGER_def)

lemma evaluate_Accepted:
  "evaluateAdaptiveBufferResources r = Accepted \<longleftrightarrow>
     list_all (\<lambda>(v, maximum, limit). is_count v \<and> v \<le> maximum) (resource_checks r)"
proof -
  have "first_exceeded cs = Accepted \<longleftrightarrow> list_all (\<lambda>(v, m, _). v \<le> m) cs" for cs
    by (induction cs rule: first_exceeded.induct) auto
  then show ?thesis
    by (auto simp: evaluateAdaptiveBufferResources_def resource_values_def list_all_iff list_ex_iff split_def)
qed

lemma evaluate_Accepted_iff:
  "evaluateAdaptiveBufferResources r = Accepted \<longleftrightarrow>
     0 \<le> audioSampleFrames r \<and> audioSampleFrames r \<le> 43200000 \<and>
     0 \<le> audioPayloadBytes r \<and> audioPayloadBytes r \<le> 172800000 \<and>
     0 \<le> completeAudioUnits r \<and> completeAudioUnits r \<le> 256 \<and>
     0 \<le> audioMetadataEntries r \<and> audioMetadataEntries r \<le> 256 \<and>
     0 \<le> retainedPreparedBatches r \<and> retainedPreparedBatches r \<le> 1 \<and>
     0 \<le> retainedPreparedSegments r \<and> retainedPreparedSegments r \<le> 16 \<and>
     0 \<le> retainedNarrationCodePoints r \<and> retainedNarrationCodePoints r \<le> 8192 \<and>
     0 \<le> retainedNarrationUtf8Bytes r \<and> retainedNarrationUtf8Bytes r \<le> 24576 \<and>
     0 \<le> retainedNarrationSentences r \<and> retainedNarrationSentences r \<le> 64 \<and>
     0 \<le> activeNarrationPreparations r \<and> activeNarrationPreparations r \<le> 1 \<and>
     0 \<le> activeSyntheses r \<and> activeSyntheses r \<le> 1 \<and> serviceQueuedSyntheses r = 0"
  by (simp add: evaluate_Accepted resource_checks_def authority_constants is_count_iff) linarith

lemma createAdaptiveBufferThresholds_target:
  "createAdaptiveBufferThresholds m rem = Inr t \<Longrightarrow> 0 < targetBuffer t \<and> targetBuffer t \<le> m \<and> lowWaterMark t \<le> targetBuffer t"
  by (auto simp: createAdaptiveBufferThresholds_def authority_constants is_count_iff Let_def
      split: if_splits option.splits)

text \<open>
  The buffer's duration of a number of sample frames is the exact quotient, whatever the
  floating-point division rounds, and the inverse conversion brings it back without loss.
\<close>

theorem playable_milliseconds_exact:
  "(0 \<le> n \<and> n \<le> 9007199254740 \<longrightarrow>
      playableMillisecondsFromSampleFrames n = Inr (n * 1000 div 24000)) \<and>
   (0 \<le> ms \<and> ms \<le> 375299968947 \<longrightarrow>
      sampleFramesFromPlayableMilliseconds ms = Inr (ms * 24) \<and>
      playableMillisecondsFromSampleFrames (ms * 24) = Inr ms)"
proof -
  have m: "\<lfloor>js_div (of_int MAX_SAFE_INTEGER) 1000\<rfloor> = 9007199254740"
    using floor_js_div [of MAX_SAFE_INTEGER 1000] by (simp add: MAX_SAFE_INTEGER_def)
  have k: "\<lfloor>js_div (of_int MAX_SAFE_INTEGER) (of_int SAMPLE_RATE_HZ)\<rfloor> = 375299968947"
    using floor_js_div [of MAX_SAFE_INTEGER 24000] by (simp add: MAX_SAFE_INTEGER_def SAMPLE_RATE_HZ_def)
  have play: "playableMillisecondsFromSampleFrames n = Inr (n * 1000 div 24000)"
    if "0 \<le> n" "n \<le> 9007199254740" for n
    using that floor_js_div [of "n * 1000" 24000] m
    by (simp add: playableMillisecondsFromSampleFrames_def is_count_iff SAMPLE_RATE_HZ_def)
  have "sampleFramesFromPlayableMilliseconds ms = Inr (ms * 24)"
    if "0 \<le> ms" "ms \<le> 375299968947"
    using that floor_js_div [of "ms * 24000" 1000] k
    by (simp add: sampleFramesFromPlayableMilliseconds_def is_count_iff SAMPLE_RATE_HZ_def Let_def)
  with play show ?thesis by auto
qed

theorem playable_milliseconds_exact_witness:
  "sampleFramesFromPlayableMilliseconds 15000 = Inr 360000"
  using playable_milliseconds_exact [of 0 15000] by simp

end
