(* ===== verification/Playback_Rate.thy ===== *)
theory Playback_Rate
  imports Buffer_Authority
begin

text \<open>
  The narration rate of playback: the closed set of rates and the conversions between source sample
  frames and listening time (apps/desktop/src/tts/reader-settings-playback-authority.ts and its -v2),
  and the selected/active/pending state the scheduler keeps (reader-settings-playback-authority-v3.ts).
\<close>

section \<open>Rates\<close>

record playback_rate =
  percent :: int
  numerator :: int
  denominator :: int

definition playbackRate :: "int \<Rightarrow> playback_rate" where
  "playbackRate p = \<lparr>percent = p, numerator = p, denominator = 100\<rparr>"

definition NARRATION_PLAYBACK_RATES_V1 :: "playback_rate list" where
  "NARRATION_PLAYBACK_RATES_V1 = map playbackRate [100, 95, 90, 85, 80, 75, 70, 65, 60, 55, 50]"

definition NARRATION_PLAYBACK_RATES_V2 :: "playback_rate list" where
  "NARRATION_PLAYBACK_RATES_V2 = map playbackRate [100, 95, 90, 85, 80, 75]"

definition NARRATION_PLAYBACK_RATES_V3 :: "playback_rate list" where
  "NARRATION_PLAYBACK_RATES_V3 = map (\<lambda>rate. rate) NARRATION_PLAYBACK_RATES_V2"

definition rate_in :: "playback_rate list \<Rightarrow> int \<Rightarrow> range_error + playback_rate" where
  "rate_in rates v = (case find (\<lambda>candidate. percent candidate = v) rates of
     None \<Rightarrow> Inl RangeError | Some r \<Rightarrow> Inr r)"

definition narrationPlaybackRateForPercentV1 :: "int \<Rightarrow> range_error + playback_rate" where
  "narrationPlaybackRateForPercentV1 v = rate_in NARRATION_PLAYBACK_RATES_V1 v"

definition narrationPlaybackRateForPercentV2 :: "int \<Rightarrow> range_error + playback_rate" where
  "narrationPlaybackRateForPercentV2 v = rate_in NARRATION_PLAYBACK_RATES_V2 v"

definition isNarrationPlaybackRatePercentV3 :: "int \<Rightarrow> bool" where
  "isNarrationPlaybackRatePercentV3 v \<longleftrightarrow> list_ex (\<lambda>rate. percent rate = v) NARRATION_PLAYBACK_RATES_V3"

definition narrationPlaybackRateForPercentV3 :: "int \<Rightarrow> range_error + playback_rate" where
  "narrationPlaybackRateForPercentV3 v =
     (if \<not> isNarrationPlaybackRatePercentV3 v then Inl RangeError else narrationPlaybackRateForPercentV2 v)"

section \<open>Listening time\<close>

definition assertBoundedSourceSampleFrames :: "int \<Rightarrow> bool" where
  "assertBoundedSourceSampleFrames n \<longleftrightarrow> \<not> (\<not> safe_integer n \<or> n < 0 \<or> maximumSampleFrames < n)"

definition effectiveListeningMillisecondsFromSampleFramesV1 :: "int \<Rightarrow> int \<Rightarrow> range_error + int" where
  "effectiveListeningMillisecondsFromSampleFramesV1 n p =
     (if \<not> assertBoundedSourceSampleFrames n then Inl RangeError
      else case narrationPlaybackRateForPercentV1 p of
        Inl e \<Rightarrow> Inl e
      | Inr rate \<Rightarrow> Inr \<lfloor>js_div (of_int (n * 1000 * denominator rate)) (of_int (SAMPLE_RATE_HZ * numerator rate))\<rfloor>)"

definition minimumSourceSampleFramesForEffectiveListeningMillisecondsV1 ::
    "int \<Rightarrow> int \<Rightarrow> range_error + int" where
  "minimumSourceSampleFramesForEffectiveListeningMillisecondsV1 ms p =
     (case narrationPlaybackRateForPercentV1 p of
        Inl e \<Rightarrow> Inl e
      | Inr rate \<Rightarrow>
          (case effectiveListeningMillisecondsFromSampleFramesV1 maximumSampleFrames p of
             Inl e \<Rightarrow> Inl e
           | Inr maximum \<Rightarrow>
               if \<not> safe_integer ms \<or> ms \<le> 0 \<or> maximum < ms then Inl RangeError
               else Inr \<lceil>js_div (of_int (ms * SAMPLE_RATE_HZ * numerator rate)) (of_int (1000 * denominator rate))\<rceil>))"

definition effectiveListeningMillisecondsFromSampleFramesV2 :: "int \<Rightarrow> int \<Rightarrow> range_error + int" where
  "effectiveListeningMillisecondsFromSampleFramesV2 n p =
     (case narrationPlaybackRateForPercentV2 p of Inl e \<Rightarrow> Inl e
      | Inr _ \<Rightarrow> effectiveListeningMillisecondsFromSampleFramesV1 n p)"

definition minimumSourceSampleFramesForEffectiveListeningMillisecondsV2 ::
    "int \<Rightarrow> int \<Rightarrow> range_error + int" where
  "minimumSourceSampleFramesForEffectiveListeningMillisecondsV2 ms p =
     (case narrationPlaybackRateForPercentV2 p of Inl e \<Rightarrow> Inl e
      | Inr _ \<Rightarrow> minimumSourceSampleFramesForEffectiveListeningMillisecondsV1 ms p)"

section \<open>The rate state\<close>

record playback_rate_state =
  selectedRatePercent :: int
  activeRatePercent :: "int option"
  pendingRatePercent :: "int option"

datatype playback_boundary = InitialUnitStart | AfterCompleteUnitEndedBeforeSuccessorStart | OtherBoundary

definition initialNarrationPlaybackRateStateV3 :: playback_rate_state where
  "initialNarrationPlaybackRateStateV3 =
     \<lparr>selectedRatePercent = 100, activeRatePercent = None, pendingRatePercent = None\<rparr>"

definition selectNarrationPlaybackRateV3 ::
    "playback_rate_state \<Rightarrow> int \<Rightarrow> range_error + playback_rate_state" where
  "selectNarrationPlaybackRateV3 st v =
     (case narrationPlaybackRateForPercentV3 v of
        Inl e \<Rightarrow> Inl e
      | Inr rate \<Rightarrow> (let selected = percent rate in
          Inr \<lparr>selectedRatePercent = selected, activeRatePercent = activeRatePercent st,
            pendingRatePercent = (if activeRatePercent st = Some selected then None else Some selected)\<rparr>))"

definition activateNarrationPlaybackRateAtBoundaryV3 ::
    "playback_rate_state \<Rightarrow> playback_boundary \<Rightarrow> range_error + playback_rate_state" where
  "activateNarrationPlaybackRateAtBoundaryV3 st boundary =
     (let initialStart = (boundary = InitialUnitStart);
        successorStart = (boundary = AfterCompleteUnitEndedBeforeSuccessorStart) in
      if (\<not> initialStart \<and> \<not> successorStart) \<or> (initialStart \<and> activeRatePercent st \<noteq> None) \<or>
         (successorStart \<and> activeRatePercent st = None) then Inl RangeError
      else Inr \<lparr>selectedRatePercent = selectedRatePercent st,
        activeRatePercent = Some (case pendingRatePercent st of Some p \<Rightarrow> p | None \<Rightarrow> selectedRatePercent st),
        pendingRatePercent = None\<rparr>)"

section \<open>Facts\<close>

lemma rate_in_Inr: "rate_in rates v = Inr r \<Longrightarrow> r \<in> set rates \<and> percent r = v"
  by (auto simp: rate_in_def find_Some_iff split: option.splits)

lemma rates_V1: "r \<in> set NARRATION_PLAYBACK_RATES_V1 \<Longrightarrow>
    numerator r = percent r \<and> denominator r = 100 \<and> 50 \<le> percent r \<and> percent r \<le> 100"
  by (auto simp: NARRATION_PLAYBACK_RATES_V1_def playbackRate_def)

definition supported_rate :: "int \<Rightarrow> bool" where
  "supported_rate p \<longleftrightarrow> p \<in> set [100, 95, 90, 85, 80, 75]"

lemma supported_rate_bounds: "supported_rate p \<Longrightarrow> 75 \<le> p \<and> p \<le> 100"
  by (auto simp: supported_rate_def)

lemma rateForPercentV3_Inr:
  "narrationPlaybackRateForPercentV3 v = Inr r \<longleftrightarrow> supported_rate v \<and> r = playbackRate v"
  by (auto simp: narrationPlaybackRateForPercentV3_def isNarrationPlaybackRatePercentV3_def
      narrationPlaybackRateForPercentV2_def rate_in_def NARRATION_PLAYBACK_RATES_V3_def
      NARRATION_PLAYBACK_RATES_V2_def playbackRate_def supported_rate_def)

text \<open>A rate state the scheduler can be in: rates of the closed set, and a pending one differs from the active one.\<close>

definition rate_state_wf :: "playback_rate_state \<Rightarrow> bool" where
  "rate_state_wf st \<longleftrightarrow> supported_rate (selectedRatePercent st) \<and>
     (\<forall>p. activeRatePercent st = Some p \<longrightarrow> supported_rate p) \<and>
     (\<forall>p. pendingRatePercent st = Some p \<longrightarrow> p = selectedRatePercent st \<and> activeRatePercent st \<noteq> Some p) \<and>
     (pendingRatePercent st = None \<longrightarrow> activeRatePercent st = None \<or> activeRatePercent st = Some (selectedRatePercent st))"

lemma rate_state_wf_initial: "rate_state_wf initialNarrationPlaybackRateStateV3"
  by (simp add: rate_state_wf_def initialNarrationPlaybackRateStateV3_def supported_rate_def)

lemma rate_state_wf_select: "rate_state_wf st \<Longrightarrow> selectNarrationPlaybackRateV3 st v = Inr t \<Longrightarrow> rate_state_wf t"
  by (auto simp: selectNarrationPlaybackRateV3_def rateForPercentV3_Inr rate_state_wf_def Let_def playbackRate_def
      split: sum.splits if_splits)

lemma rate_state_wf_activate:
  "rate_state_wf st \<Longrightarrow> activateNarrationPlaybackRateAtBoundaryV3 st b = Inr t \<Longrightarrow>
     rate_state_wf t \<and> activeRatePercent t = Some (selectedRatePercent st) \<and> selectedRatePercent t = selectedRatePercent st"
  by (cases "pendingRatePercent st")
    (auto simp: activateNarrationPlaybackRateAtBoundaryV3_def Let_def rate_state_wf_def split: if_splits)

text \<open>\<open>Math.ceil\<close> of a rounded quotient of exact integers.\<close>

lemma le_div_iff:
  assumes "0 < (c :: int)"
  shows "m \<le> a div c \<longleftrightarrow> m * c \<le> a"
proof
  assume "m \<le> a div c"
  then have "m * c \<le> a div c * c" using assms by (simp add: mult_right_mono)
  also have "\<dots> \<le> a" using assms by (metis add_le_same_cancel1 div_mult_mod_eq pos_mod_sign le_add_same_cancel1)
  finally show "m * c \<le> a" .
next
  assume "m * c \<le> a"
  then have "m * c div c \<le> a div c" using assms by (rule zdiv_mono1)
  then show "m \<le> a div c" using assms by simp
qed

lemma quotient_up_le:
  assumes "0 < (c :: int)"
  shows "(if c dvd a then a div c else a div c + 1) \<le> n \<longleftrightarrow> a \<le> n * c"
proof (cases "c dvd a")
  case True
  then obtain q where q: "a = c * q" by (elim dvdE)
  have "c * q \<le> n * c \<longleftrightarrow> q \<le> n" using assms by (simp add: mult.commute)
  with q assms show ?thesis by simp
next
  case False
  have "a div c + 1 \<le> n \<longleftrightarrow> \<not> n \<le> a div c" by auto
  also have "\<dots> \<longleftrightarrow> \<not> n * c \<le> a" using assms by (simp add: le_div_iff)
  also have "\<dots> \<longleftrightarrow> a \<le> n * c" using False by (auto simp: not_le order_le_less)
  finally show ?thesis using False by simp
qed

lemma ceiling_js_div:
  assumes "0 \<le> a" and "a < 2 ^ 53" and "0 < b"
  shows "\<lceil>js_div (of_int a) (of_int b)\<rceil> = (if b dvd a then a div b else a div b + 1)"
proof (cases "b dvd a")
  case True
  then obtain q where q: "a = b * q" by (elim dvdE)
  with assms have "0 \<le> q" by (simp add: zero_le_mult_iff)
  moreover have "q \<le> a" using q assms \<open>0 \<le> q\<close> by (simp add: mult_le_cancel_right1)
  ultimately show ?thesis using q assms by (simp add: js_div_def js_round_of_int)
next
  case False
  have "js_div (of_int a) (of_int b) \<noteq> of_int (a div b)"
    using js_div_fraction [OF assms False] by simp
  with floor_js_div [OF assms] False show ?thesis
    by (simp add: ceiling_altdef)
qed

lemma effectiveListening_exact:
  assumes "effectiveListeningMillisecondsFromSampleFramesV1 n p = Inr e"
  shows "0 \<le> n \<and> n \<le> 43200000 \<and> 50 \<le> p \<and> p \<le> 100 \<and> e = n * 100000 div (24000 * p)"
proof -
  from assms obtain rate where rate: "narrationPlaybackRateForPercentV1 p = Inr rate"
    and n: "0 \<le> n" "n \<le> 43200000"
    and e: "e = \<lfloor>js_div (of_int (n * 1000 * denominator rate)) (of_int (SAMPLE_RATE_HZ * numerator rate))\<rfloor>"
    by (auto simp: effectiveListeningMillisecondsFromSampleFramesV1_def assertBoundedSourceSampleFrames_def
        authority_constants split: if_splits sum.splits)
  from rate rate_in_Inr rates_V1 have r: "numerator rate = p" "denominator rate = 100" "50 \<le> p" "p \<le> 100"
    unfolding narrationPlaybackRateForPercentV1_def by metis+
  with e floor_js_div [of "n * 100000" "24000 * p"] n show ?thesis
    by (simp add: SAMPLE_RATE_HZ_def mult.assoc)
qed

lemma minimumSource_exact:
  assumes "minimumSourceSampleFramesForEffectiveListeningMillisecondsV1 ms p = Inr k"
  shows "0 < ms \<and> 50 \<le> p \<and> p \<le> 100 \<and>
    k = (if 100000 dvd ms * (24000 * p) then ms * (24000 * p) div 100000 else ms * (24000 * p) div 100000 + 1)"
proof -
  from assms obtain rate m where rate: "narrationPlaybackRateForPercentV1 p = Inr rate"
    and m: "effectiveListeningMillisecondsFromSampleFramesV1 maximumSampleFrames p = Inr m"
    and ms: "0 < ms" "ms \<le> m"
    and k: "k = \<lceil>js_div (of_int (ms * SAMPLE_RATE_HZ * numerator rate)) (of_int (1000 * denominator rate))\<rceil>"
    by (auto simp: minimumSourceSampleFramesForEffectiveListeningMillisecondsV1_def split: if_splits sum.splits)
  from rate rate_in_Inr rates_V1 have r: "numerator rate = p" "denominator rate = 100"
    unfolding narrationPlaybackRateForPercentV1_def by metis+
  from effectiveListening_exact [OF m] have p: "50 \<le> p" "p \<le> 100"
    and me: "m = 4320000000000 div (24000 * p)"
    by (simp_all add: authority_constants)
  have "m * (24000 * p) \<le> 4320000000000" using me p by (simp only: le_div_iff [symmetric])
  moreover have "ms * (24000 * p) \<le> m * (24000 * p)" using ms p by (intro mult_right_mono) simp_all
  ultimately have "ms * (24000 * p) < 2 ^ 53" by simp
  then show ?thesis using k r ms p ceiling_js_div [of "ms * (24000 * p)" 100000]
    by (simp add: SAMPLE_RATE_HZ_def mult.assoc)
qed

text \<open>
  The two duration conversions are adjoint: the frame count computed for a listening time is
  the least one that lasts it. Fewer frames fall short, and those and more reach it, at every rate.
\<close>

theorem listening_time_conversions_adjoint:
  assumes "minimumSourceSampleFramesForEffectiveListeningMillisecondsV2 ms p = Inr k"
    and "effectiveListeningMillisecondsFromSampleFramesV2 n p = Inr e"
  shows "ms \<le> e \<longleftrightarrow> k \<le> n"
proof -
  have k: "minimumSourceSampleFramesForEffectiveListeningMillisecondsV1 ms p = Inr k"
    using assms(1) by (auto simp: minimumSourceSampleFramesForEffectiveListeningMillisecondsV2_def split: sum.splits)
  have e: "effectiveListeningMillisecondsFromSampleFramesV1 n p = Inr e"
    using assms(2) by (auto simp: effectiveListeningMillisecondsFromSampleFramesV2_def split: sum.splits)
  let ?a = "ms * (24000 * p)"
  from minimumSource_exact [OF k] effectiveListening_exact [OF e]
  have p: "0 < 24000 * p" and n: "e = n * 100000 div (24000 * p)"
    and kk: "k = (if 100000 dvd ?a then ?a div 100000 else ?a div 100000 + 1)" by auto
  have "ms \<le> e \<longleftrightarrow> ?a \<le> n * 100000"
    unfolding n by (rule le_div_iff [OF p])
  also have "\<dots> \<longleftrightarrow> k \<le> n" unfolding kk by (rule quotient_up_le [symmetric]) simp
  finally show ?thesis .
qed

theorem listening_time_conversions_adjoint_witness:
  "minimumSourceSampleFramesForEffectiveListeningMillisecondsV2 15000 75 = Inr 270000 \<and> (15000 \<le> (14999::int) \<longleftrightarrow> 270000 \<le> (269999::int))"
proof -
  have k: "minimumSourceSampleFramesForEffectiveListeningMillisecondsV2 15000 75 = Inr 270000" by code_simp
  have "effectiveListeningMillisecondsFromSampleFramesV2 269999 75 = Inr 14999" by code_simp
  from listening_time_conversions_adjoint [OF k this] k show ?thesis by simp
qed

section \<open>The conversions the later authorities re-export\<close>

definition sourceMediaMillisecondsFromSampleFramesV1 :: "int \<Rightarrow> range_error + int" where
  "sourceMediaMillisecondsFromSampleFramesV1 n =
     (if \<not> assertBoundedSourceSampleFrames n then Inl RangeError else playableMillisecondsFromSampleFrames n)"

definition effectiveListeningMillisecondsFromSampleFramesV3 :: "int \<Rightarrow> int \<Rightarrow> range_error + int" where
  "effectiveListeningMillisecondsFromSampleFramesV3 n p = effectiveListeningMillisecondsFromSampleFramesV2 n p"

definition minimumSourceSampleFramesForEffectiveListeningMillisecondsV3 :: "int \<Rightarrow> int \<Rightarrow> range_error + int" where
  "minimumSourceSampleFramesForEffectiveListeningMillisecondsV3 ms p =
     minimumSourceSampleFramesForEffectiveListeningMillisecondsV2 ms p"

end
