(* ===== verification/Buffer_Scheduler.thy ===== *)
theory Buffer_Scheduler
  imports Locator_Contract Playback_Rate "HOL-Library.Multiset"
begin

text \<open>
  apps/desktop/src/tts/adaptive-buffer-scheduler.ts: the object that decides when to prepare
  narration and when to synthesize, keeps the first-in first-out queue of audio units, accounts for
  every resource it holds and drives the playback state. Every method is a program on the record
  \<open>scheduler\<close>; \<open>released\<close> records the calls of \<open>unit.release()\<close> in the order they happen.
\<close>

section \<open>Types\<close>

datatype scheduler_error = InvalidClock | InvalidPreparedBatch | InvalidState | ResourceLimit | EscapedRangeError

record work_identity =
  sessionId :: string
  generationId :: string

datatype start_mode = Quick | Prepared int

text \<open>A prepared segment as the caller hands it over, and as \<open>freezePreparedSegment\<close> keeps it.\<close>

record prepared_input =
  inSegmentId :: string
  inSequence :: js_number
  inSourceRange :: js_value
  inCodePoints :: js_number
  inUtf8Bytes :: js_number
  inSentenceCount :: js_number
  inTransitionPauseMs :: js_number

record prepared_segment =
  segmentId :: string
  sequence :: int
  sourceRange :: locator_range
  narrationCodePoints :: int
  narrationUtf8Bytes :: int
  sentenceCount :: int
  transitionPauseMs :: int

record audio_metadata =
  metaSessionId :: string
  metaGenerationId :: string
  metaSegmentId :: string
  sampleRateHz :: js_number
  channelCount :: js_number
  sampleFormat :: string
  sampleCountSamples :: js_number
  payloadBytes :: js_number
  endOfSegment :: bool

text \<open>\<open>unitObject\<close> is the identity of the object: two units with equal contents are two objects.\<close>

record audio_unit =
  unitObject :: nat
  metadata :: audio_metadata
  payload :: "8 word list"

record retained_unit =
  unitSequence :: int
  unitSourceRange :: locator_range
  unit :: audio_unit
  sampleFrames :: int
  unitPayloadBytes :: int
  unitTransitionPauseMs :: int
  consumedSampleFrames :: int

record discarded_unit =
  discardedUnit :: audio_unit
  discardedSampleFrames :: int
  discardedPayloadBytes :: int

datatype service_state =
    ServiceStopped | ServiceStarting | ServiceUnloaded | ServicePreparing | ServiceReady
  | ServiceGenerating | ServiceCancelling | ServiceStopping | ServiceFailed

datatype playback_state =
    PlaybackPreparing | Playing | Paused | Buffering | PlaybackComplete | PlaybackStopped | PlaybackFailed

datatype idle_reason = ActiveWork | Backpressure | RangeIsComplete | FailedReason | Invalidated | ServiceTransition

datatype action = StartService | PrepareService | PrepareNarration | Synthesize string | NoAction idle_reason

datatype completion_outcome = AcceptedOutcome | InvalidOutcome | StaleOutcome | MissingOutcome

datatype transition = CancelTransition | ShutdownTransition

record scheduler =
  clockNowMs :: js_number
  mode :: start_mode
  identity :: "work_identity option"
  serviceState :: service_state
  playbackState :: playback_state
  pendingSegments :: "prepared_segment list"
  activeSynthesis :: "prepared_segment option"
  audioUnits :: "retained_unit list"
  discardedAudioUnits :: "discarded_unit list"
  lastAcceptedSequence :: "int option"
  held :: resources
  rangeComplete :: bool
  initialPlaybackStarted :: bool
  playbackRateState :: playback_rate_state
  activePlaybackSequence :: "int option"
  released :: "audio_unit list"

type_synonym 'a scheduler_prog = "(scheduler, scheduler_error, 'a) prog"

section \<open>Helpers\<close>

definition assertClock :: "js_number \<Rightarrow> bool" where
  "assertClock t = number_is_count t"

fun initialTargetMs :: "start_mode \<Rightarrow> int" where
  "initialTargetMs Quick = quickStartMs"
| "initialTargetMs (Prepared t) = t"

fun continuingTargetMs :: "start_mode \<Rightarrow> int" where
  "continuingTargetMs Quick = refillResumeMs"
| "continuingTargetMs (Prepared t) = t"

definition emptyResources :: resources where
  "emptyResources = \<lparr>audioSampleFrames = 0, audioPayloadBytes = 0, completeAudioUnits = 0,
     audioMetadataEntries = 0, retainedPreparedBatches = 0, retainedPreparedSegments = 0,
     retainedNarrationCodePoints = 0, retainedNarrationUtf8Bytes = 0, retainedNarrationSentences = 0,
     activeNarrationPreparations = 0, activeSyntheses = 0, serviceQueuedSyntheses = 0\<rparr>"

definition freezePreparedSegment :: "prepared_input \<Rightarrow> scheduler_error + prepared_segment" where
  "freezePreparedSegment x =
     (if inSegmentId x = [] \<or> \<not> number_is_count (inSequence x) \<or>
         \<not> number_is_count (inCodePoints x) \<or> inCodePoints x = Integral 0 \<or>
         \<not> number_is_count (inUtf8Bytes x) \<or> inUtf8Bytes x = Integral 0 \<or>
         \<not> number_is_count (inSentenceCount x) \<or>
         \<not> isPlaybackTransitionPauseMs (inTransitionPauseMs x)
      then Inl InvalidPreparedBatch
      else case decodeLocatorRangeV1 (inSourceRange x) of
        Inl _ \<Rightarrow> Inl InvalidPreparedBatch
      | Inr loc \<Rightarrow> Inr \<lparr>segmentId = inSegmentId x, sequence = integral_part (inSequence x),
          sourceRange = loc, narrationCodePoints = integral_part (inCodePoints x),
          narrationUtf8Bytes = integral_part (inUtf8Bytes x), sentenceCount = integral_part (inSentenceCount x),
          transitionPauseMs = integral_part (inTransitionPauseMs x)\<rparr>)"

fun freezeAll :: "prepared_input list \<Rightarrow> scheduler_error + prepared_segment list" where
  "freezeAll [] = Inr []"
| "freezeAll (x # xs) = bindE (freezePreparedSegment x) (\<lambda>y. bindE (freezeAll xs) (\<lambda>ys. Inr (y # ys)))"

definition sameIdentity :: "audio_metadata \<Rightarrow> work_identity option \<Rightarrow> prepared_segment option \<Rightarrow> bool" where
  "sameIdentity m i a = (case (i, a) of
     (Some i, Some a) \<Rightarrow> metaSessionId m = sessionId i \<and> metaGenerationId m = generationId i \<and>
       metaSegmentId m = segmentId a
   | _ \<Rightarrow> False)"

text \<open>
  \<open>Number.isFinite(view.getFloat32(offset, true))\<close>: the eight exponent bits, in the two high bytes of a
  little-endian binary32, are not all ones.
\<close>

unbundle bit_operations_syntax

definition finite_float32 :: "8 word \<Rightarrow> 8 word \<Rightarrow> 8 word \<Rightarrow> 8 word \<Rightarrow> bool" where
  "finite_float32 b0 b1 b2 b3 \<longleftrightarrow> \<not> (b3 AND 0x7F = 0x7F \<and> b2 AND 0x80 = 0x80)"

fun all_samples_finite :: "8 word list \<Rightarrow> bool" where
  "all_samples_finite (b0 # b1 # b2 # b3 # bs) = (finite_float32 b0 b1 b2 b3 \<and> all_samples_finite bs)"
| "all_samples_finite _ = True"

definition validAudioUnit :: "audio_unit \<Rightarrow> bool" where
  "validAudioUnit u = (let m = metadata u; n = integral_part (sampleCountSamples m) in
     sampleRateHz m = Integral SAMPLE_RATE_HZ \<and> channelCount m = Integral 1 \<and>
     sampleFormat m = ''float32-le'' \<and> endOfSegment m \<and> number_is_count (sampleCountSamples m) \<and>
     0 < n \<and> n \<le> serviceUnitReservationSampleFrames \<and>
     payloadBytes m = Integral (n * BYTES_PER_SAMPLE) \<and>
     n * BYTES_PER_SAMPLE \<le> serviceUnitReservationPayloadBytes \<and>
     int (length (payload u)) = n * BYTES_PER_SAMPLE \<and>
     all_samples_finite (payload u))"

section \<open>What the scheduler computes from its state\<close>

definition remaining_frames :: "retained_unit \<Rightarrow> int" where
  "remaining_frames r = sampleFrames r - consumedSampleFrames r"

definition playableSampleFrames :: "scheduler \<Rightarrow> int" where
  "playableSampleFrames s = foldl (\<lambda>total r. total + sampleFrames r - consumedSampleFrames r) 0 (audioUnits s)"

definition unit_rate :: "scheduler \<Rightarrow> retained_unit \<Rightarrow> int" where
  "unit_rate s r = (case activeRatePercent (playbackRateState s) of
     Some active \<Rightarrow> if activePlaybackSequence s = Some (unitSequence r) then active
       else selectedRatePercent (playbackRateState s)
   | None \<Rightarrow> selectedRatePercent (playbackRateState s))"

definition effectiveListeningDurationMs :: "scheduler \<Rightarrow> int" where
  "effectiveListeningDurationMs s =
     \<lfloor>foldl (\<lambda>total r. js_add total
        (js_div (of_int (remaining_frames r * 100000)) (of_int (SAMPLE_RATE_HZ * unit_rate s r)))) 0 (audioUnits s)\<rfloor>"

definition targetBufferMs :: "scheduler \<Rightarrow> int" where
  "targetBufferMs s = (if \<not> initialPlaybackStarted s then initialTargetMs (mode s) else continuingTargetMs (mode s))"

definition shouldProduce :: "scheduler \<Rightarrow> bool" where
  "shouldProduce s \<longleftrightarrow> effectiveListeningDurationMs s < targetBufferMs s"

definition canReserveServiceUnit :: "scheduler \<Rightarrow> bool" where
  "canReserveServiceUnit s = canReserveAdaptiveBufferServiceUnit (held s)"

definition nothing_left :: "scheduler \<Rightarrow> bool" where
  "nothing_left s \<longleftrightarrow> rangeComplete s \<and> pendingSegments s = [] \<and> activeSynthesis s = None"

definition nextAction :: "scheduler \<Rightarrow> action" where
  "nextAction s =
     (if identity s = None then NoAction Invalidated
      else if playbackState s = PlaybackComplete \<or>
          (rangeComplete s \<and> pendingSegments s = [] \<and> activeSynthesis s = None \<and>
           activeNarrationPreparations (held s) = 0 \<and> playableSampleFrames s = 0)
        then NoAction RangeIsComplete
      else if serviceState s = ServiceFailed then NoAction FailedReason
      else if serviceState s = ServiceStopped then StartService
      else if serviceState s = ServiceUnloaded then PrepareService
      else if serviceState s \<in> {ServiceStarting, ServicePreparing, ServiceCancelling, ServiceStopping}
        then NoAction ServiceTransition
      else if serviceState s = ServiceGenerating \<or> activeNarrationPreparations (held s) \<noteq> 0
        then NoAction ActiveWork
      else if \<not> shouldProduce s \<or> \<not> canReserveServiceUnit s then NoAction Backpressure
      else case pendingSegments s of
        [] \<Rightarrow> if rangeComplete s then NoAction RangeIsComplete else PrepareNarration
      | x # xs \<Rightarrow> Synthesize (segmentId x))"

definition canPlayAvailableAudio :: "scheduler \<Rightarrow> bool" where
  "canPlayAvailableAudio s \<longleftrightarrow>
     (playbackState s = PlaybackPreparing \<or> playbackState s = Buffering) \<and>
     0 < playableSampleFrames s \<and> nextAction s = NoAction Backpressure \<and> \<not> canReserveServiceUnit s"

section \<open>Steps shared by several methods\<close>

definition refreshPlaybackState :: "unit scheduler_prog" where
  "refreshPlaybackState s =
     (let frames = playableSampleFrames s; ms = effectiveListeningDurationMs s in
      if playbackState s = PlaybackStopped \<or> identity s = None then (Inr (), s)
      else if playbackState s = Paused then (Inr (), s)
      else if frames = 0 then
        (Inr (), if nothing_left s then s\<lparr>playbackState := PlaybackComplete\<rparr>
          else if serviceState s = ServiceFailed then s\<lparr>playbackState := PlaybackFailed\<rparr>
          else if initialPlaybackStarted s then s\<lparr>playbackState := Buffering\<rparr>
          else s)
      else if playbackState s = Playing then (Inr (), s)
      else if nothing_left s \<and> ms = 0
        then (Inr (), s\<lparr>playbackState := Playing, initialPlaybackStarted := True\<rparr>)
      else case createAdaptiveBufferThresholds
          (if initialPlaybackStarted s then refillResumeMs else initialTargetMs (mode s))
          (if nothing_left s then Some ms else None) of
        Inl _ \<Rightarrow> (Inl EscapedRangeError, s)
      | Inr target \<Rightarrow>
          (Inr (), if targetBuffer target \<le> ms
            then s\<lparr>playbackState := Playing, initialPlaybackStarted := True\<rparr> else s))"

definition settleActivePromptResources ::
    "prepared_segment option \<Rightarrow> resources \<Rightarrow> scheduler_error + resources" where
  "settleActivePromptResources a r = (case a of None \<Rightarrow> Inl InvalidState
     | Some x \<Rightarrow> Inr (r\<lparr>retainedPreparedSegments := retainedPreparedSegments r - 1,
         retainedNarrationCodePoints := retainedNarrationCodePoints r - narrationCodePoints x,
         retainedNarrationUtf8Bytes := retainedNarrationUtf8Bytes r - narrationUtf8Bytes x,
         retainedNarrationSentences := retainedNarrationSentences r - sentenceCount x\<rparr>))"

definition clearPreparedBatchIfSettled :: "scheduler \<Rightarrow> scheduler" where
  "clearPreparedBatchIfSettled s =
     (if pendingSegments s = [] \<and> activeSynthesis s = None \<and> retainedPreparedSegments (held s) = 0
      then s\<lparr>held := (held s)\<lparr>retainedPreparedBatches := 0\<rparr>\<rparr> else s)"

text \<open>The charge one audio unit, or the reservation for it, makes on the snapshot.\<close>

definition charge_audio :: "int \<Rightarrow> int \<Rightarrow> int \<Rightarrow> resources \<Rightarrow> resources" where
  "charge_audio frames bytes units r =
     r\<lparr>audioSampleFrames := audioSampleFrames r + frames,
       audioPayloadBytes := audioPayloadBytes r + bytes,
       completeAudioUnits := completeAudioUnits r + units,
       audioMetadataEntries := audioMetadataEntries r + units\<rparr>"

definition settleActiveSynthesis :: "unit scheduler_prog" where
  "settleActiveSynthesis s =
     (case settleActivePromptResources (activeSynthesis s)
        ((charge_audio (- serviceUnitReservationSampleFrames) (- serviceUnitReservationPayloadBytes) (- 1)
           (held s))\<lparr>activeSyntheses := 0\<rparr>) of
        Inl e \<Rightarrow> (Inl e, s)
      | Inr r \<Rightarrow> (Inr (), clearPreparedBatchIfSettled (s\<lparr>held := r, activeSynthesis := None\<rparr>)))"

definition fail_if_silent :: "scheduler \<Rightarrow> scheduler" where
  "fail_if_silent s = (if playableSampleFrames s = 0 then s\<lparr>playbackState := PlaybackFailed\<rparr> else s)"

definition release_unit :: "audio_unit \<Rightarrow> scheduler \<Rightarrow> scheduler" where
  "release_unit u s = s\<lparr>released := released s @ [u]\<rparr>"

section \<open>Construction\<close>

definition createScheduler ::
    "js_number \<Rightarrow> work_identity \<Rightarrow> start_mode \<Rightarrow> int \<Rightarrow> scheduler_error + scheduler" where
  "createScheduler clock ident m rate =
     (if \<not> assertClock clock then Inl InvalidClock
      else if sessionId ident = [] \<or> generationId ident = [] then Inl InvalidState
      else if (case m of Quick \<Rightarrow> False | Prepared t \<Rightarrow> t \<notin> set preparedTargetsMs) then Inl InvalidState
      else let s = \<lparr>clockNowMs = clock, mode = m, identity = Some ident, serviceState = ServiceStopped,
          playbackState = PlaybackPreparing, pendingSegments = [], activeSynthesis = None, audioUnits = [],
          discardedAudioUnits = [], lastAcceptedSequence = None, held = emptyResources,
          rangeComplete = False, initialPlaybackStarted = False,
          playbackRateState = initialNarrationPlaybackRateStateV3, activePlaybackSequence = None,
          released = []\<rparr> in
        if rate \<noteq> 100 then
          (case selectNarrationPlaybackRateV3 (playbackRateState s) rate of
             Inl _ \<Rightarrow> Inl EscapedRangeError
           | Inr st \<Rightarrow> Inr (s\<lparr>playbackRateState := st\<rparr>))
        else Inr s)"

section \<open>Observation\<close>

record observation =
  observedAtMs :: js_number
  obsServiceState :: service_state
  obsPlaybackState :: playback_state
  obsPlayableSampleFrames :: int
  obsPlayableDurationMs :: int
  obsEffectiveListeningDurationMs :: int
  obsPlaybackRateState :: playback_rate_state
  obsTargetBufferMs :: int
  obsLowBuffer :: bool
  obsRangeComplete :: bool
  obsPendingSegmentCount :: int
  obsRetainedAudioUnitCount :: int
  obsDiscardedAudioUnitCount :: int
  obsResourceSnapshot :: resources
  obsNextAction :: action
  obsCanPlayAvailableAudio :: bool

definition observeScheduler :: "observation scheduler_prog" where
  "observeScheduler s =
     (if \<not> assertClock (clockNowMs s) then (Inl InvalidClock, s)
      else case playableMillisecondsFromSampleFrames (playableSampleFrames s) of
        Inl _ \<Rightarrow> (Inl EscapedRangeError, s)
      | Inr ms \<Rightarrow> (Inr
          \<lparr>observedAtMs = clockNowMs s, obsServiceState = serviceState s, obsPlaybackState = playbackState s,
           obsPlayableSampleFrames = playableSampleFrames s, obsPlayableDurationMs = ms,
           obsEffectiveListeningDurationMs = effectiveListeningDurationMs s,
           obsPlaybackRateState = playbackRateState s, obsTargetBufferMs = targetBufferMs s,
           obsLowBuffer = (playbackState s = Playing \<and> \<not> (nothing_left s \<and> 0 < playableSampleFrames s) \<and>
             effectiveListeningDurationMs s \<le> min lowWaterMarkMs (targetBufferMs s)),
           obsRangeComplete = rangeComplete s, obsPendingSegmentCount = int (length (pendingSegments s)),
           obsRetainedAudioUnitCount = int (length (audioUnits s)) + int (length (discardedAudioUnits s)),
           obsDiscardedAudioUnitCount = int (length (discardedAudioUnits s)),
           obsResourceSnapshot = held s, obsNextAction = nextAction s,
           obsCanPlayAvailableAudio = canPlayAvailableAudio s\<rparr>, s))"

section \<open>Service transitions\<close>

definition expectAction :: "action \<Rightarrow> unit scheduler_prog" where
  "expectAction a s = (if nextAction s \<noteq> a then (Inl InvalidState, s) else (Inr (), s))"

definition beginServiceStart :: "unit scheduler_prog" where
  "beginServiceStart = andThen (expectAction StartService) (\<lambda>_. modify (\<lambda>s. s\<lparr>serviceState := ServiceStarting\<rparr>))"

definition markServiceStarted :: "unit scheduler_prog" where
  "markServiceStarted s = (if serviceState s \<noteq> ServiceStarting then (Inl InvalidState, s)
     else (Inr (), s\<lparr>serviceState := ServiceUnloaded\<rparr>))"

definition beginServicePrepare :: "unit scheduler_prog" where
  "beginServicePrepare = andThen (expectAction PrepareService) (\<lambda>_. modify (\<lambda>s. s\<lparr>serviceState := ServicePreparing\<rparr>))"

definition markServiceReady :: "unit scheduler_prog" where
  "markServiceReady s = (if serviceState s \<noteq> ServicePreparing then (Inl InvalidState, s)
     else (Inr (), s\<lparr>serviceState := ServiceReady\<rparr>))"

definition failServiceTransition :: "unit scheduler_prog" where
  "failServiceTransition s = (if serviceState s \<notin> {ServiceStarting, ServicePreparing} then (Inl InvalidState, s)
     else (Inr (), fail_if_silent (s\<lparr>serviceState := ServiceFailed\<rparr>)))"

definition settleServiceStop :: "unit scheduler_prog" where
  "settleServiceStop s = (if serviceState s \<notin> {ServiceCancelling, ServiceStopping, ServiceFailed} then (Inl InvalidState, s)
     else (Inr (), s\<lparr>serviceState := ServiceStopped\<rparr>))"

section \<open>Narration preparation\<close>

definition beginNarrationPreparation :: "unit scheduler_prog" where
  "beginNarrationPreparation =
     andThen (expectAction PrepareNarration) (\<lambda>_.
     andThen (modify (\<lambda>s. s\<lparr>held := (held s)\<lparr>activeNarrationPreparations := 1\<rparr>\<rparr>)) (\<lambda>_.
     andThen (gets held) (\<lambda>r.
     throwIf (evaluateAdaptiveBufferResources r \<noteq> Accepted) ResourceLimit)))"

fun invalid_sequence :: "int option \<Rightarrow> int list \<Rightarrow> bool" where
  "invalid_sequence prev [] = False"
| "invalid_sequence prev (q # qs) =
     ((case prev of None \<Rightarrow> False | Some p \<Rightarrow> q \<le> p) \<or> invalid_sequence (Some q) qs)"

definition acceptPreparedBatch :: "prepared_input list \<Rightarrow> bool \<Rightarrow> unit scheduler_prog" where
  "acceptPreparedBatch segments batchComplete s =
     (if activeNarrationPreparations (held s) \<noteq> 1 \<or> retainedPreparedBatches (held s) \<noteq> 0 \<or>
         pendingSegments s \<noteq> [] \<or> activeSynthesis s \<noteq> None \<or> segments = []
      then (Inl InvalidState, s)
      else case freezeAll segments of
        Inl e \<Rightarrow> (Inl e, s)
      | Inr frozen \<Rightarrow>
          if card (set (map segmentId frozen)) \<noteq> length frozen \<or>
             invalid_sequence (lastAcceptedSequence s) (map sequence frozen)
          then (Inl InvalidPreparedBatch, s)
          else let codePoints = sum_list (map narrationCodePoints frozen);
              utf8Bytes = sum_list (map narrationUtf8Bytes frozen);
              sentences = sum_list (map sentenceCount frozen) in
            if \<not> is_count codePoints \<or> \<not> is_count utf8Bytes \<or> \<not> is_count sentences
            then (Inl InvalidPreparedBatch, s)
            else let r = (held s)\<lparr>retainedPreparedBatches := 1, retainedPreparedSegments := int (length frozen),
                retainedNarrationCodePoints := codePoints, retainedNarrationUtf8Bytes := utf8Bytes,
                retainedNarrationSentences := sentences, activeNarrationPreparations := 0\<rparr> in
              if evaluateAdaptiveBufferResources r \<noteq> Accepted then (Inl ResourceLimit, s)
              else (Inr (), s\<lparr>held := r, pendingSegments := frozen,
                lastAcceptedSequence := Some (sequence (last frozen)), rangeComplete := batchComplete\<rparr>))"

definition acceptEmptyPreparedRange :: "bool \<Rightarrow> unit scheduler_prog" where
  "acceptEmptyPreparedRange batchComplete s =
     (if activeNarrationPreparations (held s) \<noteq> 1 \<or> retainedPreparedBatches (held s) \<noteq> 0 \<or>
         pendingSegments s \<noteq> [] \<or> activeSynthesis s \<noteq> None
      then (Inl InvalidState, s)
      else refreshPlaybackState
        (s\<lparr>held := (held s)\<lparr>activeNarrationPreparations := 0\<rparr>, rangeComplete := batchComplete\<rparr>))"

definition failNarrationPreparation :: "unit scheduler_prog" where
  "failNarrationPreparation s =
     (if activeNarrationPreparations (held s) \<noteq> 1 then (Inl InvalidState, s)
      else (Inr (), fail_if_silent
        (s\<lparr>held := (held s)\<lparr>activeNarrationPreparations := 0\<rparr>, serviceState := ServiceFailed\<rparr>)))"

section \<open>Synthesis\<close>

definition beginSynthesis :: "string scheduler_prog" where
  "beginSynthesis s =
     (case nextAction s of
        Synthesize wanted \<Rightarrow>
          (case pendingSegments s of
             [] \<Rightarrow> (Inl InvalidState, s)
           | segment # rest \<Rightarrow>
               let s = s\<lparr>pendingSegments := rest\<rparr> in
               if segmentId segment \<noteq> wanted then (Inl InvalidState, s)
               else let r = (charge_audio serviceUnitReservationSampleFrames serviceUnitReservationPayloadBytes 1
                   (held s))\<lparr>activeSyntheses := 1\<rparr> in
                 if evaluateAdaptiveBufferResources r \<noteq> Accepted then (Inl ResourceLimit, s)
                 else (Inr (segmentId segment), s\<lparr>held := r, activeSynthesis := Some segment,
                   serviceState := ServiceGenerating\<rparr>))
      | _ \<Rightarrow> (Inl InvalidState, s))"

definition acceptCompletedUnit :: "audio_unit \<Rightarrow> completion_outcome scheduler_prog" where
  "acceptCompletedUnit u s =
     (if activeSynthesis s = None \<or> \<not> sameIdentity (metadata u) (identity s) (activeSynthesis s)
      then (Inr StaleOutcome, release_unit u s)
      else if \<not> validAudioUnit u then
        andThen settleActiveSynthesis (\<lambda>_.
        andThen (modify (\<lambda>s. fail_if_silent (s\<lparr>serviceState := ServiceFailed\<rparr>))) (\<lambda>_.
        ok InvalidOutcome)) (release_unit u s)
      else let frames = integral_part (sampleCountSamples (metadata u));
          bytes = integral_part (payloadBytes (metadata u)) in
        case settleActivePromptResources (activeSynthesis s)
          ((charge_audio (frames - serviceUnitReservationSampleFrames)
             (bytes - serviceUnitReservationPayloadBytes) 0 (held s))\<lparr>activeSyntheses := 0\<rparr>) of
          Inl e \<Rightarrow> (Inl e, s)
        | Inr r \<Rightarrow>
            if evaluateAdaptiveBufferResources r \<noteq> Accepted then (Inl ResourceLimit, s)
            else case activeSynthesis s of
              None \<Rightarrow> (Inl InvalidState, s)
            | Some done \<Rightarrow>
                andThen refreshPlaybackState (\<lambda>_. ok AcceptedOutcome)
                  (clearPreparedBatchIfSettled (s\<lparr>held := r, activeSynthesis := None,
                    audioUnits := audioUnits s @ [\<lparr>unitSequence = sequence done,
                      unitSourceRange = sourceRange done, unit = u, sampleFrames = frames,
                      unitPayloadBytes = bytes, unitTransitionPauseMs = transitionPauseMs done,
                      consumedSampleFrames = 0\<rparr>],
                    serviceState := ServiceReady\<rparr>)))"

text \<open>What \<open>source.takeAudioUnit()\<close> returned.\<close>

definition takeCompletedUnitFrom :: "audio_unit option \<Rightarrow> completion_outcome scheduler_prog" where
  "takeCompletedUnitFrom taken = (case taken of None \<Rightarrow> ok MissingOutcome | Some u \<Rightarrow> acceptCompletedUnit u)"

definition failActiveSynthesis :: "unit scheduler_prog" where
  "failActiveSynthesis s =
     (if activeSynthesis s = None \<or> serviceState s \<noteq> ServiceGenerating then (Inl InvalidState, s)
      else andThen settleActiveSynthesis (\<lambda>_.
        modify (\<lambda>s. fail_if_silent (s\<lparr>serviceState := ServiceFailed\<rparr>))) s)"

section \<open>Playback\<close>

record playback_unit =
  playSequence :: int
  playSourceRange :: locator_range
  playMetadata :: audio_metadata
  playPayload :: "8 word list"
  playConsumedSampleFrames :: int
  playTransitionPauseMs :: int

definition currentPlaybackUnit :: "scheduler \<Rightarrow> playback_unit option" where
  "currentPlaybackUnit s = (case audioUnits s of [] \<Rightarrow> None
     | r # rs \<Rightarrow> Some \<lparr>playSequence = unitSequence r, playSourceRange = unitSourceRange r,
         playMetadata = metadata (unit r), playPayload = payload (unit r),
         playConsumedSampleFrames = consumedSampleFrames r, playTransitionPauseMs = unitTransitionPauseMs r\<rparr>)"

definition bufferedSourceRanges :: "scheduler \<Rightarrow> locator_range list" where
  "bufferedSourceRanges s = map unitSourceRange (audioUnits s)"

definition selectPlaybackRatePercent :: "int \<Rightarrow> playback_rate_state scheduler_prog" where
  "selectPlaybackRatePercent rate s =
     (if identity s = None \<or> playbackState s = PlaybackStopped then (Inl InvalidState, s)
      else case selectNarrationPlaybackRateV3 (playbackRateState s) rate of
        Inl _ \<Rightarrow> (Inl EscapedRangeError, s)
      | Inr st \<Rightarrow> andThen refreshPlaybackState (\<lambda>_. gets playbackRateState) (s\<lparr>playbackRateState := st\<rparr>))"

definition nextPlaybackRatePercent :: "scheduler \<Rightarrow> int" where
  "nextPlaybackRatePercent s = (case pendingRatePercent (playbackRateState s) of
     Some p \<Rightarrow> p | None \<Rightarrow> selectedRatePercent (playbackRateState s))"

definition activateCurrentPlaybackRate :: "int scheduler_prog" where
  "activateCurrentPlaybackRate s =
     (case audioUnits s of
        [] \<Rightarrow> (Inl InvalidState, s)
      | current # _ \<Rightarrow>
          if activePlaybackSequence s = Some (unitSequence current) then (Inl InvalidState, s)
          else (case activateNarrationPlaybackRateAtBoundaryV3 (playbackRateState s)
              (if activeRatePercent (playbackRateState s) = None then InitialUnitStart
               else AfterCompleteUnitEndedBeforeSuccessorStart) of
             Inl _ \<Rightarrow> (Inl EscapedRangeError, s)
           | Inr st \<Rightarrow>
               (Inr (case activeRatePercent st of Some p \<Rightarrow> p | None \<Rightarrow> 0),
                s\<lparr>playbackRateState := st, activePlaybackSequence := Some (unitSequence current)\<rparr>)))"

text \<open>
  The loop of \<open>accountRenderedSampleFrames\<close>: an iteration either finishes the unit at the head of the
  queue or uses up the request.
\<close>

function consume_loop :: "int \<Rightarrow> int \<Rightarrow> scheduler \<Rightarrow> int \<times> scheduler" where
  "consume_loop remaining consumed s =
     (if \<not> 0 < remaining then (consumed, s)
      else case audioUnits s of
        [] \<Rightarrow> (consumed, s)
      | retained # rest \<Rightarrow>
          let available = sampleFrames retained - consumedSampleFrames retained;
            take_n = min available remaining;
            retained' = retained\<lparr>consumedSampleFrames := consumedSampleFrames retained + take_n\<rparr> in
          if consumedSampleFrames retained' = sampleFrames retained'
          then consume_loop (remaining - take_n) (consumed + take_n)
            (release_unit (unit retained) (s\<lparr>audioUnits := rest,
              held := charge_audio (- sampleFrames retained) (- unitPayloadBytes retained) (- 1) (held s)\<rparr>))
          else consume_loop (remaining - take_n) (consumed + take_n) (s\<lparr>audioUnits := retained' # rest\<rparr>))"
  by pat_completeness auto

termination
  by (relation "measure (\<lambda>(remaining, _, s). length (audioUnits s) + (if 0 < remaining then 1 else 0))")
    (auto simp: release_unit_def min_def split: if_splits)

declare consume_loop.simps [simp del]

definition accountRenderedSampleFrames :: "js_number \<Rightarrow> int scheduler_prog" where
  "accountRenderedSampleFrames requested s =
     (if (playbackState s \<noteq> Playing \<and> playbackState s \<noteq> Paused) \<or> \<not> number_is_count requested
      then (Inl InvalidState, s)
      else case consume_loop (integral_part requested) 0 s of
        (consumed, s') \<Rightarrow> andThen refreshPlaybackState (\<lambda>_. ok consumed) s')"

definition consumeSampleFrames :: "js_number \<Rightarrow> int scheduler_prog" where
  "consumeSampleFrames requested s =
     (if playbackState s \<noteq> Playing \<or> \<not> number_is_count requested then (Inl InvalidState, s)
      else accountRenderedSampleFrames requested s)"

definition pausePlayback :: "unit scheduler_prog" where
  "pausePlayback s =
     (if \<not> initialPlaybackStarted s \<or> playbackState s \<notin> {Playing, Buffering, PlaybackComplete}
      then (Inl InvalidState, s) else (Inr (), s\<lparr>playbackState := Paused\<rparr>))"

definition playAvailableAudio :: "bool scheduler_prog" where
  "playAvailableAudio s =
     (if \<not> canPlayAvailableAudio s then (Inr False, s)
      else (Inr True, s\<lparr>playbackState := Playing, initialPlaybackStarted := True\<rparr>))"

definition resumePlayback :: "unit scheduler_prog" where
  "resumePlayback s =
     (if playbackState s \<noteq> Paused then (Inl InvalidState, s)
      else refreshPlaybackState
        (s\<lparr>playbackState := (if 0 < playableSampleFrames s then Playing else Buffering)\<rparr>))"

section \<open>Invalidation and replacement\<close>

definition discard :: "retained_unit \<Rightarrow> discarded_unit" where
  "discard r = \<lparr>discardedUnit = unit r, discardedSampleFrames = sampleFrames r,
     discardedPayloadBytes = unitPayloadBytes r\<rparr>"

definition invalidate :: "transition scheduler_prog" where
  "invalidate s =
     (if identity s = None then (Inl InvalidState, s)
      else let transition = (if activeSynthesis s = None then ShutdownTransition else CancelTransition);
          activeReservation = (if activeSynthesis s = None then 0 else 1) in
        (Inr transition, s\<lparr>identity := None, pendingSegments := [],
           discardedAudioUnits := discardedAudioUnits s @ map discard (audioUnits s), audioUnits := [],
           held := emptyResources\<lparr>
             audioSampleFrames := audioSampleFrames (held s) - activeReservation * serviceUnitReservationSampleFrames,
             audioPayloadBytes := audioPayloadBytes (held s) - activeReservation * serviceUnitReservationPayloadBytes,
             completeAudioUnits := completeAudioUnits (held s) - activeReservation,
             audioMetadataEntries := audioMetadataEntries (held s) - activeReservation\<rparr>,
           activeSynthesis := None, rangeComplete := False, activePlaybackSequence := None,
           playbackState := PlaybackStopped,
           serviceState := (if transition = CancelTransition then ServiceCancelling else ServiceStopping)\<rparr>))"

text \<open>The release loop: at most \<open>maximumUnits\<close> units, oldest first.\<close>

fun release_loop :: "nat \<Rightarrow> scheduler \<Rightarrow> scheduler" where
  "release_loop 0 s = s"
| "release_loop (Suc n) s = (case discardedAudioUnits s of
     [] \<Rightarrow> s
   | d # ds \<Rightarrow> release_loop n (release_unit (discardedUnit d) (s\<lparr>discardedAudioUnits := ds,
       held := charge_audio (- discardedSampleFrames d) (- discardedPayloadBytes d) (- 1) (held s)\<rparr>)))"

definition releaseDiscardedAudioUnits :: "js_number \<Rightarrow> int scheduler_prog" where
  "releaseDiscardedAudioUnits maximumUnits s = (case maximumUnits of
     Nonintegral \<Rightarrow> (Inl InvalidState, s)
   | Integral n \<Rightarrow>
       if \<not> safe_integer n \<or> n \<le> 0 then (Inl InvalidState, s)
       else let s' = release_loop (nat n) s in (Inr (int (length (discardedAudioUnits s'))), s'))"

definition beginReplacement :: "work_identity \<Rightarrow> start_mode option \<Rightarrow> scheduler scheduler_prog" where
  "beginReplacement ident m s =
     (if serviceState s \<noteq> ServiceStopped \<or> identity s \<noteq> None \<or> completeAudioUnits (held s) \<noteq> 0
      then (Inl InvalidState, s)
      else (case createScheduler (clockNowMs s) ident (case m of None \<Rightarrow> mode s | Some m \<Rightarrow> m) 100 of
        Inl e \<Rightarrow> (Inl e, s) | Inr t \<Rightarrow> (Inr t, s)))"

section \<open>Any client\<close>

datatype scheduler_op =
    BeginServiceStart | MarkServiceStarted | BeginServicePrepare | MarkServiceReady
  | FailServiceTransition | SettleServiceStop | BeginNarrationPreparation
  | AcceptPreparedBatch "prepared_input list" bool | AcceptEmptyPreparedRange bool
  | FailNarrationPreparation | BeginSynthesis | AcceptCompletedUnit audio_unit | FailActiveSynthesis
  | SelectPlaybackRate int | ActivateCurrentPlaybackRate | AccountRendered js_number
  | ConsumeFrames js_number | PausePlayback | PlayAvailableAudio | ResumePlayback | Invalidate
  | ReleaseDiscarded js_number

definition forget :: "('s, 'e, 'a) prog \<Rightarrow> ('s, 'e, unit) prog" where
  "forget m = andThen m (\<lambda>_. ok ())"

fun scheduler_step :: "scheduler_op \<Rightarrow> unit scheduler_prog" where
  "scheduler_step BeginServiceStart = beginServiceStart"
| "scheduler_step MarkServiceStarted = markServiceStarted"
| "scheduler_step BeginServicePrepare = beginServicePrepare"
| "scheduler_step MarkServiceReady = markServiceReady"
| "scheduler_step FailServiceTransition = failServiceTransition"
| "scheduler_step SettleServiceStop = settleServiceStop"
| "scheduler_step BeginNarrationPreparation = beginNarrationPreparation"
| "scheduler_step (AcceptPreparedBatch xs c) = acceptPreparedBatch xs c"
| "scheduler_step (AcceptEmptyPreparedRange c) = acceptEmptyPreparedRange c"
| "scheduler_step FailNarrationPreparation = failNarrationPreparation"
| "scheduler_step BeginSynthesis = forget beginSynthesis"
| "scheduler_step (AcceptCompletedUnit u) = forget (acceptCompletedUnit u)"
| "scheduler_step FailActiveSynthesis = failActiveSynthesis"
| "scheduler_step (SelectPlaybackRate p) = forget (selectPlaybackRatePercent p)"
| "scheduler_step ActivateCurrentPlaybackRate = forget activateCurrentPlaybackRate"
| "scheduler_step (AccountRendered n) = forget (accountRenderedSampleFrames n)"
| "scheduler_step (ConsumeFrames n) = forget (consumeSampleFrames n)"
| "scheduler_step PausePlayback = pausePlayback"
| "scheduler_step PlayAvailableAudio = forget playAvailableAudio"
| "scheduler_step ResumePlayback = resumePlayback"
| "scheduler_step Invalidate = forget invalidate"
| "scheduler_step (ReleaseDiscarded n) = forget (releaseDiscardedAudioUnits n)"

end
