(* ===== verification/Scheduler_Invariant.thy ===== *)
theory Scheduler_Invariant
  imports Buffer_Scheduler
begin

text \<open>
  What the buffer scheduler guarantees whatever its client does: the resource snapshot is at every
  moment the exact sum of what it holds and within the frozen limits, a throw leaves it as it was,
  every audio unit handed over is held or has been released exactly once, the queue keeps source
  order, and an invalidated scheduler never plays again.
\<close>

section \<open>The invariant\<close>

text \<open>The prepared segments whose text is still held: the one being synthesized and the pending ones.\<close>

definition prompts :: "scheduler \<Rightarrow> prepared_segment list" where
  "prompts s = (case activeSynthesis s of None \<Rightarrow> [] | Some x \<Rightarrow> [x]) @ pendingSegments s"

definition reserved_units :: "scheduler \<Rightarrow> int" where
  "reserved_units s = (if activeSynthesis s = None then 0 else 1)"

text \<open>What the snapshot has to be: the sums over the queue, the discarded units, the reservation and the texts.\<close>

definition accounted :: "scheduler \<Rightarrow> bool" where
  "accounted s \<longleftrightarrow>
     audioSampleFrames (held s) = sum_list (map sampleFrames (audioUnits s)) +
       sum_list (map discardedSampleFrames (discardedAudioUnits s)) + 480000 * reserved_units s \<and>
     audioPayloadBytes (held s) = sum_list (map unitPayloadBytes (audioUnits s)) +
       sum_list (map discardedPayloadBytes (discardedAudioUnits s)) + 1920000 * reserved_units s \<and>
     completeAudioUnits (held s) = int (length (audioUnits s)) + int (length (discardedAudioUnits s)) + reserved_units s \<and>
     audioMetadataEntries (held s) = completeAudioUnits (held s) \<and>
     retainedPreparedBatches (held s) = (if prompts s = [] then 0 else 1) \<and>
     retainedPreparedSegments (held s) = int (length (prompts s)) \<and>
     retainedNarrationCodePoints (held s) = sum_list (map narrationCodePoints (prompts s)) \<and>
     retainedNarrationUtf8Bytes (held s) = sum_list (map narrationUtf8Bytes (prompts s)) \<and>
     retainedNarrationSentences (held s) = sum_list (map sentenceCount (prompts s)) \<and>
     activeSyntheses (held s) = reserved_units s \<and>
     serviceQueuedSyntheses (held s) = 0"

definition unit_wf :: "retained_unit \<Rightarrow> bool" where
  "unit_wf r \<longleftrightarrow> 0 \<le> consumedSampleFrames r \<and> consumedSampleFrames r < sampleFrames r \<and>
     sampleFrames r \<le> 480000 \<and> unitPayloadBytes r = 4 * sampleFrames r"

definition discarded_wf :: "discarded_unit \<Rightarrow> bool" where
  "discarded_wf d \<longleftrightarrow> 0 < discardedSampleFrames d \<and> discardedSampleFrames d \<le> 480000 \<and>
     discardedPayloadBytes d = 4 * discardedSampleFrames d"

definition prompt_wf :: "prepared_segment \<Rightarrow> bool" where
  "prompt_wf x \<longleftrightarrow> 0 < narrationCodePoints x \<and> 0 < narrationUtf8Bytes x \<and> 0 \<le> sentenceCount x \<and>
     range_wf (sourceRange x)"

definition mode_wf :: "start_mode \<Rightarrow> bool" where
  "mode_wf m \<longleftrightarrow> (case m of Quick \<Rightarrow> True | Prepared t \<Rightarrow> t \<in> set preparedTargetsMs)"

text \<open>The source positions still to be played, in the order the scheduler holds them.\<close>

definition line_up :: "scheduler \<Rightarrow> int list" where
  "line_up s = map unitSequence (audioUnits s) @ map sequence (prompts s)"

definition contents_wf :: "scheduler \<Rightarrow> bool" where
  "contents_wf s \<longleftrightarrow> (\<forall>r \<in> set (audioUnits s). unit_wf r) \<and> (\<forall>d \<in> set (discardedAudioUnits s). discarded_wf d) \<and>
     (\<forall>x \<in> set (prompts s). prompt_wf x) \<and> mode_wf (mode s) \<and> rate_state_wf (playbackRateState s)"

definition order_wf :: "scheduler \<Rightarrow> bool" where
  "order_wf s \<longleftrightarrow> sorted_wrt (<) (line_up s) \<and>
     (\<forall>q \<in> set (line_up s). case lastAcceptedSequence s of None \<Rightarrow> False | Some l \<Rightarrow> q \<le> l)"

definition control_wf :: "scheduler \<Rightarrow> bool" where
  "control_wf s \<longleftrightarrow> (activeNarrationPreparations (held s) \<noteq> 0 \<longrightarrow> prompts s = []) \<and>
     (serviceState s = ServiceGenerating \<longleftrightarrow> activeSynthesis s \<noteq> None) \<and>
     (playbackState s = PlaybackStopped \<longleftrightarrow> identity s = None) \<and>
     (identity s = None \<longrightarrow> prompts s = [] \<and> audioUnits s = [] \<and> activeNarrationPreparations (held s) = 0 \<and>
        serviceState s \<in> {ServiceCancelling, ServiceStopping, ServiceStopped})"

definition scheduler_wf :: "scheduler \<Rightarrow> bool" where
  "scheduler_wf s \<longleftrightarrow> accounted s \<and> evaluateAdaptiveBufferResources (held s) = Accepted \<and>
     contents_wf s \<and> order_wf s \<and> control_wf s"

lemma scheduler_wfD:
  assumes "scheduler_wf s"
  shows "accounted s" "evaluateAdaptiveBufferResources (held s) = Accepted"
    "contents_wf s" "order_wf s" "control_wf s"
  using assms unfolding scheduler_wf_def by blast+

section \<open>Listening time\<close>

lemma unit_rate_supported: "rate_state_wf (playbackRateState s) \<Longrightarrow> supported_rate (unit_rate s r)"
  by (auto simp: unit_rate_def rate_state_wf_def split: option.splits)

lemma js_round_le: "0 \<le> x \<Longrightarrow> x \<le> 2 ^ 52 \<Longrightarrow> js_round x \<le> x + 1"
proof (cases "x = 0")
  case False
  assume x: "0 \<le> x" "x \<le> 2 ^ 52"
  then have "\<bar>js_round x - x\<bar> \<le> x / 2 ^ 53" using False by (intro js_round_error) simp
  moreover have "x / 2 ^ 53 \<le> 1" using x by simp
  ultimately have "\<bar>js_round x - x\<bar> \<le> 1" by (rule order_trans)
  then show ?thesis by (simp add: abs_le_iff)
qed simp

lemma listening_time_of_unit:
  assumes "unit_wf r" and "supported_rate p"
  shows "js_div (of_int (remaining_frames r * 100000)) (of_int (SAMPLE_RATE_HZ * p)) \<le> 26668"
proof -
  have n: "0 \<le> remaining_frames r" "remaining_frames r \<le> 480000"
    using assms(1) by (simp_all add: unit_wf_def remaining_frames_def)
  have p: "75 \<le> p" using supported_rate_bounds [OF assms(2)] by simp
  let ?x = "of_int (remaining_frames r * 100000) / of_int (24000 * p) :: rat"
  have "(of_int (remaining_frames r * 100000) :: rat) \<le> of_int 48000000000" using n by (simp only: of_int_le_iff)
  moreover have "(of_int (24000 * 75) :: rat) \<le> of_int (24000 * p)" using p by (simp only: of_int_le_iff)
  ultimately have "?x \<le> of_int 48000000000 / of_int (24000 * 75)" by (intro frac_le) simp_all
  then have "?x \<le> 26667" by simp
  moreover have "0 \<le> ?x" using n p by simp
  ultimately show ?thesis using js_round_le [of ?x] by (simp add: js_div_def SAMPLE_RATE_HZ_def)
qed

lemma foldl_js_add_bounds:
  assumes "\<And>x. x \<in> set xs \<Longrightarrow> 0 \<le> f x \<and> f x \<le> (26668 :: rat)" and "0 \<le> t"
    and "t + of_nat (length xs) * 26669 \<le> 2 ^ 52"
  shows "0 \<le> foldl (\<lambda>total x. js_add total (f x)) t xs \<and>
    foldl (\<lambda>total x. js_add total (f x)) t xs \<le> t + of_nat (length xs) * 26669"
  using assms
proof (induction xs arbitrary: t)
  case (Cons x xs)
  have fx: "0 \<le> f x" "f x \<le> 26668" using Cons.prems(1) [of x] by simp_all
  have small: "t + f x \<le> 2 ^ 52" using Cons.prems(3) fx by (simp add: algebra_simps)
  have step: "js_add t (f x) \<le> t + 26669"
    using js_round_le [of "t + f x"] fx Cons.prems(2) small by (simp add: js_add_def)
  have "js_add t (f x) + of_nat (length xs) * 26669 \<le> 2 ^ 52"
    using step Cons.prems(3) by (simp add: algebra_simps)
  then have "0 \<le> foldl (\<lambda>total x. js_add total (f x)) (js_add t (f x)) xs \<and>
      foldl (\<lambda>total x. js_add total (f x)) (js_add t (f x)) xs \<le> js_add t (f x) + of_nat (length xs) * 26669"
    using Cons.prems(1) by (intro Cons.IH) auto
  with step show ?case by (simp add: algebra_simps)
qed simp

lemma listening_time_bounds:
  assumes "contents_wf s" and "length (audioUnits s) \<le> 256"
  shows "0 \<le> effectiveListeningDurationMs s \<and> effectiveListeningDurationMs s \<le> 6827264"
proof -
  let ?f = "\<lambda>r. js_div (of_int (remaining_frames r * 100000)) (of_int (SAMPLE_RATE_HZ * unit_rate s r))"
  have "0 \<le> ?f r \<and> ?f r \<le> 26668" if "r \<in> set (audioUnits s)" for r
    using listening_time_of_unit unit_rate_supported that assms(1) by (simp add: contents_wf_def)
  moreover have len: "of_nat (length (audioUnits s)) * 26669 \<le> (256 * 26669 :: rat)"
    using assms(2) by (intro mult_right_mono) simp_all
  ultimately have "0 \<le> foldl (\<lambda>total r. js_add total (?f r)) 0 (audioUnits s) \<and>
      foldl (\<lambda>total r. js_add total (?f r)) 0 (audioUnits s) \<le> 0 + of_nat (length (audioUnits s)) * 26669"
    by (intro foldl_js_add_bounds) auto
  with len have b: "0 \<le> foldl (\<lambda>total r. js_add total (?f r)) 0 (audioUnits s)"
    "foldl (\<lambda>total r. js_add total (?f r)) 0 (audioUnits s) \<le> 6827264" by simp_all
  from b(1) b(2) show ?thesis
    unfolding effectiveListeningDurationMs_def by (simp add: floor_le_iff)
qed

section \<open>Steps that move no resource\<close>

definition same_contents :: "scheduler \<Rightarrow> scheduler \<Rightarrow> bool" where
  "same_contents s t \<longleftrightarrow> audioUnits t = audioUnits s \<and> discardedAudioUnits t = discardedAudioUnits s \<and>
     pendingSegments t = pendingSegments s \<and> activeSynthesis t = activeSynthesis s \<and> held t = held s \<and>
     lastAcceptedSequence t = lastAcceptedSequence s \<and> mode t = mode s"

lemma same_contents_eqs:
  assumes "same_contents s t"
  shows "prompts t = prompts s" "reserved_units t = reserved_units s" "accounted t = accounted s" "line_up t = line_up s"
proof -
  from assms show p: "prompts t = prompts s" and r: "reserved_units t = reserved_units s"
    by (simp_all add: same_contents_def prompts_def reserved_units_def)
  from assms p show "line_up t = line_up s" by (simp add: same_contents_def line_up_def)
  from assms p r show "accounted t = accounted s" by (simp add: same_contents_def accounted_def)
qed

lemma wf_same_contents:
  assumes "scheduler_wf s" and "same_contents s t" and "rate_state_wf (playbackRateState t)" and "control_wf t"
  shows "scheduler_wf t"
proof -
  note eqs = same_contents_eqs [OF assms(2)]
  from assms(2) have "held t = held s" "mode t = mode s" "audioUnits t = audioUnits s"
    "discardedAudioUnits t = discardedAudioUnits s" "lastAcceptedSequence t = lastAcceptedSequence s"
    by (simp_all add: same_contents_def)
  with scheduler_wfD [OF assms(1)] assms(3,4) eqs show ?thesis
    by (simp add: scheduler_wf_def contents_wf_def order_wf_def)
qed

text \<open>How many units the scheduler can hold, and so that its listening time is a proper duration.\<close>

lemma wf_lengths:
  assumes "scheduler_wf s"
  shows "length (audioUnits s) \<le> 256"
proof -
  have "completeAudioUnits (held s) \<le> 256" "0 \<le> reserved_units s"
    using scheduler_wfD(2) [OF assms] by (simp_all add: evaluate_Accepted_iff reserved_units_def)
  then have "int (length (audioUnits s)) \<le> 256" using scheduler_wfD(1) [OF assms] by (simp add: accounted_def)
  then show ?thesis by simp
qed

lemma target_known: "mode_wf m \<Longrightarrow> initialTargetMs m \<in> set (quickStartMs # refillResumeMs # preparedTargetsMs)"
  by (cases m) (auto simp: mode_wf_def)

lemma thresholds_total:
  assumes "m \<in> set (quickStartMs # refillResumeMs # preparedTargetsMs)"
    and "\<And>r. rem = Some r \<Longrightarrow> is_count r \<and> r \<noteq> 0"
  shows "\<exists>t. createAdaptiveBufferThresholds m rem = Inr t"
proof (cases rem)
  case None
  with assms(1) show ?thesis by (simp only: createAdaptiveBufferThresholds_def Let_def) simp
next
  case (Some r)
  with assms show ?thesis by (simp only: createAdaptiveBufferThresholds_def Let_def) simp
qed

text \<open>The refresh of the playback state touches nothing else and never throws.\<close>

definition refreshed :: "scheduler \<Rightarrow> (scheduler_error + unit) \<times> scheduler \<Rightarrow> bool" where
  "refreshed s r \<longleftrightarrow> (\<exists>p b. r = (Inr (), s\<lparr>playbackState := p, initialPlaybackStarted := b\<rparr>) \<and>
    (playbackState s = PlaybackStopped \<or> identity s = None \<longrightarrow> p = playbackState s) \<and>
    (playbackState s \<noteq> PlaybackStopped \<longrightarrow> p \<noteq> PlaybackStopped))"

lemma refreshed_same: "refreshed s (Inr (), s)"
proof -
  have "s = s\<lparr>playbackState := playbackState s, initialPlaybackStarted := initialPlaybackStarted s\<rparr>" by simp
  then show ?thesis
    unfolding refreshed_def by (intro exI [of _ "playbackState s"] exI [of _ "initialPlaybackStarted s"]) simp
qed

lemma refreshed_state:
  assumes "p \<noteq> PlaybackStopped" and "playbackState s \<noteq> PlaybackStopped" and "identity s \<noteq> None"
  shows "refreshed s (Inr (), s\<lparr>playbackState := p\<rparr>)"
proof -
  have "s\<lparr>playbackState := p\<rparr> = s\<lparr>playbackState := p, initialPlaybackStarted := initialPlaybackStarted s\<rparr>" by simp
  with assms show ?thesis
    unfolding refreshed_def by (intro exI [of _ p] exI [of _ "initialPlaybackStarted s"]) auto
qed

lemma refreshed_start:
  assumes "p \<noteq> PlaybackStopped" and "playbackState s \<noteq> PlaybackStopped" and "identity s \<noteq> None"
  shows "refreshed s (Inr (), s\<lparr>playbackState := p, initialPlaybackStarted := b\<rparr>)"
  using assms unfolding refreshed_def by (intro exI [of _ p] exI [of _ b]) auto

lemma refresh_effect:
  assumes "contents_wf s" and "length (audioUnits s) \<le> 256"
  shows "refreshed s (refreshPlaybackState s)"
proof -
  have ms: "0 \<le> effectiveListeningDurationMs s" "effectiveListeningDurationMs s \<le> 6827264"
    using listening_time_bounds [OF assms] by simp_all
  let ?m = "if initialPlaybackStarted s then refillResumeMs else initialTargetMs (mode s)"
  have "initialTargetMs (mode s) \<in> set (quickStartMs # refillResumeMs # preparedTargetsMs)"
    using assms(1) by (intro target_known) (simp add: contents_wf_def)
  then have m: "?m \<in> set (quickStartMs # refillResumeMs # preparedTargetsMs)" by simp
  show ?thesis
  proof (cases "nothing_left s \<and> effectiveListeningDurationMs s = 0")
    case True
    then show ?thesis
      by (simp add: refreshPlaybackState_def Let_def refreshed_same refreshed_state refreshed_start)
  next
    case False
    have "\<exists>t. createAdaptiveBufferThresholds ?m
        (if nothing_left s then Some (effectiveListeningDurationMs s) else None) = Inr t"
      using False ms by (intro thresholds_total [OF m]) (simp add: is_count_iff split: if_splits)
    then obtain t where t: "createAdaptiveBufferThresholds ?m
        (if nothing_left s then Some (effectiveListeningDurationMs s) else None) = Inr t" by blast
    from False show ?thesis
      unfolding refreshPlaybackState_def Let_def t
      by (simp add: refreshed_same refreshed_state refreshed_start)
  qed
qed

text \<open>
  A step that keeps the scheduler well formed, touching no unit: it keeps every unit where it is and
  releases none.
\<close>

definition quiet :: "scheduler \<Rightarrow> scheduler \<Rightarrow> bool" where
  "quiet s t \<longleftrightarrow> scheduler_wf t \<and> audioUnits t = audioUnits s \<and>
     discardedAudioUnits t = discardedAudioUnits s \<and> released t = released s"

lemma quiet_refl: "scheduler_wf s \<Longrightarrow> quiet s s"
  by (simp add: quiet_def)

lemma quiet_trans: "quiet s t \<Longrightarrow> quiet t u \<Longrightarrow> quiet s u"
  by (simp add: quiet_def)

lemma wf_refresh:
  assumes "scheduler_wf s"
  shows "\<exists>t. refreshPlaybackState s = (Inr (), t) \<and> quiet s t \<and> same_contents s t \<and>
    playbackRateState t = playbackRateState s \<and> identity t = identity s \<and> serviceState t = serviceState s"
proof -
  from refresh_effect [OF scheduler_wfD(3) [OF assms] wf_lengths [OF assms]]
  obtain p b where eff: "refreshPlaybackState s = (Inr (), s\<lparr>playbackState := p, initialPlaybackStarted := b\<rparr>)"
    and p: "playbackState s = PlaybackStopped \<or> identity s = None \<longrightarrow> p = playbackState s"
      "playbackState s \<noteq> PlaybackStopped \<longrightarrow> p \<noteq> PlaybackStopped"
    unfolding refreshed_def by (elim exE conjE) (rule that, assumption+)
  let ?t = "s\<lparr>playbackState := p, initialPlaybackStarted := b\<rparr>"
  have same: "same_contents s ?t" by (simp add: same_contents_def)
  have "control_wf ?t"
    using scheduler_wfD(5) [OF assms] p same_contents_eqs(1) [OF same]
    unfolding control_wf_def by (cases "playbackState s = PlaybackStopped") auto
  with assms same have "scheduler_wf ?t"
    using scheduler_wfD(3) [OF assms] by (intro wf_same_contents [OF assms same]) (simp_all add: contents_wf_def)
  with eff same show ?thesis by (simp add: quiet_def)
qed

section \<open>One lemma per operation\<close>

text \<open>Every status change keeps the invariant when it respects the states that carry meaning.\<close>

lemma wf_status:
  assumes "scheduler_wf s" and "same_contents s t" and "playbackRateState t = playbackRateState s"
    and "identity t = identity s" and "released t = released s"
    and "serviceState t = ServiceGenerating \<longleftrightarrow> serviceState s = ServiceGenerating"
    and "playbackState t = PlaybackStopped \<longleftrightarrow> playbackState s = PlaybackStopped"
    and "identity s = None \<Longrightarrow> serviceState t \<in> {ServiceCancelling, ServiceStopping, ServiceStopped}"
  shows "quiet s t"
proof -
  note wf = scheduler_wfD [OF assms(1)]
  note eqs = same_contents_eqs [OF assms(2)]
  from assms(2) have "activeSynthesis t = activeSynthesis s" "held t = held s" "audioUnits t = audioUnits s"
    "discardedAudioUnits t = discardedAudioUnits s"
    by (simp_all add: same_contents_def)
  with wf(5) eqs assms(4-8) have "control_wf t" unfolding control_wf_def by auto
  with wf(3) assms(3) have "scheduler_wf t"
    by (intro wf_same_contents [OF assms(1,2)]) (simp_all add: contents_wf_def)
  with assms(2,5) show ?thesis by (simp add: quiet_def same_contents_def)
qed

lemma wf_identity:
  assumes "scheduler_wf s"
  shows "serviceState s \<in> {ServiceStarting, ServiceUnloaded, ServicePreparing, ServiceReady, ServiceGenerating, ServiceFailed} \<Longrightarrow>
      identity s \<noteq> None"
    and "playbackState s \<noteq> PlaybackStopped \<longleftrightarrow> identity s \<noteq> None"
    and "audioUnits s \<noteq> [] \<Longrightarrow> identity s \<noteq> None"
    and "activeNarrationPreparations (held s) \<noteq> 0 \<Longrightarrow> identity s \<noteq> None"
  using scheduler_wfD(5) [OF assms] by (auto simp: control_wf_def)

lemma fail_if_silent_simps [simp]:
  "audioUnits (fail_if_silent s) = audioUnits s" "released (fail_if_silent s) = released s"
  "discardedAudioUnits (fail_if_silent s) = discardedAudioUnits s"
  "held (fail_if_silent s) = held s" "identity (fail_if_silent s) = identity s"
  "serviceState (fail_if_silent s) = serviceState s" "playbackRateState (fail_if_silent s) = playbackRateState s"
  "same_contents s' (fail_if_silent s) = same_contents s' s"
  "playbackState (fail_if_silent s) = (if playableSampleFrames s = 0 then PlaybackFailed else playbackState s)"
  by (simp_all add: fail_if_silent_def same_contents_def)

text \<open>What every operation does to the units: keeps them, or moves them along without loss.\<close>

lemma step_service:
  assumes "scheduler_wf s"
  shows "quiet s (snd (beginServiceStart s))" and "quiet s (snd (markServiceStarted s))"
    and "quiet s (snd (beginServicePrepare s))" and "quiet s (snd (markServiceReady s))"
    and "quiet s (snd (failServiceTransition s))" and "quiet s (snd (settleServiceStop s))"
    and "quiet s (snd (pausePlayback s))"
proof -
  note ident = wf_identity [OF assms]
  have start: "nextAction s = StartService \<Longrightarrow> serviceState s = ServiceStopped \<and> identity s \<noteq> None"
    "nextAction s = PrepareService \<Longrightarrow> serviceState s = ServiceUnloaded"
    by (auto simp: nextAction_def split: if_splits list.splits)
  show "quiet s (snd (beginServiceStart s))"
    using start by (auto simp: beginServiceStart_def expectAction_def andThen_apply same_contents_def
        intro!: quiet_refl [OF assms] wf_status [OF assms])
  show "quiet s (snd (markServiceStarted s))"
    using ident by (auto simp: markServiceStarted_def same_contents_def intro!: quiet_refl [OF assms] wf_status [OF assms])
  show "quiet s (snd (beginServicePrepare s))"
    using start ident by (auto simp: beginServicePrepare_def expectAction_def andThen_apply same_contents_def
        intro!: quiet_refl [OF assms] wf_status [OF assms])
  show "quiet s (snd (markServiceReady s))"
    using ident by (auto simp: markServiceReady_def same_contents_def intro!: quiet_refl [OF assms] wf_status [OF assms])
  show "quiet s (snd (settleServiceStop s))"
    by (auto simp: settleServiceStop_def same_contents_def intro!: quiet_refl [OF assms] wf_status [OF assms])
  show "quiet s (snd (failServiceTransition s))"
    using ident by (auto simp: failServiceTransition_def intro!: quiet_refl [OF assms] wf_status [OF assms])
      (auto simp: same_contents_def split: if_splits)
  show "quiet s (snd (pausePlayback s))"
    using scheduler_wfD(5) [OF assms]
    by (auto simp: pausePlayback_def same_contents_def control_wf_def intro!: quiet_refl [OF assms] wf_status [OF assms])
qed

lemma view_simps [simp]:
  "prompts (s\<lparr>held := r\<rparr>) = prompts s" "prompts (s\<lparr>serviceState := v\<rparr>) = prompts s"
  "prompts (s\<lparr>rangeComplete := c\<rparr>) = prompts s" "prompts (s\<lparr>audioUnits := us\<rparr>) = prompts s"
  "prompts (s\<lparr>discardedAudioUnits := ds\<rparr>) = prompts s" "prompts (s\<lparr>released := rs\<rparr>) = prompts s"
  "reserved_units (s\<lparr>held := r\<rparr>) = reserved_units s" "reserved_units (s\<lparr>serviceState := v\<rparr>) = reserved_units s"
  "reserved_units (s\<lparr>rangeComplete := c\<rparr>) = reserved_units s" "reserved_units (s\<lparr>audioUnits := us\<rparr>) = reserved_units s"
  "reserved_units (s\<lparr>discardedAudioUnits := ds\<rparr>) = reserved_units s" "reserved_units (s\<lparr>released := rs\<rparr>) = reserved_units s"
  "reserved_units (s\<lparr>pendingSegments := xs\<rparr>) = reserved_units s"
  "reserved_units (s\<lparr>lastAcceptedSequence := l\<rparr>) = reserved_units s"
  "line_up (s\<lparr>held := r\<rparr>) = line_up s" "line_up (s\<lparr>serviceState := v\<rparr>) = line_up s"
  "line_up (s\<lparr>rangeComplete := c\<rparr>) = line_up s" "line_up (s\<lparr>released := rs\<rparr>) = line_up s"
  "line_up (s\<lparr>discardedAudioUnits := ds\<rparr>) = line_up s"
  by (simp_all add: prompts_def reserved_units_def line_up_def)

lemma action_prepare_narration:
  assumes "scheduler_wf s" and "nextAction s = PrepareNarration"
  shows "prompts s = []" "identity s \<noteq> None" "activeNarrationPreparations (held s) = 0"
    "rangeComplete s = False"
proof -
  from assms(2) have a: "identity s \<noteq> None" "serviceState s \<noteq> ServiceGenerating"
    "activeNarrationPreparations (held s) = 0" "pendingSegments s = []" "rangeComplete s = False"
    by (auto simp: nextAction_def split: if_splits list.splits)
  with scheduler_wfD(5) [OF assms(1)] show "prompts s = []" "identity s \<noteq> None"
    "activeNarrationPreparations (held s) = 0" "rangeComplete s = False"
    by (auto simp: control_wf_def prompts_def)
qed

lemma step_beginNarrationPreparation:
  assumes "scheduler_wf s"
  shows "quiet s (snd (beginNarrationPreparation s)) \<and>
    (fst (beginNarrationPreparation s) = (if nextAction s = PrepareNarration then Inr () else Inl InvalidState))"
proof (cases "nextAction s = PrepareNarration")
  case True
  note wf = scheduler_wfD [OF assms]
  note act = action_prepare_narration [OF assms True]
  let ?r = "(held s)\<lparr>activeNarrationPreparations := 1\<rparr>"
  have acc: "evaluateAdaptiveBufferResources ?r = Accepted"
    using wf(2) by (simp add: evaluate_Accepted_iff)
  have "scheduler_wf (s\<lparr>held := ?r\<rparr>)"
    unfolding scheduler_wf_def
  proof (intro conjI)
    show "accounted (s\<lparr>held := ?r\<rparr>)" using wf(1) by (simp add: accounted_def)
    show "evaluateAdaptiveBufferResources (held (s\<lparr>held := ?r\<rparr>)) = Accepted" using acc by simp
    show "contents_wf (s\<lparr>held := ?r\<rparr>)" using wf(3) by (simp add: contents_wf_def)
    show "order_wf (s\<lparr>held := ?r\<rparr>)" using wf(4) by (simp add: order_wf_def)
    show "control_wf (s\<lparr>held := ?r\<rparr>)" using wf(5) act by (simp add: control_wf_def)
  qed
  with True acc show ?thesis
    by (simp add: beginNarrationPreparation_def expectAction_def andThen_apply quiet_def)
next
  case False
  then show ?thesis
    using assms by (simp add: beginNarrationPreparation_def expectAction_def andThen_apply quiet_refl)
qed

text \<open>The end of a preparation: nothing is held in its name.\<close>

lemma end_preparation:
  assumes "scheduler_wf s" and "activeNarrationPreparations (held s) = 1"
  shows "quiet s (s\<lparr>held := (held s)\<lparr>activeNarrationPreparations := 0\<rparr>, rangeComplete := c\<rparr>)"
    and "quiet s (s\<lparr>held := (held s)\<lparr>activeNarrationPreparations := 0\<rparr>, serviceState := ServiceFailed\<rparr>)"
proof -
  note wf = scheduler_wfD [OF assms(1)]
  let ?r = "(held s)\<lparr>activeNarrationPreparations := 0\<rparr>"
  obtain i where p: "prompts s = []" "activeSynthesis s = None" "identity s = Some i"
    using wf(5) assms(2) by (auto simp: control_wf_def prompts_def split: option.splits)
  have acc: "evaluateAdaptiveBufferResources ?r = Accepted"
    using wf(2) by (simp add: evaluate_Accepted_iff)
  show "quiet s (s\<lparr>held := ?r, rangeComplete := c\<rparr>)"
    using wf(1,3-5) acc p
    by (simp add: quiet_def scheduler_wf_def accounted_def contents_wf_def order_wf_def control_wf_def)
  show "quiet s (s\<lparr>held := ?r, serviceState := ServiceFailed\<rparr>)"
    using wf(1,3-5) acc p
    by (simp add: quiet_def scheduler_wf_def accounted_def contents_wf_def order_wf_def control_wf_def)
qed

lemma quiet_fail_if_silent:
  assumes "quiet s t" and "identity t \<noteq> None"
  shows "quiet s (fail_if_silent t)"
proof -
  have wf: "scheduler_wf t" using assms(1) by (simp add: quiet_def)
  have "quiet t (fail_if_silent t)"
    using wf_identity [OF wf] assms(2)
    by (intro wf_status [OF wf]) (simp_all add: same_contents_def fail_if_silent_def)
  with assms(1) show ?thesis by (rule quiet_trans)
qed

lemma step_failNarrationPreparation:
  assumes "scheduler_wf s"
  shows "quiet s (snd (failNarrationPreparation s))"
proof (cases "activeNarrationPreparations (held s) = 1")
  case True
  with end_preparation(2) [OF assms True] wf_identity(4) [OF assms] show ?thesis
    by (simp add: failNarrationPreparation_def quiet_fail_if_silent)
qed (simp add: failNarrationPreparation_def quiet_refl assms)

lemma step_acceptEmptyPreparedRange:
  assumes "scheduler_wf s"
  shows "quiet s (snd (acceptEmptyPreparedRange c s))"
proof (cases "activeNarrationPreparations (held s) = 1")
  case True
  let ?t = "s\<lparr>held := (held s)\<lparr>activeNarrationPreparations := 0\<rparr>, rangeComplete := c\<rparr>"
  have q: "quiet s ?t" by (rule end_preparation(1) [OF assms True])
  then obtain u where "refreshPlaybackState ?t = (Inr (), u)" "quiet ?t u"
    using wf_refresh [of ?t] by (auto simp: quiet_def)
  with q show ?thesis using assms quiet_trans [OF q]
    by (simp add: acceptEmptyPreparedRange_def quiet_refl)
qed (simp add: acceptEmptyPreparedRange_def quiet_refl assms)

subsection \<open>Taking a prepared batch\<close>

lemma freezePreparedSegment_Inr:
  "freezePreparedSegment x = Inr y \<Longrightarrow> prompt_wf y \<and> segmentId y = inSegmentId x \<and> segmentId y \<noteq> []"
  by (auto simp: freezePreparedSegment_def prompt_wf_def number_is_count_Integral is_count_def decodeLocatorRangeV1_wf
      split: if_splits sum.splits)

lemma freezeAll_Inr: "freezeAll xs = Inr ys \<Longrightarrow> (\<forall>y \<in> set ys. prompt_wf y) \<and> length ys = length xs"
  by (induction xs arbitrary: ys) (auto simp: bindE_Inr dest: freezePreparedSegment_Inr)

lemma invalid_sequence_False:
  "\<not> invalid_sequence prev qs \<Longrightarrow> sorted_wrt (<) qs \<and> (\<forall>p. prev = Some p \<longrightarrow> (\<forall>q \<in> set qs. p < q))"
proof (induction prev qs rule: invalid_sequence.induct)
  case (2 prev q qs)
  then have "sorted_wrt (<) qs \<and> (\<forall>q' \<in> set qs. q < q')" by simp
  with 2 show ?case by (auto simp: not_le split: option.splits)
qed simp

lemma sorted_last: "sorted_wrt (<) (qs :: int list) \<Longrightarrow> q \<in> set qs \<Longrightarrow> q \<le> last qs"
proof (induction qs)
  case (Cons a qs)
  then show ?case using last_in_set [of qs] by (auto intro: less_imp_le)
qed simp

lemma if_Inl_fst: "fst (if b then (Inl e, s) else m) = Inr u \<longleftrightarrow> \<not> b \<and> fst m = Inr u"
  by simp

lemma keeps_acceptPreparedBatch: "keeps_on_throw s (acceptPreparedBatch xs c s)"
  unfolding acceptPreparedBatch_def Let_def by (intro keeps_splits keeps_intros)

lemma step_acceptPreparedBatch:
  assumes "scheduler_wf s"
  shows "quiet s (snd (acceptPreparedBatch xs c s))"
proof (cases "fst (acceptPreparedBatch xs c s)")
  case (Inl e)
  then have "snd (acceptPreparedBatch xs c s) = s" by (rule keeps_Inl [OF keeps_acceptPreparedBatch])
  then show ?thesis by (simp add: quiet_refl assms)
next
  case (Inr u)
  define r where "r ys = (held s)\<lparr>retainedPreparedBatches := 1, retainedPreparedSegments := int (length ys),
      retainedNarrationCodePoints := sum_list (map narrationCodePoints ys),
      retainedNarrationUtf8Bytes := sum_list (map narrationUtf8Bytes ys),
      retainedNarrationSentences := sum_list (map sentenceCount ys), activeNarrationPreparations := 0\<rparr>" for ys :: "prepared_segment list"
  have pre: "activeNarrationPreparations (held s) = 1" "pendingSegments s = []" "activeSynthesis s = None" "xs \<noteq> []"
    using Inr unfolding acceptPreparedBatch_def if_Inl_fst by simp_all
  obtain ys where ys: "freezeAll xs = Inr ys"
    using Inr by (cases "freezeAll xs") (simp_all add: acceptPreparedBatch_def if_Inl_fst)
  then have rest: "\<not> invalid_sequence (lastAcceptedSequence s) (map sequence ys)"
      "evaluateAdaptiveBufferResources (r ys) = Accepted"
    using Inr unfolding acceptPreparedBatch_def if_Inl_fst Let_def r_def ys sum.case by simp_all
  have eff: "snd (acceptPreparedBatch xs c s) = s\<lparr>held := r ys, pendingSegments := ys,
        lastAcceptedSequence := Some (sequence (last ys)), rangeComplete := c\<rparr>"
    using Inr unfolding acceptPreparedBatch_def if_Inl_fst Let_def r_def ys sum.case by simp
  note ys = ys rest(1) and acc = rest(2)
  let ?t = "s\<lparr>held := r ys, pendingSegments := ys, lastAcceptedSequence := Some (sequence (last ys)), rangeComplete := c\<rparr>"
  note wf = scheduler_wfD [OF assms]
  obtain i where i: "identity s = Some i" using wf_identity(4) [OF assms] pre(1) by auto
  have gen: "serviceState s \<noteq> ServiceGenerating" using wf(5) pre(3) by (simp add: control_wf_def)
  have old: "prompts s = []" using pre by (simp add: prompts_def)
  have new: "prompts ?t = ys" "reserved_units ?t = reserved_units s" "ys \<noteq> []"
    using pre freezeAll_Inr [OF ys(1)] by (auto simp: prompts_def reserved_units_def)
  have seq: "sorted_wrt (<) (map sequence ys)"
    "lastAcceptedSequence s = Some p \<Longrightarrow> q \<in> set (map sequence ys) \<Longrightarrow> p < q" for p q
    using invalid_sequence_False [OF ys(2)] by blast+
  have below: "q \<le> sequence (last ys)" if "q \<in> set (map sequence ys)" for q
    using sorted_last [OF seq(1) that] new(3) by (simp add: last_map)
  have mid: "q < q'" if "q \<in> set (line_up s)" "q' \<in> set (map sequence ys)" for q q'
    using wf(4) that seq(2) [of _ q'] unfolding order_wf_def by (force split: option.splits)
  have line: "line_up ?t = line_up s @ map sequence ys"
    using new(1) old by (simp add: line_up_def)
  have "scheduler_wf ?t"
    unfolding scheduler_wf_def
  proof (intro conjI)
    show "accounted ?t" using wf(1) new old by (simp add: accounted_def r_def)
    show "evaluateAdaptiveBufferResources (held ?t) = Accepted" using acc by simp
    show "contents_wf ?t" using wf(3) new(1) freezeAll_Inr [OF ys(1)] by (simp add: contents_wf_def)
    show "control_wf ?t" using wf(5) pre i gen by (simp add: control_wf_def r_def)
    have "q \<le> sequence (last ys)" if "q \<in> set (line_up s)" for q
      using mid [OF that, of "sequence (last ys)"] new(3) by simp
    then show "order_wf ?t"
      using wf(4) seq(1) mid below unfolding order_wf_def line by (auto simp: sorted_wrt_append)
  qed
  with eff show ?thesis by (simp add: quiet_def)
qed

subsection \<open>Synthesis\<close>

lemma action_synthesize:
  assumes "scheduler_wf s" and "nextAction s = Synthesize w"
  obtains x rest i where "pendingSegments s = x # rest" "segmentId x = w" "identity s = Some i"
    "activeSynthesis s = None" "canReserveAdaptiveBufferServiceUnit (held s)"
    "activeNarrationPreparations (held s) = 0"
proof -
  from assms(2) have a: "identity s \<noteq> None" "serviceState s \<noteq> ServiceGenerating"
    "canReserveAdaptiveBufferServiceUnit (held s)" "activeNarrationPreparations (held s) = 0"
    and p: "case pendingSegments s of [] \<Rightarrow> False | x # _ \<Rightarrow> segmentId x = w"
    by (auto simp: nextAction_def canReserveServiceUnit_def split: if_splits list.splits)
  from a scheduler_wfD(5) [OF assms(1)] have "activeSynthesis s = None" by (simp add: control_wf_def)
  with a p show thesis by (cases "pendingSegments s") (auto intro: that)
qed

text \<open>The reservation that \<open>nextAction\<close> checked is the one \<open>beginSynthesis\<close> makes: it is never refused.\<close>

lemma step_beginSynthesis:
  assumes "scheduler_wf s"
  shows "quiet s (snd (beginSynthesis s)) \<and>
    fst (beginSynthesis s) = (case nextAction s of Synthesize w \<Rightarrow> Inr w | _ \<Rightarrow> Inl InvalidState)"
proof (cases "nextAction s")
  case (Synthesize w)
  from action_synthesize [OF assms Synthesize] obtain x rest i where p: "pendingSegments s = x # rest" "segmentId x = w"
      "identity s = Some i" "activeSynthesis s = None" "activeNarrationPreparations (held s) = 0"
    and can: "canReserveAdaptiveBufferServiceUnit (held s)" by blast
  note wf = scheduler_wfD [OF assms]
  have act0: "activeSyntheses (held s) = 0" using wf(1) p(4) by (simp add: accounted_def reserved_units_def)
  define r where "r = (charge_audio serviceUnitReservationSampleFrames serviceUnitReservationPayloadBytes 1
      (held s))\<lparr>activeSyntheses := 1\<rparr>"
  have acc: "evaluateAdaptiveBufferResources r = Accepted"
    using can act0 by (simp add: canReserveAdaptiveBufferServiceUnit_def r_def charge_audio_def)
  let ?t = "s\<lparr>pendingSegments := rest, held := r, activeSynthesis := Some x, serviceState := ServiceGenerating\<rparr>"
  have eff: "beginSynthesis s = (Inr w, ?t)"
    using Synthesize p acc by (simp add: beginSynthesis_def Let_def r_def)
  have new: "prompts ?t = prompts s" "reserved_units ?t = 1" "reserved_units s = 0"
    using p by (simp_all add: prompts_def reserved_units_def)
  have line: "line_up ?t = line_up s" using new(1) by (simp add: line_up_def)
  have "scheduler_wf ?t"
    unfolding scheduler_wf_def
  proof (intro conjI)
    show "accounted ?t" using wf(1) new
      by (simp add: accounted_def r_def charge_audio_def authority_constants)
    show "evaluateAdaptiveBufferResources (held ?t) = Accepted" using acc by simp
    show "contents_wf ?t" using wf(3) new(1) by (simp add: contents_wf_def)
    show "order_wf ?t" using wf(4) line by (simp add: order_wf_def)
    show "control_wf ?t" using wf(5) p by (simp add: control_wf_def r_def charge_audio_def)
  qed
  with eff Synthesize show ?thesis by (simp add: quiet_def)
qed (simp_all add: beginSynthesis_def quiet_refl assms)

lemma active_facts:
  assumes "scheduler_wf s" and "activeSynthesis s = Some x"
  obtains i where "identity s = Some i" "serviceState s = ServiceGenerating" "prompt_wf x"
    "prompts s = x # pendingSegments s" "reserved_units s = 1" "playbackState s \<noteq> PlaybackStopped"
    "activeNarrationPreparations (held s) = 0"
proof -
  note wf = scheduler_wfD [OF assms(1)]
  have p: "prompts s = x # pendingSegments s" "reserved_units s = 1"
    using assms(2) by (simp_all add: prompts_def reserved_units_def)
  with wf(5) assms(2) have "identity s \<noteq> None" "serviceState s = ServiceGenerating"
    "activeNarrationPreparations (held s) = 0" "playbackState s \<noteq> PlaybackStopped"
    by (auto simp: control_wf_def)
  moreover have "prompt_wf x" using wf(3) p by (simp add: contents_wf_def)
  ultimately show thesis using p by (auto intro: that)
qed

text \<open>
  The end of a synthesis: the reservation and the text of the active segment are given back, and the
  queue gains the units \<open>us\<close> (none, or the completed one) that take its place.
\<close>

definition settled :: "resources \<Rightarrow> retained_unit list \<Rightarrow> service_state \<Rightarrow> scheduler \<Rightarrow> scheduler" where
  "settled r us v s = clearPreparedBatchIfSettled (s\<lparr>held := r, activeSynthesis := None,
     audioUnits := audioUnits s @ us, serviceState := v\<rparr>)"

definition settled_resources :: "prepared_segment \<Rightarrow> int \<Rightarrow> int \<Rightarrow> int \<Rightarrow> resources \<Rightarrow> resources" where
  "settled_resources x frames bytes units r =
     (charge_audio frames bytes units r)\<lparr>activeSyntheses := 0,
        retainedPreparedSegments := retainedPreparedSegments r - 1,
        retainedNarrationCodePoints := retainedNarrationCodePoints r - narrationCodePoints x,
        retainedNarrationUtf8Bytes := retainedNarrationUtf8Bytes r - narrationUtf8Bytes x,
        retainedNarrationSentences := retainedNarrationSentences r - sentenceCount x\<rparr>"

lemma settleActivePromptResources_Some:
  "settleActivePromptResources (Some x) ((charge_audio f b n r)\<lparr>activeSyntheses := 0\<rparr>) = Inr (settled_resources x f b n r)"
  by (simp add: settleActivePromptResources_def settled_resources_def charge_audio_def)

lemma settled_simps:
  "audioUnits (settled r us v s) = audioUnits s @ us"
  "discardedAudioUnits (settled r us v s) = discardedAudioUnits s"
  "released (settled r us v s) = released s" "identity (settled r us v s) = identity s"
  "mode (settled r us v s) = mode s" "playbackRateState (settled r us v s) = playbackRateState s"
  "serviceState (settled r us v s) = v" "playbackState (settled r us v s) = playbackState s"
  "lastAcceptedSequence (settled r us v s) = lastAcceptedSequence s"
  "activeSynthesis (settled r us v s) = None" "pendingSegments (settled r us v s) = pendingSegments s"
  "held (settled r us v s) = (if pendingSegments s = [] \<and> retainedPreparedSegments r = 0
     then r\<lparr>retainedPreparedBatches := 0\<rparr> else r)"
  by (simp_all add: settled_def clearPreparedBatchIfSettled_def)

lemma wf_settled:
  assumes "scheduler_wf s" and "activeSynthesis s = Some x" and "v \<noteq> ServiceGenerating"
    and "us = [] \<or> (\<exists>u. us = [u] \<and> unit_wf u \<and> unitSequence u = sequence x)"
    and "r = settled_resources x (sum_list (map sampleFrames us) - 480000)
      (sum_list (map unitPayloadBytes us) - 1920000) (int (length us) - 1) (held s)"
  shows "scheduler_wf (settled r us v s)" and "evaluateAdaptiveBufferResources r = Accepted"
proof -
  note wf = scheduler_wfD [OF assms(1)]
  from active_facts [OF assms(1,2)] obtain i where a: "identity s = Some i" "prompt_wf x"
      "prompts s = x # pendingSegments s" "reserved_units s = 1" "playbackState s \<noteq> PlaybackStopped"
      "activeNarrationPreparations (held s) = 0"
    by metis
  let ?t = "settled r us v s"
  have new: "prompts ?t = pendingSegments s" "reserved_units ?t = 0"
    by (simp_all add: prompts_def reserved_units_def settled_simps)
  have us: "0 \<le> sum_list (map sampleFrames us)" "sum_list (map sampleFrames us) \<le> 480000"
    "sum_list (map unitPayloadBytes us) = 4 * sum_list (map sampleFrames us)" "length us \<le> 1"
    "\<forall>u \<in> set us. unit_wf u"
    using assms(4) by (auto simp: unit_wf_def)
  have pos: "0 \<le> sum_list (map narrationCodePoints (pendingSegments s))"
    "0 \<le> sum_list (map narrationUtf8Bytes (pendingSegments s))" "0 \<le> sum_list (map sentenceCount (pendingSegments s))"
    using wf(3) a(3) by (auto simp: contents_wf_def prompt_wf_def intro!: sum_list_nonneg_int)
  have units: "0 \<le> sum_list (map sampleFrames (audioUnits s))"
    "0 \<le> sum_list (map discardedSampleFrames (discardedAudioUnits s))"
    "0 \<le> sum_list (map unitPayloadBytes (audioUnits s))"
    "0 \<le> sum_list (map discardedPayloadBytes (discardedAudioUnits s))"
    using wf(3) by (auto simp: contents_wf_def unit_wf_def discarded_wf_def intro!: sum_list_nonneg_int)
  show acc: "evaluateAdaptiveBufferResources r = Accepted"
    using wf(1,2) a us pos units
    by (simp add: evaluate_Accepted_iff accounted_def assms(5) settled_resources_def charge_audio_def prompt_wf_def)
  then have acc': "evaluateAdaptiveBufferResources (held ?t) = Accepted"
    by (simp add: settled_simps evaluate_Accepted_iff)
  have line: "line_up ?t = map unitSequence (audioUnits s) @ map unitSequence us @ map sequence (pendingSegments s)"
    using new by (simp add: line_up_def settled_simps)
  show "scheduler_wf ?t"
    unfolding scheduler_wf_def
  proof (intro conjI)
    show "accounted ?t"
      using wf(1) a new by (simp add: accounted_def settled_simps assms(5) settled_resources_def charge_audio_def)
    show "evaluateAdaptiveBufferResources (held ?t) = Accepted" by (rule acc')
    show "contents_wf ?t" using wf(3) a(3) new us by (auto simp: contents_wf_def settled_simps)
    show "control_wf ?t" using wf(5) a new assms(3)
      by (simp add: control_wf_def settled_simps assms(5) settled_resources_def charge_audio_def)
    show "order_wf ?t" using wf(4) assms(4) a(3) unfolding order_wf_def line
      by (auto simp: line_up_def settled_simps sorted_wrt_append split: option.splits)
  qed
qed

text \<open>Every unit object the scheduler has been given: where it is now, with its multiplicity.\<close>

definition custody :: "scheduler \<Rightarrow> audio_unit multiset" where
  "custody s = mset (map unit (audioUnits s)) + mset (map discardedUnit (discardedAudioUnits s)) + mset (released s)"

text \<open>A step that keeps the invariant and takes exactly the units \<open>us\<close> into custody.\<close>

definition takes :: "audio_unit multiset \<Rightarrow> scheduler \<Rightarrow> scheduler \<Rightarrow> bool" where
  "takes us s t \<longleftrightarrow> scheduler_wf t \<and> custody t = custody s + us"

lemma quiet_takes: "quiet s t \<Longrightarrow> takes {#} s t"
  by (simp add: quiet_def takes_def custody_def)

lemma takes_quiet: "takes us s t \<Longrightarrow> quiet t u \<Longrightarrow> takes us s u"
  using quiet_takes [of t u] by (simp add: takes_def)

lemma takes_trans: "takes us s t \<Longrightarrow> takes vs t u \<Longrightarrow> takes (us + vs) s u"
  by (simp add: takes_def add.assoc)

lemma wf_release:
  assumes "scheduler_wf s"
  shows "scheduler_wf (release_unit u s)"
proof -
  have same: "same_contents s (release_unit u s)" by (simp add: same_contents_def release_unit_def)
  have "control_wf (release_unit u s)"
    using scheduler_wfD(5) [OF assms] by (simp add: control_wf_def release_unit_def)
  then show ?thesis
    using scheduler_wfD(3) [OF assms] by (intro wf_same_contents [OF assms same])
      (simp_all add: release_unit_def contents_wf_def)
qed

lemma takes_release: "scheduler_wf s \<Longrightarrow> takes {#u#} s (release_unit u s)"
  by (simp add: takes_def wf_release custody_def) (simp add: release_unit_def)

lemma settleActiveSynthesis_effect:
  assumes "activeSynthesis s = Some x"
  shows "settleActiveSynthesis s = (Inr (), settled (settled_resources x (- 480000) (- 1920000) (- 1) (held s))
    [] (serviceState s) s)"
  using assms settleActivePromptResources_Some [of x "- 480000" "- 1920000" "- 1" "held s"]
  by (simp add: settleActiveSynthesis_def authority_constants settled_def)

text \<open>Settling without a unit ends in a failed service.\<close>

lemma settle_fails:
  assumes "scheduler_wf s" and "activeSynthesis s = Some x"
  shows "\<exists>t. andThen settleActiveSynthesis (\<lambda>_. modify (\<lambda>s. fail_if_silent (s\<lparr>serviceState := ServiceFailed\<rparr>))) s =
    (Inr (), t) \<and> takes {#} s t"
proof -
  let ?r = "settled_resources x (- 480000) (- 1920000) (- 1) (held s)"
  have up: "(settled ?r [] (serviceState s) s)\<lparr>serviceState := ServiceFailed\<rparr> = settled ?r [] ServiceFailed s"
    by (simp add: settled_def clearPreparedBatchIfSettled_def)
  have wf: "scheduler_wf (settled ?r [] ServiceFailed s)"
    by (rule wf_settled(1) [OF assms]) simp_all
  then have q: "quiet s (settled ?r [] ServiceFailed s)"
    by (simp add: quiet_def settled_simps)
  obtain i where "identity s = Some i" using active_facts [OF assms] by metis
  then have "quiet s (fail_if_silent (settled ?r [] ServiceFailed s))"
    by (intro quiet_fail_if_silent [OF q]) (simp add: settled_simps)
  then show ?thesis
    by (simp add: andThen_apply settleActiveSynthesis_effect [OF assms(2)] up quiet_takes)
qed

lemma step_failActiveSynthesis:
  assumes "scheduler_wf s"
  shows "takes {#} s (snd (failActiveSynthesis s))"
proof (cases "activeSynthesis s")
  case None
  then show ?thesis by (simp add: failActiveSynthesis_def quiet_takes quiet_refl assms)
next
  case (Some x)
  with settle_fails [OF assms Some] show ?thesis
    by (auto simp: failActiveSynthesis_def quiet_takes quiet_refl assms)
qed

text \<open>
  A completed unit is always taken: the reservation made when the synthesis began covers it, so the
  resource check cannot refuse it and no unit is left neither held nor released.
\<close>

lemma validAudioUnit_counts:
  assumes "validAudioUnit u"
  shows "0 < integral_part (sampleCountSamples (metadata u)) \<and> integral_part (sampleCountSamples (metadata u)) \<le> 480000 \<and>
    integral_part (payloadBytes (metadata u)) = 4 * integral_part (sampleCountSamples (metadata u))"
  using assms by (auto simp: validAudioUnit_def Let_def authority_constants)

lemma step_acceptCompletedUnit:
  assumes "scheduler_wf s"
  shows "\<exists>outcome t. acceptCompletedUnit u s = (Inr outcome, t) \<and> takes {#u#} s t \<and>
    (outcome = AcceptedOutcome \<longleftrightarrow> sameIdentity (metadata u) (identity s) (activeSynthesis s) \<and> validAudioUnit u) \<and>
    (outcome = InvalidOutcome \<longleftrightarrow> sameIdentity (metadata u) (identity s) (activeSynthesis s) \<and> \<not> validAudioUnit u) \<and>
    (outcome = StaleOutcome \<longleftrightarrow> \<not> sameIdentity (metadata u) (identity s) (activeSynthesis s)) \<and>
    (outcome = StaleOutcome \<longrightarrow> t = release_unit u s)"
proof (cases "sameIdentity (metadata u) (identity s) (activeSynthesis s)")
  case False
  then show ?thesis by (simp add: acceptCompletedUnit_def takes_release assms)
next
  case same: True
  then obtain x where x: "activeSynthesis s = Some x"
    by (auto simp: sameIdentity_def split: option.splits)
  show ?thesis
  proof (cases "validAudioUnit u")
    case False
    have rel: "scheduler_wf (release_unit u s)" "activeSynthesis (release_unit u s) = Some x"
      using wf_release [OF assms] x by (simp_all add: release_unit_def)
    obtain t where t: "andThen settleActiveSynthesis (\<lambda>_. modify (\<lambda>s. fail_if_silent (s\<lparr>serviceState := ServiceFailed\<rparr>)))
        (release_unit u s) = (Inr (), t)" "takes {#} (release_unit u s) t"
      using settle_fails [OF rel] by blast
    have "acceptCompletedUnit u s = andThen (andThen settleActiveSynthesis
        (\<lambda>_. modify (\<lambda>s. fail_if_silent (s\<lparr>serviceState := ServiceFailed\<rparr>)))) (\<lambda>_. ok InvalidOutcome) (release_unit u s)"
      using same False x by (simp add: acceptCompletedUnit_def andThen_assoc)
    then have "acceptCompletedUnit u s = (Inr InvalidOutcome, t)"
      using t(1) by (subst (asm) andThen_apply) simp
    with takes_trans [OF takes_release [OF assms, of u] t(2)] same False show ?thesis by simp
  next
    case True
    let ?frames = "integral_part (sampleCountSamples (metadata u))"
    let ?bytes = "integral_part (payloadBytes (metadata u))"
    define new where "new = \<lparr>unitSequence = sequence x, unitSourceRange = sourceRange x, unit = u,
      sampleFrames = ?frames, unitPayloadBytes = ?bytes, unitTransitionPauseMs = transitionPauseMs x,
      consumedSampleFrames = 0\<rparr>"
    let ?r = "settled_resources x (?frames - 480000) (?bytes - 1920000) 0 (held s)"
    have n: "unit_wf new" "unitSequence new = sequence x"
      using validAudioUnit_counts [OF True] by (simp_all add: unit_wf_def new_def)
    have "?r = settled_resources x (sum_list (map sampleFrames [new]) - 480000)
        (sum_list (map unitPayloadBytes [new]) - 1920000) (int (length [new]) - 1) (held s)"
      by (simp add: new_def)
    note wf = wf_settled [OF assms x _ _ this, of ServiceReady]
    have t1: "scheduler_wf (settled ?r [new] ServiceReady s)" "evaluateAdaptiveBufferResources ?r = Accepted"
      using wf n by auto
    obtain t where t: "refreshPlaybackState (settled ?r [new] ServiceReady s) = (Inr (), t)"
      "quiet (settled ?r [new] ServiceReady s) t"
      using wf_refresh [OF t1(1)] by blast
    have "takes {#u#} s (settled ?r [new] ServiceReady s)"
      using t1(1) by (simp add: takes_def custody_def settled_simps new_def)
    then have "takes {#u#} s t" using t(2) by (rule takes_quiet)
    moreover have "acceptCompletedUnit u s = (Inr AcceptedOutcome, t)"
      using same True x t1(2) t(1) settleActivePromptResources_Some [of x "?frames - 480000" "?bytes - 1920000" 0 "held s"]
      by (simp add: acceptCompletedUnit_def Let_def authority_constants settled_def new_def [symmetric] andThen_apply)
    ultimately show ?thesis using same True by simp
  qed
qed

subsection \<open>Playback\<close>

lemma playable_sum: "playableSampleFrames s = sum_list (map remaining_frames (audioUnits s))"
proof -
  have "foldl (\<lambda>total r. total + sampleFrames r - consumedSampleFrames r) n rs = n + sum_list (map remaining_frames rs)"
    for n and rs :: "retained_unit list"
    by (induction rs arbitrary: n) (simp_all add: remaining_frames_def)
  then show ?thesis by (simp add: playableSampleFrames_def)
qed

lemma unit_wf_remaining: "unit_wf r \<Longrightarrow> 0 < remaining_frames r"
  by (simp add: unit_wf_def remaining_frames_def)

lemma playable_nonneg: "contents_wf s \<Longrightarrow> 0 \<le> playableSampleFrames s"
  unfolding playable_sum
  by (intro sum_list_nonneg_int) (simp add: contents_wf_def unit_wf_remaining [THEN less_imp_le])

text \<open>One iteration: the head of the queue is played on, or played out and released.\<close>

lemma wf_play_on:
  assumes "scheduler_wf s" and "audioUnits s = r # rest" and "0 \<le> n" and "n < remaining_frames r"
  shows "takes {#} s (s\<lparr>audioUnits := r\<lparr>consumedSampleFrames := consumedSampleFrames r + n\<rparr> # rest\<rparr>)"
proof -
  let ?r = "r\<lparr>consumedSampleFrames := consumedSampleFrames r + n\<rparr>"
  let ?t = "s\<lparr>audioUnits := ?r # rest\<rparr>"
  note wf = scheduler_wfD [OF assms(1)]
  have acc: "accounted ?t" using wf(1) assms(2) by (simp add: accounted_def)
  have con: "contents_wf ?t"
    using wf(3) assms(2-4) by (simp add: contents_wf_def unit_wf_def remaining_frames_def)
  have "line_up ?t = line_up s" using assms(2) by (simp add: line_up_def)
  then have ord: "order_wf ?t" using wf(4) by (simp add: order_wf_def)
  have "control_wf ?t" using wf(5) assms(2) by (auto simp: control_wf_def)
  with acc con ord wf(2) assms(2) show ?thesis by (simp add: takes_def scheduler_wf_def custody_def)
qed

lemma wf_play_out:
  assumes "scheduler_wf s" and "audioUnits s = r # rest"
  shows "takes {#} s (release_unit (unit r) (s\<lparr>audioUnits := rest,
    held := charge_audio (- sampleFrames r) (- unitPayloadBytes r) (- 1) (held s)\<rparr>))"
proof -
  let ?h = "charge_audio (- sampleFrames r) (- unitPayloadBytes r) (- 1) (held s)"
  let ?t = "s\<lparr>audioUnits := rest, held := ?h\<rparr>"
  note wf = scheduler_wfD [OF assms(1)]
  have units: "0 \<le> sum_list (map sampleFrames rest)" "0 \<le> sum_list (map unitPayloadBytes rest)"
    "0 \<le> sum_list (map discardedSampleFrames (discardedAudioUnits s))"
    "0 \<le> sum_list (map discardedPayloadBytes (discardedAudioUnits s))" "0 \<le> reserved_units s" "0 < sampleFrames r"
    "0 < unitPayloadBytes r"
    using wf(3) assms(2) by (auto simp: contents_wf_def unit_wf_def discarded_wf_def reserved_units_def intro!: sum_list_nonneg_int)
  have acc: "accounted ?t" using wf(1) assms(2) by (simp add: accounted_def charge_audio_def)
  have eval: "evaluateAdaptiveBufferResources ?h = Accepted"
    using wf(1,2) units assms(2) by (simp add: accounted_def evaluate_Accepted_iff charge_audio_def)
  have con: "contents_wf ?t" using wf(3) assms(2) by (simp add: contents_wf_def)
  have "line_up s = unitSequence r # line_up ?t" using assms(2) by (simp add: line_up_def)
  then have ord: "order_wf ?t" using wf(4) by (simp add: order_wf_def)
  have "control_wf ?t" using wf(5) assms(2) by (auto simp: control_wf_def charge_audio_def)
  with acc eval con ord have "scheduler_wf ?t" by (simp add: scheduler_wf_def)
  then show ?thesis using assms(2) by (simp add: takes_def wf_release custody_def) (simp add: release_unit_def)
qed

lemma consume_loop_effect:
  assumes "scheduler_wf s" and "0 \<le> n" and "consume_loop n c s = (c', t)"
  shows "takes {#} s t \<and> c' = c + min n (playableSampleFrames s) \<and>
    playableSampleFrames t = playableSampleFrames s - (c' - c) \<and>
    playbackState t = playbackState s \<and> discardedAudioUnits t = discardedAudioUnits s \<and>
    (\<exists>k. released t = released s @ map unit (take k (audioUnits s)) \<and>
       map unit (audioUnits t) = drop k (map unit (audioUnits s)))"
  using assms
proof (induction n c s arbitrary: c' t rule: consume_loop.induct)
  case (1 n c s)
  show ?case
  proof (cases "0 < n \<and> audioUnits s \<noteq> []")
    case False
    have "0 \<le> playableSampleFrames s" using 1(3) by (intro playable_nonneg) (simp add: scheduler_wf_def)
    moreover have "(c', t) = (c, s)"
      using False 1(5) by (subst (asm) consume_loop.simps) (auto split: list.splits)
    moreover have "n = 0 \<or> playableSampleFrames s = 0" using False 1(4) by (auto simp: playable_sum)
    ultimately show ?thesis using 1(3) 1(4)
      by (auto simp: quiet_takes quiet_refl intro!: exI [of _ 0])
  next
    case True
    then obtain r rest where us: "audioUnits s = r # rest" by (cases "audioUnits s") auto
    have rem: "0 < remaining_frames r"
      using scheduler_wfD(3) [OF 1(3)] us by (simp add: contents_wf_def unit_wf_def remaining_frames_def)
    have play: "playableSampleFrames s = remaining_frames r + sum_list (map remaining_frames rest)"
      by (simp add: playable_sum us)
    have rest0: "0 \<le> sum_list (map remaining_frames rest)"
      using scheduler_wfD(3) [OF 1(3)] us
      by (intro sum_list_nonneg_int) (simp add: contents_wf_def unit_wf_remaining [THEN less_imp_le])
    show ?thesis
    proof (cases "remaining_frames r \<le> n")
      case full: True
      let ?s = "release_unit (unit r) (s\<lparr>audioUnits := rest,
        held := charge_audio (- sampleFrames r) (- unitPayloadBytes r) (- 1) (held s)\<rparr>)"
      have tk: "takes {#} s ?s" by (rule wf_play_out [OF 1(3) us])
      have eq: "consume_loop (n - remaining_frames r) (c + remaining_frames r) ?s = (c', t)"
        using 1(5) True us full by (subst (asm) consume_loop.simps) (simp add: Let_def remaining_frames_def)
      have "scheduler_wf ?s" using tk by (simp add: takes_def)
      from 1(1) [OF _ us refl refl refl _ this _, of c' t] eq True full
      have ih: "takes {#} ?s t" "c' = c + remaining_frames r + min (n - remaining_frames r) (playableSampleFrames ?s)"
        "playableSampleFrames t = playableSampleFrames ?s - (c' - (c + remaining_frames r))"
        "playbackState t = playbackState ?s" "discardedAudioUnits t = discardedAudioUnits ?s"
        and k: "\<exists>k. released t = released ?s @ map unit (take k (audioUnits ?s)) \<and>
          map unit (audioUnits t) = drop k (map unit (audioUnits ?s))"
        by (simp_all add: remaining_frames_def)
      from k obtain k where k: "released t = released ?s @ map unit (take k (audioUnits ?s))"
        "map unit (audioUnits t) = drop k (map unit (audioUnits ?s))" by blast
      have ps: "playableSampleFrames ?s = sum_list (map remaining_frames rest)"
        by (simp add: playable_sum release_unit_def)
      have "released t = released s @ map unit (take (Suc k) (audioUnits s))"
        "map unit (audioUnits t) = drop (Suc k) (map unit (audioUnits s))"
        using k us by (simp_all add: release_unit_def)
      then show ?thesis
        using takes_trans [OF tk ih(1)] ih(2-5) ps play full rest0
        by (auto simp: release_unit_def)
    next
      case part: False
      let ?r = "r\<lparr>consumedSampleFrames := consumedSampleFrames r + n\<rparr>"
      have tk: "takes {#} s (s\<lparr>audioUnits := ?r # rest\<rparr>)"
        using part True by (intro wf_play_on [OF 1(3) us]) simp_all
      have "(c', t) = (c + n, s\<lparr>audioUnits := ?r # rest\<rparr>)"
        using 1(5) True us part
        by (subst (asm) consume_loop.simps, subst (asm) consume_loop.simps) (simp add: Let_def remaining_frames_def min_def)
      then show ?thesis using tk play part rest0 us True
        by (auto simp: playable_sum remaining_frames_def intro!: exI [of _ 0])
    qed
  qed
qed

lemma step_account:
  assumes "scheduler_wf s"
  shows "takes {#} s (snd (accountRenderedSampleFrames n s)) \<and>
    ((playbackState s = Playing \<or> playbackState s = Paused) \<and> number_is_count n \<longrightarrow>
      fst (accountRenderedSampleFrames n s) = Inr (min (integral_part n) (playableSampleFrames s)) \<and>
      playableSampleFrames (snd (accountRenderedSampleFrames n s)) =
        playableSampleFrames s - min (integral_part n) (playableSampleFrames s))"
proof (cases "(playbackState s = Playing \<or> playbackState s = Paused) \<and> number_is_count n")
  case True
  obtain c t where c: "consume_loop (integral_part n) 0 s = (c, t)" by fastforce
  have eff: "takes {#} s t" "c = min (integral_part n) (playableSampleFrames s)"
    "playableSampleFrames t = playableSampleFrames s - c"
    using consume_loop_effect [OF assms _ c] True by auto
  have "scheduler_wf t" using eff(1) by (simp add: takes_def)
  then obtain u where u: "refreshPlaybackState t = (Inr (), u)" "quiet t u" "same_contents t u"
    using wf_refresh by blast
  then have "playableSampleFrames u = playableSampleFrames t"
    by (simp add: playable_sum same_contents_def)
  with True c u eff takes_quiet [OF eff(1) u(2)] show ?thesis
    by (simp add: accountRenderedSampleFrames_def andThen_apply)
qed (auto simp: accountRenderedSampleFrames_def quiet_takes quiet_refl assms)

lemma step_consume: "scheduler_wf s \<Longrightarrow> takes {#} s (snd (consumeSampleFrames n s))"
  using step_account [of s n] by (simp add: consumeSampleFrames_def quiet_takes quiet_refl)

lemma wf_rate:
  assumes "scheduler_wf s" and "rate_state_wf st"
  shows "quiet s (s\<lparr>playbackRateState := st\<rparr>)" and "quiet s (s\<lparr>playbackRateState := st, activePlaybackSequence := q\<rparr>)"
proof -
  have "same_contents s (s\<lparr>playbackRateState := st\<rparr>)"
    "same_contents s (s\<lparr>playbackRateState := st, activePlaybackSequence := q\<rparr>)"
    by (simp_all add: same_contents_def)
  note same = this [THEN wf_same_contents [OF assms(1)]]
  have "control_wf (s\<lparr>playbackRateState := st\<rparr>)"
    "control_wf (s\<lparr>playbackRateState := st, activePlaybackSequence := q\<rparr>)"
    using scheduler_wfD(5) [OF assms(1)] by (simp_all add: control_wf_def prompts_def)
  with same assms(2) show "quiet s (s\<lparr>playbackRateState := st\<rparr>)"
    "quiet s (s\<lparr>playbackRateState := st, activePlaybackSequence := q\<rparr>)"
    by (simp_all add: quiet_def)
qed

lemma step_selectPlaybackRate:
  assumes "scheduler_wf s"
  shows "quiet s (snd (selectPlaybackRatePercent p s))"
proof (cases "identity s = None \<or> playbackState s = PlaybackStopped")
  case False
  show ?thesis
  proof (cases "selectNarrationPlaybackRateV3 (playbackRateState s) p")
    case (Inr st)
    have "rate_state_wf st"
      using scheduler_wfD(3) [OF assms] rate_state_wf_select [OF _ Inr] by (simp add: contents_wf_def)
    note q = wf_rate(1) [OF assms this]
    obtain u where u: "refreshPlaybackState (s\<lparr>playbackRateState := st\<rparr>) = (Inr (), u)" "quiet (s\<lparr>playbackRateState := st\<rparr>) u"
      using wf_refresh [of "s\<lparr>playbackRateState := st\<rparr>"] q by (auto simp: quiet_def)
    with False Inr quiet_trans [OF q u(2)] quiet_refl [OF assms] show ?thesis
      by (simp add: selectPlaybackRatePercent_def andThen_apply)
  qed (use False in \<open>simp add: selectPlaybackRatePercent_def quiet_refl assms\<close>)
qed (simp add: selectPlaybackRatePercent_def quiet_refl assms)

lemma step_activate:
  assumes "scheduler_wf s"
  shows "quiet s (snd (activateCurrentPlaybackRate s))"
proof -
  have st: "rate_state_wf (playbackRateState s)" using scheduler_wfD(3) [OF assms] by (simp add: contents_wf_def)
  show ?thesis
  proof (cases "audioUnits s")
    case (Cons r rest)
    let ?b = "if activeRatePercent (playbackRateState s) = None then InitialUnitStart
      else AfterCompleteUnitEndedBeforeSuccessorStart"
    show ?thesis
    proof (cases "activateNarrationPlaybackRateAtBoundaryV3 (playbackRateState s) ?b")
      case (Inr t)
      have "rate_state_wf t" using rate_state_wf_activate [OF st Inr] by simp
      from wf_rate(2) [OF assms this] Cons Inr show ?thesis
        by (simp add: activateCurrentPlaybackRate_def quiet_refl assms)
    qed (simp add: activateCurrentPlaybackRate_def Cons quiet_refl assms)
  qed (simp add: activateCurrentPlaybackRate_def quiet_refl assms)
qed

lemma step_playAvailable:
  assumes "scheduler_wf s"
  shows "quiet s (snd (playAvailableAudio s))"
proof (cases "canPlayAvailableAudio s")
  case True
  then have "playbackState s \<noteq> PlaybackStopped" "nextAction s = NoAction Backpressure"
    by (auto simp: canPlayAvailableAudio_def)
  then have "playbackState s \<noteq> PlaybackStopped" "identity s \<noteq> None"
    by (simp, cases "identity s") (simp_all add: nextAction_def)
  with True show ?thesis
    by (auto simp: playAvailableAudio_def same_contents_def intro!: wf_status [OF assms])
qed (simp add: playAvailableAudio_def quiet_refl assms)

lemma step_resume:
  assumes "scheduler_wf s"
  shows "quiet s (snd (resumePlayback s))"
proof (cases "playbackState s = Paused")
  case True
  then have i: "identity s \<noteq> None" using wf_identity(2) [OF assms] by auto
  let ?t = "s\<lparr>playbackState := (if 0 < playableSampleFrames s then Playing else Buffering)\<rparr>"
  have q: "quiet s ?t"
    using True i by (intro wf_status [OF assms]) (simp_all add: same_contents_def)
  obtain u where "refreshPlaybackState ?t = (Inr (), u)" "quiet ?t u"
    using wf_refresh [of ?t] q by (auto simp: quiet_def)
  with True quiet_trans [OF q] show ?thesis by (simp add: resumePlayback_def)
qed (simp add: resumePlayback_def quiet_refl assms)

subsection \<open>Invalidation\<close>

lemma discard_simps [simp]:
  "discardedUnit \<circ> discard = unit"
  "discardedSampleFrames \<circ> discard = sampleFrames"
  "discardedPayloadBytes \<circ> discard = unitPayloadBytes"
  by (rule ext, simp add: discard_def)+

lemma discard_wf: "(\<forall>r \<in> set us. unit_wf r) \<Longrightarrow> (\<forall>d \<in> set (map discard us). discarded_wf d)"
  by (auto simp: discard_def unit_wf_def discarded_wf_def)

lemma step_invalidate:
  assumes "scheduler_wf s"
  shows "takes {#} s (snd (invalidate s)) \<and> identity (snd (invalidate s)) = None"
proof (cases "identity s")
  case (Some i)
  note wf = scheduler_wfD [OF assms]
  let ?t = "snd (invalidate s)"
  have eff: "audioUnits ?t = []" "discardedAudioUnits ?t = discardedAudioUnits s @ map discard (audioUnits s)"
    "prompts ?t = []" "reserved_units ?t = 0" "released ?t = released s" "identity ?t = None" "mode ?t = mode s"
    "playbackRateState ?t = playbackRateState s" "playbackState ?t = PlaybackStopped"
    "serviceState ?t \<in> {ServiceCancelling, ServiceStopping}" "activeSynthesis ?t = None"
    "lastAcceptedSequence ?t = lastAcceptedSequence s"
    using Some by (simp_all add: invalidate_def Let_def prompts_def reserved_units_def)
  have held: "held ?t = emptyResources\<lparr>audioSampleFrames := audioSampleFrames (held s) - 480000 * reserved_units s,
      audioPayloadBytes := audioPayloadBytes (held s) - 1920000 * reserved_units s,
      completeAudioUnits := completeAudioUnits (held s) - reserved_units s,
      audioMetadataEntries := audioMetadataEntries (held s) - reserved_units s\<rparr>"
    using Some by (simp add: invalidate_def Let_def reserved_units_def authority_constants)
  have units: "0 \<le> sum_list (map sampleFrames (audioUnits s))"
    "0 \<le> sum_list (map discardedSampleFrames (discardedAudioUnits s))"
    "0 \<le> sum_list (map unitPayloadBytes (audioUnits s))"
    "0 \<le> sum_list (map discardedPayloadBytes (discardedAudioUnits s))" "0 \<le> reserved_units s"
    using wf(3) by (auto simp: contents_wf_def unit_wf_def discarded_wf_def reserved_units_def intro!: sum_list_nonneg_int)
  have "scheduler_wf ?t"
    unfolding scheduler_wf_def
  proof (intro conjI)
    show "accounted ?t" using wf(1) eff held
      by (simp add: accounted_def emptyResources_def)
    show "evaluateAdaptiveBufferResources (held ?t) = Accepted"
      using wf(1,2) units by (simp add: held accounted_def evaluate_Accepted_iff emptyResources_def)
    show "contents_wf ?t" using wf(3) eff discard_wf [of "audioUnits s"] by (auto simp: contents_wf_def)
    show "order_wf ?t" using eff by (simp add: order_wf_def line_up_def)
    show "control_wf ?t" using eff held by (auto simp: control_wf_def emptyResources_def)
  qed
  moreover have "custody ?t = custody s"
    using eff by (simp add: custody_def)
  ultimately show ?thesis using eff by (simp add: takes_def)
qed (simp add: invalidate_def quiet_takes quiet_refl assms)

lemma wf_release_discarded:
  assumes "scheduler_wf s" and "discardedAudioUnits s = d # ds"
  shows "takes {#} s (release_unit (discardedUnit d) (s\<lparr>discardedAudioUnits := ds,
    held := charge_audio (- discardedSampleFrames d) (- discardedPayloadBytes d) (- 1) (held s)\<rparr>))"
proof -
  let ?h = "charge_audio (- discardedSampleFrames d) (- discardedPayloadBytes d) (- 1) (held s)"
  let ?t = "s\<lparr>discardedAudioUnits := ds, held := ?h\<rparr>"
  note wf = scheduler_wfD [OF assms(1)]
  have units: "0 \<le> sum_list (map sampleFrames (audioUnits s))" "0 \<le> sum_list (map unitPayloadBytes (audioUnits s))"
    "0 \<le> sum_list (map discardedSampleFrames ds)" "0 \<le> sum_list (map discardedPayloadBytes ds)"
    "0 \<le> reserved_units s" "0 < discardedSampleFrames d" "0 < discardedPayloadBytes d"
    using wf(3) assms(2) by (auto simp: contents_wf_def unit_wf_def discarded_wf_def reserved_units_def intro!: sum_list_nonneg_int)
  have acc: "accounted ?t" using wf(1) assms(2) by (simp add: accounted_def charge_audio_def)
  have eval: "evaluateAdaptiveBufferResources ?h = Accepted"
    using wf(1,2) units assms(2) by (simp add: accounted_def evaluate_Accepted_iff charge_audio_def)
  have con: "contents_wf ?t" using wf(3) assms(2) by (simp add: contents_wf_def)
  have ord: "order_wf ?t" using wf(4) by (simp add: order_wf_def)
  have "control_wf ?t" using wf(5) by (auto simp: control_wf_def charge_audio_def)
  with acc eval con ord have "scheduler_wf ?t" by (simp add: scheduler_wf_def)
  then show ?thesis using assms(2) by (simp add: takes_def wf_release custody_def) (simp add: release_unit_def)
qed

lemma release_loop_effect:
  "scheduler_wf s \<Longrightarrow> takes {#} s (release_loop n s) \<and>
     discardedAudioUnits (release_loop n s) = drop n (discardedAudioUnits s) \<and>
     audioUnits (release_loop n s) = audioUnits s \<and> identity (release_loop n s) = identity s \<and>
     activeSynthesis (release_loop n s) = activeSynthesis s \<and> serviceState (release_loop n s) = serviceState s"
proof (induction n s rule: release_loop.induct)
  case (2 n s)
  show ?case
  proof (cases "discardedAudioUnits s")
    case (Cons d ds)
    let ?s = "release_unit (discardedUnit d) (s\<lparr>discardedAudioUnits := ds,
      held := charge_audio (- discardedSampleFrames d) (- discardedPayloadBytes d) (- 1) (held s)\<rparr>)"
    have tk: "takes {#} s ?s" by (rule wf_release_discarded [OF 2(2) Cons])
    then have "scheduler_wf ?s" by (simp add: takes_def)
    with 2(1) [OF Cons] tk Cons takes_trans [OF tk, of "{#}"] show ?thesis
      by (simp add: release_unit_def)
  qed (use 2(2) in \<open>simp add: quiet_takes quiet_refl\<close>)
qed (simp add: quiet_takes quiet_refl)

lemma step_releaseDiscarded:
  "scheduler_wf s \<Longrightarrow> takes {#} s (snd (releaseDiscardedAudioUnits n s))"
  using release_loop_effect
  by (auto simp: releaseDiscardedAudioUnits_def Let_def quiet_takes quiet_refl split: js_number.split)

section \<open>Any sequence of operations\<close>

text \<open>The units an operation hands to the scheduler.\<close>

fun offered :: "scheduler_op \<Rightarrow> audio_unit multiset" where
  "offered (AcceptCompletedUnit u) = {#u#}"
| "offered _ = {#}"

lemma snd_forget [simp]: "snd (forget m s) = snd (m s)"
  by (simp add: forget_def andThen_apply split: prod.split sum.split)

lemma step_takes:
  assumes "scheduler_wf s"
  shows "takes (offered x) s (snd (scheduler_step x s))"
proof (cases x)
  case (AcceptCompletedUnit u)
  with step_acceptCompletedUnit [OF assms, of u] show ?thesis by auto
next
  case BeginNarrationPreparation
  with step_beginNarrationPreparation [OF assms] show ?thesis by (simp add: quiet_takes)
next
  case BeginSynthesis
  with step_beginSynthesis [OF assms] show ?thesis by (simp add: quiet_takes)
next
  case (AccountRendered n)
  with step_account [OF assms, of n] show ?thesis by simp
qed (simp_all add: quiet_takes step_service step_acceptPreparedBatch step_acceptEmptyPreparedRange
    step_failNarrationPreparation step_failActiveSynthesis step_selectPlaybackRate step_activate
    step_consume step_playAvailable step_resume step_invalidate step_releaseDiscarded assms)

interpretation scheduler_machine: monotone_machine scheduler_step scheduler_wf "\<lambda>s. size (custody s)"
  by unfold_locales (use step_takes in \<open>auto simp: takes_def\<close>)

lemma run_custody:
  "scheduler_wf s \<Longrightarrow> custody (run scheduler_step xs s) = custody s + sum_list (map offered xs)"
proof (induction xs arbitrary: s)
  case (Cons x xs)
  have "takes (offered x) s (snd (scheduler_step x s))" by (rule step_takes [OF Cons.prems])
  with Cons.IH show ?case by (simp add: takes_def add.assoc)
qed simp

text \<open>A new scheduler.\<close>

lemma createScheduler_Inr:
  assumes "createScheduler clock ident m rate = Inr s"
  shows "scheduler_wf s \<and> custody s = {#} \<and> identity s = Some ident \<and> mode s = m \<and> released s = []"
proof -
  define s0 where "s0 = \<lparr>clockNowMs = clock, mode = m, identity = Some ident, serviceState = ServiceStopped,
      playbackState = PlaybackPreparing, pendingSegments = [], activeSynthesis = None, audioUnits = [],
      discardedAudioUnits = [], lastAcceptedSequence = None, held = emptyResources, rangeComplete = False,
      initialPlaybackStarted = False, playbackRateState = initialNarrationPlaybackRateStateV3,
      activePlaybackSequence = None, released = []\<rparr>"
  from assms obtain st where st: "s = s0\<lparr>playbackRateState := st\<rparr>"
      "st = initialNarrationPlaybackRateStateV3 \<or> selectNarrationPlaybackRateV3 initialNarrationPlaybackRateStateV3 rate = Inr st"
    and m: "mode_wf m"
    unfolding createScheduler_def Let_def s0_def [symmetric]
    by (auto simp: s0_def mode_wf_def split: if_splits sum.splits start_mode.splits)
  have "rate_state_wf st"
    using st(2) rate_state_wf_initial rate_state_wf_select by blast
  with m show ?thesis
    unfolding st(1) scheduler_wf_def evaluate_Accepted_iff
    by (simp add: accounted_def contents_wf_def order_wf_def control_wf_def prompts_def
        reserved_units_def line_up_def s0_def emptyResources_def custody_def)
qed

text \<open>An operation that throws has done nothing.\<close>

lemma keeps_forget: "keeps_on_throw s (m s) \<Longrightarrow> keeps_on_throw s (forget m s)"
  by (auto simp: keeps_on_throw_def forget_def andThen_apply split: prod.splits sum.splits)

lemma keeps_returns: "fst r = Inr x \<Longrightarrow> keeps_on_throw s r"
  by (simp add: keeps_on_throw_def)

lemma refresh_returns: "scheduler_wf s \<Longrightarrow> fst (refreshPlaybackState s) = Inr ()"
  using wf_refresh [of s] by auto

lemma step_keeps:
  assumes "scheduler_wf s"
  shows "keeps_on_throw s (scheduler_step x s)"
proof (cases x)
  case (AcceptCompletedUnit u)
  with step_acceptCompletedUnit [OF assms, of u] show ?thesis
    by (auto intro!: keeps_forget keeps_intros)
next
  case BeginNarrationPreparation
  with step_beginNarrationPreparation [OF assms] show ?thesis
    by (cases "nextAction s = PrepareNarration")
      (auto simp: keeps_on_throw_def beginNarrationPreparation_def expectAction_def andThen_apply)
next
  case BeginSynthesis
  have "keeps_on_throw s (beginSynthesis s)"
    using step_beginSynthesis [OF assms]
    by (cases "nextAction s") (auto simp: keeps_on_throw_def beginSynthesis_def)
  with BeginSynthesis show ?thesis by (simp add: keeps_forget)
next
  case (AcceptEmptyPreparedRange c)
  show ?thesis
  proof (cases "activeNarrationPreparations (held s) = 1")
    case True
    have "scheduler_wf (s\<lparr>held := (held s)\<lparr>activeNarrationPreparations := 0\<rparr>, rangeComplete := c\<rparr>)"
      using end_preparation(1) [OF assms True] by (simp add: quiet_def)
    from refresh_returns [OF this] AcceptEmptyPreparedRange show ?thesis
      by (auto simp: acceptEmptyPreparedRange_def intro: keeps_intros keeps_returns)
  qed (simp add: AcceptEmptyPreparedRange acceptEmptyPreparedRange_def keeps_intros)
next
  case FailActiveSynthesis
  then show ?thesis
    using settle_fails [OF assms]
    by (cases "activeSynthesis s") (auto simp: failActiveSynthesis_def keeps_intros)
next
  case (SelectPlaybackRate p)
  have "keeps_on_throw s (selectPlaybackRatePercent p s)"
  proof (cases "selectNarrationPlaybackRateV3 (playbackRateState s) p")
    case (Inr st)
    have "rate_state_wf st"
      using scheduler_wfD(3) [OF assms] rate_state_wf_select [OF _ Inr] by (simp add: contents_wf_def)
    then have "scheduler_wf (s\<lparr>playbackRateState := st\<rparr>)" using wf_rate(1) [OF assms] by (simp add: quiet_def)
    from wf_refresh [OF this] Inr show ?thesis
      by (auto simp: selectPlaybackRatePercent_def andThen_apply keeps_intros)
  qed (simp add: selectPlaybackRatePercent_def keeps_intros)
  with SelectPlaybackRate show ?thesis by (simp add: keeps_forget)
next
  case (AccountRendered n)
  have "keeps_on_throw s (accountRenderedSampleFrames n s)"
    using step_account [OF assms, of n]
    by (cases "(playbackState s = Playing \<or> playbackState s = Paused) \<and> number_is_count n")
      (auto intro: keeps_returns simp: accountRenderedSampleFrames_def keeps_intros)
  with AccountRendered show ?thesis by (simp add: keeps_forget)
next
  case (ConsumeFrames n)
  have "keeps_on_throw s (consumeSampleFrames n s)"
    using step_account [OF assms, of n]
    by (auto intro: keeps_returns simp: consumeSampleFrames_def keeps_intros)
  with ConsumeFrames show ?thesis by (simp add: keeps_forget)
next
  case ResumePlayback
  show ?thesis
  proof (cases "playbackState s = Paused")
    case True
    then have "identity s \<noteq> None" using wf_identity(2) [OF assms] by auto
    with True have "quiet s (s\<lparr>playbackState := (if 0 < playableSampleFrames s then Playing else Buffering)\<rparr>)"
      by (intro wf_status [OF assms]) (simp_all add: same_contents_def)
    then have "fst (resumePlayback s) = Inr ()"
      using True refresh_returns by (simp add: resumePlayback_def quiet_def)
    with ResumePlayback show ?thesis by (simp add: keeps_returns)
  qed (simp add: ResumePlayback resumePlayback_def keeps_intros)
next
  case ActivateCurrentPlaybackRate
  have "keeps_on_throw s (activateCurrentPlaybackRate s)"
    unfolding activateCurrentPlaybackRate_def by (intro keeps_splits keeps_intros)
  with ActivateCurrentPlaybackRate show ?thesis by (simp add: keeps_forget)
next
  case (ReleaseDiscarded n)
  have "keeps_on_throw s (releaseDiscardedAudioUnits n s)"
    by (cases n) (auto simp: releaseDiscardedAudioUnits_def Let_def keeps_on_throw_def)
  with ReleaseDiscarded show ?thesis by (simp add: keeps_forget)
qed (auto simp: keeps_acceptPreparedBatch beginServiceStart_def markServiceStarted_def beginServicePrepare_def
    markServiceReady_def failServiceTransition_def settleServiceStop_def expectAction_def andThen_apply
    failNarrationPreparation_def pausePlayback_def playAvailableAudio_def invalidate_def Let_def
    keeps_intros intro!: keeps_forget)

text \<open>An invalidated scheduler stays invalidated: its queue stays empty and it has no next action.\<close>

lemma invalidated_facts:
  assumes "scheduler_wf s" and "identity s = None"
  shows "nextAction s = NoAction Invalidated" "audioUnits s = []" "activeSynthesis s = None"
    "playbackState s = PlaybackStopped" "activeNarrationPreparations (held s) = 0"
    "serviceState s \<in> {ServiceCancelling, ServiceStopping, ServiceStopped}" "\<not> canPlayAvailableAudio s"
proof -
  show n: "nextAction s = NoAction Invalidated" using assms(2) by (simp add: nextAction_def)
  then show "\<not> canPlayAvailableAudio s" by (simp add: canPlayAvailableAudio_def)
  show "audioUnits s = []" "activeSynthesis s = None" "playbackState s = PlaybackStopped"
    "activeNarrationPreparations (held s) = 0"
    "serviceState s \<in> {ServiceCancelling, ServiceStopping, ServiceStopped}"
    using scheduler_wfD(5) [OF assms(1)] assms(2) by (auto simp: control_wf_def prompts_def split: option.splits)
qed

lemma step_invalidated:
  assumes "scheduler_wf s" and "identity s = None"
  shows "identity (snd (scheduler_step x s)) = None"
proof (cases x)
  case (AcceptCompletedUnit u)
  with assms show ?thesis by (simp add: acceptCompletedUnit_def sameIdentity_def release_unit_def)
next
  case (ReleaseDiscarded n)
  with assms release_loop_effect [OF assms(1)] show ?thesis
    by (cases n) (auto simp: releaseDiscardedAudioUnits_def Let_def)
qed (use invalidated_facts [OF assms] assms(2) in \<open>auto simp: acceptPreparedBatch_def beginServiceStart_def
    markServiceStarted_def beginServicePrepare_def markServiceReady_def failServiceTransition_def
    settleServiceStop_def expectAction_def andThen_apply failNarrationPreparation_def pausePlayback_def
    playAvailableAudio_def invalidate_def beginNarrationPreparation_def acceptEmptyPreparedRange_def
    beginSynthesis_def failActiveSynthesis_def selectPlaybackRatePercent_def activateCurrentPlaybackRate_def
    accountRenderedSampleFrames_def consumeSampleFrames_def resumePlayback_def\<close>)

lemma run_invalidated:
  "scheduler_wf s \<Longrightarrow> identity s = None \<Longrightarrow> identity (run scheduler_step xs s) = None"
proof (induction xs arbitrary: s)
  case (Cons x xs)
  have "scheduler_wf (snd (scheduler_step x s))" by (rule scheduler_machine.step_inv [OF Cons.prems(1)])
  with Cons.IH step_invalidated [OF Cons.prems] show ?case by simp
qed simp

text \<open>Draining an invalidated scheduler makes a replacement possible.\<close>

lemma release_loop_clock:
  "clockNowMs (release_loop n s) = clockNowMs s \<and> mode (release_loop n s) = mode s"
  by (induction n s rule: release_loop.induct) (auto simp: release_unit_def split: list.splits)

lemma replacement_reachable:
  assumes "scheduler_wf s" and "identity s = None" and "sessionId i \<noteq> []" and "generationId i \<noteq> []"
    and "number_is_count (clockNowMs s)"
  shows "\<exists>fresh. fst (beginReplacement i None
    (run scheduler_step [ReleaseDiscarded (Integral 256), SettleServiceStop] s)) = Inr fresh"
proof -
  let ?r = "release_loop 256 s"
  have len: "length (discardedAudioUnits s) \<le> 256"
  proof -
    have "completeAudioUnits (held s) \<le> 256"
      using scheduler_wfD(2) [OF assms(1)] by (simp add: evaluate_Accepted_iff)
    then show ?thesis using scheduler_wfD(1) [OF assms(1)] by (auto simp: accounted_def reserved_units_def split: if_splits)
  qed
  have r: "scheduler_wf ?r" "discardedAudioUnits ?r = []" "identity ?r = None"
    using release_loop_effect [OF assms(1), of 256] len assms(2) by (simp_all add: takes_def)
  from invalidated_facts [OF r(1,3)] r(2) scheduler_wfD(1) [OF r(1)]
  have empty: "completeAudioUnits (held ?r) = 0" "serviceState ?r \<in> {ServiceCancelling, ServiceStopping, ServiceStopped}"
    by (simp_all add: accounted_def reserved_units_def)
  define t where "t = run scheduler_step [ReleaseDiscarded (Integral 256), SettleServiceStop] s"
  have t: "serviceState t = ServiceStopped" "identity t = None" "completeAudioUnits (held t) = 0"
    "clockNowMs t = clockNowMs s" "mode t = mode s"
    using empty r(3) release_loop_clock [of 256 s]
    by (auto simp: t_def releaseDiscardedAudioUnits_def Let_def safe_integer_def MAX_SAFE_INTEGER_def settleServiceStop_def)
  moreover have "mode_wf (mode s)" using scheduler_wfD(3) [OF assms(1)] by (simp add: contents_wf_def)
  ultimately show ?thesis
    unfolding t_def [symmetric] using assms(3-5)
    by (auto simp: beginReplacement_def createScheduler_def assertClock_def mode_wf_def Let_def
        split: sum.splits start_mode.splits)
qed

section \<open>Properties\<close>

text \<open>A concrete scheduler, unit and client for the witnesses.\<close>

definition sample_ident :: work_identity where
  "sample_ident = \<lparr>sessionId = ''s1'', generationId = ''g1''\<rparr>"

definition sample_scheduler :: scheduler where
  "sample_scheduler = \<lparr>clockNowMs = Integral 0, mode = Quick, identity = Some sample_ident,
     serviceState = ServiceStopped, playbackState = PlaybackPreparing, pendingSegments = [],
     activeSynthesis = None, audioUnits = [], discardedAudioUnits = [], lastAcceptedSequence = None,
     held = emptyResources, rangeComplete = False, initialPlaybackStarted = False,
     playbackRateState = initialNarrationPlaybackRateStateV3, activePlaybackSequence = None, released = []\<rparr>"

lemma sample_scheduler_created: "createScheduler (Integral 0) sample_ident Quick 100 = Inr sample_scheduler"
  by (simp add: createScheduler_def sample_ident_def assertClock_def is_count_iff Let_def sample_scheduler_def)

definition sample_unit :: audio_unit where
  "sample_unit = \<lparr>unitObject = 7, metadata = \<lparr>metaSessionId = ''s1'', metaGenerationId = ''g1'', metaSegmentId = ''a'',
     sampleRateHz = Integral 24000, channelCount = Integral 1, sampleFormat = ''float32-le'',
     sampleCountSamples = Integral 1, payloadBytes = Integral 4, endOfSegment = True\<rparr>, payload = [0, 0, 0, 0]\<rparr>"

definition sample_input :: prepared_input where
  "sample_input = \<lparr>inSegmentId = ''a'', inSequence = Integral 4, inSourceRange = range_wire sample_range,
     inCodePoints = Integral 40, inUtf8Bytes = Integral 41, inSentenceCount = Integral 1,
     inTransitionPauseMs = Integral 300\<rparr>"

definition sample_client :: "scheduler_op list" where
  "sample_client = [BeginServiceStart, MarkServiceStarted, BeginServicePrepare, MarkServiceReady,
     BeginNarrationPreparation, AcceptPreparedBatch [sample_input] True, BeginSynthesis,
     AcceptCompletedUnit sample_unit, AcceptCompletedUnit sample_unit]"

text \<open>The client brings the scheduler to playing a unit of one frame.\<close>

definition sample_segment :: prepared_segment where
  "sample_segment = \<lparr>segmentId = ''a'', sequence = 4, sourceRange = sample_range, narrationCodePoints = 40,
     narrationUtf8Bytes = 41, sentenceCount = 1, transitionPauseMs = 300\<rparr>"

lemma sample_freeze: "freezeAll [sample_input] = Inr [sample_segment]"
  by (simp add: freezePreparedSegment_def sample_input_def sample_segment_def sample_decodes is_count_iff
      safe_integer_def MAX_SAFE_INTEGER_def)

definition sample_ready :: scheduler where
  "sample_ready = sample_scheduler\<lparr>serviceState := ServiceReady,
     held := emptyResources\<lparr>activeNarrationPreparations := 1\<rparr>\<rparr>"

lemma sample_runs_to_ready: "run scheduler_step (take 5 sample_client) sample_scheduler = sample_ready"
  by (simp add: sample_client_def sample_scheduler_def sample_ready_def beginServiceStart_def expectAction_def
      andThen_apply nextAction_def markServiceStarted_def beginServicePrepare_def markServiceReady_def
      beginNarrationPreparation_def playableSampleFrames_def shouldProduce_def effectiveListeningDurationMs_def
      targetBufferMs_def authority_constants canReserveServiceUnit_def canReserveAdaptiveBufferServiceUnit_def
      evaluate_Accepted_iff emptyResources_def)

definition sample_playing :: scheduler where
  "sample_playing = sample_ready\<lparr>playbackState := Playing, initialPlaybackStarted := True,
     held := emptyResources\<lparr>audioSampleFrames := 1, audioPayloadBytes := 4, completeAudioUnits := 1,
       audioMetadataEntries := 1\<rparr>,
     audioUnits := [\<lparr>unitSequence = 4, unitSourceRange = sample_range, unit = sample_unit, sampleFrames = 1,
       unitPayloadBytes = 4, unitTransitionPauseMs = 300, consumedSampleFrames = 0\<rparr>],
     lastAcceptedSequence := Some 4, rangeComplete := True, released := []\<rparr>"

definition sample_generating :: scheduler where
  "sample_generating = sample_ready\<lparr>serviceState := ServiceGenerating,
     held := emptyResources\<lparr>audioSampleFrames := 480000, audioPayloadBytes := 1920000, completeAudioUnits := 1,
       audioMetadataEntries := 1, retainedPreparedBatches := 1, retainedPreparedSegments := 1,
       retainedNarrationCodePoints := 40, retainedNarrationUtf8Bytes := 41, retainedNarrationSentences := 1,
       activeSyntheses := 1\<rparr>,
     activeSynthesis := Some sample_segment, lastAcceptedSequence := Some 4, rangeComplete := True\<rparr>"

definition sample_pending :: scheduler where
  "sample_pending = sample_ready\<lparr>
     held := emptyResources\<lparr>retainedPreparedBatches := 1, retainedPreparedSegments := 1,
       retainedNarrationCodePoints := 40, retainedNarrationUtf8Bytes := 41, retainedNarrationSentences := 1\<rparr>,
     pendingSegments := [sample_segment], lastAcceptedSequence := Some 4, rangeComplete := True\<rparr>"

lemma sample_ready_fields:
  "activeNarrationPreparations (held sample_ready) = 1" "retainedPreparedBatches (held sample_ready) = 0"
  "pendingSegments sample_ready = []" "activeSynthesis sample_ready = None" "lastAcceptedSequence sample_ready = None"
  by (simp_all add: sample_ready_def sample_scheduler_def emptyResources_def)

lemma sample_accepts:
  "acceptPreparedBatch [sample_input] True sample_ready = (Inr (), sample_pending)"
proof -
  let ?r = "(held sample_ready)\<lparr>retainedPreparedBatches := 1, retainedPreparedSegments := int (length [sample_segment]),
    retainedNarrationCodePoints := sum_list (map narrationCodePoints [sample_segment]),
    retainedNarrationUtf8Bytes := sum_list (map narrationUtf8Bytes [sample_segment]),
    retainedNarrationSentences := sum_list (map sentenceCount [sample_segment]), activeNarrationPreparations := 0\<rparr>"
  have r: "?r = held sample_pending"
    by (simp add: sample_ready_def sample_pending_def sample_segment_def emptyResources_def)
  have "evaluateAdaptiveBufferResources ?r = Accepted"
    unfolding r by (simp add: sample_pending_def emptyResources_def evaluate_Accepted_iff)
  then have "acceptPreparedBatch [sample_input] True sample_ready = (Inr (), sample_ready\<lparr>held := ?r,
      pendingSegments := [sample_segment], lastAcceptedSequence := Some (sequence (last [sample_segment])), rangeComplete := True\<rparr>)"
    unfolding acceptPreparedBatch_def sample_freeze sample_ready_fields Let_def
    by (simp add: sample_segment_def is_count_iff)
  then show ?thesis unfolding r by (simp add: sample_pending_def sample_segment_def)
qed

lemma sample_begins: "beginSynthesis sample_pending = (Inr ''a'', sample_generating)"
proof -
  have "nextAction sample_pending = Synthesize ''a''"
    by (simp add: sample_pending_def sample_ready_def sample_scheduler_def sample_segment_def nextAction_def
        playableSampleFrames_def shouldProduce_def effectiveListeningDurationMs_def targetBufferMs_def authority_constants
        canReserveServiceUnit_def canReserveAdaptiveBufferServiceUnit_def evaluate_Accepted_iff emptyResources_def)
  then show ?thesis
    unfolding beginSynthesis_def
    by (simp add: Let_def sample_pending_def sample_generating_def sample_ready_def sample_scheduler_def
        sample_segment_def charge_audio_def authority_constants evaluate_Accepted_iff emptyResources_def)
qed

lemma sample_runs_to_generating:
  "run scheduler_step [AcceptPreparedBatch [sample_input] True, BeginSynthesis] sample_ready = sample_generating"
  by (simp add: sample_accepts sample_begins)

lemma sample_unit_valid: "validAudioUnit sample_unit"
  by (simp add: validAudioUnit_def sample_unit_def is_count_iff authority_constants finite_float32_def)

lemma sample_duration: "\<lfloor>js_add 0 (js_div 100000 2400000)\<rfloor> = 0"
  by code_simp

definition sample_settled :: scheduler where
  "sample_settled = sample_playing\<lparr>playbackState := PlaybackPreparing, initialPlaybackStarted := False\<rparr>"

lemma sample_refreshes: "refreshPlaybackState sample_settled = (Inr (), sample_playing)"
proof -
  have f: "playbackState sample_settled = PlaybackPreparing" "identity sample_settled = Some sample_ident"
    "playableSampleFrames sample_settled = 1" "nothing_left sample_settled"
    by (simp_all add: sample_settled_def sample_playing_def sample_ready_def sample_scheduler_def
        playableSampleFrames_def nothing_left_def)
  have "effectiveListeningDurationMs sample_settled = 0"
    by (simp add: effectiveListeningDurationMs_def sample_settled_def sample_playing_def sample_ready_def
        sample_scheduler_def remaining_frames_def unit_rate_def initialNarrationPlaybackRateStateV3_def
        SAMPLE_RATE_HZ_def sample_duration)
  with f have "refreshPlaybackState sample_settled =
      (Inr (), sample_settled\<lparr>playbackState := Playing, initialPlaybackStarted := True\<rparr>)"
    by (simp add: refreshPlaybackState_def)
  also have "sample_settled\<lparr>playbackState := Playing, initialPlaybackStarted := True\<rparr> = sample_playing"
    by (simp add: sample_settled_def sample_playing_def)
  finally show ?thesis .
qed

lemma sample_runs_to_playing: "run scheduler_step [AcceptCompletedUnit sample_unit] sample_generating = sample_playing"
proof -
  have a: "activeSynthesis sample_generating = Some sample_segment"
    "sameIdentity (metadata sample_unit) (identity sample_generating) (Some sample_segment)"
    by (simp_all add: sample_generating_def sample_ready_def sample_scheduler_def sameIdentity_def sample_unit_def
        sample_ident_def sample_segment_def)
  let ?r = "settled_resources sample_segment (1 - 480000) (4 - 1920000) 0 (held sample_generating)"
  have r: "?r = emptyResources\<lparr>audioSampleFrames := 1, audioPayloadBytes := 4, completeAudioUnits := 1,
      audioMetadataEntries := 1, retainedPreparedBatches := 1\<rparr>"
    by (simp add: settled_resources_def sample_generating_def charge_audio_def sample_segment_def emptyResources_def)
  have n: "integral_part (sampleCountSamples (metadata sample_unit)) = 1"
    "integral_part (payloadBytes (metadata sample_unit)) = 4"
    by (simp_all add: sample_unit_def)
  have "clearPreparedBatchIfSettled (sample_generating\<lparr>held := ?r, activeSynthesis := None,
      audioUnits := audioUnits sample_generating @ [\<lparr>unitSequence = sequence sample_segment,
        unitSourceRange = sourceRange sample_segment, unit = sample_unit, sampleFrames = 1, unitPayloadBytes = 4,
        unitTransitionPauseMs = transitionPauseMs sample_segment, consumedSampleFrames = 0\<rparr>],
      serviceState := ServiceReady\<rparr>) = sample_settled"
    unfolding r
    by (simp add: clearPreparedBatchIfSettled_def sample_generating_def sample_ready_def sample_scheduler_def
        sample_segment_def sample_settled_def sample_playing_def emptyResources_def)
  moreover have "evaluateAdaptiveBufferResources ?r = Accepted"
    unfolding r by (simp add: emptyResources_def evaluate_Accepted_iff)
  moreover note settleActivePromptResources_Some [of sample_segment "1 - 480000" "4 - 1920000" 0 "held sample_generating"]
  ultimately have "acceptCompletedUnit sample_unit sample_generating = andThen refreshPlaybackState (\<lambda>_. ok AcceptedOutcome) sample_settled"
    using a sample_unit_valid n by (simp add: acceptCompletedUnit_def Let_def authority_constants)
  then show ?thesis by (simp add: andThen_apply sample_refreshes)
qed

lemma sample_client_plays: "run scheduler_step (take 8 sample_client) sample_scheduler = sample_playing"
proof -
  have "take 8 sample_client = take 5 sample_client @
      ([AcceptPreparedBatch [sample_input] True, BeginSynthesis] @ [AcceptCompletedUnit sample_unit])"
    by (simp add: sample_client_def)
  then show ?thesis
    by (simp only: run_append sample_runs_to_ready sample_runs_to_generating sample_runs_to_playing)
qed

text \<open>
  C3. Whatever sequence of operations a client runs on a new scheduler, those that throw included,
  the resource snapshot equals the sum over what the scheduler holds (queued and discarded units, the
  reservation of the active synthesis, the prepared texts), it is within every frozen limit, and the
  source sequence numbers still to be played are strictly increasing.
\<close>

theorem scheduler_accounts_exactly:
  assumes "createScheduler clock ident m rate = Inr s"
  shows "accounted (run scheduler_step ops s) \<and>
    evaluateAdaptiveBufferResources (held (run scheduler_step ops s)) = Accepted \<and>
    sorted_wrt (<) (line_up (run scheduler_step ops s))"
  using scheduler_machine.run_inv [of s ops] createScheduler_Inr [OF assms]
  by (simp add: scheduler_wf_def order_wf_def)

theorem scheduler_accounts_exactly_witness:
  "accounted (run scheduler_step sample_client sample_scheduler)"
  using scheduler_accounts_exactly [OF sample_scheduler_created] by simp

text \<open>
  C2. No audio unit is lost, leaked or released twice: at every moment each unit handed over so far is
  exactly once in the queue, among the discarded units, or in the log of release calls.
\<close>

theorem every_unit_held_or_released_once:
  assumes "createScheduler clock ident m rate = Inr s"
  shows "mset (map unit (audioUnits (run scheduler_step ops s))) +
      mset (map discardedUnit (discardedAudioUnits (run scheduler_step ops s))) +
      mset (released (run scheduler_step ops s)) = sum_list (map offered ops)"
  using run_custody [of s ops] createScheduler_Inr [OF assms] by (simp add: custody_def)

theorem every_unit_held_or_released_once_witness:
  "size (mset (released (run scheduler_step sample_client sample_scheduler))) \<le> 2"
proof -
  have "sum_list (map offered sample_client) = {#sample_unit, sample_unit#}"
    by (simp add: sample_client_def)
  with every_unit_held_or_released_once [OF sample_scheduler_created, of sample_client]
  have "size (mset (map unit (audioUnits (run scheduler_step sample_client sample_scheduler))) +
      mset (map discardedUnit (discardedAudioUnits (run scheduler_step sample_client sample_scheduler))) +
      mset (released (run scheduler_step sample_client sample_scheduler))) = 2" by simp
  then show ?thesis by simp
qed

text \<open>
  An operation that throws has done nothing: the scheduler is exactly as it was. In particular
  the reservation check of \<open>beginSynthesis\<close>, which runs after the segment has left the pending list,
  never fails there.
\<close>

theorem scheduler_throw_changes_nothing:
  assumes "createScheduler clock ident m rate = Inr s"
    and "fst (scheduler_step x (run scheduler_step ops s)) = Inl e"
  shows "snd (scheduler_step x (run scheduler_step ops s)) = run scheduler_step ops s"
proof -
  have "scheduler_wf (run scheduler_step ops s)"
    by (rule scheduler_machine.run_inv) (simp add: createScheduler_Inr [OF assms(1)])
  from keeps_Inl [OF step_keeps [OF this] assms(2)] show ?thesis .
qed

theorem scheduler_throw_changes_nothing_witness:
  "snd (scheduler_step Invalidate (run scheduler_step [Invalidate] sample_scheduler)) =
     run scheduler_step [Invalidate] sample_scheduler"
proof -
  have "fst (scheduler_step Invalidate (run scheduler_step [Invalidate] sample_scheduler)) = Inl InvalidState"
    by (simp add: invalidate_def forget_def andThen_apply Let_def sample_scheduler_def)
  from scheduler_throw_changes_nothing [OF sample_scheduler_created this] show ?thesis .
qed

text \<open>
  C4. A finished synthesis is always settled: handing over a unit never throws, whatever happened
  before. It is accepted exactly when it is valid and names the synthesis in progress, a mismatched
  one is released at once and leaves everything else as it was.
\<close>

theorem completed_unit_never_refused:
  assumes "createScheduler clock ident m rate = Inr s"
    and t_def: "t = run scheduler_step ops s"
  shows "\<exists>outcome. fst (acceptCompletedUnit u t) = Inr outcome \<and>
    (outcome = AcceptedOutcome \<longleftrightarrow> sameIdentity (metadata u) (identity t) (activeSynthesis t) \<and> validAudioUnit u) \<and>
    (outcome = StaleOutcome \<longleftrightarrow> \<not> sameIdentity (metadata u) (identity t) (activeSynthesis t)) \<and>
    (outcome = StaleOutcome \<longrightarrow> snd (acceptCompletedUnit u t) = release_unit u t)"
proof -
  have "scheduler_wf t"
    using scheduler_machine.run_inv createScheduler_Inr [OF assms(1)] by (simp add: t_def)
  from step_acceptCompletedUnit [OF this, of u] show ?thesis by auto
qed

theorem completed_unit_never_refused_witness:
  "\<exists>outcome. fst (acceptCompletedUnit sample_unit (run scheduler_step sample_client sample_scheduler)) = Inr outcome"
  using completed_unit_never_refused [OF sample_scheduler_created refl] by blast

text \<open>
  C5. Invalidation is final: after \<open>invalidate\<close>, no later sequence of operations makes any audio
  playable or any work start again, and late units are released as stale.
\<close>

theorem invalidation_is_final:
  assumes "createScheduler clock ident m rate = Inr s"
    and t_def: "t = run scheduler_step later (snd (invalidate (run scheduler_step ops s)))"
  shows "currentPlaybackUnit t = None \<and> nextAction t = NoAction Invalidated \<and>
    playbackState t = PlaybackStopped \<and> acceptCompletedUnit u t = (Inr StaleOutcome, release_unit u t)"
proof -
  have "scheduler_wf (run scheduler_step ops s)"
    using scheduler_machine.run_inv createScheduler_Inr [OF assms(1)] by simp
  from step_invalidate [OF this] have inv: "scheduler_wf (snd (invalidate (run scheduler_step ops s)))"
    "identity (snd (invalidate (run scheduler_step ops s))) = None" by (simp_all add: takes_def)
  have t: "scheduler_wf t" "identity t = None"
    unfolding t_def using scheduler_machine.run_inv [OF inv(1)] run_invalidated [OF inv] by simp_all
  from invalidated_facts [OF t] t(2) show ?thesis
    by (simp add: currentPlaybackUnit_def acceptCompletedUnit_def)
qed

theorem invalidation_is_final_witness:
  "currentPlaybackUnit (run scheduler_step sample_client (snd (invalidate (run scheduler_step sample_client sample_scheduler)))) = None"
  using invalidation_is_final [OF sample_scheduler_created refl] by blast

text \<open>
  Rendered frames are accounted for exactly: a request for \<open>n\<close> frames, made while playing or paused,
  consumes the smaller of \<open>n\<close> and what is playable, leaves exactly the rest, and releases the units it
  finishes from the front of the queue in playing order.
\<close>

theorem rendered_frames_accounted:
  assumes "createScheduler clock ident m rate = Inr s"
    and t_def: "t = run scheduler_step ops s"
    and "playbackState t = Playing \<or> playbackState t = Paused" and "is_count n"
  shows "fst (accountRenderedSampleFrames (Integral n) t) = Inr (min n (playableSampleFrames t)) \<and>
    playableSampleFrames (snd (accountRenderedSampleFrames (Integral n) t)) =
      playableSampleFrames t - min n (playableSampleFrames t) \<and>
    (\<exists>k. released (snd (accountRenderedSampleFrames (Integral n) t)) = released t @ map unit (take k (audioUnits t)))"
proof -
  have wf: "scheduler_wf t"
    using scheduler_machine.run_inv createScheduler_Inr [OF assms(1)] by (simp add: t_def)
  obtain c u where c: "consume_loop n 0 t = (c, u)" by fastforce
  have "takes {#} t u" and k: "\<exists>k. released u = released t @ map unit (take k (audioUnits t))"
    using consume_loop_effect [OF wf _ c] assms(4) by (auto simp: is_count_def)
  then obtain v where "refreshPlaybackState u = (Inr (), v)" "released v = released u"
    using wf_refresh [of u] by (auto simp: takes_def quiet_def)
  with c k assms(3,4) have "\<exists>k. released (snd (accountRenderedSampleFrames (Integral n) t)) =
      released t @ map unit (take k (audioUnits t))"
    by (auto simp: accountRenderedSampleFrames_def andThen_apply)
  with step_account [OF wf, of "Integral n"] assms(3,4) show ?thesis by simp
qed

text \<open>
  C6. A replacement starts only when nothing of the old generation is left: every unit ever handed to
  the old scheduler has been released. And it can always be reached: once invalidated, releasing the
  discarded units and settling the service makes the replacement succeed.
\<close>

theorem replacement_after_full_release:
  assumes "createScheduler clock ident m rate = Inr s"
    and t_def: "t = run scheduler_step ops s"
  shows "(beginReplacement ident' m' t = (Inr fresh, t') \<longrightarrow> mset (released t) = sum_list (map offered ops)) \<and>
    (identity t = None \<and> sessionId ident' \<noteq> [] \<and> generationId ident' \<noteq> [] \<and> number_is_count (clockNowMs t) \<longrightarrow>
      (\<exists>fresh. fst (beginReplacement ident' None
        (run scheduler_step [ReleaseDiscarded (Integral 256), SettleServiceStop] t)) = Inr fresh))"
proof (intro conjI impI)
  have wf: "scheduler_wf t" and cust: "custody t = sum_list (map offered ops)"
    using scheduler_machine.run_inv createScheduler_Inr [OF assms(1)] run_custody [of s ops]
    by (simp_all add: t_def)
  show "mset (released t) = sum_list (map offered ops)" if "beginReplacement ident' m' t = (Inr fresh, t')"
  proof -
    have "completeAudioUnits (held t) = 0" using that by (auto simp: beginReplacement_def split: if_splits)
    moreover have "0 \<le> reserved_units t" by (simp add: reserved_units_def)
    moreover have "completeAudioUnits (held t) =
        int (length (audioUnits t)) + int (length (discardedAudioUnits t)) + reserved_units t"
      using scheduler_wfD(1) [OF wf] by (simp add: accounted_def)
    ultimately have "length (audioUnits t) = 0 \<and> length (discardedAudioUnits t) = 0" by linarith
    then have "audioUnits t = []" "discardedAudioUnits t = []" by simp_all
    with cust show ?thesis by (simp add: custody_def)
  qed
  assume a: "identity t = None \<and> sessionId ident' \<noteq> [] \<and> generationId ident' \<noteq> [] \<and> number_is_count (clockNowMs t)"
  show "\<exists>fresh. fst (beginReplacement ident' None
        (run scheduler_step [ReleaseDiscarded (Integral 256), SettleServiceStop] t)) = Inr fresh"
    using replacement_reachable [OF wf] a by simp
qed

theorem rendered_frames_accounted_witness:
  "fst (accountRenderedSampleFrames (Integral 5) (run scheduler_step (take 8 sample_client) sample_scheduler)) = Inr 1"
proof -
  have s: "playbackState (run scheduler_step (take 8 sample_client) sample_scheduler) = Playing"
    "playableSampleFrames (run scheduler_step (take 8 sample_client) sample_scheduler) = 1"
    unfolding sample_client_plays by (simp_all add: sample_playing_def playableSampleFrames_def)
  then have "fst (accountRenderedSampleFrames (Integral 5) (run scheduler_step (take 8 sample_client) sample_scheduler)) =
      Inr (min 5 1)"
    using rendered_frames_accounted [OF sample_scheduler_created refl, of "take 8 sample_client" 5]
    by (simp add: is_count_iff)
  then show ?thesis by simp
qed

theorem replacement_after_full_release_witness:
  "\<exists>fresh. fst (beginReplacement sample_ident None (run scheduler_step [ReleaseDiscarded (Integral 256), SettleServiceStop]
     (run scheduler_step [Invalidate] sample_scheduler))) = Inr fresh"
proof -
  have "identity (run scheduler_step [Invalidate] sample_scheduler) = None"
    "number_is_count (clockNowMs (run scheduler_step [Invalidate] sample_scheduler))"
    by (simp_all add: invalidate_def Let_def sample_scheduler_def is_count_iff)
  moreover have "sessionId sample_ident \<noteq> []" "generationId sample_ident \<noteq> []"
    by (simp_all add: sample_ident_def)
  ultimately show ?thesis
    using conjunct2 [OF replacement_after_full_release [OF sample_scheduler_created refl, of sample_ident None "[Invalidate]"]]
    by blast
qed

end
