(* ===== verification/Narration_Work.thy ===== *)
theory Narration_Work
  imports Ingestion_Policy Js_Value
begin

text \<open>
  packages/epub/src/narration: the frozen limits of narration preparation (narration-policy.ts,
  narration-piper-policy.ts, narration-chatterbox-policy.ts) and the accounting of work units,
  cancellation checkpoints and cooperative yields (narration-work-controller.ts) that every loop of
  the pipeline runs under. The abort signal is the stream of what the controller sees when it looks
  for the n-th time; \<open>schedulerRejects\<close> tells whether the n-th awaited yield rejects.
\<close>

section \<open>Policies\<close>

definition sourceCodePointsInspectedTarget :: int where "sourceCodePointsInspectedTarget = 8192"
definition sourceCodePointsInspectedHardMaximum :: int where "sourceCodePointsInspectedHardMaximum = 16384"
definition workUnitsBetweenCheckpointsTarget :: int where "workUnitsBetweenCheckpointsTarget = 512"
definition workUnitsBetweenCheckpointsHardMaximum :: int where "workUnitsBetweenCheckpointsHardMaximum = 1024"
definition workUnitsBetweenYieldsTarget :: int where "workUnitsBetweenYieldsTarget = 4096"
definition workUnitsBetweenYieldsHardMaximum :: int where "workUnitsBetweenYieldsHardMaximum = 8192"
definition protectedTokenCodePointsHardMaximum :: int where "protectedTokenCodePointsHardMaximum = 256"
definition normalizationExpansionCodePointsHardMaximum :: int where
  "normalizationExpansionCodePointsHardMaximum = 16"
definition retainedTokenEntriesHardMaximum :: int where "retainedTokenEntriesHardMaximum = 4096"
definition retainedEventEntriesHardMaximum :: int where "retainedEventEntriesHardMaximum = 4096"

definition retainedSegmentEntriesHardMaximum :: int where "retainedSegmentEntriesHardMaximum = 17"
definition retainedNarrationCodePointsHardMaximum :: int where "retainedNarrationCodePointsHardMaximum = 8832"
definition retainedNarrationUtf8BytesHardMaximum :: int where "retainedNarrationUtf8BytesHardMaximum = 26624"

lemmas narration_constants = sourceCodePointsInspectedTarget_def sourceCodePointsInspectedHardMaximum_def
  workUnitsBetweenCheckpointsTarget_def workUnitsBetweenCheckpointsHardMaximum_def
  workUnitsBetweenYieldsTarget_def workUnitsBetweenYieldsHardMaximum_def
  protectedTokenCodePointsHardMaximum_def normalizationExpansionCodePointsHardMaximum_def
  retainedTokenEntriesHardMaximum_def retainedEventEntriesHardMaximum_def
  retainedSegmentEntriesHardMaximum_def retainedNarrationCodePointsHardMaximum_def
  retainedNarrationUtf8BytesHardMaximum_def

record segment_policy =
  sourceCodePointsTarget :: int
  sourceCodePointsHardMaximum :: int
  narrationCodePointsTarget :: int
  narrationCodePointsHardMaximum :: int
  narrationUtf8BytesTarget :: int
  narrationUtf8BytesHardMaximum :: int
  sentencesTarget :: int
  sentencesHardMaximum :: int
  piperSpeechExpansionUnitsTarget :: "int option"
  piperSpeechExpansionUnitsHardMaximum :: "int option"

definition NARRATION_V1_SEGMENT_POLICY :: segment_policy where
  "NARRATION_V1_SEGMENT_POLICY =
     \<lparr>sourceCodePointsTarget = 384, sourceCodePointsHardMaximum = 768,
      narrationCodePointsTarget = 320, narrationCodePointsHardMaximum = 640,
      narrationUtf8BytesTarget = 1024, narrationUtf8BytesHardMaximum = 2048,
      sentencesTarget = 3, sentencesHardMaximum = 8,
      piperSpeechExpansionUnitsTarget = None, piperSpeechExpansionUnitsHardMaximum = None\<rparr>"

definition NARRATION_CHATTERBOX_V1_SEGMENT_POLICY :: segment_policy where
  "NARRATION_CHATTERBOX_V1_SEGMENT_POLICY =
     \<lparr>sourceCodePointsTarget = 240, sourceCodePointsHardMaximum = 320,
      narrationCodePointsTarget = 200, narrationCodePointsHardMaximum = 256,
      narrationUtf8BytesTarget = 800, narrationUtf8BytesHardMaximum = 1024,
      sentencesTarget = 2, sentencesHardMaximum = 6,
      piperSpeechExpansionUnitsTarget = None, piperSpeechExpansionUnitsHardMaximum = None\<rparr>"

definition NARRATION_PIPER_V1_SEGMENT_POLICY :: segment_policy where
  "NARRATION_PIPER_V1_SEGMENT_POLICY =
     \<lparr>sourceCodePointsTarget = 240, sourceCodePointsHardMaximum = 320,
      narrationCodePointsTarget = 200, narrationCodePointsHardMaximum = 256,
      narrationUtf8BytesTarget = 800, narrationUtf8BytesHardMaximum = 1024,
      sentencesTarget = 2, sentencesHardMaximum = 6,
      piperSpeechExpansionUnitsTarget = None, piperSpeechExpansionUnitsHardMaximum = None\<rparr>"

definition NARRATION_PIPER_V2_SEGMENT_POLICY :: segment_policy where
  "NARRATION_PIPER_V2_SEGMENT_POLICY = NARRATION_PIPER_V1_SEGMENT_POLICY
     \<lparr>piperSpeechExpansionUnitsTarget := Some 120, piperSpeechExpansionUnitsHardMaximum := Some 160\<rparr>"

text \<open>
  Segment policies are compared by object identity in the source: the frozen objects are distinct
  even where their contents agree, and any other object, whatever its contents, is foreign.
\<close>

datatype policy_object = PolicyV1 | PolicyChatterboxV1 | PolicyPiperV1 | PolicyPiperV2 | PolicyForeign segment_policy

fun policy_contents :: "policy_object \<Rightarrow> segment_policy" where
  "policy_contents PolicyV1 = NARRATION_V1_SEGMENT_POLICY"
| "policy_contents PolicyChatterboxV1 = NARRATION_CHATTERBOX_V1_SEGMENT_POLICY"
| "policy_contents PolicyPiperV1 = NARRATION_PIPER_V1_SEGMENT_POLICY"
| "policy_contents PolicyPiperV2 = NARRATION_PIPER_V2_SEGMENT_POLICY"
| "policy_contents (PolicyForeign p) = p"

datatype narration_profile = NarrationV1 | NarrationBilingualV2 | NarrationChatterboxV1 | NarrationPiperV1 | NarrationPiperV2

fun narrationSegmentPolicy :: "narration_profile \<Rightarrow> policy_object" where
  "narrationSegmentPolicy NarrationChatterboxV1 = PolicyChatterboxV1"
| "narrationSegmentPolicy NarrationPiperV1 = PolicyPiperV1"
| "narrationSegmentPolicy NarrationPiperV2 = PolicyPiperV2"
| "narrationSegmentPolicy NarrationV1 = PolicyV1"
| "narrationSegmentPolicy NarrationBilingualV2 = PolicyV1"

text \<open>The Unicode property escapes of the source's regular expressions: tables of the JavaScript engine.\<close>

record unicode_tables =
  is_mark :: "nat \<Rightarrow> bool"
  is_currency_symbol :: "nat \<Rightarrow> bool"
  is_uppercase_letter :: "nat \<Rightarrow> bool"

definition PIPER_TRIPLE_WEIGHT_SYMBOLS :: "nat list" where
  "PIPER_TRIPLE_WEIGHT_SYMBOLS = [0x25, 0x2030, 0xBA, 0xAA, 0xB0]"

definition piperSpeechExpansionCodePointUnits :: "unicode_tables \<Rightarrow> nat \<Rightarrow> int" where
  "piperSpeechExpansionCodePointUnits ut c =
     (if 0x30 \<le> c \<and> c \<le> 0x39 then 4
      else if c \<in> set PIPER_TRIPLE_WEIGHT_SYMBOLS \<or> is_currency_symbol ut c then 3
      else if is_uppercase_letter ut c then 2 else 1)"

section \<open>Failures\<close>

text \<open>An \<open>EpubArchiveError\<close>, or whatever a rejected yield throws.\<close>

datatype narration_failure = EpubFailure epub_error | ForeignFailure

definition addSafe :: "int \<Rightarrow> int \<Rightarrow> narration_failure + int" where
  "addSafe l r = (if safe_integer (l + r) then Inr (l + r) else Inl (EpubFailure InternalFailure))"

section \<open>The budget of a whole traversal\<close>

record operation_budget =
  operationMaximum :: int
  operationCharged :: int

definition createOperationBudget :: "js_number \<Rightarrow> narration_failure + operation_budget" where
  "createOperationBudget m = (if \<not> number_is_count m then Inl (EpubFailure InternalFailure)
     else Inr \<lparr>operationMaximum = integral_part m, operationCharged = 0\<rparr>)"

definition charge :: "js_number \<Rightarrow> (operation_budget, narration_failure, unit) prog" where
  "charge units =
     andThen (throwIf (\<not> number_is_count units) (EpubFailure InternalFailure)) (\<lambda>_.
     andThen (gets operationCharged) (\<lambda>c.
     andThen (lift (addSafe c (integral_part units))) (\<lambda>next.
     andThen (gets operationMaximum) (\<lambda>m.
     andThen (throwIf (m < next) (EpubFailure ResourceLimitExceeded)) (\<lambda>_.
     modify (\<lambda>b. b\<lparr>operationCharged := next\<rparr>))))))"

definition operation_wf :: "operation_budget \<Rightarrow> bool" where
  "operation_wf b \<longleftrightarrow> 0 \<le> operationCharged b \<and> operationCharged b \<le> operationMaximum b"

lemma charge_effect:
  "charge (Integral n) b = (Inr u, c) \<Longrightarrow>
     0 \<le> n \<and> operationCharged b + n \<le> operationMaximum b \<and> c = b\<lparr>operationCharged := operationCharged b + n\<rparr>"
  by (auto simp: charge_def andThen_apply lift_def addSafe_def is_count_def split: if_splits)

lemma charge_refused: "charge x b = (Inl e, c) \<Longrightarrow> c = b"
  by (auto simp: charge_def andThen_apply lift_def addSafe_def split: if_splits)

interpretation operation_ledger:
  ledger "\<lambda>n. charge (Integral n)" operationCharged operationMaximum operation_wf
  by unfold_locales (auto simp: operation_wf_def dest!: charge_effect charge_refused)

section \<open>The work controller\<close>

record work =
  operation :: "operation_budget option"
  signalAborted :: "nat \<Rightarrow> bool"
  signalLooks :: nat
  schedulerRejects :: "nat \<Rightarrow> bool"
  schedulerCalls :: nat
  checkpointCount :: int
  sinceCheckpoint :: int
  sinceYield :: int
  workUnitCount :: int
  yieldCount :: int

type_synonym 'a work_prog = "(work, narration_failure, 'a) prog"

definition assertActive :: "unit work_prog" where
  "assertActive w = (if signalAborted w (signalLooks w) then Inl (EpubFailure Cancelled) else Inr (),
     w\<lparr>signalLooks := Suc (signalLooks w)\<rparr>)"

definition createWorkController ::
    "operation_budget option \<Rightarrow> (nat \<Rightarrow> bool) \<Rightarrow> (nat \<Rightarrow> bool) \<Rightarrow> narration_failure + work" where
  "createWorkController op signal rejects =
     (case assertActive \<lparr>operation = op, signalAborted = signal, signalLooks = 0, schedulerRejects = rejects,
        schedulerCalls = 0, checkpointCount = 0, sinceCheckpoint = 0, sinceYield = 0, workUnitCount = 0, yieldCount = 0\<rparr> of
        (Inl e, _) \<Rightarrow> Inl e | (Inr _, w) \<Rightarrow> Inr w)"

definition awaitScheduler :: "unit work_prog" where
  "awaitScheduler w = (if schedulerRejects w (schedulerCalls w) then Inl ForeignFailure else Inr (),
     w\<lparr>schedulerCalls := Suc (schedulerCalls w)\<rparr>)"

definition chargeOperation :: "js_number \<Rightarrow> unit work_prog" where
  "chargeOperation units w = (case operation w of None \<Rightarrow> (Inr (), w)
     | Some b \<Rightarrow> (case charge units b of (r, c) \<Rightarrow> (r, w\<lparr>operation := Some c\<rparr>)))"

definition checkpointIfDue :: "unit work_prog" where
  "checkpointIfDue w =
     (if workUnitsBetweenCheckpointsTarget \<le> sinceCheckpoint w then
        andThen assertActive (\<lambda>_.
        andThen (gets checkpointCount) (\<lambda>c.
        andThen (lift (addSafe c 1)) (\<lambda>c'.
        modify (\<lambda>w. w\<lparr>checkpointCount := c', sinceCheckpoint := 0\<rparr>)))) w
      else (Inr (), w))"

definition yieldIfDue :: "unit work_prog" where
  "yieldIfDue w =
     (if workUnitsBetweenYieldsTarget \<le> sinceYield w then
        andThen assertActive (\<lambda>_.
        andThen awaitScheduler (\<lambda>_.
        andThen (gets yieldCount) (\<lambda>c.
        andThen (lift (addSafe c 1)) (\<lambda>c'.
        andThen (modify (\<lambda>w. w\<lparr>yieldCount := c', sinceYield := 0\<rparr>)) (\<lambda>_. assertActive))))) w
      else (Inr (), w))"

definition observeUnits :: "js_number \<Rightarrow> unit work_prog" where
  "observeUnits units =
     andThen (throwIf (\<not> number_is_count units \<or> integral_part units < 1 \<or>
         workUnitsBetweenCheckpointsTarget < integral_part units) (EpubFailure InternalFailure)) (\<lambda>_.
     andThen (chargeOperation units) (\<lambda>_.
     andThen (gets workUnitCount) (\<lambda>c.
     andThen (lift (addSafe c (integral_part units))) (\<lambda>c'.
     andThen (modify (\<lambda>w. w\<lparr>workUnitCount := c'\<rparr>)) (\<lambda>_.
     andThen (gets sinceCheckpoint) (\<lambda>k.
     andThen (lift (addSafe k (integral_part units))) (\<lambda>k'.
     andThen (modify (\<lambda>w. w\<lparr>sinceCheckpoint := k'\<rparr>)) (\<lambda>_.
     andThen (gets sinceYield) (\<lambda>y.
     andThen (lift (addSafe y (integral_part units))) (\<lambda>y'.
     andThen (modify (\<lambda>w. w\<lparr>sinceYield := y'\<rparr>)) (\<lambda>_.
     andThen checkpointIfDue (\<lambda>_.
     andThen yieldIfDue (\<lambda>_.
     andThen (gets id) (\<lambda>w.
     throwIf (workUnitsBetweenCheckpointsHardMaximum < sinceCheckpoint w \<or>
       workUnitsBetweenYieldsHardMaximum < sinceYield w) (EpubFailure InternalFailure)))))))))))))))"

text \<open>\<open>await work.observe()\<close> with its default of one unit.\<close>

definition observeWork :: "unit work_prog" where
  "observeWork = observeUnits (Integral 1)"

definition beforePublication :: "unit work_prog" where
  "beforePublication =
     andThen assertActive (\<lambda>_.
     andThen (gets checkpointCount) (\<lambda>c.
     andThen (lift (addSafe c 1)) (\<lambda>c'.
     modify (\<lambda>w. w\<lparr>checkpointCount := c', sinceCheckpoint := 0\<rparr>))))"

end
