(* ===== verification/Segment_Packer.thy ===== *)
theory Segment_Packer
  imports Narration_Work
begin

text \<open>
  packages/epub/src/narration/narration-segment-packer.ts: cutting one normalized and scanned block
  of a publication into narration segments. Every function of the source that receives the work
  controller and awaits \<open>work.observe()\<close> receives that call here, as the program \<open>ob\<close>; the entry point
  passes the controller's \<open>observeWork\<close>.
\<close>

section \<open>Input\<close>

record source_span =
  startOffsetCodePoints :: int
  endOffsetCodePoints :: int

datatype text_role =
    RoleAbbreviation | RoleCode | RoleCurrency | RoleDate | RoleDialogueDash | RoleEllipsis
  | RoleLineEndHyphen | RoleNumber | RolePreserved | RolePercentage | RolePunctuation | RoleQuotation
  | RoleSemanticLineBreak | RoleSymbol | RoleTime | RoleWhitespace

datatype omission_reason =
    CollapsedWhitespace | FormattingMark | OmittedLineEndHyphen | LexicalExpansion | RasterPlaceholder
  | OmittedSemanticLineBreak | SoftHyphen | SymbolExpansion

datatype normalized_unit =
    TextUnit js_string text_role source_span
  | OmissionUnit omission_reason source_span

fun unit_span :: "normalized_unit \<Rightarrow> source_span" where
  "unit_span (TextUnit _ _ sp) = sp"
| "unit_span (OmissionUnit _ sp) = sp"

datatype block_kind = HeadingBlock | ParagraphBlock

datatype scanned_boundary_kind = ClauseBoundary | DialogueTurnBoundary | SentenceBoundary

record scanned_boundary =
  boundaryKind :: scanned_boundary_kind
  unitIndexExclusive :: int
  boundarySourceOffset :: int

record protected_token =
  tokenStart :: int
  tokenEnd :: int
  tokenSpan :: source_span
  tokenNarrationCodePoints :: int

record block_metadata =
  blockKind :: block_kind
  blockSourceCodePoints :: int
  sourceStartOffset :: int
  sourceEndOffset :: int
  blockWindowCodePoints :: int
  quoteDepth :: int
  listPathLength :: nat

record boundary_scan =
  scanBlock :: block_metadata
  scanUnits :: "normalized_unit list"
  scanText :: js_string
  scanBoundaries :: "scanned_boundary list"
  scanProtectedTokens :: "protected_token list"

section \<open>Output\<close>

datatype packing_boundary_reason =
  PackClause | PackDialogueTurn | PackHardLimit | PackHeading | PackParagraph | PackSentence | PackToken

datatype packed_disposition = SceneBreakBlock | SpokenBlock | UnspokenBlock

record segment_measurements =
  sourceCodePoints :: int
  narrationCodePoints :: int
  narrationUtf8Bytes :: int
  piperSpeechExpansionUnits :: int
  sentenceCount :: int

record segment_report =
  reportSourceCodePoints :: int
  reportNarrationCodePoints :: int
  reportNarrationUtf8Bytes :: int
  reportSentenceCount :: int

record packed_segment =
  packedText :: js_string
  packedSpan :: source_span
  packedReason :: packing_boundary_reason
  packedReport :: segment_report

record packed_block =
  packedBlock :: block_metadata
  packedComplete :: bool
  packedDisposition :: packed_disposition
  packedSegments :: "packed_segment list"
  sourceCodePointsConsumed :: int
  packedNarrationCodePoints :: int
  packedNarrationUtf8Bytes :: int
  packedSentenceCount :: int
  packedSegmentCount :: int
  packedWorkUnitCount :: int
  packedCheckpointCount :: int
  packedYieldCount :: int

record packing_options =
  maximumSegmentsOption :: "js_number option"
  retainedCodePointsOption :: "js_number option"
  retainedUtf8BytesOption :: "js_number option"
  segmentPolicyOption :: "policy_object option"

record packing_limits =
  maximumSegments :: int
  retainedNarrationCodePointsMaximum :: int
  retainedNarrationUtf8BytesMaximum :: int
  segmentPolicy :: segment_policy

section \<open>Shared steps\<close>

abbreviation internal :: narration_failure where
  "internal \<equiv> EpubFailure InternalFailure"

abbreviation resourceLimitExceeded :: narration_failure where
  "resourceLimitExceeded \<equiv> EpubFailure ResourceLimitExceeded"

type_synonym 'a fallible = "narration_failure + 'a"

definition bindF :: "'a fallible \<Rightarrow> ('a \<Rightarrow> 'b fallible) \<Rightarrow> 'b fallible" where
  "bindF m f = (case m of Inl e \<Rightarrow> Inl e | Inr x \<Rightarrow> f x)"

text \<open>\<open>xs[i] ?? fail()\<close>\<close>

definition entryOrFail :: "'a list \<Rightarrow> nat \<Rightarrow> 'a fallible" where
  "entryOrFail xs i = (if i < length xs then Inr (xs ! i) else Inl internal)"

definition resolvePackingLimits :: "packing_options \<Rightarrow> packing_limits fallible" where
  "resolvePackingLimits opts =
     (let segs = (case maximumSegmentsOption opts of None \<Rightarrow> Integral retainedSegmentEntriesHardMaximum | Some x \<Rightarrow> x);
        cps = (case retainedCodePointsOption opts of None \<Rightarrow> Integral retainedNarrationCodePointsHardMaximum | Some x \<Rightarrow> x);
        bytes = (case retainedUtf8BytesOption opts of None \<Rightarrow> Integral retainedNarrationUtf8BytesHardMaximum | Some x \<Rightarrow> x);
        pol = (case segmentPolicyOption opts of None \<Rightarrow> PolicyV1 | Some p \<Rightarrow> p) in
      if \<not> number_is_count segs \<or> integral_part segs \<le> 0 \<or> retainedSegmentEntriesHardMaximum < integral_part segs \<or>
         \<not> number_is_count cps \<or>
         integral_part cps < narrationCodePointsHardMaximum NARRATION_V1_SEGMENT_POLICY \<or>
         retainedNarrationCodePointsHardMaximum < integral_part cps \<or>
         \<not> number_is_count bytes \<or>
         integral_part bytes < narrationUtf8BytesHardMaximum NARRATION_V1_SEGMENT_POLICY \<or>
         retainedNarrationUtf8BytesHardMaximum < integral_part bytes \<or>
         (pol \<noteq> PolicyV1 \<and> pol \<noteq> PolicyChatterboxV1 \<and> pol \<noteq> PolicyPiperV1 \<and> pol \<noteq> PolicyPiperV2)
      then Inl internal
      else Inr \<lparr>maximumSegments = integral_part segs,
        retainedNarrationCodePointsMaximum = integral_part cps,
        retainedNarrationUtf8BytesMaximum = integral_part bytes,
        segmentPolicy = policy_contents pol\<rparr>)"

definition measureText ::
    "('s, narration_failure, unit) prog \<Rightarrow> unicode_tables \<Rightarrow> js_string \<Rightarrow> ('s, narration_failure, int \<times> int) prog" where
  "measureText ob ut text =
     foldEach (\<lambda>c (codePoints, units).
       andThen (lift (addSafe codePoints 1)) (\<lambda>codePoints.
       andThen (lift (addSafe units (piperSpeechExpansionCodePointUnits ut c))) (\<lambda>units.
       andThen ob (\<lambda>_.
       andThen (throwIf (normalizationExpansionCodePointsHardMaximum < codePoints) internal) (\<lambda>_.
       ok (codePoints, units)))))) (code_points text) (0, 0)"

definition utf8ByteLength :: "js_string \<Rightarrow> int" where
  "utf8ByteLength text = int (sum_list (map utf8_length (code_points text)))"

definition sourceOffsetAt :: "normalized_unit list \<Rightarrow> nat \<Rightarrow> int fallible" where
  "sourceOffsetAt units i =
     (if length units < i then Inl internal
      else if units = [] then Inr 0
      else if i = 0 then Inr (startOffsetCodePoints (unit_span (hd units)))
      else Inr (endOffsetCodePoints (unit_span (units ! (i - 1)))))"

definition copySourceSpan :: "int \<Rightarrow> int \<Rightarrow> source_span fallible" where
  "copySourceSpan s e =
     (if \<not> safe_integer s \<or> \<not> safe_integer e \<or> s < 0 \<or> e \<le> s then Inl internal
      else Inr \<lparr>startOffsetCodePoints = s, endOffsetCodePoints = e\<rparr>)"

fun isSubstantive :: "normalized_unit \<Rightarrow> bool" where
  "isSubstantive (TextUnit _ r _) \<longleftrightarrow> r \<noteq> RoleSemanticLineBreak \<and> r \<noteq> RoleWhitespace"
| "isSubstantive (OmissionUnit _ _) \<longleftrightarrow> False"

section \<open>Prefix sums\<close>

record prefix_measurements =
  prefixNarrationCodePoints :: "int list"
  prefixNarrationUtf8Bytes :: "int list"
  prefixPiperUnits :: "int list"
  prefixSentenceCount :: "int list"
  prefixSubstantive :: "int list"

record validated_measurements =
  unitNarrationCodePoints :: "int list"
  unitNarrationUtf8Bytes :: "int list"
  unitPiperUnits :: "int list"

text \<open>\<open>values.push(addSafe(values[values.length - 1] ?? fail(), x))\<close>\<close>

definition pushSum :: "int list \<Rightarrow> int \<Rightarrow> int list fallible" where
  "pushSum values x = bindF (entryOrFail values (length values - 1)) (\<lambda>l. bindF (addSafe l x) (\<lambda>y. Inr (values @ [y])))"

definition countSentences ::
    "('s, narration_failure, unit) prog \<Rightarrow> boundary_scan \<Rightarrow> ('s, narration_failure, int list) prog" where
  "countSentences ob scan =
     foldEach (\<lambda>b counts. andThen ob (\<lambda>_.
       if boundaryKind b = SentenceBoundary then
         (if unitIndexExclusive b < 0 then raise internal
          else lift (bindF (entryOrFail counts (nat (unitIndexExclusive b))) (\<lambda>current.
            bindF (addSafe current 1) (\<lambda>n. Inr (counts[nat (unitIndexExclusive b) := n])))))
       else ok counts)) (scanBoundaries scan) (replicate (length (scanUnits scan) + 1) 0)"

definition extendPrefix ::
    "boundary_scan \<Rightarrow> validated_measurements \<Rightarrow> int list \<Rightarrow> nat \<Rightarrow> prefix_measurements \<Rightarrow> prefix_measurements fallible" where
  "extendPrefix scan v counts i p =
     bindF (entryOrFail (scanUnits scan) i) (\<lambda>unit.
     bindF (bindF (entryOrFail (unitNarrationCodePoints v) i) (pushSum (prefixNarrationCodePoints p))) (\<lambda>cps.
     bindF (bindF (entryOrFail (unitNarrationUtf8Bytes v) i) (pushSum (prefixNarrationUtf8Bytes p))) (\<lambda>bytes.
     bindF (bindF (entryOrFail (unitPiperUnits v) i) (pushSum (prefixPiperUnits p))) (\<lambda>piper.
     bindF (bindF (entryOrFail counts (length (prefixNarrationCodePoints p))) (pushSum (prefixSentenceCount p))) (\<lambda>sentences.
     bindF (pushSum (prefixSubstantive p) (if isSubstantive unit then 1 else 0)) (\<lambda>subst.
     Inr \<lparr>prefixNarrationCodePoints = cps, prefixNarrationUtf8Bytes = bytes, prefixPiperUnits = piper,
       prefixSentenceCount = sentences, prefixSubstantive = subst\<rparr>))))))"

definition prefixMeasurements ::
    "('s, narration_failure, unit) prog \<Rightarrow> boundary_scan \<Rightarrow> validated_measurements \<Rightarrow>
     ('s, narration_failure, prefix_measurements) prog" where
  "prefixMeasurements ob scan v =
     andThen (countSentences ob scan) (\<lambda>counts.
     foldEach (\<lambda>i p. andThen ob (\<lambda>_. lift (extendPrefix scan v counts i p))) [0..<length (scanUnits scan)]
       \<lparr>prefixNarrationCodePoints = [0], prefixNarrationUtf8Bytes = [0], prefixPiperUnits = [0],
        prefixSentenceCount = [0], prefixSubstantive = [0]\<rparr>)"

definition difference :: "int list \<Rightarrow> nat \<Rightarrow> nat \<Rightarrow> int fallible" where
  "difference values s e = bindF (entryOrFail values s) (\<lambda>a. bindF (entryOrFail values e) (\<lambda>b.
     if safe_integer (b - a) \<and> 0 \<le> b - a then Inr (b - a) else Inl internal))"

definition measurementsBetween ::
    "boundary_scan \<Rightarrow> prefix_measurements \<Rightarrow> nat \<Rightarrow> nat \<Rightarrow> segment_measurements fallible" where
  "measurementsBetween scan p s e =
     bindF (sourceOffsetAt (scanUnits scan) e) (\<lambda>endOffset.
     bindF (sourceOffsetAt (scanUnits scan) s) (\<lambda>startOffset.
     bindF (difference (prefixNarrationCodePoints p) s e) (\<lambda>cps.
     bindF (difference (prefixNarrationUtf8Bytes p) s e) (\<lambda>bytes.
     bindF (difference (prefixPiperUnits p) s e) (\<lambda>piper.
     bindF (difference (prefixSentenceCount p) s e) (\<lambda>sentences.
     Inr \<lparr>sourceCodePoints = endOffset - startOffset, narrationCodePoints = cps, narrationUtf8Bytes = bytes,
       piperSpeechExpansionUnits = piper, sentenceCount = sentences\<rparr>))))))"

definition withinTarget :: "segment_measurements \<Rightarrow> segment_policy \<Rightarrow> bool" where
  "withinTarget m p \<longleftrightarrow> sourceCodePoints m \<le> sourceCodePointsTarget p \<and>
     narrationCodePoints m \<le> narrationCodePointsTarget p \<and>
     narrationUtf8Bytes m \<le> narrationUtf8BytesTarget p \<and>
     (case piperSpeechExpansionUnitsTarget p of None \<Rightarrow> True | Some t \<Rightarrow> piperSpeechExpansionUnits m \<le> t) \<and>
     sentenceCount m \<le> sentencesTarget p"

definition withinHardMaximum :: "segment_measurements \<Rightarrow> segment_policy \<Rightarrow> bool" where
  "withinHardMaximum m p \<longleftrightarrow> sourceCodePoints m \<le> sourceCodePointsHardMaximum p \<and>
     narrationCodePoints m \<le> narrationCodePointsHardMaximum p \<and>
     narrationUtf8Bytes m \<le> narrationUtf8BytesHardMaximum p \<and>
     (case piperSpeechExpansionUnitsHardMaximum p of None \<Rightarrow> True | Some t \<Rightarrow> piperSpeechExpansionUnits m \<le> t) \<and>
     sentenceCount m \<le> sentencesHardMaximum p"

section \<open>The packing context\<close>

record packing_context =
  contextPrefix :: prefix_measurements
  recordedBoundaryKinds :: "scanned_boundary_kind option list"
  safeBoundaries :: "bool list"

text \<open>\<open>xs[i]\<close> where an index past the end reads \<open>undefined\<close>\<close>

definition entryAt :: "'a list \<Rightarrow> nat \<Rightarrow> 'a option" where
  "entryAt xs i = (if i < length xs then Some (xs ! i) else None)"

definition startsWithCombiningMark :: "unicode_tables \<Rightarrow> normalized_unit option \<Rightarrow> bool" where
  "startsWithCombiningMark ut u = (case u of
       Some (TextUnit text _ _) \<Rightarrow> (case code_points text of [] \<Rightarrow> False | c # _ \<Rightarrow> is_mark ut c)
     | _ \<Rightarrow> False)"

fun boundaryReason :: "scanned_boundary_kind \<Rightarrow> packing_boundary_reason" where
  "boundaryReason ClauseBoundary = PackClause"
| "boundaryReason DialogueTurnBoundary = PackDialogueTurn"
| "boundaryReason SentenceBoundary = PackSentence"

definition recordBoundary ::
    "boundary_scan \<Rightarrow> scanned_boundary \<Rightarrow> scanned_boundary_kind option list \<times> int \<Rightarrow>
     (scanned_boundary_kind option list \<times> int) fallible" where
  "recordBoundary scan b = (\<lambda>(kinds, previous).
     let position = unitIndexExclusive b in
     if position < 0 \<or> int (length (scanUnits scan)) < position \<or> position \<le> previous then Inl internal
     else bindF (sourceOffsetAt (scanUnits scan) (nat position)) (\<lambda>offset.
       if boundarySourceOffset b \<noteq> offset \<or> kinds ! nat position \<noteq> None then Inl internal
       else Inr (kinds[nat position := Some (boundaryKind b)], position)))"

definition recordBoundaries ::
    "('s, narration_failure, unit) prog \<Rightarrow> boundary_scan \<Rightarrow> ('s, narration_failure, scanned_boundary_kind option list) prog" where
  "recordBoundaries ob scan =
     andThen (foldEach (\<lambda>b acc. andThen ob (\<lambda>_. lift (recordBoundary scan b acc))) (scanBoundaries scan)
       (replicate (length (scanUnits scan) + 1) None, -1)) (\<lambda>(kinds, _). ok kinds)"

definition acceptToken :: "boundary_scan \<Rightarrow> protected_token \<Rightarrow> int \<Rightarrow> unit fallible" where
  "acceptToken scan t previousEnd =
     (if tokenStart t < previousEnd \<or> tokenStart t < 0 \<or> tokenEnd t \<le> tokenStart t \<or>
         int (length (scanUnits scan)) < tokenEnd t then Inl internal
      else bindF (sourceOffsetAt (scanUnits scan) (nat (tokenStart t))) (\<lambda>s.
        if startOffsetCodePoints (tokenSpan t) \<noteq> s then Inl internal
        else bindF (sourceOffsetAt (scanUnits scan) (nat (tokenEnd t))) (\<lambda>e.
          if endOffsetCodePoints (tokenSpan t) \<noteq> e \<or> tokenNarrationCodePoints t \<le> 0 \<or>
             protectedTokenCodePointsHardMaximum < tokenNarrationCodePoints t then Inl internal
          else Inr ())))"

definition protectInteriors ::
    "('s, narration_failure, unit) prog \<Rightarrow> boundary_scan \<Rightarrow> ('s, narration_failure, bool list) prog" where
  "protectInteriors ob scan =
     andThen (foldEach (\<lambda>t (interiors, previousEnd).
         andThen ob (\<lambda>_.
         andThen (lift (acceptToken scan t previousEnd)) (\<lambda>_.
         andThen (foldEach (\<lambda>position xs. andThen ob (\<lambda>_. ok (xs[position := True])))
           [nat (tokenStart t) + 1..<nat (tokenEnd t)] interiors) (\<lambda>interiors'.
         ok (interiors', tokenEnd t))))) (scanProtectedTokens scan)
       (replicate (length (scanUnits scan) + 1) False, 0)) (\<lambda>(interiors, _). ok interiors)"

definition safeBoundary :: "unicode_tables \<Rightarrow> boundary_scan \<Rightarrow> bool list \<Rightarrow> nat \<Rightarrow> bool" where
  "safeBoundary ut scan interiors position \<longleftrightarrow> 0 < position \<and> \<not> interiors ! position \<and>
     \<not> startsWithCombiningMark ut (entryAt (scanUnits scan) position)"

definition packingContext ::
    "('s, narration_failure, unit) prog \<Rightarrow> unicode_tables \<Rightarrow> boundary_scan \<Rightarrow> validated_measurements \<Rightarrow>
     ('s, narration_failure, packing_context) prog" where
  "packingContext ob ut scan v =
     andThen (recordBoundaries ob scan) (\<lambda>kinds.
     andThen (protectInteriors ob scan) (\<lambda>interiors.
     andThen (foldEach (\<lambda>position xs. andThen ob (\<lambda>_. ok (xs @ [safeBoundary ut scan interiors position])))
       [0..<length (scanUnits scan) + 1] []) (\<lambda>safe.
     andThen (prefixMeasurements ob scan v) (\<lambda>prefix.
     ok \<lparr>contextPrefix = prefix, recordedBoundaryKinds = kinds, safeBoundaries = safe\<rparr>))))"

section \<open>Choosing where the next segment ends\<close>

record candidate_boundary =
  candidateIndex :: nat
  candidateReason :: packing_boundary_reason

record candidates =
  targetSentence :: "candidate_boundary option"
  firstHardSentence :: "candidate_boundary option"
  targetClause :: "candidate_boundary option"
  firstHardClause :: "candidate_boundary option"
  targetWhitespace :: "candidate_boundary option"
  firstHardWhitespace :: "candidate_boundary option"
  targetToken :: "candidate_boundary option"
  firstHardToken :: "candidate_boundary option"
  latestHard :: "candidate_boundary option"

definition no_candidates :: candidates where
  "no_candidates = \<lparr>targetSentence = None, firstHardSentence = None, targetClause = None, firstHardClause = None,
     targetWhitespace = None, firstHardWhitespace = None, targetToken = None, firstHardToken = None, latestHard = None\<rparr>"

definition preferLatestTarget ::
    "candidate_boundary option \<Rightarrow> candidate_boundary \<Rightarrow> segment_measurements \<Rightarrow> segment_policy \<Rightarrow> candidate_boundary option" where
  "preferLatestTarget current c m p = (if withinTarget m p then Some c else current)"

definition preferFirstHard :: "candidate_boundary option \<Rightarrow> candidate_boundary \<Rightarrow> candidate_boundary option" where
  "preferFirstHard current c = (case current of Some b \<Rightarrow> Some b | None \<Rightarrow> Some c)"

definition endReason :: "boundary_scan \<Rightarrow> packing_boundary_reason" where
  "endReason scan = (if blockKind (scanBlock scan) = HeadingBlock then PackHeading else PackParagraph)"

text \<open>The branch on the boundary the scanner recorded, and the one on the unit before the position.\<close>

definition considerRecorded ::
    "scanned_boundary_kind option \<Rightarrow> nat \<Rightarrow> segment_measurements \<Rightarrow> segment_policy \<Rightarrow> candidates \<Rightarrow> candidates" where
  "considerRecorded kind position m p cs = (case kind of
       Some SentenceBoundary \<Rightarrow> (let c = \<lparr>candidateIndex = position, candidateReason = PackSentence\<rparr> in
         cs\<lparr>targetSentence := preferLatestTarget (targetSentence cs) c m p,
            firstHardSentence := preferFirstHard (firstHardSentence cs) c\<rparr>)
     | Some ClauseBoundary \<Rightarrow> (let c = \<lparr>candidateIndex = position, candidateReason = PackClause\<rparr> in
         cs\<lparr>targetClause := preferLatestTarget (targetClause cs) c m p,
            firstHardClause := preferFirstHard (firstHardClause cs) c\<rparr>)
     | _ \<Rightarrow> cs)"

definition considerPrevious ::
    "normalized_unit option \<Rightarrow> nat \<Rightarrow> segment_measurements \<Rightarrow> segment_policy \<Rightarrow> candidates \<Rightarrow> candidates" where
  "considerPrevious previous position m p cs =
     (let c = \<lparr>candidateIndex = position, candidateReason = PackToken\<rparr> in
      case previous of
        Some (TextUnit _ role _) \<Rightarrow>
          (if role = RoleWhitespace then
             cs\<lparr>targetWhitespace := preferLatestTarget (targetWhitespace cs) c m p,
                firstHardWhitespace := preferFirstHard (firstHardWhitespace cs) c\<rparr>
           else if role = RolePunctuation \<or> role = RoleQuotation \<or> role = RoleSymbol then
             cs\<lparr>targetToken := preferLatestTarget (targetToken cs) c m p,
                firstHardToken := preferFirstHard (firstHardToken cs) c\<rparr>
           else cs)
      | _ \<Rightarrow> cs)"

datatype scan_step = ScanReturn candidate_boundary | ScanBreak | ScanContinue candidates

definition considerPosition ::
    "boundary_scan \<Rightarrow> packing_context \<Rightarrow> nat \<Rightarrow> segment_policy \<Rightarrow> nat \<Rightarrow> candidates \<Rightarrow> scan_step fallible" where
  "considerPosition scan ctx start p position cs =
     bindF (measurementsBetween scan (contextPrefix ctx) start position) (\<lambda>m.
     if \<not> withinHardMaximum m p then Inr ScanBreak
     else bindF (difference (prefixSubstantive (contextPrefix ctx)) start position) (\<lambda>substantive.
       if substantive = 0 \<or> entryAt (safeBoundaries ctx) position \<noteq> Some True then Inr (ScanContinue cs)
       else
         (let cs = cs\<lparr>latestHard := Some \<lparr>candidateIndex = position, candidateReason = PackHardLimit\<rparr>\<rparr>;
              kind = (case entryAt (recordedBoundaryKinds ctx) position of None \<Rightarrow> None | Some k \<Rightarrow> k) in
          if position = length (scanUnits scan) \<and> withinTarget m p then
            Inr (ScanReturn \<lparr>candidateIndex = length (scanUnits scan), candidateReason = endReason scan\<rparr>)
          else if kind = Some DialogueTurnBoundary then
            Inr (ScanReturn \<lparr>candidateIndex = position, candidateReason = PackDialogueTurn\<rparr>)
          else Inr (ScanContinue (considerPrevious (entryAt (scanUnits scan) (position - 1)) position m p
            (considerRecorded kind position m p cs))))))"

text \<open>The loop over positions: \<open>Inl\<close> is an early return, \<open>Inr\<close> the candidates when the loop ends.\<close>

fun scanPositions ::
    "('s, narration_failure, unit) prog \<Rightarrow> boundary_scan \<Rightarrow> packing_context \<Rightarrow> nat \<Rightarrow> segment_policy \<Rightarrow>
     nat list \<Rightarrow> candidates \<Rightarrow> ('s, narration_failure, candidate_boundary + candidates) prog" where
  "scanPositions ob scan ctx start p [] cs = ok (Inr cs)"
| "scanPositions ob scan ctx start p (position # positions) cs =
     andThen ob (\<lambda>_.
     andThen (lift (considerPosition scan ctx start p position cs)) (\<lambda>step.
     case step of ScanReturn c \<Rightarrow> ok (Inl c)
     | ScanBreak \<Rightarrow> ok (Inr cs)
     | ScanContinue cs' \<Rightarrow> scanPositions ob scan ctx start p positions cs'))"

definition orElse :: "'a option \<Rightarrow> 'a option \<Rightarrow> 'a option" where
  "orElse a b = (case a of Some x \<Rightarrow> Some x | None \<Rightarrow> b)"

definition bestCandidate :: "candidates \<Rightarrow> candidate_boundary option" where
  "bestCandidate cs =
     orElse (targetSentence cs) (orElse (firstHardSentence cs)
     (orElse (targetClause cs) (orElse (firstHardClause cs)
     (orElse (targetWhitespace cs) (orElse (firstHardWhitespace cs)
     (orElse (targetToken cs) (orElse (firstHardToken cs) (latestHard cs))))))))"

text \<open>The condition of the loop that takes trailing whitespace and omissions into the segment.\<close>

definition extendsOver ::
    "boundary_scan \<Rightarrow> packing_context \<Rightarrow> nat \<Rightarrow> segment_policy \<Rightarrow> nat \<Rightarrow> bool fallible" where
  "extendsOver scan ctx start p position =
     (case entryAt (scanUnits scan) position of
        None \<Rightarrow> Inr False
      | Some next \<Rightarrow>
          if isSubstantive next \<or> entryAt (safeBoundaries ctx) (position + 1) \<noteq> Some True then Inr False
          else bindF (measurementsBetween scan (contextPrefix ctx) start (position + 1)) (\<lambda>m.
            Inr (withinHardMaximum m p)))"

fun extendCandidate ::
    "('s, narration_failure, unit) prog \<Rightarrow> boundary_scan \<Rightarrow> packing_context \<Rightarrow> nat \<Rightarrow> segment_policy \<Rightarrow>
     nat list \<Rightarrow> nat \<Rightarrow> ('s, narration_failure, nat) prog" where
  "extendCandidate ob scan ctx start p [] end' = ok end'"
| "extendCandidate ob scan ctx start p (position # positions) end' =
     andThen ob (\<lambda>_.
     andThen (lift (extendsOver scan ctx start p position)) (\<lambda>extends.
     if extends then extendCandidate ob scan ctx start p positions (position + 1) else ok end'))"

definition selectCandidate ::
    "('s, narration_failure, unit) prog \<Rightarrow> boundary_scan \<Rightarrow> packing_context \<Rightarrow> nat \<Rightarrow> segment_policy \<Rightarrow>
     ('s, narration_failure, candidate_boundary) prog" where
  "selectCandidate ob scan ctx start p =
     (let blockEnd = length (scanUnits scan) in
      andThen (scanPositions ob scan ctx start p [start + 1..<blockEnd + 1] no_candidates) (\<lambda>found.
      case found of Inl c \<Rightarrow> ok c
      | Inr cs \<Rightarrow>
          (case bestCandidate cs of None \<Rightarrow> raise resourceLimitExceeded
           | Some c \<Rightarrow>
               andThen (extendCandidate ob scan ctx start p [candidateIndex c..<blockEnd] (candidateIndex c)) (\<lambda>extended.
               ok (if extended = blockEnd then \<lparr>candidateIndex = blockEnd, candidateReason = endReason scan\<rparr>
                   else c\<lparr>candidateIndex := extended\<rparr>)))))"

section \<open>Validating the scan\<close>

record scan_progress =
  expectedSourceOffset :: int
  retainedCodePoints :: int
  retainedUtf8Bytes :: int
  textParts :: "js_string list"
  measuredUnits :: validated_measurements

definition pushUnit :: "int \<Rightarrow> int \<Rightarrow> int \<Rightarrow> validated_measurements \<Rightarrow> validated_measurements" where
  "pushUnit cps bytes piper v =
     \<lparr>unitNarrationCodePoints = unitNarrationCodePoints v @ [cps],
      unitNarrationUtf8Bytes = unitNarrationUtf8Bytes v @ [bytes],
      unitPiperUnits = unitPiperUnits v @ [piper]\<rparr>"

definition retainText ::
    "js_string \<Rightarrow> int \<times> int \<Rightarrow> scan_progress \<Rightarrow> scan_progress fallible" where
  "retainText text measured g =
     bindF (addSafe (retainedCodePoints g) (fst measured)) (\<lambda>cps.
     bindF (addSafe (retainedUtf8Bytes g) (utf8ByteLength text)) (\<lambda>bytes.
     if retainedNarrationCodePointsHardMaximum < cps \<or> retainedNarrationUtf8BytesHardMaximum < bytes
     then Inl resourceLimitExceeded
     else Inr (g\<lparr>retainedCodePoints := cps, retainedUtf8Bytes := bytes, textParts := textParts g @ [text],
       measuredUnits := pushUnit (fst measured) (utf8ByteLength text) (snd measured) (measuredUnits g)\<rparr>)))"

definition validateUnit ::
    "('s, narration_failure, unit) prog \<Rightarrow> unicode_tables \<Rightarrow> normalized_unit \<Rightarrow> scan_progress \<Rightarrow>
     ('s, narration_failure, scan_progress) prog" where
  "validateUnit ob ut u g =
     andThen ob (\<lambda>_.
     andThen (throwIf (startOffsetCodePoints (unit_span u) \<noteq> expectedSourceOffset g \<or>
         endOffsetCodePoints (unit_span u) \<noteq> expectedSourceOffset g + 1) internal) (\<lambda>_.
     let g = g\<lparr>expectedSourceOffset := endOffsetCodePoints (unit_span u)\<rparr> in
     case u of
       TextUnit text _ _ \<Rightarrow> andThen (measureText ob ut text) (\<lambda>measured. lift (retainText text measured g))
     | OmissionUnit _ _ \<Rightarrow> ok (g\<lparr>measuredUnits := pushUnit 0 0 0 (measuredUnits g)\<rparr>)))"

definition malformedBlock :: "block_metadata \<Rightarrow> bool" where
  "malformedBlock b \<longleftrightarrow>
     \<not> safe_integer (blockSourceCodePoints b) \<or> \<not> safe_integer (sourceStartOffset b) \<or>
     \<not> safe_integer (sourceEndOffset b) \<or> \<not> safe_integer (blockWindowCodePoints b) \<or>
     sourceStartOffset b < 0 \<or> sourceEndOffset b < sourceStartOffset b \<or>
     blockSourceCodePoints b < sourceEndOffset b \<or>
     blockWindowCodePoints b \<noteq> sourceEndOffset b - sourceStartOffset b"

definition validateScan ::
    "('s, narration_failure, unit) prog \<Rightarrow> unicode_tables \<Rightarrow> boundary_scan \<Rightarrow> ('s, narration_failure, validated_measurements) prog" where
  "validateScan ob ut scan =
     andThen (throwIf (malformedBlock (scanBlock scan)) internal) (\<lambda>_.
     andThen (throwIf (retainedTokenEntriesHardMaximum < int (length (scanUnits scan)) \<or>
         retainedEventEntriesHardMaximum < int (length (scanBoundaries scan)) \<or>
         retainedEventEntriesHardMaximum < int (length (scanProtectedTokens scan))) resourceLimitExceeded) (\<lambda>_.
     andThen (foldEach (validateUnit ob ut) (scanUnits scan)
       \<lparr>expectedSourceOffset = sourceStartOffset (scanBlock scan), retainedCodePoints = 0, retainedUtf8Bytes = 0,
        textParts = [], measuredUnits = \<lparr>unitNarrationCodePoints = [], unitNarrationUtf8Bytes = [], unitPiperUnits = []\<rparr>\<rparr>) (\<lambda>g.
     andThen (throwIf (expectedSourceOffset g \<noteq> sourceEndOffset (scanBlock scan) \<or>
         concat (textParts g) \<noteq> scanText scan) internal) (\<lambda>_.
     ok (measuredUnits g)))))"

section \<open>Scene breaks\<close>

definition SCENE_BREAK_ASTERISKS :: js_string where "SCENE_BREAK_ASTERISKS = [0x2A, 0x2A, 0x2A]"
definition SCENE_BREAK_ASTERISM :: js_string where "SCENE_BREAK_ASTERISM = [0x2042]"

fun sceneBreakUnits ::
    "('s, narration_failure, unit) prog \<Rightarrow> unicode_tables \<Rightarrow> normalized_unit list \<Rightarrow> js_string list \<Rightarrow> int \<Rightarrow>
     ('s, narration_failure, bool) prog" where
  "sceneBreakUnits ob ut [] parts n =
     ok (concat parts = SCENE_BREAK_ASTERISKS \<or> concat parts = SCENE_BREAK_ASTERISM)"
| "sceneBreakUnits ob ut (u # us) parts n =
     andThen ob (\<lambda>_.
     case u of
       OmissionUnit reason _ \<Rightarrow> if reason = RasterPlaceholder then ok False else sceneBreakUnits ob ut us parts n
     | TextUnit text role _ \<Rightarrow>
         if role = RoleWhitespace \<or> role = RoleSemanticLineBreak then sceneBreakUnits ob ut us parts n
         else andThen (measureText ob ut text) (\<lambda>measured.
           andThen (lift (addSafe n (fst measured))) (\<lambda>n'.
           if 3 < n' then ok False else sceneBreakUnits ob ut us (parts @ [text]) n')))"

definition isRecognizedSceneBreak ::
    "('s, narration_failure, unit) prog \<Rightarrow> unicode_tables \<Rightarrow> boundary_scan \<Rightarrow> ('s, narration_failure, bool) prog" where
  "isRecognizedSceneBreak ob ut scan =
     (let b = scanBlock scan in
      if blockKind b \<noteq> ParagraphBlock \<or> sourceStartOffset b \<noteq> 0 \<or> sourceEndOffset b \<noteq> blockSourceCodePoints b \<or>
         quoteDepth b \<noteq> 0 \<or> listPathLength b \<noteq> 0 then ok False
      else sceneBreakUnits ob ut (scanUnits scan) [] 0)"

section \<open>Packing\<close>

text \<open>The text of units \<open>[start, end)\<close>: one work unit per code point.\<close>

definition segmentText ::
    "('s, narration_failure, unit) prog \<Rightarrow> normalized_unit list \<Rightarrow> nat \<Rightarrow> nat \<Rightarrow> ('s, narration_failure, js_string) prog" where
  "segmentText ob units start end' =
     andThen (foldEach (\<lambda>i parts.
       (case entryAt units i of None \<Rightarrow> raise internal
        | Some (TextUnit text _ _) \<Rightarrow>
            andThen (foldEach (\<lambda>_ _. ob) (code_points text) ()) (\<lambda>_. ok (parts @ [text]))
        | Some (OmissionUnit _ _) \<Rightarrow> ok parts)) [start..<end'] []) (\<lambda>parts. ok (concat parts))"

definition indexFrom :: "int \<Rightarrow> int fallible" where
  "indexFrom n = (if is_count n then Inr n else Inl internal)"

definition packedSegment ::
    "boundary_scan \<Rightarrow> nat \<Rightarrow> candidate_boundary \<Rightarrow> segment_measurements \<Rightarrow> js_string \<Rightarrow> packed_segment fallible" where
  "packedSegment scan start c m text =
     bindF (sourceOffsetAt (scanUnits scan) start) (\<lambda>s.
     bindF (sourceOffsetAt (scanUnits scan) (candidateIndex c)) (\<lambda>e.
     bindF (copySourceSpan s e) (\<lambda>span.
     bindF (indexFrom (sourceCodePoints m)) (\<lambda>source.
     bindF (indexFrom (narrationCodePoints m)) (\<lambda>cps.
     bindF (indexFrom (narrationUtf8Bytes m)) (\<lambda>bytes.
     bindF (indexFrom (sentenceCount m)) (\<lambda>sentences.
     Inr \<lparr>packedText = text, packedSpan = span, packedReason = candidateReason c,
       packedReport = \<lparr>reportSourceCodePoints = source, reportNarrationCodePoints = cps,
         reportNarrationUtf8Bytes = bytes, reportSentenceCount = sentences\<rparr>\<rparr>)))))))"

record packing_progress =
  startUnitIndex :: nat
  producedSegments :: "packed_segment list"
  totalNarrationCodePoints :: int
  totalNarrationUtf8Bytes :: int
  totalSentenceCount :: int

function packSegments ::
    "('s, narration_failure, unit) prog \<Rightarrow> boundary_scan \<Rightarrow> packing_context \<Rightarrow> packing_limits \<Rightarrow> packing_progress \<Rightarrow>
     ('s, narration_failure, packing_progress) prog" where
  "packSegments ob scan ctx limits g =
     (if startUnitIndex g < length (scanUnits scan) then
        andThen ob (\<lambda>_.
        if maximumSegments limits \<le> int (length (producedSegments g)) then ok g
        else andThen (lift (difference (prefixSubstantive (contextPrefix ctx)) (startUnitIndex g) (length (scanUnits scan)))) (\<lambda>remaining.
        if remaining = 0 then ok g
        else andThen (selectCandidate ob scan ctx (startUnitIndex g) (segmentPolicy limits)) (\<lambda>c.
        if candidateIndex c \<le> startUnitIndex g then raise internal
        else andThen (lift (measurementsBetween scan (contextPrefix ctx) (startUnitIndex g) (candidateIndex c))) (\<lambda>m.
        if \<not> withinHardMaximum m (segmentPolicy limits) \<or> narrationCodePoints m = 0 then raise resourceLimitExceeded
        else andThen (lift (addSafe (totalNarrationCodePoints g) (narrationCodePoints m))) (\<lambda>cps.
        andThen (lift (addSafe (totalNarrationUtf8Bytes g) (narrationUtf8Bytes m))) (\<lambda>bytes.
        if retainedNarrationCodePointsMaximum limits < cps \<or> retainedNarrationUtf8BytesMaximum limits < bytes then ok g
        else andThen (segmentText ob (scanUnits scan) (startUnitIndex g) (candidateIndex c)) (\<lambda>text.
        if text = [] then raise internal
        else andThen ob (\<lambda>_.
        andThen (lift (packedSegment scan (startUnitIndex g) c m text)) (\<lambda>segment.
        andThen (lift (addSafe (totalSentenceCount g) (sentenceCount m))) (\<lambda>sentences.
        packSegments ob scan ctx limits
          \<lparr>startUnitIndex = candidateIndex c, producedSegments = producedSegments g @ [segment],
           totalNarrationCodePoints = cps, totalNarrationUtf8Bytes = bytes, totalSentenceCount = sentences\<rparr>))))))))))
      else ok g)"
  by auto
termination
  by (relation "measure (\<lambda>(ob, scan, ctx, limits, g). length (scanUnits scan) - startUnitIndex g)") auto

declare packSegments.simps [simp del]

text \<open>
  What the body decides before it publishes: a block without speech, or the segments of a spoken one.
\<close>

datatype packing_draft = EmptyDraft packed_disposition | SpokenDraft packing_progress

definition no_segments :: packing_progress where
  "no_segments = \<lparr>startUnitIndex = 0, producedSegments = [], totalNarrationCodePoints = 0,
     totalNarrationUtf8Bytes = 0, totalSentenceCount = 0\<rparr>"

definition draftPacking ::
    "('s, narration_failure, unit) prog \<Rightarrow> unicode_tables \<Rightarrow> boundary_scan \<Rightarrow> packing_limits \<Rightarrow>
     ('s, narration_failure, packing_draft) prog" where
  "draftPacking ob ut scan limits =
     andThen (validateScan ob ut scan) (\<lambda>validated.
     andThen (packingContext ob ut scan validated) (\<lambda>ctx.
     let substantive = prefixSubstantive (contextPrefix ctx) in
     andThen (lift (entryOrFail substantive (length substantive - 1))) (\<lambda>substantiveUnitCount.
     andThen (isRecognizedSceneBreak ob ut scan) (\<lambda>sceneBreak.
     if sceneBreak then ok (EmptyDraft SceneBreakBlock)
     else if substantiveUnitCount = 0 then ok (EmptyDraft UnspokenBlock)
     else andThen (packSegments ob scan ctx limits no_segments) (\<lambda>g. ok (SpokenDraft g))))))"

definition emptyPackedBlock :: "boundary_scan \<Rightarrow> packed_disposition \<Rightarrow> work \<Rightarrow> packed_block fallible" where
  "emptyPackedBlock scan disposition w =
     bindF (indexFrom (blockWindowCodePoints (scanBlock scan))) (\<lambda>consumed.
     bindF (indexFrom (workUnitCount w)) (\<lambda>units.
     bindF (indexFrom (checkpointCount w)) (\<lambda>checkpoints.
     bindF (indexFrom (yieldCount w)) (\<lambda>yields.
     Inr \<lparr>packedBlock = scanBlock scan, packedComplete = True, packedDisposition = disposition,
       packedSegments = [], sourceCodePointsConsumed = consumed, packedNarrationCodePoints = 0,
       packedNarrationUtf8Bytes = 0, packedSentenceCount = 0, packedSegmentCount = 0,
       packedWorkUnitCount = units, packedCheckpointCount = checkpoints, packedYieldCount = yields\<rparr>))))"

definition consumedSource :: "boundary_scan \<Rightarrow> nat \<Rightarrow> int fallible" where
  "consumedSource scan start =
     (if start = length (scanUnits scan) then Inr (blockWindowCodePoints (scanBlock scan))
      else bindF (sourceOffsetAt (scanUnits scan) start) (\<lambda>offset.
        Inr (offset - sourceStartOffset (scanBlock scan))))"

definition spokenPackedBlock :: "boundary_scan \<Rightarrow> packing_progress \<Rightarrow> work \<Rightarrow> packed_block fallible" where
  "spokenPackedBlock scan g w =
     bindF (bindF (consumedSource scan (startUnitIndex g)) indexFrom) (\<lambda>consumed.
     bindF (indexFrom (totalNarrationCodePoints g)) (\<lambda>cps.
     bindF (indexFrom (totalNarrationUtf8Bytes g)) (\<lambda>bytes.
     bindF (indexFrom (totalSentenceCount g)) (\<lambda>sentences.
     bindF (indexFrom (int (length (producedSegments g)))) (\<lambda>count.
     bindF (indexFrom (workUnitCount w)) (\<lambda>units.
     bindF (indexFrom (checkpointCount w)) (\<lambda>checkpoints.
     bindF (indexFrom (yieldCount w)) (\<lambda>yields.
     Inr \<lparr>packedBlock = scanBlock scan, packedComplete = (startUnitIndex g = length (scanUnits scan)),
       packedDisposition = SpokenBlock, packedSegments = producedSegments g,
       sourceCodePointsConsumed = consumed, packedNarrationCodePoints = cps,
       packedNarrationUtf8Bytes = bytes, packedSentenceCount = sentences, packedSegmentCount = count,
       packedWorkUnitCount = units, packedCheckpointCount = checkpoints, packedYieldCount = yields\<rparr>))))))))"

text \<open>The body of \<open>packNarrationBoundaryScanInternal\<close> once its limits and controller exist.\<close>

definition packUnderController ::
    "unicode_tables \<Rightarrow> boundary_scan \<Rightarrow> packing_limits \<Rightarrow> packed_block work_prog" where
  "packUnderController ut scan limits =
     andThen (draftPacking observeWork ut scan limits) (\<lambda>draft.
     andThen beforePublication (\<lambda>_.
     andThen (gets id) (\<lambda>w.
     lift (case draft of EmptyDraft disposition \<Rightarrow> emptyPackedBlock scan disposition w
       | SpokenDraft g \<Rightarrow> spokenPackedBlock scan g w))))"

definition packNarrationBoundaryScanInternal ::
    "unicode_tables \<Rightarrow> boundary_scan \<Rightarrow> packing_options \<Rightarrow> operation_budget option \<Rightarrow> (nat \<Rightarrow> bool) \<Rightarrow>
     (nat \<Rightarrow> bool) \<Rightarrow> packed_block fallible \<times> operation_budget option" where
  "packNarrationBoundaryScanInternal ut scan opts op signal rejects =
     (case resolvePackingLimits opts of Inl e \<Rightarrow> (Inl e, op)
      | Inr limits \<Rightarrow>
          (case createWorkController op signal rejects of Inl e \<Rightarrow> (Inl e, op)
           | Inr w \<Rightarrow> (case packUnderController ut scan limits w of (r, w') \<Rightarrow> (r, operation w'))))"

definition packNarrationBoundaryScan ::
    "unicode_tables \<Rightarrow> boundary_scan \<Rightarrow> packing_options \<Rightarrow> operation_budget option \<Rightarrow> (nat \<Rightarrow> bool) \<Rightarrow>
     (nat \<Rightarrow> bool) \<Rightarrow> (epub_error + packed_block) \<times> operation_budget option" where
  "packNarrationBoundaryScan ut scan opts op signal rejects =
     (case packNarrationBoundaryScanInternal ut scan opts op signal rejects of
        (Inl (EpubFailure e), b) \<Rightarrow> (Inl e, b)
      | (Inl ForeignFailure, b) \<Rightarrow> (Inl InternalFailure, b)
      | (Inr block, b) \<Rightarrow> (Inr block, b))"

end
