(* ===== verification/Work_Facts.thy ===== *)
theory Work_Facts
  imports Narration_Work
begin

text \<open>
  What the work controller of packages/epub/src/narration/narration-work-controller.ts guarantees to
  the loops that observe it: the cadence of checkpoints and yields, the accounting against the
  traversal's budget, the only causes an observation can fail for, and how soon an abort is noticed.
\<close>

section \<open>The invariant\<close>

definition work_wf :: "work \<Rightarrow> bool" where
  "work_wf w \<longleftrightarrow> 0 \<le> sinceCheckpoint w \<and> sinceCheckpoint w < workUnitsBetweenCheckpointsTarget \<and>
     0 \<le> sinceYield w \<and> sinceYield w < workUnitsBetweenYieldsTarget \<and>
     0 \<le> checkpointCount w \<and>
     workUnitsBetweenCheckpointsTarget * checkpointCount w + sinceCheckpoint w \<le> workUnitCount w \<and>
     0 \<le> yieldCount w \<and>
     workUnitsBetweenYieldsTarget * yieldCount w + sinceYield w \<le> workUnitCount w \<and>
     safe_integer (workUnitCount w) \<and> (case operation w of None \<Rightarrow> True | Some b \<Rightarrow> operation_wf b)"

text \<open>Why an observation of \<open>n\<close> units stopped, told from the state it started in and the one it left.\<close>

definition observation_stopped :: "int \<Rightarrow> work \<Rightarrow> narration_failure \<Rightarrow> work \<Rightarrow> bool" where
  "observation_stopped n w e w' \<longleftrightarrow>
     e = EpubFailure Cancelled \<and> (\<exists>i \<ge> signalLooks w. i < signalLooks w' \<and> signalAborted w i) \<or>
     e = EpubFailure ResourceLimitExceeded \<and>
       (\<exists>b. operation w = Some b \<and> operationMaximum b < operationCharged b + n) \<or>
     e = ForeignFailure \<and> schedulerRejects w (schedulerCalls w) \<or>
     e = EpubFailure InternalFailure \<and> (n < 1 \<or> workUnitsBetweenCheckpointsTarget < n \<or>
       \<not> safe_integer (workUnitCount w + n) \<or>
       (\<exists>b. operation w = Some b \<and> \<not> safe_integer (operationCharged b + n)))"

text \<open>What one observation may change: the clock of looks, the counters and the budget.\<close>

definition same_signals :: "work \<Rightarrow> work \<Rightarrow> bool" where
  "same_signals w w' \<longleftrightarrow> signalAborted w' = signalAborted w \<and> schedulerRejects w' = schedulerRejects w \<and>
     signalLooks w \<le> signalLooks w' \<and> schedulerCalls w \<le> schedulerCalls w'"

definition charged_by :: "int \<Rightarrow> operation_budget option \<Rightarrow> operation_budget option \<Rightarrow> bool" where
  "charged_by n op op' \<longleftrightarrow> (case op of None \<Rightarrow> op' = None
     | Some b \<Rightarrow> op' = Some (b\<lparr>operationCharged := operationCharged b + n\<rparr>) \<and>
         operationCharged b + n \<le> operationMaximum b)"

lemma charge_wp:
  "1 \<le> n \<Longrightarrow> n \<le> 512 \<Longrightarrow> wp (charge (Integral n)) (\<lambda>_ c. c = b\<lparr>operationCharged := operationCharged b + n\<rparr> \<and>
       operationCharged b + n \<le> operationMaximum b)
     (\<lambda>e c. c = b \<and> (e = EpubFailure ResourceLimitExceeded \<and> operationMaximum b < operationCharged b + n \<or>
        e = EpubFailure InternalFailure \<and> \<not> safe_integer (operationCharged b + n))) b"
  by (auto simp: charge_def wp_simps addSafe_def is_count_def safe_integer_def MAX_SAFE_INTEGER_def split: sum.splits)

lemma chargeOperation_wp:
  assumes "1 \<le> n" "n \<le> 512"
  shows "wp (chargeOperation (Integral n))
     (\<lambda>_ w'. \<exists>op. charged_by n (operation w) op \<and> w' = w\<lparr>operation := op\<rparr>)
     (\<lambda>e w'. observation_stopped n w e w') w"
proof (cases "operation w")
  case None
  then show ?thesis by (simp add: wp_def chargeOperation_def charged_by_def)
next
  case (Some b)
  obtain r c where rc: "charge (Integral n) b = (r, c)" by (cases "charge (Integral n) b")
  show ?thesis
    using charge_wp [OF assms, of b] Some
    by (auto simp: wp_def chargeOperation_def charged_by_def rc observation_stopped_def split: sum.splits)
qed

definition counters_ready :: "work \<Rightarrow> bool" where
  "counters_ready w \<longleftrightarrow> 0 \<le> sinceCheckpoint w \<and> sinceCheckpoint w < 1024 \<and> 0 \<le> sinceYield w \<and> sinceYield w < 8192 \<and>
     0 \<le> checkpointCount w \<and> 512 * checkpointCount w + sinceCheckpoint w \<le> workUnitCount w \<and>
     0 \<le> yieldCount w \<and> 4096 * yieldCount w + sinceYield w \<le> workUnitCount w \<and> safe_integer (workUnitCount w)"

definition saw_abort :: "work \<Rightarrow> work \<Rightarrow> bool" where
  "saw_abort w w' \<longleftrightarrow> (\<exists>i \<ge> signalLooks w. i < signalLooks w' \<and> signalAborted w i)"

lemma assertActive_wp:
  "wp assertActive (\<lambda>_ w'. w' = w\<lparr>signalLooks := Suc (signalLooks w)\<rparr> \<and> \<not> signalAborted w (signalLooks w))
     (\<lambda>e w'. e = EpubFailure Cancelled \<and> w' = w\<lparr>signalLooks := Suc (signalLooks w)\<rparr> \<and> signalAborted w (signalLooks w)) w"
  by (auto simp: wp_def assertActive_def)

lemma checkpointIfDue_wp:
  assumes "counters_ready w"
  shows "wp checkpointIfDue
    (\<lambda>_ w'. counters_ready w' \<and> sinceCheckpoint w' < 512 \<and> same_signals w w' \<and> operation w' = operation w \<and>
       workUnitCount w' = workUnitCount w \<and> schedulerCalls w' = schedulerCalls w \<and>
       (512 \<le> sinceCheckpoint w \<longrightarrow> signalLooks w' = Suc (signalLooks w) \<and> \<not> signalAborted w (signalLooks w)) \<and>
       (sinceCheckpoint w < 512 \<longrightarrow> w' = w))
    (\<lambda>e w'. e = EpubFailure Cancelled \<and> signalLooks w' = Suc (signalLooks w) \<and> signalAborted w (signalLooks w)) w"
  using assms
  by (auto simp: checkpointIfDue_def wp_def andThen_apply assertActive_def lift_def addSafe_def counters_ready_def
      narration_constants safe_integer_def MAX_SAFE_INTEGER_def same_signals_def split: sum.splits)

lemma yieldIfDue_wp:
  assumes "counters_ready w"
  shows "wp yieldIfDue
    (\<lambda>_ w'. counters_ready w' \<and> sinceYield w' < 4096 \<and> sinceCheckpoint w' = sinceCheckpoint w \<and> same_signals w w' \<and>
       operation w' = operation w \<and> workUnitCount w' = workUnitCount w \<and>
       (4096 \<le> sinceYield w \<longrightarrow> signalLooks w' = signalLooks w + 2 \<and> \<not> signalAborted w (signalLooks w)) \<and>
       (sinceYield w < 4096 \<longrightarrow> w' = w))
    (\<lambda>e w'. e = EpubFailure Cancelled \<and> saw_abort w w' \<or>
       e = ForeignFailure \<and> schedulerRejects w (schedulerCalls w)) w"
  using assms
  by (auto simp: yieldIfDue_def wp_def andThen_apply assertActive_def awaitScheduler_def lift_def addSafe_def
      counters_ready_def narration_constants safe_integer_def MAX_SAFE_INTEGER_def same_signals_def saw_abort_def
      split: sum.splits intro: exI [of _ "signalLooks w"] exI [of _ "Suc (signalLooks w)"])

definition observed :: "int \<Rightarrow> work \<Rightarrow> work \<Rightarrow> bool" where
  "observed n w w' \<longleftrightarrow> work_wf w' \<and> workUnitCount w' = workUnitCount w + n \<and>
     charged_by n (operation w) (operation w') \<and> same_signals w w' \<and>
     (signalLooks w' = signalLooks w \<and> sinceCheckpoint w' = sinceCheckpoint w + n \<or>
      signalLooks w < signalLooks w' \<and> \<not> signalAborted w (signalLooks w))"

lemma work_wf_operation: "work_wf w \<Longrightarrow> 0 \<le> n \<Longrightarrow> charged_by n (operation w) op \<Longrightarrow>
    (case op of None \<Rightarrow> True | Some b \<Rightarrow> operation_wf b)"
  by (auto simp: work_wf_def charged_by_def operation_wf_def split: option.splits)

lemma observeUnits_stage:
  "wp (observeUnits (Integral n)) Q E w = (if n < 1 \<or> 512 < n \<or> \<not> is_count n then E (EpubFailure InternalFailure) w
     else wp (chargeOperation (Integral n)) (\<lambda>_ w1.
       if \<not> safe_integer (workUnitCount w1 + n) then E (EpubFailure InternalFailure) w1
       else if \<not> safe_integer (sinceCheckpoint w1 + n) then E (EpubFailure InternalFailure) (w1\<lparr>workUnitCount := workUnitCount w1 + n\<rparr>)
       else if \<not> safe_integer (sinceYield w1 + n) then E (EpubFailure InternalFailure)
         (w1\<lparr>workUnitCount := workUnitCount w1 + n, sinceCheckpoint := sinceCheckpoint w1 + n\<rparr>)
       else wp checkpointIfDue (\<lambda>_. wp yieldIfDue (\<lambda>_ w3.
           if 1024 < sinceCheckpoint w3 \<or> 8192 < sinceYield w3 then E (EpubFailure InternalFailure) w3 else Q () w3) E) E
         (w1\<lparr>workUnitCount := workUnitCount w1 + n, sinceCheckpoint := sinceCheckpoint w1 + n,
             sinceYield := sinceYield w1 + n\<rparr>)) E w)"
  unfolding observeUnits_def addSafe_def
  by (simp add: wp_funs narration_constants if_distrib [of "\<lambda>p. p _"] not_less disj_commute)
    (auto intro!: arg_cong [of _ _ "\<lambda>Q'. wp (chargeOperation (Integral n)) Q' E w"] ext)

lemma saw_abort_earlier: "same_signals w w' \<Longrightarrow> saw_abort w' v \<Longrightarrow> saw_abort w v"
  by (auto simp: same_signals_def saw_abort_def intro: le_trans)

lemma observeUnits_wp:
  assumes wf: "work_wf w"
  shows "wp (observeUnits (Integral n)) (\<lambda>_ w'. observed n w w') (\<lambda>e w'. observation_stopped n w e w') w"
proof (cases "1 \<le> n \<and> n \<le> 512 \<and> safe_integer (workUnitCount w + n)")
  case False
  show ?thesis
  proof (cases "1 \<le> n \<and> n \<le> 512")
    case True
    then have "is_count n" "\<not> safe_integer (workUnitCount w + n)" using False by (auto simp: is_count_iff)
    then show ?thesis
      unfolding observeUnits_stage using True
      by (auto simp: not_less observation_stopped_def intro!: wp_mono [OF chargeOperation_wp])
  qed (auto simp: observeUnits_stage observation_stopped_def narration_constants)
next
  case True
  then have n: "1 \<le> n" "n \<le> 512" "safe_integer (workUnitCount w + n)" by auto
  then have c: "is_count n" by (simp add: is_count_iff)
  show ?thesis
    unfolding observeUnits_stage using n c
  proof (simp add: not_less, intro wp_mono [OF chargeOperation_wp [of n w]], goal_cases)
    case (3 u w1)
    define w2 where "w2 = w1\<lparr>workUnitCount := workUnitCount w1 + n, sinceCheckpoint := sinceCheckpoint w1 + n,
             sinceYield := sinceYield w1 + n\<rparr>"
    from 3 obtain op where w1: "w1 = w\<lparr>operation := op\<rparr>" "charged_by n (operation w) op" by blast
    have ready: "counters_ready w2"
      using wf n by (auto simp: w2_def w1 counters_ready_def work_wf_def narration_constants)
    have eqs: "signalAborted w2 = signalAborted w" "schedulerRejects w2 = schedulerRejects w"
      "signalLooks w2 = signalLooks w" "schedulerCalls w2 = schedulerCalls w" "operation w2 = op"
      "workUnitCount w2 = workUnitCount w + n" "sinceCheckpoint w2 = sinceCheckpoint w + n"
      by (simp_all add: w2_def w1)
    note op = work_wf_operation [OF wf _ w1(2)]
    have main: "wp checkpointIfDue (\<lambda>_. wp yieldIfDue (\<lambda>_ w3.
        (1024 < sinceCheckpoint w3 \<longrightarrow> observation_stopped n w (EpubFailure InternalFailure) w3) \<and>
        (8192 < sinceYield w3 \<longrightarrow> observation_stopped n w (EpubFailure InternalFailure) w3) \<and>
        (sinceCheckpoint w3 \<le> 1024 \<and> sinceYield w3 \<le> 8192 \<longrightarrow> observed n w w3))
        (\<lambda>e w'. observation_stopped n w e w')) (\<lambda>e w'. observation_stopped n w e w') w2"
    proof (rule wp_mono [OF checkpointIfDue_wp [OF ready]], goal_cases)
      case (1 u w3)
      then show ?case
        apply (intro wp_mono [OF yieldIfDue_wp [of w3]])
        subgoal by simp
        subgoal for v w4
          using w1(2) op n eqs
          by (auto simp: observed_def work_wf_def same_signals_def counters_ready_def narration_constants split: option.splits)
        subgoal for e w4
          using eqs saw_abort_earlier [of w2 w3 w4]
          by (auto simp: observation_stopped_def saw_abort_def same_signals_def)
        done
    next
      case (2 e w3)
      then show ?case using eqs by (auto simp: observation_stopped_def)
    qed
    have safe: "safe_integer (sinceCheckpoint w1 + n)" "safe_integer (sinceYield w1 + n)"
      using ready by (auto simp: w2_def w1 counters_ready_def safe_integer_def MAX_SAFE_INTEGER_def)
    show ?case using n safe main by (simp add: w1 w2_def)
  qed
qed

section \<open>What callers rely on\<close>

abbreviation observeAll :: "int list \<Rightarrow> unit work_prog" where
  "observeAll \<equiv> forEach (\<lambda>n. observeUnits (Integral n))"

lemma observe_success: "work_wf w \<Longrightarrow> observeUnits (Integral n) w = (Inr u, w') \<Longrightarrow> observed n w w'"
  using wp_Inr [OF observeUnits_wp] by metis

lemma observe_failure:
  "work_wf w \<Longrightarrow> observeUnits (Integral n) w = (Inl e, w') \<Longrightarrow> observation_stopped n w e w'"
  using wp_Inl [OF observeUnits_wp] by metis

lemma charged_by_zero: "(case op of None \<Rightarrow> True | Some b \<Rightarrow> operation_wf b) \<Longrightarrow> charged_by 0 op op"
  by (auto simp: charged_by_def operation_wf_def split: option.splits)

lemma charged_by_trans: "charged_by m a b \<Longrightarrow> charged_by n b c \<Longrightarrow> charged_by (m + n) a c"
  by (auto simp: charged_by_def split: option.splits)

lemma same_signals_trans: "same_signals a b \<Longrightarrow> same_signals b c \<Longrightarrow> same_signals a c"
  by (auto simp: same_signals_def)

lemma observed_all:
  "work_wf w \<Longrightarrow> observeAll ns w = (Inr u, w') \<Longrightarrow>
     work_wf w' \<and> workUnitCount w' = workUnitCount w + sum_list ns \<and>
     charged_by (sum_list ns) (operation w) (operation w') \<and> same_signals w w' \<and>
     (signalLooks w' = signalLooks w \<and> sinceCheckpoint w' = sinceCheckpoint w + sum_list ns \<or>
      (\<exists>i \<ge> signalLooks w. \<not> signalAborted w i))"
proof (induction ns arbitrary: w)
  case Nil
  then show ?case by (auto simp: same_signals_def work_wf_def intro: charged_by_zero)
next
  case (Cons n ns)
  then obtain v w1 where first: "observeUnits (Integral n) w = (Inr v, w1)" and rest: "observeAll ns w1 = (Inr u, w')"
    by (auto simp: andThen_Inr)
  have o: "observed n w w1" by (rule observe_success [OF Cons.prems(1) first])
  then have "work_wf w1" by (simp add: observed_def)
  from Cons.IH [OF this rest] o show ?case
    by (auto simp: observed_def same_signals_def intro: charged_by_trans le_trans)
qed

text \<open>
  An observation of n units either succeeds, keeps the checkpoint and yield counters below their
  targets, counts exactly n units and charges exactly n units to the traversal's budget within its
  maximum; or it fails for one of four causes that its state shows: the signal was seen aborted, the
  budget would be overdrawn, the awaited yield rejected, or a count would leave the safe integers or
  n was not a legal amount. The final cadence check of \<open>observe\<close> never fires.
\<close>

theorem observation_outcomes:
  assumes "work_wf w"
  shows "case observeUnits (Integral n) w of
      (Inr _, w') \<Rightarrow> observed n w w'
    | (Inl e, w') \<Rightarrow> observation_stopped n w e w'"
  using observeUnits_wp [OF assms, of n] by (simp add: wp_def split: prod.splits sum.splits)

text \<open>
  C9. Cancellation is noticed promptly: once the signal stays aborted, no sequence of observations
  that adds up to 512 units or more can succeed, whatever amounts it is made of and wherever the
  counters stand.
\<close>

theorem abort_noticed_within_a_checkpoint:
  assumes "work_wf w" and "\<forall>i \<ge> signalLooks w. signalAborted w i"
    and "workUnitsBetweenCheckpointsTarget \<le> sum_list ns"
  shows "\<exists>e w'. observeAll ns w = (Inl e, w')"
proof (cases "observeAll ns w")
  case (Pair r w')
  show ?thesis
  proof (cases r)
    case (Inr u)
    with observed_all [OF assms(1), of ns u w'] assms Pair show ?thesis
      by (auto simp: work_wf_def)
  qed (use Pair in auto)
qed

definition sample_work :: work where
  "sample_work = \<lparr>operation = Some \<lparr>operationMaximum = 600, operationCharged = 0\<rparr>, signalAborted = (\<lambda>i. 1 \<le> i),
     signalLooks = 1, schedulerRejects = (\<lambda>_. False), schedulerCalls = 0, checkpointCount = 0,
     sinceCheckpoint = 0, sinceYield = 0, workUnitCount = 0, yieldCount = 0\<rparr>"

lemma sample_work_wf: "work_wf sample_work"
  by (simp add: sample_work_def work_wf_def narration_constants safe_integer_def MAX_SAFE_INTEGER_def operation_wf_def)

theorem observation_outcomes_witness:
  "\<exists>w'. observeUnits (Integral 100) sample_work = (Inr (), w') \<and> observed 100 sample_work w'"
proof -
  have "fst (observeUnits (Integral 100) sample_work) = Inr ()"
    by (simp add: observeUnits_def andThen_apply sample_work_def narration_constants is_count_iff chargeOperation_def
        charge_def lift_def addSafe_def safe_integer_def MAX_SAFE_INTEGER_def checkpointIfDue_def yieldIfDue_def)
  then show ?thesis
    using observation_outcomes [OF sample_work_wf, of 100] by (cases "observeUnits (Integral 100) sample_work") auto
qed

theorem abort_noticed_within_a_checkpoint_witness:
  "\<exists>e w'. observeAll [300, 300] sample_work = (Inl e, w')"
  by (rule abort_noticed_within_a_checkpoint [OF sample_work_wf])
    (simp_all add: sample_work_def narration_constants)

end
