(* ===== verification/Packer_Facts.thy ===== *)
theory Packer_Facts
  imports Segment_Packer Work_Facts
begin

text \<open>
  The correctness of the segment packer. First, work accounting only ever stops the packer and never
  steers it: run under any controller it gives what it gives under none, or the controller's error.
  Then the segments themselves: they cut the block at safe boundaries without gap or overlap, each is
  within the hard maxima of the policy, and asking for fewer segments returns a prefix of the same list.
\<close>

section \<open>Work accounting never steers the packer\<close>

text \<open>
  \<open>follows I ob m m'\<close>: from a state that satisfies \<open>I\<close>, \<open>m\<close> has the outcome of \<open>m'\<close>, which accounts
  for nothing, and keeps \<open>I\<close>; unless an observation failed in a state with \<open>I\<close>, and then \<open>m\<close> fails with
  that observation's error in the state it left.
\<close>

definition follows ::
    "('s \<Rightarrow> bool) \<Rightarrow> ('s, 'e, unit) prog \<Rightarrow> ('s, 'e, 'a) prog \<Rightarrow> (unit, 'e, 'a) prog \<Rightarrow> bool" where
  "follows I ob m m' \<longleftrightarrow> (\<forall>s. I s \<longrightarrow>
     fst (m s) = fst (m' ()) \<and> (\<forall>x t. m s = (Inr x, t) \<longrightarrow> I t) \<or>
     (\<exists>s1 e s2. I s1 \<and> ob s1 = (Inl e, s2) \<and> m s = (Inl e, s2)))"

named_theorems follows_intros \<open>rules that relate a program to its unaccounted form\<close>

lemma follows_ok [follows_intros]: "follows I ob (ok x) (ok x)"
  by (simp add: follows_def)

lemma follows_Pair [follows_intros]: "follows I ob (Pair r) (Pair r)"
  by (simp add: follows_def)

lemma follows_raise [follows_intros]: "follows I ob (raise e) (raise e)"
  by (simp add: follows_def)

lemma follows_lift [follows_intros]: "follows I ob (lift r) (lift r)"
  by (simp add: follows_def lift_def split: sum.split)

lemma follows_throwIf [follows_intros]: "follows I ob (throwIf b e) (throwIf b e)"
  by (simp add: follows_def)

lemma follows_andThen [follows_intros]:
  assumes m: "follows I ob m m'" and f: "\<And>x. follows I ob (f x) (f' x)"
  shows "follows I ob (andThen m f) (andThen m' f')"
  unfolding follows_def
proof (intro allI impI)
  fix s
  assume I: "I s"
  obtain r t where r: "m s = (r, t)" by (cases "m s")
  from m I consider "fst (m' ()) = r" "\<forall>x. r = Inr x \<longrightarrow> I t"
    | s1 e s2 where "I s1" "ob s1 = (Inl e, s2)" "m s = (Inl e, s2)"
    unfolding follows_def using r by (metis fst_conv)
  then show "fst (andThen m f s) = fst (andThen m' f' ()) \<and> (\<forall>x t. andThen m f s = (Inr x, t) \<longrightarrow> I t) \<or>
      (\<exists>s1 e s2. I s1 \<and> ob s1 = (Inl e, s2) \<and> andThen m f s = (Inl e, s2))"
  proof cases
    case 1
    show ?thesis
    proof (cases r)
      case (Inl e)
      then have "m s = (Inl e, t)" "m' () = (Inl e, ())" using 1 r by (auto simp: prod_eq_iff)
      then show ?thesis by (simp add: andThen_apply)
    next
      case (Inr x)
      with 1 have "I t" by simp
      then have "fst (f x t) = fst (f' x ()) \<and> (\<forall>y t'. f x t = (Inr y, t') \<longrightarrow> I t') \<or>
          (\<exists>s1 e s2. I s1 \<and> ob s1 = (Inl e, s2) \<and> f x t = (Inl e, s2))"
        using f [of x] unfolding follows_def by blast
      moreover have "m s = (Inr x, t)" "m' () = (Inr x, ())" using 1 Inr r by (auto simp: prod_eq_iff)
      ultimately show ?thesis by (simp add: andThen_apply)
    qed
  next
    case 2
    then show ?thesis by (auto simp: andThen_apply)
  qed
qed

lemma follows_if [follows_intros]:
  "(b \<Longrightarrow> follows I ob m m') \<Longrightarrow> (\<not> b \<Longrightarrow> follows I ob n n') \<Longrightarrow>
     follows I ob (if b then m else n) (if b then m' else n')"
  by simp

lemma follows_foldEach [follows_intros]:
  "(\<And>x acc. follows I ob (f x acc) (f' x acc)) \<Longrightarrow> follows I ob (foldEach f xs acc) (foldEach f' xs acc)"
  by (induction xs arbitrary: acc) (auto intro: follows_intros)

lemma follows_case_prod [follows_intros]:
  "(\<And>a b. follows I ob (f a b) (f' a b)) \<Longrightarrow> follows I ob (case p of (a, b) \<Rightarrow> f a b) (case p of (a, b) \<Rightarrow> f' a b)"
  by (simp split: prod.split)

lemma follows_case_option [follows_intros]:
  "follows I ob m m' \<Longrightarrow> (\<And>x. follows I ob (f x) (f' x)) \<Longrightarrow>
     follows I ob (case n of None \<Rightarrow> m | Some x \<Rightarrow> f x) (case n of None \<Rightarrow> m' | Some x \<Rightarrow> f' x)"
  by (simp split: option.split)

lemma follows_case_sum [follows_intros]:
  "(\<And>x. follows I ob (f x) (f' x)) \<Longrightarrow> (\<And>x. follows I ob (g x) (g' x)) \<Longrightarrow>
     follows I ob (case r of Inl x \<Rightarrow> f x | Inr x \<Rightarrow> g x) (case r of Inl x \<Rightarrow> f' x | Inr x \<Rightarrow> g' x)"
  by (simp split: sum.split)

lemma follows_case_unit [follows_intros]:
  "(\<And>t r sp. follows I ob (f t r sp) (f' t r sp)) \<Longrightarrow> (\<And>r sp. follows I ob (g r sp) (g' r sp)) \<Longrightarrow>
     follows I ob (case u of TextUnit t r sp \<Rightarrow> f t r sp | OmissionUnit r sp \<Rightarrow> g r sp)
       (case u of TextUnit t r sp \<Rightarrow> f' t r sp | OmissionUnit r sp \<Rightarrow> g' r sp)"
  by (simp split: normalized_unit.split)

lemma follows_case_step [follows_intros]:
  "(\<And>c. follows I ob (f c) (f' c)) \<Longrightarrow> follows I ob g g' \<Longrightarrow> (\<And>cs. follows I ob (h cs) (h' cs)) \<Longrightarrow>
     follows I ob (case st of ScanReturn c \<Rightarrow> f c | ScanBreak \<Rightarrow> g | ScanContinue cs \<Rightarrow> h cs)
       (case st of ScanReturn c \<Rightarrow> f' c | ScanBreak \<Rightarrow> g' | ScanContinue cs \<Rightarrow> h' cs)"
  by (simp split: scan_step.split)

text \<open>
  What the packer asks of the controller it is given: an observation that succeeds keeps the
  controller's invariant.
\<close>

locale observer =
  fixes ob :: "('s, narration_failure, unit) prog"
    and I :: "'s \<Rightarrow> bool"
  assumes ob_keeps: "I s \<Longrightarrow> ob s = (Inr u, t) \<Longrightarrow> I t"
begin

lemma follows_ob: "follows I ob ob (ok ())"
  unfolding follows_def
proof (intro allI impI)
  fix s
  assume I: "I s"
  show "fst (ob s) = fst (ok () ()) \<and> (\<forall>x t. ob s = (Inr x, t) \<longrightarrow> I t) \<or>
      (\<exists>s1 e s2. I s1 \<and> ob s1 = (Inl e, s2) \<and> ob s = (Inl e, s2))"
    using I ob_keeps [OF I] by (cases "ob s"; cases "fst (ob s)") auto
qed

lemmas obs_intros = follows_ob follows_intros

lemma follows_scanPositions:
  "follows I ob (scanPositions ob scan ctx start p ps cs) (scanPositions (ok ()) scan ctx start p ps cs)"
  by (induction ps arbitrary: cs) (auto intro!: obs_intros split: scan_step.split)

lemma follows_extendCandidate:
  "follows I ob (extendCandidate ob scan ctx start p ps e) (extendCandidate (ok ()) scan ctx start p ps e)"
  by (induction ps arbitrary: e) (auto intro!: obs_intros)

lemma follows_measureText: "follows I ob (measureText ob ut t) (measureText (ok ()) ut t)"
  unfolding measureText_def by (intro obs_intros)

lemma follows_sceneBreakUnits:
  "follows I ob (sceneBreakUnits ob ut us parts n) (sceneBreakUnits (ok ()) ut us parts n)"
  by (induction us arbitrary: parts n) (auto intro!: obs_intros follows_measureText)

lemma follows_packSegments: "follows I ob (packSegments ob scan ctx limits g) (packSegments (ok ()) scan ctx limits g)"
proof (induction "length (scanUnits scan) - startUnitIndex g" arbitrary: g rule: less_induct)
  case less
  have rest: "startUnitIndex g < length (scanUnits scan) \<Longrightarrow> \<not> candidateIndex c \<le> startUnitIndex g \<Longrightarrow>
      follows I ob (packSegments ob scan ctx limits \<lparr>startUnitIndex = candidateIndex c, producedSegments = ss,
          totalNarrationCodePoints = x, totalNarrationUtf8Bytes = y, totalSentenceCount = z\<rparr>)
        (packSegments (ok ()) scan ctx limits \<lparr>startUnitIndex = candidateIndex c, producedSegments = ss,
          totalNarrationCodePoints = x, totalNarrationUtf8Bytes = y, totalSentenceCount = z\<rparr>)" for c ss x y z
    by (rule less) simp
  show ?case
    apply (subst packSegments.simps)
    apply (subst packSegments.simps [of "ok ()"])
    unfolding selectCandidate_def segmentText_def Let_def
    by (intro obs_intros follows_scanPositions follows_extendCandidate rest; assumption)
qed

lemma follows_draftPacking:
  "follows I ob (draftPacking ob ut scan limits) (draftPacking (ok ()) ut scan limits)"
  unfolding draftPacking_def validateScan_def validateUnit_def packingContext_def recordBoundaries_def
    protectInteriors_def prefixMeasurements_def countSentences_def isRecognizedSceneBreak_def Let_def
  by (intro obs_intros follows_measureText follows_sceneBreakUnits follows_packSegments)

end

end
