(* ===== verification/Packer_Segments.thy ===== *)
theory Packer_Segments
  imports Packer_Facts
begin

text \<open>
  What a packed segment is, stated over the units of the scan without the packer's prefix sums and
  boundary tables, and the proof that the packer's tables measure exactly that.
\<close>

section \<open>Specification\<close>

definition slice :: "'a list \<Rightarrow> nat \<Rightarrow> nat \<Rightarrow> 'a list" where
  "slice xs s e = map ((!) xs) [s..<e]"

fun unit_text :: "normalized_unit \<Rightarrow> js_string" where
  "unit_text (TextUnit t _ _) = t"
| "unit_text (OmissionUnit _ _) = []"

definition unit_code_points :: "normalized_unit \<Rightarrow> int" where
  "unit_code_points u = int (length (code_points (unit_text u)))"

definition unit_bytes :: "normalized_unit \<Rightarrow> int" where
  "unit_bytes u = utf8ByteLength (unit_text u)"

definition unit_piper :: "unicode_tables \<Rightarrow> normalized_unit \<Rightarrow> int" where
  "unit_piper ut u = sum_list (map (piperSpeechExpansionCodePointUnits ut) (code_points (unit_text u)))"

text \<open>How many sentence boundaries the scanner recorded at a position.\<close>

definition sentences_at :: "boundary_scan \<Rightarrow> nat \<Rightarrow> int" where
  "sentences_at scan c =
     int (length (filter (\<lambda>b. boundaryKind b = SentenceBoundary \<and> unitIndexExclusive b = int c) (scanBoundaries scan)))"

definition slice_measurements :: "unicode_tables \<Rightarrow> boundary_scan \<Rightarrow> nat \<Rightarrow> nat \<Rightarrow> segment_measurements" where
  "slice_measurements ut scan s e =
     \<lparr>sourceCodePoints = int e - int s,
      narrationCodePoints = sum_list (map unit_code_points (slice (scanUnits scan) s e)),
      narrationUtf8Bytes = sum_list (map unit_bytes (slice (scanUnits scan) s e)),
      piperSpeechExpansionUnits = sum_list (map (unit_piper ut) (slice (scanUnits scan) s e)),
      sentenceCount = sum_list (map (sentences_at scan) [s + 1..<e + 1])\<rparr>"

definition inside_token :: "boundary_scan \<Rightarrow> nat \<Rightarrow> bool" where
  "inside_token scan c \<longleftrightarrow> (\<exists>t \<in> set (scanProtectedTokens scan). tokenStart t < int c \<and> int c < tokenEnd t)"

definition safe_cut :: "unicode_tables \<Rightarrow> boundary_scan \<Rightarrow> nat \<Rightarrow> bool" where
  "safe_cut ut scan c \<longleftrightarrow> \<not> inside_token scan c \<and> \<not> startsWithCombiningMark ut (entryAt (scanUnits scan) c)"

definition report_of :: "segment_measurements \<Rightarrow> segment_report" where
  "report_of m = \<lparr>reportSourceCodePoints = sourceCodePoints m, reportNarrationCodePoints = narrationCodePoints m,
     reportNarrationUtf8Bytes = narrationUtf8Bytes m, reportSentenceCount = sentenceCount m\<rparr>"

text \<open>Segment \<open>x\<close> is what packing units \<open>[s, e)\<close> of the scan under policy \<open>p\<close> may produce.\<close>

definition is_segment :: "unicode_tables \<Rightarrow> boundary_scan \<Rightarrow> segment_policy \<Rightarrow> nat \<Rightarrow> nat \<Rightarrow> packed_segment \<Rightarrow> bool" where
  "is_segment ut scan p s e x \<longleftrightarrow> s < e \<and> e \<le> length (scanUnits scan) \<and> safe_cut ut scan e \<and>
     list_ex isSubstantive (slice (scanUnits scan) s e) \<and>
     withinHardMaximum (slice_measurements ut scan s e) p \<and>
     packedText x = concat (map unit_text (slice (scanUnits scan) s e)) \<and> packedText x \<noteq> [] \<and>
     packedSpan x = \<lparr>startOffsetCodePoints = sourceStartOffset (scanBlock scan) + int s,
       endOffsetCodePoints = sourceStartOffset (scanBlock scan) + int e\<rparr> \<and>
     packedReport x = report_of (slice_measurements ut scan s e)"

text \<open>Consecutive segments that cover \<open>[s, e)\<close>.\<close>

fun covers :: "(nat \<Rightarrow> nat \<Rightarrow> 'a \<Rightarrow> bool) \<Rightarrow> nat \<Rightarrow> 'a list \<Rightarrow> nat \<Rightarrow> bool" where
  "covers P s [] e \<longleftrightarrow> s = e"
| "covers P s (x # xs) e \<longleftrightarrow> (\<exists>m \<in> set [s..<e + 1]. P s m x \<and> covers P m xs e)"

lemma covers_Cons: "covers P s (x # xs) e \<longleftrightarrow> (\<exists>m. s \<le> m \<and> m \<le> e \<and> P s m x \<and> covers P m xs e)"
  by auto

declare covers.simps(2) [simp del]

lemma covers_snoc: "covers P s xs m \<Longrightarrow> P m e x \<Longrightarrow> m \<le> e \<Longrightarrow> covers P s (xs @ [x]) e"
  by (induction xs arbitrary: s) (auto simp: covers_Cons intro: order_trans)

lemma slice_append: "s \<le> m \<Longrightarrow> m \<le> e \<Longrightarrow> slice xs s m @ slice xs m e = slice xs s e"
  unfolding slice_def by (metis le_Suc_ex map_append upt_add_eq_append)

lemma slice_all: "slice xs 0 (length xs) = xs"
  by (simp add: slice_def map_nth)

lemma covers_text:
  assumes "covers P s xs e" and "\<And>s e x. P s e x \<Longrightarrow> f x = concat (map g (slice us s e))" and "s \<le> e"
  shows "concat (map f xs) = concat (map g (slice us s e))"
  using assms(1,3)
proof (induction xs arbitrary: s)
  case Nil
  then show ?case by (simp add: slice_def)
next
  case (Cons x xs)
  then obtain m where m: "s \<le> m" "m \<le> e" "P s m x" "covers P m xs e"
    by (auto simp: covers_Cons)
  have "concat (map f xs) = concat (map g (slice us m e))" by (rule Cons.IH [OF m(4,2)])
  then show ?case
    using assms(2) [OF m(3)] by (simp flip: slice_append [OF m(1,2), of us])
qed

section \<open>The scan is validated and measured\<close>

lemma bindF_Inr: "bindF m f = Inr y \<longleftrightarrow> (\<exists>x. m = Inr x \<and> f x = Inr y)"
  by (cases m) (auto simp: bindF_def)

lemma bindF_simps [simp]: "bindF (Inr x) f = f x" "bindF (Inl e) f = Inl e"
  by (simp_all add: bindF_def)

lemma addSafe_Inr: "addSafe a b = Inr c \<longleftrightarrow> c = a + b \<and> safe_integer (a + b)"
  by (auto simp: addSafe_def)

lemma entryOrFail_Inr: "entryOrFail xs i = Inr x \<longleftrightarrow> i < length xs \<and> x = xs ! i"
  by (auto simp: entryOrFail_def)

lemma yields_measureText:
  "yields (measureText ob ut t) (\<lambda>r. r = (int (length (code_points t)),
     sum_list (map (piperSpeechExpansionCodePointUnits ut) (code_points t))))"
  unfolding measureText_def
proof (rule yields_mono [OF yields_foldEach [where
      I = "\<lambda>front r. r = (int (length front), sum_list (map (piperSpeechExpansionCodePointUnits ut) front))"]])
  fix x front rest acc
  assume "acc = (int (length front), sum_list (map (piperSpeechExpansionCodePointUnits ut) front))"
  then show "yields (case acc of (codePoints, units) \<Rightarrow>
        andThen (lift (addSafe codePoints 1)) (\<lambda>codePoints.
        andThen (lift (addSafe units (piperSpeechExpansionCodePointUnits ut x))) (\<lambda>units.
        andThen ob (\<lambda>_.
        andThen (throwIf (normalizationExpansionCodePointsHardMaximum < codePoints) internal) (\<lambda>_.
        ok (codePoints, units))))))
      (\<lambda>r. r = (int (length (front @ [x])), sum_list (map (piperSpeechExpansionCodePointUnits ut) (front @ [x]))))"
    by (auto simp: yields_def andThen_Inr lift_def addSafe_def split: if_splits)
qed simp_all

definition unit_measurements :: "unicode_tables \<Rightarrow> normalized_unit list \<Rightarrow> validated_measurements" where
  "unit_measurements ut us = \<lparr>unitNarrationCodePoints = map unit_code_points us,
     unitNarrationUtf8Bytes = map unit_bytes us, unitPiperUnits = map (unit_piper ut) us\<rparr>"

definition unit_at :: "int \<Rightarrow> normalized_unit \<Rightarrow> bool" where
  "unit_at n u \<longleftrightarrow> unit_span u = \<lparr>startOffsetCodePoints = n, endOffsetCodePoints = n + 1\<rparr>"

definition valid_scan :: "boundary_scan \<Rightarrow> bool" where
  "valid_scan scan \<longleftrightarrow> \<not> malformedBlock (scanBlock scan) \<and>
     (\<forall>i < length (scanUnits scan). unit_at (sourceStartOffset (scanBlock scan) + int i) (scanUnits scan ! i)) \<and>
     sourceEndOffset (scanBlock scan) = sourceStartOffset (scanBlock scan) + int (length (scanUnits scan)) \<and>
     int (length (scanUnits scan)) \<le> retainedTokenEntriesHardMaximum \<and>
     concat (map unit_text (scanUnits scan)) = scanText scan"

definition scanned_front :: "unicode_tables \<Rightarrow> boundary_scan \<Rightarrow> normalized_unit list \<Rightarrow> scan_progress \<Rightarrow> bool" where
  "scanned_front ut scan front g \<longleftrightarrow>
     expectedSourceOffset g = sourceStartOffset (scanBlock scan) + int (length front) \<and>
     (\<forall>i < length front. unit_at (sourceStartOffset (scanBlock scan) + int i) (front ! i)) \<and>
     concat (textParts g) = concat (map unit_text front) \<and>
     measuredUnits g = unit_measurements ut front"

lemma scanned_snoc:
  assumes "scanned_front ut scan front g" "unit_at (expectedSourceOffset g) u"
    "concat (textParts g') = concat (textParts g) @ unit_text u"
    "expectedSourceOffset g' = endOffsetCodePoints (unit_span u)"
    "measuredUnits g' = pushUnit (unit_code_points u) (unit_bytes u) (unit_piper ut u) (measuredUnits g)"
  shows "scanned_front ut scan (front @ [u]) g'"
  using assms
  by (auto simp: scanned_front_def unit_measurements_def pushUnit_def unit_at_def nth_append less_Suc_eq)

lemma retainText_Inr:
  "retainText t m g = Inr g' \<Longrightarrow> expectedSourceOffset g' = expectedSourceOffset g \<and>
     textParts g' = textParts g @ [t] \<and> measuredUnits g' = pushUnit (fst m) (utf8ByteLength t) (snd m) (measuredUnits g)"
  by (auto simp: retainText_def bindF_Inr split: if_splits)

lemma yields_validateUnit:
  assumes "scanned_front ut scan front g"
  shows "yields (validateUnit ob ut u g) (scanned_front ut scan (front @ [u]))"
proof (cases u)
  case (TextUnit str role sp)
  have m: "measureText ob ut str s = (Inr r, t) \<Longrightarrow>
      r = (unit_code_points u, unit_piper ut u)" for s r t
    using yieldsD [OF yields_measureText] TextUnit by (fastforce simp: unit_code_points_def unit_piper_def)
  show ?thesis
    using TextUnit assms
    by (auto simp: validateUnit_def yields_def andThen_Inr lift_Inr Let_def unit_at_def unit_bytes_def
        dest!: m retainText_Inr split: if_splits intro!: scanned_snoc [OF assms])
next
  case (OmissionUnit r sp)
  then show ?thesis
    using assms
    by (auto simp: validateUnit_def yields_def andThen_Inr Let_def unit_at_def unit_bytes_def unit_code_points_def
        unit_piper_def utf8ByteLength_def split: if_splits intro!: scanned_snoc [OF assms])
qed

lemma yields_validateScan:
  "yields (validateScan ob ut scan) (\<lambda>v. valid_scan scan \<and> v = unit_measurements ut (scanUnits scan))"
proof -
  have "yields (foldEach (validateUnit ob ut) (scanUnits scan)
       \<lparr>expectedSourceOffset = sourceStartOffset (scanBlock scan), retainedCodePoints = 0, retainedUtf8Bytes = 0,
        textParts = [], measuredUnits = \<lparr>unitNarrationCodePoints = [], unitNarrationUtf8Bytes = [], unitPiperUnits = []\<rparr>\<rparr>)
      (scanned_front ut scan (scanUnits scan))"
    by (rule yields_foldEach, erule yields_validateUnit) (simp add: scanned_front_def unit_measurements_def)
  note fold = yieldsD [OF this]
  show ?thesis
    unfolding validateScan_def
    by (auto simp: yields_def andThen_Inr scanned_front_def valid_scan_def split: if_splits dest!: fold)
qed

section \<open>The prefix sums measure slices\<close>

definition running :: "(nat \<Rightarrow> int) \<Rightarrow> nat \<Rightarrow> int" where
  "running f i = sum_list (map f [0..<i])"

lemma running_difference: "s \<le> e \<Longrightarrow> running f e - running f s = sum_list (map f [s..<e])"
  by (induction e rule: dec_induct) (simp_all add: running_def)

lemma pushSum_running:
  "pushSum (map (running f) [0..<Suc k]) x = Inr ys \<Longrightarrow> x = f k \<Longrightarrow> ys = map (running f) [0..<Suc (Suc k)]"
  by (auto simp: pushSum_def bindF_Inr addSafe_Inr entryOrFail_Inr nth_append running_def)

lemma difference_running:
  "difference (map (running f) [0..<Suc n]) s e = Inr d \<Longrightarrow> s \<le> e \<Longrightarrow>
     e \<le> n \<and> d = sum_list (map f [s..<e]) \<and> is_count d"
  by (auto simp: difference_def bindF_Inr entryOrFail_Inr is_count_def simp del: upt_Suc
      simp flip: running_difference split: if_splits)

definition exact_prefix :: "unicode_tables \<Rightarrow> boundary_scan \<Rightarrow> nat \<Rightarrow> prefix_measurements \<Rightarrow> bool" where
  "exact_prefix ut scan k p \<longleftrightarrow>
     prefixNarrationCodePoints p = map (running (\<lambda>i. unit_code_points (scanUnits scan ! i))) [0..<Suc k] \<and>
     prefixNarrationUtf8Bytes p = map (running (\<lambda>i. unit_bytes (scanUnits scan ! i))) [0..<Suc k] \<and>
     prefixPiperUnits p = map (running (\<lambda>i. unit_piper ut (scanUnits scan ! i))) [0..<Suc k] \<and>
     prefixSentenceCount p = map (running (\<lambda>i. sentences_at scan (Suc i))) [0..<Suc k] \<and>
     prefixSubstantive p = map (running (\<lambda>i. if isSubstantive (scanUnits scan ! i) then 1 else 0)) [0..<Suc k]"

lemma yields_countSentences:
  "yields (countSentences ob scan) (\<lambda>counts. counts = map (sentences_at scan) [0..<Suc (length (scanUnits scan))])"
proof -
  let ?n = "length (scanUnits scan)"
  let ?at = "\<lambda>c b. boundaryKind b = SentenceBoundary \<and> unitIndexExclusive b = int c"
  let ?I = "\<lambda>front counts. counts = map (\<lambda>c. int (length (filter (?at c) front))) [0..<Suc ?n]"
  have "yields (countSentences ob scan) (?I (scanBoundaries scan))"
    unfolding countSentences_def
  proof (rule yields_foldEach)
    fix b front rest counts
    assume I: "?I front counts"
    show "yields (andThen ob (\<lambda>_. if boundaryKind b = SentenceBoundary then
         (if unitIndexExclusive b < 0 then raise internal
          else lift (bindF (entryOrFail counts (nat (unitIndexExclusive b))) (\<lambda>current.
            bindF (addSafe current 1) (\<lambda>n. Inr (counts[nat (unitIndexExclusive b) := n])))))
       else ok counts)) (?I (front @ [b]))"
      using I
      by (auto simp: yields_def andThen_Inr lift_Inr bindF_Inr addSafe_Inr entryOrFail_Inr
          simp del: upt_Suc split: if_splits intro!: nth_equalityI)
  qed (simp add: map_replicate_const del: upt_Suc)
  then show ?thesis by (simp add: sentences_at_def [abs_def] del: upt_Suc)
qed

lemma extendPrefix_exact:
  assumes "extendPrefix scan (unit_measurements ut (scanUnits scan))
      (map (sentences_at scan) [0..<Suc (length (scanUnits scan))]) k p = Inr p'"
    and "exact_prefix ut scan k p"
  shows "exact_prefix ut scan (Suc k) p'"
  using assms
  by (auto simp: extendPrefix_def exact_prefix_def bindF_Inr entryOrFail_Inr unit_measurements_def
      simp del: upt_Suc dest!: pushSum_running)

lemma yields_prefixMeasurements:
  "yields (prefixMeasurements ob scan (unit_measurements ut (scanUnits scan)))
     (exact_prefix ut scan (length (scanUnits scan)))"
  unfolding prefixMeasurements_def
proof (rule yields_andThen [OF yields_countSentences], hypsubst)
  let ?f = "\<lambda>i p. andThen ob (\<lambda>_. lift (extendPrefix scan (unit_measurements ut (scanUnits scan))
     (map (sentences_at scan) [0..<Suc (length (scanUnits scan))]) i p))"
  have "yields (foldEach ?f [0..<length (scanUnits scan)]
       \<lparr>prefixNarrationCodePoints = [0], prefixNarrationUtf8Bytes = [0], prefixPiperUnits = [0],
        prefixSentenceCount = [0], prefixSubstantive = [0]\<rparr>)
      (\<lambda>p. exact_prefix ut scan (length [0..<length (scanUnits scan)]) p)"
  proof (rule yields_foldEach [where I = "\<lambda>front p. exact_prefix ut scan (length front) p"])
    fix k front rest p
    assume split: "[0..<length (scanUnits scan)] = front @ k # rest" and I: "exact_prefix ut scan (length front) p"
    from split have "[0..<length (scanUnits scan)] ! length front = k" "length front < length (scanUnits scan)"
      by (metis nth_append_length, metis length_append length_Cons length_upt diff_zero less_add_Suc1 add_Suc_right)
    then have k: "k = length front" by simp
    show "yields (?f k p) (\<lambda>p. exact_prefix ut scan (length (front @ [k])) p)"
      using extendPrefix_exact [of scan ut k p] I k
      by (auto simp: yields_def andThen_Inr lift_Inr simp del: upt_Suc)
  qed (simp add: exact_prefix_def running_def)
  then show "yields (foldEach ?f [0..<length (scanUnits scan)]
       \<lparr>prefixNarrationCodePoints = [0], prefixNarrationUtf8Bytes = [0], prefixPiperUnits = [0],
        prefixSentenceCount = [0], prefixSubstantive = [0]\<rparr>)
      (exact_prefix ut scan (length (scanUnits scan)))" by simp
qed

lemma slice_sum: "sum_list (map f (slice xs s e)) = sum_list (map (\<lambda>i. f (xs ! i)) [s..<e])"
  by (simp add: slice_def comp_def)

lemma sourceOffsetAt_valid:
  "valid_scan scan \<Longrightarrow> scanUnits scan \<noteq> [] \<Longrightarrow> i \<le> length (scanUnits scan) \<Longrightarrow>
     sourceOffsetAt (scanUnits scan) i = Inr (sourceStartOffset (scanBlock scan) + int i)"
  by (auto simp: sourceOffsetAt_def valid_scan_def unit_at_def hd_conv_nth)

lemma measurementsBetween_exact:
  assumes "measurementsBetween scan p s e = Inr m" and scan: "valid_scan scan"
    and p: "exact_prefix ut scan (length (scanUnits scan)) p" and "s < e"
  shows "e \<le> length (scanUnits scan) \<and> m = slice_measurements ut scan s e"
proof -
  from assms(1) have e: "e \<le> length (scanUnits scan)"
    by (auto simp: measurementsBetween_def bindF_Inr sourceOffsetAt_def split: if_splits)
  with \<open>s < e\<close> have ne: "scanUnits scan \<noteq> []" "s \<le> length (scanUnits scan)" by auto
  have sentences: "sum_list (map (\<lambda>i. sentences_at scan (Suc i)) [s..<e]) =
      sum_list (map (sentences_at scan) [s + 1..<e + 1])"
  proof -
    have "[s + 1..<e + 1] = map Suc [s..<e]" by (simp add: map_Suc_upt)
    then show ?thesis by (simp only: map_map comp_def)
  qed
  from assms(1) e ne show ?thesis
    using p \<open>s < e\<close> sentences
    by (auto simp: measurementsBetween_def bindF_Inr sourceOffsetAt_valid [OF scan] exact_prefix_def
        slice_measurements_def slice_sum simp del: upt_Suc dest!: difference_running)
qed

lemma substantive_slice:
  assumes "difference (prefixSubstantive p) s e = Inr d" "s \<le> e" "exact_prefix ut scan (length (scanUnits scan)) p"
  shows "e \<le> length (scanUnits scan) \<and> (d \<noteq> 0 \<longleftrightarrow> list_ex isSubstantive (slice (scanUnits scan) s e))"
proof -
  have "0 \<le> sum_list (map (\<lambda>i. if isSubstantive (scanUnits scan ! i) then 1 else 0 :: int) is) \<and>
      (sum_list (map (\<lambda>i. if isSubstantive (scanUnits scan ! i) then 1 else 0 :: int) is) \<noteq> 0 \<longleftrightarrow>
        list_ex (\<lambda>i. isSubstantive (scanUnits scan ! i)) is)" for "is"
    by (induction "is") auto
  from this [of "[s..<e]"] assms show ?thesis
    by (auto simp: exact_prefix_def slice_def list_ex_iff simp del: upt_Suc dest!: difference_running)
qed

section \<open>Safe boundaries\<close>

lemma acceptToken_Inr:
  "acceptToken scan t k = Inr u \<Longrightarrow> 0 \<le> tokenStart t \<and> tokenStart t < tokenEnd t \<and> tokenEnd t \<le> int (length (scanUnits scan))"
  by (auto simp: acceptToken_def split: if_splits)

lemma yields_markPositions:
  "yields (foldEach (\<lambda>position xs. andThen ob (\<lambda>_. ok (xs[position := True]))) ps xs)
     (\<lambda>ys. length ys = length xs \<and> (\<forall>c < length xs. ys ! c \<longleftrightarrow> c \<in> set ps \<or> xs ! c))"
proof (rule yields_foldEach [where I = "\<lambda>front ys. length ys = length xs \<and> (\<forall>c < length xs. ys ! c \<longleftrightarrow> c \<in> set front \<or> xs ! c)"])
  fix p front rest ys
  assume "length ys = length xs \<and> (\<forall>c<length xs. ys ! c = (c \<in> set front \<or> xs ! c))"
  then show "yields (andThen ob (\<lambda>_. ok (ys[p := True])))
      (\<lambda>ys. length ys = length xs \<and> (\<forall>c < length xs. ys ! c \<longleftrightarrow> c \<in> set (front @ [p]) \<or> xs ! c))"
    by (cases "p < length ys") (auto simp: yields_def andThen_Inr nth_list_update list_update_beyond)
qed simp

lemma yields_protectInteriors:
  "yields (protectInteriors ob scan) (\<lambda>xs. length xs = length (scanUnits scan) + 1 \<and>
     (\<forall>c \<le> length (scanUnits scan). xs ! c \<longleftrightarrow> inside_token scan c))"
proof -
  let ?n = "length (scanUnits scan)"
  let ?I = "\<lambda>front (xs, k :: int). length xs = ?n + 1 \<and>
     (\<forall>c \<le> ?n. xs ! c \<longleftrightarrow> (\<exists>t \<in> set front. tokenStart (t :: protected_token) < int c \<and> int c < tokenEnd t))"
  let ?f = "\<lambda>t (interiors, previousEnd).
         andThen ob (\<lambda>_.
         andThen (lift (acceptToken scan t previousEnd)) (\<lambda>_.
         andThen (foldEach (\<lambda>position xs. andThen ob (\<lambda>_. ok (xs[position := True])))
           [nat (tokenStart t) + 1..<nat (tokenEnd t)] interiors) (\<lambda>interiors'.
         ok (interiors', tokenEnd t))))"
  have "yields (foldEach ?f (scanProtectedTokens scan) (replicate (?n + 1) False, 0)) (?I (scanProtectedTokens scan))"
  proof (rule yields_foldEach)
    fix t :: protected_token and front rest acc
    assume I: "?I front acc"
    obtain xs k where acc: "acc = (xs, k)" by force
    have marked: "foldEach (\<lambda>position xs. andThen ob (\<lambda>_. ok (xs[position := True])))
        [Suc (nat (tokenStart t))..<nat (tokenEnd t)] xs s = (Inr ys, s') \<Longrightarrow>
        length ys = length xs \<and>
        (\<forall>c < length xs. ys ! c \<longleftrightarrow> nat (tokenStart t) < c \<and> c < nat (tokenEnd t) \<or> xs ! c)"
      for s ys s'
      using yieldsD [OF yields_markPositions, of ob _ xs s ys s'] by (auto simp: Suc_le_eq)
    show "yields (?f t acc) (?I (front @ [t]))"
      using I unfolding acc
      by (auto simp: yields_def andThen_Inr lift_Inr dest!: marked acceptToken_Inr) 
  qed (auto simp: nth_append nth_Cons')
  then show ?thesis
    unfolding protectInteriors_def
    by (rule yields_andThen) (auto simp: yields_def inside_token_def)
qed

lemma yields_packingContext:
  "yields (packingContext ob ut scan (unit_measurements ut (scanUnits scan)))
     (\<lambda>ctx. exact_prefix ut scan (length (scanUnits scan)) (contextPrefix ctx) \<and>
        safeBoundaries ctx = map (\<lambda>c. 0 < c \<and> safe_cut ut scan c) [0..<Suc (length (scanUnits scan))])"
proof -
  let ?n = "length (scanUnits scan)"
  have safe: "yields (foldEach (\<lambda>position xs. andThen ob (\<lambda>_. ok (xs @ [safeBoundary ut scan interiors position])))
       [0..<Suc ?n] []) (\<lambda>xs. xs = map (safeBoundary ut scan interiors) [0..<Suc ?n])" for interiors
    by (rule yields_foldEach [where I = "\<lambda>front xs. xs = map (safeBoundary ut scan interiors) front"])
      (auto simp: yields_def andThen_Inr)
  have eq: "map (safeBoundary ut scan interiors) [0..<Suc ?n] = map (\<lambda>c. 0 < c \<and> safe_cut ut scan c) [0..<Suc ?n]"
    if "\<forall>c \<le> ?n. interiors ! c \<longleftrightarrow> inside_token scan c" for interiors
    using that by (auto simp: safeBoundary_def safe_cut_def simp del: upt_Suc)
  show ?thesis
    unfolding packingContext_def
    by (auto simp: yields_def andThen_Inr eq simp del: upt_Suc dest!: yieldsD [OF yields_prefixMeasurements]
        yieldsD [OF safe] yieldsD [OF yields_protectInteriors])
qed

section \<open>Candidates\<close>

definition ready :: "unicode_tables \<Rightarrow> boundary_scan \<Rightarrow> packing_context \<Rightarrow> bool" where
  "ready ut scan ctx \<longleftrightarrow> valid_scan scan \<and> exact_prefix ut scan (length (scanUnits scan)) (contextPrefix ctx) \<and>
     safeBoundaries ctx = map (\<lambda>c. 0 < c \<and> safe_cut ut scan c) [0..<Suc (length (scanUnits scan))]"

definition acceptable :: "unicode_tables \<Rightarrow> boundary_scan \<Rightarrow> segment_policy \<Rightarrow> nat \<Rightarrow> nat \<Rightarrow> bool" where
  "acceptable ut scan p s c \<longleftrightarrow> s < c \<and> c \<le> length (scanUnits scan) \<and> safe_cut ut scan c \<and>
     list_ex isSubstantive (slice (scanUnits scan) s c) \<and> withinHardMaximum (slice_measurements ut scan s c) p"

definition all_candidates :: "(nat \<Rightarrow> bool) \<Rightarrow> candidates \<Rightarrow> bool" where
  "all_candidates Q cs \<longleftrightarrow> (\<forall>f \<in> {targetSentence, firstHardSentence, targetClause, firstHardClause, targetWhitespace,
     firstHardWhitespace, targetToken, firstHardToken, latestHard}. \<forall>c. f cs = Some c \<longrightarrow> Q (candidateIndex c))"

lemma ready_safe: "ready ut scan ctx \<Longrightarrow> entryAt (safeBoundaries ctx) c = Some True \<Longrightarrow> safe_cut ut scan c"
  by (auto simp: ready_def entryAt_def simp del: upt_Suc split: if_splits)

lemma all_none: "all_candidates Q no_candidates"
  by (simp add: all_candidates_def no_candidates_def)

lemma best_candidate: "all_candidates Q cs \<Longrightarrow> bestCandidate cs = Some c \<Longrightarrow> Q (candidateIndex c)"
  by (auto simp: all_candidates_def bestCandidate_def orElse_def split: option.splits)

lemma prefer_cases:
  "preferLatestTarget b c m p = Some d \<Longrightarrow> d = c \<or> b = Some d"
  "preferFirstHard b c = Some d \<Longrightarrow> d = c \<or> b = Some d"
  by (auto simp: preferLatestTarget_def preferFirstHard_def split: if_splits option.splits)

lemma all_recorded: "all_candidates Q cs \<Longrightarrow> Q c \<Longrightarrow> all_candidates Q (considerRecorded kind c m p cs)"
  by (auto simp: all_candidates_def considerRecorded_def Let_def dest!: prefer_cases
      split: option.split scanned_boundary_kind.split)

lemma all_previous: "all_candidates Q cs \<Longrightarrow> Q c \<Longrightarrow> all_candidates Q (considerPrevious u c m p cs)"
  by (auto simp: all_candidates_def considerPrevious_def Let_def dest!: prefer_cases
      split: option.split normalized_unit.split)

lemma considerPosition_ok:
  assumes "considerPosition scan ctx s p c cs = Inr step" "ready ut scan ctx" "s < c"
    and "all_candidates (acceptable ut scan p s) cs"
  shows "case step of ScanReturn d \<Rightarrow> acceptable ut scan p s (candidateIndex d)
    | ScanBreak \<Rightarrow> True | ScanContinue cs' \<Rightarrow> all_candidates (acceptable ut scan p s) cs'"
proof -
  have p: "exact_prefix ut scan (length (scanUnits scan)) (contextPrefix ctx)" and scan: "valid_scan scan"
    using assms(2) by (simp_all add: ready_def)
  from assms(1) obtain m where m: "measurementsBetween scan (contextPrefix ctx) s c = Inr m"
    by (auto simp: considerPosition_def bindF_Inr)
  have eq: "c \<le> length (scanUnits scan)" "m = slice_measurements ut scan s c"
    using measurementsBetween_exact [OF m scan p assms(3)] by auto
  show ?thesis
  proof (cases "withinHardMaximum m p")
    case False
    then show ?thesis using assms(1) m by (auto simp: considerPosition_def)
  next
    case True
    with assms(1) m obtain d where d: "difference (prefixSubstantive (contextPrefix ctx)) s c = Inr d"
      by (auto simp: considerPosition_def bindF_Inr)
    show ?thesis
    proof (cases "d = 0 \<or> entryAt (safeBoundaries ctx) c \<noteq> Some True")
      case skip: True
      then show ?thesis using assms(1,4) m d True by (auto simp: considerPosition_def)
    next
      case False
      then have acc: "acceptable ut scan p s c"
        using True substantive_slice [OF d _ p] assms(2,3) eq by (auto simp: acceptable_def ready_safe)
      let ?cs = "cs\<lparr>latestHard := Some \<lparr>candidateIndex = c, candidateReason = PackHardLimit\<rparr>\<rparr>"
      have "all_candidates (acceptable ut scan p s) ?cs"
        using assms(4) acc by (simp add: all_candidates_def)
      note keep = all_previous [OF all_recorded [OF this acc] acc]
      show ?thesis
        using assms(1) m d True False acc keep
        by (simp add: considerPosition_def Let_def split: if_splits) auto
    qed
  qed
qed

lemma yields_scanPositions:
  assumes "ready ut scan ctx" "\<forall>c \<in> set ps. s < c" "all_candidates (acceptable ut scan p s) cs"
  shows "yields (scanPositions ob scan ctx s p ps cs)
     (\<lambda>r. case r of Inl c \<Rightarrow> acceptable ut scan p s (candidateIndex c)
        | Inr cs \<Rightarrow> all_candidates (acceptable ut scan p s) cs)"
  using assms(2,3)
proof (induction ps arbitrary: cs)
  case Nil
  then show ?case by (simp add: yields_def)
next
  case (Cons c ps)
  show ?case
    unfolding scanPositions.simps
  proof (rule yields_andThen [OF yields_any], rule yields_andThen [OF yields_lift])
    fix step
    assume "considerPosition scan ctx s p c cs = Inr step"
    from considerPosition_ok [OF this assms(1)] Cons.prems
    have "case step of ScanReturn d \<Rightarrow> acceptable ut scan p s (candidateIndex d)
      | ScanBreak \<Rightarrow> True | ScanContinue cs' \<Rightarrow> all_candidates (acceptable ut scan p s) cs'" by simp
    then show "yields (case step of ScanReturn c \<Rightarrow> ok (Inl c) | ScanBreak \<Rightarrow> ok (Inr cs)
        | ScanContinue cs' \<Rightarrow> scanPositions ob scan ctx s p ps cs')
      (\<lambda>r. case r of Inl c \<Rightarrow> acceptable ut scan p s (candidateIndex c)
        | Inr cs \<Rightarrow> all_candidates (acceptable ut scan p s) cs)"
      using Cons by (cases step) (auto simp: yields_def)
  qed assumption
qed

lemma extendsOver_ok:
  assumes "extendsOver scan ctx s p c = Inr True" "ready ut scan ctx" "acceptable ut scan p s c"
  shows "acceptable ut scan p s (Suc c)"
proof -
  have p: "exact_prefix ut scan (length (scanUnits scan)) (contextPrefix ctx)" and scan: "valid_scan scan"
    using assms(2) by (simp_all add: ready_def)
  have s: "s < Suc c" using assms(3) by (simp add: acceptable_def)
  from assms(1) obtain m where m: "measurementsBetween scan (contextPrefix ctx) s (Suc c) = Inr m"
      "withinHardMaximum m p" "entryAt (safeBoundaries ctx) (Suc c) = Some True"
    by (auto simp: extendsOver_def bindF_Inr split: option.splits if_splits)
  have "slice (scanUnits scan) s (Suc c) = slice (scanUnits scan) s c @ slice (scanUnits scan) c (Suc c)"
    using assms(3) by (simp add: slice_append acceptable_def)
  then show ?thesis
    using measurementsBetween_exact [OF m(1) scan p s] m ready_safe [OF assms(2) m(3)] assms(3)
    by (auto simp: acceptable_def)
qed

lemma yields_extendCandidate:
  assumes "ready ut scan ctx" "acceptable ut scan p s c"
  shows "yields (extendCandidate ob scan ctx s p [c..<n] c) (acceptable ut scan p s)"
  using assms(2)
proof (induction "n - c" arbitrary: c)
  case 0
  then show ?case by (simp add: yields_def)
next
  case (Suc k)
  have "acceptable ut scan p s (Suc c) \<Longrightarrow> yields (extendCandidate ob scan ctx s p [Suc c..<n] (Suc c)) (acceptable ut scan p s)"
    by (rule Suc.hyps(1)) (use Suc.hyps(2) in auto)
  then show ?case
    using Suc extendsOver_ok [OF _ assms(1) Suc.prems]
    by (auto simp: upt_conv_Cons yields_def andThen_Inr lift_Inr split: if_splits)
qed

lemma yields_selectCandidate:
  assumes "ready ut scan ctx"
  shows "yields (selectCandidate ob scan ctx s p) (\<lambda>c. acceptable ut scan p s (candidateIndex c))"
  unfolding selectCandidate_def Let_def
proof (rule yields_andThen [OF yields_scanPositions [OF assms]])
  fix r :: "candidate_boundary + candidates"
  assume r: "case r of Inl c \<Rightarrow> acceptable ut scan p s (candidateIndex c)
    | Inr cs \<Rightarrow> all_candidates (acceptable ut scan p s) cs"
  show "yields (case r of Inl c \<Rightarrow> ok c
      | Inr cs \<Rightarrow> (case bestCandidate cs of None \<Rightarrow> raise resourceLimitExceeded
         | Some c \<Rightarrow> andThen (extendCandidate ob scan ctx s p [candidateIndex c..<length (scanUnits scan)] (candidateIndex c))
             (\<lambda>extended. ok (if extended = length (scanUnits scan)
               then \<lparr>candidateIndex = length (scanUnits scan), candidateReason = endReason scan\<rparr>
               else c\<lparr>candidateIndex := extended\<rparr>))))
    (\<lambda>c. acceptable ut scan p s (candidateIndex c))"
  proof (cases r)
    case (Inr cs)
    show ?thesis
    proof (cases "bestCandidate cs")
      case (Some c)
      with r Inr have "acceptable ut scan p s (candidateIndex c)" by (auto dest: best_candidate)
      from yields_extendCandidate [OF assms this] Some Inr show ?thesis
        by (auto intro!: yields_andThen yields_ok)
    qed (use Inr in \<open>auto simp: yields_def\<close>)
  qed (use r in \<open>auto simp: yields_def\<close>)
qed (auto simp: all_none)

section \<open>Segments\<close>

lemma yields_segmentText:
  "yields (segmentText ob units s e) (\<lambda>str. str = concat (map unit_text (slice units s e)))"
  unfolding segmentText_def
proof (rule yields_andThen)
  let ?f = "\<lambda>i parts. (case entryAt units i of None \<Rightarrow> raise internal
        | Some (TextUnit str _ _) \<Rightarrow>
            andThen (foldEach (\<lambda>_ _. ob) (code_points str) ()) (\<lambda>_. ok (parts @ [str]))
        | Some (OmissionUnit _ _) \<Rightarrow> ok parts)"
  show "yields (foldEach ?f [s..<e] []) (\<lambda>parts. concat parts = concat (map (\<lambda>i. unit_text (units ! i)) [s..<e]))"
    by (rule yields_foldEach [where I = "\<lambda>front parts. concat parts = concat (map (\<lambda>i. unit_text (units ! i)) front)"])
      (auto simp: yields_def entryAt_def andThen_Inr split: option.splits normalized_unit.splits if_splits)
qed (auto simp: yields_def slice_def comp_def)

text \<open>One round of the packing loop: it stops with what it has, or goes on with one more segment.\<close>

lemma yields_packSegments_round:
  assumes at_end: "length (scanUnits scan) \<le> startUnitIndex g \<Longrightarrow> P g"
    and enough: "maximumSegments limits \<le> int (length (producedSegments g)) \<Longrightarrow> P g"
    and silent: "difference (prefixSubstantive (contextPrefix ctx)) (startUnitIndex g) (length (scanUnits scan)) = Inr 0 \<Longrightarrow>
      startUnitIndex g < length (scanUnits scan) \<Longrightarrow> P g"
    and full: "\<And>c m. A c \<Longrightarrow> startUnitIndex g < candidateIndex c \<Longrightarrow>
      measurementsBetween scan (contextPrefix ctx) (startUnitIndex g) (candidateIndex c) = Inr m \<Longrightarrow>
      retainedNarrationCodePointsMaximum limits < totalNarrationCodePoints g + narrationCodePoints m \<or>
      retainedNarrationUtf8BytesMaximum limits < totalNarrationUtf8Bytes g + narrationUtf8Bytes m \<Longrightarrow> P g"
    and select: "yields (selectCandidate ob scan ctx (startUnitIndex g) (segmentPolicy limits)) A"
    and more: "\<And>c m cps bytes x sentences.
      startUnitIndex g < length (scanUnits scan) \<Longrightarrow> int (length (producedSegments g)) < maximumSegments limits \<Longrightarrow>
      A c \<Longrightarrow> startUnitIndex g < candidateIndex c \<Longrightarrow>
      measurementsBetween scan (contextPrefix ctx) (startUnitIndex g) (candidateIndex c) = Inr m \<Longrightarrow>
      addSafe (totalNarrationCodePoints g) (narrationCodePoints m) = Inr cps \<Longrightarrow>
      addSafe (totalNarrationUtf8Bytes g) (narrationUtf8Bytes m) = Inr bytes \<Longrightarrow>
      cps \<le> retainedNarrationCodePointsMaximum limits \<Longrightarrow> bytes \<le> retainedNarrationUtf8BytesMaximum limits \<Longrightarrow>
      concat (map unit_text (slice (scanUnits scan) (startUnitIndex g) (candidateIndex c))) \<noteq> [] \<Longrightarrow>
      packedSegment scan (startUnitIndex g) c m
        (concat (map unit_text (slice (scanUnits scan) (startUnitIndex g) (candidateIndex c)))) = Inr x \<Longrightarrow>
      addSafe (totalSentenceCount g) (sentenceCount m) = Inr sentences \<Longrightarrow>
      yields (packSegments ob scan ctx limits \<lparr>startUnitIndex = candidateIndex c, producedSegments = producedSegments g @ [x],
         totalNarrationCodePoints = cps, totalNarrationUtf8Bytes = bytes, totalSentenceCount = sentences\<rparr>) P"
  shows "yields (packSegments ob scan ctx limits g) P"
  apply (subst packSegments.simps)
  apply (rule yields_if)
   apply (rule yields_andThen [OF yields_any])
   apply (rule yields_if, rule yields_ok, rule enough, assumption)
   apply (rule yields_andThen [OF yields_lift_eq])
   apply (rule yields_if, rule yields_ok, rule silent, simp, assumption)
   apply (rule yields_andThen [OF select])
   apply (rule yields_if, rule yields_raise)
   apply (rule yields_andThen [OF yields_lift_eq])
   apply (rule yields_if, rule yields_raise)
   apply (rule yields_andThen [OF yields_lift_eq])
   apply (rule yields_andThen [OF yields_lift_eq])
   apply (rule yields_if, rule yields_ok, rule full, assumption, simp, assumption, simp add: addSafe_Inr)
   apply (rule yields_andThen [OF yields_segmentText])
   apply (rule yields_if, rule yields_raise)
   apply (rule yields_andThen [OF yields_any])
   apply (rule yields_andThen [OF yields_lift_eq])
   apply (rule yields_andThen [OF yields_lift_eq])
   apply (rule more; (assumption | simp))
  apply (rule yields_ok, rule at_end, simp)
  done

lemma packedSegment_exact:
  assumes x: "packedSegment scan s c m str = Inr x" and scan: "valid_scan scan"
    and c: "acceptable ut scan p s (candidateIndex c)" and m: "m = slice_measurements ut scan s (candidateIndex c)"
    and str: "str = concat (map unit_text (slice (scanUnits scan) s (candidateIndex c)))" "str \<noteq> []"
  shows "is_segment ut scan p s (candidateIndex c) x"
proof -
  from c have "scanUnits scan \<noteq> []" "s \<le> length (scanUnits scan)" "candidateIndex c \<le> length (scanUnits scan)"
    by (auto simp: acceptable_def)
  with x c m str show ?thesis
    by (auto simp: packedSegment_def bindF_Inr sourceOffsetAt_valid [OF scan] copySourceSpan_def indexFrom_def
        is_segment_def acceptable_def report_of_def split: if_splits)
qed

text \<open>What holds whenever the loop starts a round and when it ends.\<close>

definition packed_front :: "unicode_tables \<Rightarrow> boundary_scan \<Rightarrow> packing_limits \<Rightarrow> packing_progress \<Rightarrow> bool" where
  "packed_front ut scan limits g \<longleftrightarrow>
     covers (is_segment ut scan (segmentPolicy limits)) 0 (producedSegments g) (startUnitIndex g) \<and>
     startUnitIndex g \<le> length (scanUnits scan) \<and>
     int (length (producedSegments g)) \<le> maximumSegments limits \<and>
     totalNarrationCodePoints g = sum_list (map (reportNarrationCodePoints \<circ> packedReport) (producedSegments g)) \<and>
     totalNarrationUtf8Bytes g = sum_list (map (reportNarrationUtf8Bytes \<circ> packedReport) (producedSegments g)) \<and>
     totalSentenceCount g = sum_list (map (reportSentenceCount \<circ> packedReport) (producedSegments g)) \<and>
     totalNarrationCodePoints g \<le> retainedNarrationCodePointsMaximum limits \<and>
     totalNarrationUtf8Bytes g \<le> retainedNarrationUtf8BytesMaximum limits"

text \<open>Why packing ended: nothing left to speak, enough segments, or the next one would not fit.\<close>

definition packed_end :: "unicode_tables \<Rightarrow> boundary_scan \<Rightarrow> packing_limits \<Rightarrow> packing_progress \<Rightarrow> bool" where
  "packed_end ut scan limits g \<longleftrightarrow> packed_front ut scan limits g \<and>
     (\<not> list_ex isSubstantive (slice (scanUnits scan) (startUnitIndex g) (length (scanUnits scan))) \<or>
      int (length (producedSegments g)) = maximumSegments limits \<or>
      (\<exists>c \<le> length (scanUnits scan). acceptable ut scan (segmentPolicy limits) (startUnitIndex g) c \<and>
        (retainedNarrationCodePointsMaximum limits < totalNarrationCodePoints g +
           narrationCodePoints (slice_measurements ut scan (startUnitIndex g) c) \<or>
         retainedNarrationUtf8BytesMaximum limits < totalNarrationUtf8Bytes g +
           narrationUtf8Bytes (slice_measurements ut scan (startUnitIndex g) c))))"

lemma packed_front_snoc:
  assumes "packed_front ut scan limits g" "is_segment ut scan (segmentPolicy limits) (startUnitIndex g) e x"
    and "int (length (producedSegments g)) < maximumSegments limits" "m = slice_measurements ut scan (startUnitIndex g) e"
    and "addSafe (totalNarrationCodePoints g) (narrationCodePoints m) = Inr cps" "cps \<le> retainedNarrationCodePointsMaximum limits"
    and "addSafe (totalNarrationUtf8Bytes g) (narrationUtf8Bytes m) = Inr bytes" "bytes \<le> retainedNarrationUtf8BytesMaximum limits"
    and "addSafe (totalSentenceCount g) (sentenceCount m) = Inr sentences"
  shows "packed_front ut scan limits \<lparr>startUnitIndex = e, producedSegments = producedSegments g @ [x],
     totalNarrationCodePoints = cps, totalNarrationUtf8Bytes = bytes, totalSentenceCount = sentences\<rparr>"
  using assms
  by (auto simp: packed_front_def addSafe_Inr is_segment_def report_of_def intro!: covers_snoc)

lemma yields_packSegments:
  assumes ready: "ready ut scan ctx"
  shows "packed_front ut scan limits g \<Longrightarrow> yields (packSegments ob scan ctx limits g) (packed_end ut scan limits)"
proof -
  have scan: "valid_scan scan" and p: "exact_prefix ut scan (length (scanUnits scan)) (contextPrefix ctx)"
    using ready by (simp_all add: ready_def)
  show "packed_front ut scan limits g \<Longrightarrow> yields (packSegments ob scan ctx limits g) (packed_end ut scan limits)"
  proof (induction "length (scanUnits scan) - startUnitIndex g" arbitrary: g rule: less_induct)
  case less
  show ?case
  proof (rule yields_packSegments_round)
    show "packed_end ut scan limits g" if "length (scanUnits scan) \<le> startUnitIndex g"
      using that less.prems by (simp add: packed_end_def slice_def)
    show "packed_end ut scan limits g" if "maximumSegments limits \<le> int (length (producedSegments g))"
      using that less.prems by (simp add: packed_end_def packed_front_def)
    show "packed_end ut scan limits g"
      if "difference (prefixSubstantive (contextPrefix ctx)) (startUnitIndex g) (length (scanUnits scan)) = Inr 0"
        "startUnitIndex g < length (scanUnits scan)"
      using substantive_slice [OF that(1) _ p] that less.prems by (simp add: packed_end_def)
    show "packed_end ut scan limits g"
      if "acceptable ut scan (segmentPolicy limits) (startUnitIndex g) (candidateIndex c)"
        "startUnitIndex g < candidateIndex c"
        "measurementsBetween scan (contextPrefix ctx) (startUnitIndex g) (candidateIndex c) = Inr m"
        "retainedNarrationCodePointsMaximum limits < totalNarrationCodePoints g + narrationCodePoints m \<or>
         retainedNarrationUtf8BytesMaximum limits < totalNarrationUtf8Bytes g + narrationUtf8Bytes m" for c m
      using measurementsBetween_exact [OF that(3) scan p that(2)] that(1,4) less.prems
      by (auto simp: packed_end_def)
    show "yields (selectCandidate ob scan ctx (startUnitIndex g) (segmentPolicy limits))
        (\<lambda>c. acceptable ut scan (segmentPolicy limits) (startUnitIndex g) (candidateIndex c))"
      by (rule yields_selectCandidate [OF ready])
    fix c m cps bytes x sentences
    assume g: "startUnitIndex g < length (scanUnits scan)" "int (length (producedSegments g)) < maximumSegments limits"
      and c: "acceptable ut scan (segmentPolicy limits) (startUnitIndex g) (candidateIndex c)" "startUnitIndex g < candidateIndex c"
      and m: "measurementsBetween scan (contextPrefix ctx) (startUnitIndex g) (candidateIndex c) = Inr m"
      and sums: "addSafe (totalNarrationCodePoints g) (narrationCodePoints m) = Inr cps"
        "addSafe (totalNarrationUtf8Bytes g) (narrationUtf8Bytes m) = Inr bytes"
        "cps \<le> retainedNarrationCodePointsMaximum limits" "bytes \<le> retainedNarrationUtf8BytesMaximum limits"
        "addSafe (totalSentenceCount g) (sentenceCount m) = Inr sentences"
      and str: "concat (map unit_text (slice (scanUnits scan) (startUnitIndex g) (candidateIndex c))) \<noteq> []"
      and x: "packedSegment scan (startUnitIndex g) c m
        (concat (map unit_text (slice (scanUnits scan) (startUnitIndex g) (candidateIndex c)))) = Inr x"
    have exact: "m = slice_measurements ut scan (startUnitIndex g) (candidateIndex c)"
      using measurementsBetween_exact [OF m scan p c(2)] by simp
    have seg: "is_segment ut scan (segmentPolicy limits) (startUnitIndex g) (candidateIndex c) x"
      by (rule packedSegment_exact [OF x scan c(1) exact refl str])
    show "yields (packSegments ob scan ctx limits \<lparr>startUnitIndex = candidateIndex c, producedSegments = producedSegments g @ [x],
         totalNarrationCodePoints = cps, totalNarrationUtf8Bytes = bytes, totalSentenceCount = sentences\<rparr>)
       (packed_end ut scan limits)"
      by (rule less.hyps)
        (use g(1) c(2) packed_front_snoc [OF less.prems seg g(2) exact] sums in simp_all)
  qed
qed
qed

end
