(* ===== verification/Packer_Theorems.thy ===== *)
theory Packer_Theorems
  imports Packer_Segments
begin

text \<open>
  The properties of \<open>packNarrationBoundaryScan\<close> as its callers see it: what the segments of a packed
  block are, what a complete or an incomplete block means, and that neither the number of segments asked
  for nor the accounting of work changes how a block is cut.
\<close>

section \<open>Limits\<close>

definition limits_wf :: "packing_limits \<Rightarrow> bool" where
  "limits_wf l \<longleftrightarrow> 1 \<le> maximumSegments l \<and> maximumSegments l \<le> retainedSegmentEntriesHardMaximum \<and>
     narrationCodePointsHardMaximum (segmentPolicy l) \<le> retainedNarrationCodePointsMaximum l \<and>
     narrationUtf8BytesHardMaximum (segmentPolicy l) \<le> retainedNarrationUtf8BytesMaximum l \<and>
     0 \<le> retainedNarrationCodePointsMaximum l \<and> 0 \<le> retainedNarrationUtf8BytesMaximum l"

lemma resolved_limits_wf: "resolvePackingLimits opts = Inr l \<Longrightarrow> limits_wf l"
  by (auto simp: resolvePackingLimits_def Let_def limits_wf_def narration_constants NARRATION_V1_SEGMENT_POLICY_def
      NARRATION_CHATTERBOX_V1_SEGMENT_POLICY_def NARRATION_PIPER_V1_SEGMENT_POLICY_def
      NARRATION_PIPER_V2_SEGMENT_POLICY_def split: if_splits)

section \<open>Drafts\<close>

text \<open>A paragraph that stands for a break between scenes: three asterisks, or one asterism, and nothing else.\<close>

definition scene_break :: "boundary_scan \<Rightarrow> bool" where
  "scene_break scan \<longleftrightarrow> blockKind (scanBlock scan) = ParagraphBlock \<and>
     quoteDepth (scanBlock scan) = 0 \<and> listPathLength (scanBlock scan) = 0 \<and>
     concat (map unit_text (filter isSubstantive (scanUnits scan))) \<in> {SCENE_BREAK_ASTERISKS, SCENE_BREAK_ASTERISM}"

lemma yields_sceneBreakUnits:
  "yields (sceneBreakUnits ob ut us parts n) (\<lambda>b. b \<longrightarrow>
     concat parts @ concat (map unit_text (filter isSubstantive us)) \<in> {SCENE_BREAK_ASTERISKS, SCENE_BREAK_ASTERISM})"
proof (induction us arbitrary: parts n)
  case Nil
  then show ?case by (auto simp: yields_def)
next
  case (Cons u us)
  show ?case
  proof (cases u)
    case (TextUnit str role sp)
    then show ?thesis
      using Cons.IH [of parts n] Cons.IH [of "parts @ [str]"]
      apply (simp only: sceneBreakUnits.simps normalized_unit.case)
      apply (rule yields_andThen [OF yields_any], rule yields_if)
       apply auto[1]
      apply (rule yields_andThen [OF yields_any], rule yields_andThen [OF yields_any], rule yields_if)
       apply (simp add: yields_def)
      apply simp
      done
  next
    case (OmissionUnit r sp)
    then show ?thesis using Cons.IH [of parts n] by (auto simp: yields_def andThen_Inr split: if_splits)
  qed
qed

lemma yields_sceneBreak: "yields (isRecognizedSceneBreak ob ut scan) (\<lambda>b. b \<longrightarrow> scene_break scan)"
  using yields_sceneBreakUnits [of ob ut "scanUnits scan" "[]" 0]
  by (auto simp: isRecognizedSceneBreak_def Let_def scene_break_def yields_def)

definition draft_ok :: "unicode_tables \<Rightarrow> boundary_scan \<Rightarrow> packing_limits \<Rightarrow> packing_draft \<Rightarrow> bool" where
  "draft_ok ut scan limits d \<longleftrightarrow> valid_scan scan \<and> (case d of
     EmptyDraft k \<Rightarrow> k = SceneBreakBlock \<and> scene_break scan \<or>
       k = UnspokenBlock \<and> \<not> list_ex isSubstantive (scanUnits scan)
   | SpokenDraft g \<Rightarrow> list_ex isSubstantive (scanUnits scan) \<and> packed_end ut scan limits g)"

lemma last_substantive:
  assumes "exact_prefix ut scan (length (scanUnits scan)) p"
    and "entryOrFail (prefixSubstantive p) (length (prefixSubstantive p) - 1) = Inr d"
  shows "d \<noteq> 0 \<longleftrightarrow> list_ex isSubstantive (scanUnits scan)"
proof -
  let ?f = "\<lambda>i. if isSubstantive (scanUnits scan ! i) then 1 else 0 :: int"
  have "0 \<le> sum_list (map ?f is) \<and> (sum_list (map ?f is) \<noteq> 0 \<longleftrightarrow> (\<exists>i \<in> set is. isSubstantive (scanUnits scan ! i)))" for "is"
    by (induction "is") auto
  then have "d \<noteq> 0 \<longleftrightarrow> (\<exists>i < length (scanUnits scan). isSubstantive (scanUnits scan ! i))"
    using assms by (auto simp: exact_prefix_def entryOrFail_Inr running_def simp del: upt_Suc)
  also have "\<dots> \<longleftrightarrow> list_ex isSubstantive (scanUnits scan)"
    unfolding list_ex_iff by (metis in_set_conv_nth nth_mem)
  finally show ?thesis .
qed

lemma yields_draftPacking:
  assumes "limits_wf limits"
  shows "yields (draftPacking ob ut scan limits) (draft_ok ut scan limits)"
  unfolding draftPacking_def Let_def
proof (rule yields_andThen [OF yields_validateScan], elim conjE, hypsubst,
    rule yields_andThen [OF yields_packingContext], elim conjE)
  fix ctx :: packing_context
  assume scan: "valid_scan scan"
    and ctx: "exact_prefix ut scan (length (scanUnits scan)) (contextPrefix ctx)"
      "safeBoundaries ctx = map (\<lambda>c. 0 < c \<and> safe_cut ut scan c) [0..<Suc (length (scanUnits scan))]"
  have ready: "ready ut scan ctx" using scan ctx by (simp add: ready_def)
  have start: "packed_front ut scan limits no_segments"
    using assms by (auto simp: packed_front_def no_segments_def limits_wf_def)
  show "yields (andThen (lift (entryOrFail (prefixSubstantive (contextPrefix ctx)) (length (prefixSubstantive (contextPrefix ctx)) - 1)))
      (\<lambda>n. andThen (isRecognizedSceneBreak ob ut scan) (\<lambda>b. if b then ok (EmptyDraft SceneBreakBlock)
         else if n = 0 then ok (EmptyDraft UnspokenBlock)
         else andThen (packSegments ob scan ctx limits no_segments) (\<lambda>g. ok (SpokenDraft g)))))
    (draft_ok ut scan limits)"
    apply (rule yields_andThen [OF yields_lift_eq], rule yields_andThen [OF yields_sceneBreak])
    apply (rule yields_if, rule yields_ok, simp add: draft_ok_def scan)
    apply (rule yields_if, rule yields_ok)
    subgoal using last_substantive [OF ctx(1)] by (auto simp: draft_ok_def scan)
    apply (rule yields_andThen [OF yields_packSegments [OF ready start]], rule yields_ok)
    using last_substantive [OF ctx(1)] by (auto simp: draft_ok_def scan)
qed

section \<open>The packed block\<close>

text \<open>How a block reports the draft it was published from.\<close>

definition reports_draft :: "boundary_scan \<Rightarrow> packing_draft \<Rightarrow> packed_block \<Rightarrow> bool" where
  "reports_draft scan d block \<longleftrightarrow> packedBlock block = scanBlock scan \<and>
     packedSegmentCount block = int (length (packedSegments block)) \<and>
     (case d of
        EmptyDraft k \<Rightarrow> packedDisposition block = k \<and> packedComplete block \<and> packedSegments block = [] \<and>
          sourceCodePointsConsumed block = blockWindowCodePoints (scanBlock scan)
      | SpokenDraft g \<Rightarrow> packedDisposition block = SpokenBlock \<and> packedSegments block = producedSegments g \<and>
          packedComplete block = (startUnitIndex g = length (scanUnits scan)) \<and>
          consumedSource scan (startUnitIndex g) = Inr (sourceCodePointsConsumed block) \<and>
          packedNarrationCodePoints block = totalNarrationCodePoints g \<and>
          packedNarrationUtf8Bytes block = totalNarrationUtf8Bytes g \<and>
          packedSentenceCount block = totalSentenceCount g)"

lemma published_reports:
  "(case d of EmptyDraft k \<Rightarrow> emptyPackedBlock scan k w | SpokenDraft g \<Rightarrow> spokenPackedBlock scan g w) = Inr block \<Longrightarrow>
     reports_draft scan d block"
  by (auto simp: reports_draft_def emptyPackedBlock_def spokenPackedBlock_def bindF_Inr indexFrom_def
      split: packing_draft.splits if_splits)

lemma packUnderController_Inr:
  assumes "packUnderController ut scan limits w = (Inr block, w')"
  obtains d v where "draftPacking observeWork ut scan limits w = (Inr d, v)" "reports_draft scan d block"
  using assms by (auto simp: packUnderController_def andThen_Inr lift_Inr dest: published_reports)

lemma packed_block_draft:
  assumes "packNarrationBoundaryScan ut scan opts op signal rejects = (Inr block, op')"
  obtains limits d where "resolvePackingLimits opts = Inr limits" "limits_wf limits" "draft_ok ut scan limits d"
    "reports_draft scan d block"
proof -
  from assms obtain limits w w' where l: "resolvePackingLimits opts = Inr limits"
      "packUnderController ut scan limits w = (Inr block, w')"
    by (auto simp: packNarrationBoundaryScan_def packNarrationBoundaryScanInternal_def
        split: sum.splits prod.splits narration_failure.splits)
  from packUnderController_Inr [OF l(2)] obtain d v where
    d: "draftPacking observeWork ut scan limits w = (Inr d, v)" "reports_draft scan d block" by blast
  have wf: "limits_wf limits" by (rule resolved_limits_wf [OF l(1)])
  show ?thesis by (rule that [OF l(1) wf yieldsD [OF yields_draftPacking [OF wf] d(1)] d(2)])
qed

lemma consumed_position:
  assumes "valid_scan scan" "s \<le> length (scanUnits scan)" "consumedSource scan s = Inr n"
  shows "n = int s"
proof (cases "s = length (scanUnits scan)")
  case True
  with assms show ?thesis by (auto simp: consumedSource_def valid_scan_def malformedBlock_def)
next
  case False
  then have "scanUnits scan \<noteq> []" using assms(2) by auto
  with assms False show ?thesis by (auto simp: consumedSource_def bindF_Inr sourceOffsetAt_valid)
qed

text \<open>The number of source code points a block's segments account for, from the block's own start.\<close>

definition narrated_units :: "packed_block \<Rightarrow> nat" where
  "narrated_units block = (if packedDisposition block = SpokenBlock then nat (sourceCodePointsConsumed block) else 0)"

text \<open>
  C10. The segments of a packed block cut it from its start without gap or overlap: segment after
  segment, the text is the concatenation of the block's units from where the previous segment ended,
  the source span is exactly those units, the reported measurements are those of these units, and each
  segment is within every hard maximum of the policy in use, ends neither inside a protected token nor
  before a combining mark, and speaks something. There are at most as many segments as asked for, and
  what they speak stays within the retention limits.
\<close>

theorem segments_cut_the_block:
  assumes "packNarrationBoundaryScan ut scan opts op signal rejects = (Inr block, op')"
  shows "\<exists>limits. resolvePackingLimits opts = Inr limits \<and>
    covers (is_segment ut scan (segmentPolicy limits)) 0 (packedSegments block) (narrated_units block) \<and>
    narrated_units block \<le> length (scanUnits scan) \<and>
    int (length (packedSegments block)) \<le> maximumSegments limits \<and>
    sum_list (map (reportNarrationCodePoints \<circ> packedReport) (packedSegments block)) \<le> retainedNarrationCodePointsMaximum limits \<and>
    sum_list (map (reportNarrationUtf8Bytes \<circ> packedReport) (packedSegments block)) \<le> retainedNarrationUtf8BytesMaximum limits"
proof -
  obtain limits d where l: "resolvePackingLimits opts = Inr limits" "limits_wf limits"
    and d: "draft_ok ut scan limits d" "reports_draft scan d block"
    using packed_block_draft [OF assms] .
  show ?thesis
  proof (cases d)
    case (SpokenDraft g)
    with d have scan: "valid_scan scan" and g: "packed_front ut scan limits g"
      by (simp_all add: draft_ok_def packed_end_def)
    have "consumedSource scan (startUnitIndex g) = Inr (sourceCodePointsConsumed block)"
      using d(2) SpokenDraft by (simp add: reports_draft_def)
    then have "sourceCodePointsConsumed block = int (startUnitIndex g)"
      using consumed_position [OF scan] g by (simp add: packed_front_def)
    then show ?thesis
      using l d g SpokenDraft by (auto simp: reports_draft_def packed_front_def narrated_units_def)
  qed (use l d in \<open>auto simp: reports_draft_def draft_ok_def limits_wf_def narrated_units_def\<close>)
qed

text \<open>
  C11. A complete spoken block is spoken in full: the texts of its segments, in order, are exactly the
  normalized text of the block, and the segments account for the whole source window.
\<close>

theorem complete_block_spoken_in_full:
  assumes "packNarrationBoundaryScan ut scan opts op signal rejects = (Inr block, op')"
    and "packedDisposition block = SpokenBlock" and "packedComplete block"
  shows "concat (map packedText (packedSegments block)) = scanText scan \<and>
    narrated_units block = length (scanUnits scan) \<and>
    sourceEndOffset (scanBlock scan) = sourceStartOffset (scanBlock scan) + sourceCodePointsConsumed block"
proof -
  obtain limits d where l: "resolvePackingLimits opts = Inr limits" "limits_wf limits"
    and d: "draft_ok ut scan limits d" "reports_draft scan d block"
    using packed_block_draft [OF assms(1)] .
  then obtain g where g: "d = SpokenDraft g" using assms(2)
    by (cases d) (auto simp: draft_ok_def reports_draft_def)
  with d assms(3) have scan: "valid_scan scan" and front: "packed_front ut scan limits g"
    and full: "startUnitIndex g = length (scanUnits scan)"
    and consumed: "consumedSource scan (startUnitIndex g) = Inr (sourceCodePointsConsumed block)"
    by (auto simp: draft_ok_def packed_end_def reports_draft_def)
  have n: "sourceCodePointsConsumed block = int (length (scanUnits scan))"
    using consumed_position [OF scan _ consumed] full by simp
  have "concat (map packedText (producedSegments g)) = concat (map unit_text (slice (scanUnits scan) 0 (length (scanUnits scan))))"
    by (rule covers_text [of "is_segment ut scan (segmentPolicy limits)"])
      (use front full in \<open>auto simp: packed_front_def is_segment_def\<close>)
  then show ?thesis
    using scan n d g assms(2) by (simp add: slice_all valid_scan_def reports_draft_def narrated_units_def)
qed

lemma first_segment_fits:
  assumes "acceptable ut scan p 0 c" and "narrationCodePointsHardMaximum p \<le> cps" and "narrationUtf8BytesHardMaximum p \<le> bytes"
  shows "narrationCodePoints (slice_measurements ut scan 0 c) \<le> cps \<and> narrationUtf8Bytes (slice_measurements ut scan 0 c) \<le> bytes"
  using assms by (auto simp: acceptable_def withinHardMaximum_def)

text \<open>
  C12. Packing makes progress: a spoken block has at least one segment, and whatever source it leaves
  has nothing to speak, or as many segments as asked for were produced, or every limit allowed the
  next segment except that it would pass what a batch may retain.
\<close>

theorem spoken_block_makes_progress:
  assumes "packNarrationBoundaryScan ut scan opts op signal rejects = (Inr block, op')"
    and "packedDisposition block = SpokenBlock"
  shows "packedSegments block \<noteq> [] \<and> (\<exists>limits. resolvePackingLimits opts = Inr limits \<and>
    (\<not> list_ex isSubstantive (slice (scanUnits scan) (narrated_units block) (length (scanUnits scan))) \<or>
     int (length (packedSegments block)) = maximumSegments limits \<or>
     (\<exists>c \<le> length (scanUnits scan). acceptable ut scan (segmentPolicy limits) (narrated_units block) c \<and>
       (retainedNarrationCodePointsMaximum limits < packedNarrationCodePoints block +
          narrationCodePoints (slice_measurements ut scan (narrated_units block) c) \<or>
        retainedNarrationUtf8BytesMaximum limits < packedNarrationUtf8Bytes block +
          narrationUtf8Bytes (slice_measurements ut scan (narrated_units block) c)))))"
proof -
  obtain limits d where l: "resolvePackingLimits opts = Inr limits" "limits_wf limits"
    and d: "draft_ok ut scan limits d" "reports_draft scan d block"
    using packed_block_draft [OF assms(1)] .
  then obtain g where g: "d = SpokenDraft g" using assms(2)
    by (cases d) (auto simp: draft_ok_def reports_draft_def)
  with d have scan: "valid_scan scan" and front: "packed_front ut scan limits g"
    and stop: "packed_end ut scan limits g" and speak: "list_ex isSubstantive (scanUnits scan)"
    and consumed: "consumedSource scan (startUnitIndex g) = Inr (sourceCodePointsConsumed block)"
    and b: "packedSegments block = producedSegments g" "packedNarrationCodePoints block = totalNarrationCodePoints g"
      "packedNarrationUtf8Bytes block = totalNarrationUtf8Bytes g"
    by (auto simp: draft_ok_def packed_end_def reports_draft_def)
  have n: "narrated_units block = startUnitIndex g"
    using consumed_position [OF scan _ consumed] front assms(2) by (simp add: packed_front_def narrated_units_def)
  have "producedSegments g \<noteq> []"
  proof
    assume none: "producedSegments g = []"
    with front have zero: "startUnitIndex g = 0" "totalNarrationCodePoints g = 0" "totalNarrationUtf8Bytes g = 0"
      by (simp_all add: packed_front_def)
    from stop speak none l(2) obtain c where "acceptable ut scan (segmentPolicy limits) 0 c"
        "retainedNarrationCodePointsMaximum limits < narrationCodePoints (slice_measurements ut scan 0 c) \<or>
         retainedNarrationUtf8BytesMaximum limits < narrationUtf8Bytes (slice_measurements ut scan 0 c)"
      by (auto simp: packed_end_def zero slice_all limits_wf_def)
    with first_segment_fits [of ut scan _ c] l(2) show False by (fastforce simp: limits_wf_def)
  qed
  with l(1) b n stop show ?thesis by (auto simp: packed_end_def)
qed

section \<open>Batch size\<close>

text \<open>The same packing, asked for at most \<open>k\<close> segments.\<close>

definition at_most :: "int \<Rightarrow> packing_limits \<Rightarrow> packing_limits" where
  "at_most k limits = limits\<lparr>maximumSegments := k\<rparr>"

definition agrees_on_prefix :: "int \<Rightarrow> narration_failure + packing_progress \<Rightarrow> narration_failure + packing_progress \<Rightarrow> bool" where
  "agrees_on_prefix k r r' \<longleftrightarrow> (case r of Inl _ \<Rightarrow> True | Inr g \<Rightarrow>
     (case r' of Inl _ \<Rightarrow> False | Inr g' \<Rightarrow> producedSegments g' = take (nat k) (producedSegments g)))"

lemma segments_only_grow:
  "yields (packSegments ob scan ctx limits g) (\<lambda>g'. \<exists>xs. producedSegments g' = producedSegments g @ xs)"
proof (induction "length (scanUnits scan) - startUnitIndex g" arbitrary: g rule: less_induct)
  case less
  show ?case
  proof (rule yields_packSegments_round [where A = "\<lambda>_. True"], goal_cases)
    case 5
    show ?case by (rule yields_any)
  next
    case (6 c m cps bytes x sentences)
    let ?g = "\<lparr>startUnitIndex = candidateIndex c, producedSegments = producedSegments g @ [x],
        totalNarrationCodePoints = cps, totalNarrationUtf8Bytes = bytes, totalSentenceCount = sentences\<rparr>"
    have "yields (packSegments ob scan ctx limits ?g) (\<lambda>g'. \<exists>xs. producedSegments g' = producedSegments ?g @ xs)"
      by (rule less) (use 6 in simp)
    then show ?case by (rule yields_mono) auto
  qed auto
qed

lemma agrees_refl_raise: "agrees_on_prefix k (Inl e) r"
  by (simp add: agrees_on_prefix_def)

abbreviation outcome :: "(unit, 'e, 'a) prog \<Rightarrow> 'e + 'a" where
  "outcome m \<equiv> fst (m ())"

lemma outcome_andThen:
  "outcome (andThen m f) = (case outcome m of Inl e \<Rightarrow> Inl e | Inr x \<Rightarrow> outcome (f x))"
  by (simp add: andThen_def split: prod.split sum.split)

lemma outcome_andThen_Inr: "outcome (andThen m f) = Inr y \<longleftrightarrow> (\<exists>x. outcome m = Inr x \<and> outcome (f x) = Inr y)"
  by (auto simp: outcome_andThen split: sum.splits)

lemma agrees_andThen:
  "(\<And>x. outcome m = Inr x \<Longrightarrow> agrees_on_prefix k (outcome (f x)) (outcome (f' x))) \<Longrightarrow>
     agrees_on_prefix k (outcome (andThen m f)) (outcome (andThen m f'))"
  by (cases "outcome m") (simp_all add: outcome_andThen agrees_refl_raise)

lemma agrees_if:
  "(b \<Longrightarrow> agrees_on_prefix k (outcome m) (outcome m')) \<Longrightarrow> (\<not> b \<Longrightarrow> agrees_on_prefix k (outcome n) (outcome n')) \<Longrightarrow>
     agrees_on_prefix k (outcome (if b then m else n)) (outcome (if b then m' else n'))"
  by simp

lemma agrees_ok:
  "int (length (producedSegments g)) \<le> k \<Longrightarrow> agrees_on_prefix k (outcome (ok g)) (outcome (ok g))"
  by (simp add: agrees_on_prefix_def)

lemma packSegments_enough:
  assumes "int (length (producedSegments g)) = k"
  shows "agrees_on_prefix k (outcome (packSegments (ok ()) scan ctx limits g)) (outcome (packSegments (ok ()) scan ctx (at_most k limits) g))"
proof -
  have enough: "outcome (packSegments (ok ()) scan ctx (at_most k limits) g) = Inr g"
    using assms by (subst packSegments.simps) (simp add: at_most_def outcome_andThen)
  obtain r where r: "packSegments (ok ()) scan ctx limits g () = (r, ())" by (metis old.prod.exhaust unit.exhaust)
  show ?thesis
    using enough r assms yieldsD [OF segments_only_grow, of "ok ()" scan ctx limits g]
    by (cases r) (fastforce simp: agrees_on_prefix_def)+
qed

lemma packSegments_prefix:
  assumes "k \<le> maximumSegments limits"
  shows "int (length (producedSegments g)) \<le> k \<Longrightarrow>
    agrees_on_prefix k (outcome (packSegments (ok ()) scan ctx limits g)) (outcome (packSegments (ok ()) scan ctx (at_most k limits) g))"
proof (induction "length (scanUnits scan) - startUnitIndex g" arbitrary: g rule: less_induct)
  case less
  show ?case
  proof (cases "int (length (producedSegments g)) = k")
    case True
    then show ?thesis by (rule packSegments_enough)
  next
    case False
    then have lt: "int (length (producedSegments g)) < k" using less.prems by simp
    have same: "segmentPolicy (at_most k limits) = segmentPolicy limits"
      "retainedNarrationCodePointsMaximum (at_most k limits) = retainedNarrationCodePointsMaximum limits"
      "retainedNarrationUtf8BytesMaximum (at_most k limits) = retainedNarrationUtf8BytesMaximum limits"
      "(maximumSegments (at_most k limits) \<le> int (length (producedSegments g))) = False"
      "(maximumSegments limits \<le> int (length (producedSegments g))) = False"
      using lt assms by (simp_all add: at_most_def)
    show ?thesis
      apply (subst packSegments.simps)
      apply (subst packSegments.simps [of _ _ _ "at_most k limits"])
      apply (simp only: same if_False)
      apply (intro agrees_if agrees_andThen agrees_ok less.hyps; (simp add: agrees_refl_raise)?)
      using lt by simp_all
  qed
qed

lemma same_result: "r = Inr x \<Longrightarrow> r = Inr y \<Longrightarrow> x = y"
  by simp

lemma draft_prefix:
  assumes "k \<le> maximumSegments limits" and "0 \<le> k"
    and "outcome (draftPacking (ok ()) ut scan limits) = Inr d" and "outcome (draftPacking (ok ()) ut scan (at_most k limits)) = Inr d'"
  shows "case d of EmptyDraft x \<Rightarrow> d' = EmptyDraft x
    | SpokenDraft g \<Rightarrow> \<exists>g'. d' = SpokenDraft g' \<and> producedSegments g' = take (nat k) (producedSegments g)"
proof -
  have start: "int (length (producedSegments no_segments)) \<le> k" using assms(2) by (simp add: no_segments_def)
  from assms(3) [unfolded draftPacking_def Let_def outcome_andThen_Inr] obtain v ctx n b where
    one: "outcome (validateScan (ok ()) ut scan) = Inr v" "outcome (packingContext (ok ()) ut scan v) = Inr ctx"
      "outcome (lift (entryOrFail (prefixSubstantive (contextPrefix ctx)) (length (prefixSubstantive (contextPrefix ctx)) - 1))) = Inr n"
      "outcome (isRecognizedSceneBreak (ok ()) ut scan) = Inr b"
      "outcome (if b then ok (EmptyDraft SceneBreakBlock) else if n = 0 then ok (EmptyDraft UnspokenBlock)
      else andThen (packSegments (ok ()) scan ctx limits no_segments) (\<lambda>g. ok (SpokenDraft g))) = Inr d"
    by blast
  from assms(4) [unfolded draftPacking_def Let_def outcome_andThen_Inr] obtain v' ctx' n' b' where
    two: "outcome (validateScan (ok ()) ut scan) = Inr v'" "outcome (packingContext (ok ()) ut scan v') = Inr ctx'"
      "outcome (lift (entryOrFail (prefixSubstantive (contextPrefix ctx')) (length (prefixSubstantive (contextPrefix ctx')) - 1))) = Inr n'"
      "outcome (isRecognizedSceneBreak (ok ()) ut scan) = Inr b'"
      "outcome (if b' then ok (EmptyDraft SceneBreakBlock) else if n' = 0 then ok (EmptyDraft UnspokenBlock)
      else andThen (packSegments (ok ()) scan ctx' (at_most k limits) no_segments) (\<lambda>g. ok (SpokenDraft g))) = Inr d'"
    by blast
  have v: "v' = v" by (rule same_result [OF two(1) one(1)])
  have ctx: "ctx' = ctx" by (rule same_result [OF two(2) [unfolded v] one(2)])
  have n: "n' = n" by (rule same_result [OF two(3) [unfolded ctx] one(3)])
  have b: "b' = b" by (rule same_result [OF two(4) one(4)])
  have d: "outcome (if b then ok (EmptyDraft SceneBreakBlock) else if n = 0 then ok (EmptyDraft UnspokenBlock)
      else andThen (packSegments (ok ()) scan ctx limits no_segments) (\<lambda>g. ok (SpokenDraft g))) = Inr d"
    and d': "outcome (if b then ok (EmptyDraft SceneBreakBlock) else if n = 0 then ok (EmptyDraft UnspokenBlock)
      else andThen (packSegments (ok ()) scan ctx (at_most k limits) no_segments) (\<lambda>g. ok (SpokenDraft g))) = Inr d'"
    by (rule one(5), rule two(5) [unfolded ctx n b])
  show ?thesis
  proof (cases "b \<or> n = 0")
    case False
    with d d' obtain g g' where "outcome (packSegments (ok ()) scan ctx limits no_segments) = Inr g" "d = SpokenDraft g"
        "outcome (packSegments (ok ()) scan ctx (at_most k limits) no_segments) = Inr g'" "d' = SpokenDraft g'"
      by (auto simp: outcome_andThen_Inr)
    then show ?thesis
      using packSegments_prefix [OF assms(1) start, of scan ctx] by (simp add: agrees_on_prefix_def)
  qed (use d d' in \<open>auto split: if_splits\<close>)
qed

text \<open>The controller as an observer: it keeps its invariant and never replaces its signal or scheduler.\<close>

definition controlled :: "(nat \<Rightarrow> bool) \<Rightarrow> (nat \<Rightarrow> bool) \<Rightarrow> bool \<Rightarrow> work \<Rightarrow> bool" where
  "controlled signal rejects budgeted w \<longleftrightarrow> work_wf w \<and> signalAborted w = signal \<and> schedulerRejects w = rejects \<and>
     (operation w \<noteq> None) = budgeted"

interpretation controller: observer observeWork "controlled signal rejects budgeted" for signal rejects budgeted
proof
  fix s u t
  assume "controlled signal rejects budgeted s" "observeWork s = (Inr u, t)"
  then have "work_wf s" "observed 1 s t" by (auto simp: controlled_def observeWork_def intro: observe_success)
  with \<open>controlled signal rejects budgeted s\<close> show "controlled signal rejects budgeted t"
    by (auto simp: controlled_def observed_def same_signals_def charged_by_def split: option.splits)
qed

lemma created_controller:
  assumes "createWorkController op signal rejects = Inr w" and "case op of None \<Rightarrow> True | Some b \<Rightarrow> operation_wf b"
  shows "controlled signal rejects (op \<noteq> None) w"
  using assms
  by (auto simp: createWorkController_def assertActive_def controlled_def work_wf_def narration_constants
      safe_integer_def MAX_SAFE_INTEGER_def split: if_splits option.splits)

lemma controlled_draft:
  assumes "controlled signal rejects budgeted w" and "draftPacking observeWork ut scan limits w = (Inr d, w')"
  shows "outcome (draftPacking (ok ()) ut scan limits) = Inr d"
  using controller.follows_draftPacking [of signal rejects budgeted ut scan limits] assms
  unfolding follows_def by (metis fst_conv Inl_Inr_False prod.inject)

lemma packed_under_control:
  assumes "packNarrationBoundaryScan ut scan opts op signal rejects = (Inr block, op')"
    and "case op of None \<Rightarrow> True | Some b \<Rightarrow> operation_wf b"
  obtains limits d where "resolvePackingLimits opts = Inr limits"
    "outcome (draftPacking (ok ()) ut scan limits) = Inr d" "reports_draft scan d block"
proof -
  from assms(1) obtain limits w w' where l: "resolvePackingLimits opts = Inr limits"
      "createWorkController op signal rejects = Inr w" "packUnderController ut scan limits w = (Inr block, w')"
    by (auto simp: packNarrationBoundaryScan_def packNarrationBoundaryScanInternal_def
        split: sum.splits prod.splits narration_failure.splits)
  from packUnderController_Inr [OF l(3)] obtain d v where
    d: "draftPacking observeWork ut scan limits w = (Inr d, v)" "reports_draft scan d block" by blast
  from controlled_draft [OF created_controller [OF l(2) assms(2)] d(1)] show ?thesis using that l(1) d(2) by blast
qed

text \<open>
  C13. Neither the number of segments asked for nor the accounting of work ever moves a cut: two
  packings of the same scan that differ in how many segments they may return, and run under different
  budgets, abort signals and yield schedulers, agree whenever both succeed, the smaller one being a
  prefix of the larger, with the same disposition.
\<close>

theorem batch_size_never_moves_a_cut:
  assumes "packNarrationBoundaryScan ut scan opts op signal rejects = (Inr block, op1)"
    and "packNarrationBoundaryScan ut scan (opts\<lparr>maximumSegmentsOption := Some (Integral k)\<rparr>) op' signal' rejects' = (Inr block', op2)"
    and "\<forall>b. op = Some b \<or> op' = Some b \<longrightarrow> operation_wf b"
    and "\<forall>limits. resolvePackingLimits opts = Inr limits \<longrightarrow> k \<le> maximumSegments limits"
  shows "packedSegments block' = take (nat k) (packedSegments block) \<and> packedDisposition block' = packedDisposition block"
proof -
  have wf: "case op of None \<Rightarrow> True | Some b \<Rightarrow> operation_wf b" "case op' of None \<Rightarrow> True | Some b \<Rightarrow> operation_wf b"
    using assms(3) by (auto split: option.split)
  from packed_under_control [OF assms(1) wf(1)] obtain limits d where l: "resolvePackingLimits opts = Inr limits"
    and d: "outcome (draftPacking (ok ()) ut scan limits) = Inr d" "reports_draft scan d block" .
  from packed_under_control [OF assms(2) wf(2)] obtain limits' d' where
    l': "resolvePackingLimits (opts\<lparr>maximumSegmentsOption := Some (Integral k)\<rparr>) = Inr limits'"
    and d': "outcome (draftPacking (ok ()) ut scan limits') = Inr d'" "reports_draft scan d' block'" .
  have eq: "limits' = at_most k limits" "0 \<le> k"
    using l l' by (auto simp: resolvePackingLimits_def Let_def at_most_def split: if_splits)
  have "k \<le> maximumSegments limits" using assms(4) l by simp
  from draft_prefix [OF this eq(2) d(1)] d'(1) eq(1) d(2) d'(2) show ?thesis
    by (cases d) (auto simp: reports_draft_def)
qed

section \<open>A packed example\<close>

definition sample_tables :: unicode_tables where
  "sample_tables = \<lparr>is_mark = (\<lambda>c. c = 0x301), is_currency_symbol = (\<lambda>c. c = 0x24), is_uppercase_letter = (\<lambda>c. c = 0x41)\<rparr>"

definition sample_scan :: boundary_scan where
  "sample_scan = \<lparr>scanBlock = \<lparr>blockKind = ParagraphBlock, blockSourceCodePoints = 4, sourceStartOffset = 0,
       sourceEndOffset = 4, blockWindowCodePoints = 4, quoteDepth = 0, listPathLength = 0\<rparr>,
     scanUnits = [TextUnit [0x41] RolePreserved \<lparr>startOffsetCodePoints = 0, endOffsetCodePoints = 1\<rparr>,
       TextUnit [0x2E] RolePunctuation \<lparr>startOffsetCodePoints = 1, endOffsetCodePoints = 2\<rparr>,
       OmissionUnit SoftHyphen \<lparr>startOffsetCodePoints = 2, endOffsetCodePoints = 3\<rparr>,
       TextUnit [0x42] RolePreserved \<lparr>startOffsetCodePoints = 3, endOffsetCodePoints = 4\<rparr>],
     scanText = [0x41, 0x2E, 0x42],
     scanBoundaries = [\<lparr>boundaryKind = DialogueTurnBoundary, unitIndexExclusive = 2, boundarySourceOffset = 2\<rparr>],
     scanProtectedTokens = []\<rparr>"

definition default_options :: packing_options where
  "default_options = \<lparr>maximumSegmentsOption = None, retainedCodePointsOption = None, retainedUtf8BytesOption = None,
     segmentPolicyOption = None\<rparr>"

definition sample_packing :: "packing_options \<Rightarrow> (epub_error + packed_block) \<times> operation_budget option" where
  "sample_packing opts = packNarrationBoundaryScan sample_tables sample_scan opts None (\<lambda>_. False) (\<lambda>_. False)"

definition one_segment :: packing_options where
  "one_segment = default_options\<lparr>maximumSegmentsOption := Some (Integral 1)\<rparr>"

lemma sample_packed_value:
  "case fst (sample_packing default_options) of Inr block \<Rightarrow>
     packedDisposition block = SpokenBlock \<and> packedComplete block \<and> length (packedSegments block) = 2 | Inl _ \<Rightarrow> False"
  by code_simp

lemma sample_first_value:
  "case fst (sample_packing one_segment) of Inr block \<Rightarrow>
     packedDisposition block = SpokenBlock \<and> length (packedSegments block) = 1 | Inl _ \<Rightarrow> False"
  by code_simp

lemma sample_packed:
  obtains block b where "packNarrationBoundaryScan sample_tables sample_scan default_options None (\<lambda>_. False) (\<lambda>_. False) = (Inr block, b)"
    "packedDisposition block = SpokenBlock" "packedComplete block" "length (packedSegments block) = 2"
  using sample_packed_value unfolding sample_packing_def by (auto split: sum.splits prod.splits simp: fst_def)

lemma sample_first:
  obtains block b where "packNarrationBoundaryScan sample_tables sample_scan
      (default_options\<lparr>maximumSegmentsOption := Some (Integral 1)\<rparr>) None (\<lambda>_. False) (\<lambda>_. False) = (Inr block, b)"
    "length (packedSegments block) = 1"
  using sample_first_value unfolding sample_packing_def one_segment_def by (auto split: sum.splits prod.splits simp: fst_def)

theorem segments_cut_the_block_witness:
  "\<exists>block. length (packedSegments block) = 2 \<and>
    covers (is_segment sample_tables sample_scan NARRATION_V1_SEGMENT_POLICY) 0 (packedSegments block) (narrated_units block)"
proof -
  obtain block b where b: "packNarrationBoundaryScan sample_tables sample_scan default_options None (\<lambda>_. False) (\<lambda>_. False) = (Inr block, b)"
    "length (packedSegments block) = 2" using sample_packed .
  have "resolvePackingLimits default_options = Inr l \<Longrightarrow> segmentPolicy l = NARRATION_V1_SEGMENT_POLICY" for l
    by (auto simp: resolvePackingLimits_def default_options_def Let_def split: if_splits)
  with segments_cut_the_block [OF b(1)] b(2) show ?thesis by auto
qed

theorem complete_block_spoken_in_full_witness:
  "\<exists>block :: packed_block. length (packedSegments block) = 2 \<and> concat (map packedText (packedSegments block)) = [0x41, 0x2E, 0x42]"
proof -
  obtain block b where b: "packNarrationBoundaryScan sample_tables sample_scan default_options None (\<lambda>_. False) (\<lambda>_. False) = (Inr block, b)"
    "packedDisposition block = SpokenBlock" "packedComplete block" "length (packedSegments block) = 2" using sample_packed .
  from complete_block_spoken_in_full [OF b(1-3)] b(4) show ?thesis by (auto simp: sample_scan_def)
qed

theorem spoken_block_makes_progress_witness:
  "\<exists>block b. packNarrationBoundaryScan sample_tables sample_scan default_options None (\<lambda>_. False) (\<lambda>_. False) = (Inr block, b) \<and>
     packedSegments block \<noteq> []"
proof -
  obtain block b where b: "packNarrationBoundaryScan sample_tables sample_scan default_options None (\<lambda>_. False) (\<lambda>_. False) = (Inr block, b)"
    "packedDisposition block = SpokenBlock" using sample_packed .
  from spoken_block_makes_progress [OF b] b(1) show ?thesis by blast
qed

theorem batch_size_never_moves_a_cut_witness:
  "\<exists>(block :: packed_block) (block' :: packed_block). length (packedSegments block) = 2 \<and> length (packedSegments block') = 1 \<and>
     packedSegments block' = take 1 (packedSegments block)"
proof -
  obtain block b where b: "packNarrationBoundaryScan sample_tables sample_scan default_options None (\<lambda>_. False) (\<lambda>_. False) = (Inr block, b)"
    "length (packedSegments block) = 2" using sample_packed .
  obtain block' b' where b': "packNarrationBoundaryScan sample_tables sample_scan
      (default_options\<lparr>maximumSegmentsOption := Some (Integral 1)\<rparr>) None (\<lambda>_. False) (\<lambda>_. False) = (Inr block', b')"
    "length (packedSegments block') = 1" using sample_first .
  have "packedSegments block' = take (nat 1) (packedSegments block) \<and> packedDisposition block' = packedDisposition block"
    by (rule batch_size_never_moves_a_cut [OF b(1) b'(1)])
      (auto dest!: resolved_limits_wf simp: limits_wf_def)
  with b(2) b'(2) show ?thesis by (intro exI [of _ block] exI [of _ block']) auto
qed

end
