(* ===== verification/Locator_Index.thy ===== *)
theory Locator_Index
  imports Locator_Contract Processing_Budget
begin

text \<open>
  packages/epub/src/locator/locator-index.ts over the semantic documents of
  packages/epub/src/document/document-model.ts: every addressable block of a publication gets a
  canonical start locator and the length of its text. The source compares blocks by object identity;
  each block here carries the identity of its object, and two blocks are equal exactly when they are
  the same object.
\<close>

section \<open>Semantic documents\<close>

datatype semantic_inline =
    InlineText js_string
  | InlineEmphasis "semantic_inline list"
  | InlineStrong "semantic_inline list"
  | InlineCode "semantic_inline list"
  | InlineLineBreak
  | InlineLink js_string "js_string option" "semantic_inline list"
  | InlineImage js_string "js_string option"

datatype semantic_block =
    SemanticHeading (blockObject: nat) nat "semantic_inline list"
  | SemanticParagraph (blockObject: nat) "semantic_inline list"
  | SemanticQuote (blockObject: nat) "semantic_block list"
  | SemanticList (blockObject: nat) bool "semantic_block list list"

datatype document_location = SpineLocation js_string int | NonSpineLocation

record semantic_document =
  documentId :: js_string
  documentLocation :: document_location
  documentBlocks :: "semantic_block list"

record projected_block =
  projectedBlock :: semantic_block
  sourceElementId :: "js_string option"

record document_projection =
  projectedDocument :: semantic_document
  addressableBlocks :: "projected_block list"

record spine_item =
  spineId :: js_string
  spineIndex :: int

record publication_book =
  publicationIdentity :: book_identity
  publicationSpine :: "spine_item list"

record located_block =
  locatedDocument :: js_string
  locatedBlock :: semantic_block
  startLocator :: reading_locator
  textLengthCodePoints :: int

record located_spine =
  locatedSpineId :: js_string
  locatedSpineIndex :: int
  locatedBlocks :: "located_block list"

record locator_index =
  indexIdentity :: book_identity
  indexSpines :: "located_spine list"
  indexBlocks :: "located_block list"

section \<open>Locators of blocks\<close>

definition LOCATOR_SCHEMA_VERSION :: int where "LOCATOR_SCHEMA_VERSION = 1"
definition ANCHOR_FORMAT_VERSION :: int where "ANCHOR_FORMAT_VERSION = 1"
definition TEXT_CHECKPOINT_INTERVAL :: int where "TEXT_CHECKPOINT_INTERVAL = 4096"

definition locatorInput :: "publication_book \<Rightarrow> spine_item \<Rightarrow> js_string \<Rightarrow> nat \<Rightarrow> int \<Rightarrow> js_value" where
  "locatorInput book item value i offset = JObject [
     (''schemaVersion'', wire_int LOCATOR_SCHEMA_VERSION),
     (''bookIdentity'', identity_wire (publicationIdentity book)),
     (''spineItemId'', JString (spineId item)), (''spineItemIndex'', wire_int (spineIndex item)),
     (''anchor'', JObject [(''kind'', JString (js ''element-id'')), (''formatVersion'', wire_int ANCHOR_FORMAT_VERSION),
        (''value'', JString value), (''anchorIndex'', wire_int (int i))]),
     (''textOffsetCodePoints'', wire_int offset)]"

definition trySourceLocator ::
    "publication_book \<Rightarrow> spine_item \<Rightarrow> js_string \<Rightarrow> nat \<Rightarrow> epub_error + reading_locator option" where
  "trySourceLocator book item value i =
     (case decodeReadingLocatorV1 (locatorInput book item value i 0) of
        Inr l \<Rightarrow> Inr (Some l)
      | Inl (LocatorContractError _) \<Rightarrow> Inr None
      | Inl PrimitiveError \<Rightarrow> Inl InternalFailure)"

definition createRequiredLocator ::
    "publication_book \<Rightarrow> spine_item \<Rightarrow> js_string \<Rightarrow> nat \<Rightarrow> int \<Rightarrow> epub_error + reading_locator" where
  "createRequiredLocator book item value i offset =
     (case decodeReadingLocatorV1 (locatorInput book item value i offset) of
        Inr l \<Rightarrow> Inr l | Inl _ \<Rightarrow> Inl InternalFailure)"

section \<open>Generated anchors\<close>

text \<open>\<open>String(n)\<close> of a natural number, and the reader that undoes it.\<close>

fun decimal :: "nat \<Rightarrow> js_string" where
  "decimal n = (if n < 10 then [of_nat (48 + n)] else decimal (n div 10) @ [of_nat (48 + n mod 10)])"

declare decimal.simps [simp del]

definition undecimal :: "js_string \<Rightarrow> nat" where
  "undecimal ds = foldl (\<lambda>n d. n * 10 + (unat d - 48)) 0 ds"

lemma digit_value: "k < 10 \<Longrightarrow> unat (of_nat (48 + k) :: 16 word) = 48 + k"
  by (simp add: unat_of_nat del: of_nat_add)

lemma undecimal_decimal: "undecimal (decimal n) = n"
proof (induction n rule: decimal.induct)
  case (1 n)
  then show ?case
    by (subst decimal.simps) (auto simp: undecimal_def digit_value simp del: of_nat_add)
qed

lemma decimal_inject [simp]: "decimal m = decimal n \<longleftrightarrow> m = n"
  by (metis undecimal_decimal)

definition anchor_base :: "int \<Rightarrow> nat \<Rightarrow> js_string" where
  "anchor_base s i = js ''voxleaf-s'' @ decimal (nat s) @ js ''-a'' @ decimal i"

definition collision_candidate :: "js_string \<Rightarrow> nat \<Rightarrow> js_string" where
  "collision_candidate base k = (if k = 0 then base else base @ js ''-'' @ decimal k)"

lemma collision_candidate_inject: "collision_candidate base j = collision_candidate base k \<longleftrightarrow> j = k"
  by (auto simp: collision_candidate_def js_def)

function avoidCollisions :: "js_string \<Rightarrow> js_string list \<Rightarrow> nat \<Rightarrow> js_string budget_prog" where
  "avoidCollisions base reserved k =
     (if collision_candidate base k \<in> set reserved
      then andThen checkpoint (\<lambda>_. avoidCollisions base reserved (k + 1))
      else ok (collision_candidate base k))"
  by auto
termination
proof (relation "measure (\<lambda>(base, reserved, k). card {j. k \<le> j \<and> collision_candidate base j \<in> set reserved})")
  fix base k and reserved :: "js_string list"
  assume hit: "collision_candidate base k \<in> set reserved"
  have "inj_on (collision_candidate base) UNIV" by (auto simp: inj_on_def collision_candidate_inject)
  then have fin: "finite {j. k \<le> j \<and> collision_candidate base j \<in> set reserved}"
    by (intro finite_subset [OF _ finite_vimageI [of "set reserved" "collision_candidate base"]]) auto
  have "{j. k + 1 \<le> j \<and> collision_candidate base j \<in> set reserved} \<subset> {j. k \<le> j \<and> collision_candidate base j \<in> set reserved}"
    using hit by (intro psubsetI) (auto dest!: equalityD2 subsetD [of _ _ k])
  from psubset_card_mono [OF fin this]
  show "((base, reserved, k + 1), base, reserved, k)
      \<in> measure (\<lambda>(base, reserved, k). card {j. k \<le> j \<and> collision_candidate base j \<in> set reserved})"
    by simp
qed simp

declare avoidCollisions.simps [simp del]

definition generatedAnchorValue :: "int \<Rightarrow> nat \<Rightarrow> js_string list \<Rightarrow> js_string budget_prog" where
  "generatedAnchorValue s i reserved = avoidCollisions (anchor_base s i) reserved 0"

section \<open>Text lengths\<close>

fun collectBlock :: "semantic_block \<Rightarrow> semantic_block list" where
  "collectBlock (SemanticQuote b children) = SemanticQuote b children # concat (map collectBlock children)"
| "collectBlock (SemanticList b ordered items) =
     SemanticList b ordered items # concat (map (\<lambda>item. concat (map collectBlock item)) items)"
| "collectBlock (SemanticHeading b level inlines) = [SemanticHeading b level inlines]"
| "collectBlock (SemanticParagraph b inlines) = [SemanticParagraph b inlines]"

definition collectBlocks :: "semantic_block list \<Rightarrow> semantic_block list" where
  "collectBlocks blocks = concat (map collectBlock blocks)"

definition assertProjectionOrder :: "document_projection \<Rightarrow> epub_error + unit" where
  "assertProjectionOrder p =
     (let expected = collectBlocks (documentBlocks (projectedDocument p)) in
      if length expected \<noteq> length (addressableBlocks p) then Inl InternalFailure
      else if list_ex (\<lambda>i. projectedBlock (addressableBlocks p ! i) \<noteq> expected ! i) [0..<length expected]
      then Inl InternalFailure else Inr ())"

text \<open>\<open>text.codePointAt(index)\<close>\<close>

definition codePointAt :: "js_string \<Rightarrow> nat \<Rightarrow> nat option" where
  "codePointAt t i = (if length t \<le> i then None
     else if is_high_surrogate (t ! i) \<and> i + 1 < length t \<and> is_low_surrogate (t ! (i + 1))
     then Some (surrogate_code_point (t ! i) (t ! (i + 1))) else Some (unat (t ! i)))"

function countFrom :: "js_string \<Rightarrow> nat \<Rightarrow> int \<Rightarrow> int budget_prog" where
  "countFrom t i count =
     (if i < length t then
        (case codePointAt t i of None \<Rightarrow> raise InternalFailure
         | Some c \<Rightarrow>
             let i = (if 0xFFFF < c then i + 1 else i); count = count + 1 in
             andThen (if count mod TEXT_CHECKPOINT_INTERVAL = 0 then checkpoint else ok ()) (\<lambda>_.
             countFrom t (i + 1) count))
      else ok count)"
  by auto
termination
  by (relation "measure (\<lambda>(t, i, count). length t - i)") auto

declare countFrom.simps [simp del]

definition countTextCodePoints :: "js_string \<Rightarrow> int budget_prog" where
  "countTextCodePoints t = countFrom t 0 0"

definition addLengths :: "int \<Rightarrow> int \<Rightarrow> epub_error + int" where
  "addLengths l r = (if safe_integer (l + r) then Inr (l + r) else Inl InternalFailure)"

fun inlineLength :: "semantic_inline \<Rightarrow> int budget_prog"
  and inlineTextLengthCodePoints :: "semantic_inline list \<Rightarrow> int \<Rightarrow> int budget_prog" where
  "inlineLength (InlineText t) = countTextCodePoints t"
| "inlineLength InlineLineBreak = ok 1"
| "inlineLength (InlineImage _ _) = ok 1"
| "inlineLength (InlineCode children) = inlineTextLengthCodePoints children 0"
| "inlineLength (InlineEmphasis children) = inlineTextLengthCodePoints children 0"
| "inlineLength (InlineLink _ _ children) = inlineTextLengthCodePoints children 0"
| "inlineLength (InlineStrong children) = inlineTextLengthCodePoints children 0"
| "inlineTextLengthCodePoints [] count = ok count"
| "inlineTextLengthCodePoints (inline # inlines) count =
     andThen checkpoint (\<lambda>_.
     andThen (inlineLength inline) (\<lambda>n.
     andThen (lift (addLengths count n)) (\<lambda>count.
     inlineTextLengthCodePoints inlines count)))"

fun blockTextLengthCodePoints :: "semantic_block \<Rightarrow> int budget_prog" where
  "blockTextLengthCodePoints (SemanticHeading _ _ children) = inlineTextLengthCodePoints children 0"
| "blockTextLengthCodePoints (SemanticParagraph _ children) = inlineTextLengthCodePoints children 0"
| "blockTextLengthCodePoints _ = ok 0"

section \<open>Locating the blocks of a document\<close>

definition sourceCandidateCounts :: "projected_block list \<Rightarrow> js_string \<Rightarrow> nat option" where
  "sourceCandidateCounts blocks = fold (\<lambda>b counts. case sourceElementId b of None \<Rightarrow> counts
     | Some s \<Rightarrow> counts(s \<mapsto> (case counts s of None \<Rightarrow> 0 | Some n \<Rightarrow> n) + 1)) blocks (\<lambda>_. None)"

text \<open>The first pass: source identifiers that are unique in the document and legal as anchors.\<close>

definition sourceLocator ::
    "publication_book \<Rightarrow> spine_item \<Rightarrow> (js_string \<Rightarrow> nat option) \<Rightarrow> nat \<Rightarrow> projected_block \<Rightarrow> epub_error + reading_locator option" where
  "sourceLocator book item counts i b = (case sourceElementId b of
       Some s \<Rightarrow> if counts s = Some 1 then trySourceLocator book item s i else Inr None
     | None \<Rightarrow> Inr None)"

definition collectSourceLocators ::
    "publication_book \<Rightarrow> spine_item \<Rightarrow> projected_block list \<Rightarrow> (reading_locator option list \<times> js_string list) budget_prog" where
  "collectSourceLocators book item blocks =
     foldEach (\<lambda>(i, b) (locators, reserved).
       andThen checkpoint (\<lambda>_.
       andThen (lift (sourceLocator book item (sourceCandidateCounts blocks) i b)) (\<lambda>l.
       ok (locators @ [l], case l of None \<Rightarrow> reserved | Some l \<Rightarrow> anchorValue (anchor l) # reserved))))
     (enumerate 0 blocks) ([], [])"

text \<open>The second pass: a generated anchor for every block that has none, and the length of its text.\<close>

definition blockLocator ::
    "publication_book \<Rightarrow> spine_item \<Rightarrow> nat \<Rightarrow> reading_locator option \<Rightarrow> js_string list \<Rightarrow> (reading_locator \<times> js_string list) budget_prog" where
  "blockLocator book item i l reserved = (case l of
       Some l \<Rightarrow> ok (l, reserved)
     | None \<Rightarrow> andThen (generatedAnchorValue (spineIndex item) i reserved) (\<lambda>generated.
         andThen (lift (createRequiredLocator book item generated i 0)) (\<lambda>l. ok (l, generated # reserved))))"

definition locateBlock ::
    "publication_book \<Rightarrow> spine_item \<Rightarrow> js_string \<Rightarrow> reading_locator option list \<Rightarrow> nat \<times> projected_block \<Rightarrow>
     located_block list \<times> js_string list \<Rightarrow> (located_block list \<times> js_string list) budget_prog" where
  "locateBlock book item document locators = (\<lambda>(i, b) (located, reserved).
     andThen checkpoint (\<lambda>_.
     andThen (blockLocator book item i (locators ! i) reserved) (\<lambda>(l, reserved).
     andThen (blockTextLengthCodePoints (projectedBlock b)) (\<lambda>n.
     ok (located @ [\<lparr>locatedDocument = document, locatedBlock = projectedBlock b, startLocator = l,
       textLengthCodePoints = n\<rparr>], reserved)))))"

definition locateDocumentBlocks ::
    "publication_book \<Rightarrow> spine_item \<Rightarrow> document_projection \<Rightarrow> located_block list budget_prog" where
  "locateDocumentBlocks book item p =
     andThen (lift (assertProjectionOrder p)) (\<lambda>_.
     andThen (collectSourceLocators book item (addressableBlocks p)) (\<lambda>(locators, reserved).
     andThen (foldEach (locateBlock book item (documentId (projectedDocument p)) locators)
       (enumerate 0 (addressableBlocks p)) ([], reserved)) (\<lambda>(located, _). ok located)))"

definition spineItemAt :: "publication_book \<Rightarrow> int \<Rightarrow> spine_item option" where
  "spineItemAt book i = (if 0 \<le> i \<and> nat i < length (publicationSpine book) then Some (publicationSpine book ! nat i) else None)"

definition indexProjection ::
    "publication_book \<Rightarrow> document_projection \<Rightarrow> (int \<Rightarrow> document_projection option) \<Rightarrow> (int \<Rightarrow> document_projection option) budget_prog" where
  "indexProjection book p bySpine =
     andThen checkpoint (\<lambda>_.
     andThen (lift (assertProjectionOrder p)) (\<lambda>_.
     case documentLocation (projectedDocument p) of
       NonSpineLocation \<Rightarrow> ok bySpine
     | SpineLocation item i \<Rightarrow>
         (case spineItemAt book i of
            None \<Rightarrow> raise InternalFailure
          | Some s \<Rightarrow> if spineIndex s \<noteq> i \<or> spineId s \<noteq> item \<or> bySpine i \<noteq> None then raise InternalFailure
              else ok (bySpine(i \<mapsto> p)))))"

definition locateSpineItem ::
    "publication_book \<Rightarrow> (int \<Rightarrow> document_projection option) \<Rightarrow> spine_item \<Rightarrow>
     located_spine list \<times> located_block list \<Rightarrow> (located_spine list \<times> located_block list) budget_prog" where
  "locateSpineItem book bySpine item = (\<lambda>(spines, located).
     andThen checkpoint (\<lambda>_.
     case bySpine (spineIndex item) of
       None \<Rightarrow> raise InternalFailure
     | Some p \<Rightarrow>
         andThen (locateDocumentBlocks book item p) (\<lambda>blocks.
         andThen (foldEach (\<lambda>b acc. andThen checkpoint (\<lambda>_. ok (acc @ [b]))) blocks located) (\<lambda>located.
         ok (spines @ [\<lparr>locatedSpineId = spineId item, locatedSpineIndex = spineIndex item, locatedBlocks = blocks\<rparr>],
             located)))))"

definition createPublicationLocatorIndex ::
    "publication_book \<Rightarrow> document_projection list \<Rightarrow> locator_index budget_prog" where
  "createPublicationLocatorIndex book projections =
     andThen (foldEach (indexProjection book) projections (\<lambda>_. None)) (\<lambda>bySpine.
     andThen (foldEach (locateSpineItem book bySpine) (publicationSpine book) ([], [])) (\<lambda>(spines, blocks).
     ok \<lparr>indexIdentity = publicationIdentity book, indexSpines = spines, indexBlocks = blocks\<rparr>))"

definition createBlockLocatorAtOffset :: "located_block \<Rightarrow> js_number \<Rightarrow> epub_error + reading_locator" where
  "createBlockLocatorAtOffset b offset =
     (if \<not> number_is_count offset \<or> textLengthCodePoints b < integral_part offset then Inl LocatorUnresolved
      else if integral_part offset = 0 then Inr (startLocator b)
      else (case decodeReadingLocatorV1 (locator_wire (startLocator b\<lparr>textOffsetCodePoints := integral_part offset\<rparr>)) of
          Inr l \<Rightarrow> Inr l | Inl _ \<Rightarrow> Inl InternalFailure))"

end
