(* ===== verification/Locator_Resolver.thy ===== *)
theory Locator_Resolver
  imports Locator_Index
begin

text \<open>
  packages/epub/src/locator/locator-resolver.ts: resolving an untrusted locator against the locator
  index of an open publication, exactly or by structural recovery.
\<close>

datatype recovery_reason = NearestAnchor | NearestOffset | NearestSpine | BookStart

datatype locator_resolution =
    ExactResolution (resolvedTo: reading_locator) (resolvedBlock: located_block)
  | RecoveredResolution (recoveryReason: recovery_reason) (resolvedTo: reading_locator) (resolvedBlock: located_block)

definition decodeLocator :: "js_value \<Rightarrow> epub_error + reading_locator" where
  "decodeLocator input = (case decodeReadingLocatorV1 input of
       Inr l \<Rightarrow> Inr l
     | Inl (LocatorContractError _) \<Rightarrow> Inl LocatorUnresolved
     | Inl PrimitiveError \<Rightarrow> Inl InternalFailure)"

fun findMatchingSpine :: "located_spine list \<Rightarrow> reading_locator \<Rightarrow> located_spine option budget_prog" where
  "findMatchingSpine [] l = ok None"
| "findMatchingSpine (s # ss) l =
     andThen checkpoint (\<lambda>_.
     if locatedSpineId s = spineItemId l \<and> locatedSpineIndex s = spineItemIndex l then ok (Some s)
     else findMatchingSpine ss l)"

fun findAnchorByValue :: "located_block list \<Rightarrow> reading_locator \<Rightarrow> located_block option budget_prog" where
  "findAnchorByValue [] l = ok None"
| "findAnchorByValue (b # bs) l =
     andThen checkpoint (\<lambda>_.
     if anchorValue (anchor (startLocator b)) = anchorValue (anchor l) then ok (Some b)
     else findAnchorByValue bs l)"

definition nearestAnchorByIndex :: "located_spine \<Rightarrow> reading_locator \<Rightarrow> epub_error + located_block" where
  "nearestAnchorByIndex s l =
     (let finalIndex = int (length (locatedBlocks s)) - 1;
        targetIndex = min (anchorIndex (anchor l)) finalIndex in
      if 0 \<le> targetIndex \<and> nat targetIndex < length (locatedBlocks s) then Inr (locatedBlocks s ! nat targetIndex)
      else Inl InternalFailure)"

fun firstAddressableBlock :: "located_spine list \<Rightarrow> located_block option budget_prog" where
  "firstAddressableBlock [] = ok None"
| "firstAddressableBlock (s # ss) =
     andThen checkpoint (\<lambda>_. case locatedBlocks s of b # _ \<Rightarrow> ok (Some b) | [] \<Rightarrow> firstAddressableBlock ss)"

text \<open>The loop of \<open>nearestAddressableSpine\<close>: the nearest so far with its distance, none yet being infinitely far.\<close>

fun nearestSpineFrom :: "located_spine list \<Rightarrow> int \<Rightarrow> (located_spine \<times> int) option \<Rightarrow> (located_spine \<times> int) option budget_prog" where
  "nearestSpineFrom [] i nearest = ok nearest"
| "nearestSpineFrom (s # ss) i nearest =
     andThen checkpoint (\<lambda>_.
     if locatedBlocks s = [] then nearestSpineFrom ss i nearest
     else let distance = \<bar>locatedSpineIndex s - i\<bar> in
       nearestSpineFrom ss i (case nearest of None \<Rightarrow> Some (s, distance)
         | Some (_, d) \<Rightarrow> if distance < d then Some (s, distance) else nearest))"

definition nearestAddressableSpine :: "locator_index \<Rightarrow> int \<Rightarrow> located_spine option budget_prog" where
  "nearestAddressableSpine index i =
     andThen (nearestSpineFrom (indexSpines index) i None) (\<lambda>n. ok (map_option fst n))"

definition resolvedLocator :: "located_block \<Rightarrow> int \<Rightarrow> bool \<Rightarrow> epub_error + reading_locator" where
  "resolvedLocator b requestedOffset preserveNearestOffset =
     createBlockLocatorAtOffset b (Integral (if preserveNearestOffset then min requestedOffset (textLengthCodePoints b) else 0))"

definition exactResolution :: "located_block \<Rightarrow> int \<Rightarrow> epub_error + locator_resolution" where
  "exactResolution b requestedOffset =
     bindE (resolvedLocator b requestedOffset True) (\<lambda>l. Inr (ExactResolution l b))"

definition recoveredResolution :: "located_block \<Rightarrow> int \<Rightarrow> recovery_reason \<Rightarrow> bool \<Rightarrow> epub_error + locator_resolution" where
  "recoveredResolution b requestedOffset reason preserve =
     bindE (resolvedLocator b requestedOffset preserve) (\<lambda>l. Inr (RecoveredResolution reason l b))"

text \<open>\<open>defaultStartBlock\<close>: \<open>None\<close> is \<open>undefined\<close>, \<open>Some None\<close> is \<open>null\<close>.\<close>

definition recoverBookStart ::
    "locator_index \<Rightarrow> reading_locator \<Rightarrow> located_block option option \<Rightarrow> locator_resolution budget_prog" where
  "recoverBookStart index l defaultStart =
     andThen (case defaultStart of None \<Rightarrow> firstAddressableBlock (indexSpines index) | Some b \<Rightarrow> ok b) (\<lambda>start.
     case start of None \<Rightarrow> raise LocatorUnresolved
     | Some b \<Rightarrow> andThen checkpoint (\<lambda>_. lift (recoveredResolution b (textOffsetCodePoints l) BookStart False)))"

definition recoverNearestSpine :: "locator_index \<Rightarrow> reading_locator \<Rightarrow> located_spine \<Rightarrow> locator_resolution budget_prog" where
  "recoverNearestSpine index l spine =
     andThen (nearestAddressableSpine index (locatedSpineIndex spine)) (\<lambda>nearest.
     case nearest of
       None \<Rightarrow> raise LocatorUnresolved
     | Some s \<Rightarrow> (case locatedBlocks s of [] \<Rightarrow> raise LocatorUnresolved
         | b # _ \<Rightarrow> andThen checkpoint (\<lambda>_. lift (recoveredResolution b (textOffsetCodePoints l) NearestSpine False))))"

definition exactAnchor :: "located_spine \<Rightarrow> reading_locator \<Rightarrow> located_block option" where
  "exactAnchor spine l =
     (let i = anchorIndex (anchor l) in
      if 0 \<le> i \<and> nat i < length (locatedBlocks spine) \<and>
         anchorIndex (anchor (startLocator (locatedBlocks spine ! nat i))) = i \<and>
         anchorValue (anchor (startLocator (locatedBlocks spine ! nat i))) = anchorValue (anchor l)
      then Some (locatedBlocks spine ! nat i) else None)"

definition resolveInSpine :: "reading_locator \<Rightarrow> located_spine \<Rightarrow> locator_resolution budget_prog" where
  "resolveInSpine l spine =
     (case exactAnchor spine l of
        Some b \<Rightarrow>
          andThen checkpoint (\<lambda>_.
          if textOffsetCodePoints l \<le> textLengthCodePoints b then lift (exactResolution b (textOffsetCodePoints l))
          else lift (recoveredResolution b (textOffsetCodePoints l) NearestOffset True))
      | None \<Rightarrow>
          andThen (findAnchorByValue (locatedBlocks spine) l) (\<lambda>matching.
          andThen (lift (case matching of Some b \<Rightarrow> Inr b | None \<Rightarrow> nearestAnchorByIndex spine l)) (\<lambda>b.
          andThen checkpoint (\<lambda>_. lift (recoveredResolution b (textOffsetCodePoints l) NearestAnchor True)))))"

definition resolvePublicationLocator ::
    "locator_index \<Rightarrow> js_value \<Rightarrow> located_block option option \<Rightarrow> locator_resolution budget_prog" where
  "resolvePublicationLocator index input defaultStart =
     andThen checkpoint (\<lambda>_.
     andThen (lift (decodeLocator input)) (\<lambda>l.
     andThen (throwIf (\<not> bookIdentitiesMatch (indexIdentity index) (bookIdentity l)) LocatorUnresolved) (\<lambda>_.
     andThen (findMatchingSpine (indexSpines index) l) (\<lambda>spine.
     case spine of
       None \<Rightarrow> recoverBookStart index l defaultStart
     | Some s \<Rightarrow> if locatedBlocks s = [] then recoverNearestSpine index l s else resolveInSpine l s))))"

end
