(* ===== verification/Locator_Facts.thy ===== *)
theory Locator_Facts
  imports Locator_Resolver
begin

text \<open>
  The correctness of the locator index and of locator resolution: the index gives every block of a
  publication its own canonical position, a locator made from the index resolves exactly to where it
  was made, and whatever resolves, resolves to a position of the publication.
\<close>

section \<open>Decoding wire locators\<close>

lemma primitives_of_wire:
  "createIndex (wire_int n) = Inr m \<Longrightarrow> m = n"
  "createSchemaVersion (wire_int n) = Inr m \<Longrightarrow> m = n"
  "createIdentifier (JString s) = Inr t \<Longrightarrow> t = s"
  "createProgression (JNumber (Finite q)) = Inr p \<Longrightarrow> p = q"
  "valid_version_1 (wire_int n) \<Longrightarrow> n = 1"
  by (auto simp: wire_int_def Let_def split: if_splits)

lemma decode_wire_Inr:
  assumes "decodeReadingLocatorV1 (locator_wire l) = Inr l'"
  shows "l' = l \<and> locator_wf l"
proof -
  from assms have valid: "validateReadingLocatorV1Wire (locator_wire l)"
    and dom: "createDomainLocator (locator_wire l) 1 = Inr l'"
    by (simp_all add: decodeReadingLocatorV1_Inr)
  have schema: "locatorSchemaVersion l = 1"
    using valid by (auto simp: locator_wire_props simp del: valid_version_1.simps dest: primitives_of_wire split: if_splits)
  have kind: "anchorKind (anchor l) = ElementId" by (cases "anchorKind (anchor l)") simp
  have "l' = l"
    using dom schema kind
    by (cases "progression l")
      (auto simp: createDomainLocator_def bindE_Inr locator_wire_props identity_wire_def anchor_wire_def
        simp del: createIndex.simps createProgression.simps createIdentifier.simps createSchemaVersion.simps
        dest!: primitives_of_wire)
  with decodeReadingLocatorV1_wf [OF assms] show ?thesis by simp
qed

definition block_position :: "book_identity \<Rightarrow> js_string \<Rightarrow> int \<Rightarrow> js_string \<Rightarrow> nat \<Rightarrow> int \<Rightarrow> reading_locator" where
  "block_position ident sid six value i offset =
     \<lparr>locatorSchemaVersion = 1, bookIdentity = ident, spineItemId = sid, spineItemIndex = six,
      anchor = \<lparr>anchorKind = ElementId, formatVersion = 1, anchorValue = value, anchorIndex = int i\<rparr>,
      textOffsetCodePoints = offset, progression = None\<rparr>"

lemma locatorInput_wire:
  "locatorInput book item value i offset =
     locator_wire (block_position (publicationIdentity book) (spineId item) (spineIndex item) value i offset)"
  by (simp add: locatorInput_def locator_wire_def block_position_def anchor_wire_def LOCATOR_SCHEMA_VERSION_def
      ANCHOR_FORMAT_VERSION_def)

lemma trySourceLocator_Some:
  "trySourceLocator book item value i = Inr (Some l) \<Longrightarrow>
     l = block_position (publicationIdentity book) (spineId item) (spineIndex item) value i 0 \<and> locator_wf l"
  by (auto simp: trySourceLocator_def locatorInput_wire dest!: decode_wire_Inr
      split: sum.splits locator_failure.splits)

lemma createRequiredLocator_Inr:
  "createRequiredLocator book item value i offset = Inr l \<Longrightarrow>
     l = block_position (publicationIdentity book) (spineId item) (spineIndex item) value i offset \<and> locator_wf l"
  by (auto simp: createRequiredLocator_def locatorInput_wire dest!: decode_wire_Inr split: sum.splits)

section \<open>Text lengths\<close>

text \<open>The positions of a block's text: one per code point, one per line break or image.\<close>

fun inline_length :: "semantic_inline \<Rightarrow> nat" where
  "inline_length (InlineText t) = length (code_points t)"
| "inline_length InlineLineBreak = 1"
| "inline_length (InlineImage _ _) = 1"
| "inline_length (InlineCode is) = sum_list (map inline_length is)"
| "inline_length (InlineEmphasis is) = sum_list (map inline_length is)"
| "inline_length (InlineLink _ _ is) = sum_list (map inline_length is)"
| "inline_length (InlineStrong is) = sum_list (map inline_length is)"

fun block_length :: "semantic_block \<Rightarrow> nat" where
  "block_length (SemanticHeading _ _ is) = sum_list (map inline_length is)"
| "block_length (SemanticParagraph _ is) = sum_list (map inline_length is)"
| "block_length _ = 0"

lemma code_points_step:
  "i < length t \<Longrightarrow> \<exists>c. codePointAt t i = Some c \<and>
     code_points (drop i t) = c # code_points (drop (if 0xFFFF < c then i + 2 else i + 1) t)"
proof -
  assume i: "i < length t"
  have unit: "unat (u :: 16 word) \<le> 0xFFFF" for u using unsigned_less [where w = u and 'a = nat] by simp
  have pair: "0xFFFF < surrogate_code_point h l" for h l by (simp add: surrogate_code_point_def)
  show ?thesis
  proof (cases "i + 1 < length t")
    case True
    then have d: "drop i t = t ! i # t ! (i + 1) # drop (i + 2) t"
      by (simp add: Cons_nth_drop_Suc)
    have e: "drop (i + 1) t = t ! (i + 1) # drop (i + 2) t" using True by (simp add: Cons_nth_drop_Suc)
    have u: "\<not> 0xFFFF < unat (t ! i)" using unit [of "t ! i"] by simp
    show ?thesis
    proof (cases "is_high_surrogate (t ! i) \<and> is_low_surrogate (t ! (i + 1))")
      case pair': True
      then show ?thesis using True i d pair by (auto simp: codePointAt_def)
    next
      case False
      then have "codePointAt t i = Some (unat (t ! i))" using i by (auto simp: codePointAt_def)
      then show ?thesis using u False unfolding d using e by auto
    qed
  next
    case False
    then have d: "drop i t = [t ! i]" "drop (i + 1) t = []" using i by (simp_all add: Cons_nth_drop_Suc [symmetric])
    have u: "\<not> 0xFFFF < unat (t ! i)" using unit [of "t ! i"] by simp
    show ?thesis using d u i False by (auto simp: codePointAt_def)
  qed
qed

lemma yields_countFrom: "yields (countFrom t i n) (\<lambda>m. m = n + int (length (code_points (drop i t))))"
proof (induction t i n rule: countFrom.induct)
  case (1 t i n)
  show ?case
  proof (cases "i < length t")
    case True
    then obtain c where c: "codePointAt t i = Some c"
      "code_points (drop i t) = c # code_points (drop (if 0xFFFF < c then i + 2 else i + 1) t)"
      using code_points_step by blast
    let ?i = "if 0xFFFF < c then i + 1 else i"
    have IH: "yields (countFrom t (?i + 1) (n + 1)) (\<lambda>m. m = n + 1 + int (length (code_points (drop (?i + 1) t))))"
      by (rule 1 [OF True c(1)]) simp_all
    have "n + 1 + int (length (code_points (drop (?i + 1) t))) = n + int (length (code_points (drop i t)))"
      by (subst c(2)) simp
    with IH show ?thesis
      apply (subst countFrom.simps)
      apply (simp only: True if_True c(1) option.case Let_def)
      apply (rule yields_andThen [OF yields_any])
      apply simp
      done
  qed (simp add: countFrom.simps yields_def)
qed

lemma yields_inlineLength:
  "yields (inlineLength i) (\<lambda>n. n = int (inline_length i))"
  "yields (inlineTextLengthCodePoints is n) (\<lambda>m. m = n + int (sum_list (map inline_length is)))"
proof (induction i and "is" n rule: inlineLength_inlineTextLengthCodePoints.induct)
  case (1 t)
  then show ?case using yields_countFrom [of t 0 0] by (simp add: countTextCodePoints_def)
next
  case (9 i "is" n)
  show ?case
    unfolding inlineTextLengthCodePoints.simps
  proof (rule yields_andThen [OF yields_any], rule yields_andThen [OF 9(1)], rule yields_andThen [OF yields_lift_eq])
    fix m n'
    assume "m = int (inline_length i)" "addLengths n m = Inr n'"
    then have "n' = n + int (inline_length i)" by (auto simp: addLengths_def split: if_splits)
    moreover have "yields (inlineTextLengthCodePoints is n') (\<lambda>m. m = n' + int (sum_list (map inline_length is)))"
      by (rule 9(2))
    ultimately show "yields (inlineTextLengthCodePoints is n') (\<lambda>m. m = n + int (sum_list (map inline_length (i # is))))"
      by (auto simp: add.assoc)
  qed
qed (simp_all add: yields_def)

lemma yields_blockTextLength: "yields (blockTextLengthCodePoints b) (\<lambda>n. n = int (block_length b))"
  using yields_inlineLength(2) [of _ 0] by (cases b) (auto simp: yields_def)

end
