(* ===== verification/Locator_Theorems.thy ===== *)
theory Locator_Theorems
  imports Locator_Facts
begin

text \<open>
  What the locator index and the resolver promise: the index invariant that
  \<open>createPublicationLocatorIndex\<close> establishes, and the contract \<open>resolves\<close> that
  \<open>resolvePublicationLocator\<close> implements over an index with that invariant.
\<close>

section \<open>Well-formed indexes\<close>

definition spine_wf :: "book_identity \<Rightarrow> located_spine \<Rightarrow> bool" where
  "spine_wf ident s \<longleftrightarrow>
     (\<forall>i < length (locatedBlocks s). \<exists>value.
        startLocator (locatedBlocks s ! i) = block_position ident (locatedSpineId s) (locatedSpineIndex s) value i 0 \<and>
        locator_wf (startLocator (locatedBlocks s ! i)) \<and>
        textLengthCodePoints (locatedBlocks s ! i) = int (block_length (locatedBlock (locatedBlocks s ! i)))) \<and>
     distinct (map (\<lambda>b. anchorValue (anchor (startLocator b))) (locatedBlocks s))"

definition index_wf :: "locator_index \<Rightarrow> bool" where
  "index_wf index \<longleftrightarrow> (\<forall>s \<in> set (indexSpines index). spine_wf (indexIdentity index) s) \<and>
     distinct (map locatedSpineIndex (indexSpines index)) \<and>
     indexBlocks index = concat (map locatedBlocks (indexSpines index))"

text \<open>A book as \<open>decodeBookV1\<close> returns it: spine items are numbered by their place.\<close>

definition book_wf :: "publication_book \<Rightarrow> bool" where
  "book_wf book \<longleftrightarrow> (\<forall>i < length (publicationSpine book). spineIndex (publicationSpine book ! i) = int i)"

definition interruption :: "epub_error \<Rightarrow> bool" where
  "interruption e \<longleftrightarrow> e = Cancelled \<or> e = InternalFailure"

lemma outcomes_checkpoint: "outcomes checkpoint (\<lambda>_. True) interruption"
  by (auto simp: outcomes_def interruption_def intro!: wp_checkpoint)

lemma outcomes_after_checkpoint:
  "(\<And>e. interruption e \<Longrightarrow> F e) \<Longrightarrow> outcomes m Q F \<Longrightarrow> outcomes (andThen checkpoint (\<lambda>_. m)) Q F"
  by (rule outcomes_andThen [OF outcomes_mono [OF outcomes_checkpoint]]) simp_all

section \<open>The index is canonical\<close>

lemma yields_avoidCollisions: "yields (avoidCollisions base reserved k) (\<lambda>v. v \<notin> set reserved)"
proof (induction base reserved k rule: avoidCollisions.induct)
  case (1 base reserved k)
  then show ?case
    by (subst avoidCollisions.simps) (auto intro!: yields_intros)
qed

definition value_of :: "reading_locator \<Rightarrow> js_string" where
  "value_of l = anchorValue (anchor l)"

lemma enumerate_split:
  assumes "enumerate 0 xs = front @ x # rest"
  shows "x = (length front, xs ! length front) \<and> length front < length xs"
proof -
  have "length front < length (enumerate 0 xs)" using assms by simp
  moreover have "enumerate 0 xs ! length front = x" using assms by simp
  ultimately show ?thesis by (simp add: nth_enumerate_eq)
qed

lemma sourceCandidateCounts_eq:
  "sourceCandidateCounts blocks s =
     (let n = length (filter (\<lambda>b. sourceElementId b = Some s) blocks) in if n = 0 then None else Some n)"
proof (induction blocks rule: rev_induct)
  case (snoc b bs)
  have step: "sourceCandidateCounts (bs @ [b]) = (case sourceElementId b of None \<Rightarrow> sourceCandidateCounts bs
     | Some s \<Rightarrow> (sourceCandidateCounts bs)(s \<mapsto> (case sourceCandidateCounts bs s of None \<Rightarrow> 0 | Some n \<Rightarrow> n) + 1))"
    unfolding sourceCandidateCounts_def by simp
  show ?case
    using snoc.IH by (cases "sourceElementId b") (auto simp: step Let_def)
qed (simp add: sourceCandidateCounts_def)

lemma unique_candidate:
  assumes "sourceCandidateCounts blocks s = Some 1"
    and "i < length blocks" "j < length blocks"
    and "sourceElementId (blocks ! i) = Some s" "sourceElementId (blocks ! j) = Some s"
  shows "i = j"
proof -
  let ?I = "{i. i < length blocks \<and> sourceElementId (blocks ! i) = Some s}"
  have "length (filter (\<lambda>b. sourceElementId b = Some s) blocks) = 1"
    using assms(1) unfolding sourceCandidateCounts_eq Let_def by (simp only: option.inject option.distinct split: if_splits)
  then have "card ?I = 1" unfolding length_filter_conv_card .
  then obtain k where "?I = {k}" by (rule card_1_singletonE)
  moreover have "i \<in> ?I" "j \<in> ?I" using assms(2-) by simp_all
  ultimately show ?thesis by (metis singletonD)
qed

text \<open>\<open>l\<close> is a canonical locator of the start of block \<open>i\<close>.\<close>

definition starts_block :: "publication_book \<Rightarrow> spine_item \<Rightarrow> nat \<Rightarrow> reading_locator \<Rightarrow> bool" where
  "starts_block book item i l \<longleftrightarrow> locator_wf l \<and>
     (\<exists>value. l = block_position (publicationIdentity book) (spineId item) (spineIndex item) value i 0)"

lemma sourceLocator_Some:
  assumes "sourceLocator book item counts i b = Inr (Some l)"
  shows "sourceElementId b = Some (value_of l) \<and> counts (value_of l) = Some 1 \<and>
     starts_block book item i l"
  using assms by (auto simp: sourceLocator_def starts_block_def value_of_def block_position_def split: option.splits if_splits
      dest!: trySourceLocator_Some)

text \<open>After \<open>n\<close> blocks of the first pass: what a source anchor stands for, and which are reserved.\<close>

definition sources_wf ::
    "publication_book \<Rightarrow> spine_item \<Rightarrow> projected_block list \<Rightarrow> nat \<Rightarrow> (reading_locator option list \<times> js_string list) \<Rightarrow> bool" where
  "sources_wf book item blocks n = (\<lambda>(locators, reserved). length locators = n \<and>
     (\<forall>i < n. \<forall>l. locators ! i = Some l \<longrightarrow>
        sourceElementId (blocks ! i) = Some (value_of l) \<and> sourceCandidateCounts blocks (value_of l) = Some 1 \<and>
        value_of l \<in> set reserved \<and> starts_block book item i l))"

lemma yields_collectSourceLocators:
  "yields (collectSourceLocators book item blocks) (sources_wf book item blocks (length blocks))"
proof -
  have "yields (collectSourceLocators book item blocks)
      ((\<lambda>xs. sources_wf book item blocks (length xs)) (enumerate 0 blocks))"
    unfolding collectSourceLocators_def
  proof (rule yields_foldEach)
    fix x front rest and acc :: "reading_locator option list \<times> js_string list"
    assume split: "enumerate 0 blocks = front @ x # rest" and I: "sources_wf book item blocks (length front) acc"
    obtain locators reserved where acc: "acc = (locators, reserved)" by (cases acc)
    have x: "x = (length front, blocks ! length front)" using enumerate_split [OF split] by simp
    show "yields ((\<lambda>(i, b) (locators, reserved). andThen checkpoint (\<lambda>_.
        andThen (lift (sourceLocator book item (sourceCandidateCounts blocks) i b)) (\<lambda>l.
        ok (locators @ [l], case l of None \<Rightarrow> reserved | Some l \<Rightarrow> anchorValue (anchor l) # reserved)))) x acc)
      (sources_wf book item blocks (length (front @ [x])))"
      unfolding x acc split_conv
    proof (rule yields_andThen [OF yields_any], rule yields_andThen [OF yields_lift_eq], rule yields_ok)
      fix l
      assume l: "sourceLocator book item (sourceCandidateCounts blocks) (length front) (blocks ! length front) = Inr l"
      show "sources_wf book item blocks (length (front @ [(length front, blocks ! length front)]))
          (locators @ [l], case l of None \<Rightarrow> reserved | Some l \<Rightarrow> anchorValue (anchor l) # reserved)"
        using I acc sourceLocator_Some [of book item _ "length front"] l
        by (auto simp: sources_wf_def nth_append less_Suc_eq value_of_def split: option.splits)
    qed
  qed (simp add: sources_wf_def)
  then show ?thesis by simp
qed


text \<open>After \<open>n\<close> blocks of the second pass: the blocks located so far, and which anchors are reserved.\<close>

definition located_wf ::
    "publication_book \<Rightarrow> spine_item \<Rightarrow> projected_block list \<Rightarrow> reading_locator option list \<Rightarrow> nat \<Rightarrow>
     located_block list \<times> js_string list \<Rightarrow> bool" where
  "located_wf book item blocks locators n = (\<lambda>(located, reserved). length located = n \<and>
     (\<forall>i < n. let b = located ! i; l = startLocator b in
        locatedBlock b = projectedBlock (blocks ! i) \<and> textLengthCodePoints b = int (block_length (locatedBlock b)) \<and>
        value_of l \<in> set reserved \<and> starts_block book item i l) \<and>
     distinct (map (\<lambda>b. value_of (startLocator b)) located) \<and>
     (\<forall>j < length blocks. \<forall>l. locators ! j = Some l \<longrightarrow> value_of l \<in> set reserved \<and>
        (n \<le> j \<longrightarrow> value_of l \<notin> (\<lambda>b. value_of (startLocator b)) ` set located)))"

lemma yields_blockLocator:
  assumes "sources_wf book item blocks (length blocks) (locators, reserved\<^sub>0)" and "i < length blocks"
    and "located_wf book item blocks locators i (located, reserved)"
  shows "yields (blockLocator book item i (locators ! i) reserved) (\<lambda>(l, reserved').
     starts_block book item i l \<and>
     value_of l \<notin> (\<lambda>b. value_of (startLocator b)) ` set located \<and>
     (\<forall>j < length blocks. \<forall>l'. i < j \<longrightarrow> locators ! j = Some l' \<longrightarrow> value_of l' \<noteq> value_of l) \<and>
     set reserved' = insert (value_of l) (set reserved))"
proof (cases "locators ! i")
  case None
  have old: "(\<lambda>b. value_of (startLocator b)) ` set located \<subseteq> set reserved"
    using assms(3) by (auto simp: located_wf_def Let_def in_set_conv_nth)
  have src: "\<forall>j < length blocks. \<forall>l'. locators ! j = Some l' \<longrightarrow> value_of l' \<in> set reserved"
    using assms(3) by (auto simp: located_wf_def)
  show ?thesis
    unfolding None blockLocator_def option.case generatedAnchorValue_def
  proof (rule yields_andThen [OF yields_avoidCollisions], rule yields_andThen [OF yields_lift_eq], rule yields_ok)
    fix v l
    assume v: "v \<notin> set reserved" and "createRequiredLocator book item v i 0 = Inr l"
    then have l: "l = block_position (publicationIdentity book) (spineId item) (spineIndex item) v i 0" "locator_wf l"
      by (auto dest: createRequiredLocator_Inr)
    then have "value_of l = v" "starts_block book item i l"
      by (auto simp: value_of_def block_position_def starts_block_def)
    with l v old src show "case (l, v # reserved) of (l, reserved') \<Rightarrow>
        starts_block book item i l \<and>
        value_of l \<notin> (\<lambda>b. value_of (startLocator b)) ` set located \<and>
        (\<forall>j < length blocks. \<forall>l'. i < j \<longrightarrow> locators ! j = Some l' \<longrightarrow> value_of l' \<noteq> value_of l) \<and>
        set reserved' = insert (value_of l) (set reserved)"
      by auto
  qed
next
  case (Some l)
  then have l: "sourceElementId (blocks ! i) = Some (value_of l)"
      "sourceCandidateCounts blocks (value_of l) = Some 1"
    using assms(1,2) by (auto simp: sources_wf_def)
  have "\<forall>j < length blocks. \<forall>l'. i < j \<longrightarrow> locators ! j = Some l' \<longrightarrow> value_of l' \<noteq> value_of l"
    using assms(1) unique_candidate [OF l(2) assms(2)] l(1) by (fastforce simp: sources_wf_def)
  with Some assms show ?thesis
    by (auto simp: blockLocator_def sources_wf_def located_wf_def insert_absorb intro!: yields_ok)
qed

lemma located_wf_step:
  assumes "located_wf book item blocks locators n (located, reserved)" and "starts_block book item n l"
    and "value_of l \<notin> (\<lambda>b. value_of (startLocator b)) ` set located"
    and "\<forall>j < length blocks. \<forall>l'. n < j \<longrightarrow> locators ! j = Some l' \<longrightarrow> value_of l' \<noteq> value_of l"
    and "set reserved' = insert (value_of l) (set reserved)"
  shows "located_wf book item blocks locators (Suc n)
    (located @ [\<lparr>locatedDocument = document, locatedBlock = projectedBlock (blocks ! n), startLocator = l,
       textLengthCodePoints = int (block_length (projectedBlock (blocks ! n)))\<rparr>], reserved')"
proof -
  have len: "length located = n" using assms(1) by (simp add: located_wf_def)
  have old: "locatedBlock (located ! i) = projectedBlock (blocks ! i) \<and>
      textLengthCodePoints (located ! i) = int (block_length (locatedBlock (located ! i))) \<and>
      value_of (startLocator (located ! i)) \<in> set reserved \<and> starts_block book item i (startLocator (located ! i))"
    if "i < n" for i
    using assms(1) that by (auto simp: located_wf_def Let_def)
  have src: "value_of l' \<in> set reserved \<and> (n \<le> j \<longrightarrow> value_of l' \<notin> (\<lambda>b. value_of (startLocator b)) ` set located)"
    if "j < length blocks" "locators ! j = Some l'" for j l'
    using assms(1) that by (auto simp: located_wf_def)
  have dist: "distinct (map (\<lambda>b. value_of (startLocator b)) located)" using assms(1) by (simp add: located_wf_def)
  define b where "b = \<lparr>locatedDocument = document, locatedBlock = projectedBlock (blocks ! n), startLocator = l,
       textLengthCodePoints = int (block_length (projectedBlock (blocks ! n)))\<rparr>"
  have b: "startLocator b = l" "locatedBlock b = projectedBlock (blocks ! n)"
    "textLengthCodePoints b = int (block_length (projectedBlock (blocks ! n)))"
    by (simp_all add: b_def)
  show ?thesis
    unfolding located_wf_def split_conv Let_def b_def [symmetric]
  proof (intro conjI allI impI)
    fix j l'
    assume j: "j < length blocks" "locators ! j = Some l'"
    then show "value_of l' \<in> set reserved'" using src assms(5) by simp
    assume "Suc n \<le> j"
    then show "value_of l' \<notin> (\<lambda>b. value_of (startLocator b)) ` set (located @ [b])"
      using src [OF j] assms(4) j b by auto
  qed (use old dist len b assms(2,3,5) in \<open>auto simp: nth_append less_Suc_eq\<close>)
qed

lemma yields_locateBlocks:
  assumes "sources_wf book item blocks (length blocks) (locators, reserved)"
  shows "yields (foldEach (locateBlock book item document locators) (enumerate 0 blocks) ([], reserved))
    (located_wf book item blocks locators (length blocks))"
proof -
  have "yields (foldEach (locateBlock book item document locators) (enumerate 0 blocks) ([], reserved))
      ((\<lambda>xs. located_wf book item blocks locators (length xs)) (enumerate 0 blocks))"
  proof (rule yields_foldEach)
    fix x front rest and acc :: "located_block list \<times> js_string list"
    assume split: "enumerate 0 blocks = front @ x # rest" and I: "located_wf book item blocks locators (length front) acc"
    obtain located res where acc: "acc = (located, res)" by (cases acc)
    have x: "x = (length front, blocks ! length front)" "length front < length blocks"
      using enumerate_split [OF split] by simp_all
    show "yields (locateBlock book item document locators x acc)
      (located_wf book item blocks locators (length (front @ [x])))"
      unfolding x(1) acc locateBlock_def split_conv
    proof (rule yields_andThen [OF yields_any],
        rule yields_andThen [OF yields_blockLocator [OF assms x(2) I [unfolded acc]]],
        clarify, rule yields_andThen [OF yields_blockTextLength], rule yields_ok)
      fix l reserved' n
      assume "starts_block book item (length front) l" "value_of l \<notin> (\<lambda>b. value_of (startLocator b)) ` set located"
        "\<forall>j < length blocks. \<forall>l'. length front < j \<longrightarrow> locators ! j = Some l' \<longrightarrow> value_of l' \<noteq> value_of l"
        "set reserved' = insert (value_of l) (set res)" "n = int (block_length (projectedBlock (blocks ! length front)))"
      with I acc show "located_wf book item blocks locators (length (front @ [(length front, blocks ! length front)]))
        (located @ [\<lparr>locatedDocument = document, locatedBlock = projectedBlock (blocks ! length front),
           startLocator = l, textLengthCodePoints = n\<rparr>], reserved')"
        by (simp add: located_wf_step)
    qed
  qed (use assms in \<open>auto simp: located_wf_def sources_wf_def\<close>)
  then show ?thesis by simp
qed

lemma assertProjectionOrder_Inr:
  "assertProjectionOrder p = Inr u \<longleftrightarrow>
     map projectedBlock (addressableBlocks p) = collectBlocks (documentBlocks (projectedDocument p))"
proof -
  have "map projectedBlock (addressableBlocks p) = ys \<longleftrightarrow> length ys = length (addressableBlocks p) \<and>
      (\<forall>i \<in> set [0..<length ys]. projectedBlock (addressableBlocks p ! i) = ys ! i)" for ys
    by (subst list_eq_iff_nth_eq) auto
  then show ?thesis by (simp add: assertProjectionOrder_def Let_def list_ex_iff)
qed

definition spine_of_document :: "publication_book \<Rightarrow> spine_item \<Rightarrow> document_projection \<Rightarrow> located_spine \<Rightarrow> bool" where
  "spine_of_document book item p s \<longleftrightarrow> locatedSpineId s = spineId item \<and> locatedSpineIndex s = spineIndex item \<and>
     map locatedBlock (locatedBlocks s) = collectBlocks (documentBlocks (projectedDocument p)) \<and>
     spine_wf (publicationIdentity book) s"

lemma yields_locateDocumentBlocks:
  "yields (locateDocumentBlocks book item p) (\<lambda>blocks. spine_of_document book item p
     \<lparr>locatedSpineId = spineId item, locatedSpineIndex = spineIndex item, locatedBlocks = blocks\<rparr>)"
  unfolding locateDocumentBlocks_def
proof (rule yields_andThen [OF yields_lift_eq], rule yields_andThen [OF yields_collectSourceLocators],
    clarify, rule yields_andThen [OF yields_locateBlocks], assumption, clarify, rule yields_ok)
  fix u locators reserved located res
  assume "assertProjectionOrder p = Inr u"
    and L: "located_wf book item (addressableBlocks p) locators (length (addressableBlocks p)) (located, res)"
  then have "map projectedBlock (addressableBlocks p) = collectBlocks (documentBlocks (projectedDocument p))"
    by (simp add: assertProjectionOrder_Inr)
  moreover have "map locatedBlock located = map projectedBlock (addressableBlocks p)"
    using L by (auto simp: located_wf_def Let_def intro!: nth_equalityI)
  moreover have "distinct (map (\<lambda>b. anchorValue (anchor (startLocator b))) located)"
    using L by (simp add: located_wf_def value_of_def)
  moreover have "\<exists>value. startLocator (located ! i) =
        block_position (publicationIdentity book) (spineId item) (spineIndex item) value i 0 \<and>
      locator_wf (startLocator (located ! i)) \<and>
      textLengthCodePoints (located ! i) = int (block_length (locatedBlock (located ! i)))"
    if "i < length located" for i
    using L that by (auto simp: located_wf_def Let_def starts_block_def)
  ultimately show "spine_of_document book item p
      \<lparr>locatedSpineId = spineId item, locatedSpineIndex = spineIndex item, locatedBlocks = located\<rparr>"
    by (simp add: spine_of_document_def spine_wf_def)
qed


text \<open>The document a spine item was located in.\<close>

definition spine_located ::
    "publication_book \<Rightarrow> document_projection list \<Rightarrow> spine_item \<Rightarrow> located_spine \<Rightarrow> bool" where
  "spine_located book ps item s \<longleftrightarrow> (\<exists>p \<in> set ps.
     documentLocation (projectedDocument p) = SpineLocation (spineId item) (spineIndex item) \<and>
     spine_of_document book item p s)"

definition documents_by_spine ::
    "publication_book \<Rightarrow> document_projection list \<Rightarrow> (int \<Rightarrow> document_projection option) \<Rightarrow> bool" where
  "documents_by_spine book ps bySpine \<longleftrightarrow> (\<forall>k p. bySpine k = Some p \<longrightarrow> p \<in> set ps \<and>
     (\<exists>item. spineItemAt book k = Some item \<and>
        documentLocation (projectedDocument p) = SpineLocation (spineId item) k))"

lemma yields_indexProjection:
  assumes "p \<in> set ps" and "documents_by_spine book ps bySpine"
  shows "yields (indexProjection book p bySpine) (documents_by_spine book ps)"
  unfolding indexProjection_def
proof (rule yields_andThen [OF yields_any], rule yields_andThen [OF yields_any])
  show "yields (case documentLocation (projectedDocument p) of
       NonSpineLocation \<Rightarrow> ok bySpine
     | SpineLocation item i \<Rightarrow> (case spineItemAt book i of
            None \<Rightarrow> raise InternalFailure
          | Some s \<Rightarrow> if spineIndex s \<noteq> i \<or> spineId s \<noteq> item \<or> bySpine i \<noteq> None then raise InternalFailure
              else ok (bySpine(i \<mapsto> p)))) (documents_by_spine book ps)"
    using assms
    by (auto simp: documents_by_spine_def simp del: not_None_eq
        intro!: yields_ok yields_raise yields_if split: document_location.split option.split)
qed

lemma spineItemAt_member:
  "book_wf book \<Longrightarrow> item \<in> set (publicationSpine book) \<Longrightarrow> spineItemAt book (spineIndex item) = Some item"
  by (auto simp: book_wf_def spineItemAt_def in_set_conv_nth)

lemma yields_appendBlocks: "yields (foldEach (\<lambda>b acc. andThen checkpoint (\<lambda>_. ok (acc @ [b]))) bs acc) (\<lambda>r. r = acc @ bs)"
proof -
  have "yields (foldEach (\<lambda>b acc. andThen checkpoint (\<lambda>_. ok (acc @ [b]))) bs acc) ((\<lambda>xs r. r = acc @ xs) bs)"
    by (rule yields_foldEach) (simp_all add: yields_def andThen_Inr)
  then show ?thesis .
qed

definition spines_located ::
    "publication_book \<Rightarrow> document_projection list \<Rightarrow> spine_item list \<Rightarrow> located_spine list \<times> located_block list \<Rightarrow> bool" where
  "spines_located book ps items = (\<lambda>(spines, blocks).
     list_all2 (spine_located book ps) items spines \<and> blocks = concat (map locatedBlocks spines))"

lemma yields_locateSpineItem:
  assumes "book_wf book" and "item \<in> set (publicationSpine book)" and "documents_by_spine book ps bySpine"
    and "spines_located book ps items acc"
  shows "yields (locateSpineItem book bySpine item acc) (spines_located book ps (items @ [item]))"
proof -
  obtain spines blocks where acc: "acc = (spines, blocks)" by (cases acc)
  show ?thesis
    unfolding locateSpineItem_def acc split_conv
  proof (rule yields_andThen [OF yields_any], cases "bySpine (spineIndex item)")
    case (Some p)
    have p: "p \<in> set ps" "documentLocation (projectedDocument p) = SpineLocation (spineId item) (spineIndex item)"
      using assms(3) Some spineItemAt_member [OF assms(1,2)] by (fastforce simp: documents_by_spine_def)+
    show "yields (case bySpine (spineIndex item) of None \<Rightarrow> raise InternalFailure
        | Some p \<Rightarrow> andThen (locateDocumentBlocks book item p) (\<lambda>bs.
            andThen (foldEach (\<lambda>b acc. andThen checkpoint (\<lambda>_. ok (acc @ [b]))) bs blocks) (\<lambda>located.
            ok (spines @ [\<lparr>locatedSpineId = spineId item, locatedSpineIndex = spineIndex item, locatedBlocks = bs\<rparr>], located))))
      (spines_located book ps (items @ [item]))"
      unfolding Some option.case
      by (rule yields_andThen [OF yields_locateDocumentBlocks], rule yields_andThen [OF yields_appendBlocks], rule yields_ok)
        (use p assms(4) acc in \<open>auto simp: spines_located_def spine_located_def intro!: list_all2_appendI\<close>)
  qed (simp add: yields_raise)
qed

lemma created_index:
  assumes "book_wf book"
  shows "yields (createPublicationLocatorIndex book ps) (\<lambda>index. indexIdentity index = publicationIdentity book \<and>
    list_all2 (spine_located book ps) (publicationSpine book) (indexSpines index) \<and>
    indexBlocks index = concat (map locatedBlocks (indexSpines index)))"
  unfolding createPublicationLocatorIndex_def
proof (rule yields_andThen [where P = "documents_by_spine book ps"])
  show "yields (foldEach (indexProjection book) ps (\<lambda>_. None)) (documents_by_spine book ps)"
    by (rule yields_foldEach [where I = "\<lambda>_. documents_by_spine book ps"])
      (simp add: yields_indexProjection, simp add: documents_by_spine_def)
next
  fix bySpine
  assume by_spine: "documents_by_spine book ps bySpine"
  have "yields (foldEach (locateSpineItem book bySpine) (publicationSpine book) ([], []))
      (spines_located book ps (publicationSpine book))"
    by (rule yields_foldEach)
      (simp_all add: yields_locateSpineItem [OF assms _ by_spine], simp add: spines_located_def)
  then show "yields (andThen (foldEach (locateSpineItem book bySpine) (publicationSpine book) ([], []))
      (\<lambda>(spines, blocks). ok \<lparr>indexIdentity = publicationIdentity book, indexSpines = spines, indexBlocks = blocks\<rparr>))
     (\<lambda>index. indexIdentity index = publicationIdentity book \<and>
        list_all2 (spine_located book ps) (publicationSpine book) (indexSpines index) \<and>
        indexBlocks index = concat (map locatedBlocks (indexSpines index)))"
    by (rule yields_andThen) (auto simp: spines_located_def intro!: yields_ok)
qed

lemma located_index_wf:
  assumes "book_wf book" and "indexIdentity index = publicationIdentity book"
    and "list_all2 (spine_located book ps) (publicationSpine book) (indexSpines index)"
    and "indexBlocks index = concat (map locatedBlocks (indexSpines index))"
  shows "index_wf index"
proof -
  have spines: "length (indexSpines index) = length (publicationSpine book)"
      "\<forall>i < length (publicationSpine book). spine_located book ps (publicationSpine book ! i) (indexSpines index ! i)"
    using assms(3) by (auto simp: list_all2_conv_all_nth)
  then have "\<forall>i < length (indexSpines index). locatedSpineIndex (indexSpines index ! i) = int i \<and>
      spine_wf (indexIdentity index) (indexSpines index ! i)"
    using assms(1,2) by (auto simp: spine_located_def spine_of_document_def book_wf_def)
  with assms(4) show ?thesis
    by (auto simp: index_wf_def in_set_conv_nth distinct_conv_nth)
qed


section \<open>The contract of resolution\<close>

definition position_in :: "located_block \<Rightarrow> int \<Rightarrow> reading_locator" where
  "position_in b n = startLocator b\<lparr>textOffsetCodePoints := n\<rparr>"

definition names_spine :: "reading_locator \<Rightarrow> located_spine \<Rightarrow> bool" where
  "names_spine l s \<longleftrightarrow> locatedSpineId s = spineItemId l \<and> locatedSpineIndex s = spineItemIndex l"

definition same_anchor_value :: "reading_locator \<Rightarrow> located_block \<Rightarrow> bool" where
  "same_anchor_value l b \<longleftrightarrow> anchorValue (anchor (startLocator b)) = anchorValue (anchor l)"

definition start_block :: "locator_index \<Rightarrow> located_block option option \<Rightarrow> located_block option" where
  "start_block index default_block = (case default_block of Some b \<Rightarrow> b
     | None \<Rightarrow> (case indexBlocks index of [] \<Rightarrow> None | b # _ \<Rightarrow> Some b))"

text \<open>\<open>s\<close> is the nearest spine item with blocks, the earliest of those at the same distance.\<close>

definition nearest_in :: "located_spine list \<Rightarrow> int \<Rightarrow> located_spine \<Rightarrow> bool" where
  "nearest_in ss i s \<longleftrightarrow> locatedBlocks s \<noteq> [] \<and> (\<exists>front rest. ss = front @ s # rest \<and>
     (\<forall>t \<in> set front. locatedBlocks t \<noteq> [] \<longrightarrow> \<bar>locatedSpineIndex s - i\<bar> < \<bar>locatedSpineIndex t - i\<bar>) \<and>
     (\<forall>t \<in> set rest. locatedBlocks t \<noteq> [] \<longrightarrow> \<bar>locatedSpineIndex s - i\<bar> \<le> \<bar>locatedSpineIndex t - i\<bar>))"

inductive resolves :: "locator_index \<Rightarrow> located_block option option \<Rightarrow> reading_locator \<Rightarrow> locator_resolution \<Rightarrow> bool"
  for index default_block l where
  at_anchor: "\<lbrakk>s \<in> set (indexSpines index); names_spine l s; b \<in> set (locatedBlocks s);
      anchor (startLocator b) = anchor l; textOffsetCodePoints l \<le> textLengthCodePoints b\<rbrakk>
    \<Longrightarrow> resolves index default_block l (ExactResolution (position_in b (textOffsetCodePoints l)) b)"
| past_end: "\<lbrakk>s \<in> set (indexSpines index); names_spine l s; b \<in> set (locatedBlocks s);
      anchor (startLocator b) = anchor l; textLengthCodePoints b < textOffsetCodePoints l\<rbrakk>
    \<Longrightarrow> resolves index default_block l (RecoveredResolution NearestOffset (position_in b (textLengthCodePoints b)) b)"
| moved_anchor: "\<lbrakk>s \<in> set (indexSpines index); names_spine l s; b \<in> set (locatedBlocks s);
      same_anchor_value l b; anchor (startLocator b) \<noteq> anchor l\<rbrakk>
    \<Longrightarrow> resolves index default_block l
         (RecoveredResolution NearestAnchor (position_in b (min (textOffsetCodePoints l) (textLengthCodePoints b))) b)"
| lost_anchor: "\<lbrakk>s \<in> set (indexSpines index); names_spine l s; locatedBlocks s \<noteq> [];
      \<forall>b \<in> set (locatedBlocks s). \<not> same_anchor_value l b;
      b = locatedBlocks s ! min (nat (anchorIndex (anchor l))) (length (locatedBlocks s) - 1)\<rbrakk>
    \<Longrightarrow> resolves index default_block l
         (RecoveredResolution NearestAnchor (position_in b (min (textOffsetCodePoints l) (textLengthCodePoints b))) b)"
| empty_spine: "\<lbrakk>s \<in> set (indexSpines index); names_spine l s; locatedBlocks s = [];
      nearest_in (indexSpines index) (locatedSpineIndex s) t\<rbrakk>
    \<Longrightarrow> resolves index default_block l (RecoveredResolution NearestSpine (startLocator (hd (locatedBlocks t))) (hd (locatedBlocks t)))"
| lost_spine: "\<lbrakk>\<forall>s \<in> set (indexSpines index). \<not> names_spine l s; start_block index default_block = Some b\<rbrakk>
    \<Longrightarrow> resolves index default_block l (RecoveredResolution BookStart (startLocator b) b)"

inductive_cases resolvesE: "resolves index default_block l r"

section \<open>The resolver meets its contract\<close>

lemma createBlockLocatorAtOffset_position:
  assumes "locator_wf (startLocator b)" and "textOffsetCodePoints (startLocator b) = 0"
    and "0 \<le> n" "n \<le> MAX_SAFE_INTEGER"
  shows "createBlockLocatorAtOffset b (Integral n) =
    (if n \<le> textLengthCodePoints b then Inr (position_in b n) else Inl LocatorUnresolved)"
proof -
  have "locator_wf (startLocator b\<lparr>textOffsetCodePoints := n\<rparr>)" using assms by (simp add: locator_wf_def)
  moreover have "position_in b 0 = startLocator b"
    unfolding position_in_def by (rule reading_locator.equality) (simp_all add: assms(2))
  ultimately show ?thesis
    using assms(3,4) by (simp add: createBlockLocatorAtOffset_def position_in_def is_count_iff MAX_SAFE_INTEGER_def
        decodeReadingLocatorV1_wire)
qed

text \<open>What an index offers a block: a canonical start and a length.\<close>

definition block_wf :: "located_block \<Rightarrow> bool" where
  "block_wf b \<longleftrightarrow> locator_wf (startLocator b) \<and> textOffsetCodePoints (startLocator b) = 0 \<and> 0 \<le> textLengthCodePoints b"

lemma spine_wf_nth:
  assumes "spine_wf ident s" and "i < length (locatedBlocks s)"
  shows "block_wf (locatedBlocks s ! i) \<and> anchorIndex (anchor (startLocator (locatedBlocks s ! i))) = int i \<and>
    spineItemId (startLocator (locatedBlocks s ! i)) = locatedSpineId s \<and>
    spineItemIndex (startLocator (locatedBlocks s ! i)) = locatedSpineIndex s \<and>
    bookIdentity (startLocator (locatedBlocks s ! i)) = ident \<and> progression (startLocator (locatedBlocks s ! i)) = None"
proof -
  from assms obtain v where "startLocator (locatedBlocks s ! i) =
      block_position ident (locatedSpineId s) (locatedSpineIndex s) v i 0"
    "locator_wf (startLocator (locatedBlocks s ! i))"
    "textLengthCodePoints (locatedBlocks s ! i) = int (block_length (locatedBlock (locatedBlocks s ! i)))"
    unfolding spine_wf_def by blast
  then show ?thesis by (simp add: block_wf_def block_position_def)
qed

lemma index_wf_block:
  assumes "index_wf index" and "b \<in> set (indexBlocks index)"
  obtains s where "s \<in> set (indexSpines index)" "b \<in> set (locatedBlocks s)"
    "spineItemId (startLocator b) = locatedSpineId s" "spineItemIndex (startLocator b) = locatedSpineIndex s"
    "bookIdentity (startLocator b) = indexIdentity index" "block_wf b"
proof -
  from assms obtain s where s: "s \<in> set (indexSpines index)" "b \<in> set (locatedBlocks s)" "spine_wf (indexIdentity index) s"
    by (auto simp: index_wf_def)
  from s(2) obtain i where "i < length (locatedBlocks s)" "b = locatedBlocks s ! i" by (metis in_set_conv_nth)
  with spine_wf_nth [OF s(3)] s show ?thesis by (intro that) auto
qed

lemma index_wf_spine_block:
  assumes "index_wf index" and "s \<in> set (indexSpines index)" and "b \<in> set (locatedBlocks s)"
  shows "b \<in> set (indexBlocks index) \<and> block_wf b"
proof -
  from assms have "b \<in> set (indexBlocks index)" by (auto simp: index_wf_def)
  with assms(1) show ?thesis by (metis index_wf_block)
qed

section \<open>The searches of the resolver\<close>

lemma outcomes_findMatchingSpine:
  "outcomes (findMatchingSpine ss l) (\<lambda>r. r = find (names_spine l) ss) interruption"
proof (induction ss)
  case (Cons s ss)
  show ?case
    unfolding findMatchingSpine.simps
    by (rule outcomes_andThen [OF outcomes_checkpoint])
      (auto simp: names_spine_def intro!: outcomes_ok outcomes_mono [OF Cons])
qed (simp)

lemma outcomes_findAnchorByValue:
  "outcomes (findAnchorByValue bs l) (\<lambda>r. r = find (same_anchor_value l) bs) interruption"
proof (induction bs)
  case (Cons b bs)
  show ?case
    unfolding findAnchorByValue.simps
    by (rule outcomes_andThen [OF outcomes_checkpoint])
      (auto simp: same_anchor_value_def intro!: outcomes_ok outcomes_mono [OF Cons])
qed (simp)

lemma outcomes_firstAddressableBlock:
  "outcomes (firstAddressableBlock ss)
     (\<lambda>r. r = (case concat (map locatedBlocks ss) of [] \<Rightarrow> None | b # _ \<Rightarrow> Some b)) interruption"
proof (induction ss)
  case (Cons s ss)
  show ?case
    unfolding firstAddressableBlock.simps
    by (rule outcomes_andThen [OF outcomes_checkpoint])
      (cases "locatedBlocks s"; simp add: Cons outcomes_ok del: concat_eq_Nil_conv)
qed (simp)

text \<open>What the loop of \<open>nearestAddressableSpine\<close> has found in the spine items it has seen.\<close>

definition best_so_far :: "located_spine list \<Rightarrow> int \<Rightarrow> (located_spine \<times> int) option \<Rightarrow> bool" where
  "best_so_far ss i best = (case best of None \<Rightarrow> \<forall>s \<in> set ss. locatedBlocks s = []
     | Some (s, d) \<Rightarrow> d = \<bar>locatedSpineIndex s - i\<bar> \<and> nearest_in ss i s)"

lemma nearest_in_snoc:
  "nearest_in ss i s \<Longrightarrow> locatedBlocks t = [] \<or> \<bar>locatedSpineIndex s - i\<bar> \<le> \<bar>locatedSpineIndex t - i\<bar> \<Longrightarrow>
     nearest_in (ss @ [t]) i s"
  unfolding nearest_in_def by force

lemma nearest_in_better:
  assumes "nearest_in ss i s" and "locatedBlocks t \<noteq> []" and "\<bar>locatedSpineIndex t - i\<bar> < \<bar>locatedSpineIndex s - i\<bar>"
  shows "nearest_in (ss @ [t]) i t"
  using assms unfolding nearest_in_def by (intro conjI exI [of _ ss] exI [of _ "[]"]) force+

lemma best_so_far_step:
  assumes "best_so_far ss i best" and "locatedBlocks t \<noteq> []"
  shows "best_so_far (ss @ [t]) i (case best of None \<Rightarrow> Some (t, \<bar>locatedSpineIndex t - i\<bar>)
     | Some (s, d) \<Rightarrow> if \<bar>locatedSpineIndex t - i\<bar> < d then Some (t, \<bar>locatedSpineIndex t - i\<bar>) else best)"
proof (cases best)
  case None
  then have "nearest_in (ss @ [t]) i t"
    using assms unfolding best_so_far_def nearest_in_def
    by (intro conjI exI [of _ ss] exI [of _ "[]"]) auto
  with None show ?thesis by (simp add: best_so_far_def)
next
  case (Some sd)
  with assms show ?thesis
    by (cases sd) (auto simp: best_so_far_def intro: nearest_in_better nearest_in_snoc)
qed

lemma outcomes_nearestSpineFrom:
  "best_so_far ss\<^sub>0 i best \<Longrightarrow> outcomes (nearestSpineFrom ss i best) (best_so_far (ss\<^sub>0 @ ss) i) interruption"
proof (induction ss arbitrary: ss\<^sub>0 best)
  case (Cons s ss)
  show ?case
    unfolding nearestSpineFrom.simps
  proof (rule outcomes_andThen [OF outcomes_checkpoint])
    show "outcomes (if locatedBlocks s = [] then nearestSpineFrom ss i best
       else let distance = \<bar>locatedSpineIndex s - i\<bar> in
         nearestSpineFrom ss i (case best of None \<Rightarrow> Some (s, distance)
           | Some (_, d) \<Rightarrow> if distance < d then Some (s, distance) else best))
      (best_so_far (ss\<^sub>0 @ s # ss) i) interruption"
    proof (cases "locatedBlocks s = []")
      case True
      then have "best_so_far (ss\<^sub>0 @ [s]) i best"
        using Cons.prems by (auto simp: best_so_far_def intro: nearest_in_snoc split: option.splits)
      from Cons.IH [OF this] True show ?thesis by simp
    next
      case False
      from Cons.IH [OF best_so_far_step [OF Cons.prems False]] False show ?thesis by (simp add: Let_def)
    qed
  qed
qed (simp)

lemma outcomes_nearestAddressableSpine:
  "outcomes (nearestAddressableSpine index i) (\<lambda>r. case r of
     None \<Rightarrow> \<forall>s \<in> set (indexSpines index). locatedBlocks s = [] | Some s \<Rightarrow> nearest_in (indexSpines index) i s) interruption"
  unfolding nearestAddressableSpine_def
proof (rule outcomes_andThen [OF outcomes_nearestSpineFrom [where ss\<^sub>0 = "[]"]])
  show "best_so_far [] i None" by (simp add: best_so_far_def)
qed (auto simp: best_so_far_def intro!: outcomes_ok split: option.splits)

section \<open>The resolver meets its contract\<close>

lemma outcomes_recoverBookStart:
  assumes "index_wf index" and "\<forall>b. default_block = Some (Some b) \<longrightarrow> b \<in> set (indexBlocks index)"
  shows "outcomes (recoverBookStart index l default_block)
     (\<lambda>r. \<exists>b. start_block index default_block = Some b \<and> r = RecoveredResolution BookStart (startLocator b) b)
     (\<lambda>e. interruption e \<or> e = LocatorUnresolved \<and> start_block index default_block = None)"
  unfolding recoverBookStart_def
proof (rule outcomes_andThen [where P = "\<lambda>r. r = start_block index default_block"])
  show "outcomes (case default_block of None \<Rightarrow> firstAddressableBlock (indexSpines index) | Some b \<Rightarrow> ok b)
     (\<lambda>r. r = start_block index default_block)
     (\<lambda>e. interruption e \<or> e = LocatorUnresolved \<and> start_block index default_block = None)"
    using assms(1) outcomes_firstAddressableBlock [of "indexSpines index"]
    by (cases default_block) (auto simp: start_block_def index_wf_def intro: outcomes_mono)
next
  fix start
  assume start: "start = start_block index default_block"
  show "outcomes (case start of None \<Rightarrow> raise LocatorUnresolved
      | Some b \<Rightarrow> andThen checkpoint (\<lambda>_. lift (recoveredResolution b (textOffsetCodePoints l) BookStart False)))
     (\<lambda>r. \<exists>b. start_block index default_block = Some b \<and> r = RecoveredResolution BookStart (startLocator b) b)
     (\<lambda>e. interruption e \<or> e = LocatorUnresolved \<and> start_block index default_block = None)"
  proof (cases start)
    case (Some b)
    then have "b \<in> set (indexBlocks index)"
      using assms start by (auto simp: start_block_def split: option.splits list.splits)
    then have "block_wf b" by (metis assms(1) index_wf_block)
    then have "recoveredResolution b (textOffsetCodePoints l) BookStart False =
        Inr (RecoveredResolution BookStart (startLocator b) b)"
      by (simp add: recoveredResolution_def resolvedLocator_def createBlockLocatorAtOffset_def block_wf_def is_count_iff)
    with Some start show ?thesis
      by (auto simp: lift_def intro!: outcomes_after_checkpoint)
  qed (use start in \<open>simp add: outcomes_raise\<close>)
qed

lemma recovered_position:
  assumes "block_wf b" and "0 \<le> n" "n \<le> MAX_SAFE_INTEGER"
  shows "recoveredResolution b n reason True = Inr (RecoveredResolution reason (position_in b (min n (textLengthCodePoints b))) b)"
    and "n \<le> textLengthCodePoints b \<Longrightarrow> exactResolution b n = Inr (ExactResolution (position_in b n) b)"
  using assms createBlockLocatorAtOffset_position [of b "min n (textLengthCodePoints b)"]
  by (simp_all add: recoveredResolution_def exactResolution_def resolvedLocator_def block_wf_def min.absorb1)

lemma outcomes_recoverNearestSpine:
  assumes "index_wf index"
  shows "outcomes (recoverNearestSpine index l s)
     (\<lambda>r. \<exists>t. nearest_in (indexSpines index) (locatedSpineIndex s) t \<and>
        r = RecoveredResolution NearestSpine (startLocator (hd (locatedBlocks t))) (hd (locatedBlocks t)))
     (\<lambda>e. interruption e \<or> e = LocatorUnresolved \<and> (\<forall>t \<in> set (indexSpines index). locatedBlocks t = []))"
  unfolding recoverNearestSpine_def
proof (rule outcomes_andThen [OF outcomes_mono [OF outcomes_nearestAddressableSpine]])
  fix r
  assume r: "case r of None \<Rightarrow> \<forall>s \<in> set (indexSpines index). locatedBlocks s = []
    | Some t \<Rightarrow> nearest_in (indexSpines index) (locatedSpineIndex s) t"
  show "outcomes (case r of None \<Rightarrow> raise LocatorUnresolved
     | Some t \<Rightarrow> (case locatedBlocks t of [] \<Rightarrow> raise LocatorUnresolved
         | b # _ \<Rightarrow> andThen checkpoint (\<lambda>_. lift (recoveredResolution b (textOffsetCodePoints l) NearestSpine False))))
     (\<lambda>r. \<exists>t. nearest_in (indexSpines index) (locatedSpineIndex s) t \<and>
        r = RecoveredResolution NearestSpine (startLocator (hd (locatedBlocks t))) (hd (locatedBlocks t)))
     (\<lambda>e. interruption e \<or> e = LocatorUnresolved \<and> (\<forall>t \<in> set (indexSpines index). locatedBlocks t = []))"
  proof (cases r)
    case (Some t)
    with r obtain b bs where t: "locatedBlocks t = b # bs" and near: "nearest_in (indexSpines index) (locatedSpineIndex s) t"
      by (auto simp: nearest_in_def neq_Nil_conv)
    then have "t \<in> set (indexSpines index)" by (auto simp: nearest_in_def)
    with t have "block_wf b" using index_wf_spine_block [OF assms] by fastforce
    then have "recoveredResolution b (textOffsetCodePoints l) NearestSpine False =
        Inr (RecoveredResolution NearestSpine (startLocator b) b)"
      by (simp add: recoveredResolution_def resolvedLocator_def createBlockLocatorAtOffset_def block_wf_def is_count_iff)
    with Some t near show ?thesis
      by (auto simp: lift_def intro!: outcomes_after_checkpoint exI [of _ t])
  qed (use r in simp)
qed simp_all

text \<open>Within a spine item that has blocks.\<close>

lemma exactAnchor_anchor:
  assumes "spine_wf ident s" and "locator_wf l"
  shows "case exactAnchor s l of
      Some b \<Rightarrow> b \<in> set (locatedBlocks s) \<and> anchor (startLocator b) = anchor l
    | None \<Rightarrow> \<forall>b \<in> set (locatedBlocks s). anchor (startLocator b) \<noteq> anchor l"
proof (cases "exactAnchor s l")
  case (Some b)
  then obtain i where i: "i < length (locatedBlocks s)" "b = locatedBlocks s ! i" "anchorIndex (anchor (startLocator b)) = anchorIndex (anchor l)"
    "anchorValue (anchor (startLocator b)) = anchorValue (anchor l)"
    by (auto simp: exactAnchor_def Let_def split: if_splits)
  then have "locator_wf (startLocator b)" using spine_wf_nth [OF assms(1)] by (auto simp: block_wf_def)
  then have "formatVersion (anchor (startLocator b)) = formatVersion (anchor l)"
    using assms(2) by (simp add: locator_wf_def anchor_wf_def)
  moreover have "anchorKind (anchor (startLocator b)) = anchorKind (anchor l)"
    by (metis anchor_kind.exhaust)
  ultimately show ?thesis using Some i by (auto intro: structural_anchor.equality)
next
  case None
  have "anchor (startLocator (locatedBlocks s ! i)) \<noteq> anchor l" if "i < length (locatedBlocks s)" for i
    using None spine_wf_nth [OF assms(1) that] that by (auto simp: exactAnchor_def Let_def)
  with None show ?thesis by (auto simp: in_set_conv_nth)
qed

lemma nearestAnchorByIndex_block:
  assumes "locatedBlocks s \<noteq> []" and "0 \<le> anchorIndex (anchor l)"
  shows "nearestAnchorByIndex s l =
    Inr (locatedBlocks s ! min (nat (anchorIndex (anchor l))) (length (locatedBlocks s) - 1))"
proof -
  have "0 < length (locatedBlocks s)" using assms(1) by simp
  then have "nat (min (anchorIndex (anchor l)) (int (length (locatedBlocks s)) - 1)) =
      min (nat (anchorIndex (anchor l))) (length (locatedBlocks s) - 1)"
    and "0 \<le> min (anchorIndex (anchor l)) (int (length (locatedBlocks s)) - 1)"
    and "min (nat (anchorIndex (anchor l))) (length (locatedBlocks s) - 1) < length (locatedBlocks s)"
    using assms(2) by linarith+
  then show ?thesis by (simp add: nearestAnchorByIndex_def Let_def)
qed

lemma outcomes_resolveInSpine:
  assumes "index_wf index" and "s \<in> set (indexSpines index)" and "names_spine l s" and "locatedBlocks s \<noteq> []"
    and "locator_wf l"
  shows "outcomes (resolveInSpine l s) (resolves index default_block l) interruption"
proof -
  have wf: "spine_wf (indexIdentity index) s" using assms(1,2) by (simp add: index_wf_def)
  have l: "0 \<le> textOffsetCodePoints l" "textOffsetCodePoints l \<le> MAX_SAFE_INTEGER" "0 \<le> anchorIndex (anchor l)"
    using assms(5) by (simp_all add: locator_wf_def anchor_wf_def)
  have blk: "block_wf b" if "b \<in> set (locatedBlocks s)" for b
    using index_wf_spine_block [OF assms(1,2) that] by simp
  show ?thesis
  proof (cases "exactAnchor s l")
    case (Some b)
    then have b: "b \<in> set (locatedBlocks s)" "anchor (startLocator b) = anchor l"
      using exactAnchor_anchor [OF wf assms(5)] by simp_all
    note pos = recovered_position [OF blk [OF b(1)] l(1,2)]
    show ?thesis
    proof (cases "textOffsetCodePoints l \<le> textLengthCodePoints b")
      case True
      with resolves.at_anchor [OF assms(2,3) b] pos Some show ?thesis
        by (auto simp: resolveInSpine_def lift_def intro!: outcomes_after_checkpoint)
    next
      case False
      with resolves.past_end [OF assms(2,3) b] pos Some show ?thesis
        by (auto simp: resolveInSpine_def lift_def min.absorb2 intro!: outcomes_after_checkpoint)
    qed
  next
    case None
    then have moved: "\<forall>b \<in> set (locatedBlocks s). anchor (startLocator b) \<noteq> anchor l"
      using exactAnchor_anchor [OF wf assms(5)] by simp
    let ?near = "\<lambda>b. RecoveredResolution NearestAnchor
      (position_in b (min (textOffsetCodePoints l) (textLengthCodePoints b))) b"
    have found: "\<exists>b. (case find (same_anchor_value l) (locatedBlocks s) of Some b \<Rightarrow> Inr b | None \<Rightarrow> nearestAnchorByIndex s l) = Inr b \<and>
        b \<in> set (locatedBlocks s) \<and> resolves index default_block l (?near b)"
    proof (cases "find (same_anchor_value l) (locatedBlocks s)")
      case (Some b)
      then have "b \<in> set (locatedBlocks s)" "same_anchor_value l b" by (auto simp: find_Some_iff)
      with Some moved resolves.moved_anchor [OF assms(2,3)] show ?thesis by auto
    next
      case None
      let ?b = "locatedBlocks s ! min (nat (anchorIndex (anchor l))) (length (locatedBlocks s) - 1)"
      have "?b \<in> set (locatedBlocks s)" by (rule nth_mem) (use assms(4) in \<open>simp add: min_less_iff_disj\<close>)
      moreover have "resolves index default_block l (?near ?b)"
        using None by (intro resolves.lost_anchor [OF assms(2-4) _ refl]) (simp add: find_None_iff)
      ultimately show ?thesis using None nearestAnchorByIndex_block [OF assms(4) l(3)] by auto
    qed
    then obtain b where b: "(case find (same_anchor_value l) (locatedBlocks s) of Some b \<Rightarrow> Inr b | None \<Rightarrow> nearestAnchorByIndex s l) = Inr b"
      "b \<in> set (locatedBlocks s)" "resolves index default_block l (?near b)" by blast
    note pos = recovered_position(1) [OF blk [OF b(2)] l(1,2)]
    show ?thesis
      unfolding resolveInSpine_def None option.case
    proof (rule outcomes_andThen [OF outcomes_findAnchorByValue])
      fix matching
      assume "matching = find (same_anchor_value l) (locatedBlocks s)"
      then show "outcomes (andThen (lift (case matching of Some b \<Rightarrow> Inr b | None \<Rightarrow> nearestAnchorByIndex s l)) (\<lambda>b.
          andThen checkpoint (\<lambda>_. lift (recoveredResolution b (textOffsetCodePoints l) NearestAnchor True))))
        (resolves index default_block l) interruption"
        using b pos by (auto simp: lift_def andThen_ok intro!: outcomes_after_checkpoint)
    qed
  qed
qed

lemma spine_unique:
  "index_wf index \<Longrightarrow> s \<in> set (indexSpines index) \<Longrightarrow> t \<in> set (indexSpines index) \<Longrightarrow>
     names_spine l s \<Longrightarrow> names_spine l t \<Longrightarrow> s = t"
  by (auto simp: index_wf_def names_spine_def distinct_map inj_on_def)

lemma outcomes_resolvePublicationLocator:
  assumes "index_wf index" and "\<forall>b. default_block = Some (Some b) \<longrightarrow> b \<in> set (indexBlocks index)"
  shows "outcomes (resolvePublicationLocator index v default_block)
    (\<lambda>r. \<exists>l. decodeReadingLocatorV1 v = Inr l \<and> bookIdentity l = indexIdentity index \<and> resolves index default_block l r)
    (\<lambda>e. interruption e \<or> e = LocatorUnresolved \<and>
       (\<forall>l. decodeReadingLocatorV1 v = Inr l \<longrightarrow> bookIdentity l = indexIdentity index \<longrightarrow> (\<forall>r. \<not> resolves index default_block l r)))"
    (is "outcomes _ ?Q ?F")
  unfolding resolvePublicationLocator_def
proof (rule outcomes_after_checkpoint, simp, rule outcomes_andThen [OF outcomes_lift])
  fix l
  assume "decodeLocator v = Inr l"
  then show "decodeReadingLocatorV1 v = Inr l" by (auto simp: decodeLocator_def split: sum.splits locator_failure.splits)
next
  fix e
  assume "decodeLocator v = Inl e"
  then show "?F e" by (auto simp: decodeLocator_def interruption_def split: sum.splits locator_failure.splits)
next
  fix l
  assume dec: "decodeReadingLocatorV1 v = Inr l"
  note wf = decodeReadingLocatorV1_wf [OF dec]
  show "outcomes (andThen (throwIf (\<not> bookIdentitiesMatch (indexIdentity index) (bookIdentity l)) LocatorUnresolved) (\<lambda>_.
      andThen (findMatchingSpine (indexSpines index) l) (\<lambda>spine. case spine of
        None \<Rightarrow> recoverBookStart index l default_block
      | Some s \<Rightarrow> if locatedBlocks s = [] then recoverNearestSpine index l s else resolveInSpine l s))) ?Q ?F"
  proof (rule outcomes_andThen [OF outcomes_throwIf [where P = "\<lambda>_. bookIdentity l = indexIdentity index"]])
    assume ident: "bookIdentity l = indexIdentity index"
    show "outcomes (andThen (findMatchingSpine (indexSpines index) l) (\<lambda>spine. case spine of
        None \<Rightarrow> recoverBookStart index l default_block
      | Some s \<Rightarrow> if locatedBlocks s = [] then recoverNearestSpine index l s else resolveInSpine l s)) ?Q ?F"
    proof (rule outcomes_andThen [OF outcomes_mono [OF outcomes_findMatchingSpine]])
      fix spine
      assume spine: "spine = find (names_spine l) (indexSpines index)"
      show "outcomes (case spine of None \<Rightarrow> recoverBookStart index l default_block
        | Some s \<Rightarrow> if locatedBlocks s = [] then recoverNearestSpine index l s else resolveInSpine l s) ?Q ?F"
      proof (cases spine)
        case None
        then have no: "\<forall>s \<in> set (indexSpines index). \<not> names_spine l s" using spine by (auto simp: find_None_iff)
        show ?thesis
          unfolding None option.case
          by (rule outcomes_mono [OF outcomes_recoverBookStart [OF assms]])
            (use no dec ident in \<open>auto intro: resolves.lost_spine elim!: resolvesE\<close>)
      next
        case (Some s)
        then have s: "s \<in> set (indexSpines index)" "names_spine l s" using spine by (auto simp: find_Some_iff)
        note one = spine_unique [OF assms(1) s(1) _ s(2)]
        show ?thesis
        proof (cases "locatedBlocks s = []")
          case True
          have nowhere: "\<not> resolves index default_block l r" if none: "\<forall>t \<in> set (indexSpines index). locatedBlocks t = []" for r
          proof
            assume "resolves index default_block l r"
            then show False
              by (rule resolvesE) (use none s in \<open>auto simp: nearest_in_def\<close>)
          qed
          show ?thesis
            unfolding Some option.case if_P [OF True]
            by (rule outcomes_mono [OF outcomes_recoverNearestSpine [OF assms(1)]])
              (use dec ident resolves.empty_spine [OF s True] in blast, use dec nowhere in auto)
        next
          case False
          show ?thesis
            unfolding Some option.case if_not_P [OF False]
            by (rule outcomes_mono [OF outcomes_resolveInSpine [OF assms(1) s False wf]]) (use dec ident in auto)
        qed
      qed
    qed simp_all
  qed (use dec in \<open>auto simp: bookIdentitiesMatch_eq\<close>)
qed

section \<open>A small publication\<close>

definition sample_book :: publication_book where
  "sample_book = \<lparr>publicationIdentity = sample_identity,
     publicationSpine = [\<lparr>spineId = js ''c0'', spineIndex = 0\<rparr>, \<lparr>spineId = js ''c1'', spineIndex = 1\<rparr>]\<rparr>"

definition sample_title :: semantic_block where
  "sample_title = SemanticHeading 1 2 [InlineText (js ''Hi''), InlineLineBreak]"

definition sample_body :: semantic_block where
  "sample_body = SemanticParagraph 2 [InlineEmphasis [InlineText (js ''you'')]]"

definition sample_projections :: "document_projection list" where
  "sample_projections =
     [\<lparr>projectedDocument = \<lparr>documentId = js ''d1'', documentLocation = SpineLocation (js ''c1'') 1,
          documentBlocks = [sample_title, sample_body]\<rparr>,
        addressableBlocks = [\<lparr>projectedBlock = sample_title, sourceElementId = Some (js ''t'')\<rparr>,
          \<lparr>projectedBlock = sample_body, sourceElementId = None\<rparr>]\<rparr>,
      \<lparr>projectedDocument = \<lparr>documentId = js ''d0'', documentLocation = SpineLocation (js ''c0'') 0, documentBlocks = []\<rparr>,
        addressableBlocks = []\<rparr>]"

lemma sample_checkpoint: "checkpoint (sample_budget\<lparr>looked := n\<rparr>) = (Inr (), sample_budget\<lparr>looked := Suc n\<rparr>)"
  by (simp add: checkpoint_def Let_def sample_budget_def quiet_env_def js_sub_def MAX_SAFE_INTEGER_def default_policy_simps)

lemma sample_codes:
  "code_points (js ''c0'') = [99, 48]" "code_points (js ''c1'') = [99, 49]" "code_points (js ''t'') = [116]"
  "code_points (js ''voxleaf-s1-a1'') = [118, 111, 120, 108, 101, 97, 102, 45, 115, 49, 45, 97, 49]"
  by (simp_all add: js_def is_high_surrogate_def is_low_surrogate_def)

lemma sample_positions_wf:
  "locator_wf (block_position sample_identity (js ''c1'') 1 (js ''t'') 0 0)"
  "locator_wf (block_position sample_identity (js ''c1'') 1 (js ''voxleaf-s1-a1'') (Suc 0) 0)"
  by (simp_all add: locator_wf_def identity_wf_def anchor_wf_def block_position_def sample_identity_def
      sample_code_points sample_codes MAX_SAFE_INTEGER_def scheme_pattern_def identity_value_pattern_def
      anchor_pattern_def identifier_pattern_def is_alnum_def is_lower_def is_upper_def is_digit_def
      identifier_edge_def is_control_character_def)

lemma sample_anchor: "avoidCollisions (anchor_base 1 (Suc 0)) [js ''t''] 0 = ok (js ''voxleaf-s1-a1'')"
  by (simp add: avoidCollisions.simps collision_candidate_def anchor_base_def js_def decimal.simps)

lemma sample_lengths:
  "blockTextLengthCodePoints sample_title (sample_budget\<lparr>looked := n\<rparr>) = (Inr 3, sample_budget\<lparr>looked := n + 2\<rparr>)"
  "blockTextLengthCodePoints sample_body (sample_budget\<lparr>looked := n\<rparr>) = (Inr 3, sample_budget\<lparr>looked := n + 2\<rparr>)"
  by (simp_all add: sample_title_def sample_body_def andThen_apply sample_checkpoint countTextCodePoints_def
     countFrom.simps codePointAt_def js_def Let_def is_high_surrogate_def lift_def addLengths_def safe_integer_def
     MAX_SAFE_INTEGER_def TEXT_CHECKPOINT_INTERVAL_def)

definition sample_title_block :: located_block where
  "sample_title_block = \<lparr>locatedDocument = js ''d1'', locatedBlock = sample_title,
     startLocator = block_position sample_identity (js ''c1'') 1 (js ''t'') 0 0, textLengthCodePoints = 3\<rparr>"

definition sample_body_block :: located_block where
  "sample_body_block = \<lparr>locatedDocument = js ''d1'', locatedBlock = sample_body,
     startLocator = block_position sample_identity (js ''c1'') 1 (js ''voxleaf-s1-a1'') 1 0, textLengthCodePoints = 3\<rparr>"

definition sample_index :: locator_index where
  "sample_index = \<lparr>indexIdentity = sample_identity,
     indexSpines = [\<lparr>locatedSpineId = js ''c0'', locatedSpineIndex = 0, locatedBlocks = []\<rparr>,
       \<lparr>locatedSpineId = js ''c1'', locatedSpineIndex = 1, locatedBlocks = [sample_title_block, sample_body_block]\<rparr>],
     indexBlocks = [sample_title_block, sample_body_block]\<rparr>"

lemma sample_locators:
  "trySourceLocator sample_book \<lparr>spineId = js ''c1'', spineIndex = 1\<rparr> (js ''t'') 0 =
     Inr (Some (block_position sample_identity (js ''c1'') 1 (js ''t'') 0 0))"
  "createRequiredLocator sample_book \<lparr>spineId = js ''c1'', spineIndex = 1\<rparr> (js ''voxleaf-s1-a1'') (Suc 0) 0 =
     Inr (block_position sample_identity (js ''c1'') 1 (js ''voxleaf-s1-a1'') 1 0)"
  using sample_positions_wf
  by (simp_all add: trySourceLocator_def createRequiredLocator_def locatorInput_wire decodeReadingLocatorV1_wire sample_book_def)

lemma sample_order: "assertProjectionOrder (sample_projections ! i) = Inr ()" if "i < 2"
  using that by (cases i) (auto simp: assertProjectionOrder_Inr sample_projections_def collectBlocks_def sample_title_def
      sample_body_def less_Suc_eq)

lemma block_position_value [simp]: "anchorValue (anchor (block_position ident sid six v i n)) = v"
  by (simp add: block_position_def)

lemma sample_sources:
  "collectSourceLocators sample_book \<lparr>spineId = js ''c1'', spineIndex = 1\<rparr> (addressableBlocks (sample_projections ! 0)) (sample_budget\<lparr>looked := n\<rparr>) =
     (Inr ([Some (block_position sample_identity (js ''c1'') 1 (js ''t'') 0 0), None], [js ''t'']), sample_budget\<lparr>looked := n + 2\<rparr>)"
  by (simp add: collectSourceLocators_def sample_projections_def andThen_apply sample_checkpoint sourceLocator_def
      sourceCandidateCounts_def sample_locators lift_def)

lemma sample_located:
  "locateDocumentBlocks sample_book \<lparr>spineId = js ''c1'', spineIndex = 1\<rparr> (sample_projections ! 0) (sample_budget\<lparr>looked := n\<rparr>) =
     (Inr [sample_title_block, sample_body_block], sample_budget\<lparr>looked := n + 8\<rparr>)"
  by (simp add: locateDocumentBlocks_def sample_order lift_def andThen_ok andThen_apply sample_sources)
   (simp add: sample_projections_def andThen_apply sample_checkpoint lift_def
      locateBlock_def blockLocator_def generatedAnchorValue_def sample_lengths sample_locators
      sample_anchor [unfolded One_nat_def] sample_title_block_def sample_body_block_def)

lemma sample_located_empty:
  "locateDocumentBlocks sample_book \<lparr>spineId = js ''c0'', spineIndex = 0\<rparr> (sample_projections ! 1) (sample_budget\<lparr>looked := n\<rparr>) =
     (Inr [], sample_budget\<lparr>looked := n\<rparr>)"
  by (simp add: locateDocumentBlocks_def sample_order [of 1, simplified] lift_def andThen_ok andThen_apply)
   (simp add: sample_projections_def andThen_apply collectSourceLocators_def)

lemma sample_index_created:
  "createPublicationLocatorIndex sample_book sample_projections (sample_budget\<lparr>looked := n\<rparr>) =
     (Inr sample_index, sample_budget\<lparr>looked := n + 14\<rparr>)"
proof -
  obtain p q where pq: "sample_projections = [p, q]" "p = sample_projections ! 0" "q = sample_projections ! 1"
    by (simp add: sample_projections_def)
  have loc: "documentLocation (projectedDocument p) = SpineLocation (js ''c1'') 1"
    "documentLocation (projectedDocument q) = SpineLocation (js ''c0'') 0"
    by (simp_all add: pq(2,3)) (simp_all add: sample_projections_def)
  have spine: "publicationSpine sample_book = [\<lparr>spineId = js ''c0'', spineIndex = 0\<rparr>, \<lparr>spineId = js ''c1'', spineIndex = 1\<rparr>]"
    "publicationIdentity sample_book = sample_identity"
    by (simp_all add: sample_book_def)
  show ?thesis
    using sample_located [folded pq(2)] sample_located_empty [folded pq(3)] sample_order [of 0, folded pq(2)] sample_order [of 1, folded pq(3)]
    by (simp add: createPublicationLocatorIndex_def pq(1) andThen_apply indexProjection_def sample_checkpoint loc
        lift_def spineItemAt_def locateSpineItem_def spine sample_index_def)
qed

lemma sample_book_wf: "book_wf sample_book"
  by (simp add: book_wf_def sample_book_def less_Suc_eq)

section \<open>Where a resolution lands\<close>

lemma start_block_member:
  "\<forall>b. default_block = Some (Some b) \<longrightarrow> b \<in> set (indexBlocks index) \<Longrightarrow>
     start_block index default_block = Some b \<Longrightarrow> b \<in> set (indexBlocks index)"
  by (auto simp: start_block_def split: option.splits list.splits)

lemma resolution_lands:
  assumes "index_wf index" and "\<forall>b. default_block = Some (Some b) \<longrightarrow> b \<in> set (indexBlocks index)"
    and "locator_wf l" and "resolves index default_block l r"
  shows "resolvedBlock r \<in> set (indexBlocks index) \<and>
    (\<exists>n. 0 \<le> n \<and> n \<le> textLengthCodePoints (resolvedBlock r) \<and> n \<le> MAX_SAFE_INTEGER \<and>
       resolvedTo r = position_in (resolvedBlock r) n)"
proof -
  have l: "0 \<le> textOffsetCodePoints l" "textOffsetCodePoints l \<le> MAX_SAFE_INTEGER"
    using assms(3) by (simp_all add: locator_wf_def)
  have blk: "b \<in> set (indexBlocks index) \<and> 0 \<le> textLengthCodePoints b \<and> startLocator b = position_in b 0"
    if "s \<in> set (indexSpines index)" "b \<in> set (locatedBlocks s)" for s b
    using index_wf_spine_block [OF assms(1) that] by (auto simp: block_wf_def position_in_def)
  have start: "0 \<le> textLengthCodePoints b \<and> startLocator b = position_in b 0" if "b \<in> set (indexBlocks index)" for b
  proof -
    have "block_wf b" using index_wf_block [OF assms(1) that] by metis
    then show ?thesis by (auto simp: block_wf_def position_in_def)
  qed
  have max: "(0 :: int) \<le> MAX_SAFE_INTEGER" by (simp add: MAX_SAFE_INTEGER_def)
  from assms(4) show ?thesis
  proof (cases rule: resolves.cases)
    case (at_anchor s b)
    then show ?thesis using blk [OF at_anchor(2,4)] l by auto
  next
    case (past_end s b)
    then show ?thesis using blk [OF past_end(2,4)] l by (auto intro!: exI [of _ "textLengthCodePoints b"])
  next
    case (moved_anchor s b)
    then show ?thesis using blk [OF moved_anchor(2,4)] l
      by (auto intro!: exI [of _ "min (textOffsetCodePoints l) (textLengthCodePoints b)"])
  next
    case (lost_anchor s b)
    have "b \<in> set (locatedBlocks s)"
      unfolding lost_anchor(6) by (rule nth_mem) (use lost_anchor(4) in \<open>simp add: min_less_iff_disj\<close>)
    then show ?thesis using blk [OF lost_anchor(2)] l lost_anchor(1)
      by (auto intro!: exI [of _ "min (textOffsetCodePoints l) (textLengthCodePoints b)"])
  next
    case (empty_spine s t)
    then have "t \<in> set (indexSpines index)" "hd (locatedBlocks t) \<in> set (locatedBlocks t)"
      by (auto simp: nearest_in_def)
    then show ?thesis using blk empty_spine(1) max by fastforce
  next
    case (lost_spine b)
    then have "b \<in> set (indexBlocks index)" using start_block_member [OF assms(2)] by simp
    then show ?thesis using start lost_spine(1) max by fastforce
  qed
qed

text \<open>A position of the index is found again where it is.\<close>

lemma position_resolves:
  assumes "index_wf index" and "b \<in> set (indexBlocks index)" and "0 \<le> n" "n \<le> textLengthCodePoints b"
    and "resolves index default_block (position_in b n) r"
  shows "r = ExactResolution (position_in b n) b"
proof -
  obtain s where s: "s \<in> set (indexSpines index)" "b \<in> set (locatedBlocks s)"
    "spineItemId (startLocator b) = locatedSpineId s" "spineItemIndex (startLocator b) = locatedSpineIndex s"
    using assms(1,2) by (rule index_wf_block)
  have names: "names_spine (position_in b n) s" using s by (simp add: names_spine_def position_in_def)
  have only: "t = s" if "t \<in> set (indexSpines index)" "names_spine (position_in b n) t" for t
    using spine_unique [OF assms(1) that(1) s(1) that(2) names] .
  have dist: "distinct (map (\<lambda>b. anchorValue (anchor (startLocator b))) (locatedBlocks s))"
    using assms(1) s(1) by (simp add: index_wf_def spine_wf_def)
  then have same: "c = b" if "c \<in> set (locatedBlocks s)" "same_anchor_value (position_in b n) c" for c
    using that s(2) by (auto simp: distinct_map inj_on_def same_anchor_value_def position_in_def)
  have sav: "same_anchor_value (position_in b n) b" by (simp add: same_anchor_value_def position_in_def)
  from assms(5) show ?thesis
  proof (cases rule: resolves.cases)
    case (at_anchor t c)
    then have "t = s" using only by simp
    moreover have "same_anchor_value (position_in b n) c" using at_anchor(5) by (simp add: same_anchor_value_def)
    ultimately have "c = b" using same at_anchor(4) by simp
    with at_anchor(1) show ?thesis by (simp add: position_in_def)
  next
    case (past_end t c)
    then have "t = s" using only by simp
    moreover have "same_anchor_value (position_in b n) c" using past_end(5) by (simp add: same_anchor_value_def)
    ultimately have "c = b" using same past_end(4) by simp
    with past_end(6) assms(4) show ?thesis by (simp add: position_in_def)
  next
    case (moved_anchor t c)
    then have "t = s" using only by simp
    then have "c = b" using same moved_anchor(4,5) by simp
    with moved_anchor(6) show ?thesis by (simp add: position_in_def)
  next
    case (lost_anchor t c)
    then have "t = s" using only by simp
    with lost_anchor(5) s(2) sav show ?thesis by blast
  next
    case (empty_spine t u)
    then have "t = s" using only by simp
    with empty_spine(4) s(2) show ?thesis by simp
  next
    case (lost_spine c)
    with s(1) names show ?thesis by blast
  qed
qed

lemma position_has_resolution:
  assumes "index_wf index" and "b \<in> set (indexBlocks index)" and "n \<le> textLengthCodePoints b"
  shows "\<exists>r. resolves index default_block (position_in b n) r"
proof -
  obtain s where s: "s \<in> set (indexSpines index)" "b \<in> set (locatedBlocks s)"
    "spineItemId (startLocator b) = locatedSpineId s" "spineItemIndex (startLocator b) = locatedSpineIndex s"
    using assms(1,2) by (rule index_wf_block)
  then have "resolves index default_block (position_in b n)
      (ExactResolution (position_in b (textOffsetCodePoints (position_in b n))) b)"
    by (intro resolves.at_anchor [OF s(1) _ s(2)]) (use assms(3) in \<open>simp_all add: names_spine_def position_in_def\<close>)
  then show ?thesis by blast
qed

section \<open>Properties\<close>

lemma created_index_wf:
  assumes "book_wf book" and "createPublicationLocatorIndex book ps w = (Inr index, w')"
  shows "index_wf index" "indexIdentity index = publicationIdentity book"
    "list_all2 (spine_located book ps) (publicationSpine book) (indexSpines index)"
proof -
  note made = yieldsD [OF created_index [OF assms(1)] assms(2)]
  then show "indexIdentity index = publicationIdentity book"
    "list_all2 (spine_located book ps) (publicationSpine book) (indexSpines index)" by simp_all
  from made show "index_wf index" by (intro located_index_wf [OF assms(1), where ps = ps]) simp_all
qed

text \<open>
  C14. The locator index is canonical: when it is created for a book whose spine is numbered in order,
  its spine items are those of the book in order, each located in the document of that item; the
  located blocks of an item are exactly the blocks of its document in reading order, headings,
  paragraphs, quotes, lists and their contents; every block starts at a valid locator of schema
  version 1 at offset 0 whose anchor index is the block's place and whose anchor value no other block
  of the item has, and its text length is the number of its code points, line breaks and images.
\<close>

theorem created_index_is_canonical:
  assumes "book_wf book" and "createPublicationLocatorIndex book ps w = (Inr index, w')"
  shows "index_wf index \<and> indexIdentity index = publicationIdentity book \<and>
    list_all2 (spine_located book ps) (publicationSpine book) (indexSpines index)"
  using created_index_wf [OF assms] by simp

theorem created_index_is_canonical_witness: "index_wf sample_index"
  using created_index_is_canonical [OF sample_book_wf sample_index_created [of 0]] by simp

text \<open>
  C15. Resolution implements its contract. Over the index of an open publication, a value resolves
  only if it decodes to a locator of that book, and then to what the declarative relation
  \<open>resolves\<close> allows: exactly at the anchor it names, at the end of a text that has become
  shorter, at the same anchor value elsewhere in the item, at the nearest anchor index, at the nearest
  spine item that has blocks, or at the start of the book, each only when nothing better applies. It
  fails with \<open>locator-unresolved\<close> only when nothing in the publication answers; any other failure is
  an interruption: a cancellation or an internal failure.
\<close>

theorem resolution_meets_contract:
  assumes "book_wf book" and "createPublicationLocatorIndex book ps w\<^sub>0 = (Inr index, w\<^sub>1)"
    and "\<forall>b. default_block = Some (Some b) \<longrightarrow> b \<in> set (indexBlocks index)"
    and "resolvePublicationLocator index v default_block w = (result, w')"
  shows "case result of
      Inr r \<Rightarrow> \<exists>l. decodeReadingLocatorV1 v = Inr l \<and> bookIdentity l = indexIdentity index \<and> resolves index default_block l r
    | Inl e \<Rightarrow> interruption e \<or> e = LocatorUnresolved \<and> (\<forall>l. decodeReadingLocatorV1 v = Inr l \<longrightarrow>
        bookIdentity l = indexIdentity index \<longrightarrow> (\<forall>r. \<not> resolves index default_block l r))"
proof -
  note out = outcomesD [OF outcomes_resolvePublicationLocator [OF created_index_wf(1) [OF assms(1,2)] assms(3)]]
  show ?thesis
    using out(1) [of v w _ w'] out(2) [of v w _ w'] assms(4) by (cases result) (simp_all only: sum.case)
qed

lemma position_result:
  assumes wf: "index_wf index" and "b \<in> set (indexBlocks index)" and "createBlockLocatorAtOffset b (Integral n) = Inr l"
    and "\<forall>c. default_block = Some (Some c) \<longrightarrow> c \<in> set (indexBlocks index)"
    and "resolvePublicationLocator index (locator_wire l) default_block w = (result, w')"
  shows "result = Inr (ExactResolution l b) \<or> (\<exists>e. result = Inl e \<and> interruption e)"
proof -
  obtain s where s: "s \<in> set (indexSpines index)" "bookIdentity (startLocator b) = indexIdentity index" "block_wf b"
    using wf assms(2) by (rule index_wf_block)
  have n: "0 \<le> n" "n \<le> MAX_SAFE_INTEGER" "n \<le> textLengthCodePoints b"
    using assms(3) by (auto simp: createBlockLocatorAtOffset_def is_count_iff MAX_SAFE_INTEGER_def split: if_splits)
  with createBlockLocatorAtOffset_position [of b n] s(3) assms(3) have l: "l = position_in b n"
    by (simp add: block_wf_def)
  with s(3) n have lwf: "locator_wf l" by (simp add: block_wf_def position_in_def locator_wf_def)
  have ident: "bookIdentity l = indexIdentity index" using l s(2) by (simp add: position_in_def)
  note out = outcomesD [OF outcomes_resolvePublicationLocator [OF wf assms(4)]]
  show ?thesis
  proof (cases result)
    case (Inr r)
    with out(1) assms(5) lwf have "resolves index default_block l r" by (fastforce simp: decodeReadingLocatorV1_wire)
    with position_resolves [OF wf assms(2) n(1,3)] l Inr show ?thesis by blast
  next
    case (Inl e)
    have "\<exists>r. resolves index default_block l r"
      using wf assms(2) n s l ident by (simp add: position_has_resolution)
    with out(2) assms(5) lwf ident Inl show ?thesis by (fastforce simp: decodeReadingLocatorV1_wire)
  qed
qed

text \<open>
  C16. Resolution is stable: whatever a value resolves to is a position of the publication, in a block
  of the index and within the text of that block, and that position, saved and resolved again against
  the same index, resolves exactly to itself, so recovery never drifts.
\<close>

theorem resolution_is_stable:
  assumes "book_wf book" and "createPublicationLocatorIndex book ps w\<^sub>0 = (Inr index, w\<^sub>1)"
    and "\<forall>c. default_block = Some (Some c) \<longrightarrow> c \<in> set (indexBlocks index)"
    and "resolvePublicationLocator index v default_block w\<^sub>2 = (Inr r, w\<^sub>3)"
    and "resolvePublicationLocator index (locator_wire (resolvedTo r)) default_block w\<^sub>4 = (result, w\<^sub>5)"
  shows "resolvedBlock r \<in> set (indexBlocks index) \<and> 0 \<le> textOffsetCodePoints (resolvedTo r) \<and>
    textOffsetCodePoints (resolvedTo r) \<le> textLengthCodePoints (resolvedBlock r) \<and>
    (result = Inr (ExactResolution (resolvedTo r) (resolvedBlock r)) \<or> (\<exists>e. result = Inl e \<and> interruption e))"
proof -
  note wf = created_index_wf(1) [OF assms(1,2)]
  from outcomesD(1) [OF outcomes_resolvePublicationLocator [OF wf assms(3)] assms(4)]
  obtain l where l: "decodeReadingLocatorV1 v = Inr l" "resolves index default_block l r" by blast
  from resolution_lands [OF wf assms(3) decodeReadingLocatorV1_wf [OF l(1)] l(2)]
  obtain n where b: "resolvedBlock r \<in> set (indexBlocks index)" and n: "0 \<le> n" "n \<le> textLengthCodePoints (resolvedBlock r)"
    "n \<le> MAX_SAFE_INTEGER" and to: "resolvedTo r = position_in (resolvedBlock r) n" by blast
  from index_wf_block [OF wf b] have "block_wf (resolvedBlock r)" by metis
  with createBlockLocatorAtOffset_position [of "resolvedBlock r" n] n to
  have "createBlockLocatorAtOffset (resolvedBlock r) (Integral n) = Inr (resolvedTo r)" by (simp add: block_wf_def)
  from position_result [OF wf b this assms(3,5)] b n to show ?thesis by (simp add: position_in_def)
qed

lemma sample_resolves_any:
  "resolvePublicationLocator sample_index (locator_wire (startLocator sample_body_block)) d (sample_budget\<lparr>looked := n\<rparr>) =
     (Inr (ExactResolution (startLocator sample_body_block) sample_body_block), sample_budget\<lparr>looked := n + 4\<rparr>)"
proof -
  have dec: "decodeLocator (locator_wire (startLocator sample_body_block)) = Inr (startLocator sample_body_block)"
    using sample_positions_wf(2) by (simp add: decodeLocator_def decodeReadingLocatorV1_wire sample_body_block_def)
  have c: "js ''c0'' \<noteq> js ''c1''" by (simp add: js_def)
  show ?thesis
    by (simp add: resolvePublicationLocator_def andThen_apply sample_checkpoint dec lift_def)
      (simp add: sample_index_def bookIdentitiesMatch_def sample_checkpoint andThen_apply resolveInSpine_def exactAnchor_def
        sample_body_block_def block_position_def exactResolution_def resolvedLocator_def createBlockLocatorAtOffset_def
        is_count_iff lift_def c)
qed

lemmas sample_resolves = sample_resolves_any [of None]

theorem resolution_meets_contract_witness:
  "resolves sample_index None (startLocator sample_body_block) (ExactResolution (startLocator sample_body_block) sample_body_block)"
proof -
  have "decodeReadingLocatorV1 (locator_wire (startLocator sample_body_block)) = Inr (startLocator sample_body_block)"
    using sample_positions_wf(2) by (simp add: decodeReadingLocatorV1_wire sample_body_block_def)
  with resolution_meets_contract [OF sample_book_wf sample_index_created [of 0] _ sample_resolves [of 0]] show ?thesis
    by simp
qed

theorem resolution_is_stable_witness:
  "textOffsetCodePoints (startLocator sample_body_block) \<le> textLengthCodePoints sample_body_block"
  using resolution_is_stable [OF sample_book_wf sample_index_created [of 0] _ sample_resolves [of 0], of _ _ "snd (resolvePublicationLocator sample_index (locator_wire (startLocator sample_body_block)) None (sample_budget\<lparr>looked := 0\<rparr>))"]
    sample_resolves [of 0] by simp

end
