(* ===== verification/Target_Resolver.thy ===== *)
theory Target_Resolver
  imports Locator_Theorems
begin

text \<open>
  packages/epub/src/locator/target-resolver.ts: links inside a publication. The index joins the
  publisher's fragment identifiers to located blocks; a target is an untrusted object, seen the way the
  source looks at it, through its prototype and own property descriptors.
\<close>

section \<open>The target index\<close>

datatype indexed_document =
    IndexedSpine "located_block option" "js_string \<Rightarrow> located_block option"
  | IndexedNonSpine

type_synonym target_index = "js_string \<Rightarrow> indexed_document option"

definition findLocatedSpine :: "locator_index \<Rightarrow> document_projection \<Rightarrow> epub_error + located_spine" where
  "findLocatedSpine index p = (case documentLocation (projectedDocument p) of
       NonSpineLocation \<Rightarrow> Inl InternalFailure
     | SpineLocation item i \<Rightarrow>
         if \<not> (0 \<le> i \<and> nat i < length (indexSpines index)) then Inl InternalFailure
         else let s = indexSpines index ! nat i in
           if locatedSpineId s \<noteq> item \<or> locatedSpineIndex s \<noteq> i then Inl InternalFailure else Inr s)"

definition locatedAt :: "located_spine \<Rightarrow> nat \<Rightarrow> located_block option" where
  "locatedAt s i = (if i < length (locatedBlocks s) then Some (locatedBlocks s ! i) else None)"

definition indexFragment ::
    "document_projection \<Rightarrow> located_spine \<Rightarrow> nat \<times> projected_block \<Rightarrow>
     (js_string \<Rightarrow> located_block option) \<Rightarrow> (js_string \<Rightarrow> located_block option) budget_prog" where
  "indexFragment p s = (\<lambda>(i, b) fragments.
     andThen checkpoint (\<lambda>_.
     case locatedAt s i of
       None \<Rightarrow> raise InternalFailure
     | Some l \<Rightarrow>
         if locatedDocument l \<noteq> documentId (projectedDocument p) \<or> locatedBlock l \<noteq> projectedBlock b
         then raise InternalFailure
         else (case sourceElementId b of
             None \<Rightarrow> ok fragments
           | Some f \<Rightarrow> if fragments f \<noteq> None then raise InternalFailure else ok (fragments(f \<mapsto> l)))))"

definition indexSpineDocument :: "document_projection \<Rightarrow> located_spine \<Rightarrow> indexed_document budget_prog" where
  "indexSpineDocument p s =
     andThen (throwIf (length (addressableBlocks p) \<noteq> length (locatedBlocks s)) InternalFailure) (\<lambda>_.
     andThen (foldEach (indexFragment p s) (enumerate 0 (addressableBlocks p)) (\<lambda>_. None)) (\<lambda>fragments.
     ok (IndexedSpine (locatedAt s 0) fragments)))"

definition indexTargetDocument ::
    "locator_index \<Rightarrow> document_projection \<Rightarrow> target_index \<Rightarrow> target_index budget_prog" where
  "indexTargetDocument index p documents =
     andThen checkpoint (\<lambda>_.
     if documents (documentId (projectedDocument p)) \<noteq> None then raise InternalFailure
     else andThen (case documentLocation (projectedDocument p) of
         NonSpineLocation \<Rightarrow> ok IndexedNonSpine
       | SpineLocation _ _ \<Rightarrow> andThen (lift (findLocatedSpine index p)) (indexSpineDocument p)) (\<lambda>indexed.
       ok (documents(documentId (projectedDocument p) \<mapsto> indexed))))"

definition createPublicationTargetIndex ::
    "document_projection list \<Rightarrow> locator_index \<Rightarrow> target_index budget_prog" where
  "createPublicationTargetIndex ps index = foldEach (indexTargetDocument index) ps (\<lambda>_. None)"

section \<open>Targets\<close>

datatype property_key = StringKey js_string | SymbolKey

datatype property_descriptor =
    DataProperty js_value bool  \<comment> \<open>value, enumerable\<close>
  | AccessorProperty

datatype target_prototype = ObjectPrototype | NullPrototype | OtherPrototype

text \<open>
  What \<open>decodeTarget\<close> can be given: no object at all, an array, a proxy one of whose traps throws, or an
  object with a prototype and own properties. A revoked proxy, on which \<open>Array.isArray\<close> throws before the
  \<open>try\<close> block is entered, is left out.
\<close>

datatype target_input =
    NotAnObject
  | ArrayInput
  | ThrowingInput
  | ObjectInput target_prototype "(property_key \<times> property_descriptor) list"

definition enumerable_string :: "property_descriptor \<Rightarrow> js_string option" where
  "enumerable_string d = (case d of DataProperty (JString s) True \<Rightarrow> Some s | _ \<Rightarrow> None)"

definition decodeTarget :: "target_input \<Rightarrow> (js_string \<times> js_string option) option" where
  "decodeTarget input = (case input of
       ObjectInput proto props \<Rightarrow>
         if proto = OtherPrototype then None
         else if length props < 1 \<or> 2 < length props \<or>
             list_ex (\<lambda>(k, _). k \<noteq> StringKey (js ''documentId'') \<and> k \<noteq> StringKey (js ''fragment'')) props then None
         else (case map_of props (StringKey (js ''documentId'')) of
             None \<Rightarrow> None
           | Some d \<Rightarrow> (case enumerable_string d of
               None \<Rightarrow> None
             | Some document \<Rightarrow> (case map_of props (StringKey (js ''fragment'')) of
                 None \<Rightarrow> Some (document, None)
               | Some f \<Rightarrow> (case enumerable_string f of
                   None \<Rightarrow> None | Some fragment \<Rightarrow> Some (document, Some fragment)))))
     | _ \<Rightarrow> None)"

datatype unavailable_reason = EmptyDocument | InvalidTarget | NonSpineDocument | UnknownDocument

datatype target_resolution =
    ExactDocumentStart located_block
  | ExactFragment located_block
  | FragmentUnresolved located_block
  | TargetUnavailable unavailable_reason

fun targetLocator :: "target_resolution \<Rightarrow> reading_locator option" where
  "targetLocator (ExactDocumentStart b) = Some (startLocator b)"
| "targetLocator (ExactFragment b) = Some (startLocator b)"
| "targetLocator (FragmentUnresolved b) = Some (startLocator b)"
| "targetLocator (TargetUnavailable _) = None"

definition resolvePublicationTarget :: "target_index \<Rightarrow> target_input \<Rightarrow> target_resolution budget_prog" where
  "resolvePublicationTarget index input =
     andThen checkpoint (\<lambda>_.
     case decodeTarget input of
       None \<Rightarrow> ok (TargetUnavailable InvalidTarget)
     | Some (document, fragment) \<Rightarrow>
         andThen checkpoint (\<lambda>_.
         case index document of
           None \<Rightarrow> ok (TargetUnavailable UnknownDocument)
         | Some IndexedNonSpine \<Rightarrow> ok (TargetUnavailable NonSpineDocument)
         | Some (IndexedSpine None fragments) \<Rightarrow> ok (TargetUnavailable EmptyDocument)
         | Some (IndexedSpine (Some first) fragments) \<Rightarrow>
             (case fragment of
                None \<Rightarrow> ok (ExactDocumentStart first)
              | Some f \<Rightarrow>
                  andThen checkpoint (\<lambda>_.
                  ok (case fragments f of None \<Rightarrow> FragmentUnresolved first | Some b \<Rightarrow> ExactFragment b)))))"

section \<open>What the index holds\<close>

text \<open>
  The answer the documents themselves give: the block with the fragment's identifier, or the first
  block of the document.
\<close>

definition document_blocks :: "locator_index \<Rightarrow> document_projection \<Rightarrow> located_block list" where
  "document_blocks index p = (case findLocatedSpine index p of Inl _ \<Rightarrow> [] | Inr s \<Rightarrow> locatedBlocks s)"

definition fragment_block :: "locator_index \<Rightarrow> document_projection \<Rightarrow> js_string \<Rightarrow> located_block option" where
  "fragment_block index p f = map_option snd (find (\<lambda>(b, _). sourceElementId b = Some f)
     (zip (addressableBlocks p) (document_blocks index p)))"

definition target_answer ::
    "locator_index \<Rightarrow> document_projection list \<Rightarrow> target_input \<Rightarrow> target_resolution" where
  "target_answer index ps input = (case decodeTarget input of
       None \<Rightarrow> TargetUnavailable InvalidTarget
     | Some (document, fragment) \<Rightarrow> (case find (\<lambda>p. documentId (projectedDocument p) = document) ps of
         None \<Rightarrow> TargetUnavailable UnknownDocument
       | Some p \<Rightarrow> if documentLocation (projectedDocument p) = NonSpineLocation then TargetUnavailable NonSpineDocument
           else (case document_blocks index p of
               [] \<Rightarrow> TargetUnavailable EmptyDocument
             | first # _ \<Rightarrow> (case fragment of
                 None \<Rightarrow> ExactDocumentStart first
               | Some f \<Rightarrow> (case fragment_block index p f of
                   None \<Rightarrow> FragmentUnresolved first | Some b \<Rightarrow> ExactFragment b)))))"


section \<open>The index gives the answers of the documents\<close>

lemma find_append: "find P (xs @ ys) = (case find P xs of None \<Rightarrow> find P ys | Some x \<Rightarrow> Some x)"
  by (induction xs) auto

definition fragments_of :: "projected_block list \<Rightarrow> located_block list \<Rightarrow> js_string \<Rightarrow> located_block option" where
  "fragments_of blocks located f = map_option snd (find (\<lambda>(b, _). sourceElementId b = Some f) (zip blocks located))"

lemma fragments_of_snoc:
  assumes "length blocks = length located"
  shows "fragments_of (blocks @ [b]) (located @ [l]) =
    (case sourceElementId b of None \<Rightarrow> fragments_of blocks located
     | Some f \<Rightarrow> if fragments_of blocks located f = None then (fragments_of blocks located)(f \<mapsto> l)
         else fragments_of blocks located)"
  using assms by (auto simp: fragments_of_def fun_eq_iff find_append split: option.splits)

lemma outcomes_indexSpineDocument:
  "outcomes (indexSpineDocument p s)
     (\<lambda>d. d = IndexedSpine (locatedAt s 0) (fragments_of (addressableBlocks p) (locatedBlocks s))) interruption"
proof -
  let ?blocks = "addressableBlocks p" and ?located = "locatedBlocks s"
  have loop: "outcomes (foldEach (indexFragment p s) (drop n (enumerate 0 ?blocks)) (fragments_of (take n ?blocks) (take n ?located)))
      (\<lambda>fragments. fragments = fragments_of ?blocks ?located) interruption"
    if len: "length ?blocks = length ?located" and n: "n \<le> length ?blocks" for n
    using n
  proof (induction "length ?blocks - n" arbitrary: n)
    case 0
    with len show ?case by simp
  next
    case (Suc k)
    then have lt: "n < length ?blocks" "n < length ?located" using len by linarith+
    then have d: "drop n (enumerate 0 ?blocks) = (n, ?blocks ! n) # drop (Suc n) (enumerate 0 ?blocks)"
      by (simp add: Cons_nth_drop_Suc [symmetric] nth_enumerate_eq)
    note snoc = fragments_of_snoc [of "take n ?blocks" "take n ?located" "?blocks ! n" "?located ! n"]
    have next_frag: "fragments_of (take (Suc n) ?blocks) (take (Suc n) ?located) =
        (case sourceElementId (?blocks ! n) of None \<Rightarrow> fragments_of (take n ?blocks) (take n ?located)
         | Some f \<Rightarrow> if fragments_of (take n ?blocks) (take n ?located) f = None
             then (fragments_of (take n ?blocks) (take n ?located))(f \<mapsto> ?located ! n)
             else fragments_of (take n ?blocks) (take n ?located))"
      using snoc lt len by (simp add: take_Suc_conv_app_nth)
    have IH: "outcomes (foldEach (indexFragment p s) (drop (Suc n) (enumerate 0 ?blocks))
        (fragments_of (take (Suc n) ?blocks) (take (Suc n) ?located)))
        (\<lambda>fragments. fragments = fragments_of ?blocks ?located) interruption"
      using Suc.hyps(1) [of "Suc n"] Suc.hyps(2) lt by simp
    show ?case
      unfolding d foldEach.simps
    proof (rule outcomes_andThen)
      show "outcomes (indexFragment p s (n, ?blocks ! n) (fragments_of (take n ?blocks) (take n ?located)))
          (\<lambda>fragments. fragments = fragments_of (take (Suc n) ?blocks) (take (Suc n) ?located)) interruption"
        unfolding indexFragment_def split_conv
        by (rule outcomes_after_checkpoint, simp)
          (auto simp: locatedAt_def lt next_frag interruption_def simp del: not_None_eq split: option.split)
    qed (use IH in simp)
  qed
  show ?thesis
    unfolding indexSpineDocument_def
  proof (rule outcomes_andThen [OF outcomes_throwIf [where P = "\<lambda>_. length ?blocks = length ?located"]])
    assume len: "length ?blocks = length ?located"
    have "outcomes (foldEach (indexFragment p s) (enumerate 0 ?blocks) (\<lambda>_. None))
        (\<lambda>fragments. fragments = fragments_of ?blocks ?located) interruption"
      using loop [OF len, of 0] by (simp add: fragments_of_def [of "[]" "[]", abs_def])
    then show "outcomes (andThen (foldEach (indexFragment p s) (enumerate 0 ?blocks) (\<lambda>_. None)) (\<lambda>fragments.
        ok (IndexedSpine (locatedAt s 0) fragments)))
      (\<lambda>d. d = IndexedSpine (locatedAt s 0) (fragments_of ?blocks ?located)) interruption"
      by (rule outcomes_andThen) simp
  qed (simp_all add: interruption_def)
qed

text \<open>The entry of a document, and the index of a list of documents.\<close>

definition document_entry :: "locator_index \<Rightarrow> document_projection \<Rightarrow> indexed_document" where
  "document_entry index p = (if documentLocation (projectedDocument p) = NonSpineLocation then IndexedNonSpine
     else IndexedSpine (case document_blocks index p of [] \<Rightarrow> None | b # _ \<Rightarrow> Some b) (fragment_block index p))"

definition entries_of :: "locator_index \<Rightarrow> document_projection list \<Rightarrow> target_index" where
  "entries_of index ps d = map_option (document_entry index) (find (\<lambda>p. documentId (projectedDocument p) = d) ps)"

lemma outcomes_indexTargetDocument:
  "outcomes (indexTargetDocument index p (entries_of index ps)) (\<lambda>t. t = entries_of index (ps @ [p])) interruption"
  unfolding indexTargetDocument_def
proof (rule outcomes_after_checkpoint)
  let ?d = "documentId (projectedDocument p)"
  show "outcomes (if entries_of index ps ?d \<noteq> None then raise InternalFailure
      else andThen (case documentLocation (projectedDocument p) of NonSpineLocation \<Rightarrow> ok IndexedNonSpine
         | SpineLocation _ _ \<Rightarrow> andThen (lift (findLocatedSpine index p)) (indexSpineDocument p)) (\<lambda>indexed.
       ok ((entries_of index ps)(?d \<mapsto> indexed)))) (\<lambda>t. t = entries_of index (ps @ [p])) interruption"
  proof (cases "entries_of index ps ?d")
    case None
    then have new: "entries_of index (ps @ [p]) = (entries_of index ps)(?d \<mapsto> document_entry index p)"
      by (auto simp: entries_of_def fun_eq_iff find_append split: option.splits)
    have "outcomes (case documentLocation (projectedDocument p) of NonSpineLocation \<Rightarrow> ok IndexedNonSpine
         | SpineLocation _ _ \<Rightarrow> andThen (lift (findLocatedSpine index p)) (indexSpineDocument p))
        (\<lambda>d. d = document_entry index p) interruption"
    proof (cases "documentLocation (projectedDocument p)")
      case (SpineLocation item i)
      have "outcomes (andThen (lift (findLocatedSpine index p)) (indexSpineDocument p))
          (\<lambda>d. d = document_entry index p) interruption"
      proof (rule outcomes_andThen [OF outcomes_lift [where P = "\<lambda>s. findLocatedSpine index p = Inr s"]])
        fix s assume s: "findLocatedSpine index p = Inr s"
        then have "IndexedSpine (locatedAt s 0) (fragments_of (addressableBlocks p) (locatedBlocks s)) = document_entry index p"
          using SpineLocation by (auto simp: document_entry_def document_blocks_def fragment_block_def fragments_of_def
              locatedAt_def fun_eq_iff split: list.split)
        then show "outcomes (indexSpineDocument p s) (\<lambda>d. d = document_entry index p) interruption"
          using outcomes_indexSpineDocument [of p s] by simp
      qed (auto simp: findLocatedSpine_def interruption_def Let_def split: document_location.splits if_splits)
      with SpineLocation show ?thesis by simp
    qed (simp add: document_entry_def)
    then show ?thesis
      unfolding None by (simp add: new) (rule outcomes_andThen, assumption, simp)
  qed (simp add: interruption_def)
qed simp

lemma outcomes_createPublicationTargetIndex:
  "outcomes (createPublicationTargetIndex ps index) (\<lambda>t. t = entries_of index ps) interruption"
proof -
  have "outcomes (foldEach (indexTargetDocument index) ps (entries_of index qs)) (\<lambda>t. t = entries_of index (qs @ ps)) interruption" for qs
  proof (induction ps arbitrary: qs)
    case (Cons p ps)
    show ?case
      unfolding foldEach.simps
      by (rule outcomes_andThen [OF outcomes_indexTargetDocument]) (use Cons [of "qs @ [p]"] in simp)
  qed simp
  moreover have "entries_of index [] = (\<lambda>_. None)" by (simp add: fun_eq_iff entries_of_def)
  ultimately show ?thesis unfolding createPublicationTargetIndex_def by (metis append_Nil)
qed

lemma outcomes_resolvePublicationTarget:
  "outcomes (resolvePublicationTarget (entries_of index ps) input) (\<lambda>r. r = target_answer index ps input) interruption"
  unfolding resolvePublicationTarget_def
proof (rule outcomes_after_checkpoint, simp, cases "decodeTarget input")
  case None
  then show "outcomes (case decodeTarget input of None \<Rightarrow> ok (TargetUnavailable InvalidTarget)
     | Some (document, fragment) \<Rightarrow> andThen checkpoint (\<lambda>_. case entries_of index ps document of
           None \<Rightarrow> ok (TargetUnavailable UnknownDocument)
         | Some IndexedNonSpine \<Rightarrow> ok (TargetUnavailable NonSpineDocument)
         | Some (IndexedSpine None fragments) \<Rightarrow> ok (TargetUnavailable EmptyDocument)
         | Some (IndexedSpine (Some first) fragments) \<Rightarrow> (case fragment of None \<Rightarrow> ok (ExactDocumentStart first)
              | Some f \<Rightarrow> andThen checkpoint (\<lambda>_.
                  ok (case fragments f of None \<Rightarrow> FragmentUnresolved first | Some b \<Rightarrow> ExactFragment b)))))
    (\<lambda>r. r = target_answer index ps input) interruption"
    by (simp add: target_answer_def)
next
  case (Some df)
  then show "outcomes (case decodeTarget input of None \<Rightarrow> ok (TargetUnavailable InvalidTarget)
     | Some (document, fragment) \<Rightarrow> andThen checkpoint (\<lambda>_. case entries_of index ps document of
           None \<Rightarrow> ok (TargetUnavailable UnknownDocument)
         | Some IndexedNonSpine \<Rightarrow> ok (TargetUnavailable NonSpineDocument)
         | Some (IndexedSpine None fragments) \<Rightarrow> ok (TargetUnavailable EmptyDocument)
         | Some (IndexedSpine (Some first) fragments) \<Rightarrow> (case fragment of None \<Rightarrow> ok (ExactDocumentStart first)
              | Some f \<Rightarrow> andThen checkpoint (\<lambda>_.
                  ok (case fragments f of None \<Rightarrow> FragmentUnresolved first | Some b \<Rightarrow> ExactFragment b)))))
    (\<lambda>r. r = target_answer index ps input) interruption"
    by (cases df) (auto simp: target_answer_def entries_of_def document_entry_def
        intro!: outcomes_after_checkpoint split: option.split list.split)
qed


section \<open>Properties\<close>

definition target_block :: "target_resolution \<Rightarrow> located_block option" where
  "target_block r = (case r of ExactDocumentStart b \<Rightarrow> Some b | ExactFragment b \<Rightarrow> Some b
     | FragmentUnresolved b \<Rightarrow> Some b | TargetUnavailable _ \<Rightarrow> None)"

lemma document_blocks_member: "b \<in> set (document_blocks index p) \<Longrightarrow> \<exists>s \<in> set (indexSpines index). b \<in> set (locatedBlocks s)"
  by (auto simp: document_blocks_def findLocatedSpine_def Let_def split: sum.splits document_location.splits if_splits)

lemma target_answer_block:
  assumes "target_block (target_answer index ps input) = Some b"
  shows "\<exists>p. b \<in> set (document_blocks index p)"
proof -
  have "b \<in> set (document_blocks index p)" if "fragment_block index p f = Some b" for p f
    using that by (auto simp: fragment_block_def find_Some_iff dest: nth_mem split: prod.splits)
      (metis nth_mem nth_zip prod.collapse set_zip_rightD snd_conv)
  with assms show ?thesis
    by (auto simp: target_answer_def target_block_def split: option.splits list.splits if_splits)
      (metis list.set_intros(1))+
qed

text \<open>
  C17. Links resolve to what the documents say: over the target index of a publication, a target either
  is interrupted or gets the answer read off the projected documents: the first document with the
  target's identifier, in it the block whose publisher identifier is the fragment, the first block of
  the document when there is no such block (as a recovery) or no fragment, and otherwise the reason
  why there is none.
\<close>

theorem target_resolves_as_documents_say:
  assumes "createPublicationTargetIndex ps index w\<^sub>0 = (Inr targets, w\<^sub>1)"
    and "resolvePublicationTarget targets input w\<^sub>2 = (result, w\<^sub>3)"
  shows "result = Inr (target_answer index ps input) \<or> (\<exists>e. result = Inl e \<and> interruption e)"
proof -
  have "targets = entries_of index ps"
    by (rule outcomesD(1) [OF outcomes_createPublicationTargetIndex assms(1)])
  with outcomesD [OF outcomes_resolvePublicationTarget] assms(2) show ?thesis by (cases result) blast+
qed

text \<open>
  A link never leaves the reader nowhere: the locator a target resolves to, exactly or by recovery,
  is the start of a block of the publication's locator index and, resolved as a reading position against
  that index, resolves exactly to that block.
\<close>

theorem link_lands_on_a_position:
  assumes "book_wf book" and "createPublicationLocatorIndex book ps w\<^sub>0 = (Inr index, w\<^sub>1)"
    and "createPublicationTargetIndex ps index w\<^sub>2 = (Inr targets, w\<^sub>3)"
    and "resolvePublicationTarget targets input w\<^sub>4 = (Inr r, w\<^sub>5)" and "targetLocator r = Some l"
    and "resolvePublicationLocator index (locator_wire l) None w\<^sub>6 = (result, w\<^sub>7)"
  shows "\<exists>b \<in> set (indexBlocks index). target_block r = Some b \<and> l = startLocator b \<and>
    (result = Inr (ExactResolution l b) \<or> (\<exists>e. result = Inl e \<and> interruption e))"
proof -
  note wf = created_index_wf(1) [OF assms(1,2)]
  have "targets = entries_of index ps"
    by (rule outcomesD(1) [OF outcomes_createPublicationTargetIndex assms(3)])
  with outcomesD(1) [OF outcomes_resolvePublicationTarget] assms(4) have r: "r = target_answer index ps input" by blast
  from assms(5) obtain b where b: "target_block r = Some b" "l = startLocator b"
    by (cases r) (auto simp: target_block_def)
  with r target_answer_block obtain p where "b \<in> set (document_blocks index p)" by metis
  then obtain s where "s \<in> set (indexSpines index)" "b \<in> set (locatedBlocks s)" using document_blocks_member by blast
  with index_wf_spine_block [OF wf] have mem: "b \<in> set (indexBlocks index)" and bw: "block_wf b" by blast+
  have "createBlockLocatorAtOffset b (Integral 0) = Inr l"
    using bw b by (simp add: createBlockLocatorAtOffset_def block_wf_def is_count_iff)
  from position_result [OF wf mem this _ assms(6)] mem b show ?thesis by auto
qed

definition sample_target :: target_input where
  "sample_target = ObjectInput ObjectPrototype
     [(StringKey (js ''documentId''), DataProperty (JString (js ''d1'')) True),
      (StringKey (js ''fragment''), DataProperty (JString (js ''t'')) True)]"

definition sample_targets :: target_index where
  "sample_targets = [js ''d1'' \<mapsto> IndexedSpine (Some sample_title_block) [js ''t'' \<mapsto> sample_title_block],
     js ''d0'' \<mapsto> IndexedSpine None (\<lambda>_. None)]"

lemma sample_targets_created:
  "createPublicationTargetIndex sample_projections sample_index (sample_budget\<lparr>looked := n\<rparr>) =
     (Inr sample_targets, sample_budget\<lparr>looked := n + 4\<rparr>)"
  by (simp add: createPublicationTargetIndex_def sample_projections_def indexTargetDocument_def andThen_apply
      sample_checkpoint findLocatedSpine_def sample_index_def lift_def indexSpineDocument_def indexFragment_def locatedAt_def
      sample_title_block_def sample_body_block_def sample_targets_def js_def)

lemma sample_target_resolved:
  "resolvePublicationTarget sample_targets sample_target (sample_budget\<lparr>looked := n\<rparr>) =
     (Inr (ExactFragment sample_title_block), sample_budget\<lparr>looked := n + 3\<rparr>)"
proof -
  have "decodeTarget sample_target = Some (js ''d1'', Some (js ''t''))"
    by (simp add: decodeTarget_def sample_target_def enumerable_string_def js_def)
  moreover have "js ''d1'' \<noteq> js ''d0''" by (simp add: js_def)
  ultimately show ?thesis
    by (simp add: resolvePublicationTarget_def andThen_apply sample_checkpoint sample_targets_def)
qed

theorem target_resolves_as_documents_say_witness:
  "target_answer sample_index sample_projections sample_target = ExactFragment sample_title_block"
  using target_resolves_as_documents_say [OF sample_targets_created [of 0] sample_target_resolved [of 0]] by simp

theorem link_lands_on_a_position_witness: "sample_title_block \<in> set (indexBlocks sample_index)"
proof -
  obtain result w where "resolvePublicationLocator sample_index (locator_wire (startLocator sample_title_block)) None sample_budget = (result, w)"
    by fastforce
  from link_lands_on_a_position [OF sample_book_wf sample_index_created [of 0] sample_targets_created [of 0]
      sample_target_resolved [of 0] _ this] show ?thesis by (auto simp: target_block_def)
qed

end
