(* ===== verification/Persisted_State.thy ===== *)
theory Persisted_State
  imports Locator_Contract
begin

text \<open>
  packages/shared/src/contracts/persisted-reading-state.ts with the generated validators of its schema:
  the content-free state of one book that a repository stores.
\<close>

section \<open>The contract\<close>

text \<open>\<open>PersistedReadingStateContractError\<close>, or an error of a primitive that escapes.\<close>

datatype persisted_failure = PersistedContractError locator_error_code | PersistedPrimitiveError

record reading_preferences =
  selectedVoiceId :: "js_string option"
  playbackRate :: "rat option"

record persisted_state =
  stateSchemaVersion :: int
  stateBookIdentity :: book_identity
  stateLocator :: reading_locator
  statePreferences :: reading_preferences

fun readStateRecord :: "js_value \<Rightarrow> persisted_failure + (string \<times> js_value) list" where
  "readStateRecord (JObject kvs) = Inr kvs"
| "readStateRecord _ = Inl (PersistedContractError Malformed)"

definition readStateVersion :: "js_value \<Rightarrow> persisted_failure + int" where
  "readStateVersion v = (case createSchemaVersion v of
       Inl _ \<Rightarrow> Inl (PersistedContractError Malformed)
     | Inr n \<Rightarrow> if n \<noteq> 1 then Inl (PersistedContractError UnsupportedVersion) else Inr n)"

definition createPlaybackRate :: "js_num \<Rightarrow> persisted_failure + rat" where
  "createPlaybackRate x = (if \<not> is_finite_num x \<or> num_value x \<le> 0 \<or> x = NegZero
     then Inl (PersistedContractError Malformed) else Inr (num_value x))"

definition decodeNestedLocator :: "js_value \<Rightarrow> persisted_failure + reading_locator" where
  "decodeNestedLocator v = (case decodeReadingLocatorV1 v of
       Inr l \<Rightarrow> Inr l
     | Inl (LocatorContractError c) \<Rightarrow> Inl (PersistedContractError c)
     | Inl PrimitiveError \<Rightarrow> Inl PersistedPrimitiveError)"

text \<open>\<open>^[A-Za-z0-9][A-Za-z0-9._:-]*$\<close>\<close>

definition preference_identifier_pattern :: "nat list \<Rightarrow> bool" where
  "preference_identifier_pattern cs = (case cs of [] \<Rightarrow> False
     | c # ds \<Rightarrow> is_alnum c \<and> list_all (\<lambda>d. is_alnum d \<or> d \<in> {46, 95, 58, 45}) ds)"

fun valid_rate :: "js_value \<Rightarrow> bool" where
  "valid_rate (JNumber x) \<longleftrightarrow> is_finite_num x \<and> \<not> num_value x \<le> 0"
| "valid_rate _ \<longleftrightarrow> False"

fun validateReadingPreferences :: "js_value \<Rightarrow> bool" where
  "validateReadingPreferences (JObject kvs) \<longleftrightarrow>
     only_keys [''selectedVoiceId'', ''playbackRate''] kvs \<and>
     (property kvs ''selectedVoiceId'' = JUndefined \<or>
        valid_string 128 preference_identifier_pattern (property kvs ''selectedVoiceId'')) \<and>
     (property kvs ''playbackRate'' = JUndefined \<or> valid_rate (property kvs ''playbackRate''))"
| "validateReadingPreferences _ \<longleftrightarrow> False"

fun validatePersistedReadingStateV1Wire :: "js_value \<Rightarrow> bool" where
  "validatePersistedReadingStateV1Wire (JObject kvs) \<longleftrightarrow>
     only_keys [''schemaVersion'', ''bookIdentity'', ''locator'', ''preferences''] kvs \<and>
     valid_version_1 (property kvs ''schemaVersion'') \<and>
     validateBookIdentity (property kvs ''bookIdentity'') \<and>
     validateReadingLocatorV1Wire (property kvs ''locator'') \<and>
     validateReadingPreferences (property kvs ''preferences'')"
| "validatePersistedReadingStateV1Wire _ \<longleftrightarrow> False"

definition primitive :: "locator_failure + 'a \<Rightarrow> persisted_failure + 'a" where
  "primitive r = (case r of Inl _ \<Rightarrow> Inl PersistedPrimitiveError | Inr x \<Rightarrow> Inr x)"

definition createPreferences :: "(string \<times> js_value) list \<Rightarrow> persisted_failure + reading_preferences" where
  "createPreferences kvs =
     bindE (case property kvs ''playbackRate'' of
         JUndefined \<Rightarrow> Inr None
       | JNumber x \<Rightarrow> bindE (createPlaybackRate x) (\<lambda>r. Inr (Some r))
       | _ \<Rightarrow> Inl (PersistedContractError Malformed)) (\<lambda>rate.
     Inr \<lparr>selectedVoiceId = (case property kvs ''selectedVoiceId'' of JString s \<Rightarrow> Some s | _ \<Rightarrow> None),
       playbackRate = rate\<rparr>)"

definition decodePersistedReadingStateV1 :: "js_value \<Rightarrow> persisted_failure + persisted_state" where
  "decodePersistedReadingStateV1 input =
     bindE (readStateRecord input) (\<lambda>state.
     bindE (readStateVersion (property state ''schemaVersion'')) (\<lambda>version.
     bindE (decodeNestedLocator (property state ''locator'')) (\<lambda>locator.
     if \<not> validatePersistedReadingStateV1Wire input then Inl (PersistedContractError Malformed)
     else let b = objectFields (property state ''bookIdentity'') in
       bindE (primitive (createSchemaVersion (property b ''schemeVersion''))) (\<lambda>sv.
       bindE (primitive (createIdentifier (property b ''value''))) (\<lambda>bv.
       let identity = \<lparr>scheme = stringValue (property b ''scheme''), schemeVersion = sv, identityValue = bv\<rparr> in
       if \<not> bookIdentitiesMatch identity (bookIdentity locator) then Inl (PersistedContractError Malformed)
       else bindE (createPreferences (objectFields (property state ''preferences''))) (\<lambda>preferences.
         Inr \<lparr>stateSchemaVersion = version, stateBookIdentity = identity, stateLocator = locator,
           statePreferences = preferences\<rparr>))))))"

section \<open>Round trip\<close>

definition preferences_wf :: "reading_preferences \<Rightarrow> bool" where
  "preferences_wf p \<longleftrightarrow>
     (case selectedVoiceId p of None \<Rightarrow> True | Some s \<Rightarrow> valid_string 128 preference_identifier_pattern (JString s)) \<and>
     (case playbackRate p of None \<Rightarrow> True | Some r \<Rightarrow> 0 < r)"

definition state_wf :: "persisted_state \<Rightarrow> bool" where
  "state_wf s \<longleftrightarrow> stateSchemaVersion s = 1 \<and> locator_wf (stateLocator s) \<and>
     stateBookIdentity s = bookIdentity (stateLocator s) \<and> preferences_wf (statePreferences s)"

definition preferences_wire :: "reading_preferences \<Rightarrow> js_value" where
  "preferences_wire p = JObject (
     (case selectedVoiceId p of None \<Rightarrow> [] | Some s \<Rightarrow> [(''selectedVoiceId'', JString s)]) @
     (case playbackRate p of None \<Rightarrow> [] | Some r \<Rightarrow> [(''playbackRate'', JNumber (Finite r))]))"

definition state_wire :: "persisted_state \<Rightarrow> js_value" where
  "state_wire s = JObject [(''schemaVersion'', wire_int (stateSchemaVersion s)),
     (''bookIdentity'', identity_wire (stateBookIdentity s)), (''locator'', locator_wire (stateLocator s)),
     (''preferences'', preferences_wire (statePreferences s))]"

lemma validate_preferences_wire: "preferences_wf p \<Longrightarrow> validateReadingPreferences (preferences_wire p)"
  by (auto simp: preferences_wf_def preferences_wire_def simp del: valid_string.simps split: option.splits)

lemma createPreferences_wire:
  assumes "preferences_wf p"
  shows "createPreferences (objectFields (preferences_wire p)) = Inr p"
  using assms by (cases "selectedVoiceId p"; cases "playbackRate p")
    (simp_all add: preferences_wf_def preferences_wire_def createPreferences_def createPlaybackRate_def
      reading_preferences.equality)

lemma decode_state_wire:
  assumes "state_wf s"
  shows "decodePersistedReadingStateV1 (state_wire s) = Inr s"
proof -
  have l: "locator_wf (stateLocator s)" and v: "stateSchemaVersion s = 1"
    and b: "stateBookIdentity s = bookIdentity (stateLocator s)" and p: "preferences_wf (statePreferences s)"
    using assms by (simp_all add: state_wf_def)
  have i: "identity_wf (stateBookIdentity s)" using l b by (simp add: locator_wf_def)
  have id: "createSchemaVersion (wire_int (schemeVersion (stateBookIdentity s))) = Inr (schemeVersion (stateBookIdentity s))"
    "createIdentifier (JString (identityValue (stateBookIdentity s))) = Inr (identityValue (stateBookIdentity s))"
    using i by (simp_all add: identity_wf_def createSchemaVersion_wire valid_identifier [of 128]
        del: valid_string.simps createIdentifier.simps)
  have "readStateVersion (wire_int 1) = Inr 1"
    using createSchemaVersion_wire [of 1] by (simp add: readStateVersion_def MAX_SAFE_INTEGER_def)
  moreover have "validatePersistedReadingStateV1Wire (state_wire s)"
    using l i p v by (simp add: state_wire_def valid_version_1_wire validate_identity_wire validate_locator_wire
        validate_preferences_wire)
  ultimately show ?thesis
    using l v b id decodeReadingLocatorV1_wire [OF l] createPreferences_wire [OF p]
    by (simp add: decodePersistedReadingStateV1_def state_wire_def decodeNestedLocator_def identity_wire_def
        primitive_def bookIdentitiesMatch_eq persisted_state.equality book_identity.equality Let_def)
qed

lemma createPreferences_wf:
  assumes "validateReadingPreferences v" and "createPreferences (objectFields v) = Inr p"
  shows "preferences_wf p"
proof (cases v)
  case (JObject kvs)
  have voice: "property kvs ''selectedVoiceId'' = JUndefined \<or> (\<exists>s. property kvs ''selectedVoiceId'' = JString s \<and>
      valid_string 128 preference_identifier_pattern (JString s))"
    using assms(1) JObject by (cases "property kvs ''selectedVoiceId''") auto
  with assms(2) JObject show ?thesis
    by (auto simp: createPreferences_def preferences_wf_def bindE_Inr createPlaybackRate_def
        simp del: valid_string.simps split: js_value.splits if_splits)
qed (use assms in auto)

lemma decoded_state_wf:
  assumes "decodePersistedReadingStateV1 v = Inr s"
  shows "state_wf s"
proof -
  from assms obtain kvs where v: "v = JObject kvs" by (cases v) (auto simp: decodePersistedReadingStateV1_def)
  from assms v show ?thesis
    by (auto simp: decodePersistedReadingStateV1_def bindE_Inr readStateVersion_def decodeNestedLocator_def
        state_wf_def bookIdentitiesMatch_eq Let_def
        simp del: createSchemaVersion.simps createIdentifier.simps validateReadingPreferences.simps valid_version_1.simps
        dest!: decodeReadingLocatorV1_wf createPreferences_wf [rotated]
        split: sum.splits locator_failure.splits if_splits)
qed

end
