(* ===== verification/Reader_Preferences.thy ===== *)
theory Reader_Preferences
  imports Js_Value
begin

text \<open>
  apps/desktop/src/reader/reader-preferences.ts: the display preferences of the reader and how one of
  them is changed by an untrusted value.
\<close>

datatype text_scale = ScaleSmall | ScaleStandard | ScaleLarge | ScaleExtraLarge
datatype line_spacing = SpacingCompact | SpacingComfortable | SpacingSpacious
datatype content_width = WidthNarrow | WidthStandard | WidthWide
datatype reader_theme = ThemeSystem | ThemeLight | ThemeDark

text \<open>The literals of the source's string unions.\<close>

fun text_scale_literal :: "text_scale \<Rightarrow> js_string" where
  "text_scale_literal ScaleSmall = js ''small''"
| "text_scale_literal ScaleStandard = js ''standard''"
| "text_scale_literal ScaleLarge = js ''large''"
| "text_scale_literal ScaleExtraLarge = js ''extra-large''"

fun line_spacing_literal :: "line_spacing \<Rightarrow> js_string" where
  "line_spacing_literal SpacingCompact = js ''compact''"
| "line_spacing_literal SpacingComfortable = js ''comfortable''"
| "line_spacing_literal SpacingSpacious = js ''spacious''"

fun content_width_literal :: "content_width \<Rightarrow> js_string" where
  "content_width_literal WidthNarrow = js ''narrow''"
| "content_width_literal WidthStandard = js ''standard''"
| "content_width_literal WidthWide = js ''wide''"

fun reader_theme_literal :: "reader_theme \<Rightarrow> js_string" where
  "reader_theme_literal ThemeSystem = js ''system''"
| "reader_theme_literal ThemeLight = js ''light''"
| "reader_theme_literal ThemeDark = js ''dark''"

definition READER_TEXT_SCALES :: "text_scale list" where
  "READER_TEXT_SCALES = [ScaleSmall, ScaleStandard, ScaleLarge, ScaleExtraLarge]"

definition READER_LINE_SPACINGS :: "line_spacing list" where
  "READER_LINE_SPACINGS = [SpacingCompact, SpacingComfortable, SpacingSpacious]"

definition READER_CONTENT_WIDTHS :: "content_width list" where
  "READER_CONTENT_WIDTHS = [WidthNarrow, WidthStandard, WidthWide]"

definition READER_THEMES :: "reader_theme list" where
  "READER_THEMES = [ThemeSystem, ThemeLight, ThemeDark]"

record reader_preferences =
  preferencesVersion :: int
  textScale :: text_scale
  lineSpacing :: line_spacing
  contentWidth :: content_width
  theme :: reader_theme

definition DEFAULT_READER_PREFERENCES :: reader_preferences where
  "DEFAULT_READER_PREFERENCES = \<lparr>preferencesVersion = 1, textScale = ScaleStandard,
     lineSpacing = SpacingComfortable, contentWidth = WidthStandard, theme = ThemeSystem\<rparr>"

text \<open>
  \<open>includes(values, candidate)\<close> as a type guard: the member of the union that the candidate is.
\<close>

definition includesValue :: "('a \<Rightarrow> js_string) \<Rightarrow> 'a list \<Rightarrow> js_value \<Rightarrow> 'a option" where
  "includesValue literal values candidate = find (\<lambda>x. candidate = JString (literal x)) values"

datatype preference_name = ContentWidth | LineSpacing | TextScale | Theme

text \<open>\<open>undefined\<close>, the same object, or a new one.\<close>

datatype preference_update = UpdateRefused | SameObject | NewObject reader_preferences

definition updateReaderPreference :: "reader_preferences \<Rightarrow> preference_name \<Rightarrow> js_value \<Rightarrow> preference_update" where
  "updateReaderPreference current name value = (case name of
       ContentWidth \<Rightarrow> (case includesValue content_width_literal READER_CONTENT_WIDTHS value of None \<Rightarrow> UpdateRefused
         | Some w \<Rightarrow> if w = contentWidth current then SameObject else NewObject (current\<lparr>contentWidth := w\<rparr>))
     | LineSpacing \<Rightarrow> (case includesValue line_spacing_literal READER_LINE_SPACINGS value of None \<Rightarrow> UpdateRefused
         | Some s \<Rightarrow> if s = lineSpacing current then SameObject else NewObject (current\<lparr>lineSpacing := s\<rparr>))
     | TextScale \<Rightarrow> (case includesValue text_scale_literal READER_TEXT_SCALES value of None \<Rightarrow> UpdateRefused
         | Some s \<Rightarrow> if s = textScale current then SameObject else NewObject (current\<lparr>textScale := s\<rparr>))
     | Theme \<Rightarrow> (case includesValue reader_theme_literal READER_THEMES value of None \<Rightarrow> UpdateRefused
         | Some t \<Rightarrow> if t = theme current then SameObject else NewObject (current\<lparr>theme := t\<rparr>)))"

section \<open>Literals\<close>

lemma js_inject [simp]: "js s = js t \<longleftrightarrow> map (of_char :: char \<Rightarrow> 16 word) s = map of_char t"
  by (simp add: js_def)

lemma includes_scale [simp]: "includesValue text_scale_literal READER_TEXT_SCALES (JString (text_scale_literal s)) = Some s"
  by (cases s; simp add: includesValue_def READER_TEXT_SCALES_def)

lemma includes_spacing [simp]: "includesValue line_spacing_literal READER_LINE_SPACINGS (JString (line_spacing_literal p)) = Some p"
  by (cases p; simp add: includesValue_def READER_LINE_SPACINGS_def)

lemma includes_width [simp]: "includesValue content_width_literal READER_CONTENT_WIDTHS (JString (content_width_literal w)) = Some w"
  by (cases w; simp add: includesValue_def READER_CONTENT_WIDTHS_def)

lemma includes_theme [simp]: "includesValue reader_theme_literal READER_THEMES (JString (reader_theme_literal t)) = Some t"
  by (cases t; simp add: includesValue_def READER_THEMES_def)

text \<open>An update changes the named preference only, and only to one of the values of its union.\<close>

lemma updated_preferences:
  "updateReaderPreference current name value = NewObject p \<Longrightarrow> p \<noteq> current \<and> preferencesVersion p = preferencesVersion current \<and>
     (name \<noteq> ContentWidth \<longrightarrow> contentWidth p = contentWidth current) \<and>
     (name \<noteq> LineSpacing \<longrightarrow> lineSpacing p = lineSpacing current) \<and>
     (name \<noteq> TextScale \<longrightarrow> textScale p = textScale current) \<and> (name \<noteq> Theme \<longrightarrow> theme p = theme current)"
  by (cases current; cases name) (auto simp: updateReaderPreference_def split: option.splits if_splits)

end
