(* ===== verification/Position_Repository.thy ===== *)
theory Position_Repository
  imports Persisted_State Reader_Preferences
begin

text \<open>
  apps/desktop/src/persistence/reader-position-repository.ts: the repository that keeps reading
  positions and display preferences in web storage. \<open>JSON\<close> and the storage belong to the platform:
  a codec is a parameter, and the storage is a map of strings any access to which may throw.
\<close>

section \<open>The platform\<close>

record json_codec =
  jsonParse :: "js_string \<Rightarrow> js_value option"
  jsonStringify :: "js_value \<Rightarrow> js_string"

text \<open>What \<open>JSON.stringify\<close> writes without loss and \<open>JSON.parse\<close> therefore reads back.\<close>

fun json_value :: "js_value \<Rightarrow> bool" where
  "json_value JUndefined = False"
| "json_value (JNumber x) = (\<exists>r. x = Finite r)"
| "json_value (JArray vs) = (\<forall>v \<in> set vs. json_value v)"
| "json_value (JObject kvs) = (distinct (map fst kvs) \<and> (\<forall>kv \<in> set kvs. json_value (snd kv)))"
| "json_value _ = True"

definition json_faithful :: "json_codec \<Rightarrow> bool" where
  "json_faithful json \<longleftrightarrow> (\<forall>v. json_value v \<longrightarrow> jsonParse json (jsonStringify json v) = Some v)"

text \<open>\<open>faulty n\<close>: the n-th access to the storage throws.\<close>

record web_storage =
  stored :: "js_string \<Rightarrow> js_string option"
  faulty :: "nat \<Rightarrow> bool"
  accesses :: nat

type_synonym 'a storage_prog = "(web_storage, unit, 'a) prog"

definition storageAccess :: "unit storage_prog" where
  "storageAccess s = (if faulty s (accesses s) then Inl () else Inr (), s\<lparr>accesses := Suc (accesses s)\<rparr>)"

definition getItem :: "js_string \<Rightarrow> js_string option storage_prog" where
  "getItem key = andThen storageAccess (\<lambda>_. gets (\<lambda>s. stored s key))"

definition setItem :: "js_string \<Rightarrow> js_string \<Rightarrow> unit storage_prog" where
  "setItem key v = andThen storageAccess (\<lambda>_. modify (\<lambda>s. s\<lparr>stored := (stored s)(key \<mapsto> v)\<rparr>))"

section \<open>Results\<close>

definition READER_POSITIONS_STORAGE_KEY :: js_string where
  "READER_POSITIONS_STORAGE_KEY = js ''voxleaf.reader.positions''"
definition READER_PREFERENCES_STORAGE_KEY :: js_string where
  "READER_PREFERENCES_STORAGE_KEY = js ''voxleaf.reader.preferences''"
definition MAX_READER_POSITION_STATES :: nat where "MAX_READER_POSITION_STATES = 128"
definition MAX_READER_POSITIONS_CODE_UNITS :: nat where "MAX_READER_POSITIONS_CODE_UNITS = 262144"
definition MAX_READER_PREFERENCES_CODE_UNITS :: nat where "MAX_READER_PREFERENCES_CODE_UNITS = 1024"

datatype repository_failure = StoreMalformed | StoreOverLimit | StoreUnavailable | StoreUnsupportedVersion

datatype 'a read_result = Ready 'a | Missing | ReadFailure repository_failure

datatype write_result = Saved | NotSaved repository_failure

type_synonym 'a decode_result = "repository_failure + 'a"

section \<open>Decoding\<close>

fun readObject :: "js_value \<Rightarrow> (string \<times> js_value) list option" where
  "readObject (JObject kvs) = Some kvs"
| "readObject _ = None"

definition hasExactKeys :: "(string \<times> js_value) list \<Rightarrow> string list \<Rightarrow> bool" where
  "hasExactKeys kvs expected \<longleftrightarrow> length (remdups (map fst kvs)) = length expected \<and>
     list_all (\<lambda>k. k \<in> fst ` set kvs) expected"

fun inspectEnvelopeVersion :: "js_value \<Rightarrow> int decode_result" where
  "inspectEnvelopeVersion (JObject kvs) = (case property kvs ''schemaVersion'' of
       JNumber x \<Rightarrow> if \<not> is_safe_integer_num x \<or> num_value x < 1 then Inl StoreMalformed else Inr \<lfloor>num_value x\<rfloor>
     | _ \<Rightarrow> Inl StoreMalformed)"
| "inspectEnvelopeVersion _ = Inl StoreMalformed"

definition decodePersistedState :: "js_value \<Rightarrow> persisted_state decode_result" where
  "decodePersistedState input = (case decodePersistedReadingStateV1 input of
       Inr s \<Rightarrow> Inr s
     | Inl e \<Rightarrow> Inl (if e = PersistedContractError UnsupportedVersion then StoreUnsupportedVersion else StoreMalformed))"

definition identitiesMatch :: "book_identity \<Rightarrow> book_identity \<Rightarrow> bool" where
  "identitiesMatch l r \<longleftrightarrow> scheme l = scheme r \<and> schemeVersion l = schemeVersion r \<and> identityValue l = identityValue r"

fun decodeStates :: "js_value list \<Rightarrow> persisted_state list \<Rightarrow> persisted_state list decode_result" where
  "decodeStates [] states = Inr states"
| "decodeStates (input # inputs) states =
     bindE (decodePersistedState input) (\<lambda>decoded.
     if list_ex (\<lambda>s. identitiesMatch (stateBookIdentity s) (stateBookIdentity decoded)) states then Inl StoreMalformed
     else decodeStates inputs (states @ [decoded]))"

definition decodePositionsEnvelopeV1 :: "js_value \<Rightarrow> persisted_state list decode_result" where
  "decodePositionsEnvelopeV1 input = (case readObject input of
       None \<Rightarrow> Inl StoreMalformed
     | Some kvs \<Rightarrow>
         if \<not> hasExactKeys kvs [''schemaVersion'', ''states''] \<or> property kvs ''schemaVersion'' \<noteq> wire_int 1
         then Inl StoreMalformed
         else (case property kvs ''states'' of
             JArray inputs \<Rightarrow> if MAX_READER_POSITION_STATES < length inputs then Inl StoreOverLimit else decodeStates inputs []
           | _ \<Rightarrow> Inl StoreMalformed))"

definition decodeAndMigratePositionsEnvelope :: "js_value \<Rightarrow> persisted_state list decode_result" where
  "decodeAndMigratePositionsEnvelope input =
     bindE (inspectEnvelopeVersion input) (\<lambda>version.
     if version = 1 then decodePositionsEnvelopeV1 input else Inl StoreUnsupportedVersion)"

definition READER_PREFERENCE_KEYS :: "string list" where
  "READER_PREFERENCE_KEYS = [''schemaVersion'', ''textScale'', ''lineSpacing'', ''contentWidth'', ''theme'']"

definition decodeReaderPreferencesV1 :: "js_value \<Rightarrow> reader_preferences decode_result" where
  "decodeReaderPreferencesV1 input = (case readObject input of
       None \<Rightarrow> Inl StoreMalformed
     | Some kvs \<Rightarrow>
         if \<not> hasExactKeys kvs READER_PREFERENCE_KEYS \<or> property kvs ''schemaVersion'' \<noteq> wire_int 1 then Inl StoreMalformed
         else (case (includesValue text_scale_literal READER_TEXT_SCALES (property kvs ''textScale''),
               includesValue line_spacing_literal READER_LINE_SPACINGS (property kvs ''lineSpacing''),
               includesValue content_width_literal READER_CONTENT_WIDTHS (property kvs ''contentWidth''),
               includesValue reader_theme_literal READER_THEMES (property kvs ''theme'')) of
             (Some s, Some p, Some w, Some t) \<Rightarrow>
               Inr \<lparr>preferencesVersion = 1, textScale = s, lineSpacing = p, contentWidth = w, theme = t\<rparr>
           | _ \<Rightarrow> Inl StoreMalformed))"

definition decodeAndMigrateReaderPreferences :: "js_value \<Rightarrow> reader_preferences decode_result" where
  "decodeAndMigrateReaderPreferences input =
     bindE (inspectEnvelopeVersion input) (\<lambda>version.
     if version = 1 then decodeReaderPreferencesV1 input else Inl StoreUnsupportedVersion)"

definition decodeSerialized :: "json_codec \<Rightarrow> js_string \<Rightarrow> nat \<Rightarrow> (js_value \<Rightarrow> 'a decode_result) \<Rightarrow> 'a decode_result" where
  "decodeSerialized json serialized maxCodeUnits decode =
     (if maxCodeUnits < length serialized then Inl StoreOverLimit
      else case jsonParse json serialized of None \<Rightarrow> Inl StoreMalformed | Some input \<Rightarrow> decode input)"

definition decodeSerializedPositions :: "json_codec \<Rightarrow> js_string \<Rightarrow> persisted_state list decode_result" where
  "decodeSerializedPositions json serialized =
     decodeSerialized json serialized MAX_READER_POSITIONS_CODE_UNITS decodeAndMigratePositionsEnvelope"

definition decodeSerializedPreferences :: "json_codec \<Rightarrow> js_string \<Rightarrow> reader_preferences decode_result" where
  "decodeSerializedPreferences json serialized =
     decodeSerialized json serialized MAX_READER_PREFERENCES_CODE_UNITS decodeAndMigrateReaderPreferences"

section \<open>Writing\<close>

definition positions_wire :: "persisted_state list \<Rightarrow> js_value" where
  "positions_wire states = JObject [(''schemaVersion'', wire_int 1), (''states'', JArray (map state_wire states))]"

definition preferences_record_wire :: "reader_preferences \<Rightarrow> js_value" where
  "preferences_record_wire p = JObject [(''schemaVersion'', wire_int (preferencesVersion p)),
     (''textScale'', JString (text_scale_literal (textScale p))), (''lineSpacing'', JString (line_spacing_literal (lineSpacing p))),
     (''contentWidth'', JString (content_width_literal (contentWidth p))), (''theme'', JString (reader_theme_literal (theme p)))]"

function fitPositions :: "json_codec \<Rightarrow> persisted_state list \<Rightarrow> js_string option" where
  "fitPositions json states =
     (if states = [] then None
      else let serialized = jsonStringify json (positions_wire states) in
        if length serialized \<le> MAX_READER_POSITIONS_CODE_UNITS then Some serialized
        else if length states = 1 then None
        else fitPositions json (butlast states))"
  by auto
termination by (relation "measure (\<lambda>(json, states). length states)") auto

declare fitPositions.simps [simp del]

definition buildPositionsValue :: "json_codec \<Rightarrow> persisted_state \<Rightarrow> persisted_state list \<Rightarrow> js_string option" where
  "buildPositionsValue json newest existing =
     fitPositions json (take MAX_READER_POSITION_STATES
       (newest # filter (\<lambda>s. \<not> identitiesMatch (stateBookIdentity s) (stateBookIdentity newest)) existing))"

section \<open>The repository\<close>

text \<open>\<open>try { ... } catch { return r; }\<close>\<close>

definition catching :: "'a \<Rightarrow> 'a storage_prog \<Rightarrow> web_storage \<Rightarrow> 'a \<times> web_storage" where
  "catching r m s = (case m s of (Inl _, s) \<Rightarrow> (r, s) | (Inr x, s) \<Rightarrow> (x, s))"

definition readStored :: "js_string \<Rightarrow> js_string option storage_prog" where
  "readStored key = andThen storageAccess (\<lambda>_. getItem key)"

definition readPosition :: "json_codec \<Rightarrow> book_identity \<Rightarrow> web_storage \<Rightarrow> persisted_state read_result \<times> web_storage" where
  "readPosition json ident = catching (ReadFailure StoreUnavailable)
     (andThen (readStored READER_POSITIONS_STORAGE_KEY) (\<lambda>serialized. ok (case serialized of
         None \<Rightarrow> Missing
       | Some serialized \<Rightarrow> (case decodeSerializedPositions json serialized of
             Inl e \<Rightarrow> ReadFailure e
           | Inr states \<Rightarrow> (case find (\<lambda>s. identitiesMatch (stateBookIdentity s) ident) states of
                 None \<Rightarrow> Missing | Some s \<Rightarrow> Ready s)))))"

definition existingStates :: "json_codec \<Rightarrow> js_string option \<Rightarrow> write_result + persisted_state list" where
  "existingStates json current = (case current of
       None \<Rightarrow> Inr []
     | Some serialized \<Rightarrow> (case decodeSerializedPositions json serialized of
           Inr states \<Rightarrow> Inr states
         | Inl StoreMalformed \<Rightarrow> Inr []
         | Inl e \<Rightarrow> Inl (NotSaved e)))"

definition writePosition :: "json_codec \<Rightarrow> js_value \<Rightarrow> web_storage \<Rightarrow> write_result \<times> web_storage" where
  "writePosition json input s = (case decodePersistedState input of
       Inl e \<Rightarrow> (NotSaved e, s)
     | Inr state \<Rightarrow> catching (NotSaved StoreUnavailable)
         (andThen (readStored READER_POSITIONS_STORAGE_KEY) (\<lambda>current.
          case existingStates json current of
            Inl r \<Rightarrow> ok r
          | Inr existing \<Rightarrow> (case buildPositionsValue json state existing of
                None \<Rightarrow> ok (NotSaved StoreOverLimit)
              | Some serialized \<Rightarrow> andThen (setItem READER_POSITIONS_STORAGE_KEY serialized) (\<lambda>_. ok Saved)))) s)"

definition readPreferences :: "json_codec \<Rightarrow> web_storage \<Rightarrow> reader_preferences read_result \<times> web_storage" where
  "readPreferences json = catching (ReadFailure StoreUnavailable)
     (andThen (readStored READER_PREFERENCES_STORAGE_KEY) (\<lambda>serialized. ok (case serialized of
         None \<Rightarrow> Missing
       | Some serialized \<Rightarrow> (case decodeSerializedPreferences json serialized of
             Inl e \<Rightarrow> ReadFailure e | Inr p \<Rightarrow> Ready p))))"

definition replaceablePreferences :: "json_codec \<Rightarrow> js_string option \<Rightarrow> write_result option" where
  "replaceablePreferences json current = (case current of
       None \<Rightarrow> None
     | Some serialized \<Rightarrow> (case decodeSerializedPreferences json serialized of
           Inr _ \<Rightarrow> None
         | Inl StoreMalformed \<Rightarrow> None
         | Inl e \<Rightarrow> Some (NotSaved e)))"

definition writePreferences :: "json_codec \<Rightarrow> js_value \<Rightarrow> web_storage \<Rightarrow> write_result \<times> web_storage" where
  "writePreferences json input s = (case decodeAndMigrateReaderPreferences input of
       Inl e \<Rightarrow> (NotSaved e, s)
     | Inr p \<Rightarrow>
         let serialized = jsonStringify json (preferences_record_wire p) in
         if MAX_READER_PREFERENCES_CODE_UNITS < length serialized then (NotSaved StoreOverLimit, s)
         else catching (NotSaved StoreUnavailable)
           (andThen (readStored READER_PREFERENCES_STORAGE_KEY) (\<lambda>current.
            case replaceablePreferences json current of
              Some r \<Rightarrow> ok r
            | None \<Rightarrow> andThen (setItem READER_PREFERENCES_STORAGE_KEY serialized) (\<lambda>_. ok Saved))) s)"

end
