(* ===== verification/Save_Coordinator.thy ===== *)
theory Save_Coordinator
  imports Locator_Theorems Position_Repository
begin

text \<open>
  apps/desktop/src/persistence/reader-position-save-coordinator.ts: the object that decides when the
  reading position and the display preferences of one publication are written. It runs in turns: calls
  of its methods, callbacks of the timers it set, lifecycle events, and the settlement of a write it
  awaits. Between two turns at most one write of a kind is in flight.
\<close>

section \<open>State\<close>

definition PASSIVE_POSITION_SAVE_DEBOUNCE_MS :: int where "PASSIVE_POSITION_SAVE_DEBOUNCE_MS = 500"

datatype position_kind = Immediate | Passive

text \<open>A preferences object: compared by value and, in one place, by identity.\<close>

record preferences_object =
  preferencesObject :: nat
  preferencesValue :: reader_preferences

datatype settlement = Fulfilled write_result | Rejected

text \<open>
  The host: \<open>resolver n l\<close> is the answer of the n-th call of \<open>publication.resolveLocator\<close> (\<open>None\<close> when it
  throws), \<open>positionThrows n\<close> and \<open>preferencesThrows n\<close> whether the n-th write throws instead of
  returning a promise, \<open>callbackThrows n\<close> whether the n-th call of \<open>onPreferencesWritten\<close> throws. Timers
  are numbered; those set and neither cancelled nor fired are pending, with their delay.
\<close>

record save_host =
  publicationBook :: book_identity
  resolver :: "nat \<Rightarrow> reading_locator \<Rightarrow> locator_resolution option"
  positionThrows :: "nat \<Rightarrow> bool"
  preferencesThrows :: "nat \<Rightarrow> bool"
  callbackThrows :: "nat \<Rightarrow> bool"

record save_state =
  host :: save_host
  resolutions :: nat
  positionWrites :: "persisted_state list"
  preferencesWrites :: "preferences_object list"
  notifications :: "(preferences_object \<times> write_result) list"
  positionTimers :: "(nat \<times> int) list"
  preferencesTimers :: "(nat \<times> int) list"
  nextTimer :: nat
  hasCallback :: bool
  latestLocator :: reading_locator
  lastRequestedLocator :: "reading_locator option"
  lastSavedLocator :: "reading_locator option"
  queuedLocator :: "reading_locator option"
  writingLocator :: "reading_locator option"
  positionDrain :: bool
  cancelPositionSchedule :: "nat option"
  scheduledPositionKind :: "position_kind option"
  positionSaveRequested :: bool
  latestPreferences :: "preferences_object option"
  lastRequestedPreferences :: "preferences_object option"
  lastSavedPreferences :: "preferences_object option"
  queuedPreferences :: "preferences_object option"
  writingPreferences :: "preferences_object option"
  preferencesDrain :: bool
  cancelPreferencesSchedule :: "nat option"
  lifecycleSubscribed :: bool
  activeHeardSegmentId :: "js_string option"
  narrationActive :: bool
  narrationCheckpointed :: bool
  protectHeardCheckpoint :: bool
  started :: bool
  closed :: bool
  closePromise :: bool

definition identitiesEqual :: "book_identity \<Rightarrow> book_identity \<Rightarrow> bool" where
  "identitiesEqual l r \<longleftrightarrow> scheme l = scheme r \<and> schemeVersion l = schemeVersion r \<and> identityValue l = identityValue r"

definition locatorsEqual :: "reading_locator \<Rightarrow> reading_locator \<Rightarrow> bool" where
  "locatorsEqual l r \<longleftrightarrow> locatorSchemaVersion l = locatorSchemaVersion r \<and>
     identitiesEqual (bookIdentity l) (bookIdentity r) \<and> spineItemId l = spineItemId r \<and>
     spineItemIndex l = spineItemIndex r \<and> anchorKind (anchor l) = anchorKind (anchor r) \<and>
     formatVersion (anchor l) = formatVersion (anchor r) \<and> anchorValue (anchor l) = anchorValue (anchor r) \<and>
     anchorIndex (anchor l) = anchorIndex (anchor r) \<and> textOffsetCodePoints l = textOffsetCodePoints r \<and>
     progression l = progression r"

definition preferencesEqual :: "preferences_object \<Rightarrow> preferences_object \<Rightarrow> bool" where
  "preferencesEqual p q \<longleftrightarrow> (let l = preferencesValue p; r = preferencesValue q in
     preferencesVersion l = preferencesVersion r \<and> textScale l = textScale r \<and> lineSpacing l = lineSpacing r \<and>
     contentWidth l = contentWidth r \<and> theme l = theme r)"

definition createPersistedState :: "reading_locator \<Rightarrow> persisted_failure + persisted_state" where
  "createPersistedState l = decodePersistedReadingStateV1 (JObject [(''schemaVersion'', wire_int 1),
     (''bookIdentity'', identity_wire (bookIdentity l)), (''locator'', locator_wire l), (''preferences'', JObject [])])"

text \<open>
  The constructor; it throws (\<open>None\<close>) without an initial locator of the publication's book.
\<close>

definition createSaveCoordinator ::
    "save_host \<Rightarrow> reading_locator option \<Rightarrow> reading_locator option \<Rightarrow> bool option \<Rightarrow> bool \<Rightarrow> save_state option" where
  "createSaveCoordinator h defaultStart initial persistInitial callback =
     (case (case initial of Some l \<Rightarrow> Some l | None \<Rightarrow> defaultStart) of
        None \<Rightarrow> None
      | Some l \<Rightarrow> if \<not> identitiesEqual (bookIdentity l) (publicationBook h) then None
          else Some \<lparr>host = h, resolutions = 0, positionWrites = [], preferencesWrites = [], notifications = [],
            positionTimers = [], preferencesTimers = [], nextTimer = 0, hasCallback = callback, latestLocator = l,
            lastRequestedLocator = None, lastSavedLocator = None, queuedLocator = None, writingLocator = None,
            positionDrain = False, cancelPositionSchedule = None, scheduledPositionKind = None,
            positionSaveRequested = (case persistInitial of None \<Rightarrow> True | Some b \<Rightarrow> b),
            latestPreferences = None, lastRequestedPreferences = None, lastSavedPreferences = None,
            queuedPreferences = None, writingPreferences = None, preferencesDrain = False,
            cancelPreferencesSchedule = None, lifecycleSubscribed = False, activeHeardSegmentId = None,
            narrationActive = False, narrationCheckpointed = False, protectHeardCheckpoint = False,
            started = False, closed = False, closePromise = False\<rparr>)"

section \<open>Draining\<close>

text \<open>
  One turn of \<open>#drainPositions\<close>: from the head of its loop until it awaits a write or leaves. A state
  that cannot be encoded and a repository that throws are caught inside the loop.
\<close>

definition encodable :: "reading_locator \<Rightarrow> bool" where
  "encodable l = (case createPersistedState l of Inl _ \<Rightarrow> False | Inr _ \<Rightarrow> True)"

definition callWritePosition :: "reading_locator \<Rightarrow> save_state \<Rightarrow> bool \<times> save_state" where
  "callWritePosition l s = (case createPersistedState l of
       Inl _ \<Rightarrow> (False, s)
     | Inr st \<Rightarrow> (\<not> positionThrows (host s) (length (positionWrites s)), s\<lparr>positionWrites := positionWrites s @ [st]\<rparr>))"

function drainPositions :: "save_state \<Rightarrow> save_state" where
  "drainPositions s = (case queuedLocator s of
       None \<Rightarrow> s\<lparr>positionDrain := False\<rparr>
     | Some l \<Rightarrow>
         (case callWritePosition l (s\<lparr>queuedLocator := None, writingLocator := Some l\<rparr>) of
            (True, s) \<Rightarrow> s
          | (False, s) \<Rightarrow> drainPositions (s\<lparr>writingLocator := None\<rparr>)))"
  by auto
termination
  by (relation "measure (\<lambda>s. if queuedLocator s = None then 0 else 1)")
    (auto simp: callWritePosition_def split: sum.splits)

declare drainPositions.simps [simp del]

definition settlePosition :: "settlement \<Rightarrow> save_state \<Rightarrow> save_state" where
  "settlePosition r s = (case writingLocator s of
       None \<Rightarrow> s
     | Some l \<Rightarrow> drainPositions (s\<lparr>lastSavedLocator := (if r = Fulfilled Saved then Some l else lastSavedLocator s),
         writingLocator := None\<rparr>))"

definition startPositionDrain :: "save_state \<Rightarrow> save_state" where
  "startPositionDrain s = (if positionDrain s then s else drainPositions (s\<lparr>positionDrain := True\<rparr>))"

definition queueLatestPosition :: "save_state \<Rightarrow> save_state" where
  "queueLatestPosition s =
     (if \<not> positionSaveRequested s then s
      else let l = latestLocator s in
        case writingLocator s of
          Some w \<Rightarrow> s\<lparr>queuedLocator := (if locatorsEqual w l then None else Some l)\<rparr>
        | None \<Rightarrow>
            if (case lastSavedLocator s of None \<Rightarrow> False | Some v \<Rightarrow> locatorsEqual v l) then s\<lparr>queuedLocator := None\<rparr>
            else startPositionDrain (s\<lparr>queuedLocator := Some l\<rparr>))"

text \<open>
  What follows a write of preferences, inside the loop: \<open>True\<close> when the loop goes on, \<open>False\<close> when the
  callback throws out of it.
\<close>

definition preferencesWritten :: "preferences_object \<Rightarrow> write_result \<Rightarrow> save_state \<Rightarrow> bool \<times> save_state" where
  "preferencesWritten p r s =
     (let s = s\<lparr>writingPreferences := None\<rparr> in
      if \<not> closed s \<and> map_option preferencesObject (latestPreferences s) = Some (preferencesObject p)
      then let s = (if r \<noteq> Saved then s\<lparr>lastRequestedPreferences := None\<rparr> else s) in
        if hasCallback s
        then (\<not> callbackThrows (host s) (length (notifications s)), s\<lparr>notifications := notifications s @ [(p, r)]\<rparr>)
        else (True, s)
      else (True, s))"

function drainPreferences :: "save_state \<Rightarrow> save_state" where
  "drainPreferences s = (case queuedPreferences s of
       None \<Rightarrow> s\<lparr>preferencesDrain := False\<rparr>
     | Some p \<Rightarrow>
         let throws = preferencesThrows (host s) (length (preferencesWrites s));
           s = s\<lparr>queuedPreferences := None, writingPreferences := Some p, preferencesWrites := preferencesWrites s @ [p]\<rparr> in
         if \<not> throws then s
         else (case preferencesWritten p (NotSaved StoreUnavailable) s of
             (False, s) \<Rightarrow> s
           | (True, s) \<Rightarrow> drainPreferences s))"
  by auto
termination
  by (relation "measure (\<lambda>s. if queuedPreferences s = None then 0 else 1)")
    (auto simp: preferencesWritten_def Let_def split: if_splits)

declare drainPreferences.simps [simp del]

definition settlementResult :: "settlement \<Rightarrow> write_result" where
  "settlementResult r = (case r of Fulfilled w \<Rightarrow> w | Rejected \<Rightarrow> NotSaved StoreUnavailable)"

definition settlePreferences :: "settlement \<Rightarrow> save_state \<Rightarrow> save_state" where
  "settlePreferences r s = (case writingPreferences s of
       None \<Rightarrow> s
     | Some p \<Rightarrow>
         (case preferencesWritten p (settlementResult r)
             (if r = Fulfilled Saved then s\<lparr>lastSavedPreferences := Some p\<rparr> else s) of
            (False, s) \<Rightarrow> s
          | (True, s) \<Rightarrow> drainPreferences s))"

definition startPreferencesDrain :: "save_state \<Rightarrow> save_state" where
  "startPreferencesDrain s = (if preferencesDrain s then s else drainPreferences (s\<lparr>preferencesDrain := True\<rparr>))"

definition queueLatestPreferences :: "save_state \<Rightarrow> save_state" where
  "queueLatestPreferences s = (case latestPreferences s of
       None \<Rightarrow> s
     | Some p \<Rightarrow> (case writingPreferences s of
           Some w \<Rightarrow> s\<lparr>queuedPreferences := (if preferencesEqual w p then None else Some p)\<rparr>
         | None \<Rightarrow>
             if (case lastSavedPreferences s of None \<Rightarrow> False | Some v \<Rightarrow> preferencesEqual v p)
             then s\<lparr>queuedPreferences := None\<rparr>
             else startPreferencesDrain (s\<lparr>queuedPreferences := Some p\<rparr>)))"

section \<open>Scheduling\<close>

text \<open>\<open>this.#cancelPositionSchedule?.()\<close>, and the timer of the preferences.\<close>

definition cancelPositionTimer :: "save_state \<Rightarrow> save_state" where
  "cancelPositionTimer s = (case cancelPositionSchedule s of None \<Rightarrow> s
     | Some t \<Rightarrow> s\<lparr>positionTimers := filter (\<lambda>(u, _). u \<noteq> t) (positionTimers s)\<rparr>)"

definition cancelPreferencesTimer :: "save_state \<Rightarrow> save_state" where
  "cancelPreferencesTimer s = (case cancelPreferencesSchedule s of None \<Rightarrow> s
     | Some t \<Rightarrow> s\<lparr>preferencesTimers := filter (\<lambda>(u, _). u \<noteq> t) (preferencesTimers s)\<rparr>)"

definition dropPositionSchedule :: "save_state \<Rightarrow> save_state" where
  "dropPositionSchedule s = (cancelPositionTimer s)\<lparr>cancelPositionSchedule := None, scheduledPositionKind := None\<rparr>"

definition cancelPendingSchedules :: "save_state \<Rightarrow> save_state" where
  "cancelPendingSchedules s =
     (cancelPreferencesTimer (dropPositionSchedule s))\<lparr>cancelPreferencesSchedule := None\<rparr>"

definition validatedCanonicalLocator :: "reading_locator \<Rightarrow> save_state \<Rightarrow> reading_locator option \<times> save_state" where
  "validatedCanonicalLocator l s =
     ((case resolver (host s) (resolutions s) l of
         Some (ExactResolution r _) \<Rightarrow>
           if locatorsEqual l r \<and> identitiesEqual (bookIdentity l) (publicationBook (host s)) then Some r else None
       | _ \<Rightarrow> None), s\<lparr>resolutions := Suc (resolutions s)\<rparr>)"

definition requestPosition :: "reading_locator \<Rightarrow> save_state \<Rightarrow> save_state" where
  "requestPosition canonical s =
     s\<lparr>latestLocator := canonical, lastRequestedLocator := Some canonical, positionSaveRequested := True\<rparr>"

definition setPositionTimer :: "position_kind \<Rightarrow> save_state \<Rightarrow> save_state" where
  "setPositionTimer kind s = (let s = cancelPositionTimer s; t = nextTimer s in
     s\<lparr>scheduledPositionKind := Some kind, cancelPositionSchedule := Some t, nextTimer := Suc t,
       positionTimers := positionTimers s @ [(t, if kind = Passive then PASSIVE_POSITION_SAVE_DEBOUNCE_MS else 0)]\<rparr>)"

text \<open>\<open>value !== undefined && locatorsEqual(value, locator)\<close>\<close>

definition isLocator :: "reading_locator option \<Rightarrow> reading_locator \<Rightarrow> bool" where
  "isLocator v l = (case v of None \<Rightarrow> False | Some q \<Rightarrow> locatorsEqual q l)"

definition schedulePosition :: "reading_locator \<Rightarrow> position_kind \<Rightarrow> save_state \<Rightarrow> bool \<times> save_state" where
  "schedulePosition l kind s =
     (if closed s then (False, s)
      else case validatedCanonicalLocator l s of
        (None, s) \<Rightarrow> (False, s)
      | (Some canonical, s) \<Rightarrow>
          if isLocator (lastRequestedLocator s) canonical \<and> (kind = Passive \<or> scheduledPositionKind s \<noteq> Some Passive)
          then (False, s)
          else let s = requestPosition canonical s in
            if writingLocator s = None \<and> isLocator (lastSavedLocator s) canonical then (False, dropPositionSchedule s)
            else if kind = Passive \<and> scheduledPositionKind s = Some Immediate then (True, s)
            else (True, setPositionTimer kind s))"

definition positionTimer :: "nat \<Rightarrow> save_state \<Rightarrow> save_state" where
  "positionTimer t s = (if t \<notin> fst ` set (positionTimers s) then s
     else queueLatestPosition (s\<lparr>positionTimers := filter (\<lambda>(u, _). u \<noteq> t) (positionTimers s),
       cancelPositionSchedule := None, scheduledPositionKind := None\<rparr>))"

definition preferencesTimer :: "nat \<Rightarrow> save_state \<Rightarrow> save_state" where
  "preferencesTimer t s = (if t \<notin> fst ` set (preferencesTimers s) then s
     else queueLatestPreferences (s\<lparr>preferencesTimers := filter (\<lambda>(u, _). u \<noteq> t) (preferencesTimers s),
       cancelPreferencesSchedule := None\<rparr>))"

section \<open>Operations\<close>

definition flush :: "save_state \<Rightarrow> save_state" where
  "flush s = (if closed s then s
     else queueLatestPreferences (queueLatestPosition (cancelPendingSchedules s)))"

definition startCoordinator :: "save_state \<Rightarrow> save_state" where
  "startCoordinator s = (if started s \<or> closed s then s else s\<lparr>started := True, lifecycleSubscribed := True\<rparr>)"

definition lifecycleEvent :: "save_state \<Rightarrow> save_state" where
  "lifecycleEvent s = (if lifecycleSubscribed s then flush s else s)"

definition unprotect :: "bool \<times> save_state \<Rightarrow> bool \<times> save_state" where
  "unprotect = (\<lambda>(scheduled, s). (scheduled, if scheduled then s\<lparr>protectHeardCheckpoint := False\<rparr> else s))"

definition schedulePassive :: "reading_locator \<Rightarrow> save_state \<Rightarrow> bool \<times> save_state" where
  "schedulePassive l s = (if narrationActive s then (False, s) else unprotect (schedulePosition l Passive s))"

definition scheduleImmediate :: "reading_locator \<Rightarrow> save_state \<Rightarrow> bool \<times> save_state" where
  "scheduleImmediate l s = (if narrationActive s then (False, s) else unprotect (schedulePosition l Immediate s))"

definition scheduleReflow :: "reading_locator \<Rightarrow> save_state \<Rightarrow> bool \<times> save_state" where
  "scheduleReflow l s =
     (if narrationActive s \<or> protectHeardCheckpoint s then (False, s) else schedulePosition l Immediate s)"

definition beginNarration :: "save_state \<Rightarrow> bool \<times> save_state" where
  "beginNarration s =
     (if closed s \<or> narrationActive s then (False, s)
      else (True, (dropPositionSchedule (s\<lparr>narrationActive := True, narrationCheckpointed := False,
          activeHeardSegmentId := None\<rparr>))
        \<lparr>queuedLocator := None, lastRequestedLocator := None, positionSaveRequested := False\<rparr>))"

datatype heard_checkpoint = SegmentStarted js_string reading_locator | SegmentCompleted js_string reading_locator

fun checkpointLocator :: "heard_checkpoint \<Rightarrow> reading_locator" where
  "checkpointLocator (SegmentStarted _ l) = l"
| "checkpointLocator (SegmentCompleted _ l) = l"

definition recordHeardCheckpoint :: "heard_checkpoint \<Rightarrow> save_state \<Rightarrow> bool \<times> save_state" where
  "recordHeardCheckpoint c s =
     (if closed s \<or> \<not> narrationActive s then (False, s)
      else case validatedCanonicalLocator (checkpointLocator c) s of
        (None, s) \<Rightarrow> (False, s)
      | (Some canonical, s) \<Rightarrow>
          if (case c of SegmentCompleted g _ \<Rightarrow> activeHeardSegmentId s \<noteq> Some g | SegmentStarted _ _ \<Rightarrow> False) then (False, s)
          else schedulePosition canonical Immediate
            (s\<lparr>activeHeardSegmentId := (case c of SegmentStarted g _ \<Rightarrow> Some g | SegmentCompleted _ _ \<Rightarrow> None),
               narrationCheckpointed := True, protectHeardCheckpoint := True\<rparr>))"

definition finishNarration :: "save_state \<Rightarrow> save_state" where
  "finishNarration s =
     (if closed s then s
      else if \<not> narrationActive s then flush s
      else flush (s\<lparr>narrationActive := False, activeHeardSegmentId := None,
        protectHeardCheckpoint := (if narrationCheckpointed s then True else protectHeardCheckpoint s),
        narrationCheckpointed := False\<rparr>))"

definition savePreferences :: "preferences_object \<Rightarrow> save_state \<Rightarrow> bool \<times> save_state" where
  "savePreferences p s =
     (if closed s \<or> (case lastRequestedPreferences s of None \<Rightarrow> False | Some q \<Rightarrow> preferencesEqual q p) then (False, s)
      else let s = cancelPreferencesTimer (s\<lparr>latestPreferences := Some p, lastRequestedPreferences := Some p\<rparr>);
          t = nextTimer s in
        (True, s\<lparr>cancelPreferencesSchedule := Some t, nextTimer := Suc t,
           preferencesTimers := preferencesTimers s @ [(t, 0)]\<rparr>))"

definition closeCoordinator :: "save_state \<Rightarrow> save_state" where
  "closeCoordinator s =
     (if closePromise s then s
      else (queueLatestPreferences (queueLatestPosition (cancelPendingSchedules (s\<lparr>lifecycleSubscribed := False\<rparr>))))
        \<lparr>closed := True, closePromise := True\<rparr>)"

text \<open>The condition on which the promises of \<open>flush\<close>, \<open>finishNarration\<close> and \<open>close\<close> resolve.\<close>

definition quiescent :: "save_state \<Rightarrow> bool" where
  "quiescent s \<longleftrightarrow> \<not> (positionDrain s \<or> preferencesDrain s)"

section \<open>Turns\<close>

datatype save_event =
    Start | SetCallback bool
  | SchedulePassive reading_locator | ScheduleImmediate reading_locator | ScheduleReflow reading_locator
  | BeginNarration | HeardCheckpoint heard_checkpoint | FinishNarration
  | SavePreferences preferences_object | Flush | Close | Lifecycle
  | PositionTimer nat | PreferencesTimer nat | PositionSettled settlement | PreferencesSettled settlement

definition noResult :: "save_state \<Rightarrow> bool option \<times> save_state" where
  "noResult s = (None, s)"

definition boolResult :: "bool \<times> save_state \<Rightarrow> bool option \<times> save_state" where
  "boolResult = (\<lambda>(b, s). (Some b, s))"

fun save_step :: "save_event \<Rightarrow> save_state \<Rightarrow> bool option \<times> save_state" where
  "save_step Start s = noResult (startCoordinator s)"
| "save_step (SetCallback b) s = noResult (s\<lparr>hasCallback := b\<rparr>)"
| "save_step (SchedulePassive l) s = boolResult (schedulePassive l s)"
| "save_step (ScheduleImmediate l) s = boolResult (scheduleImmediate l s)"
| "save_step (ScheduleReflow l) s = boolResult (scheduleReflow l s)"
| "save_step BeginNarration s = boolResult (beginNarration s)"
| "save_step (HeardCheckpoint c) s = boolResult (recordHeardCheckpoint c s)"
| "save_step FinishNarration s = noResult (finishNarration s)"
| "save_step (SavePreferences p) s = boolResult (savePreferences p s)"
| "save_step Flush s = noResult (flush s)"
| "save_step Close s = noResult (closeCoordinator s)"
| "save_step Lifecycle s = noResult (lifecycleEvent s)"
| "save_step (PositionTimer t) s = noResult (positionTimer t s)"
| "save_step (PreferencesTimer t) s = noResult (preferencesTimer t s)"
| "save_step (PositionSettled r) s = noResult (settlePosition r s)"
| "save_step (PreferencesSettled r) s = noResult (settlePreferences r s)"

end
