(* ===== verification/Save_Facts.thy ===== *)
theory Save_Facts
  imports Save_Coordinator
begin

text \<open>
  The invariants of the save coordinator and what its internal operations do: the two drains, their
  timers, and where the locators it holds come from.
\<close>

section \<open>Equality of locators and preferences\<close>

lemma identitiesEqual_eq [simp]: "identitiesEqual l r \<longleftrightarrow> l = r"
  by (auto simp: identitiesEqual_def intro: book_identity.equality)

lemma locatorsEqual_eq [simp]: "locatorsEqual l r \<longleftrightarrow> l = r"
  by (auto simp: locatorsEqual_def intro: reading_locator.equality structural_anchor.equality)

lemma preferencesEqual_eq [simp]: "preferencesEqual p q \<longleftrightarrow> preferencesValue p = preferencesValue q"
  by (auto simp: preferencesEqual_def Let_def intro: reader_preferences.equality)

section \<open>The drains without recursion\<close>

text \<open>A loop whose queue is empty leaves: one turn of a drain is at most one write.\<close>

lemma drainPositions_turn:
  "drainPositions s = (case queuedLocator s of
       None \<Rightarrow> s\<lparr>positionDrain := False\<rparr>
     | Some l \<Rightarrow> (case callWritePosition l (s\<lparr>queuedLocator := None, writingLocator := Some l\<rparr>) of
          (True, s) \<Rightarrow> s | (False, s) \<Rightarrow> s\<lparr>writingLocator := None, positionDrain := False\<rparr>))"
  by (subst drainPositions.simps)
    (auto simp: callWritePosition_def drainPositions.simps split: option.split sum.split bool.split)

lemma drainPreferences_turn:
  "drainPreferences s = (case queuedPreferences s of
       None \<Rightarrow> s\<lparr>preferencesDrain := False\<rparr>
     | Some p \<Rightarrow>
         let throws = preferencesThrows (host s) (length (preferencesWrites s));
           s = s\<lparr>queuedPreferences := None, writingPreferences := Some p, preferencesWrites := preferencesWrites s @ [p]\<rparr> in
         if \<not> throws then s
         else (case preferencesWritten p (NotSaved StoreUnavailable) s of
             (False, s) \<Rightarrow> s | (True, s) \<Rightarrow> s\<lparr>preferencesDrain := False\<rparr>))"
  by (subst drainPreferences.simps)
    (auto simp: preferencesWritten_def Let_def drainPreferences.simps split: option.split bool.split)

section \<open>Independence\<close>

text \<open>An operation that leaves the positions, or the preferences, alone.\<close>

definition same_positions :: "save_state \<Rightarrow> save_state \<Rightarrow> bool" where
  "same_positions s t \<longleftrightarrow> host t = host s \<and> positionWrites t = positionWrites s \<and> positionTimers t = positionTimers s \<and>
     latestLocator t = latestLocator s \<and> lastRequestedLocator t = lastRequestedLocator s \<and>
     lastSavedLocator t = lastSavedLocator s \<and> queuedLocator t = queuedLocator s \<and> writingLocator t = writingLocator s \<and>
     positionDrain t = positionDrain s \<and> cancelPositionSchedule t = cancelPositionSchedule s \<and>
     scheduledPositionKind t = scheduledPositionKind s \<and> positionSaveRequested t = positionSaveRequested s \<and>
     narrationActive t = narrationActive s"

definition same_preferences :: "save_state \<Rightarrow> save_state \<Rightarrow> bool" where
  "same_preferences s t \<longleftrightarrow> host t = host s \<and> preferencesWrites t = preferencesWrites s \<and> notifications t = notifications s \<and>
     preferencesTimers t = preferencesTimers s \<and> latestPreferences t = latestPreferences s \<and>
     lastRequestedPreferences t = lastRequestedPreferences s \<and> lastSavedPreferences t = lastSavedPreferences s \<and>
     queuedPreferences t = queuedPreferences s \<and> writingPreferences t = writingPreferences s \<and>
     preferencesDrain t = preferencesDrain s \<and> cancelPreferencesSchedule t = cancelPreferencesSchedule s"

text \<open>The fields that neither drain touches.\<close>

definition same_life :: "save_state \<Rightarrow> save_state \<Rightarrow> bool" where
  "same_life s t \<longleftrightarrow> closed t = closed s \<and> closePromise t = closePromise s \<and> lifecycleSubscribed t = lifecycleSubscribed s"

lemmas same_defs = same_positions_def same_preferences_def same_life_def

named_theorems independence \<open>what an operation leaves alone\<close>

lemma drainPositions_independent [independence]:
  "same_preferences s (drainPositions s) \<and> same_life s (drainPositions s)"
  by (auto simp: drainPositions_turn callWritePosition_def same_defs split: option.split sum.split bool.split)

lemma drainPreferences_independent [independence]:
  "same_positions s (drainPreferences s) \<and> same_life s (drainPreferences s)"
  by (auto simp: drainPreferences_turn preferencesWritten_def Let_def same_defs split: option.split bool.split)

lemma same_trans:
  "same_positions s t \<Longrightarrow> same_positions t u \<Longrightarrow> same_positions s u"
  "same_preferences s t \<Longrightarrow> same_preferences t u \<Longrightarrow> same_preferences s u"
  "same_life s t \<Longrightarrow> same_life t u \<Longrightarrow> same_life s u"
  by (simp_all add: same_defs)

lemma queueLatestPosition_independent [independence]:
  "same_preferences s (queueLatestPosition s) \<and> same_life s (queueLatestPosition s)"
  using drainPositions_independent [of "s\<lparr>queuedLocator := Some (latestLocator s), positionDrain := True\<rparr>"]
  by (auto simp: queueLatestPosition_def startPositionDrain_def Let_def same_defs split: option.split)

lemma startPreferencesDrain_independent [independence]:
  "same_positions s (startPreferencesDrain (s\<lparr>queuedPreferences := q\<rparr>)) \<and>
     same_life s (startPreferencesDrain (s\<lparr>queuedPreferences := q\<rparr>))"
proof -
  let ?s = "s\<lparr>queuedPreferences := q, preferencesDrain := True\<rparr>"
  have "same_positions s ?s" "same_life s ?s" by (simp_all add: same_defs)
  with drainPreferences_independent [of ?s] have "same_positions s (drainPreferences ?s) \<and> same_life s (drainPreferences ?s)"
    using same_trans by blast
  then show ?thesis by (simp add: startPreferencesDrain_def) (simp add: same_defs)
qed

lemma queueLatestPreferences_independent [independence]:
  "same_positions s (queueLatestPreferences s) \<and> same_life s (queueLatestPreferences s)"
proof (cases "latestPreferences s")
  case (Some p)
  have "same_positions s (s\<lparr>queuedPreferences := q\<rparr>) \<and> same_life s (s\<lparr>queuedPreferences := q\<rparr>)" for q
    by (simp add: same_defs)
  with Some startPreferencesDrain_independent [of s "Some p"] show ?thesis
    by (auto simp: queueLatestPreferences_def split: option.split)
qed (simp add: queueLatestPreferences_def same_defs)

lemma settlePosition_independent [independence]:
  "same_preferences s (settlePosition r s) \<and> same_life s (settlePosition r s)"
proof (cases "writingLocator s")
  case (Some l)
  let ?s = "s\<lparr>lastSavedLocator := (if r = Fulfilled Saved then Some l else lastSavedLocator s), writingLocator := None\<rparr>"
  have "same_preferences s ?s" "same_life s ?s" by (simp_all add: same_defs)
  with drainPositions_independent [of ?s] have "same_preferences s (drainPositions ?s) \<and> same_life s (drainPositions ?s)"
    using same_trans by blast
  with Some show ?thesis by (simp add: settlePosition_def)
qed (simp add: settlePosition_def same_defs)

lemma preferencesWritten_independent:
  "preferencesWritten p w s = (b, t) \<Longrightarrow> same_positions s t \<and> same_life s t"
  by (auto simp: preferencesWritten_def Let_def same_defs split: if_splits)

lemma settlePreferences_independent [independence]:
  "same_positions s (settlePreferences r s) \<and> same_life s (settlePreferences r s)"
proof (cases "writingPreferences s")
  case (Some p)
  let ?s = "if r = Fulfilled Saved then s\<lparr>lastSavedPreferences := Some p\<rparr> else s"
  obtain b t where t: "preferencesWritten p (settlementResult r) ?s = (b, t)" by fastforce
  have "same_positions s ?s" "same_life s ?s" by (simp_all add: same_defs)
  with preferencesWritten_independent [OF t] have st: "same_positions s t \<and> same_life s t" using same_trans by blast
  with drainPreferences_independent [of t] have "same_positions s (drainPreferences t) \<and> same_life s (drainPreferences t)"
    using same_trans by blast
  with Some t st show ?thesis by (cases b) (simp_all add: settlePreferences_def)
qed (simp add: settlePreferences_def same_defs)

lemma schedule_independent [independence]:
  "same_preferences s (dropPositionSchedule s) \<and> same_life s (dropPositionSchedule s)"
  "same_positions s (cancelPreferencesTimer s) \<and> same_life s (cancelPreferencesTimer s)"
  by (auto simp: dropPositionSchedule_def cancelPositionTimer_def cancelPreferencesTimer_def same_defs split: option.split)

section \<open>The invariant\<close>

definition position_inv :: "save_state \<Rightarrow> bool" where
  "position_inv s \<longleftrightarrow> (positionDrain s \<longleftrightarrow> writingLocator s \<noteq> None) \<and>
     (queuedLocator s \<noteq> None \<longrightarrow> writingLocator s \<noteq> None \<and> queuedLocator s \<noteq> writingLocator s) \<and>
     (case cancelPositionSchedule s of None \<Rightarrow> positionTimers s = [] \<and> scheduledPositionKind s = None
      | Some t \<Rightarrow> scheduledPositionKind s \<noteq> None \<and> map fst (positionTimers s) = [t])"

definition preferences_inv :: "save_state \<Rightarrow> bool" where
  "preferences_inv s \<longleftrightarrow> (writingPreferences s \<noteq> None \<or> queuedPreferences s \<noteq> None \<longrightarrow> preferencesDrain s) \<and>
     map fst (preferencesTimers s) = (case cancelPreferencesSchedule s of None \<Rightarrow> [] | Some t \<Rightarrow> [t])"

definition life_inv :: "save_state \<Rightarrow> bool" where
  "life_inv s \<longleftrightarrow> closePromise s = closed s \<and>
     (closed s \<longrightarrow> positionTimers s = [] \<and> preferencesTimers s = [] \<and> \<not> lifecycleSubscribed s)"

definition save_inv :: "save_state \<Rightarrow> bool" where
  "save_inv s \<longleftrightarrow> position_inv s \<and> preferences_inv s \<and> life_inv s"

lemma map_fst_single: "map fst ts = [t] \<longleftrightarrow> (\<exists>d. ts = [(t, d)])"
  by (cases ts) auto

lemma same_positions_inv: "same_positions s t \<Longrightarrow> position_inv t = position_inv s"
  by (simp add: same_positions_def position_inv_def split: option.split)

lemma same_preferences_inv: "same_preferences s t \<Longrightarrow> preferences_inv t = preferences_inv s"
  by (simp add: same_preferences_def preferences_inv_def split: option.split)

lemma dropPositionSchedule_inv:
  "position_inv s \<Longrightarrow> position_inv (dropPositionSchedule s) \<and> positionTimers (dropPositionSchedule s) = []"
  by (auto simp: position_inv_def dropPositionSchedule_def cancelPositionTimer_def map_fst_single split: option.splits)

lemma drainPositions_inv:
  "writingLocator s = None \<Longrightarrow> positionDrain s \<Longrightarrow> position_inv (s\<lparr>positionDrain := False, queuedLocator := None\<rparr>) \<Longrightarrow>
     position_inv (drainPositions s)"
  by (auto simp: drainPositions_turn callWritePosition_def position_inv_def split: option.splits sum.splits bool.splits)

lemma queueLatestPosition_inv: "position_inv s \<Longrightarrow> position_inv (queueLatestPosition s)"
  by (auto simp: queueLatestPosition_def startPositionDrain_def Let_def intro!: drainPositions_inv split: option.split)
    (auto simp: position_inv_def split: option.splits)

lemma settlePosition_inv: "position_inv s \<Longrightarrow> position_inv (settlePosition r s)"
  by (auto simp: settlePosition_def intro!: drainPositions_inv split: option.split)
    (auto simp: position_inv_def split: option.splits)

lemma drainPreferences_inv:
  "writingPreferences s = None \<Longrightarrow> preferencesDrain s \<Longrightarrow> preferences_inv s \<Longrightarrow> preferences_inv (drainPreferences s)"
  by (auto simp: drainPreferences_turn preferencesWritten_def Let_def preferences_inv_def split: option.splits bool.splits)

lemma queueLatestPreferences_inv: "preferences_inv s \<Longrightarrow> preferences_inv (queueLatestPreferences s)"
  by (auto simp: queueLatestPreferences_def startPreferencesDrain_def intro!: drainPreferences_inv split: option.split)
    (auto simp: preferences_inv_def split: option.splits)

lemma preferencesWritten_inv:
  assumes "preferencesWritten p w s = (b, t)" and "preferences_inv s" and "preferencesDrain s"
  shows "preferences_inv t \<and> preferencesDrain t \<and> writingPreferences t = None"
  using assms by (auto simp: preferencesWritten_def Let_def preferences_inv_def split: if_splits)

lemma settlePreferences_inv:
  assumes "preferences_inv s"
  shows "preferences_inv (settlePreferences r s)"
proof (cases "writingPreferences s")
  case (Some p)
  let ?s = "if r = Fulfilled Saved then s\<lparr>lastSavedPreferences := Some p\<rparr> else s"
  obtain b t where t: "preferencesWritten p (settlementResult r) ?s = (b, t)" by fastforce
  have "preferences_inv ?s" "preferencesDrain ?s" using assms Some by (simp_all add: preferences_inv_def split: option.split)
  from preferencesWritten_inv [OF t this] show ?thesis
    using Some t by (cases b) (simp_all add: settlePreferences_def drainPreferences_inv)
qed (use assms in \<open>simp add: settlePreferences_def\<close>)

end
