(* ===== verification/Save_Invariant.thy ===== *)
theory Save_Invariant
  imports Save_Facts
begin

text \<open>
  Every turn of the save coordinator keeps its invariant: one lemma per operation, then the
  interpretation of the coordinator as a guarded machine.
\<close>


section \<open>Every turn keeps the invariant\<close>

text \<open>The drains and the queues set no timer and cancel none.\<close>

lemma drainPositions_timers [simp]:
  "positionTimers (drainPositions s) = positionTimers s"
  by (simp add: drainPositions_turn callWritePosition_def split: option.split sum.split bool.split)

lemma queueLatestPosition_timers [simp]:
  "positionTimers (queueLatestPosition s) = positionTimers s"
  by (simp add: queueLatestPosition_def startPositionDrain_def Let_def split: option.split)

lemma settlePosition_timers [simp]: "positionTimers (settlePosition r s) = positionTimers s"
  by (simp add: settlePosition_def split: option.split)

lemma drainPreferences_timers [simp]:
  "preferencesTimers (drainPreferences s) = preferencesTimers s"
  by (simp add: drainPreferences_turn preferencesWritten_def Let_def split: option.split bool.split)

lemma queueLatestPreferences_timers [simp]:
  "preferencesTimers (queueLatestPreferences s) = preferencesTimers s"
  by (simp add: queueLatestPreferences_def startPreferencesDrain_def split: option.split)

lemma preferencesWritten_timers: "preferencesWritten p w s = (b, t) \<Longrightarrow> preferencesTimers t = preferencesTimers s"
  by (auto simp: preferencesWritten_def Let_def split: if_splits)

lemma settlePreferences_timers [simp]: "preferencesTimers (settlePreferences r s) = preferencesTimers s"
proof (cases "writingPreferences s")
  case (Some p)
  let ?s = "if r = Fulfilled Saved then s\<lparr>lastSavedPreferences := Some p\<rparr> else s"
  obtain b t where t: "preferencesWritten p (settlementResult r) ?s = (b, t)" by fastforce
  from preferencesWritten_timers [OF t] Some t show ?thesis by (cases b) (simp_all add: settlePreferences_def)
qed (simp add: settlePreferences_def)

lemma validatedCanonicalLocator_snd [simp]:
  "snd (validatedCanonicalLocator l s) = s\<lparr>resolutions := Suc (resolutions s)\<rparr>"
  by (simp add: validatedCanonicalLocator_def)

lemma cancelPendingSchedules_inv:
  assumes "position_inv s" "preferences_inv s"
  shows "position_inv (cancelPendingSchedules s)" "preferences_inv (cancelPendingSchedules s)"
    "positionTimers (cancelPendingSchedules s) = []" "preferencesTimers (cancelPendingSchedules s) = []"
    "same_life s (cancelPendingSchedules s)"
proof -
  let ?d = "dropPositionSchedule s"
  have d: "position_inv ?d" "positionTimers ?d = []" using dropPositionSchedule_inv [OF assms(1)] by simp_all
  have p: "preferences_inv ?d" using schedule_independent(1) [of s] same_preferences_inv assms(2) by blast
  have c: "same_positions ?d (cancelPendingSchedules s)"
    by (auto simp: cancelPendingSchedules_def cancelPreferencesTimer_def same_positions_def split: option.split)
  from same_positions_inv [OF c] d(1) show "position_inv (cancelPendingSchedules s)" by simp
  from c d(2) show "positionTimers (cancelPendingSchedules s) = []" by (simp add: same_positions_def)
  from p show "preferences_inv (cancelPendingSchedules s)" "preferencesTimers (cancelPendingSchedules s) = []"
    by (auto simp: cancelPendingSchedules_def cancelPreferencesTimer_def preferences_inv_def map_fst_single split: option.splits)
  show "same_life s (cancelPendingSchedules s)"
    by (auto simp: cancelPendingSchedules_def dropPositionSchedule_def cancelPositionTimer_def cancelPreferencesTimer_def
        same_life_def split: option.split)
qed

text \<open>What \<open>flush\<close> and \<open>close\<close> have in common.\<close>

definition queueBoth :: "save_state \<Rightarrow> save_state" where
  "queueBoth s = queueLatestPreferences (queueLatestPosition (cancelPendingSchedules s))"

lemma queueBoth_inv:
  assumes "position_inv s" "preferences_inv s"
  shows "position_inv (queueBoth s)" "preferences_inv (queueBoth s)"
    "positionTimers (queueBoth s) = []" "preferencesTimers (queueBoth s) = []" "same_life s (queueBoth s)"
proof -
  note c = cancelPendingSchedules_inv [OF assms]
  let ?q = "queueLatestPosition (cancelPendingSchedules s)"
  have ind: "same_preferences (cancelPendingSchedules s) ?q" "same_life (cancelPendingSchedules s) ?q"
    using queueLatestPosition_independent [of "cancelPendingSchedules s"] by simp_all
  have q: "position_inv ?q" "preferences_inv ?q" "same_life s ?q" "positionTimers ?q = []" "preferencesTimers ?q = []"
    using queueLatestPosition_inv [OF c(1)] same_preferences_inv [OF ind(1)] same_trans(3) [OF c(5) ind(2)] c ind(1)
    by (simp_all add: same_preferences_def)
  have i: "same_positions ?q (queueBoth s)" "same_life ?q (queueBoth s)"
    using queueLatestPreferences_independent [of ?q] by (simp_all add: queueBoth_def)
  show "position_inv (queueBoth s)" using same_positions_inv [OF i(1)] q(1) by simp
  show "preferences_inv (queueBoth s)" using queueLatestPreferences_inv [OF q(2)] by (simp add: queueBoth_def)
  show "positionTimers (queueBoth s) = []" using i(1) q(4) by (simp add: same_positions_def)
  show "preferencesTimers (queueBoth s) = []" using q(5) by (simp add: queueBoth_def)
  show "same_life s (queueBoth s)" using same_trans(3) [OF q(3) i(2)] .
qed

lemma flush_inv: "save_inv s \<Longrightarrow> save_inv (flush s)"
  using queueBoth_inv [of s]
  by (auto simp: flush_def save_inv_def life_inv_def same_life_def queueBoth_def [symmetric])

lemma closeCoordinator_inv:
  assumes "save_inv s"
  shows "save_inv (closeCoordinator s)"
proof -
  let ?s = "s\<lparr>lifecycleSubscribed := False\<rparr>"
  have "same_positions s ?s" "same_preferences s ?s" by (simp_all add: same_defs)
  then have inv: "position_inv ?s" "preferences_inv ?s"
    using assms same_positions_inv same_preferences_inv by (auto simp: save_inv_def)
  let ?q = "queueBoth ?s" and ?c = "(queueBoth ?s)\<lparr>closed := True, closePromise := True\<rparr>"
  note q = queueBoth_inv [OF inv]
  have "same_positions ?q ?c" "same_preferences ?q ?c" by (simp_all add: same_defs)
  then have "position_inv ?c" "preferences_inv ?c" using q(1,2) same_positions_inv same_preferences_inv by blast+
  moreover have "life_inv ?c" using q(3-5) by (simp add: life_inv_def same_life_def)
  ultimately have "save_inv ?c" by (simp add: save_inv_def)
  with assms show ?thesis by (simp add: closeCoordinator_def queueBoth_def)
qed

lemma request_inv:
  "position_inv s \<Longrightarrow> position_inv (requestPosition c s)"
  "same_preferences s (requestPosition c s) \<and> same_life s (requestPosition c s)"
  by (auto simp: requestPosition_def position_inv_def same_defs split: option.splits)

lemma setPositionTimer_inv:
  "position_inv s \<Longrightarrow> position_inv (setPositionTimer k s)"
  "same_preferences s (setPositionTimer k s) \<and> same_life s (setPositionTimer k s)"
  by (auto simp: setPositionTimer_def cancelPositionTimer_def Let_def position_inv_def map_fst_single same_defs split: option.splits)

lemma resolutions_inv:
  "position_inv (s\<lparr>resolutions := n\<rparr>) = position_inv s"
  "same_preferences s (s\<lparr>resolutions := n\<rparr>) \<and> same_life s (s\<lparr>resolutions := n\<rparr>)"
  by (simp_all add: position_inv_def same_defs split: option.split)

text \<open>The ways \<open>schedulePosition\<close> can go.\<close>

lemma schedulePosition_cases:
  assumes "schedulePosition l k s = (b, t)"
  obtains (refused) "\<not> b" "t = s \<or> t = s\<lparr>resolutions := Suc (resolutions s)\<rparr>"
  | (saved) c where "\<not> b" "\<not> closed s" "fst (validatedCanonicalLocator l s) = Some c" "writingLocator s = None" "lastSavedLocator s = Some c"
      "t = dropPositionSchedule (requestPosition c (s\<lparr>resolutions := Suc (resolutions s)\<rparr>))"
  | (joined) c where "b" "\<not> closed s" "fst (validatedCanonicalLocator l s) = Some c" "scheduledPositionKind s = Some Immediate"
      "t = requestPosition c (s\<lparr>resolutions := Suc (resolutions s)\<rparr>)"
  | (timed) c where "b" "\<not> closed s" "fst (validatedCanonicalLocator l s) = Some c"
      "t = setPositionTimer k (requestPosition c (s\<lparr>resolutions := Suc (resolutions s)\<rparr>))"
proof (cases "closed s")
  case True
  with assms refused show thesis by (simp add: schedulePosition_def)
next
  case open_: False
  obtain v where v: "validatedCanonicalLocator l s = (v, s\<lparr>resolutions := Suc (resolutions s)\<rparr>)"
    by (metis prod.collapse validatedCanonicalLocator_snd)
  show thesis
  proof (cases v)
    case None
    with assms v open_ refused show thesis by (simp add: schedulePosition_def)
  next
    case (Some c)
    with v have f: "fst (validatedCanonicalLocator l s) = Some c" by simp
    have isL: "isLocator w c \<longleftrightarrow> w = Some c" for w by (cases w) (auto simp: isLocator_def)
    have r: "writingLocator (requestPosition c s') = writingLocator s'" "lastSavedLocator (requestPosition c s') = lastSavedLocator s'"
      "scheduledPositionKind (requestPosition c s') = scheduledPositionKind s'" for s'
      by (simp_all add: requestPosition_def)
    show thesis
      using assms v Some open_ refused saved [OF _ open_ f] joined [OF _ open_ f] timed [OF _ open_ f]
      unfolding schedulePosition_def by (simp add: isL r Let_def split: if_splits)
  qed
qed

lemma schedulePosition_inv: "position_inv s \<Longrightarrow> position_inv (snd (schedulePosition l k s))"
proof -
  assume inv: "position_inv s"
  obtain b t where t: "schedulePosition l k s = (b, t)" by fastforce
  then show ?thesis
    by (rule schedulePosition_cases)
      (use inv t in \<open>auto simp: resolutions_inv request_inv setPositionTimer_inv dropPositionSchedule_inv\<close>)
qed

lemma schedulePosition_independent [independence]:
  "same_preferences s (snd (schedulePosition l k s)) \<and> same_life s (snd (schedulePosition l k s))"
proof -
  let ?r = "s\<lparr>resolutions := Suc (resolutions s)\<rparr>"
  have r: "same_preferences s (requestPosition c ?r) \<and> same_life s (requestPosition c ?r)" for c
    using resolutions_inv(2) request_inv(2) same_trans by blast
  have self: "same_preferences s s \<and> same_life s s" by (simp add: same_defs)
  obtain b t where t: "schedulePosition l k s = (b, t)" by fastforce
  then have "same_preferences s t \<and> same_life s t"
  proof (cases rule: schedulePosition_cases)
    case refused
    with self resolutions_inv(2) show ?thesis by blast
  next
    case (saved c)
    with r schedule_independent(1) same_trans show ?thesis by blast
  next
    case (joined c)
    with r show ?thesis by blast
  next
    case (timed c)
    with r setPositionTimer_inv(2) same_trans show ?thesis by blast
  qed
  with t show ?thesis by simp
qed

lemma schedulePosition_closed: "closed s \<Longrightarrow> schedulePosition l k s = (False, s)"
  by (simp add: schedulePosition_def)

lemma schedulePosition_save_inv: "save_inv s \<Longrightarrow> save_inv (snd (schedulePosition l k s))"
proof (cases "closed s")
  case False
  assume "save_inv s"
  then show ?thesis
    using schedulePosition_inv [of s l k] schedulePosition_independent [of s l k] same_preferences_inv False
    by (auto simp: save_inv_def life_inv_def same_life_def)
qed (simp add: schedulePosition_closed)


text \<open>A change of fields that no invariant mentions.\<close>

lemma save_inv_frame:
  assumes "save_inv s" and p: "same_positions s t" and q: "same_preferences s t" and "same_life s t"
  shows "save_inv t"
proof -
  have "position_inv t" "preferences_inv t"
    using same_positions_inv [OF p] same_preferences_inv [OF q] assms(1) by (simp_all add: save_inv_def)
  moreover have "life_inv t" using assms by (simp add: save_inv_def life_inv_def same_defs)
  ultimately show ?thesis by (simp add: save_inv_def)
qed

text \<open>Positions change, preferences and lifecycle do not; or the other way round.\<close>

lemma save_inv_positions:
  assumes "save_inv s" and q: "same_preferences s t \<and> same_life s t" and "position_inv t"
    and "closed s \<Longrightarrow> positionTimers t = []"
  shows "save_inv t"
proof -
  have "preferences_inv t" using same_preferences_inv [of s t] q assms(1) by (simp add: save_inv_def)
  moreover have "life_inv t" using assms by (simp add: save_inv_def life_inv_def same_life_def same_preferences_def)
  ultimately show ?thesis using assms(3) by (simp add: save_inv_def)
qed

lemma save_inv_preferences:
  assumes "save_inv s" and q: "same_positions s t \<and> same_life s t" and "preferences_inv t"
    and "closed s \<Longrightarrow> preferencesTimers t = []"
  shows "save_inv t"
proof -
  have "position_inv t" using same_positions_inv [of s t] q assms(1) by (simp add: save_inv_def)
  moreover have "life_inv t" using assms by (simp add: save_inv_def life_inv_def same_life_def same_positions_def)
  ultimately show ?thesis using assms(3) by (simp add: save_inv_def)
qed

lemma save_inv_timers: "save_inv s \<Longrightarrow> closed s \<Longrightarrow> positionTimers s = [] \<and> preferencesTimers s = []"
  by (simp add: save_inv_def life_inv_def)

lemma settle_inv:
  "save_inv s \<Longrightarrow> save_inv (settlePosition r s)"
  "save_inv s \<Longrightarrow> save_inv (settlePreferences r s)"
proof -
  assume inv: "save_inv s"
  show "save_inv (settlePosition r s)"
    by (rule save_inv_positions [OF inv settlePosition_independent])
      (use inv save_inv_timers in \<open>simp_all add: save_inv_def settlePosition_inv\<close>)
  show "save_inv (settlePreferences r s)"
    by (rule save_inv_preferences [OF inv settlePreferences_independent])
      (use inv save_inv_timers in \<open>simp_all add: save_inv_def settlePreferences_inv\<close>)
qed

lemma positionTimer_inv:
  assumes "save_inv s"
  shows "save_inv (positionTimer t s)"
proof (cases "t \<in> fst ` set (positionTimers s)")
  case True
  let ?s = "s\<lparr>positionTimers := filter (\<lambda>(u, _). u \<noteq> t) (positionTimers s), cancelPositionSchedule := None, scheduledPositionKind := None\<rparr>"
  have p: "position_inv ?s" "positionTimers ?s = []"
    using assms True by (auto simp: save_inv_def position_inv_def map_fst_single split: option.splits)
  have same: "same_preferences s ?s" "same_life s ?s" by (simp_all add: same_defs)
  from True have "\<not> closed s" using save_inv_timers [OF assms] by auto
  have "save_inv (queueLatestPosition ?s)"
  proof (rule save_inv_positions [OF assms])
    show "same_preferences s (queueLatestPosition ?s) \<and> same_life s (queueLatestPosition ?s)"
      using queueLatestPosition_independent [of ?s] same same_trans by blast
    show "position_inv (queueLatestPosition ?s)" by (rule queueLatestPosition_inv [OF p(1)])
  qed (use \<open>\<not> closed s\<close> in simp)
  with True show ?thesis by (simp add: positionTimer_def)
qed (use assms in \<open>simp add: positionTimer_def\<close>)

lemma preferencesTimer_inv:
  assumes "save_inv s"
  shows "save_inv (preferencesTimer t s)"
proof (cases "t \<in> fst ` set (preferencesTimers s)")
  case True
  let ?s = "s\<lparr>preferencesTimers := filter (\<lambda>(u, _). u \<noteq> t) (preferencesTimers s), cancelPreferencesSchedule := None\<rparr>"
  have p: "preferences_inv ?s"
    using assms True by (auto simp: save_inv_def preferences_inv_def map_fst_single split: option.splits)
  have same: "same_positions s ?s" "same_life s ?s" by (simp_all add: same_defs)
  from True have "\<not> closed s" using save_inv_timers [OF assms] by auto
  have "save_inv (queueLatestPreferences ?s)"
  proof (rule save_inv_preferences [OF assms])
    show "same_positions s (queueLatestPreferences ?s) \<and> same_life s (queueLatestPreferences ?s)"
      using queueLatestPreferences_independent [of ?s] same same_trans by blast
    show "preferences_inv (queueLatestPreferences ?s)" by (rule queueLatestPreferences_inv [OF p])
  qed (use \<open>\<not> closed s\<close> in simp)
  with True show ?thesis by (simp add: preferencesTimer_def)
qed (use assms in \<open>simp add: preferencesTimer_def\<close>)

lemma unprotect_inv: "save_inv (snd r) \<Longrightarrow> save_inv (snd (unprotect r))"
proof -
  assume "save_inv (snd r)"
  then have "save_inv ((snd r)\<lparr>protectHeardCheckpoint := False\<rparr>)"
    by (rule save_inv_frame) (simp_all add: same_defs)
  with \<open>save_inv (snd r)\<close> show ?thesis by (cases r) (simp add: unprotect_def)
qed

lemma schedule_ops_inv:
  "save_inv s \<Longrightarrow> save_inv (snd (schedulePassive l s))"
  "save_inv s \<Longrightarrow> save_inv (snd (scheduleImmediate l s))"
  "save_inv s \<Longrightarrow> save_inv (snd (scheduleReflow l s))"
  by (auto simp: schedulePassive_def scheduleImmediate_def scheduleReflow_def
      intro!: unprotect_inv schedulePosition_save_inv)

lemma beginNarration_inv:
  assumes "save_inv s"
  shows "save_inv (snd (beginNarration s))"
proof (cases "closed s \<or> narrationActive s")
  case False
  let ?n = "s\<lparr>narrationActive := True, narrationCheckpointed := False, activeHeardSegmentId := None\<rparr>"
  let ?d = "dropPositionSchedule ?n"
  let ?t = "?d\<lparr>queuedLocator := None, lastRequestedLocator := None, positionSaveRequested := False\<rparr>"
  have n: "position_inv ?n" "same_preferences s ?n" "same_life s ?n"
    using assms by (auto simp: save_inv_def position_inv_def same_defs split: option.splits)
  have "position_inv ?d" using dropPositionSchedule_inv [OF n(1)] by simp
  then have p: "position_inv ?t" by (auto simp: position_inv_def split: option.splits)
  have "same_preferences ?d ?t" "same_life ?d ?t" by (simp_all add: same_defs)
  with n(2,3) schedule_independent(1) [of ?n] have "same_preferences s ?t \<and> same_life s ?t" using same_trans by blast
  then have "save_inv ?t" by (rule save_inv_positions [OF assms _ p]) (use False in simp)
  with False show ?thesis by (simp add: beginNarration_def)
qed (use assms in \<open>simp add: beginNarration_def\<close>)

lemma recordHeardCheckpoint_inv:
  assumes "save_inv s"
  shows "save_inv (snd (recordHeardCheckpoint c s))"
proof -
  have "save_inv (s\<lparr>resolutions := n\<rparr>)" for n
    by (rule save_inv_frame [OF assms]) (simp_all add: same_defs)
  moreover have "save_inv (s\<lparr>resolutions := n, activeHeardSegmentId := g, narrationCheckpointed := True, protectHeardCheckpoint := True\<rparr>)" for n g
    by (rule save_inv_frame [OF assms]) (simp_all add: same_defs)
  ultimately show ?thesis
    using assms by (auto simp: recordHeardCheckpoint_def validatedCanonicalLocator_def split: option.split locator_resolution.split
        heard_checkpoint.split intro!: schedulePosition_save_inv)
qed

lemma finishNarration_inv:
  assumes "save_inv s"
  shows "save_inv (finishNarration s)"
proof -
  have "save_inv (s\<lparr>narrationActive := False, activeHeardSegmentId := None, protectHeardCheckpoint := p, narrationCheckpointed := False\<rparr>)"
    for p
  proof -
    let ?t = "s\<lparr>narrationActive := False, activeHeardSegmentId := None, protectHeardCheckpoint := p, narrationCheckpointed := False\<rparr>"
    have q: "same_preferences s ?t \<and> same_life s ?t" by (simp add: same_defs)
    have "position_inv ?t" using assms by (auto simp: save_inv_def position_inv_def split: option.splits)
    then show ?thesis by (rule save_inv_positions [OF assms q]) (use save_inv_timers [OF assms] in simp)
  qed
  then show ?thesis by (simp add: finishNarration_def flush_inv assms)
qed

lemma savePreferences_inv:
  assumes "save_inv s"
  shows "save_inv (snd (savePreferences p s))"
proof (cases "closed s")
  case False
  have "preferences_inv s" using assms by (simp add: save_inv_def)
  then have "preferences_inv (snd (savePreferences p s))"
    by (auto simp: savePreferences_def cancelPreferencesTimer_def Let_def preferences_inv_def map_fst_single split: option.splits)
  moreover have "same_positions s (snd (savePreferences p s)) \<and> same_life s (snd (savePreferences p s))"
    by (auto simp: savePreferences_def cancelPreferencesTimer_def Let_def same_defs split: option.splits)
  ultimately show ?thesis using save_inv_preferences [OF assms] False by blast
qed (use assms in \<open>simp add: savePreferences_def\<close>)

end
