(* ===== verification/Save_Theorems.thy ===== *)
theory Save_Theorems
  imports Save_Invariant
begin

text \<open>
  The properties of the save coordinator over whole runs: where the positions it writes come from, that a
  flush or a close persists the latest one, what narration holds back and that closing is final.
\<close>

section \<open>The coordinator as a machine\<close>

lemma save_step_inv: "save_inv s \<Longrightarrow> save_inv (snd (save_step e s))"
proof (cases e)
  case Start
  assume inv: "save_inv s"
  have "save_inv (startCoordinator s)"
  proof (cases "started s \<or> closed s")
    case False
    let ?t = "s\<lparr>started := True, lifecycleSubscribed := True\<rparr>"
    have "same_positions s ?t" "same_preferences s ?t" by (simp_all add: same_defs)
    then have "position_inv ?t" "preferences_inv ?t"
      using inv same_positions_inv [of s ?t] same_preferences_inv [of s ?t] by (simp_all add: save_inv_def)
    moreover have "life_inv ?t" using inv False by (simp add: save_inv_def life_inv_def)
    ultimately show ?thesis using False by (simp add: startCoordinator_def save_inv_def)
  qed (use inv in \<open>simp add: startCoordinator_def\<close>)
  with Start show ?thesis by (simp add: noResult_def)
next
  case (SetCallback b)
  assume inv: "save_inv s"
  have "save_inv (s\<lparr>hasCallback := b\<rparr>)" by (rule save_inv_frame [OF inv]) (simp_all add: same_defs)
  with SetCallback show ?thesis by (simp add: noResult_def)
qed (simp_all add: noResult_def boolResult_def case_prod_beta flush_inv closeCoordinator_inv schedule_ops_inv
    beginNarration_inv recordHeardCheckpoint_inv finishNarration_inv savePreferences_inv positionTimer_inv
    preferencesTimer_inv settle_inv lifecycleEvent_def)

interpretation saver: guarded_machine save_step save_inv
  by unfold_locales (rule save_step_inv)

lemma created_inv: "createSaveCoordinator h d i p c = Some s \<Longrightarrow> save_inv s"
  by (auto simp: createSaveCoordinator_def save_inv_def position_inv_def preferences_inv_def life_inv_def Let_def
      split: option.splits if_splits)

section \<open>Where locators come from\<close>

text \<open>
  The initial locator, or one that the publication resolved exactly to itself, of the publication's
  book.
\<close>

definition origin :: "save_host \<Rightarrow> reading_locator \<Rightarrow> reading_locator \<Rightarrow> bool" where
  "origin h initial l \<longleftrightarrow> l = initial \<or>
     (\<exists>n b. resolver h n l = Some (ExactResolution l b) \<and> bookIdentity l = publicationBook h)"

definition held :: "save_state \<Rightarrow> reading_locator set" where
  "held s = {latestLocator s} \<union> set_option (lastRequestedLocator s) \<union> set_option (lastSavedLocator s) \<union>
     set_option (queuedLocator s) \<union> set_option (writingLocator s)"

definition provenance :: "save_host \<Rightarrow> reading_locator \<Rightarrow> save_state \<Rightarrow> bool" where
  "provenance h initial s \<longleftrightarrow> host s = h \<and> (\<forall>l \<in> held s. origin h initial l) \<and>
     (\<forall>st \<in> set (positionWrites s). \<exists>l. origin h initial l \<and> createPersistedState l = Inr st)"

lemma provenance_frame:
  "same_positions s t \<Longrightarrow> provenance h i t = provenance h i s"
  by (simp add: same_positions_def provenance_def held_def)

lemma drainPositions_provenance: "provenance h i s \<Longrightarrow> provenance h i (drainPositions s)"
  by (auto simp: drainPositions_turn callWritePosition_def provenance_def held_def split: option.split sum.split bool.split)

lemma queueLatestPosition_provenance: "provenance h i s \<Longrightarrow> provenance h i (queueLatestPosition s)"
  by (auto simp: queueLatestPosition_def startPositionDrain_def Let_def intro!: drainPositions_provenance split: option.split)
    (auto simp: provenance_def held_def)

lemma settlePosition_provenance: "provenance h i s \<Longrightarrow> provenance h i (settlePosition r s)"
  by (auto simp: settlePosition_def intro!: drainPositions_provenance split: option.split)
    (auto simp: provenance_def held_def)

lemma dropPositionSchedule_provenance: "provenance h i (dropPositionSchedule s) = provenance h i s"
  by (simp add: dropPositionSchedule_def cancelPositionTimer_def provenance_def held_def split: option.split)

lemma queueBoth_provenance: "provenance h i s \<Longrightarrow> provenance h i (queueBoth s)"
proof -
  assume p: "provenance h i s"
  have "same_positions (dropPositionSchedule s) (cancelPendingSchedules s)"
    by (auto simp: cancelPendingSchedules_def cancelPreferencesTimer_def same_positions_def split: option.split)
  with p have "provenance h i (cancelPendingSchedules s)" by (simp add: provenance_frame dropPositionSchedule_provenance)
  then have "provenance h i (queueLatestPosition (cancelPendingSchedules s))" by (rule queueLatestPosition_provenance)
  then show ?thesis
    using provenance_frame queueLatestPreferences_independent by (metis queueBoth_def)
qed

lemma validated_origin:
  "fst (validatedCanonicalLocator l s) = Some c \<Longrightarrow> origin (host s) i c"
  by (auto simp: validatedCanonicalLocator_def origin_def split: option.splits locator_resolution.splits if_splits)

lemma schedulePosition_provenance:
  assumes "provenance h i s"
  shows "provenance h i (snd (schedulePosition l k s))"
proof -
  let ?r = "s\<lparr>resolutions := Suc (resolutions s)\<rparr>"
  have r: "provenance h i ?r" using assms by (simp add: provenance_def held_def)
  have req: "provenance h i (requestPosition c ?r)" if "fst (validatedCanonicalLocator l s) = Some c" for c
    using validated_origin [OF that, of i] assms by (auto simp: requestPosition_def provenance_def held_def)
  have tim: "provenance h i (setPositionTimer k t) = provenance h i t" for t
    by (simp add: setPositionTimer_def cancelPositionTimer_def Let_def provenance_def held_def split: option.split)
  obtain b t where t: "schedulePosition l k s = (b, t)" by fastforce
  then have "provenance h i t"
    by (cases rule: schedulePosition_cases) (use assms r req tim in \<open>auto simp: dropPositionSchedule_provenance\<close>)
  with t show ?thesis by simp
qed


lemma flush_provenance: "provenance h i s \<Longrightarrow> provenance h i (flush s)"
  by (simp add: flush_def queueBoth_provenance flip: queueBoth_def)

lemma close_provenance:
  assumes "provenance h i s"
  shows "provenance h i (closeCoordinator s)"
proof -
  have "provenance h i (s\<lparr>lifecycleSubscribed := False\<rparr>)" using assms by (simp add: provenance_def held_def)
  from queueBoth_provenance [OF this] assms show ?thesis
    by (simp add: closeCoordinator_def flip: queueBoth_def) (simp add: provenance_def held_def)
qed

lemma unprotect_snd: "snd (unprotect r) = (if fst r then (snd r)\<lparr>protectHeardCheckpoint := False\<rparr> else snd r)"
  by (cases r) (simp add: unprotect_def)

lemma unprotect_provenance: "provenance h i (snd r) \<Longrightarrow> provenance h i (snd (unprotect r))"
  by (simp add: unprotect_snd) (simp add: provenance_def held_def)

lemma recordHeardCheckpoint_provenance:
  assumes "provenance h i s"
  shows "provenance h i (snd (recordHeardCheckpoint c s))"
proof -
  have "provenance h i (s\<lparr>resolutions := n\<rparr>)" for n using assms by (simp add: provenance_def held_def)
  moreover have "provenance h i (s\<lparr>resolutions := n, activeHeardSegmentId := g, narrationCheckpointed := True, protectHeardCheckpoint := True\<rparr>)"
    for n g using assms by (simp add: provenance_def held_def)
  ultimately show ?thesis
    using assms by (auto simp: recordHeardCheckpoint_def validatedCanonicalLocator_def split: option.split locator_resolution.split
        heard_checkpoint.split intro!: schedulePosition_provenance)
qed

lemma finishNarration_provenance:
  assumes "provenance h i s"
  shows "provenance h i (finishNarration s)"
proof -
  have "provenance h i (s\<lparr>narrationActive := False, activeHeardSegmentId := None, protectHeardCheckpoint := p, narrationCheckpointed := False\<rparr>)"
    for p using assms by (simp add: provenance_def held_def)
  then show ?thesis by (simp add: finishNarration_def flush_provenance assms)
qed

lemma beginNarration_provenance: "provenance h i s \<Longrightarrow> provenance h i (snd (beginNarration s))"
  by (auto simp: beginNarration_def dropPositionSchedule_def cancelPositionTimer_def provenance_def held_def split: option.split)

lemma positionTimer_provenance:
  assumes "provenance h i s"
  shows "provenance h i (positionTimer t s)"
proof -
  have "provenance h i (s\<lparr>positionTimers := ts, cancelPositionSchedule := None, scheduledPositionKind := None\<rparr>)" for ts
    using assms by (simp add: provenance_def held_def)
  with assms show ?thesis by (simp add: positionTimer_def queueLatestPosition_provenance)
qed

lemma preferencesTimer_positions: "same_positions s (preferencesTimer t s) \<and> same_life s (preferencesTimer t s)"
proof -
  let ?s = "s\<lparr>preferencesTimers := filter (\<lambda>(u, _). u \<noteq> t) (preferencesTimers s), cancelPreferencesSchedule := None\<rparr>"
  have "same_positions s ?s \<and> same_life s ?s" "same_positions s s \<and> same_life s s" by (simp_all add: same_defs)
  moreover from this have "same_positions s (queueLatestPreferences ?s) \<and> same_life s (queueLatestPreferences ?s)"
    using queueLatestPreferences_independent [of ?s] same_trans by blast
  ultimately show ?thesis by (simp add: preferencesTimer_def)
qed

lemma savePreferences_positions: "same_positions s (snd (savePreferences p s)) \<and> same_life s (snd (savePreferences p s))"
  by (auto simp: savePreferences_def cancelPreferencesTimer_def Let_def same_defs split: option.splits)

lemma save_step_provenance: "provenance h i s \<Longrightarrow> provenance h i (snd (save_step e s))"
proof (cases e)
  case Start
  assume "provenance h i s"
  with Start show ?thesis by (auto simp: noResult_def startCoordinator_def provenance_def held_def)
next
  case (SetCallback b)
  assume "provenance h i s"
  with SetCallback show ?thesis by (simp add: noResult_def provenance_def held_def)
next
  case (SavePreferences p)
  assume "provenance h i s"
  then have "provenance h i (snd (savePreferences p s))" using savePreferences_positions provenance_frame by blast
  with SavePreferences show ?thesis by (simp add: boolResult_def case_prod_beta)
next
  case (PreferencesTimer t)
  assume "provenance h i s"
  then have "provenance h i (preferencesTimer t s)" using preferencesTimer_positions provenance_frame by blast
  with PreferencesTimer show ?thesis by (simp add: noResult_def)
next
  case (PreferencesSettled r)
  assume "provenance h i s"
  then have "provenance h i (settlePreferences r s)" using settlePreferences_independent provenance_frame by blast
  with PreferencesSettled show ?thesis by (simp add: noResult_def)
qed (auto simp: noResult_def boolResult_def case_prod_beta flush_provenance close_provenance schedulePassive_def
    scheduleImmediate_def scheduleReflow_def beginNarration_provenance recordHeardCheckpoint_provenance
    finishNarration_provenance positionTimer_provenance settlePosition_provenance lifecycleEvent_def
    intro!: unprotect_provenance schedulePosition_provenance)

interpretation traced: guarded_machine save_step "\<lambda>s. provenance h i s" for h i
  by unfold_locales (rule save_step_provenance)

section \<open>Persisting the latest position\<close>

text \<open>Where the latest position is after it has been queued.\<close>

lemma queued_latest:
  assumes "position_inv s" and "positionSaveRequested s" and "encodable (latestLocator s)" and "\<forall>n. \<not> positionThrows (host s) n"
  defines "t \<equiv> queueLatestPosition s"
  shows "latestLocator t = latestLocator s \<and> host t = host s \<and>
    (lastSavedLocator t = Some (latestLocator s) \<and> writingLocator t = None \<and> queuedLocator t = None \<and> \<not> positionDrain t \<or>
     writingLocator t = Some (latestLocator s) \<and> queuedLocator t = None \<or>
     writingLocator t \<noteq> None \<and> queuedLocator t = Some (latestLocator s))"
  using assms by (auto simp: queueLatestPosition_def startPositionDrain_def Let_def drainPositions_turn callWritePosition_def
      position_inv_def encodable_def split: option.splits sum.splits)

lemma settle_saved:
  assumes "writingLocator s = Some l" and "queuedLocator s = None"
  shows "lastSavedLocator (settlePosition (Fulfilled Saved) s) = Some l \<and> \<not> positionDrain (settlePosition (Fulfilled Saved) s) \<and>
    writingLocator (settlePosition (Fulfilled Saved) s) = None"
  using assms by (simp add: settlePosition_def drainPositions_turn)

lemma settle_next:
  assumes "writingLocator s \<noteq> None" and "queuedLocator s = Some l" and "encodable l" and "\<forall>n. \<not> positionThrows (host s) n"
  shows "writingLocator (settlePosition r s) = Some l \<and> queuedLocator (settlePosition r s) = None"
  using assms by (auto simp: settlePosition_def drainPositions_turn callWritePosition_def encodable_def split: option.split sum.splits)

lemma settle_idle: "writingLocator s = None \<Longrightarrow> settlePosition r s = s"
  by (simp add: settlePosition_def)

lemma two_saves_persist:
  assumes "position_inv s" and "positionSaveRequested s" and "encodable (latestLocator s)" and "\<forall>n. \<not> positionThrows (host s) n"
    and t: "same_positions (queueLatestPosition s) t"
  defines "u \<equiv> settlePosition (Fulfilled Saved) (settlePosition (Fulfilled Saved) t)"
  shows "lastSavedLocator u = Some (latestLocator s) \<and> \<not> positionDrain u"
proof -
  note q = queued_latest [OF assms(1-4)]
  have host: "\<forall>n. \<not> positionThrows (host t) n" using q t assms(4) by (simp add: same_positions_def)
  from q t consider "lastSavedLocator t = Some (latestLocator s)" "writingLocator t = None" "\<not> positionDrain t"
    | "writingLocator t = Some (latestLocator s)" "queuedLocator t = None"
    | "writingLocator t \<noteq> None" "queuedLocator t = Some (latestLocator s)"
    by (auto simp: same_positions_def)
  then show ?thesis
  proof cases
    case 1
    then show ?thesis by (simp add: u_def settle_idle)
  next
    case 2
    from settle_saved [OF this] show ?thesis by (simp add: u_def settle_idle)
  next
    case 3
    from settle_saved [OF settle_next [OF this assms(3) host, THEN conjunct1] settle_next [OF this assms(3) host, THEN conjunct2]]
    show ?thesis by (simp add: u_def)
  qed
qed


section \<open>Narration\<close>

text \<open>Nothing but a heard checkpoint can cause a position to be written.\<close>

definition held_back :: "save_state \<Rightarrow> bool" where
  "held_back s \<longleftrightarrow> narrationActive s \<and> \<not> positionSaveRequested s \<and> queuedLocator s = None \<and>
     positionTimers s = [] \<and> cancelPositionSchedule s = None"

lemma held_back_frame:
  "same_positions s t \<Longrightarrow> held_back s \<Longrightarrow> held_back t \<and> positionWrites t = positionWrites s"
  by (simp add: same_positions_def held_back_def)

lemma held_back_queue: "held_back s \<Longrightarrow> queueLatestPosition s = s"
  by (simp add: held_back_def queueLatestPosition_def)

lemma held_back_queueBoth: "held_back s \<Longrightarrow> held_back (queueBoth s) \<and> positionWrites (queueBoth s) = positionWrites s"
proof -
  assume h: "held_back s"
  then have "held_back (cancelPendingSchedules s)" "positionWrites (cancelPendingSchedules s) = positionWrites s"
    by (auto simp: held_back_def cancelPendingSchedules_def dropPositionSchedule_def cancelPositionTimer_def
        cancelPreferencesTimer_def split: option.split)
  then show ?thesis
    using held_back_frame queueLatestPreferences_independent by (metis queueBoth_def held_back_queue)
qed

lemma held_back_step:
  assumes "held_back s" and "\<forall>c. e \<noteq> HeardCheckpoint c" and "e \<noteq> FinishNarration"
  shows "held_back (snd (save_step e s)) \<and> positionWrites (snd (save_step e s)) = positionWrites s"
proof (cases e)
  case Close
  have "held_back (s\<lparr>lifecycleSubscribed := False\<rparr>)" using assms(1) by (simp add: held_back_def)
  from held_back_queueBoth [OF this]
  have "held_back ((queueBoth (s\<lparr>lifecycleSubscribed := False\<rparr>))\<lparr>closed := True, closePromise := True\<rparr>)"
    "positionWrites (queueBoth (s\<lparr>lifecycleSubscribed := False\<rparr>)) = positionWrites s" by (simp_all add: held_back_def)
  with Close assms(1) show ?thesis by (simp add: noResult_def closeCoordinator_def flip: queueBoth_def)
next
  case (SavePreferences p)
  have "held_back (snd (savePreferences p s)) \<and> positionWrites (snd (savePreferences p s)) = positionWrites s"
    using held_back_frame [OF _ assms(1)] savePreferences_positions by blast
  with SavePreferences show ?thesis by (simp add: boolResult_def case_prod_beta)
next
  case (PreferencesTimer t)
  have "held_back (preferencesTimer t s) \<and> positionWrites (preferencesTimer t s) = positionWrites s"
    using held_back_frame [OF _ assms(1)] preferencesTimer_positions by blast
  with PreferencesTimer show ?thesis by (simp add: noResult_def)
next
  case (PreferencesSettled r)
  have "held_back (settlePreferences r s) \<and> positionWrites (settlePreferences r s) = positionWrites s"
    using held_back_frame [OF _ assms(1)] settlePreferences_independent by blast
  with PreferencesSettled show ?thesis by (simp add: noResult_def)
next
  case (PositionSettled r)
  have "held_back (settlePosition r s) \<and> positionWrites (settlePosition r s) = positionWrites s"
    using assms(1) by (auto simp: settlePosition_def drainPositions_turn held_back_def split: option.split)
  with PositionSettled show ?thesis by (simp add: noResult_def)
next
  case (PositionTimer t)
  with assms(1) show ?thesis by (simp add: noResult_def positionTimer_def held_back_def)
next
  case (HeardCheckpoint c)
  with assms(2) show ?thesis by blast
qed (use assms held_back_queueBoth [OF assms(1)] in \<open>auto simp: noResult_def boolResult_def case_prod_beta startCoordinator_def
    schedulePassive_def scheduleImmediate_def scheduleReflow_def beginNarration_def flush_def lifecycleEvent_def
    held_back_def simp flip: queueBoth_def\<close>)

section \<open>After closing\<close>

text \<open>Writes made and still to be made.\<close>

definition position_debt :: "save_state \<Rightarrow> nat" where
  "position_debt s = length (positionWrites s) + (if queuedLocator s = None then 0 else 1)"

definition preferences_debt :: "save_state \<Rightarrow> nat" where
  "preferences_debt s = length (preferencesWrites s) + (if queuedPreferences s = None then 0 else 1)"

lemma drainPositions_debt: "position_debt (drainPositions s) \<le> position_debt s"
  by (simp add: drainPositions_turn callWritePosition_def position_debt_def split: option.split sum.split bool.split)

lemma drainPreferences_debt: "preferences_debt (drainPreferences s) \<le> preferences_debt s"
  by (simp add: drainPreferences_turn preferencesWritten_def Let_def preferences_debt_def split: option.split bool.split)

lemma settlePosition_debt:
  "position_debt (settlePosition r s) \<le> position_debt s \<and> preferences_debt (settlePosition r s) = preferences_debt s"
proof -
  have "preferences_debt (settlePosition r s) = preferences_debt s"
    using settlePosition_independent [of s r] by (simp add: same_preferences_def preferences_debt_def)
  moreover have "position_debt (settlePosition r s) \<le> position_debt s"
  proof (cases "writingLocator s")
    case (Some l)
    let ?s = "s\<lparr>lastSavedLocator := (if r = Fulfilled Saved then Some l else lastSavedLocator s), writingLocator := None\<rparr>"
    have "position_debt ?s = position_debt s" by (simp add: position_debt_def)
    with drainPositions_debt [of ?s] Some show ?thesis by (simp add: settlePosition_def)
  qed (simp add: settlePosition_def)
  ultimately show ?thesis by simp
qed

lemma preferencesWritten_debt: "preferencesWritten p w s = (b, t) \<Longrightarrow> preferences_debt t = preferences_debt s"
  by (auto simp: preferencesWritten_def Let_def preferences_debt_def split: if_splits)

lemma settlePreferences_debt:
  "preferences_debt (settlePreferences r s) \<le> preferences_debt s \<and> position_debt (settlePreferences r s) = position_debt s"
proof -
  have "position_debt (settlePreferences r s) = position_debt s"
    using settlePreferences_independent [of s r] by (simp add: same_positions_def position_debt_def)
  moreover have "preferences_debt (settlePreferences r s) \<le> preferences_debt s"
  proof (cases "writingPreferences s")
    case (Some p)
    let ?s = "if r = Fulfilled Saved then s\<lparr>lastSavedPreferences := Some p\<rparr> else s"
    obtain b t where t: "preferencesWritten p (settlementResult r) ?s = (b, t)" by fastforce
    have "preferences_debt ?s = preferences_debt s" by (simp add: preferences_debt_def)
    with preferencesWritten_debt [OF t] drainPreferences_debt [of t] Some t show ?thesis
      by (cases b) (auto simp: settlePreferences_def)
  qed (simp add: settlePreferences_def)
  ultimately show ?thesis by simp
qed

lemma closed_step:
  assumes "save_inv s" and "closed s"
  shows "closed (snd (save_step e s)) \<and> fst (save_step e s) \<noteq> Some True \<and>
    position_debt (snd (save_step e s)) \<le> position_debt s \<and> preferences_debt (snd (save_step e s)) \<le> preferences_debt s"
proof -
  have inv: "positionTimers s = []" "preferencesTimers s = []" "\<not> lifecycleSubscribed s" "closePromise s"
    using assms by (simp_all add: save_inv_def life_inv_def)
  have "closed (settlePosition r s)" "closed (settlePreferences r s)" for r
    using settlePosition_independent [of s r] settlePreferences_independent [of s r] assms(2) by (simp_all add: same_life_def)
  with inv assms(2) settlePosition_debt settlePreferences_debt show ?thesis
    by (cases e) (auto simp: noResult_def boolResult_def startCoordinator_def schedulePassive_def scheduleImmediate_def
        scheduleReflow_def schedulePosition_closed unprotect_def beginNarration_def recordHeardCheckpoint_def
        finishNarration_def savePreferences_def flush_def closeCoordinator_def lifecycleEvent_def positionTimer_def
        preferencesTimer_def position_debt_def preferences_debt_def)
qed

end
