(* ===== verification/Repository_Theorems.thy ===== *)
theory Repository_Theorems
  imports Position_Repository "HOL-Library.Countable"
begin

text \<open>
  What the position repository promises: what it saves reads back, it keeps the newest state of each
  book within its bounds, and a write that is not saved changes nothing.
\<close>

section \<open>Stored envelopes\<close>

text \<open>The states an envelope may hold: decoded ones, one per book, at most 128.\<close>

definition states_wf :: "persisted_state list \<Rightarrow> bool" where
  "states_wf states \<longleftrightarrow> (\<forall>s \<in> set states. state_wf s) \<and> distinct (map stateBookIdentity states)"

lemma identitiesMatch_eq: "identitiesMatch l r \<longleftrightarrow> l = r"
  by (auto simp: identitiesMatch_def intro: book_identity.equality)

lemma json_wire_parts [simp]:
  "json_value (wire_int n)"
  "json_value (identity_wire b)"
  "json_value (anchor_wire a)"
  "json_value (locator_wire l)"
  "json_value (preferences_wire p)"
  "json_value (state_wire s)"
proof -
  show n: "json_value (wire_int n)" for n by (simp add: wire_int_def)
  show b: "json_value (identity_wire b)" for b by (simp add: identity_wire_def n)
  show a: "json_value (anchor_wire a)" by (simp add: anchor_wire_def n)
  show l: "json_value (locator_wire l)" for l
    by (cases "progression l") (simp_all add: locator_wire_def anchor_wire_def n b)
  show p: "json_value (preferences_wire p)" for p
    by (cases "selectedVoiceId p"; cases "playbackRate p") (simp_all add: preferences_wire_def)
  show "json_value (state_wire s)" by (simp add: state_wire_def n b l p)
qed

lemma json_positions_wire: "json_value (positions_wire states)"
  by (simp add: positions_wire_def)

lemma decodeStates_wire:
  assumes "states_wf (front @ states)"
  shows "decodeStates (map state_wire states) front = Inr (front @ states)"
  using assms
proof (induction states arbitrary: front)
  case (Cons s states)
  then have "state_wf s" "stateBookIdentity s \<notin> stateBookIdentity ` set front" by (auto simp: states_wf_def)
  then have "state_wf s" "\<not> list_ex (\<lambda>t. identitiesMatch (stateBookIdentity t) (stateBookIdentity s)) front"
    by (auto simp: list_ex_iff identitiesMatch_eq) (metis image_eqI)
  with Cons.IH [of "front @ [s]"] Cons.prems show ?case by (simp add: decodePersistedState_def decode_state_wire)
qed simp

lemma decode_positions_wire:
  assumes "states_wf states" and "length states \<le> MAX_READER_POSITION_STATES"
  shows "decodeAndMigratePositionsEnvelope (positions_wire states) = Inr states"
proof -
  have "property [(''schemaVersion'', wire_int 1), (''states'', JArray (map state_wire states))] ''schemaVersion'' = wire_int 1"
    by simp
  then have "inspectEnvelopeVersion (positions_wire states) = Inr 1"
    by (simp add: positions_wire_def wire_int_def is_safe_integer_num_def is_integer_num_def safe_integer_def MAX_SAFE_INTEGER_def)
  moreover have "hasExactKeys [(''schemaVersion'', wire_int 1), (''states'', JArray (map state_wire states))] [''schemaVersion'', ''states'']"
    by (simp add: hasExactKeys_def)
  ultimately show ?thesis
    using assms decodeStates_wire [of "[]" states]
    by (simp add: decodeAndMigratePositionsEnvelope_def decodePositionsEnvelopeV1_def positions_wire_def)
qed

lemma decodeStates_wf:
  assumes "states_wf front" and "decodeStates inputs front = Inr states"
  shows "states_wf states"
  using assms
proof (induction inputs front rule: decodeStates.induct)
  case (2 input inputs front)
  from "2.prems"(2) obtain s where s: "decodePersistedState input = Inr s"
    and new: "\<not> list_ex (\<lambda>t. identitiesMatch (stateBookIdentity t) (stateBookIdentity s)) front"
    and rest: "decodeStates inputs (front @ [s]) = Inr states"
    by (auto simp: bindE_Inr split: if_splits)
  have "state_wf s" using s by (auto simp: decodePersistedState_def dest: decoded_state_wf split: sum.splits)
  with "2.prems"(1) new have "states_wf (front @ [s])"
    by (auto simp: states_wf_def list_ex_iff identitiesMatch_eq)
  with "2.IH" [OF new] rest show ?case by blast
qed simp

lemma decodeSerializedPositions_wf:
  assumes "decodeSerializedPositions json text = Inr states"
  shows "states_wf states"
proof -
  have "states_wf []" by (simp add: states_wf_def)
  with assms show ?thesis
    by (auto simp: decodeSerializedPositions_def decodeSerialized_def decodeAndMigratePositionsEnvelope_def
        decodePositionsEnvelopeV1_def bindE_Inr decodeStates_wf split: if_splits option.splits js_value.splits)
qed

section \<open>Fitting the envelope\<close>

text \<open>The longest front of the states whose text fits.\<close>

definition fits :: "json_codec \<Rightarrow> persisted_state list \<Rightarrow> bool" where
  "fits json states \<longleftrightarrow> length (jsonStringify json (positions_wire states)) \<le> MAX_READER_POSITIONS_CODE_UNITS"

lemma fitPositions_Some:
  "fitPositions json states = Some text \<Longrightarrow> \<exists>n. 0 < n \<and> n \<le> length states \<and>
     text = jsonStringify json (positions_wire (take n states)) \<and> fits json (take n states) \<and>
     (\<forall>m. n < m \<and> m \<le> length states \<longrightarrow> \<not> fits json (take m states))"
proof (induction json states rule: fitPositions.induct)
  case (1 json states)
  show ?case
  proof (cases "states = [] \<or> fits json states")
    case True
    with "1.prems" show ?thesis
      by (subst (asm) fitPositions.simps)
        (auto simp: fits_def Let_def intro!: exI [of _ "length states"] split: if_splits)
  next
    case False
    then have ne: "states \<noteq> []" and long: "\<not> fits json states" by auto
    from "1.prems" ne long have two: "length states \<noteq> 1" and rec: "fitPositions json (butlast states) = Some text"
      by (subst (asm) fitPositions.simps, simp add: fits_def Let_def split: if_splits)+
    have IH: "\<exists>n. 0 < n \<and> n \<le> length (butlast states) \<and>
       text = jsonStringify json (positions_wire (take n (butlast states))) \<and> fits json (take n (butlast states)) \<and>
       (\<forall>m. n < m \<and> m \<le> length (butlast states) \<longrightarrow> \<not> fits json (take m (butlast states)))"
      using "1.IH" [OF ne refl _ two rec] long by (simp add: fits_def)
    moreover have "take m (butlast states) = take m states" if "m \<le> length states - 1" for m
      using that by (metis butlast_conv_take min.absorb1 take_take)
    ultimately obtain n where n: "0 < n" "n \<le> length states - 1" "text = jsonStringify json (positions_wire (take n states))"
      "fits json (take n states)" "\<And>m. n < m \<Longrightarrow> m \<le> length states - 1 \<Longrightarrow> \<not> fits json (take m states)"
      by (metis length_butlast)
    have "\<not> fits json (take m states)" if "n < m" "m \<le> length states" for m
      using n(5) [of m] that long by (cases "m = length states") auto
    with n show ?thesis by (intro exI [of _ n]) auto
  qed
qed


section \<open>Outcomes of the operations\<close>

lemma storageAccess_cases: "storageAccess s = (Inl (), s\<lparr>accesses := Suc (accesses s)\<rparr>) \<or>
    storageAccess s = (Inr (), s\<lparr>accesses := Suc (accesses s)\<rparr>)"
  by (simp add: storageAccess_def)

lemma wp_storageAccess [wp_simps]:
  "wp storageAccess Q E s = (if faulty s (accesses s) then E () (s\<lparr>accesses := Suc (accesses s)\<rparr>)
     else Q () (s\<lparr>accesses := Suc (accesses s)\<rparr>))"
  by (simp add: wp_def storageAccess_def)

lemmas storage_defs = readStored_def getItem_def setItem_def

lemma catching_wp: "wp m (\<lambda>x t. P x t) (\<lambda>_ t. P r t) s \<Longrightarrow> P (fst (catching r m s)) (snd (catching r m s))"
  by (auto simp: wp_def catching_def split: prod.splits sum.splits)

definition read_answer :: "json_codec \<Rightarrow> book_identity \<Rightarrow> js_string option \<Rightarrow> persisted_state read_result" where
  "read_answer json ident serialized = (case serialized of None \<Rightarrow> Missing
     | Some serialized \<Rightarrow> (case decodeSerializedPositions json serialized of Inl e \<Rightarrow> ReadFailure e
         | Inr states \<Rightarrow> (case find (\<lambda>s. identitiesMatch (stateBookIdentity s) ident) states of None \<Rightarrow> Missing | Some s \<Rightarrow> Ready s)))"

lemma readPosition_outcome:
  assumes "readPosition json ident s = (r, s')"
  shows "stored s' = stored s \<and>
    (r = ReadFailure StoreUnavailable \<or> r = read_answer json ident (stored s READER_POSITIONS_STORAGE_KEY))"
proof -
  let ?P = "\<lambda>r t. stored t = stored s \<and>
    (r = ReadFailure StoreUnavailable \<or> r = read_answer json ident (stored s READER_POSITIONS_STORAGE_KEY))"
  have "?P (fst (readPosition json ident s)) (snd (readPosition json ident s))"
    unfolding readPosition_def by (rule catching_wp) (simp add: storage_defs wp_simps read_answer_def)
  with assms show ?thesis by simp
qed

lemma writePosition_outcome:
  assumes "writePosition json input s = (r, s')"
  shows "(\<exists>st existing text. r = Saved \<and> decodePersistedState input = Inr st \<and>
      existingStates json (stored s READER_POSITIONS_STORAGE_KEY) = Inr existing \<and>
      buildPositionsValue json st existing = Some text \<and>
      stored s' = (stored s)(READER_POSITIONS_STORAGE_KEY \<mapsto> text)) \<or> (r \<noteq> Saved \<and> stored s' = stored s)"
proof (cases "decodePersistedState input")
  case (Inr st)
  let ?P = "\<lambda>r t. (\<exists>existing text. r = Saved \<and>
      existingStates json (stored s READER_POSITIONS_STORAGE_KEY) = Inr existing \<and>
      buildPositionsValue json st existing = Some text \<and>
      stored t = (stored s)(READER_POSITIONS_STORAGE_KEY \<mapsto> text)) \<or> (r \<noteq> Saved \<and> stored t = stored s)"
  have not_saved: "existingStates json c = Inl x \<Longrightarrow> x \<noteq> Saved" for c x
    by (auto simp: existingStates_def split: option.splits sum.splits repository_failure.splits)
  have "wp (andThen (readStored READER_POSITIONS_STORAGE_KEY) (\<lambda>current.
        case existingStates json current of Inl r \<Rightarrow> ok r
        | Inr existing \<Rightarrow> (case buildPositionsValue json st existing of None \<Rightarrow> ok (NotSaved StoreOverLimit)
            | Some serialized \<Rightarrow> andThen (setItem READER_POSITIONS_STORAGE_KEY serialized) (\<lambda>_. ok Saved))))
      ?P (\<lambda>_. ?P (NotSaved StoreUnavailable)) s"
    by (cases "existingStates json (stored s READER_POSITIONS_STORAGE_KEY)")
      (auto simp: storage_defs wp_simps dest: not_saved split: option.split)
  from catching_wp [OF this] Inr assms show ?thesis by (auto simp: writePosition_def)
qed (use assms in \<open>auto simp: writePosition_def\<close>)

lemma existingStates_wf: "existingStates json c = Inr existing \<Longrightarrow> states_wf existing"
  by (auto simp: existingStates_def states_wf_def [of "[]"] dest: decodeSerializedPositions_wf
      split: option.splits sum.splits repository_failure.splits)

lemma states_wf_take: "states_wf states \<Longrightarrow> states_wf (take n states)"
  by (auto simp: states_wf_def dest: in_set_takeD simp flip: take_map)

lemma decode_fitted:
  assumes "json_faithful json" and "states_wf states" and "length states \<le> MAX_READER_POSITION_STATES" and "fits json states"
  shows "decodeSerializedPositions json (jsonStringify json (positions_wire states)) = Inr states"
  using assms decode_positions_wire [OF assms(2,3)] json_positions_wire [of states]
  by (simp add: decodeSerializedPositions_def decodeSerialized_def fits_def json_faithful_def)

text \<open>The states after a write: the new one, then the others.\<close>

definition newest_first :: "persisted_state \<Rightarrow> persisted_state list \<Rightarrow> persisted_state list" where
  "newest_first st existing = st # filter (\<lambda>s. stateBookIdentity s \<noteq> stateBookIdentity st) existing"

lemma newest_first_wf: "state_wf st \<Longrightarrow> states_wf existing \<Longrightarrow> states_wf (newest_first st existing)"
  by (auto simp: newest_first_def states_wf_def distinct_map_filter)

lemma buildPositionsValue_Some:
  assumes "json_faithful json" and "state_wf st" and "states_wf existing" and "buildPositionsValue json st existing = Some text"
  obtains n where "0 < n" "n \<le> length (newest_first st existing)" "n \<le> MAX_READER_POSITION_STATES"
    "decodeSerializedPositions json text = Inr (take n (newest_first st existing))"
    "length text \<le> MAX_READER_POSITIONS_CODE_UNITS"
    "n = length (newest_first st existing) \<or> n = MAX_READER_POSITION_STATES \<or> \<not> fits json (take (Suc n) (newest_first st existing))"
proof -
  let ?all = "newest_first st existing" and ?max = MAX_READER_POSITION_STATES
  have "fitPositions json (take ?max ?all) = Some text"
    using assms(4) by (simp add: buildPositionsValue_def newest_first_def identitiesMatch_eq)
  then obtain n where n: "0 < n" "n \<le> length (take ?max ?all)" "text = jsonStringify json (positions_wire (take n (take ?max ?all)))"
    "fits json (take n (take ?max ?all))" "\<forall>m. n < m \<and> m \<le> length (take ?max ?all) \<longrightarrow> \<not> fits json (take m (take ?max ?all))"
    using fitPositions_Some by blast
  then have le: "n \<le> length ?all" "n \<le> ?max" by simp_all
  then have t: "take n (take ?max ?all) = take n ?all" by (simp add: min_def)
  have wf: "states_wf (take n ?all)" by (intro states_wf_take newest_first_wf assms)
  have dec: "decodeSerializedPositions json text = Inr (take n ?all)"
    using decode_fitted [OF assms(1) wf] n(3,4) t le by simp
  have "n = length ?all \<or> n = ?max \<or> \<not> fits json (take (Suc n) ?all)"
  proof (rule ccontr)
    assume "\<not> ?thesis"
    then have "Suc n \<le> length ?all" "Suc n \<le> ?max" "fits json (take (Suc n) ?all)" using le by auto
    moreover from this have "take (Suc n) (take ?max ?all) = take (Suc n) ?all" by (simp add: min_def)
    ultimately show False using n(5) [rule_format, of "Suc n"] by simp
  qed
  with that n(1) le dec n(3,4) t show ?thesis by (simp add: fits_def)
qed


section \<open>Preferences\<close>

lemma json_preferences_wire: "json_value (preferences_record_wire p)"
  by (simp add: preferences_record_wire_def)

lemma decode_preferences_wire:
  assumes "preferencesVersion p = 1"
  shows "decodeAndMigrateReaderPreferences (preferences_record_wire p) = Inr p"
proof -
  have "inspectEnvelopeVersion (preferences_record_wire p) = Inr 1"
    using assms by (simp add: preferences_record_wire_def wire_int_def is_safe_integer_num_def is_integer_num_def
        safe_integer_def MAX_SAFE_INTEGER_def)
  moreover have "decodeReaderPreferencesV1 (preferences_record_wire p) = Inr p"
    using assms by (simp add: decodeReaderPreferencesV1_def preferences_record_wire_def hasExactKeys_def
        READER_PREFERENCE_KEYS_def)
  ultimately show ?thesis by (simp add: decodeAndMigrateReaderPreferences_def)
qed

lemma decodedPreferences_version: "decodeAndMigrateReaderPreferences v = Inr p \<Longrightarrow> preferencesVersion p = 1"
  by (auto simp: decodeAndMigrateReaderPreferences_def decodeReaderPreferencesV1_def bindE_Inr
      split: if_splits option.splits)

definition preferences_answer :: "json_codec \<Rightarrow> js_string option \<Rightarrow> reader_preferences read_result" where
  "preferences_answer json serialized = (case serialized of None \<Rightarrow> Missing
     | Some serialized \<Rightarrow> (case decodeSerializedPreferences json serialized of Inl e \<Rightarrow> ReadFailure e | Inr p \<Rightarrow> Ready p))"

lemma readPreferences_outcome:
  assumes "readPreferences json s = (r, s')"
  shows "stored s' = stored s \<and>
    (r = ReadFailure StoreUnavailable \<or> r = preferences_answer json (stored s READER_PREFERENCES_STORAGE_KEY))"
proof -
  let ?P = "\<lambda>r t. stored t = stored s \<and>
    (r = ReadFailure StoreUnavailable \<or> r = preferences_answer json (stored s READER_PREFERENCES_STORAGE_KEY))"
  have "?P (fst (readPreferences json s)) (snd (readPreferences json s))"
    unfolding readPreferences_def by (rule catching_wp) (simp add: storage_defs wp_simps preferences_answer_def)
  with assms show ?thesis by simp
qed

lemma writePreferences_outcome:
  assumes "writePreferences json input s = (r, s')"
  shows "(\<exists>p. r = Saved \<and> decodeAndMigrateReaderPreferences input = Inr p \<and>
      replaceablePreferences json (stored s READER_PREFERENCES_STORAGE_KEY) = None \<and>
      length (jsonStringify json (preferences_record_wire p)) \<le> MAX_READER_PREFERENCES_CODE_UNITS \<and>
      stored s' = (stored s)(READER_PREFERENCES_STORAGE_KEY \<mapsto> jsonStringify json (preferences_record_wire p))) \<or>
    (r \<noteq> Saved \<and> stored s' = stored s)"
proof (cases "decodeAndMigrateReaderPreferences input")
  case (Inr p)
  let ?text = "jsonStringify json (preferences_record_wire p)"
  let ?P = "\<lambda>r t. (r = Saved \<and> replaceablePreferences json (stored s READER_PREFERENCES_STORAGE_KEY) = None \<and>
      stored t = (stored s)(READER_PREFERENCES_STORAGE_KEY \<mapsto> ?text)) \<or> (r \<noteq> Saved \<and> stored t = stored s)"
  have not_saved: "replaceablePreferences json c = Some x \<Longrightarrow> x \<noteq> Saved" for c x
    by (auto simp: replaceablePreferences_def split: option.splits sum.splits repository_failure.splits)
  have "wp (andThen (readStored READER_PREFERENCES_STORAGE_KEY) (\<lambda>current.
        case replaceablePreferences json current of Some r \<Rightarrow> ok r
        | None \<Rightarrow> andThen (setItem READER_PREFERENCES_STORAGE_KEY ?text) (\<lambda>_. ok Saved)))
      ?P (\<lambda>_. ?P (NotSaved StoreUnavailable)) s"
    by (cases "replaceablePreferences json (stored s READER_PREFERENCES_STORAGE_KEY)")
      (auto simp: storage_defs wp_simps dest: not_saved)
  from catching_wp [OF this] Inr assms show ?thesis by (auto simp: writePreferences_def Let_def split: if_splits)
qed (use assms in \<open>auto simp: writePreferences_def\<close>)

section \<open>Properties\<close>

lemma read_back:
  assumes "json_faithful json" and "state_wf st"
    and "writePosition json (state_wire st) s\<^sub>0 = (Saved, s\<^sub>1)"
    and "stored s\<^sub>2 = stored s\<^sub>1" and "readPosition json (stateBookIdentity st) s\<^sub>2 = (r, s\<^sub>3)"
  shows "r = Ready st \<or> r = ReadFailure StoreUnavailable"
proof -
  from writePosition_outcome [OF assms(3)] decode_state_wire [OF assms(2)]
  obtain existing code where ex: "existingStates json (stored s\<^sub>0 READER_POSITIONS_STORAGE_KEY) = Inr existing"
    "buildPositionsValue json st existing = Some code" "stored s\<^sub>1 READER_POSITIONS_STORAGE_KEY = Some code"
    by (auto simp: decodePersistedState_def)
  obtain n where "0 < n" "decodeSerializedPositions json code = Inr (take n (newest_first st existing))"
    by (rule buildPositionsValue_Some [OF assms(1,2) existingStates_wf [OF ex(1)] ex(2)])
  then have "read_answer json (stateBookIdentity st) (Some code) = Ready st"
    by (cases n) (simp_all add: read_answer_def newest_first_def identitiesMatch_eq)
  with readPosition_outcome [OF assms(5)] assms(4) ex(3) show ?thesis by auto
qed

text \<open>
  C18. A write keeps the newest states: after a write that saved, the storage holds the new state
  followed by the states it held before for other books, in their order, one per book; at most 128 of
  them and at most 262,144 code units of text; and a state is dropped only when one of the two limits
  leaves no room for it.
\<close>

theorem write_keeps_newest_states:
  assumes "json_faithful json" and "writePosition json input s = (Saved, s')"
  shows "\<exists>st existing n code. decodePersistedReadingStateV1 input = Inr st \<and>
    existingStates json (stored s READER_POSITIONS_STORAGE_KEY) = Inr existing \<and>
    stored s' READER_POSITIONS_STORAGE_KEY = Some code \<and>
    decodeSerializedPositions json code = Inr (take n (newest_first st existing)) \<and>
    states_wf (take n (newest_first st existing)) \<and>
    0 < n \<and> n \<le> MAX_READER_POSITION_STATES \<and> length code \<le> MAX_READER_POSITIONS_CODE_UNITS \<and>
    (length (newest_first st existing) \<le> n \<or> n = MAX_READER_POSITION_STATES \<or>
      \<not> fits json (take (Suc n) (newest_first st existing)))"
proof -
  from writePosition_outcome [OF assms(2)] obtain st existing code where st: "decodePersistedState input = Inr st"
    and ex: "existingStates json (stored s READER_POSITIONS_STORAGE_KEY) = Inr existing"
      "buildPositionsValue json st existing = Some code" "stored s' READER_POSITIONS_STORAGE_KEY = Some code"
    by auto
  have dec: "decodePersistedReadingStateV1 input = Inr st" using st by (auto simp: decodePersistedState_def split: sum.splits)
  note wf = decoded_state_wf [OF dec] existingStates_wf [OF ex(1)]
  obtain n where n: "0 < n" "n \<le> MAX_READER_POSITION_STATES" "decodeSerializedPositions json code = Inr (take n (newest_first st existing))"
    "length code \<le> MAX_READER_POSITIONS_CODE_UNITS"
    "n = length (newest_first st existing) \<or> n = MAX_READER_POSITION_STATES \<or> \<not> fits json (take (Suc n) (newest_first st existing))"
    by (rule buildPositionsValue_Some [OF assms(1) wf ex(2)])
  from n(5) have "length (newest_first st existing) \<le> n \<or> n = MAX_READER_POSITION_STATES \<or>
      \<not> fits json (take (Suc n) (newest_first st existing))" by auto
  with dec ex n(1-4) states_wf_take [OF newest_first_wf [OF wf]] show ?thesis by blast
qed

text \<open>
  A write that is not saved changes nothing, no write touches another key, and a value that the
  reader cannot replace safely, one of a newer version or beyond the size limit, is never
  overwritten, neither positions nor preferences.
\<close>

theorem refused_write_changes_nothing:
  assumes "writePosition json input s = (r, s')" and "writePreferences json input\<^sub>2 s = (r\<^sub>2, s\<^sub>2)"
  shows "(r \<noteq> Saved \<longrightarrow> stored s' = stored s) \<and> (r\<^sub>2 \<noteq> Saved \<longrightarrow> stored s\<^sub>2 = stored s) \<and>
    (\<forall>k. k \<noteq> READER_POSITIONS_STORAGE_KEY \<longrightarrow> stored s' k = stored s k) \<and>
    (\<forall>k. k \<noteq> READER_PREFERENCES_STORAGE_KEY \<longrightarrow> stored s\<^sub>2 k = stored s k) \<and>
    (\<forall>code e. stored s READER_POSITIONS_STORAGE_KEY = Some code \<longrightarrow> decodeSerializedPositions json code = Inl e \<longrightarrow>
       e \<noteq> StoreMalformed \<longrightarrow> stored s' = stored s) \<and>
    (\<forall>code e. stored s READER_PREFERENCES_STORAGE_KEY = Some code \<longrightarrow> decodeSerializedPreferences json code = Inl e \<longrightarrow>
       e \<noteq> StoreMalformed \<longrightarrow> stored s\<^sub>2 = stored s)"
  using writePosition_outcome [OF assms(1)] writePreferences_outcome [OF assms(2)]
  by (auto simp: existingStates_def replaceablePreferences_def split: option.splits sum.splits repository_failure.splits)

text \<open>
  Saved preferences read back: when a write of preferences reports \<open>saved\<close>, they are valid and a
  later read finds exactly them, unless the storage refuses access.
\<close>

theorem saved_preferences_read_back:
  assumes "json_faithful json" and "writePreferences json input s\<^sub>0 = (Saved, s\<^sub>1)"
    and "stored s\<^sub>2 = stored s\<^sub>1" and "readPreferences json s\<^sub>2 = (r, s\<^sub>3)"
  shows "\<exists>p. decodeAndMigrateReaderPreferences input = Inr p \<and> (r = Ready p \<or> r = ReadFailure StoreUnavailable)"
proof -
  from writePreferences_outcome [OF assms(2)] obtain p where p: "decodeAndMigrateReaderPreferences input = Inr p"
    and code: "length (jsonStringify json (preferences_record_wire p)) \<le> MAX_READER_PREFERENCES_CODE_UNITS"
    "stored s\<^sub>1 READER_PREFERENCES_STORAGE_KEY = Some (jsonStringify json (preferences_record_wire p))"
    by auto
  have "decodeSerializedPreferences json (jsonStringify json (preferences_record_wire p)) = Inr p"
    using code(1) assms(1) json_preferences_wire decode_preferences_wire [OF decodedPreferences_version [OF p]]
    by (simp add: decodeSerializedPreferences_def decodeSerialized_def json_faithful_def)
  with readPreferences_outcome [OF assms(4)] assms(3) code(2) p show ?thesis
    by (auto simp: preferences_answer_def)
qed


section \<open>A storage to try it on\<close>

instance word :: (len) countable
  by (rule countable_classI [of unat]) (simp add: word_unat_eq_iff)

instance js_num :: countable by countable_datatype

instance js_value :: countable by countable_datatype

text \<open>
  A faithful codec, not that of the platform: the value \<open>v\<close> is written as the empty text and every other
  value as a text whose length is its number.
\<close>

definition sample_codec :: "js_value \<Rightarrow> json_codec" where
  "sample_codec v = \<lparr>jsonParse = (\<lambda>t. if t = [] then Some v else Some (from_nat (length t - 1))),
     jsonStringify = (\<lambda>w. if w = v then [] else replicate (Suc (to_nat w)) 0)\<rparr>"

lemma sample_codec_faithful: "json_faithful (sample_codec v)"
  by (simp add: json_faithful_def sample_codec_def)

definition sample_storage :: web_storage where
  "sample_storage = \<lparr>stored = (\<lambda>_. None), faulty = (\<lambda>_. False), accesses = 0\<rparr>"

definition sample_state :: persisted_state where
  "sample_state = \<lparr>stateSchemaVersion = 1, stateBookIdentity = sample_identity, stateLocator = sample_locator 3,
     statePreferences = \<lparr>selectedVoiceId = None, playbackRate = None\<rparr>\<rparr>"

lemma sample_state_wf: "state_wf sample_state"
proof -
  have "locator_wf (sample_locator 3)" by (rule sample_locator_wf) (simp_all add: MAX_SAFE_INTEGER_def)
  moreover have "bookIdentity (sample_locator 3) = sample_identity" by (simp add: sample_locator_def)
  ultimately show ?thesis by (simp add: state_wf_def sample_state_def preferences_wf_def)
qed

definition sample_written :: web_storage where
  "sample_written = sample_storage\<lparr>stored := [READER_POSITIONS_STORAGE_KEY \<mapsto> []], accesses := 3\<rparr>"

lemma sample_write_of:
  assumes "state_wf st"
  shows "writePosition (sample_codec (positions_wire [st])) (state_wire st) sample_storage = (Saved, sample_written)"
  using decode_state_wire [OF assms]
  by (simp add: writePosition_def decodePersistedState_def catching_def andThen_apply storage_defs storageAccess_def
      sample_storage_def existingStates_def buildPositionsValue_def fitPositions.simps sample_codec_def
      MAX_READER_POSITION_STATES_def sample_written_def)

lemma sample_read_of:
  assumes "state_wf st"
  shows "readPosition (sample_codec (positions_wire [st])) (stateBookIdentity st) sample_written =
     (Ready st, sample_written\<lparr>accesses := 5\<rparr>)"
proof -
  have wf: "states_wf [st]" using assms by (simp add: states_wf_def)
  have "decodeAndMigratePositionsEnvelope (positions_wire [st]) = Inr [st]"
    by (rule decode_positions_wire [OF wf]) (simp add: MAX_READER_POSITION_STATES_def)
  then show ?thesis
    by (simp add: readPosition_def catching_def andThen_apply storage_defs storageAccess_def sample_written_def
        sample_storage_def decodeSerializedPositions_def decodeSerialized_def sample_codec_def identitiesMatch_eq)
qed

lemmas sample_write = sample_write_of [OF sample_state_wf] and sample_read = sample_read_of [OF sample_state_wf]

lemma sample_preferences_write:
  "writePreferences (sample_codec (preferences_record_wire DEFAULT_READER_PREFERENCES))
     (preferences_record_wire DEFAULT_READER_PREFERENCES) sample_storage =
   (Saved, sample_storage\<lparr>stored := [READER_PREFERENCES_STORAGE_KEY \<mapsto> []], accesses := 3\<rparr>)"
  by (simp add: writePreferences_def decode_preferences_wire DEFAULT_READER_PREFERENCES_def [THEN arg_cong [where f = preferencesVersion], simplified]
      catching_def andThen_apply storage_defs storageAccess_def sample_storage_def replaceablePreferences_def sample_codec_def)

theorem write_keeps_newest_states_witness:
  "\<exists>code. stored sample_written READER_POSITIONS_STORAGE_KEY = Some code \<and> length code \<le> MAX_READER_POSITIONS_CODE_UNITS"
  using write_keeps_newest_states [OF sample_codec_faithful sample_write] by blast

theorem refused_write_changes_nothing_witness:
  "stored (snd (writePosition (sample_codec JNull) JNull sample_storage)) = stored sample_storage"
proof -
  have w: "writePosition (sample_codec JNull) JNull sample_storage = (NotSaved StoreMalformed, sample_storage)"
    by (simp add: writePosition_def decodePersistedState_def decodePersistedReadingStateV1_def)
  obtain r s where "writePreferences (sample_codec JNull) JNull sample_storage = (r, s)" by fastforce
  from refused_write_changes_nothing [OF w this] w show ?thesis by simp
qed

theorem saved_preferences_read_back_witness:
  "\<exists>p. decodeAndMigrateReaderPreferences (preferences_record_wire DEFAULT_READER_PREFERENCES) = Inr p"
proof -
  obtain r s where "readPreferences (sample_codec (preferences_record_wire DEFAULT_READER_PREFERENCES))
      (sample_storage\<lparr>stored := [READER_PREFERENCES_STORAGE_KEY \<mapsto> []], accesses := 3\<rparr>) = (r, s)" by fastforce
  from saved_preferences_read_back [OF sample_codec_faithful sample_preferences_write refl this] show ?thesis by blast
qed

end
