(* ===== verification/Save_Properties.thy ===== *)
theory Save_Properties
  imports Save_Theorems Repository_Theorems
begin

text \<open>
  What the save coordinator promises its users, over whole runs of its turns, each with a run it applies
  to.
\<close>

section \<open>A write in flight\<close>

text \<open>No operation but the settlement of the write in flight starts another one.\<close>

definition keeps_write :: "save_state \<Rightarrow> save_state \<Rightarrow> bool" where
  "keeps_write s t \<longleftrightarrow> (writingLocator s \<noteq> None \<longrightarrow>
     positionWrites t = positionWrites s \<and> writingLocator t = writingLocator s)"

lemma keeps_write_refl [simp]: "keeps_write s s"
  by (simp add: keeps_write_def)

lemma keeps_write_trans: "keeps_write s t \<Longrightarrow> keeps_write t u \<Longrightarrow> keeps_write s u"
  by (simp add: keeps_write_def)

lemma keeps_write_same: "same_positions s t \<Longrightarrow> keeps_write s t"
  by (simp add: keeps_write_def same_positions_def)

lemma queueLatestPosition_keeps: "keeps_write s (queueLatestPosition s)"
  by (auto simp: keeps_write_def queueLatestPosition_def Let_def)

lemma queueBoth_keeps: "keeps_write s (queueBoth s)"
proof -
  have "keeps_write s (cancelPendingSchedules s)"
    by (simp add: keeps_write_def cancelPendingSchedules_def dropPositionSchedule_def cancelPositionTimer_def
        cancelPreferencesTimer_def split: option.split)
  moreover have "keeps_write (queueLatestPosition t) (queueLatestPreferences (queueLatestPosition t))" for t
    using queueLatestPreferences_independent keeps_write_same by blast
  ultimately show ?thesis using keeps_write_trans queueLatestPosition_keeps by (metis queueBoth_def)
qed

lemma flush_keeps: "keeps_write s (flush s)"
  by (simp add: flush_def queueBoth_keeps flip: queueBoth_def)

lemma schedulePosition_keeps: "keeps_write s (snd (schedulePosition l k s))"
proof -
  obtain b t where t: "schedulePosition l k s = (b, t)" by fastforce
  then have "keeps_write s t"
    by (cases rule: schedulePosition_cases)
      (auto simp: keeps_write_def requestPosition_def setPositionTimer_def cancelPositionTimer_def Let_def split: option.split)
  with t show ?thesis by simp
qed

lemma unprotect_keeps: "keeps_write s (snd r) \<Longrightarrow> keeps_write s (snd (unprotect r))"
  by (simp add: unprotect_snd keeps_write_def)

lemma recordHeardCheckpoint_keeps: "keeps_write s (snd (recordHeardCheckpoint c s))"
proof -
  have "keeps_write s (snd (schedulePosition l k (s\<lparr>resolutions := n, activeHeardSegmentId := g, narrationCheckpointed := True,
      protectHeardCheckpoint := True\<rparr>)))" for l k n g
    using schedulePosition_keeps [of "s\<lparr>resolutions := n, activeHeardSegmentId := g, narrationCheckpointed := True,
      protectHeardCheckpoint := True\<rparr>" l k] by (simp add: keeps_write_def)
  moreover have "keeps_write s (s\<lparr>resolutions := n\<rparr>)" for n by (simp add: keeps_write_def)
  ultimately show ?thesis
    by (auto simp: recordHeardCheckpoint_def validatedCanonicalLocator_def split: option.split locator_resolution.split
        heard_checkpoint.split)
qed

lemma finishNarration_keeps: "keeps_write s (finishNarration s)"
proof -
  have "keeps_write s (flush (s\<lparr>narrationActive := False, activeHeardSegmentId := None, protectHeardCheckpoint := p,
      narrationCheckpointed := False\<rparr>))" for p
    using flush_keeps [of "s\<lparr>narrationActive := False, activeHeardSegmentId := None, protectHeardCheckpoint := p,
      narrationCheckpointed := False\<rparr>"] by (simp add: keeps_write_def)
  then show ?thesis by (simp add: finishNarration_def flush_keeps)
qed

lemma positionTimer_keeps: "keeps_write s (positionTimer t s)"
  using queueLatestPosition_keeps [of "s\<lparr>positionTimers := filter (\<lambda>(u, _). u \<noteq> t) (positionTimers s),
      cancelPositionSchedule := None, scheduledPositionKind := None\<rparr>"]
  by (simp add: positionTimer_def keeps_write_def)

lemma closeCoordinator_keeps: "keeps_write s (closeCoordinator s)"
  using queueBoth_keeps [of "s\<lparr>lifecycleSubscribed := False\<rparr>"]
  by (simp add: closeCoordinator_def keeps_write_def flip: queueBoth_def)

lemma save_step_keeps:
  assumes "\<forall>r. e \<noteq> PositionSettled r"
  shows "keeps_write s (snd (save_step e s))"
proof (cases e)
  case (PositionSettled r)
  with assms show ?thesis by blast
next
  case (SavePreferences p)
  then show ?thesis using keeps_write_same savePreferences_positions
    by (simp add: boolResult_def case_prod_beta)
next
  case (PreferencesTimer t)
  then show ?thesis using keeps_write_same preferencesTimer_positions by (simp add: noResult_def)
next
  case (PreferencesSettled r)
  then show ?thesis using keeps_write_same settlePreferences_independent by (simp add: noResult_def)
next
  case BeginNarration
  then show ?thesis
    by (simp add: boolResult_def case_prod_beta keeps_write_def beginNarration_def dropPositionSchedule_def
        cancelPositionTimer_def split: option.split)
next
  case Start
  then show ?thesis by (simp add: noResult_def startCoordinator_def keeps_write_def)
next
  case (SetCallback b)
  then show ?thesis by (simp add: noResult_def keeps_write_def)
qed (auto simp: noResult_def boolResult_def case_prod_beta flush_keeps closeCoordinator_keeps schedulePassive_def
    scheduleImmediate_def scheduleReflow_def recordHeardCheckpoint_keeps finishNarration_keeps positionTimer_keeps
    lifecycleEvent_def intro!: unprotect_keeps schedulePosition_keeps)

section \<open>Properties\<close>

text \<open>
  C19. In every state a coordinator reaches, the position drain is running exactly when a write is in
  flight; a queued position exists only behind it and differs from it; each kind has at most one timer,
  which is the one a schedule would cancel; a closed coordinator has no timer and no lifecycle listener
  left. While a write is in flight no turn but its settlement starts another one.
\<close>

theorem one_write_at_a_time:
  assumes "createSaveCoordinator h defaultStart initial persistInitial callback = Some s\<^sub>0" and "s = run save_step es s\<^sub>0"
  shows "(positionDrain s \<longleftrightarrow> writingLocator s \<noteq> None) \<and>
    (queuedLocator s \<noteq> None \<longrightarrow> writingLocator s \<noteq> None \<and> queuedLocator s \<noteq> writingLocator s) \<and>
    map fst (positionTimers s) = (case cancelPositionSchedule s of None \<Rightarrow> [] | Some t \<Rightarrow> [t]) \<and>
    map fst (preferencesTimers s) = (case cancelPreferencesSchedule s of None \<Rightarrow> [] | Some t \<Rightarrow> [t]) \<and>
    (closed s \<longrightarrow> positionTimers s = [] \<and> preferencesTimers s = [] \<and> \<not> lifecycleSubscribed s) \<and>
    (writingLocator s \<noteq> None \<and> (\<forall>r. e \<noteq> PositionSettled r) \<longrightarrow>
       positionWrites (snd (save_step e s)) = positionWrites s \<and> writingLocator (snd (save_step e s)) = writingLocator s)"
proof -
  have "save_inv s" using saver.run_inv [OF created_inv [OF assms(1)]] assms(2) by simp
  then show ?thesis
    using save_step_keeps [of e s]
    by (simp add: save_inv_def position_inv_def preferences_inv_def life_inv_def keeps_write_def split: option.splits)
qed

lemma created_provenance:
  assumes "createSaveCoordinator h d i p c = Some s"
  shows "provenance h (latestLocator s) s \<and> bookIdentity (latestLocator s) = publicationBook h"
  using assms by (auto simp: createSaveCoordinator_def provenance_def held_def origin_def split: option.splits if_splits)

lemma createPersistedState_Inr:
  assumes "createPersistedState l = Inr st"
  shows "stateLocator st = l \<and> state_wf st \<and> statePreferences st = \<lparr>selectedVoiceId = None, playbackRate = None\<rparr>"
proof -
  have wf: "state_wf st" using assms unfolding createPersistedState_def by (rule decoded_state_wf)
  have "decodeReadingLocatorV1 (locator_wire l) = Inr (stateLocator st)"
    using assms by (auto simp: createPersistedState_def decodePersistedReadingStateV1_def bindE_Inr decodeNestedLocator_def
        Let_def simp del: validatePersistedReadingStateV1Wire.simps split: sum.splits locator_failure.splits if_splits)
  moreover have "statePreferences st = \<lparr>selectedVoiceId = None, playbackRate = None\<rparr>"
    using assms by (auto simp: createPersistedState_def decodePersistedReadingStateV1_def bindE_Inr createPreferences_def
        Let_def simp del: validatePersistedReadingStateV1Wire.simps split: sum.splits if_splits)
  ultimately show ?thesis using wf decode_wire_Inr by blast
qed

text \<open>
  C20. Every state a coordinator ever hands to the repository is well formed, is of the publication's own
  book, carries no reading preference, and its position is either the initial one or one the publication
  resolved exactly to itself: a position that the publication does not know is never saved.
\<close>

theorem written_positions_are_verified:
  assumes "createSaveCoordinator h defaultStart initial persistInitial callback = Some s\<^sub>0" and "s = run save_step es s\<^sub>0"
    and "st \<in> set (positionWrites s)"
  shows "state_wf st \<and> stateBookIdentity st = publicationBook h \<and>
    statePreferences st = \<lparr>selectedVoiceId = None, playbackRate = None\<rparr> \<and>
    (stateLocator st = latestLocator s\<^sub>0 \<or> (\<exists>n b. resolver h n (stateLocator st) = Some (ExactResolution (stateLocator st) b)))"
proof -
  note created = created_provenance [OF assms(1)]
  have "provenance h (latestLocator s\<^sub>0) s" using traced.run_inv [OF created [THEN conjunct1]] assms(2) by simp
  with assms(3) obtain l where l: "origin h (latestLocator s\<^sub>0) l" "createPersistedState l = Inr st"
    unfolding provenance_def by blast
  note st = createPersistedState_Inr [OF l(2)]
  have "bookIdentity l = publicationBook h" using l(1) created by (auto simp: origin_def)
  with st l(1) show ?thesis by (auto simp: state_wf_def origin_def)
qed

text \<open>Without a request to save a position, none of the three starts a write.\<close>

lemma unrequested_queue:
  assumes "\<not> positionSaveRequested s"
  shows "positionWrites (queueBoth s) = positionWrites s" and "positionDrain (queueBoth s) = positionDrain s"
proof -
  have c: "positionSaveRequested (cancelPendingSchedules s) = positionSaveRequested s"
    "positionWrites (cancelPendingSchedules s) = positionWrites s" "positionDrain (cancelPendingSchedules s) = positionDrain s"
    by (auto simp: cancelPendingSchedules_def dropPositionSchedule_def cancelPositionTimer_def cancelPreferencesTimer_def
        split: option.split)
  then have "queueBoth s = queueLatestPreferences (cancelPendingSchedules s)"
    using assms by (simp add: queueBoth_def queueLatestPosition_def)
  with c queueLatestPreferences_independent [of "cancelPendingSchedules s"]
  show "positionWrites (queueBoth s) = positionWrites s" and "positionDrain (queueBoth s) = positionDrain s"
    by (simp_all add: same_positions_def)
qed

lemma unrequested_step:
  assumes "save_inv s" and "\<not> closed s" and "\<not> positionSaveRequested s" and "e \<in> {Flush, Close, FinishNarration}"
  shows "positionWrites (snd (save_step e s)) = positionWrites s \<and> positionDrain (snd (save_step e s)) = positionDrain s"
proof -
  have flush: "positionWrites (flush t) = positionWrites s \<and> positionDrain (flush t) = positionDrain s"
    if "\<not> closed t" "\<not> positionSaveRequested t" "positionWrites t = positionWrites s" "positionDrain t = positionDrain s" for t
    using unrequested_queue [OF that(2)] that by (simp add: flush_def flip: queueBoth_def)
  have "closePromise s = closed s" using assms(1) by (simp add: save_inv_def life_inv_def)
  then have close: "positionWrites (closeCoordinator s) = positionWrites s \<and> positionDrain (closeCoordinator s) = positionDrain s"
    using unrequested_queue [of "s\<lparr>lifecycleSubscribed := False\<rparr>"] assms(2,3) by (simp add: closeCoordinator_def flip: queueBoth_def)
  from assms(4) consider "e = Flush" | "e = Close" | "e = FinishNarration" by blast
  then show ?thesis
    using flush close assms(2,3) by cases (simp_all add: noResult_def finishNarration_def)
qed

lemma requested_persists:
  assumes "createSaveCoordinator h defaultStart initial persistInitial callback = Some s\<^sub>0" and "s = run save_step es s\<^sub>0"
    and "\<not> closed s" and "positionSaveRequested s" and "encodable (latestLocator s)" and "\<forall>n. \<not> positionThrows h n"
    and "e \<in> {Flush, Close, FinishNarration}"
  defines "u \<equiv> run save_step [e, PositionSettled (Fulfilled Saved), PositionSettled (Fulfilled Saved)] s"
  shows "lastSavedLocator u = Some (latestLocator s) \<and> \<not> positionDrain u"
proof -
  have inv: "save_inv s" using saver.run_inv [OF created_inv [OF assms(1)]] assms(2) by simp
  have h: "host s = h"
    using traced.run_inv [OF created_provenance [OF assms(1), THEN conjunct1], of es] assms(2) by (simp add: provenance_def)
  have any: "lastSavedLocator v = Some (latestLocator s) \<and> \<not> positionDrain v"
    if "same_positions (queueLatestPosition (cancelPendingSchedules t)) q" and "position_inv (cancelPendingSchedules t)"
      and "positionSaveRequested t" "latestLocator t = latestLocator s" "host t = host s"
      and "v = settlePosition (Fulfilled Saved) (settlePosition (Fulfilled Saved) q)" for t q v
  proof -
    have c: "positionSaveRequested (cancelPendingSchedules t) = positionSaveRequested t"
      "latestLocator (cancelPendingSchedules t) = latestLocator t" "host (cancelPendingSchedules t) = host t"
      by (auto simp: cancelPendingSchedules_def dropPositionSchedule_def cancelPositionTimer_def cancelPreferencesTimer_def
          split: option.split)
    show ?thesis
      using two_saves_persist [OF that(2) _ _ _ that(1)] that(3-6) c assms(5,6) h by simp
  qed
  have both: "same_positions (queueLatestPosition (cancelPendingSchedules t)) (queueBoth t)" for t
    using queueLatestPreferences_independent by (simp add: queueBoth_def)
  have inner: "position_inv (cancelPendingSchedules t)" if "same_positions s t" "same_preferences s t" for t
    using cancelPendingSchedules_inv(1) same_positions_inv [OF that(1)] same_preferences_inv [OF that(2)] inv
    by (simp add: save_inv_def)
  have flush: "lastSavedLocator v = Some (latestLocator s) \<and> \<not> positionDrain v"
    if "v = settlePosition (Fulfilled Saved) (settlePosition (Fulfilled Saved) (flush s))" for v
    using any [OF both inner, of s v] assms(3,4) that by (simp add: same_defs flush_def flip: queueBoth_def)
  from assms(7) consider "e = Flush" | "e = Close" | "e = FinishNarration" "\<not> narrationActive s"
    | "e = FinishNarration" "narrationActive s" by blast
  then show ?thesis
  proof cases
    case 2
    let ?t = "s\<lparr>lifecycleSubscribed := False\<rparr>"
    let ?q = "(queueBoth ?t)\<lparr>closed := True, closePromise := True\<rparr>"
    have "closeCoordinator s = ?q" using inv assms(3) by (simp add: closeCoordinator_def save_inv_def life_inv_def flip: queueBoth_def)
    moreover have "same_positions (queueLatestPosition (cancelPendingSchedules ?t)) ?q"
      using both [of ?t] by (simp add: same_positions_def)
    moreover have "position_inv (cancelPendingSchedules ?t)" by (rule inner) (simp_all add: same_defs)
    ultimately show ?thesis using any [of ?t ?q u] 2 assms(4) by (simp add: u_def noResult_def)
  next
    case 4
    let ?t = "s\<lparr>narrationActive := False, activeHeardSegmentId := None,
        protectHeardCheckpoint := (if narrationCheckpointed s then True else protectHeardCheckpoint s), narrationCheckpointed := False\<rparr>"
    have "position_inv ?t" "preferences_inv ?t"
      using inv by (simp_all add: save_inv_def position_inv_def preferences_inv_def split: option.splits)
    then have "position_inv (cancelPendingSchedules ?t)" by (rule cancelPendingSchedules_inv)
    moreover have "finishNarration s = queueBoth ?t"
      using 4 assms(3) by (simp add: finishNarration_def flush_def flip: queueBoth_def)
    ultimately show ?thesis using any [OF both, of ?t u] 4 assms(4) by (simp add: u_def noResult_def)
  qed (use flush [of u] assms(3) in \<open>simp_all add: u_def noResult_def finishNarration_def\<close>)
qed


text \<open>
  C21. A flush, a finished narration or a close of an open coordinator persists the latest position exactly when
  its saving has been requested. When it has, writes do not throw and the position can be encoded, then at most
  two successful settlements later it is the saved position and the drain is at rest (the first settlement may
  be that of an older position already in flight). When it has not, because narration has taken the position
  over and has recorded no checkpoint or because the initial position is not to be persisted and none was
  reported, no write is started.
\<close>

theorem flush_persists_latest:
  assumes "createSaveCoordinator h defaultStart initial persistInitial callback = Some s\<^sub>0" and "s = run save_step es s\<^sub>0"
    and "\<not> closed s" and "encodable (latestLocator s)" and "\<forall>n. \<not> positionThrows h n"
    and "e \<in> {Flush, Close, FinishNarration}"
  defines "t \<equiv> snd (save_step e s)"
    and "u \<equiv> run save_step [e, PositionSettled (Fulfilled Saved), PositionSettled (Fulfilled Saved)] s"
  shows "if positionSaveRequested s then lastSavedLocator u = Some (latestLocator s) \<and> \<not> positionDrain u
    else positionWrites t = positionWrites s \<and> positionDrain t = positionDrain s"
  using requested_persists [OF assms(1-3) _ assms(4-6)] unrequested_step [OF _ assms(3) _ assms(6)]
    saver.run_inv [OF created_inv [OF assms(1)], of es] by (simp add: assms(2) t_def u_def)

lemma begun_held_back: "save_step BeginNarration s = (Some True, t) \<Longrightarrow> save_inv s \<Longrightarrow> held_back t \<and> positionWrites t = positionWrites s"
  using dropPositionSchedule_inv [of s]
  by (auto simp: boolResult_def beginNarration_def held_back_def dropPositionSchedule_def cancelPositionTimer_def save_inv_def
      position_inv_def map_fst_single split: option.splits if_splits)

text \<open>
  Narration takes over the saved position. Once \<open>beginNarration\<close> has accepted, no sequence of passive,
  immediate or reflow positions, timers, flushes, lifecycle events, settlements or a close writes a
  position until a heard checkpoint is recorded or the narration is finished: what was scheduled, queued or
  requested before is dropped.
\<close>

theorem narration_holds_saving:
  assumes "createSaveCoordinator h defaultStart initial persistInitial callback = Some s\<^sub>0" and "s = run save_step es s\<^sub>0"
    and "save_step BeginNarration s = (Some True, t)"
    and "\<forall>e \<in> set later. e \<noteq> FinishNarration \<and> (\<forall>c. e \<noteq> HeardCheckpoint c)"
  shows "positionWrites (run save_step later t) = positionWrites s \<and> narrationActive (run save_step later t)"
proof -
  have "save_inv s" using saver.run_inv [OF created_inv [OF assms(1)]] assms(2) by simp
  note begun = begun_held_back [OF assms(3) this]
  have "held_back (run save_step later t) \<and> positionWrites (run save_step later t) = positionWrites t"
    using begun [THEN conjunct1] assms(4)
  proof (induction later arbitrary: t)
    case (Cons e later)
    have "held_back (snd (save_step e t)) \<and> positionWrites (snd (save_step e t)) = positionWrites t"
      by (rule held_back_step) (use Cons.prems in auto)
    with Cons show ?case by simp
  qed simp
  with begun show ?thesis by (simp add: held_back_def)
qed

text \<open>
  C22. Closing is final: after \<open>close\<close> no operation accepts a position, preferences or a checkpoint, the
  coordinator stays closed, and however long it runs on it makes at most the one write of each kind that
  was queued behind the write in flight.
\<close>

theorem closing_is_final:
  assumes "createSaveCoordinator h defaultStart initial persistInitial callback = Some s\<^sub>0" and "s = run save_step es s\<^sub>0"
    and "t = snd (save_step Close s)"
  shows "closed (run save_step later t) \<and> (\<forall>r \<in> set (run_results save_step later t). r \<noteq> Some True) \<and>
    length (positionWrites (run save_step later t)) \<le> length (positionWrites t) + 1 \<and>
    length (preferencesWrites (run save_step later t)) \<le> length (preferencesWrites t) + 1"
proof -
  have "save_inv s" using saver.run_inv [OF created_inv [OF assms(1)]] assms(2) by simp
  then have t: "save_inv t" "closed t"
    using save_step_inv [of s Close] assms(3) by (auto simp: noResult_def closeCoordinator_def save_inv_def life_inv_def)
  have "closed (run save_step later t) \<and> (\<forall>r \<in> set (run_results save_step later t). r \<noteq> Some True) \<and>
      position_debt (run save_step later t) \<le> position_debt t \<and> preferences_debt (run save_step later t) \<le> preferences_debt t"
    using t
  proof (induction later arbitrary: t)
    case (Cons e later)
    from closed_step [OF Cons.prems, of e] Cons.IH [OF save_step_inv [OF Cons.prems(1), of e]] show ?case by auto
  qed simp
  then show ?thesis by (auto simp: position_debt_def preferences_debt_def split: if_splits)
qed

section \<open>A callback that throws\<close>

text \<open>
  \<open>#drainPreferences\<close> calls \<open>onPreferencesWritten\<close> outside its \<open>try\<close>. When the callback throws, the
  loop is left without clearing \<open>#preferencesDrain\<close>, and from then on no preferences are written and the
  promises of \<open>flush\<close> and \<open>close\<close> never resolve.
\<close>

definition wedged :: "preferences_object list \<Rightarrow> save_state \<Rightarrow> bool" where
  "wedged ws s \<longleftrightarrow> preferencesDrain s \<and> writingPreferences s = None \<and> preferencesWrites s = ws"

lemma wedged_same: "same_preferences s t \<Longrightarrow> wedged ws s \<Longrightarrow> wedged ws t"
  by (simp add: same_preferences_def wedged_def)

lemma wedged_queue: "wedged ws s \<Longrightarrow> wedged ws (queueLatestPreferences s)"
  by (auto simp: wedged_def queueLatestPreferences_def startPreferencesDrain_def split: option.split)

lemma wedged_both: "wedged ws s \<Longrightarrow> wedged ws (queueBoth s)"
proof -
  assume "wedged ws s"
  then have "wedged ws (cancelPendingSchedules s)"
    by (simp add: wedged_def cancelPendingSchedules_def dropPositionSchedule_def cancelPositionTimer_def
        cancelPreferencesTimer_def split: option.split)
  then show ?thesis
    using wedged_queue wedged_same queueLatestPosition_independent by (metis queueBoth_def)
qed

lemma wedged_flush: "wedged ws s \<Longrightarrow> wedged ws (flush s)"
  by (simp add: flush_def wedged_both flip: queueBoth_def)

lemma wedged_schedule: "wedged ws s \<Longrightarrow> wedged ws (snd (schedulePosition l k s))"
  using schedulePosition_independent wedged_same by blast

lemma wedged_step: "wedged ws s \<Longrightarrow> wedged ws (snd (save_step e s))"
proof (cases e)
  case (HeardCheckpoint c)
  assume w: "wedged ws s"
  then have "wedged ws (s\<lparr>resolutions := n\<rparr>)" for n by (simp add: wedged_def)
  moreover from w have "wedged ws (snd (schedulePosition l k (s\<lparr>resolutions := n, activeHeardSegmentId := g,
      narrationCheckpointed := True, protectHeardCheckpoint := True\<rparr>)))" for l k n g
    by (intro wedged_schedule) (simp add: wedged_def)
  ultimately show ?thesis using w HeardCheckpoint
    by (auto simp: boolResult_def case_prod_beta recordHeardCheckpoint_def validatedCanonicalLocator_def
        split: option.split locator_resolution.split heard_checkpoint.split)
next
  case FinishNarration
  assume w: "wedged ws s"
  then have "wedged ws (flush (s\<lparr>narrationActive := False, activeHeardSegmentId := None, protectHeardCheckpoint := p,
      narrationCheckpointed := False\<rparr>))" for p by (intro wedged_flush) (simp add: wedged_def)
  with w wedged_flush FinishNarration show ?thesis by (simp add: noResult_def finishNarration_def)
next
  case Close
  assume w: "wedged ws s"
  then have "wedged ws (queueBoth (s\<lparr>lifecycleSubscribed := False\<rparr>))" by (intro wedged_both) (simp add: wedged_def)
  with w Close show ?thesis by (simp add: noResult_def closeCoordinator_def wedged_def flip: queueBoth_def)
next
  case (PositionTimer t)
  assume w: "wedged ws s"
  then have "wedged ws (s\<lparr>positionTimers := ts, cancelPositionSchedule := None, scheduledPositionKind := None\<rparr>)" for ts
    by (simp add: wedged_def)
  with w PositionTimer queueLatestPosition_independent wedged_same show ?thesis
    by (simp add: noResult_def positionTimer_def) blast
next
  case (PreferencesTimer t)
  assume w: "wedged ws s"
  then have "wedged ws (queueLatestPreferences (s\<lparr>preferencesTimers := ts, cancelPreferencesSchedule := None\<rparr>))" for ts
    by (intro wedged_queue) (simp add: wedged_def)
  with w PreferencesTimer show ?thesis by (simp add: noResult_def preferencesTimer_def)
next
  case (PositionSettled r)
  assume "wedged ws s"
  with PositionSettled settlePosition_independent wedged_same show ?thesis by (simp add: noResult_def) blast
next
  case (SchedulePassive l)
  assume "wedged ws s"
  with wedged_schedule [of ws s l Passive] SchedulePassive show ?thesis
    by (simp add: boolResult_def case_prod_beta schedulePassive_def unprotect_snd) (simp add: wedged_def)
next
  case (ScheduleImmediate l)
  assume "wedged ws s"
  with wedged_schedule [of ws s l Immediate] ScheduleImmediate show ?thesis
    by (simp add: boolResult_def case_prod_beta scheduleImmediate_def unprotect_snd) (simp add: wedged_def)
next
  case (ScheduleReflow l)
  assume "wedged ws s"
  with wedged_schedule ScheduleReflow show ?thesis by (simp add: boolResult_def case_prod_beta scheduleReflow_def)
next
  case Flush
  assume "wedged ws s"
  with wedged_flush Flush show ?thesis by (simp add: noResult_def)
next
  case Lifecycle
  assume "wedged ws s"
  with wedged_flush Lifecycle show ?thesis by (simp add: noResult_def lifecycleEvent_def)
qed (auto simp: noResult_def boolResult_def case_prod_beta startCoordinator_def beginNarration_def dropPositionSchedule_def cancelPositionTimer_def savePreferences_def
    cancelPreferencesTimer_def settlePreferences_def wedged_def Let_def split: option.splits)

interpretation stuck: guarded_machine save_step "wedged ws" for ws
  by unfold_locales (rule wedged_step)

lemma throwing_callback_wedges:
  assumes "writingPreferences s = Some p" and "preferencesDrain s" and "\<not> closed s" and "hasCallback s"
    and "map_option preferencesObject (latestPreferences s) = Some (preferencesObject p)"
    and "callbackThrows (host s) (length (notifications s))"
  shows "\<not> quiescent (run save_step (PreferencesSettled r # later) s) \<and>
    preferencesWrites (run save_step (PreferencesSettled r # later) s) = preferencesWrites s"
proof -
  have "wedged (preferencesWrites s) (settlePreferences r s)"
    using assms by (auto simp: settlePreferences_def preferencesWritten_def Let_def wedged_def)
  with stuck.run_inv [of "preferencesWrites s" "settlePreferences r s" later] show ?thesis
    by (simp add: noResult_def wedged_def quiescent_def)
qed

section \<open>A run to try them on\<close>

definition sample_block :: located_block where
  "sample_block = sample_body_block"

definition sample_host :: save_host where
  "sample_host = \<lparr>publicationBook = sample_identity, resolver = (\<lambda>_ l. Some (ExactResolution l sample_block)),
     positionThrows = (\<lambda>_. False), preferencesThrows = (\<lambda>_. False), callbackThrows = (\<lambda>_. False)\<rparr>"

definition sample_saver :: save_state where
  "sample_saver = the (createSaveCoordinator sample_host None (Some (sample_locator 3)) None False)"

lemma sample_saver: "createSaveCoordinator sample_host None (Some (sample_locator 3)) None False = Some sample_saver"
  by (simp add: sample_saver_def createSaveCoordinator_def sample_host_def sample_locator_def)

lemma sample_persisted: "createPersistedState (sample_locator 3) = Inr sample_state"
  using decode_state_wire [OF sample_state_wf]
  by (simp add: createPersistedState_def state_wire_def sample_state_def preferences_wire_def sample_locator_def)

lemma sample_flush:
  "positionWrites (flush sample_saver) = [sample_state] \<and> writingLocator (flush sample_saver) = Some (sample_locator 3)"
  using sample_persisted
  by (simp add: sample_saver_def createSaveCoordinator_def sample_host_def flush_def cancelPendingSchedules_def
      dropPositionSchedule_def cancelPositionTimer_def cancelPreferencesTimer_def queueLatestPosition_def Let_def
      startPositionDrain_def drainPositions_turn callWritePosition_def queueLatestPreferences_def
      sample_locator_def [of 3, THEN arg_cong [where f = bookIdentity], simplified])

theorem one_write_at_a_time_witness:
  "positionDrain (run save_step [Flush] sample_saver) \<and>
   positionWrites (run save_step [Flush, Flush] sample_saver) = [sample_state]"
  using one_write_at_a_time [OF sample_saver refl, of "[Flush]" Flush] sample_flush by (simp add: noResult_def)

theorem written_positions_are_verified_witness: "stateBookIdentity sample_state = sample_identity"
  using written_positions_are_verified [OF sample_saver refl, of sample_state "[Flush]"] sample_flush
  by (simp add: noResult_def sample_host_def)

theorem flush_persists_latest_witness:
  "lastSavedLocator (run save_step [Close, PositionSettled (Fulfilled Saved), PositionSettled (Fulfilled Saved)] sample_saver) =
     Some (sample_locator 3)"
proof -
  have "\<not> closed sample_saver" "positionSaveRequested sample_saver" "latestLocator sample_saver = sample_locator 3"
    by (simp_all add: sample_saver_def createSaveCoordinator_def sample_host_def sample_locator_def)
  moreover have "encodable (sample_locator 3)" by (simp add: encodable_def sample_persisted)
  ultimately show ?thesis
    using flush_persists_latest [OF sample_saver, of sample_saver "[]" Close] by (simp add: sample_host_def)
qed

theorem narration_holds_saving_witness:
  "positionWrites (run save_step [ScheduleImmediate (sample_locator 9), Flush, Close] (snd (save_step BeginNarration sample_saver))) = []"
proof -
  have "positionWrites sample_saver = []" "save_step BeginNarration sample_saver = (Some True, snd (save_step BeginNarration sample_saver))"
    by (simp_all add: sample_saver_def createSaveCoordinator_def sample_host_def sample_locator_def boolResult_def beginNarration_def)
  with narration_holds_saving [OF sample_saver, of sample_saver "[]" _ "[ScheduleImmediate (sample_locator 9), Flush, Close]"]
  show ?thesis by simp
qed

theorem closing_is_final_witness:
  "closed (run save_step [ScheduleImmediate (sample_locator 9), Flush] (snd (save_step Close sample_saver)))"
  using closing_is_final [OF sample_saver, of sample_saver "[]" _ "[ScheduleImmediate (sample_locator 9), Flush]"] by simp

end
