(* ===== verification/Restore_Coordinator.thy ===== *)
theory Restore_Coordinator
  imports Locator_Resolver Position_Repository
begin

text \<open>
  apps/desktop/src/persistence/reader-position-restore-coordinator.ts: what a publication is opened at.
  The coordinator reads the saved position of the publication and the display preferences, and answers a
  request only while it is the newest and nothing was cancelled or closed since. It runs in turns: calls of
  its methods, the settlements of the reads it awaits, and the continuation of a request once both of its
  reads have settled.
\<close>

section \<open>What is restored\<close>

text \<open>The \<open>status\<close> of a read result.\<close>

datatype read_status = StatusReady | StatusMissing | StatusFailure repository_failure

fun readStatus :: "'a read_result \<Rightarrow> read_status" where
  "readStatus (Ready _) = StatusReady"
| "readStatus Missing = StatusMissing"
| "readStatus (ReadFailure f) = StatusFailure f"

datatype book_start_reason = ReadReason read_status | IdentityMismatch | Unresolved

datatype restored_position =
    AtBookStart book_start_reason reading_locator
  | AtExact reading_locator
  | AtRecovered recovery_reason reading_locator

fun restoredLocator :: "restored_position \<Rightarrow> reading_locator" where
  "restoredLocator (AtBookStart _ l) = l"
| "restoredLocator (AtExact l) = l"
| "restoredLocator (AtRecovered _ l) = l"

record restored_preferences =
  restoredValue :: reader_preferences
  restoredStatus :: read_status

text \<open>
  The publication: the identity of its book, its \<open>defaultStartLocator\<close> and what \<open>resolveLocator\<close> does. It
  may throw, and the source also allows it to return \<open>undefined\<close>.
\<close>

datatype resolve_outcome = ResolveThrows | ResolvesUndefined | ResolvesTo locator_resolution

record open_publication =
  openIdentity :: book_identity
  defaultStartLocator :: "reading_locator option"
  resolveLocator :: "reading_locator \<Rightarrow> resolve_outcome"

text \<open>A read that throws or rejects (\<open>None\<close>) counts as unavailable.\<close>

definition readSafely :: "'a read_result option \<Rightarrow> 'a read_result" where
  "readSafely r = (case r of None \<Rightarrow> ReadFailure StoreUnavailable | Some r \<Rightarrow> r)"

definition restoredPreferences :: "reader_preferences read_result \<Rightarrow> restored_preferences" where
  "restoredPreferences r = \<lparr>restoredValue = (case r of Ready p \<Rightarrow> p | _ \<Rightarrow> DEFAULT_READER_PREFERENCES),
     restoredStatus = readStatus r\<rparr>"

definition bookStart :: "reading_locator \<Rightarrow> book_start_reason \<Rightarrow> restored_position" where
  "bookStart l reason = AtBookStart reason l"

definition restoredResolution :: "open_publication \<Rightarrow> persisted_state \<Rightarrow> reading_locator \<Rightarrow> restored_position" where
  "restoredResolution publication st firstLocator =
     (if \<not> identitiesMatch (stateBookIdentity st) (openIdentity publication) \<or>
         \<not> identitiesMatch (bookIdentity (stateLocator st)) (openIdentity publication)
      then bookStart firstLocator IdentityMismatch
      else case resolveLocator publication (stateLocator st) of
        ResolveThrows \<Rightarrow> bookStart firstLocator Unresolved
      | ResolvesUndefined \<Rightarrow> bookStart firstLocator IdentityMismatch
      | ResolvesTo r \<Rightarrow>
          if \<not> identitiesMatch (bookIdentity (resolvedTo r)) (openIdentity publication)
          then bookStart firstLocator IdentityMismatch
          else (case r of ExactResolution l _ \<Rightarrow> AtExact l | RecoveredResolution reason l _ \<Rightarrow> AtRecovered reason l))"

text \<open>\<open>None\<close> when it throws, without a default start locator.\<close>

definition restoredPosition :: "open_publication \<Rightarrow> persisted_state read_result \<Rightarrow> restored_position option" where
  "restoredPosition publication r =
     (case defaultStartLocator publication of
        None \<Rightarrow> None
      | Some firstLocator \<Rightarrow> Some (case r of
          Ready st \<Rightarrow> restoredResolution publication st firstLocator
        | _ \<Rightarrow> bookStart firstLocator (ReadReason (readStatus r))))"

section \<open>The coordinator\<close>

text \<open>
  A request waits for the preferences, known at once or those of the shared read, and for its own read of
  the position; it has been answered once its promise has settled.
\<close>

datatype restoration = Cancelled | RestoreThrows | OpenReady restored_preferences restored_position

record restore_request =
  requestRevision :: nat
  requestPublication :: open_publication
  knownPreferences :: "restored_preferences option"
  positionAnswer :: "persisted_state read_result option"
  answered :: "restoration option"

datatype preferences_read = NotRead | Reading | ReadDone restored_preferences

record restore_state =
  revision :: nat
  restoreClosed :: bool
  currentPreferences :: "restored_preferences option"
  preferencesRead :: preferences_read
  requests :: "restore_request list"

definition createRestoreCoordinator :: restore_state where
  "createRestoreCoordinator =
     \<lparr>revision = 0, restoreClosed = False, currentPreferences = None, preferencesRead = NotRead, requests = []\<rparr>"

text \<open>The start of \<open>#readPreferences\<close>: what the request will find, and whether a read is under way.\<close>

definition startPreferencesRead :: "restore_state \<Rightarrow> restored_preferences option \<times> restore_state" where
  "startPreferencesRead s = (case currentPreferences s of
       Some p \<Rightarrow> (Some p, s)
     | None \<Rightarrow> (None, case preferencesRead s of NotRead \<Rightarrow> s\<lparr>preferencesRead := Reading\<rparr> | _ \<Rightarrow> s))"

definition restore :: "open_publication \<Rightarrow> restore_state \<Rightarrow> restore_state" where
  "restore publication s =
     (if restoreClosed s
      then s\<lparr>requests := requests s @ [\<lparr>requestRevision = revision s, requestPublication = publication,
        knownPreferences = None, positionAnswer = None, answered = Some Cancelled\<rparr>]\<rparr>
      else let s = s\<lparr>revision := Suc (revision s)\<rparr>; (known, s) = startPreferencesRead s in
        s\<lparr>requests := requests s @ [\<lparr>requestRevision = revision s, requestPublication = publication,
          knownPreferences = known, positionAnswer = None, answered = None\<rparr>]\<rparr>)"

definition setPreferences :: "reader_preferences \<Rightarrow> read_status \<Rightarrow> restore_state \<Rightarrow> restore_state" where
  "setPreferences p status s = (if restoreClosed s then s
     else s\<lparr>currentPreferences := Some \<lparr>restoredValue = p, restoredStatus = status\<rparr>\<rparr>)"

definition cancelRestore :: "restore_state \<Rightarrow> restore_state" where
  "cancelRestore s = (if restoreClosed s then s else s\<lparr>revision := Suc (revision s)\<rparr>)"

definition closeRestore :: "restore_state \<Rightarrow> restore_state" where
  "closeRestore s = (if restoreClosed s then s else s\<lparr>restoreClosed := True, revision := Suc (revision s)\<rparr>)"

text \<open>The shared read of the preferences settles.\<close>

definition preferencesSettled :: "reader_preferences read_result option \<Rightarrow> restore_state \<Rightarrow> restore_state" where
  "preferencesSettled r s = (case preferencesRead s of
       Reading \<Rightarrow>
         let p = (case currentPreferences s of Some p \<Rightarrow> p | None \<Rightarrow> restoredPreferences (readSafely r)) in
         s\<lparr>currentPreferences := Some p, preferencesRead := ReadDone p\<rparr>
     | _ \<Rightarrow> s)"

definition positionSettled :: "nat \<Rightarrow> persisted_state read_result option \<Rightarrow> restore_state \<Rightarrow> restore_state" where
  "positionSettled i r s =
     (if i < length (requests s) \<and> answered (requests s ! i) = None \<and> positionAnswer (requests s ! i) = None
      then s\<lparr>requests := (requests s)[i := (requests s ! i)\<lparr>positionAnswer := Some (readSafely r)\<rparr>]\<rparr> else s)"

definition preferencesFor :: "restore_request \<Rightarrow> restore_state \<Rightarrow> restored_preferences option" where
  "preferencesFor q s = (case knownPreferences q of
       Some p \<Rightarrow> Some p
     | None \<Rightarrow> (case preferencesRead s of ReadDone p \<Rightarrow> Some p | _ \<Rightarrow> None))"

text \<open>The rest of \<open>restore\<close>, once both of its reads have settled.\<close>

definition restoreAnswer ::
    "restore_state \<Rightarrow> restore_request \<Rightarrow> restored_preferences \<Rightarrow> persisted_state read_result \<Rightarrow> restoration" where
  "restoreAnswer s q p r =
     (if restoreClosed s \<or> requestRevision q \<noteq> revision s then Cancelled
      else case restoredPosition (requestPublication q) r of
        None \<Rightarrow> RestoreThrows
      | Some position \<Rightarrow> OpenReady p position)"

definition resumeRestore :: "nat \<Rightarrow> restore_state \<Rightarrow> restore_state" where
  "resumeRestore i s =
     (if i < length (requests s) \<and> answered (requests s ! i) = None then
        let q = requests s ! i in
        case (preferencesFor q s, positionAnswer q) of
          (Some p, Some r) \<Rightarrow>
            s\<lparr>requests := (requests s)[i := q\<lparr>answered := Some (restoreAnswer s q p r)\<rparr>]\<rparr>
        | _ \<Rightarrow> s
      else s)"

section \<open>Turns\<close>

datatype restore_event =
    Restore open_publication | SetPreferences reader_preferences read_status | CancelRestore | CloseRestore
  | ReadPreferences "reader_preferences read_result option" | ReadPosition nat "persisted_state read_result option"
  | ResumeRestore nat

fun restore_step :: "restore_event \<Rightarrow> restore_state \<Rightarrow> unit \<times> restore_state" where
  "restore_step (Restore publication) s = ((), restore publication s)"
| "restore_step (SetPreferences p status) s = ((), setPreferences p status s)"
| "restore_step CancelRestore s = ((), cancelRestore s)"
| "restore_step CloseRestore s = ((), closeRestore s)"
| "restore_step (ReadPreferences r) s = ((), preferencesSettled r s)"
| "restore_step (ReadPosition i r) s = ((), positionSettled i r s)"
| "restore_step (ResumeRestore i) s = ((), resumeRestore i s)"

section \<open>Invariants\<close>

text \<open>
  Revisions of the requests rise and never pass the current one; the answer of a request, once given,
  stays, and the position it gives is one that its publication may be opened at.
\<close>

definition opens_at :: "open_publication \<Rightarrow> restored_position \<Rightarrow> bool" where
  "opens_at publication p \<longleftrightarrow> (case p of
       AtBookStart _ l \<Rightarrow> defaultStartLocator publication = Some l
     | AtExact l \<Rightarrow> \<exists>asked b. bookIdentity asked = openIdentity publication \<and> bookIdentity l = openIdentity publication \<and>
         resolveLocator publication asked = ResolvesTo (ExactResolution l b)
     | AtRecovered reason l \<Rightarrow> \<exists>asked b. bookIdentity asked = openIdentity publication \<and>
         bookIdentity l = openIdentity publication \<and> resolveLocator publication asked = ResolvesTo (RecoveredResolution reason l b))"

lemma identitiesMatch_iff: "identitiesMatch l r \<longleftrightarrow> l = r"
  by (auto simp: identitiesMatch_def intro: book_identity.equality)

lemma restoredResolution_opens:
  "defaultStartLocator p = Some l \<Longrightarrow> opens_at p (restoredResolution p st l)"
  by (auto simp: opens_at_def restoredResolution_def bookStart_def identitiesMatch_iff
      split: resolve_outcome.split locator_resolution.split)

lemma restoredPosition_opens: "restoredPosition p r = Some q \<Longrightarrow> opens_at p q"
  by (auto simp: restoredPosition_def restoredResolution_opens split: option.splits read_result.splits)
    (simp_all add: opens_at_def bookStart_def)

definition answer_wf :: "restore_request \<Rightarrow> bool" where
  "answer_wf q \<longleftrightarrow> (\<forall>p position. answered q = Some (OpenReady p position) \<longrightarrow> opens_at (requestPublication q) position)"

definition restore_inv :: "restore_state \<Rightarrow> bool" where
  "restore_inv s \<longleftrightarrow> (\<forall>q \<in> set (requests s). requestRevision q \<le> revision s \<and> answer_wf q)"

lemma restore_requests:
  "\<exists>q. requests (restore p s) = requests s @ [q] \<and> requestRevision q = revision (restore p s) \<and> requestPublication q = p \<and>
     positionAnswer q = None \<and> answered q = (if restoreClosed s then Some Cancelled else None) \<and>
     (\<not> restoreClosed s \<longrightarrow> knownPreferences q = currentPreferences s)"
  "revision (restore p s) = (if restoreClosed s then revision s else Suc (revision s))"
  "restoreClosed (restore p s) = restoreClosed s" "currentPreferences (restore p s) = currentPreferences s"
  "\<not> restoreClosed s \<Longrightarrow> preferencesRead (restore p s) =
     (if currentPreferences s = None \<and> preferencesRead s = NotRead then Reading else preferencesRead s)"
  by (auto simp: restore_def startPreferencesRead_def Let_def split: option.split preferences_read.split)

text \<open>What a turn that is not \<open>Restore\<close> does to the requests: it may fill in or answer one of them.\<close>

lemma resumeRestore_frame:
  "revision (resumeRestore i s) = revision s \<and> restoreClosed (resumeRestore i s) = restoreClosed s \<and>
   currentPreferences (resumeRestore i s) = currentPreferences s \<and> preferencesRead (resumeRestore i s) = preferencesRead s \<and>
   (requests (resumeRestore i s) = requests s \<or> i < length (requests s) \<and> answered (requests s ! i) = None \<and>
    (\<exists>p r. requests (resumeRestore i s) =
       (requests s)[i := (requests s ! i)\<lparr>answered := Some (restoreAnswer s (requests s ! i) p r)\<rparr>]))"
  by (auto simp: resumeRestore_def Let_def split: option.split)

lemma positionSettled_frame:
  "revision (positionSettled i r s) = revision s \<and> restoreClosed (positionSettled i r s) = restoreClosed s \<and>
   (requests (positionSettled i r s) = requests s \<or>
    i < length (requests s) \<and> answered (requests s ! i) = None \<and>
    requests (positionSettled i r s) = (requests s)[i := (requests s ! i)\<lparr>positionAnswer := Some (readSafely r)\<rparr>])"
  by (auto simp: positionSettled_def)

lemma preferencesSettled_frame:
  "revision (preferencesSettled r s) = revision s \<and> restoreClosed (preferencesSettled r s) = restoreClosed s \<and>
   requests (preferencesSettled r s) = requests s"
  by (simp add: preferencesSettled_def Let_def split: preferences_read.split)

lemma updated_inv:
  assumes "restore_inv s" and "i < length (requests s)" and "revision t = revision s"
    and "requests t = (requests s)[i := q]" and "requestRevision q = requestRevision (requests s ! i)" and "answer_wf q"
  shows "restore_inv t"
  using assms by (auto simp: restore_inv_def dest!: set_update_subset_insert [THEN subsetD])

lemma restore_step_inv: "restore_inv s \<Longrightarrow> restore_inv (snd (restore_step e s))"
proof (cases e)
  case (Restore p)
  assume inv: "restore_inv s"
  with Restore restore_requests(1,2) [of p s] show ?thesis
    by (fastforce simp: restore_inv_def answer_wf_def)
next
  case (ReadPosition i r)
  assume inv: "restore_inv s"
  have wf: "answer_wf ((requests s ! i)\<lparr>positionAnswer := a\<rparr>)" if "i < length (requests s)" for a
    using inv that by (simp add: restore_inv_def answer_wf_def)
  note frame = positionSettled_frame [of i r s]
  have "restore_inv (positionSettled i r s)"
  proof (cases "requests (positionSettled i r s) = requests s")
    case False
    with wf [of "Some (readSafely r)"] frame show ?thesis
      using updated_inv [OF inv, of i "positionSettled i r s" "(requests s ! i)\<lparr>positionAnswer := Some (readSafely r)\<rparr>"] by simp
  qed (use inv frame in \<open>simp add: restore_inv_def\<close>)
  with ReadPosition show ?thesis by simp
next
  case (ResumeRestore i)
  assume inv: "restore_inv s"
  have wf: "answer_wf ((requests s ! i)\<lparr>answered := Some (restoreAnswer s (requests s ! i) p r)\<rparr>)" for p r
    by (auto simp: answer_wf_def restoreAnswer_def restoredPosition_opens split: option.splits if_splits)
  note frame = resumeRestore_frame [of i s]
  have "restore_inv (resumeRestore i s)"
  proof (cases "requests (resumeRestore i s) = requests s")
    case False
    with frame obtain p r where "i < length (requests s)" "requests (resumeRestore i s) =
        (requests s)[i := (requests s ! i)\<lparr>answered := Some (restoreAnswer s (requests s ! i) p r)\<rparr>]" by blast
    with wf [of p r] frame show ?thesis
      using updated_inv [OF inv, of i "resumeRestore i s" "(requests s ! i)\<lparr>answered := Some (restoreAnswer s (requests s ! i) p r)\<rparr>"] by simp
  qed (use inv frame in \<open>simp add: restore_inv_def\<close>)
  with ResumeRestore show ?thesis by simp
qed (auto simp: restore_inv_def setPreferences_def cancelRestore_def closeRestore_def preferencesSettled_frame
    intro: le_SucI)

interpretation restorer: guarded_machine restore_step restore_inv
  by unfold_locales (rule restore_step_inv)

lemma created_restore_inv: "restore_inv createRestoreCoordinator"
  by (simp add: restore_inv_def createRestoreCoordinator_def)

text \<open>A request that is no longer the newest, or whose coordinator is closed.\<close>

definition superseded :: "nat \<Rightarrow> restore_state \<Rightarrow> bool" where
  "superseded i s \<longleftrightarrow> i < length (requests s) \<and>
     (restoreClosed s \<or> requestRevision (requests s ! i) < revision s) \<and>
     answered (requests s ! i) \<in> {None, Some Cancelled}"

lemma restore_step_superseded: "superseded i s \<Longrightarrow> superseded i (snd (restore_step e s))"
proof (cases e)
  case (Restore p)
  assume "superseded i s"
  with Restore restore_requests(1-3) [of p s] show ?thesis by (auto simp: superseded_def nth_append)
next
  case (ReadPosition j r)
  assume "superseded i s"
  with positionSettled_frame [of j r s] have "superseded i (positionSettled j r s)"
    by (cases "i = j") (auto simp: superseded_def)
  with ReadPosition show ?thesis by simp
next
  case (ResumeRestore j)
  assume "superseded i s"
  with resumeRestore_frame [of j s] have "superseded i (resumeRestore j s)"
    by (cases "i = j") (auto simp: superseded_def restoreAnswer_def)
  with ResumeRestore show ?thesis by simp
qed (auto simp: superseded_def setPreferences_def cancelRestore_def closeRestore_def preferencesSettled_frame)

interpretation outdated: guarded_machine restore_step "superseded i" for i
  by unfold_locales (rule restore_step_superseded)


section \<open>Properties\<close>

text \<open>
  C24. A late result never opens a replaced publication: once a pending request has been followed by another
  request, a cancellation or the close, then whatever reads settle and however the coordinator is used
  afterwards, that request is never answered with a position, only cancelled or left pending.
\<close>

theorem superseded_request_is_cancelled:
  assumes "s = run restore_step es createRestoreCoordinator" and "i < length (requests s)"
    and "answered (requests s ! i) = None" and "\<not> restoreClosed s"
    and "e = CancelRestore \<or> e = CloseRestore \<or> (\<exists>p. e = Restore p)"
    and "t = run restore_step (e # later) s"
  shows "answered (requests t ! i) \<in> {None, Some Cancelled}"
proof -
  have "restore_inv s" using restorer.run_inv [OF created_restore_inv, of es] assms(1) by simp
  then have "requestRevision (requests s ! i) \<le> revision s" using assms(2) by (simp add: restore_inv_def)
  moreover have "superseded i (restore p s)" for p
  proof -
    obtain q where "requests (restore p s) = requests s @ [q]" using restore_requests(1) [of p s] by blast
    with assms(2-4) restore_requests(2) [of p s] calculation show ?thesis by (simp add: superseded_def nth_append)
  qed
  moreover have "superseded i (cancelRestore s)" "superseded i (closeRestore s)"
    using assms(2-4) calculation(1) by (simp_all add: superseded_def cancelRestore_def closeRestore_def)
  ultimately have "superseded i (snd (restore_step e s))" using assms(5) by auto
  with outdated.run_inv assms(6) show ?thesis by (simp add: superseded_def)
qed

text \<open>
  Whatever the repository answers, the position a publication is opened at is its own: the default
  start, or a position of its own book that its resolver returned for a saved position of that book, reported
  as exact or recovered as the resolver said.
\<close>

theorem restored_position_belongs_to_publication:
  assumes "s = run restore_step es createRestoreCoordinator" and "i < length (requests s)"
    and "answered (requests s ! i) = Some (OpenReady p position)"
  shows "opens_at (requestPublication (requests s ! i)) position"
proof -
  have "restore_inv s" using restorer.run_inv [OF created_restore_inv, of es] assms(1) by simp
  with assms(2,3) show ?thesis by (simp add: restore_inv_def answer_wf_def)
qed

text \<open>The preferences a request is answered with, when both reads have settled.\<close>

definition answerPreferences :: "restore_state \<Rightarrow> reader_preferences read_result option \<Rightarrow> restored_preferences" where
  "answerPreferences s r = (case currentPreferences s of
       Some p \<Rightarrow> p
     | None \<Rightarrow> (case preferencesRead s of ReadDone p \<Rightarrow> p | _ \<Rightarrow> restoredPreferences (readSafely r)))"

lemma newest_request:
  assumes "\<not> restoreClosed s"
  shows "\<exists>q. requests (restore p s) = requests s @ [q] \<and> requestRevision q = Suc (revision s) \<and> requestPublication q = p \<and>
    positionAnswer q = None \<and> answered q = None \<and> knownPreferences q = currentPreferences s"
  using restore_requests(1,2) [of p s] assms by auto

text \<open>
  The newest request is answered: when nothing intervenes, as soon as the read of the preferences and
  that of the position have settled, in either order and whether they succeed or throw, the request is
  answered with those preferences and with what the position read calls for.
\<close>

theorem newest_request_is_answered:
  assumes "\<not> restoreClosed s" and "defaultStartLocator p = Some start"
    and "reads = [ReadPreferences rp, ReadPosition (length (requests s)) rq] \<or>
         reads = [ReadPosition (length (requests s)) rq, ReadPreferences rp]"
    and "t = run restore_step (Restore p # reads @ [ResumeRestore (length (requests s))]) s"
  shows "\<exists>position. answered (requests t ! length (requests s)) = Some (OpenReady (answerPreferences s rp) position) \<and>
    restoredPosition p (readSafely rq) = Some position"
proof -
  let ?n = "length (requests s)" and ?a = "restore p s"
  obtain q where q: "requests ?a = requests s @ [q]" "requestRevision q = Suc (revision s)" "requestPublication q = p"
    "positionAnswer q = None" "answered q = None" "knownPreferences q = currentPreferences s"
    using newest_request [OF assms(1), of p] by auto
  note r = restore_requests(2-4) [of p s] restore_requests(5) [OF assms(1), of p]
  let ?q = "q\<lparr>positionAnswer := Some (readSafely rq)\<rparr>"
  have settled: "preferencesFor ?q (preferencesSettled rp u) = Some (answerPreferences s rp)"
    if "preferencesRead u = preferencesRead ?a" "currentPreferences u = currentPreferences s" for u
    using that q(6) r(4) by (simp add: preferencesFor_def preferencesSettled_def answerPreferences_def Let_def
        split: option.split preferences_read.split)
  obtain position where pos: "restoredPosition p (readSafely rq) = Some position"
    using assms(2) by (simp add: restoredPosition_def)
  let ?u = "run restore_step reads ?a"
  have u: "requests ?u = requests s @ [?q]" "revision ?u = Suc (revision s)" "\<not> restoreClosed ?u"
    "preferencesFor ?q ?u = Some (answerPreferences s rp)"
  proof -
    let ?v = "?a\<lparr>requests := requests s @ [?q]\<rparr>" and ?w = "preferencesSettled rp ?a"
    have "positionSettled ?n rq ?a = ?v" using q by (simp add: positionSettled_def nth_append list_update_append)
    moreover have "positionSettled ?n rq ?w = ?w\<lparr>requests := requests s @ [?q]\<rparr>"
      using q by (simp add: positionSettled_def preferencesSettled_frame nth_append list_update_append)
    moreover have "preferencesFor ?q (?w\<lparr>requests := qs\<rparr>) = preferencesFor ?q ?w" for qs
      by (simp add: preferencesFor_def split: option.split)
    ultimately have "?u = preferencesSettled rp ?v \<or> ?u = ?w\<lparr>requests := requests s @ [?q]\<rparr> \<and>
        preferencesFor ?q ?u = preferencesFor ?q ?w"
      using assms(3) by (elim disjE) simp_all
    then show "requests ?u = requests s @ [?q]" "revision ?u = Suc (revision s)" "\<not> restoreClosed ?u"
      "preferencesFor ?q ?u = Some (answerPreferences s rp)"
      using assms(1) r(1-3) settled [of ?v] settled [of ?a] by (auto simp: preferencesSettled_frame)
  qed
  have "t = resumeRestore ?n ?u" using assms(4) by (simp add: run_append)
  with u q(2,3,5) pos show ?thesis by (simp add: resumeRestore_def restoreAnswer_def nth_append list_update_append)
qed

text \<open>
  A request keeps the preferences it found when it began: those set while it waits for the position are
  not the ones it opens the publication with.
\<close>

lemma pending_request_keeps_old_preferences:
  assumes "defaultStartLocator p = Some start"
    and "s = run restore_step [SetPreferences old StatusReady, Restore p, SetPreferences new StatusReady,
      ReadPosition 0 None, ResumeRestore 0] createRestoreCoordinator"
  shows "answered (requests s ! 0) = Some (OpenReady \<lparr>restoredValue = old, restoredStatus = StatusReady\<rparr>
      (AtBookStart (ReadReason (StatusFailure StoreUnavailable)) start)) \<and>
    currentPreferences s = Some \<lparr>restoredValue = new, restoredStatus = StatusReady\<rparr>"
  using assms by (simp add: createRestoreCoordinator_def setPreferences_def restore_def startPreferencesRead_def
      positionSettled_def resumeRestore_def preferencesFor_def restoreAnswer_def restoredPosition_def readSafely_def bookStart_def)

section \<open>A publication to try them on\<close>

definition sample_publication :: open_publication where
  "sample_publication = \<lparr>openIdentity = sample_identity, defaultStartLocator = Some (sample_locator 0),
     resolveLocator = (\<lambda>_. ResolveThrows)\<rparr>"

theorem superseded_request_is_cancelled_witness:
  "answered (requests (run restore_step [CancelRestore, ReadPreferences None, ReadPosition 0 None, ResumeRestore 0]
     (run restore_step [Restore sample_publication] createRestoreCoordinator)) ! 0) \<in> {None, Some Cancelled}"
  by (rule superseded_request_is_cancelled [OF refl _ _ _ _ refl])
    (simp_all add: createRestoreCoordinator_def restore_def startPreferencesRead_def)

lemma sample_answer:
  "run restore_step [Restore sample_publication, ReadPreferences None, ReadPosition 0 (Some Missing), ResumeRestore 0]
     createRestoreCoordinator =
   (let p = \<lparr>restoredValue = DEFAULT_READER_PREFERENCES, restoredStatus = StatusFailure StoreUnavailable\<rparr> in
    \<lparr>revision = 1, restoreClosed = False, currentPreferences = Some p, preferencesRead = ReadDone p,
     requests = [\<lparr>requestRevision = 1, requestPublication = sample_publication, knownPreferences = None,
       positionAnswer = Some Missing, answered = Some (OpenReady p (AtBookStart (ReadReason StatusMissing) (sample_locator 0)))\<rparr>]\<rparr>)"
  by (simp add: createRestoreCoordinator_def restore_def startPreferencesRead_def positionSettled_def preferencesSettled_def
      resumeRestore_def preferencesFor_def restoreAnswer_def restoredPosition_def readSafely_def bookStart_def
      restoredPreferences_def sample_publication_def Let_def)

theorem restored_position_belongs_to_publication_witness:
  "opens_at sample_publication (AtBookStart (ReadReason StatusMissing) (sample_locator 0))"
  using restored_position_belongs_to_publication [OF sample_answer [symmetric], of 0] by (simp add: Let_def)

theorem newest_request_is_answered_witness:
  "\<exists>position. restoredPosition sample_publication (readSafely (Some Missing)) = Some position"
proof -
  have "requests createRestoreCoordinator = []" "\<not> restoreClosed createRestoreCoordinator"
    "defaultStartLocator sample_publication = Some (sample_locator 0)"
    by (simp_all add: createRestoreCoordinator_def sample_publication_def)
  with newest_request_is_answered [OF _ _ disjI1 [OF refl] refl, of createRestoreCoordinator sample_publication _ None "Some Missing"]
  show ?thesis by blast
qed

end
