(* ===== verification/Opened_Publication.thy ===== *)
theory Opened_Publication
  imports Target_Resolver
begin

text \<open>
  packages/epub/src/resource: an opened publication. \<open>raster-resource-catalog.ts\<close> says which images it
  serves, \<open>raster-image-signature.ts\<close> what bytes an image may start with, and
  \<open>opened-publication.ts\<close> is the handle itself, which runs in turns: calls of its methods, aborts by its
  callers, and the settlement of the archive read, the narration preparation and the archive close it
  awaits.
\<close>

section \<open>Image signatures\<close>

datatype media_type = ImageGif | ImageJpeg | ImagePng | ImageWebp

fun media_literal :: "media_type \<Rightarrow> js_string" where
  "media_literal ImageGif = js ''image/gif''"
| "media_literal ImageJpeg = js ''image/jpeg''"
| "media_literal ImagePng = js ''image/png''"
| "media_literal ImageWebp = js ''image/webp''"

definition GIF_87A :: bytes where "GIF_87A = [0x47, 0x49, 0x46, 0x38, 0x37, 0x61]"
definition GIF_89A :: bytes where "GIF_89A = [0x47, 0x49, 0x46, 0x38, 0x39, 0x61]"
definition JPEG :: bytes where "JPEG = [0xff, 0xd8, 0xff]"
definition PNG :: bytes where "PNG = [0x89, 0x50, 0x4e, 0x47, 0x0d, 0x0a, 0x1a, 0x0a]"
definition RIFF :: bytes where "RIFF = [0x52, 0x49, 0x46, 0x46]"
definition WEBP :: bytes where "WEBP = [0x57, 0x45, 0x42, 0x50]"

definition hasBytesAt :: "bytes \<Rightarrow> bytes \<Rightarrow> nat \<Rightarrow> bool" where
  "hasBytesAt bs expected offset \<longleftrightarrow>
     \<not> int (length bs) - int offset < int (length expected) \<and>
     list_all (\<lambda>(i, v). bs ! (offset + i) = v) (enumerate 0 expected)"

fun hasExpectedSignature :: "bytes \<Rightarrow> media_type \<Rightarrow> bool" where
  "hasExpectedSignature bs ImageGif \<longleftrightarrow> hasBytesAt bs GIF_87A 0 \<or> hasBytesAt bs GIF_89A 0"
| "hasExpectedSignature bs ImageJpeg \<longleftrightarrow> hasBytesAt bs JPEG 0"
| "hasExpectedSignature bs ImagePng \<longleftrightarrow> hasBytesAt bs PNG 0"
| "hasExpectedSignature bs ImageWebp \<longleftrightarrow> hasBytesAt bs RIFF 0 \<and> hasBytesAt bs WEBP 8"

definition assertRasterImageSignature :: "bytes \<Rightarrow> media_type \<Rightarrow> epub_error + unit" where
  "assertRasterImageSignature bs m = (if \<not> hasExpectedSignature bs m then Inl MalformedPackage else Inr ())"

section \<open>The catalog of images\<close>

text \<open>
  Of a manifest item what the catalog reads: the path of a local location (\<open>None\<close> when it is not local),
  whether it is a raster image, its properties and media type. An inventory entry is a path, whether it is
  a file, and its declared size.
\<close>

record manifest_item =
  localPath :: "js_string option"
  isRasterImage :: bool
  itemProperties :: "js_string list"
  itemMediaType :: js_string
  mediaTypeEssence :: js_string

record inventory_entry =
  entryPath :: js_string
  entryIsFile :: bool
  entryUncompressedSize :: int

record resource_binding =
  resourceId :: js_string
  resourceMediaType :: media_type
  resourcePath :: js_string

definition ACTIVE_RESOURCE_PROPERTIES :: "js_string list" where
  "ACTIVE_RESOURCE_PROPERTIES = [js ''remote-resources'', js ''scripted'']"

definition mediaTypeFor :: "manifest_item \<Rightarrow> epub_error + media_type" where
  "mediaTypeFor item =
     (if itemMediaType item \<noteq> mediaTypeEssence item then Inl MalformedPackage
      else case find (\<lambda>m. mediaTypeEssence item = media_literal m) [ImageGif, ImageJpeg, ImagePng, ImageWebp] of
        Some m \<Rightarrow> Inr m
      | None \<Rightarrow> Inl MalformedPackage)"

text \<open>The manifest index comes from \<open>entries()\<close> and is always a safe natural number.\<close>

definition rasterImageResourceIdForManifestItem :: "manifest_item \<Rightarrow> nat \<Rightarrow> js_string option" where
  "rasterImageResourceIdForManifestItem item i =
     (if localPath item = None \<or> \<not> isRasterImage item \<or>
         list_ex (\<lambda>p. p \<in> set ACTIVE_RESOURCE_PROPERTIES) (itemProperties item)
      then None else Some (js ''resource:'' @ decimal i))"

definition bindResource ::
    "(js_string \<Rightarrow> inventory_entry option) \<Rightarrow> nat \<times> manifest_item \<Rightarrow> resource_binding list \<Rightarrow> resource_binding list budget_prog" where
  "bindResource inventory = (\<lambda>(i, item) bindings.
     andThen checkpoint (\<lambda>_.
     case rasterImageResourceIdForManifestItem item i of
       None \<Rightarrow> ok bindings
     | Some rid \<Rightarrow> (case localPath item of
           None \<Rightarrow> raise InternalFailure
         | Some path \<Rightarrow> (case inventory path of
             None \<Rightarrow> raise MalformedPackage
           | Some entry \<Rightarrow>
               if \<not> entryIsFile entry then raise MalformedPackage
               else andThen (gets policy) (\<lambda>p.
                 if maxRasterImageBytes p < entryUncompressedSize entry then raise ResourceLimitExceeded
                 else andThen (lift (mediaTypeFor item)) (\<lambda>m.
                   ok (bindings @ [\<lparr>resourceId = rid, resourceMediaType = m, resourcePath = path\<rparr>])))))))"

definition createRasterImageResourceCatalog ::
    "inventory_entry list \<Rightarrow> manifest_item list \<Rightarrow> resource_binding list budget_prog" where
  "createRasterImageResourceCatalog entries manifest =
     foldEach (bindResource (map_of (rev (map (\<lambda>e. (entryPath e, e)) entries)))) (enumerate 0 manifest) []"

section \<open>Opening\<close>

text \<open>\<open>#sourcePositions\<close>\<close>

definition addPositions :: "located_block \<Rightarrow> int \<Rightarrow> int budget_prog" where
  "addPositions b positions =
     andThen checkpoint (\<lambda>_.
     let positions = positions + textLengthCodePoints b in
     andThen (throwIf (\<not> safe_integer positions \<or> positions < 0) InternalFailure) (\<lambda>_. ok positions))"

record package_spine =
  packageSpineIndex :: nat
  packageSpineLinear :: bool

text \<open>The first block of the first linear spine item that has one.\<close>

fun findDefaultStart :: "locator_index \<Rightarrow> package_spine list \<Rightarrow> located_block option budget_prog" where
  "findDefaultStart index [] = ok None"
| "findDefaultStart index (p # ps) =
     andThen checkpoint (\<lambda>_.
     if packageSpineLinear p \<and> packageSpineIndex p < length (indexSpines index) \<and>
        locatedBlocks (indexSpines index ! packageSpineIndex p) \<noteq> []
     then ok (Some (hd (locatedBlocks (indexSpines index ! packageSpineIndex p))))
     else findDefaultStart index ps)"

text \<open>
  The warm part of the narration checkpoint, by which of its fields are present. \<open>activeRead\<close> and
  \<open>activeNarration\<close> hold whether the caller of the operation has aborted its own signal; a linked signal
  is aborted when that one is or the publication has been closed.
\<close>

record narration_checkpoint =
  hasContinuation :: bool
  hasTitleContext :: bool
  hasQuotationContext :: bool
  hasLeaf :: bool
  hasStructural :: bool

record read_operation =
  readMediaType :: media_type
  readCallerAborted :: bool

record publication_handle =
  locatorIndex :: locator_index
  targetIndex :: target_index
  resourceBindings :: "resource_binding list"
  sourcePositions :: int
  defaultStartBlock :: "located_block option"
  handleClosed :: bool
  activeRead :: "read_operation option"
  activeNarration :: "bool option"
  narrationCheckpoint :: narration_checkpoint
  closeRequested :: bool
  archiveCloses :: nat
  closeOutcome :: "(epub_error + unit) option"

definition createOpenedPublication ::
    "inventory_entry list \<Rightarrow> manifest_item list \<Rightarrow> package_spine list \<Rightarrow> locator_index \<Rightarrow> target_index \<Rightarrow>
     publication_handle budget_prog" where
  "createOpenedPublication entries manifest spines index targets =
     andThen (createRasterImageResourceCatalog entries manifest) (\<lambda>bindings.
     andThen (findDefaultStart index spines) (\<lambda>start.
     andThen (foldEach addPositions (indexBlocks index) 0) (\<lambda>positions.
     ok \<lparr>locatorIndex = index, targetIndex = targets, resourceBindings = bindings, sourcePositions = positions,
       defaultStartBlock = start, handleClosed = False, activeRead = None, activeNarration = None,
       narrationCheckpoint = \<lparr>hasContinuation = False, hasTitleContext = False, hasQuotationContext = False,
         hasLeaf = False, hasStructural = False\<rparr>,
       closeRequested = False, archiveCloses = 0, closeOutcome = None\<rparr>)))"

section \<open>Reading positions\<close>

text \<open>The budget is the fresh one the handle makes for the call.\<close>

definition resolveHandleLocator :: "publication_handle \<Rightarrow> js_value \<Rightarrow> locator_resolution budget_prog" where
  "resolveHandleLocator h input =
     (if handleClosed h then raise InternalFailure
      else resolvePublicationLocator (locatorIndex h) input (Some (defaultStartBlock h)))"

definition resolveHandleTarget :: "publication_handle \<Rightarrow> target_input \<Rightarrow> target_resolution budget_prog" where
  "resolveHandleTarget h input =
     (if handleClosed h then raise InternalFailure else resolvePublicationTarget (targetIndex h) input)"

section \<open>Operations\<close>

text \<open>\<open>archive.close()\<close> is called once the publication is closed and nothing is active.\<close>

definition releaseArchive :: "publication_handle \<Rightarrow> publication_handle" where
  "releaseArchive h = (if closeRequested h \<and> activeRead h = None \<and> activeNarration h = None \<and> archiveCloses h = 0
     then h\<lparr>archiveCloses := 1\<rparr> else h)"

text \<open>
  \<open>readResource\<close>: the error it rejects with at once, or \<open>None\<close> when the archive read has begun. The signal of
  the caller is an \<open>AbortSignal\<close>, as its type says; an object whose \<open>addEventListener\<close> throws is not modelled.
\<close>

definition readResource :: "js_string \<Rightarrow> bool \<Rightarrow> publication_handle \<Rightarrow> epub_error option \<times> publication_handle" where
  "readResource rid callerAborted h =
     (if handleClosed h \<or> activeRead h \<noteq> None then (Some InternalFailure, h)
      else case find (\<lambda>b. resourceId b = rid) (rev (resourceBindings h)) of
        None \<Rightarrow> (Some BrokenReference, h)
      | Some b \<Rightarrow>
          if handleClosed h \<or> callerAborted then (Some Cancelled, h)
          else (None, h\<lparr>activeRead := Some \<lparr>readMediaType = resourceMediaType b, readCallerAborted = False\<rparr>\<rparr>))"

text \<open>\<open>readBoundResource\<close> after the archive has answered.\<close>

definition settleRead :: "epub_error + bytes \<Rightarrow> publication_handle \<Rightarrow> (epub_error + bytes) option \<times> publication_handle" where
  "settleRead r h = (case activeRead h of
       None \<Rightarrow> (None, h)
     | Some q \<Rightarrow>
         (Some (bindE r (\<lambda>bs.
            if handleClosed h \<or> readCallerAborted q then Inl Cancelled
            else bindE (assertRasterImageSignature bs (readMediaType q)) (\<lambda>_. Inr bs))),
          releaseArchive (h\<lparr>activeRead := None\<rparr>)))"

datatype narration_failure_detail =
    NarrationCancelled | NarrationInternalFailure | NarrationInvalidRequest | NarrationInvalidStart
  | NarrationOperationActive | NarrationResourceLimit

text \<open>A prepared batch stands for itself by a number.\<close>

datatype narration_result = PreparedBatch nat | PreparationComplete nat | PreparationFailed narration_failure_detail

definition forgetWarmState :: "narration_checkpoint \<Rightarrow> narration_checkpoint" where
  "forgetWarmState c = c\<lparr>hasTitleContext := False, hasContinuation := False, hasLeaf := False, hasStructural := False\<rparr>"

text \<open>\<open>valid\<close>: whether \<open>validateNarrationPreparationRequest\<close> accepts the request.\<close>

definition prepareNarration :: "bool \<Rightarrow> bool \<Rightarrow> publication_handle \<Rightarrow> narration_result option \<times> publication_handle" where
  "prepareNarration valid callerAborted h =
     (if handleClosed h then (Some (PreparationFailed NarrationInternalFailure), h)
      else if activeNarration h \<noteq> None then (Some (PreparationFailed NarrationOperationActive), h)
      else if \<not> valid then (Some (PreparationFailed NarrationInvalidRequest), h)
      else if callerAborted then (Some (PreparationFailed NarrationCancelled), h)
      else (None, h\<lparr>activeNarration := Some False\<rparr>))"

text \<open>
  The rest of \<open>prepareNarration\<close> once \<open>prepareNarrationBatch\<close> has answered \<open>r\<close> and left the checkpoint
  \<open>c\<close>.
\<close>

definition settleNarration ::
    "narration_result \<Rightarrow> narration_checkpoint \<Rightarrow> publication_handle \<Rightarrow> narration_result option \<times> publication_handle" where
  "settleNarration r c h = (case activeNarration h of
       None \<Rightarrow> (None, h)
     | Some callerAborted \<Rightarrow>
         let ab = (handleClosed h \<or> callerAborted);
           c = (case r of PreparationFailed _ \<Rightarrow> forgetWarmState c | _ \<Rightarrow> c);
           answer = (if ab \<and> r \<noteq> PreparationFailed NarrationCancelled then PreparationFailed NarrationCancelled else r);
           c = (if ab then forgetWarmState c else c) in
         (Some answer, releaseArchive (h\<lparr>narrationCheckpoint := c, activeNarration := None\<rparr>)))"

definition closeHandle :: "publication_handle \<Rightarrow> publication_handle" where
  "closeHandle h =
     (if closeRequested h then h
      else releaseArchive (h\<lparr>handleClosed := True, closeRequested := True,
        narrationCheckpoint := forgetWarmState (narrationCheckpoint h)\<rparr>))"

text \<open>\<open>mapUnexpectedCloseError\<close>: an error that is not an \<open>EpubArchiveError\<close> is \<open>None\<close>.\<close>

definition mapUnexpectedCloseError :: "epub_error option \<Rightarrow> epub_error" where
  "mapUnexpectedCloseError e = (case e of Some e \<Rightarrow> e | None \<Rightarrow> InternalFailure)"

definition settleClose :: "epub_error option + unit \<Rightarrow> publication_handle \<Rightarrow> publication_handle" where
  "settleClose r h = (if archiveCloses h = 1 \<and> closeOutcome h = None
     then h\<lparr>closeOutcome := Some (case r of Inl e \<Rightarrow> Inl (mapUnexpectedCloseError e) | Inr u \<Rightarrow> Inr u)\<rparr> else h)"

section \<open>Turns\<close>

datatype handle_event =
    ReadResource js_string bool | AbortRead | ReadSettles "epub_error + bytes"
  | PrepareNarration bool bool | AbortNarration | NarrationSettles narration_result narration_checkpoint
  | CloseHandle | ArchiveCloses "epub_error option + unit"

datatype handle_answer = NoAnswer | ReadAnswer "epub_error + bytes" | NarrationAnswer narration_result

fun handle_step :: "handle_event \<Rightarrow> publication_handle \<Rightarrow> handle_answer \<times> publication_handle" where
  "handle_step (ReadResource rid ab) h = (case readResource rid ab h of
     (None, h) \<Rightarrow> (NoAnswer, h) | (Some e, h) \<Rightarrow> (ReadAnswer (Inl e), h))"
| "handle_step AbortRead h = (NoAnswer, h\<lparr>activeRead := map_option (\<lambda>q. q\<lparr>readCallerAborted := True\<rparr>) (activeRead h)\<rparr>)"
| "handle_step (ReadSettles r) h = (case settleRead r h of (None, h) \<Rightarrow> (NoAnswer, h) | (Some a, h) \<Rightarrow> (ReadAnswer a, h))"
| "handle_step (PrepareNarration valid ab) h = (case prepareNarration valid ab h of
     (None, h) \<Rightarrow> (NoAnswer, h) | (Some a, h) \<Rightarrow> (NarrationAnswer a, h))"
| "handle_step AbortNarration h = (NoAnswer, h\<lparr>activeNarration := map_option (\<lambda>_. True) (activeNarration h)\<rparr>)"
| "handle_step (NarrationSettles r c) h = (case settleNarration r c h of
     (None, h) \<Rightarrow> (NoAnswer, h) | (Some a, h) \<Rightarrow> (NarrationAnswer a, h))"
| "handle_step CloseHandle h = (NoAnswer, closeHandle h)"
| "handle_step (ArchiveCloses r) h = (NoAnswer, settleClose r h)"

section \<open>Closing\<close>

text \<open>
  The archive has been closed exactly when the publication is closed and nothing is active. Of the warm part of
  the checkpoint four of the five fields are then gone: the one a later preparation needs to be warm at all
  (\<open>continuation\<close>), the title context and the two source positions. The fifth, the quotation context, is not
  deleted by any of the clean-ups.
\<close>

definition unresumable :: "narration_checkpoint \<Rightarrow> bool" where
  "unresumable c \<longleftrightarrow> \<not> hasContinuation c \<and> \<not> hasTitleContext c \<and> \<not> hasLeaf c \<and> \<not> hasStructural c"

definition handle_inv :: "publication_handle \<Rightarrow> bool" where
  "handle_inv h \<longleftrightarrow> closeRequested h = handleClosed h \<and>
     archiveCloses h = (if handleClosed h \<and> activeRead h = None \<and> activeNarration h = None then 1 else 0) \<and>
     (closeOutcome h \<noteq> None \<longrightarrow> archiveCloses h = 1) \<and> (handleClosed h \<longrightarrow> unresumable (narrationCheckpoint h))"

lemma unresumable_forget [simp]: "unresumable (forgetWarmState c)" "hasQuotationContext (forgetWarmState c) = hasQuotationContext c"
  by (simp_all add: unresumable_def forgetWarmState_def)

lemma handle_step_inv: "handle_inv h \<Longrightarrow> handle_inv (snd (handle_step e h))"
proof (cases e)
  case (ReadResource rid ab)
  assume "handle_inv h"
  with ReadResource show ?thesis
    by (cases "find (\<lambda>b. resourceId b = rid) (rev (resourceBindings h))") (auto simp: handle_inv_def readResource_def)
next
  case (ReadSettles r)
  assume "handle_inv h"
  with ReadSettles show ?thesis
    by (cases "activeRead h") (auto simp: handle_inv_def settleRead_def releaseArchive_def)
next
  case (NarrationSettles r c)
  assume "handle_inv h"
  with NarrationSettles show ?thesis
    by (cases "activeNarration h") (auto simp: handle_inv_def settleNarration_def releaseArchive_def Let_def)
qed (auto simp: handle_inv_def prepareNarration_def closeHandle_def settleClose_def releaseArchive_def)

interpretation opened: guarded_machine handle_step handle_inv
  by unfold_locales (rule handle_step_inv)

lemma created_handle:
  assumes "createOpenedPublication entries manifest spines index targets w = (Inr h, w')"
  shows "handle_inv h \<and> \<not> handleClosed h \<and> locatorIndex h = index \<and> targetIndex h = targets"
  using assms by (auto simp: createOpenedPublication_def andThen_Inr handle_inv_def ok_def)

text \<open>What a closed handle still answers: failures.\<close>

fun is_failure :: "handle_answer \<Rightarrow> bool" where
  "is_failure NoAnswer = True"
| "is_failure (ReadAnswer r) = (\<exists>e. r = Inl e)"
| "is_failure (NarrationAnswer r) = (\<exists>d. r = PreparationFailed d)"

lemma closed_handle_step:
  assumes "handleClosed h"
  shows "handleClosed (snd (handle_step e h)) \<and> is_failure (fst (handle_step e h)) \<and>
    (activeRead h = None \<longrightarrow> activeRead (snd (handle_step e h)) = None) \<and>
    (activeNarration h = None \<longrightarrow> activeNarration (snd (handle_step e h)) = None)"
proof (cases e)
  case (ReadSettles r)
  with assms show ?thesis
    by (cases "activeRead h"; cases r) (auto simp: settleRead_def releaseArchive_def)
next
  case (NarrationSettles r c)
  with assms show ?thesis
    by (cases "activeNarration h"; cases r) (auto simp: settleNarration_def releaseArchive_def Let_def)
qed (use assms in \<open>auto simp: readResource_def prepareNarration_def closeHandle_def settleClose_def releaseArchive_def\<close>)

lemma closed_handle_run:
  "handleClosed h \<Longrightarrow> handleClosed (run handle_step es h) \<and> (\<forall>a \<in> set (run_results handle_step es h). is_failure a) \<and>
    (activeRead h = None \<longrightarrow> activeRead (run handle_step es h) = None) \<and>
    (activeNarration h = None \<longrightarrow> activeNarration (run handle_step es h) = None)"
proof (induction es arbitrary: h)
  case (Cons e es)
  note step = closed_handle_step [OF Cons.prems, of e]
  with Cons.IH [OF step [THEN conjunct1]] show ?case by simp
qed simp

text \<open>A closed handle with no preparation under way never touches the checkpoint again.\<close>

lemma closed_idle_step:
  assumes "handleClosed h" and "activeNarration h = None"
  shows "narrationCheckpoint (snd (handle_step e h)) = forgetWarmState (narrationCheckpoint h) \<or>
    narrationCheckpoint (snd (handle_step e h)) = narrationCheckpoint h"
proof (cases e)
  case (ReadSettles r)
  then show ?thesis by (cases "activeRead h") (auto simp: settleRead_def releaseArchive_def)
next
  case (ReadResource rid ab)
  with assms show ?thesis by (simp add: readResource_def)
qed (use assms in \<open>auto simp: prepareNarration_def settleNarration_def closeHandle_def settleClose_def releaseArchive_def\<close>)

lemma quotation_survives:
  "handleClosed h \<Longrightarrow> activeNarration h = None \<Longrightarrow>
     hasQuotationContext (narrationCheckpoint (run handle_step es h)) = hasQuotationContext (narrationCheckpoint h)"
proof (induction es arbitrary: h)
  case (Cons e es)
  from closed_handle_step [OF Cons.prems(1), of e] Cons.prems(2) Cons.IH [of "snd (handle_step e h)"]
    closed_idle_step [OF Cons.prems, of e]
  show ?case by auto
qed simp

section \<open>Properties\<close>


lemma mediaTypeFor_Inr: "mediaTypeFor item = Inr m \<Longrightarrow> itemMediaType item = media_literal m"
  by (auto simp: mediaTypeFor_def find_Some_iff split: if_splits option.splits)

text \<open>What the catalog says of a manifest item: the image it serves, if any, under the number of the item.\<close>

definition serves :: "inventory_entry list \<Rightarrow> manifest_item list \<Rightarrow> nat \<Rightarrow> resource_binding \<Rightarrow> bool" where
  "serves entries manifest i b \<longleftrightarrow> i < length manifest \<and> resourceId b = js ''resource:'' @ decimal i \<and>
     localPath (manifest ! i) = Some (resourcePath b) \<and> isRasterImage (manifest ! i) \<and>
     (\<forall>p \<in> set (itemProperties (manifest ! i)). p \<notin> set ACTIVE_RESOURCE_PROPERTIES) \<and>
     itemMediaType (manifest ! i) = media_literal (resourceMediaType b) \<and>
     (\<exists>e \<in> set entries. entryPath e = resourcePath b \<and> entryIsFile e)"

lemma yields_bindResource:
  assumes "i < length manifest" and "manifest ! i = item"
  shows "yields (bindResource (map_of (rev (map (\<lambda>e. (entryPath e, e)) entries))) (i, item) bs)
    (\<lambda>r. r = bs \<or> (\<exists>b. r = bs @ [b] \<and> serves entries manifest i b))"
  unfolding yields_def bindResource_def
  using assms by (auto simp: andThen_Inr serves_def rasterImageResourceIdForManifestItem_def gets_def lift_def ok_def raise_def
      list_ex_iff dest!: map_of_SomeD mediaTypeFor_Inr split: if_splits option.splits sum.splits)

lemma yields_catalog:
  assumes "drop n manifest = items"
  shows "yields (foldEach (bindResource (map_of (rev (map (\<lambda>e. (entryPath e, e)) entries)))) (enumerate n items) bs)
     (\<lambda>r. \<exists>new. r = bs @ map snd new \<and> sorted_wrt (<) (map fst new) \<and> (\<forall>(i, b) \<in> set new. n \<le> i \<and> serves entries manifest i b))"
  using assms
proof (induction items arbitrary: n bs)
  case Nil
  show ?case by (auto simp: yields_def ok_def intro!: exI [of _ "[]"])
next
  case (Cons item items)
  have "n < length manifest" using Cons.prems by (metis drop_eq_Nil leI list.distinct(1))
  then have i: "n < length manifest" "manifest ! n = item" "drop (Suc n) manifest = items"
    using Cons.prems by (simp_all add: Cons_nth_drop_Suc [symmetric])
  show ?case
    unfolding enumerate_simps foldEach.simps
  proof (rule yields_andThen [OF yields_bindResource [OF i(1,2)]])
    fix r assume r: "r = bs \<or> (\<exists>b. r = bs @ [b] \<and> serves entries manifest n b)"
    show "yields (foldEach (bindResource (map_of (rev (map (\<lambda>e. (entryPath e, e)) entries)))) (enumerate (Suc n) items) r)
      (\<lambda>r. \<exists>new. r = bs @ map snd new \<and> sorted_wrt (<) (map fst new) \<and> (\<forall>(i, b) \<in> set new. n \<le> i \<and> serves entries manifest i b))"
      unfolding yields_def
    proof (intro allI impI)
      fix s x t
      assume "foldEach (bindResource (map_of (rev (map (\<lambda>e. (entryPath e, e)) entries)))) (enumerate (Suc n) items) r s = (Inr x, t)"
      with Cons.IH [OF i(3), of r] obtain new where new: "x = r @ map snd new" "sorted_wrt (<) (map fst new)"
        "\<forall>(i, b) \<in> set new. Suc n \<le> i \<and> serves entries manifest i b" unfolding yields_def by blast
      from r show "\<exists>new. x = bs @ map snd new \<and> sorted_wrt (<) (map fst new) \<and>
          (\<forall>(i, b) \<in> set new. n \<le> i \<and> serves entries manifest i b)"
      proof
        assume "\<exists>b. r = bs @ [b] \<and> serves entries manifest n b"
        then obtain b where "r = bs @ [b]" "serves entries manifest n b" by blast
        with new show ?thesis by (intro exI [of _ "(n, b) # new"]) auto
      qed (use new in \<open>auto intro!: exI [of _ new]\<close>)
    qed
  qed
qed

text \<open>
  The images a publication serves are exactly what its catalog says: each is a local, passive raster
  image of the manifest whose declared media type is one of the four, each is a file of the archive, and
  no two have the same identifier, so an identifier read back can only mean one of them.
\<close>

theorem catalog_serves_only_archive_images:
  assumes "createOpenedPublication entries manifest spines index targets w = (Inr h, w')"
  shows "distinct (map resourceId (resourceBindings h)) \<and>
    (\<forall>b \<in> set (resourceBindings h). \<exists>i. serves entries manifest i b)"
proof -
  obtain v where "createRasterImageResourceCatalog entries manifest w = (Inr (resourceBindings h), v)"
    using assms by (auto simp: createOpenedPublication_def andThen_Inr ok_def)
  with yields_catalog [of 0 manifest manifest entries "[]"] obtain new where
    new: "resourceBindings h = map snd new" "sorted_wrt (<) (map fst new)" "\<forall>(i, b) \<in> set new. serves entries manifest i b"
    unfolding yields_def createRasterImageResourceCatalog_def by fastforce
  have "map resourceId (map snd new) = map (\<lambda>i. js ''resource:'' @ decimal i) (map fst new)"
    using new(3) by (auto simp: serves_def)
  moreover have "distinct (map (\<lambda>i. js ''resource:'' @ decimal i) (map fst new))"
    using new(2) by (auto simp: distinct_map strict_sorted_iff inj_on_def)
  ultimately have "distinct (map resourceId (resourceBindings h))" by (metis new(1))
  with new(1,3) show ?thesis by (auto simp: case_prod_beta)
qed


section \<open>A publication to try them on\<close>

definition sample_entry :: inventory_entry where
  "sample_entry = \<lparr>entryPath = js ''img/a.png'', entryIsFile = True, entryUncompressedSize = 40\<rparr>"

definition sample_item :: manifest_item where
  "sample_item = \<lparr>localPath = Some (js ''img/a.png''), isRasterImage = True, itemProperties = [],
     itemMediaType = js ''image/png'', mediaTypeEssence = js ''image/png''\<rparr>"

definition sample_binding :: resource_binding where
  "sample_binding = \<lparr>resourceId = js ''resource:0'', resourceMediaType = ImagePng, resourcePath = js ''img/a.png''\<rparr>"

lemma sample_media: "mediaTypeFor sample_item = Inr ImagePng"
  by (simp add: mediaTypeFor_def sample_item_def js_def)

lemma sample_resource: "rasterImageResourceIdForManifestItem sample_item 0 = Some (resourceId sample_binding)"
  by (simp add: rasterImageResourceIdForManifestItem_def sample_item_def sample_binding_def js_def decimal.simps)

lemma sample_catalog:
  "createRasterImageResourceCatalog [sample_entry] [sample_item] (sample_budget\<lparr>looked := n\<rparr>) =
     (Inr [sample_binding], sample_budget\<lparr>looked := Suc n\<rparr>)"
proof -
  have "policy (sample_budget\<lparr>looked := m\<rparr>) = DEFAULT_EPUB_INGESTION_POLICY" for m by (simp add: sample_budget_def)
  moreover have "\<not> maxRasterImageBytes DEFAULT_EPUB_INGESTION_POLICY < 40" by (simp add: DEFAULT_EPUB_INGESTION_POLICY_def MEBIBYTE_def)
  moreover have "localPath sample_item = Some (entryPath sample_entry)" "entryIsFile sample_entry" "entryUncompressedSize sample_entry = 40"
    "\<lparr>resourceId = resourceId sample_binding, resourceMediaType = ImagePng, resourcePath = entryPath sample_entry\<rparr> = sample_binding"
    by (simp_all add: sample_item_def sample_entry_def sample_binding_def)
  ultimately show ?thesis
    by (simp add: createRasterImageResourceCatalog_def bindResource_def andThen_apply sample_checkpoint sample_resource
        sample_media gets_def lift_def)
qed

lemma sample_positions: "foldEach addPositions (indexBlocks sample_index) 0 (sample_budget\<lparr>looked := n\<rparr>) =
    (Inr 6, sample_budget\<lparr>looked := n + 2\<rparr>)"
  by (simp add: sample_index_def sample_title_block_def sample_body_block_def addPositions_def andThen_apply sample_checkpoint
      throwIf_def safe_integer_def MAX_SAFE_INTEGER_def Let_def)

lemma sample_opened: "\<exists>h w. createOpenedPublication [sample_entry] [sample_item] [] sample_index (\<lambda>_. None) sample_budget = (Inr h, w) \<and>
    resourceBindings h = [sample_binding]"
proof -
  have "createRasterImageResourceCatalog [sample_entry] [sample_item] sample_budget =
      (Inr [sample_binding], sample_budget\<lparr>looked := Suc (looked sample_budget)\<rparr>)"
    using sample_catalog [of "looked sample_budget"] by simp
  then show ?thesis by (simp add: createOpenedPublication_def andThen_apply sample_positions)
qed


theorem catalog_serves_only_archive_images_witness:
  "\<exists>i. serves [sample_entry] [sample_item] i sample_binding"
  using sample_opened catalog_serves_only_archive_images by fastforce

end
