(* ===== verification/Reading_Session.thy ===== *)
theory Reading_Session
  imports Save_Properties Restore_Coordinator Opened_Publication
begin

text \<open>
  A reading session across its components: an opened publication resolves locators, the save coordinator
  hands positions it has verified to the repository, and the restore coordinator opens the publication at
  what the repository reads back.
\<close>

section \<open>Where positions come from\<close>

text \<open>
  What the two coordinators need of a publication: its positions carry the identity of its book and
  resolve exactly to themselves, and whatever it resolves is one of them. A resolver may throw.
\<close>

locale position_source =
  fixes sound :: "'p \<Rightarrow> bool"
    and identityOf :: "'p \<Rightarrow> book_identity"
    and resolveAt :: "'p \<Rightarrow> reading_locator \<Rightarrow> resolve_outcome"
    and position :: "'p \<Rightarrow> reading_locator \<Rightarrow> bool"
  assumes position_identity: "sound p \<Longrightarrow> position p l \<Longrightarrow> bookIdentity l = identityOf p"
    and position_exact: "sound p \<Longrightarrow> position p l \<Longrightarrow>
      resolveAt p l = ResolveThrows \<or> (\<exists>b. resolveAt p l = ResolvesTo (ExactResolution l b))"
    and resolved_position: "sound p \<Longrightarrow> resolveAt p l = ResolvesTo r \<Longrightarrow> position p (resolvedTo r)"
begin

lemma restored_exactly:
  assumes "sound p" and "position p (stateLocator st)" and "stateBookIdentity st = bookIdentity (stateLocator st)"
    and "openIdentity publication = identityOf p" and "resolveLocator publication = resolveAt p"
    and "defaultStartLocator publication = Some d"
  shows "restoredPosition publication (Ready st) \<in> {Some (AtExact (stateLocator st)), Some (AtBookStart Unresolved d)}"
  using position_exact [OF assms(1,2)] position_identity [OF assms(1,2)] assms(3-6)
  by (auto simp: restoredPosition_def restoredResolution_def bookStart_def identitiesMatch_iff)

lemma restored_lands:
  assumes "sound p" and "position p d" and "resolveLocator publication = resolveAt p"
    and "defaultStartLocator publication = Some d" and "restoredPosition publication r = Some q"
  shows "position p (restoredLocator q)"
proof (cases r)
  case (Ready st)
  with assms resolved_position [OF assms(1), of "stateLocator st"] show ?thesis
    by (auto simp: restoredPosition_def restoredResolution_def bookStart_def
        split: if_splits resolve_outcome.splits locator_resolution.splits)
qed (use assms in \<open>auto simp: restoredPosition_def bookStart_def\<close>)

end

section \<open>The opened publication as such a source\<close>

text \<open>A handle together with the budget it makes for the call.\<close>

definition handleResolve :: "publication_handle \<times> budget \<Rightarrow> reading_locator \<Rightarrow> resolve_outcome" where
  "handleResolve = (\<lambda>(h, w) l. case fst (resolveHandleLocator h (locator_wire l) w) of
     Inl _ \<Rightarrow> ResolveThrows | Inr r \<Rightarrow> ResolvesTo r)"

definition handleSound :: "publication_handle \<times> budget \<Rightarrow> bool" where
  "handleSound = (\<lambda>(h, w). index_wf (locatorIndex h) \<and>
     (\<forall>b. defaultStartBlock h = Some b \<longrightarrow> b \<in> set (indexBlocks (locatorIndex h))))"

definition handlePosition :: "publication_handle \<times> budget \<Rightarrow> reading_locator \<Rightarrow> bool" where
  "handlePosition = (\<lambda>(h, w) l. \<exists>b \<in> set (indexBlocks (locatorIndex h)). \<exists>n. createBlockLocatorAtOffset b (Integral n) = Inr l)"

lemma handlePosition_identity:
  assumes "index_wf (locatorIndex h)" and "b \<in> set (indexBlocks (locatorIndex h))" and "createBlockLocatorAtOffset b (Integral n) = Inr l"
  shows "bookIdentity l = indexIdentity (locatorIndex h)"
proof -
  obtain s where s: "bookIdentity (startLocator b) = indexIdentity (locatorIndex h)" "block_wf b"
    using assms(1,2) by (rule index_wf_block)
  have n: "0 \<le> n" "n \<le> MAX_SAFE_INTEGER" "n \<le> textLengthCodePoints b"
    using assms(3) by (auto simp: createBlockLocatorAtOffset_def is_count_iff MAX_SAFE_INTEGER_def split: if_splits)
  with createBlockLocatorAtOffset_position [of b n] s(2) assms(3) have "l = position_in b n" by (simp add: block_wf_def)
  with s(1) show ?thesis by (simp add: position_in_def)
qed

lemma handle_resolved_position:
  assumes "handleSound p" and "handleResolve p l = ResolvesTo r"
  shows "handlePosition p (resolvedTo r)"
proof -
  obtain h w where p: "p = (h, w)" by (cases p)
  have wf: "index_wf (locatorIndex h)" and dflt: "\<forall>c. Some (defaultStartBlock h) = Some (Some c) \<longrightarrow> c \<in> set (indexBlocks (locatorIndex h))"
    using assms(1) p by (simp_all add: handleSound_def)
  from assms(2) p obtain w' where res: "resolvePublicationLocator (locatorIndex h) (locator_wire l) (Some (defaultStartBlock h)) w = (Inr r, w')"
    by (cases "resolvePublicationLocator (locatorIndex h) (locator_wire l) (Some (defaultStartBlock h)) w")
      (auto simp: handleResolve_def resolveHandleLocator_def raise_def split: sum.splits if_splits)
  from outcomesD(1) [OF outcomes_resolvePublicationLocator [OF wf dflt] res]
  obtain k where k: "decodeReadingLocatorV1 (locator_wire l) = Inr k" "resolves (locatorIndex h) (Some (defaultStartBlock h)) k r" by blast
  from resolution_lands [OF wf dflt decodeReadingLocatorV1_wf [OF k(1)] k(2)]
  obtain n where b: "resolvedBlock r \<in> set (indexBlocks (locatorIndex h))" and n: "0 \<le> n" "n \<le> textLengthCodePoints (resolvedBlock r)"
    "n \<le> MAX_SAFE_INTEGER" and to: "resolvedTo r = position_in (resolvedBlock r) n" by blast
  from index_wf_block [OF wf b] have "block_wf (resolvedBlock r)" by metis
  with createBlockLocatorAtOffset_position [of "resolvedBlock r" n] n to
  have "createBlockLocatorAtOffset (resolvedBlock r) (Integral n) = Inr (resolvedTo r)" by (simp add: block_wf_def)
  with b p show ?thesis by (auto simp: handlePosition_def)
qed

lemma handle_position_exact:
  assumes "handleSound p" and "handlePosition p l"
  shows "handleResolve p l = ResolveThrows \<or> (\<exists>b. handleResolve p l = ResolvesTo (ExactResolution l b))"
proof -
  obtain h w where p: "p = (h, w)" by (cases p)
  from assms p obtain b n where b: "b \<in> set (indexBlocks (locatorIndex h))" "createBlockLocatorAtOffset b (Integral n) = Inr l"
    and wf: "index_wf (locatorIndex h)" and dflt: "\<forall>c. Some (defaultStartBlock h) = Some (Some c) \<longrightarrow> c \<in> set (indexBlocks (locatorIndex h))"
    by (auto simp: handleSound_def handlePosition_def)
  obtain result w' where res: "resolvePublicationLocator (locatorIndex h) (locator_wire l) (Some (defaultStartBlock h)) w = (result, w')"
    by fastforce
  with position_result [OF wf b dflt res] p show ?thesis
    by (auto simp: handleResolve_def resolveHandleLocator_def raise_def)
qed

interpretation handle_positions: position_source handleSound "\<lambda>(h, w). indexIdentity (locatorIndex h)" handleResolve handlePosition
proof
  fix p l assume "handleSound p" "handlePosition p l"
  then show "bookIdentity l = (\<lambda>(h, w). indexIdentity (locatorIndex h)) p"
    by (cases p) (auto simp: handleSound_def handlePosition_def dest: handlePosition_identity)
qed (use handle_position_exact handle_resolved_position in blast)+


definition startsIn :: "locator_index \<Rightarrow> located_block option \<Rightarrow> bool" where
  "startsIn index r \<longleftrightarrow> (\<forall>b. r = Some b \<longrightarrow> (\<exists>s \<in> set (indexSpines index). b \<in> set (locatedBlocks s)))"

lemma yields_findDefaultStart: "yields (findDefaultStart index ps) (startsIn index)"
proof (induction ps)
  case Nil
  show ?case by (simp add: yields_def ok_def startsIn_def)
next
  case (Cons p ps)
  let ?i = "packageSpineIndex p" and ?linear = "packageSpineLinear p"
  let ?s = "indexSpines index ! ?i"
  show ?case
    unfolding findDefaultStart.simps
  proof (rule yields_andThen [OF yields_any], rule yields_if)
    assume "?linear \<and> ?i < length (indexSpines index) \<and> locatedBlocks ?s \<noteq> []"
    then have "?s \<in> set (indexSpines index)" "hd (locatedBlocks ?s) \<in> set (locatedBlocks ?s)" by simp_all
    then have "startsIn index (Some (hd (locatedBlocks ?s)))" by (auto simp: startsIn_def)
    then show "yields (ok (Some (hd (locatedBlocks ?s)))) (startsIn index)" by (rule yields_ok)
  qed (rule Cons.IH)
qed

lemma opened_handle_sound:
  assumes "index_wf index" and "createOpenedPublication entries manifest spines index targets w = (Inr h, w')"
  shows "handleSound (h, v) \<and> locatorIndex h = index"
proof -
  have i: "locatorIndex h = index" using created_handle [OF assms(2)] by simp
  have "\<exists>u u'. findDefaultStart index spines u = (Inr (defaultStartBlock h), u')"
    using assms(2) by (auto simp: createOpenedPublication_def andThen_Inr ok_def) blast
  with yieldsD [OF yields_findDefaultStart] have "startsIn index (defaultStartBlock h)" by blast
  with assms(1) i show ?thesis by (auto simp: handleSound_def index_wf_def startsIn_def)
qed

text \<open>The two coordinators over a handle: the n-th call of \<open>resolveLocator\<close> makes the budget \<open>ws n\<close>.\<close>

definition savingHost :: "publication_handle \<Rightarrow> (nat \<Rightarrow> budget) \<Rightarrow> (nat \<Rightarrow> bool) \<Rightarrow> (nat \<Rightarrow> bool) \<Rightarrow> (nat \<Rightarrow> bool) \<Rightarrow> save_host" where
  "savingHost h ws pt qt ct = \<lparr>publicationBook = indexIdentity (locatorIndex h),
     resolver = (\<lambda>n l. case handleResolve (h, ws n) l of ResolvesTo r \<Rightarrow> Some r | _ \<Rightarrow> None),
     positionThrows = pt, preferencesThrows = qt, callbackThrows = ct\<rparr>"

definition openingPublication :: "publication_handle \<Rightarrow> budget \<Rightarrow> open_publication" where
  "openingPublication h w = \<lparr>openIdentity = indexIdentity (locatorIndex h),
     defaultStartLocator = map_option startLocator (defaultStartBlock h), resolveLocator = handleResolve (h, w)\<rparr>"

lemma written_position_of_handle:
  assumes "handleSound (h, v)" and "createSaveCoordinator (savingHost h ws pt qt ct) d i p c = Some s\<^sub>0"
    and "handlePosition (h, v) (latestLocator s\<^sub>0)" and "st \<in> set (positionWrites (run save_step es s\<^sub>0))"
  shows "handlePosition (h, v) (stateLocator st) \<and> state_wf st"
proof -
  let ?host = "savingHost h ws pt qt ct"
  have "provenance ?host (latestLocator s\<^sub>0) (run save_step es s\<^sub>0)"
    using traced.run_inv [OF created_provenance [OF assms(2), THEN conjunct1]] .
  then obtain l where l: "origin ?host (latestLocator s\<^sub>0) l" "createPersistedState l = Inr st"
    using assms(4) unfolding provenance_def by blast
  have "handlePosition (h, v) l"
  proof (cases "l = latestLocator s\<^sub>0")
    case False
    with l(1) obtain n b where "resolver ?host n l = Some (ExactResolution l b)" by (auto simp: origin_def)
    then have "handleResolve (h, ws n) l = ResolvesTo (ExactResolution l b)"
      by (simp add: savingHost_def split: resolve_outcome.splits)
    with handle_resolved_position [of "(h, ws n)" l] assms(1) show ?thesis by (simp add: handleSound_def handlePosition_def)
  qed (use assms(3) in simp)
  with createPersistedState_Inr [OF l(2)] show ?thesis by simp
qed

section \<open>Properties\<close>

text \<open>
  C23. A session reopens where it was saved. Let a publication be opened on a canonical index and any run of
  its save coordinator write a state, the initial position being one of the publication. When the
  repository has saved that state and nothing else changes the storage, then opening the publication again
  restores exactly the position of that state; only when the storage is unavailable or the resolution is
  interrupted is it opened at its default start instead, and reported so.
\<close>

theorem session_reopens_where_saved:
  assumes "book_wf book" and "createPublicationLocatorIndex book ps w\<^sub>1 = (Inr index, w\<^sub>2)"
    and "createOpenedPublication entries manifest spines index targets w\<^sub>3 = (Inr h, w\<^sub>4)"
    and "createSaveCoordinator (savingHost h ws pt qt ct) None (Some initial) persist callback = Some s\<^sub>0"
    and "handlePosition (h, w) initial" and "st \<in> set (positionWrites (run save_step es s\<^sub>0))"
    and "json_faithful json" and "writePosition json (state_wire st) m\<^sub>0 = (Saved, m\<^sub>1)"
    and "createOpenedPublication entries manifest spines index targets w\<^sub>5 = (Inr h', w\<^sub>6)"
    and "stored m\<^sub>2 = stored m\<^sub>1" and "readPosition json (indexIdentity index) m\<^sub>2 = (r, m\<^sub>3)"
    and "restoredPosition (openingPublication h' v) r = Some q"
  shows "q = AtExact (stateLocator st) \<or>
    (\<exists>b. defaultStartBlock h' = Some b \<and>
      q \<in> {AtBookStart Unresolved (startLocator b), AtBookStart (ReadReason (StatusFailure StoreUnavailable)) (startLocator b)})"
proof -
  note wf = created_index_wf(1) [OF assms(1,2)]
  have h: "handleSound (h, w)" "locatorIndex h = index" using opened_handle_sound [OF wf assms(3)] by simp_all
  have h': "handleSound (h', v)" "locatorIndex h' = index" using opened_handle_sound [OF wf assms(9)] by simp_all
  have "latestLocator s\<^sub>0 = initial" using assms(4) by (auto simp: createSaveCoordinator_def split: if_splits)
  with written_position_of_handle [OF h(1) assms(4) _ assms(6)] assms(5)
  have st: "handlePosition (h, w) (stateLocator st)" "state_wf st" by simp_all
  then have pos: "handlePosition (h', v) (stateLocator st)" using h(2) h'(2) by (simp add: handlePosition_def)
  have ident: "stateBookIdentity st = indexIdentity index" "stateBookIdentity st = bookIdentity (stateLocator st)"
    using handle_positions.position_identity [OF h'(1) pos] st(2) h'(2) by (simp_all add: state_wf_def)
  obtain b where b: "defaultStartBlock h' = Some b"
    using assms(12) by (auto simp: restoredPosition_def openingPublication_def split: option.splits)
  from read_back [OF assms(7) st(2) assms(8,10)] assms(11) ident(1) have "r = Ready st \<or> r = ReadFailure StoreUnavailable" by simp
  then show ?thesis
  proof
    assume "r = Ready st"
    with handle_positions.restored_exactly [OF h'(1) pos ident(2), of "openingPublication h' v" "startLocator b"] b h'(2) assms(12)
    show ?thesis by (auto simp: openingPublication_def)
  qed (use assms(12) b in \<open>auto simp: restoredPosition_def openingPublication_def bookStart_def\<close>)
qed


section \<open>A session to try it on\<close>

definition sample_start :: reading_locator where
  "sample_start = startLocator sample_body_block"

definition sample_spine :: "package_spine list" where
  "sample_spine = [\<lparr>packageSpineIndex = 1, packageSpineLinear = True\<rparr>]"

lemma sample_session_opened:
  "\<exists>h w. createOpenedPublication [sample_entry] [sample_item] sample_spine sample_index (\<lambda>_. None) sample_budget = (Inr h, w) \<and>
    locatorIndex h = sample_index \<and> defaultStartBlock h = Some sample_title_block"
proof -
  have "createRasterImageResourceCatalog [sample_entry] [sample_item] sample_budget =
      (Inr [sample_binding], sample_budget\<lparr>looked := Suc (looked sample_budget)\<rparr>)"
    using sample_catalog [of "looked sample_budget"] by simp
  moreover have "findDefaultStart sample_index sample_spine (sample_budget\<lparr>looked := n\<rparr>) =
      (Inr (Some sample_title_block), sample_budget\<lparr>looked := Suc n\<rparr>)" for n
    by (simp add: sample_spine_def andThen_apply sample_checkpoint) (simp add: sample_index_def)
  ultimately show ?thesis by (simp add: createOpenedPublication_def andThen_apply sample_positions)
qed

lemma sample_start_position: "createBlockLocatorAtOffset sample_body_block (Integral 0) = Inr sample_start"
  by (simp add: createBlockLocatorAtOffset_def is_count_iff sample_body_block_def sample_start_def)

definition sample_saved :: persisted_state where
  "sample_saved = \<lparr>stateSchemaVersion = 1, stateBookIdentity = sample_identity, stateLocator = sample_start,
     statePreferences = \<lparr>selectedVoiceId = None, playbackRate = None\<rparr>\<rparr>"

lemma sample_saved_wf: "state_wf sample_saved" "bookIdentity sample_start = sample_identity"
  using sample_positions_wf(2)
  by (simp_all add: state_wf_def sample_saved_def sample_start_def sample_body_block_def preferences_wf_def)
    (simp_all add: block_position_def)

lemma sample_saved_encodes: "createPersistedState sample_start = Inr sample_saved"
  using decode_state_wire [OF sample_saved_wf(1)] sample_saved_wf(2)
  by (simp add: createPersistedState_def state_wire_def sample_saved_def preferences_wire_def)

theorem session_reopens_where_saved_witness:
  "\<exists>h w. createOpenedPublication [sample_entry] [sample_item] sample_spine sample_index (\<lambda>_. None) sample_budget = (Inr h, w) \<and>
    restoredPosition (openingPublication h sample_budget) (Ready sample_saved) = Some (AtExact sample_start)"
proof -
  obtain h w where h: "createOpenedPublication [sample_entry] [sample_item] sample_spine sample_index (\<lambda>_. None) sample_budget = (Inr h, w)"
    "locatorIndex h = sample_index" "defaultStartBlock h = Some sample_title_block" "\<not> handleClosed h"
    using sample_session_opened created_handle by blast
  have pos: "handlePosition (h, sample_budget) sample_start"
    using sample_start_position h(2) by (auto simp: handlePosition_def sample_index_def intro!: bexI [of _ sample_body_block])
  let ?host = "savingHost h (\<lambda>_. sample_budget) (\<lambda>_. False) (\<lambda>_. False) (\<lambda>_. False)"
  let ?s = "the (createSaveCoordinator ?host None (Some sample_start) None False)"
  have ident: "indexIdentity sample_index = sample_identity" by (simp add: sample_index_def)
  have s: "createSaveCoordinator ?host None (Some sample_start) None False = Some ?s"
    using sample_saved_wf(2) h(2) ident by (simp add: createSaveCoordinator_def savingHost_def)
  have "positionWrites (run save_step [Flush] ?s) = [sample_saved]"
    using sample_saved_encodes sample_saved_wf(2) h(2) ident
    by (simp add: createSaveCoordinator_def savingHost_def flush_def cancelPendingSchedules_def noResult_def
        dropPositionSchedule_def cancelPositionTimer_def cancelPreferencesTimer_def queueLatestPosition_def Let_def
        startPositionDrain_def drainPositions_turn callWritePosition_def queueLatestPreferences_def)
  then have written: "sample_saved \<in> set (positionWrites (run save_step [Flush] ?s))" by simp
  have read: "readPosition (sample_codec (positions_wire [sample_saved])) (indexIdentity sample_index) sample_written =
      (Ready sample_saved, sample_written\<lparr>accesses := 5\<rparr>)"
    using sample_read_of [OF sample_saved_wf(1)] ident by (simp add: sample_saved_def)
  have q: "restoredPosition (openingPublication h sample_budget) (Ready sample_saved) = Some (AtExact sample_start)"
    using sample_resolves_any [of "Some (Some sample_title_block)" "looked sample_budget"] sample_saved_wf(2) ident h(4)
    by (simp add: restoredPosition_def openingPublication_def h(2,3) restoredResolution_def identitiesMatch_iff sample_saved_def
        handleResolve_def resolveHandleLocator_def sample_start_def)
  have "stored sample_written = stored sample_written" by simp
  from session_reopens_where_saved [OF sample_book_wf sample_index_created [of 0] h(1) s pos written sample_codec_faithful
      sample_write_of [OF sample_saved_wf(1)] h(1) this read q] h(1) q
  show ?thesis by blast
qed

end
