(* ===== verification/Archive_Path.thy ===== *)
theory Archive_Path
  imports Js_Value Ingestion_Policy
begin

text \<open>
  packages/epub/src/paths/archive-path.ts: which names the entries of an archive may have. A path is
  refused when it is absolute, climbs, or hides a separator or a control character behind any number of
  percent encodings. \<open>decodeURIComponent\<close> and the UTF-8 decoder are those of the language; the Unicode
  normalization and case tables are a parameter.
\<close>

section \<open>UTF-8\<close>

text \<open>The number of bytes a sequence has that begins with this one.\<close>

definition lead_length :: "nat \<Rightarrow> nat option" where
  "lead_length b = (if b < 0x80 then Some 1 else if b < 0xC0 then None else if b < 0xE0 then Some 2
     else if b < 0xF0 then Some 3 else if b < 0xF8 then Some 4 else None)"

definition is_continuation :: "nat \<Rightarrow> bool" where
  "is_continuation b \<longleftrightarrow> 0x80 \<le> b \<and> b < 0xC0"

text \<open>The code point of one sequence, in its shortest form and not a surrogate.\<close>

fun utf8_value :: "nat list \<Rightarrow> nat option" where
  "utf8_value [a] = (if a < 0x80 then Some a else None)"
| "utf8_value [a, b] =
     (let c = (a - 0xC0) * 64 + (b - 0x80) in
      if is_continuation b \<and> 0x80 \<le> c then Some c else None)"
| "utf8_value [a, b, d] =
     (let c = (a - 0xE0) * 4096 + (b - 0x80) * 64 + (d - 0x80) in
      if is_continuation b \<and> is_continuation d \<and> 0x800 \<le> c \<and> \<not> (0xD800 \<le> c \<and> c < 0xE000) then Some c else None)"
| "utf8_value [a, b, d, e] =
     (let c = (a - 0xF0) * 262144 + (b - 0x80) * 4096 + (d - 0x80) * 64 + (e - 0x80) in
      if is_continuation b \<and> is_continuation d \<and> is_continuation e \<and> 0x10000 \<le> c \<and> c < 0x110000 then Some c else None)"
| "utf8_value _ = None"

definition utf8_code_point :: "nat list \<Rightarrow> nat option" where
  "utf8_code_point bs = (if bs \<noteq> [] \<and> lead_length (hd bs) = Some (length bs) then utf8_value bs else None)"

text \<open>\<open>TextDecoder("utf-8", {fatal: true, ignoreBOM: true}).decode\<close>\<close>

function utf8Decode :: "nat list \<Rightarrow> js_string option" where
  "utf8Decode [] = Some []"
| "utf8Decode (b # bs) = (case lead_length b of
       None \<Rightarrow> None
     | Some n \<Rightarrow> (case utf8_code_point (take n (b # bs)) of
           None \<Rightarrow> None
         | Some c \<Rightarrow> map_option ((@) (utf16_units c)) (utf8Decode (drop n (b # bs)))))"
  by pat_completeness auto
termination
  by (relation "measure length") (auto simp: lead_length_def split: if_splits)

definition pathUtf8ByteLength :: "js_string \<Rightarrow> int" where
  "pathUtf8ByteLength s = int (sum_list (map utf8_length (code_points s)))"

section \<open>Percent encoding\<close>

definition hex_value :: "16 word \<Rightarrow> nat option" where
  "hex_value u = (if 48 \<le> u \<and> u \<le> 57 then Some (unat u - 48)
     else if 65 \<le> u \<and> u \<le> 70 then Some (unat u - 55)
     else if 97 \<le> u \<and> u \<le> 102 then Some (unat u - 87) else None)"

text \<open>The byte of an escape at the start of the text, and what follows it.\<close>

fun percent_byte :: "js_string \<Rightarrow> (nat \<times> js_string) option" where
  "percent_byte (p # a # b # us) = (if p = 37 then
     (case (hex_value a, hex_value b) of (Some x, Some y) \<Rightarrow> Some (16 * x + y, us) | _ \<Rightarrow> None) else None)"
| "percent_byte _ = None"

fun percent_bytes :: "nat \<Rightarrow> js_string \<Rightarrow> (nat list \<times> js_string) option" where
  "percent_bytes 0 us = Some ([], us)"
| "percent_bytes (Suc n) us = (case percent_byte us of
       None \<Rightarrow> None
     | Some (b, us) \<Rightarrow> (case percent_bytes n us of None \<Rightarrow> None | Some (bs, us) \<Rightarrow> Some (b # bs, us)))"

lemma percent_byte_length: "percent_byte us = Some (b, vs) \<Longrightarrow> length us = length vs + 3"
  by (cases us rule: percent_byte.cases) (auto split: if_splits option.splits)

lemma percent_bytes_length: "percent_bytes n us = Some (bs, vs) \<Longrightarrow> length us = length vs + 3 * n \<and> length bs = n"
  by (induction n arbitrary: us bs vs) (auto split: option.splits dest!: percent_byte_length)

text \<open>\<open>decodeURIComponent\<close>: \<open>None\<close> when it throws.\<close>

definition escapedCodePoint :: "js_string \<Rightarrow> (nat \<times> js_string) option" where
  "escapedCodePoint us = (case percent_byte us of
       None \<Rightarrow> None
     | Some (b, vs) \<Rightarrow> (case lead_length b of
           None \<Rightarrow> None
         | Some n \<Rightarrow> (case percent_bytes (n - 1) vs of
               None \<Rightarrow> None
             | Some (bs, ws) \<Rightarrow> map_option (\<lambda>c. (c, ws)) (utf8_code_point (b # bs)))))"

lemma escapedCodePoint_shorter:
  assumes "escapedCodePoint us = Some (c, ws)"
  shows "length ws + length (utf16_units c) < length us"
proof -
  from assms obtain b vs n bs where b: "percent_byte us = Some (b, vs)" "lead_length b = Some n"
    "percent_bytes (n - 1) vs = Some (bs, ws)" "utf8_code_point (b # bs) = Some c"
    by (auto simp: escapedCodePoint_def split: option.splits)
  then have "length us = length ws + 3 * (n - 1) + 3" using percent_byte_length percent_bytes_length by fastforce
  then show ?thesis by (simp add: length_utf16_units)
qed

function decodeURIComponent :: "js_string \<Rightarrow> js_string option" where
  "decodeURIComponent [] = Some []"
| "decodeURIComponent (u # us) =
     (if u \<noteq> 37 then map_option ((#) u) (decodeURIComponent us)
      else case escapedCodePoint (u # us) of
        None \<Rightarrow> None
      | Some (c, vs) \<Rightarrow> map_option ((@) (utf16_units c)) (decodeURIComponent vs))"
  by pat_completeness auto
termination
  by (relation "measure length") (auto dest: escapedCodePoint_shorter)

section \<open>Hazards\<close>

fun isWellFormedUnicode :: "js_string \<Rightarrow> bool" where
  "isWellFormedUnicode [] = True"
| "isWellFormedUnicode [u] = (\<not> is_high_surrogate u \<and> \<not> is_low_surrogate u)"
| "isWellFormedUnicode (u # v # us) =
     (if is_high_surrogate u then is_low_surrogate v \<and> isWellFormedUnicode us
      else if is_low_surrogate u then False
      else isWellFormedUnicode (v # us))"

definition hasForbiddenCodePoint :: "js_string \<Rightarrow> bool" where
  "hasForbiddenCodePoint s = list_ex (\<lambda>c. c \<le> 0x1f \<or> (0x7f \<le> c \<and> c \<le> 0x9f) \<or> c = 0xfeff) (code_points s)"

fun hasPercentEscape :: "js_string \<Rightarrow> bool" where
  "hasPercentEscape [] = False"
| "hasPercentEscape (u # us) = (percent_byte (u # us) \<noteq> None \<or> hasPercentEscape us)"

text \<open>\<open>/%(?:2f|5c)/iu.test\<close>\<close>

fun hasEncodedSeparator :: "js_string \<Rightarrow> bool" where
  "hasEncodedSeparator [] = False"
| "hasEncodedSeparator (u # us) =
     (map_option fst (percent_byte (u # us)) \<in> {Some 0x2f, Some 0x5c} \<or> hasEncodedSeparator us)"

abbreviation slash :: "16 word" where "slash \<equiv> 47"
abbreviation backslash :: "16 word" where "backslash \<equiv> 92"
abbreviation dot :: "16 word" where "dot \<equiv> 46"

definition revealsHazard :: "js_string \<Rightarrow> bool" where
  "revealsHazard d \<longleftrightarrow> d = [dot] \<or> d = [dot, dot] \<or> slash \<in> set d \<or> backslash \<in> set d \<or>
     \<not> isWellFormedUnicode d \<or> hasForbiddenCodePoint d"

text \<open>The loop: one decoding per remaining layer.\<close>

fun hazardLayers :: "nat \<Rightarrow> js_string \<Rightarrow> bool" where
  "hazardLayers 0 candidate = True"
| "hazardLayers (Suc remaining) candidate =
     (if \<not> hasPercentEscape candidate then False
      else if hasEncodedSeparator candidate then True
      else case decodeURIComponent candidate of
        None \<Rightarrow> True
      | Some decoded \<Rightarrow>
          if revealsHazard decoded then True
          else if decoded = candidate then False
          else hazardLayers remaining decoded)"

definition hasEncodedPathHazard :: "js_string \<Rightarrow> bool" where
  "hasEncodedPathHazard v = hazardLayers (length v) v"

section \<open>Entry paths\<close>

datatype path_error = PathBrokenReference | PathResourceLimit | PathUnsafeEntry

datatype entry_kind = DirectoryEntry | FileEntry

text \<open>\<open>split("/")\<close> and \<open>join("/")\<close>\<close>

fun splitSlash :: "js_string \<Rightarrow> js_string list" where
  "splitSlash [] = [[]]"
| "splitSlash (u # us) = (if u = slash then [] # splitSlash us
     else (case splitSlash us of c # cs \<Rightarrow> (u # c) # cs | [] \<Rightarrow> [[u]]))"

fun joinSlash :: "js_string list \<Rightarrow> js_string" where
  "joinSlash [] = []"
| "joinSlash [c] = c"
| "joinSlash (c # d # cs) = c @ slash # joinSlash (d # cs)"

text \<open>\<open>/^[a-z]:/iu\<close>, which under these flags also matches the long s and the Kelvin sign.\<close>

definition is_letter_iu :: "16 word \<Rightarrow> bool" where
  "is_letter_iu u \<longleftrightarrow> (65 \<le> u \<and> u \<le> 90) \<or> (97 \<le> u \<and> u \<le> 122) \<or> u = 0x17F \<or> u = 0x212A"

fun hasDrivePrefix :: "js_string \<Rightarrow> bool" where
  "hasDrivePrefix (u # v # us) \<longleftrightarrow> is_letter_iu u \<and> v = 58"
| "hasDrivePrefix _ = False"

fun checkComponents :: "ingestion_policy \<Rightarrow> js_string list \<Rightarrow> path_error option" where
  "checkComponents p [] = None"
| "checkComponents p (c # cs) =
     (if c = [] \<or> c = [dot] \<or> c = [dot, dot] \<or> hasEncodedPathHazard c then Some PathUnsafeEntry
      else if maxArchivePathComponentBytes p < pathUtf8ByteLength c then Some PathResourceLimit
      else checkComponents p cs)"

definition validateArchiveEntryPath :: "js_string \<Rightarrow> entry_kind \<Rightarrow> int \<Rightarrow> ingestion_policy \<Rightarrow> path_error + js_string" where
  "validateArchiveEntryPath input kind encodedByteLength p =
     (if maxArchivePathBytes p < encodedByteLength then Inl PathResourceLimit
      else if \<not> isWellFormedUnicode input \<or> hasForbiddenCodePoint input then Inl PathUnsafeEntry
      else if (kind = DirectoryEntry) \<noteq> (input \<noteq> [] \<and> last input = slash) then Inl PathUnsafeEntry
      else let canonicalPath = (if kind = DirectoryEntry then butlast input else input) in
        if canonicalPath = [] \<or> hd canonicalPath = slash \<or> hd canonicalPath = backslash \<or>
           hasDrivePrefix canonicalPath \<or> backslash \<in> set canonicalPath
        then Inl PathUnsafeEntry
        else let components = splitSlash canonicalPath in
          if maxArchivePathComponents p < int (length components) then Inl PathResourceLimit
          else case checkComponents p components of Some e \<Rightarrow> Inl e | None \<Rightarrow> Inr canonicalPath)"

definition parseArchiveEntryPath :: "js_string \<Rightarrow> entry_kind \<Rightarrow> ingestion_policy \<Rightarrow> path_error + js_string" where
  "parseArchiveEntryPath input kind p = validateArchiveEntryPath input kind (pathUtf8ByteLength input) p"

definition decodeArchiveEntryPath :: "nat list \<Rightarrow> entry_kind \<Rightarrow> ingestion_policy \<Rightarrow> path_error + js_string" where
  "decodeArchiveEntryPath input kind p =
     (if maxArchivePathBytes p < int (length input) then Inl PathResourceLimit
      else case utf8Decode input of
        None \<Rightarrow> Inl PathUnsafeEntry
      | Some decoded \<Rightarrow> validateArchiveEntryPath decoded kind (int (length input)) p)"

section \<open>Collisions\<close>

record unicode_forms =
  normalizeNFC :: "js_string \<Rightarrow> js_string"
  normalizeNFKC :: "js_string \<Rightarrow> js_string"
  upperUnd :: "js_string \<Rightarrow> js_string"
  lowerUnd :: "js_string \<Rightarrow> js_string"

definition caseFoldPath :: "unicode_forms \<Rightarrow> js_string \<Rightarrow> js_string" where
  "caseFoldPath u v = normalizeNFC u (lowerUnd u (upperUnd u (normalizeNFKC u v)))"

fun collisionsAmong ::
    "unicode_forms \<Rightarrow> js_string list \<Rightarrow> js_string set \<Rightarrow> js_string set \<Rightarrow> js_string set \<Rightarrow> path_error + unit" where
  "collisionsAmong u [] exactPaths normalizedPaths foldedPaths = Inr ()"
| "collisionsAmong u (p # ps) exactPaths normalizedPaths foldedPaths =
     (let n = normalizeNFC u p; f = caseFoldPath u n in
      if p \<in> exactPaths \<or> n \<in> normalizedPaths \<or> f \<in> foldedPaths then Inl PathUnsafeEntry
      else collisionsAmong u ps (insert p exactPaths) (insert n normalizedPaths) (insert f foldedPaths))"

definition assertNoArchivePathCollisions :: "unicode_forms \<Rightarrow> js_string list \<Rightarrow> path_error + unit" where
  "assertNoArchivePathCollisions u ps = collisionsAmong u ps {} {} {}"

end
