(* ===== verification/Path_Facts.thy ===== *)
theory Path_Facts
  imports Archive_Path
begin

text \<open>
  What an accepted archive path guarantees: its components stay harmless however often they are percent
  decoded, and paths that pass the collision check are told apart by every consumer.
\<close>

section \<open>Decoding\<close>

lemma utf8_value_bound: "utf8_code_point bs = Some c \<Longrightarrow> c < 0x110000"
  by (cases bs rule: utf8_value.cases)
    (auto simp: utf8_code_point_def lead_length_def is_continuation_def Let_def split: if_splits)

lemma utf16_units_nonempty [simp]: "utf16_units c \<noteq> []"
  by (simp add: utf16_units_def)

lemma decodeURIComponent_nonempty: "decodeURIComponent us = Some vs \<Longrightarrow> us \<noteq> [] \<Longrightarrow> vs \<noteq> []"
  by (cases us) (auto split: if_splits option.splits)

lemma percent_byte_head: "percent_byte us = Some r \<Longrightarrow> \<exists>vs. us = 37 # vs"
  by (cases us rule: percent_byte.cases) (auto split: if_splits)

lemma escapedCodePoint_head: "escapedCodePoint us = Some r \<Longrightarrow> hasPercentEscape us"
  by (cases us) (auto simp: escapedCodePoint_def split: option.splits)

lemma decode_unescaped: "decodeURIComponent us = Some vs \<Longrightarrow> \<not> hasPercentEscape us \<Longrightarrow> vs = us"
proof (induction us arbitrary: vs rule: decodeURIComponent.induct)
  case (2 u us)
  then show ?case
    by (auto split: if_splits option.splits dest: escapedCodePoint_head)
qed simp

lemma hasPercentEscape_skip:
  assumes "hasPercentEscape (u # us)" and "u \<noteq> 37"
  shows "hasPercentEscape us"
  using assms percent_byte_head [of "u # us"] by auto

lemma decode_shortens: "decodeURIComponent us = Some vs \<Longrightarrow> length vs \<le> length us \<and> (hasPercentEscape us \<longrightarrow> length vs < length us)"
proof (induction us arbitrary: vs rule: decodeURIComponent.induct)
  case (2 u us)
  show ?case
  proof (cases "u = 37")
    case True
    with 2(3) obtain c ws ys where c: "escapedCodePoint (u # us) = Some (c, ws)" "decodeURIComponent ws = Some ys" "vs = utf16_units c @ ys"
      by (auto split: option.splits)
    with 2(2) True have "length ys \<le> length ws" by auto
    with c escapedCodePoint_shorter [OF c(1)] show ?thesis by auto
  next
    case False
    with 2(3) obtain ys where y: "decodeURIComponent us = Some ys" "vs = u # ys" by auto
    with 2(1) False have "length ys \<le> length us \<and> (hasPercentEscape us \<longrightarrow> length ys < length us)" by auto
    with y False hasPercentEscape_skip [of u us] show ?thesis by auto
  qed
qed simp

section \<open>Layers of encoding\<close>

text \<open>What is left after \<open>n\<close> decodings.\<close>

fun decodings :: "nat \<Rightarrow> js_string \<Rightarrow> js_string option" where
  "decodings 0 v = Some v"
| "decodings (Suc n) v = (case decodeURIComponent v of None \<Rightarrow> None | Some w \<Rightarrow> decodings n w)"

text \<open>A text that still has an escape and shows its hazard at the next decoding.\<close>

definition shows_hazard :: "js_string \<Rightarrow> bool" where
  "shows_hazard c \<longleftrightarrow> hasPercentEscape c \<and> (hasEncodedSeparator c \<or>
     (case decodeURIComponent c of None \<Rightarrow> True | Some d \<Rightarrow> revealsHazard d))"

lemma decodings_unescaped: "\<not> hasPercentEscape v \<Longrightarrow> decodings n v \<in> {None, Some v}"
proof (induction n)
  case (Suc n)
  then show ?case using decode_unescaped [of v] by (auto split: option.split)
qed simp

lemma hazardLayers_iff:
  "length v < n \<or> (length v = n \<and> v \<noteq> []) \<Longrightarrow> hazardLayers n v \<longleftrightarrow> (\<exists>k c. decodings k v = Some c \<and> shows_hazard c)"
proof (induction n arbitrary: v)
  case (Suc n)
  show ?case
  proof (cases "hasPercentEscape v")
    case False
    then have "\<not> shows_hazard c" if "decodings k v = Some c" for k c
      using decodings_unescaped [OF False, of k] that by (auto simp: shows_hazard_def)
    with False show ?thesis by auto
  next
    case True
    show ?thesis
    proof (cases "shows_hazard v")
      case True
      then have "hazardLayers (Suc n) v" by (auto simp: shows_hazard_def split: option.splits)
      with True show ?thesis using decodings.simps(1) by blast
    next
      case False
      with True obtain d where d: "\<not> hasEncodedSeparator v" "decodeURIComponent v = Some d" "\<not> revealsHazard d"
        by (auto simp: shows_hazard_def split: option.splits)
      have short: "length d < length v" using decode_shortens [OF d(2)] True by simp
      then have "d \<noteq> v" by auto
      moreover have "d \<noteq> []" using decodeURIComponent_nonempty [OF d(2)] True by (cases v) auto
      moreover have "(\<exists>k c. decodings k v = Some c \<and> shows_hazard c) \<longleftrightarrow> (\<exists>k c. decodings k d = Some c \<and> shows_hazard c)"
      proof
        assume "\<exists>k c. decodings k v = Some c \<and> shows_hazard c"
        then obtain k c where k: "decodings k v = Some c" "shows_hazard c" by blast
        with False obtain m where "k = Suc m" by (cases k) auto
        with k d(2) show "\<exists>k c. decodings k d = Some c \<and> shows_hazard c" by auto
      next
        assume "\<exists>k c. decodings k d = Some c \<and> shows_hazard c"
        then obtain k c where "decodings k d = Some c" "shows_hazard c" by blast
        with d(2) show "\<exists>k c. decodings k v = Some c \<and> shows_hazard c" by (intro exI [of _ "Suc k"]) auto
      qed
      moreover from short Suc.prems have "length d < n \<or> (length d = n \<and> d \<noteq> [])" using \<open>d \<noteq> []\<close> by auto
      then have "hazardLayers n d \<longleftrightarrow> (\<exists>k c. decodings k d = Some c \<and> shows_hazard c)" by (rule Suc.IH)
      ultimately show ?thesis using True d by simp
    qed
  qed
qed simp

lemma hazard_iff: "v \<noteq> [] \<Longrightarrow> hasEncodedPathHazard v \<longleftrightarrow> (\<exists>k c. decodings k v = Some c \<and> shows_hazard c)"
  unfolding hasEncodedPathHazard_def by (rule hazardLayers_iff) simp

lemma hazard_free_layers:
  assumes "v \<noteq> []" and "\<not> hasEncodedPathHazard v" and "\<not> revealsHazard v" and "decodings n v = Some d"
  shows "d \<noteq> [] \<and> \<not> revealsHazard d"
  using assms
proof (induction n arbitrary: v)
  case (Suc n)
  from Suc.prems(4) obtain w where w: "decodeURIComponent v = Some w" "decodings n w = Some d" by (auto split: option.splits)
  show ?case
  proof (cases "hasPercentEscape v")
    case True
    have quiet: "\<not> shows_hazard c" if "decodings k v = Some c" for k c
      using that Suc.prems(1,2) by (auto simp: hazard_iff)
    from quiet [of 0 v] True w(1) have "\<not> revealsHazard w" by (auto simp: shows_hazard_def)
    moreover have "w \<noteq> []" using decodeURIComponent_nonempty [OF w(1) Suc.prems(1)] .
    moreover have "\<not> hasEncodedPathHazard w"
    proof
      assume "hasEncodedPathHazard w"
      then obtain k c where "decodings k w = Some c" "shows_hazard c" using \<open>w \<noteq> []\<close> by (auto simp: hazard_iff)
      with quiet [of "Suc k" c] w(1) show False by simp
    qed
    ultimately show ?thesis using Suc.IH w(2) by blast
  next
    case False
    with decodings_unescaped [OF False, of "Suc n"] Suc.prems show ?thesis by auto
  qed
qed simp


section \<open>Components\<close>

lemma splitSlash_nonempty [simp]: "splitSlash p \<noteq> []"
  by (cases p) (auto split: list.split)

lemma joinSlash_Cons: "joinSlash (c # cs) = (if cs = [] then c else c @ slash # joinSlash cs)"
  by (cases cs) simp_all

lemma join_split [simp]: "joinSlash (splitSlash p) = p"
proof (induction p)
  case (Cons u p)
  then show ?case by (cases "splitSlash p") (auto simp: joinSlash_Cons)
qed simp

lemma split_no_slash: "c \<in> set (splitSlash p) \<Longrightarrow> slash \<notin> set c"
  by (induction p arbitrary: c) (auto split: if_splits list.splits)

lemma split_append: "splitSlash (c @ slash # p) = (case splitSlash c of [] \<Rightarrow> splitSlash p | d # ds \<Rightarrow> (d # ds) @ splitSlash p)"
  by (induction c) (auto split: list.splits)

lemma split_component: "slash \<notin> set c \<Longrightarrow> splitSlash c = [c]"
  by (induction c) auto

lemma split_join: "cs \<noteq> [] \<Longrightarrow> \<forall>c \<in> set cs. slash \<notin> set c \<Longrightarrow> splitSlash (joinSlash cs) = cs"
  by (induction cs rule: joinSlash.induct) (auto simp: split_append split_component)

lemma split_units: "c \<in> set (splitSlash p) \<Longrightarrow> set c \<subseteq> set p"
proof (induction p arbitrary: c)
  case (Cons u p)
  then show ?case by (cases "splitSlash p") (fastforce split: if_splits)+
qed simp

lemma slash_first:
  "code_points (slash # b) = 47 # code_points b" "isWellFormedUnicode (slash # b) = isWellFormedUnicode b"
  by (cases b; simp add: is_low_surrogate_def is_high_surrogate_def)+

lemma code_points_join: "code_points (a @ slash # b) = code_points a @ 47 # code_points b"
  by (induction a rule: code_points.induct) (auto simp: slash_first is_low_surrogate_def is_high_surrogate_def)

lemma wellformed_join: "isWellFormedUnicode (a @ slash # b) \<longleftrightarrow> isWellFormedUnicode a \<and> isWellFormedUnicode b"
  by (induction a rule: isWellFormedUnicode.induct) (auto simp: slash_first is_low_surrogate_def is_high_surrogate_def)

lemma forbidden_join: "hasForbiddenCodePoint (a @ slash # b) \<longleftrightarrow> hasForbiddenCodePoint a \<or> hasForbiddenCodePoint b"
  by (auto simp: hasForbiddenCodePoint_def code_points_join)

lemma components_clean:
  "isWellFormedUnicode (joinSlash cs) \<Longrightarrow> \<not> hasForbiddenCodePoint (joinSlash cs) \<Longrightarrow> c \<in> set cs \<Longrightarrow>
     isWellFormedUnicode c \<and> \<not> hasForbiddenCodePoint c"
  by (induction cs rule: joinSlash.induct) (auto simp: wellformed_join forbidden_join)

lemma components_clean_iff:
  "cs \<noteq> [] \<Longrightarrow> isWellFormedUnicode (joinSlash cs) \<and> \<not> hasForbiddenCodePoint (joinSlash cs) \<longleftrightarrow>
     (\<forall>c \<in> set cs. isWellFormedUnicode c \<and> \<not> hasForbiddenCodePoint c)"
  by (induction cs rule: joinSlash.induct) (auto simp: wellformed_join forbidden_join)

lemma checkComponents_None:
  "checkComponents p cs = None \<longleftrightarrow> (\<forall>c \<in> set cs. c \<noteq> [] \<and> c \<noteq> [dot] \<and> c \<noteq> [dot, dot] \<and> \<not> hasEncodedPathHazard c \<and>
     pathUtf8ByteLength c \<le> maxArchivePathComponentBytes p)"
  by (induction cs) auto

section \<open>Accepted paths\<close>

text \<open>What a canonical archive path is.\<close>

definition safe_component :: "js_string \<Rightarrow> bool" where
  "safe_component c \<longleftrightarrow> (\<forall>n d. decodings n c = Some d \<longrightarrow> d \<noteq> [] \<and> \<not> revealsHazard d)"

definition canonical_path :: "ingestion_policy \<Rightarrow> js_string \<Rightarrow> bool" where
  "canonical_path p q \<longleftrightarrow> (let cs = splitSlash q in
     int (length cs) \<le> maxArchivePathComponents p \<and> \<not> hasDrivePrefix q \<and>
     (\<forall>c \<in> set cs. safe_component c \<and> pathUtf8ByteLength c \<le> maxArchivePathComponentBytes p))"

lemma accepted_components:
  assumes "isWellFormedUnicode q" "\<not> hasForbiddenCodePoint q" "backslash \<notin> set q"
    and "checkComponents p (splitSlash q) = None" and "c \<in> set (splitSlash q)"
  shows "safe_component c \<and> pathUtf8ByteLength c \<le> maxArchivePathComponentBytes p"
proof -
  have c: "c \<noteq> []" "c \<noteq> [dot]" "c \<noteq> [dot, dot]" "\<not> hasEncodedPathHazard c" "pathUtf8ByteLength c \<le> maxArchivePathComponentBytes p"
    using assms(4,5) by (simp_all add: checkComponents_None)
  have "\<not> revealsHazard c"
    using c split_no_slash [OF assms(5)] split_units [OF assms(5)] components_clean [of "splitSlash q" c] assms
    by (auto simp: revealsHazard_def)
  with hazard_free_layers [OF c(1,4)] c(5) show ?thesis by (simp add: safe_component_def)
qed

lemma parse_Inr:
  assumes "validateArchiveEntryPath input kind n p = Inr q"
  shows "input = (if kind = DirectoryEntry then q @ [slash] else q) \<and> canonical_path p q \<and>
    isWellFormedUnicode q \<and> \<not> hasForbiddenCodePoint q \<and> backslash \<notin> set q \<and> n \<le> maxArchivePathBytes p \<and>
    checkComponents p (splitSlash q) = None"
proof -
  have q: "q = (if kind = DirectoryEntry then butlast input else input)" "isWellFormedUnicode input" "\<not> hasForbiddenCodePoint input"
    "(kind = DirectoryEntry) = (input \<noteq> [] \<and> last input = slash)" "backslash \<notin> set q" "\<not> hasDrivePrefix q"
    "int (length (splitSlash q)) \<le> maxArchivePathComponents p" "checkComponents p (splitSlash q) = None" "n \<le> maxArchivePathBytes p"
    using assms by (auto simp: validateArchiveEntryPath_def Let_def split: if_splits option.splits)
  then have input: "input = (if kind = DirectoryEntry then q @ [slash] else q)"
    using append_butlast_last_id [of input] by (cases "kind = DirectoryEntry") auto
  then have clean: "isWellFormedUnicode q" "\<not> hasForbiddenCodePoint q"
    using q(2,3) wellformed_join [of q "[]"] forbidden_join [of q "[]"]
    unfolding input by (cases "kind = DirectoryEntry"; simp)+
  then have "canonical_path p q"
    using accepted_components [OF clean q(5,8)] q(6,7) by (simp add: canonical_path_def Let_def)
  with clean q(5,8,9) input show ?thesis by blast
qed

end

