(* ===== verification/Path_Encoding.thy ===== *)
theory Path_Encoding
  imports Path_Facts
begin

text \<open>
  The names of an archive are bytes: \<open>decodeArchiveEntryPath\<close> accepts exactly the UTF-8 encodings of the
  texts that \<open>parseArchiveEntryPath\<close> accepts.
\<close>

section \<open>Encoding\<close>

definition utf8_bytes :: "nat \<Rightarrow> nat list" where
  "utf8_bytes c = (if c < 0x80 then [c]
     else if c < 0x800 then [0xC0 + c div 64, 0x80 + c mod 64]
     else if c < 0x10000 then [0xE0 + c div 4096, 0x80 + c div 64 mod 64, 0x80 + c mod 64]
     else [0xF0 + c div 262144, 0x80 + c div 4096 mod 64, 0x80 + c div 64 mod 64, 0x80 + c mod 64])"

definition scalar_value :: "nat \<Rightarrow> bool" where
  "scalar_value c \<longleftrightarrow> c < 0x110000 \<and> \<not> (0xD800 \<le> c \<and> c < 0xE000)"

definition utf8Encode :: "js_string \<Rightarrow> nat list" where
  "utf8Encode s = concat (map utf8_bytes (code_points s))"

lemma length_utf8_bytes: "length (utf8_bytes c) = utf8_length c"
  by (simp add: utf8_bytes_def utf8_length_def)

lemma length_utf8Encode: "int (length (utf8Encode s)) = pathUtf8ByteLength s"
  by (simp add: utf8Encode_def pathUtf8ByteLength_def length_concat comp_def length_utf8_bytes)

lemma div_split: "(c::nat) = c div 4096 * 4096 + c div 64 mod 64 * 64 + c mod 64"
proof -
  have "c div 64 = c div 4096 * 64 + c div 64 mod 64" using div_mult_mod_eq [of "c div 64" 64] by (simp add: div_mult2_eq [symmetric])
  moreover have "c = c div 64 * 64 + c mod 64" by simp
  ultimately show ?thesis by linarith
qed

lemma div_split4: "(c::nat) = c div 262144 * 262144 + c div 4096 mod 64 * 4096 + c div 64 mod 64 * 64 + c mod 64"
proof -
  have "c div 4096 = c div 262144 * 64 + c div 4096 mod 64"
    using div_mult_mod_eq [of "c div 4096" 64] by (simp add: div_mult2_eq [symmetric])
  with div_split [of c] show ?thesis by linarith
qed

lemma utf8_code_point_bytes: "scalar_value c \<Longrightarrow> utf8_code_point (utf8_bytes c) = Some c"
proof -
  assume c: "scalar_value c"
  consider "c < 0x80" | "0x80 \<le> c" "c < 0x800" | "0x800 \<le> c" "c < 0x10000" | "0x10000 \<le> c" by linarith
  then show ?thesis
  proof cases
    case 2
    moreover from 2 have "c div 64 < 32" "2 \<le> c div 64" by (simp_all add: less_mult_imp_div_less div_le_mono [of 128 c 64, simplified])
    ultimately show ?thesis by (simp add: utf8_bytes_def utf8_code_point_def lead_length_def is_continuation_def Let_def)
  next
    case 3
    moreover from 3 have "c div 4096 < 16" by (simp add: less_mult_imp_div_less)
    ultimately show ?thesis using c div_split [of c]
      by (simp add: utf8_bytes_def utf8_code_point_def lead_length_def is_continuation_def Let_def scalar_value_def)
  next
    case 4
    moreover from c have "c div 262144 < 5" by (simp add: scalar_value_def less_mult_imp_div_less)
    ultimately show ?thesis using c div_split4 [of c]
      by (simp add: utf8_bytes_def utf8_code_point_def lead_length_def is_continuation_def Let_def scalar_value_def)
  qed (simp add: utf8_bytes_def utf8_code_point_def lead_length_def)
qed

lemma digits64:
  "x * 64 + y = (c::nat) \<Longrightarrow> y < 64 \<Longrightarrow> c div 64 = x \<and> c mod 64 = y"
  by auto

lemma utf8_code_point_Some: "utf8_code_point bs = Some c \<Longrightarrow> bs = utf8_bytes c \<and> scalar_value c"
proof -
  assume u: "utf8_code_point bs = Some c"
  show ?thesis
  proof (cases bs rule: utf8_value.cases)
    case (1 a)
    with u show ?thesis by (auto simp: utf8_code_point_def utf8_bytes_def scalar_value_def split: if_splits)
  next
    case (2 a b)
    with u have ab: "0xC0 \<le> a" "a < 0xE0" "0x80 \<le> b" "b < 0xC0" "(a - 0xC0) * 64 + (b - 0x80) = c" "0x80 \<le> c"
      by (auto simp: utf8_code_point_def lead_length_def is_continuation_def Let_def split: if_splits)
    with digits64 [OF ab(5)] have "c div 64 = a - 0xC0" "c mod 64 = b - 0x80" by simp_all
    moreover have "c < 0x800" using ab by arith
    ultimately show ?thesis using ab 2 by (auto simp: utf8_bytes_def scalar_value_def)
  next
    case (3 a b d)
    with u have ab: "0xE0 \<le> a" "a < 0xF0" "0x80 \<le> b" "b < 0xC0" "0x80 \<le> d" "d < 0xC0" "0x800 \<le> c"
      "(a - 0xE0) * 4096 + (b - 0x80) * 64 + (d - 0x80) = c" "\<not> (0xD800 \<le> c \<and> c < 0xE000)"
      by (auto simp: utf8_code_point_def lead_length_def is_continuation_def Let_def split: if_splits)
    have "((a - 0xE0) * 64 + (b - 0x80)) * 64 + (d - 0x80) = c" using ab(8) by simp
    from digits64 [OF this] ab(6) have c: "c div 64 = (a - 0xE0) * 64 + (b - 0x80)" "c mod 64 = d - 0x80" by simp_all
    from digits64 [OF c(1) [symmetric]] ab(4) have "c div 64 div 64 = a - 0xE0" "c div 64 mod 64 = b - 0x80" by simp_all
    moreover have "c div 64 div 64 = c div 4096" by (simp add: div_mult2_eq [symmetric])
    moreover have "\<not> c < 0x80" "\<not> c < 0x800" "c < 0x10000" using ab(1,2,4,6-8) by linarith+
    moreover have "0xE0 + (a - 0xE0) = a" "0x80 + (b - 0x80) = b" "0x80 + (d - 0x80) = d" using ab(1,3,5) by simp_all
    ultimately have "utf8_bytes c = [a, b, d]" using c(2) by (simp add: utf8_bytes_def)
    moreover have "scalar_value c" using ab(9) \<open>c < 0x10000\<close> by (simp add: scalar_value_def)
    ultimately show ?thesis using 3 by simp
  next
    case (4 a b d e)
    with u have ab: "0xF0 \<le> a" "a < 0xF8" "0x80 \<le> b" "b < 0xC0" "0x80 \<le> d" "d < 0xC0" "0x80 \<le> e" "e < 0xC0"
      "0x10000 \<le> c" "c < 0x110000" "(a - 0xF0) * 262144 + (b - 0x80) * 4096 + (d - 0x80) * 64 + (e - 0x80) = c"
      by (auto simp: utf8_code_point_def lead_length_def is_continuation_def Let_def split: if_splits)
    have "(((a - 0xF0) * 64 + (b - 0x80)) * 64 + (d - 0x80)) * 64 + (e - 0x80) = c" using ab(11) by simp
    from digits64 [OF this] ab(8) have c: "c div 64 = ((a - 0xF0) * 64 + (b - 0x80)) * 64 + (d - 0x80)" "c mod 64 = e - 0x80" by simp_all
    from digits64 [OF c(1) [symmetric]] ab(6) have d: "c div 64 div 64 = (a - 0xF0) * 64 + (b - 0x80)" "c div 64 mod 64 = d - 0x80" by simp_all
    from digits64 [OF d(1) [symmetric]] ab(4) have "c div 64 div 64 div 64 = a - 0xF0" "c div 64 div 64 mod 64 = b - 0x80" by simp_all
    moreover have "c div 64 div 64 = c div 4096" "c div 64 div 64 div 64 = c div 262144" by (simp_all add: div_mult2_eq [symmetric])
    moreover have "\<not> c < 0x80" "\<not> c < 0x800" "\<not> c < 0x10000" using ab(9) by linarith+
    moreover have "0xF0 + (a - 0xF0) = a" "0x80 + (b - 0x80) = b" "0x80 + (d - 0x80) = d" "0x80 + (e - 0x80) = e"
      using ab(1,3,5,7) by simp_all
    ultimately have "utf8_bytes c = [a, b, d, e]" using c(2) d(2) by (simp add: utf8_bytes_def)
    moreover have "scalar_value c" using ab(9,10) by (simp add: scalar_value_def)
    ultimately show ?thesis using 4 by simp
  qed (use u in \<open>auto simp: utf8_code_point_def split: if_splits\<close>)
qed

section \<open>Decoding is the inverse\<close>

lemma lead_length_bytes: "scalar_value c \<Longrightarrow> \<exists>b bs. utf8_bytes c = b # bs \<and> lead_length b = Some (length (utf8_bytes c))"
  using utf8_code_point_bytes [of c] by (cases "utf8_bytes c") (auto simp: utf8_code_point_def split: if_splits)

lemma utf8Decode_append:
  assumes "scalar_value c"
  shows "utf8Decode (utf8_bytes c @ bs) = map_option ((@) (utf16_units c)) (utf8Decode bs)"
proof -
  obtain b cs where b: "utf8_bytes c = b # cs" "lead_length b = Some (length (utf8_bytes c))"
    using lead_length_bytes [OF assms] by blast
  moreover have "take (length (utf8_bytes c)) (utf8_bytes c @ bs) = utf8_bytes c" "drop (length (utf8_bytes c)) (utf8_bytes c @ bs) = bs"
    by simp_all
  ultimately show ?thesis using utf8_code_point_bytes [OF assms] by simp
qed

text \<open>A well-formed text is the units of its code points, and these are scalar values.\<close>

lemma surrogate_pair:
  assumes "is_high_surrogate u" and "is_low_surrogate v"
  shows "utf16_units (surrogate_code_point u v) = [u, v] \<and> scalar_value (surrogate_code_point u v)"
proof -
  have uv: "0xD800 \<le> unat u" "unat u \<le> 0xDBFF" "0xDC00 \<le> unat v" "unat v \<le> 0xDFFF"
    using assms by (simp_all add: is_high_surrogate_def is_low_surrogate_def word_le_nat_alt)
  have "surrogate_code_point u v - 0x10000 = (unat u - 0xD800) * 0x400 + (unat v - 0xDC00)"
    by (simp add: surrogate_code_point_def)
  moreover have "(unat v - 0xDC00) < 0x400" using uv by simp
  ultimately have "(surrogate_code_point u v - 0x10000) div 0x400 = unat u - 0xD800"
    "(surrogate_code_point u v - 0x10000) mod 0x400 = unat v - 0xDC00" by simp_all
  moreover have "\<not> surrogate_code_point u v < 0x10000" by (simp add: surrogate_code_point_def)
  ultimately have "utf16_units (surrogate_code_point u v) = [of_nat (0xD800 + (unat u - 0xD800)), of_nat (0xDC00 + (unat v - 0xDC00))]"
    by (simp add: utf16_units_def)
  moreover have "scalar_value (surrogate_code_point u v)" using uv by (simp add: scalar_value_def surrogate_code_point_def)
  ultimately show ?thesis using uv by simp
qed

lemma single_unit:
  assumes "\<not> is_high_surrogate u" and "\<not> is_low_surrogate u"
  shows "utf16_units (unat u) = [u] \<and> scalar_value (unat u)"
proof -
  have "unat u < 2 ^ 16" using unsigned_less [of u, where 'a = nat] by simp
  with assms show ?thesis
    by (auto simp: utf16_units_def scalar_value_def is_high_surrogate_def is_low_surrogate_def word_le_nat_alt)
qed

lemma wellformed_units:
  "isWellFormedUnicode s \<Longrightarrow> concat (map utf16_units (code_points s)) = s \<and> (\<forall>c \<in> set (code_points s). scalar_value c)"
  by (induction s rule: isWellFormedUnicode.induct) (auto simp: surrogate_pair single_unit split: if_splits)

lemma utf8Decode_encoded:
  "\<forall>c \<in> set cs. scalar_value c \<Longrightarrow> utf8Decode (concat (map utf8_bytes cs)) = Some (concat (map utf16_units cs))"
  by (induction cs) (simp_all add: utf8Decode_append)

lemma utf8Decode_Encode: "isWellFormedUnicode s \<Longrightarrow> utf8Decode (utf8Encode s) = Some s"
  using wellformed_units [of s] by (simp add: utf8Encode_def utf8Decode_encoded)

text \<open>Units of a scalar value at the front of a text.\<close>

lemma units_first:
  assumes "scalar_value c"
  shows "code_points (utf16_units c @ s) = c # code_points s \<and> isWellFormedUnicode (utf16_units c @ s) = isWellFormedUnicode s"
proof (cases "c < 0x10000")
  case True
  with assms have "\<not> is_high_surrogate (of_nat c :: 16 word)" "\<not> is_low_surrogate (of_nat c :: 16 word)" "unat (of_nat c :: 16 word) = c"
    by (auto simp: scalar_value_def is_high_surrogate_def is_low_surrogate_def word_le_nat_alt unat_of_nat)
  with True show ?thesis by (cases s) (simp_all add: utf16_units_def)
next
  case False
  define h l where "h = 0xD800 + (c - 0x10000) div 0x400" and "l = 0xDC00 + (c - 0x10000) mod 0x400"
  have hl: "h \<le> 0xDBFF" "0xD800 \<le> h" "0xDC00 \<le> l" "l \<le> 0xDFFF"
    using assms by (auto simp: h_def l_def scalar_value_def)
  then have "unat (of_nat h :: 16 word) = h" "unat (of_nat l :: 16 word) = l" by (simp_all add: unat_of_nat)
  moreover from this hl have "is_high_surrogate (of_nat h :: 16 word)" "is_low_surrogate (of_nat l :: 16 word)"
    by (simp_all add: is_high_surrogate_def is_low_surrogate_def word_le_nat_alt)
  moreover have "0x10000 + (h - 0xD800) * 0x400 + (l - 0xDC00) = c" using False by (simp add: h_def l_def)
  moreover have "utf16_units c = [of_nat h, of_nat l]" using False by (simp add: utf16_units_def h_def l_def)
  ultimately show ?thesis by (simp add: surrogate_code_point_def)
qed

lemma utf8Decode_Some: "utf8Decode bs = Some s \<Longrightarrow> isWellFormedUnicode s \<and> utf8Encode s = bs"
proof (induction bs arbitrary: s rule: utf8Decode.induct)
  case 1
  then show ?case by (simp add: utf8Encode_def)
next
  case (2 b bs)
  then obtain n c t where n: "lead_length b = Some n" "utf8_code_point (take n (b # bs)) = Some c"
    "utf8Decode (drop n (b # bs)) = Some t" "s = utf16_units c @ t"
    by (auto split: option.splits)
  with 2(1) have t: "isWellFormedUnicode t \<and> utf8Encode t = drop n (b # bs)" by blast
  from utf8_code_point_Some [OF n(2)] have c: "take n (b # bs) = utf8_bytes c" "scalar_value c" by simp_all
  have "utf8_bytes c @ drop n (b # bs) = b # bs" using append_take_drop_id [of n "b # bs"] c(1) by simp
  with t units_first [OF c(2), of t] n(4) show ?case by (simp add: utf8Encode_def)
qed


section \<open>Accepted paths\<close>

lemma last_component:
  assumes "p \<noteq> []" and "last p = slash"
  shows "[] \<in> set (splitSlash p)"
proof -
  have "p = butlast p @ slash # []" using assms append_butlast_last_id [of p] by simp
  then have "splitSlash p = splitSlash (butlast p @ slash # [])" by simp
  then show ?thesis by (simp add: split_append split: list.splits)
qed

lemma first_component: "p \<noteq> [] \<Longrightarrow> hd p = slash \<Longrightarrow> [] \<in> set (splitSlash p)"
  by (cases p) auto

text \<open>A file path is accepted exactly when it is canonical and short enough.\<close>

definition accepted_file :: "ingestion_policy \<Rightarrow> js_string \<Rightarrow> bool" where
  "accepted_file p q \<longleftrightarrow> pathUtf8ByteLength q \<le> maxArchivePathBytes p \<and> isWellFormedUnicode q \<and> \<not> hasForbiddenCodePoint q \<and>
     backslash \<notin> set q \<and> \<not> hasDrivePrefix q \<and> int (length (splitSlash q)) \<le> maxArchivePathComponents p \<and>
     checkComponents p (splitSlash q) = None"

lemma parse_file_iff: "parseArchiveEntryPath q FileEntry p = Inr r \<longleftrightarrow> r = q \<and> accepted_file p q"
proof
  assume a: "parseArchiveEntryPath q FileEntry p = Inr r"
  then have "validateArchiveEntryPath q FileEntry (pathUtf8ByteLength q) p = Inr r" by (simp add: parseArchiveEntryPath_def)
  from parse_Inr [OF this] show "r = q \<and> accepted_file p q" by (auto simp: accepted_file_def canonical_path_def Let_def)
next
  assume "r = q \<and> accepted_file p q"
  then have acc: "r = q" "accepted_file p q" by simp_all
  then have "[] \<notin> set (splitSlash q)" by (auto simp: accepted_file_def checkComponents_None)
  with last_component first_component have "q \<noteq> [] \<Longrightarrow> last q \<noteq> slash \<and> hd q \<noteq> slash" by blast
  moreover have "q \<noteq> []" using \<open>[] \<notin> set (splitSlash q)\<close> by auto
  moreover have "hd q \<noteq> backslash" using acc(2) \<open>q \<noteq> []\<close> by (cases q) (auto simp: accepted_file_def)
  ultimately show "parseArchiveEntryPath q FileEntry p = Inr r"
    using acc by (simp add: parseArchiveEntryPath_def validateArchiveEntryPath_def accepted_file_def Let_def)
qed

lemma accepted_canonical:
  assumes "accepted_file p q"
  shows "canonical_path p q"
proof -
  have "validateArchiveEntryPath q FileEntry (pathUtf8ByteLength q) p = Inr q"
    using assms parse_file_iff [of q p q] by (simp add: parseArchiveEntryPath_def)
  from parse_Inr [OF this] show ?thesis by simp
qed

lemma pathUtf8ByteLength_directory: "pathUtf8ByteLength (q @ [slash]) = pathUtf8ByteLength q + 1"
  using code_points_join [of q "[]"] by (simp add: pathUtf8ByteLength_def utf8_length_def)

text \<open>
  C26. An accepted path is harmless and canonical. Whether a file or a directory, its components are
  within their limits, and whatever number of times a component is percent decoded the result is never
  empty, \<open>.\<close> or \<open>..\<close>, never holds a separator or a control character and is always well-formed
  Unicode; the path is accepted again as it is, and splitting and joining it at its slashes gives it back.
\<close>

theorem accepted_path_is_harmless:
  assumes "parseArchiveEntryPath input kind p = Inr q"
  shows "canonical_path p q \<and> parseArchiveEntryPath q FileEntry p = Inr q \<and> joinSlash (splitSlash q) = q \<and>
    input = (if kind = DirectoryEntry then q @ [slash] else q)"
proof -
  from assms have "validateArchiveEntryPath input kind (pathUtf8ByteLength input) p = Inr q" by (simp add: parseArchiveEntryPath_def)
  note q = parse_Inr [OF this]
  then have "pathUtf8ByteLength q \<le> maxArchivePathBytes p" by (auto simp: pathUtf8ByteLength_directory split: if_splits)
  with q have "accepted_file p q" by (auto simp: accepted_file_def canonical_path_def Let_def)
  with q show ?thesis by (simp add: parse_file_iff)
qed

text \<open>
  C27. The check for encoded hazards is exact: its loop, bounded by the length of the text, finds a hazard
  exactly when after some number of decodings an escape hides a separator, cannot be decoded, or decodes
  to a dot segment, a separator, a control character or ill-formed text. The bound decides for the empty text
  alone, which no caller passes and which counts as a hazard.
\<close>

theorem hazard_check_is_exact:
  "hasEncodedPathHazard v \<longleftrightarrow> v = [] \<or> (\<exists>n c. decodings n v = Some c \<and> shows_hazard c)"
proof (cases "v = []")
  case True
  have "hasEncodedPathHazard []" by (simp add: hasEncodedPathHazard_def)
  with True show ?thesis by simp
qed (simp add: hazard_iff)

text \<open>
  Bytes and texts agree: the bytes of an entry name are accepted exactly when they are the UTF-8
  encoding of a text that is accepted as a path, and give the same path.
\<close>

theorem entry_name_bytes_are_utf8:
  "decodeArchiveEntryPath bs kind p = Inr q \<longleftrightarrow>
     (\<exists>s. bs = utf8Encode s \<and> isWellFormedUnicode s \<and> parseArchiveEntryPath s kind p = Inr q)"
proof
  assume d: "decodeArchiveEntryPath bs kind p = Inr q"
  then obtain s where s: "utf8Decode bs = Some s" "validateArchiveEntryPath s kind (int (length bs)) p = Inr q"
    by (auto simp: decodeArchiveEntryPath_def split: if_splits option.splits)
  from utf8Decode_Some [OF s(1)] s(2)
  show "\<exists>s. bs = utf8Encode s \<and> isWellFormedUnicode s \<and> parseArchiveEntryPath s kind p = Inr q"
    by (intro exI [of _ s]) (simp add: parseArchiveEntryPath_def length_utf8Encode [symmetric])
next
  assume "\<exists>s. bs = utf8Encode s \<and> isWellFormedUnicode s \<and> parseArchiveEntryPath s kind p = Inr q"
  then obtain s where s: "bs = utf8Encode s" "isWellFormedUnicode s" "parseArchiveEntryPath s kind p = Inr q" by blast
  then have "validateArchiveEntryPath s kind (int (length bs)) p = Inr q" by (simp add: parseArchiveEntryPath_def length_utf8Encode)
  moreover from parse_Inr [OF this] have "\<not> maxArchivePathBytes p < int (length bs)" by simp
  ultimately show "decodeArchiveEntryPath bs kind p = Inr q"
    using s(1) utf8Decode_Encode [OF s(2)] by (simp add: decodeArchiveEntryPath_def)
qed

lemma collisionsAmong_iff:
  assumes "\<forall>q \<in> exactPaths. normalizeNFC u q \<in> normalizedPaths" and "\<forall>n \<in> normalizedPaths. caseFoldPath u n \<in> foldedPaths"
  shows "collisionsAmong u ps exactPaths normalizedPaths foldedPaths =
    (if distinct (map (\<lambda>q. caseFoldPath u (normalizeNFC u q)) ps) \<and>
        (\<forall>q \<in> set ps. caseFoldPath u (normalizeNFC u q) \<notin> foldedPaths) then Inr () else Inl PathUnsafeEntry)"
  using assms
proof (induction ps arbitrary: exactPaths normalizedPaths foldedPaths)
  case (Cons q ps)
  let ?n = "normalizeNFC u q" and ?f = "caseFoldPath u (normalizeNFC u q)"
  have "?f \<in> foldedPaths" if "q \<in> exactPaths \<or> ?n \<in> normalizedPaths \<or> ?f \<in> foldedPaths" using that Cons.prems by blast
  then have hit: "(q \<in> exactPaths \<or> ?n \<in> normalizedPaths \<or> ?f \<in> foldedPaths) = (?f \<in> foldedPaths)" by blast
  have "collisionsAmong u ps (insert q exactPaths) (insert ?n normalizedPaths) (insert ?f foldedPaths) =
    (if distinct (map (\<lambda>q. caseFoldPath u (normalizeNFC u q)) ps) \<and>
        (\<forall>q \<in> set ps. caseFoldPath u (normalizeNFC u q) \<notin> insert ?f foldedPaths) then Inr () else Inl PathUnsafeEntry)"
    using Cons.prems by (intro Cons.IH) auto
  moreover have "?f \<notin> set (map (\<lambda>q. caseFoldPath u (normalizeNFC u q)) ps) \<longleftrightarrow> (\<forall>q \<in> set ps. caseFoldPath u (normalizeNFC u q) \<noteq> ?f)"
    by (auto simp: image_iff)
  ultimately show ?case by (simp add: Let_def hit del: set_map)
qed simp

text \<open>
  Collisions are found exactly: a list of entry paths passes when no two of them have the same case-folded
  normal form, and then no two are equal or have the same normal form either, so the three sets of the loop
  come down to one.
\<close>

theorem collision_check_is_exact:
  "assertNoArchivePathCollisions u ps =
     (if distinct (map (\<lambda>q. caseFoldPath u (normalizeNFC u q)) ps) then Inr () else Inl PathUnsafeEntry)"
  by (simp add: assertNoArchivePathCollisions_def collisionsAmong_iff)

section \<open>A path to try them on\<close>

definition sample_path :: js_string where
  "sample_path = [97, 37, 50, 48]"

lemma sample_escape: "escapedCodePoint [37, 50, 48] = Some (32, [])"
  by (simp add: escapedCodePoint_def hex_value_def lead_length_def utf8_code_point_def)

lemma sample_path_decodes: "decodeURIComponent sample_path = Some [97, 32]"
  by (simp add: sample_path_def sample_escape utf16_units_def)

lemma sample_hazard: "\<not> hasEncodedPathHazard sample_path"
proof -
  have "length sample_path = 4" "hasPercentEscape sample_path" "\<not> hasEncodedSeparator sample_path"
    by (simp_all add: sample_path_def hex_value_def)
  moreover have "\<not> revealsHazard [97, 32]" "\<not> hasPercentEscape [97, 32]" "[97, 32] \<noteq> sample_path"
    by (simp_all add: revealsHazard_def hasForbiddenCodePoint_def is_high_surrogate_def is_low_surrogate_def sample_path_def)
  ultimately have "\<not> hazardLayers (Suc (Suc n)) sample_path" for n using sample_path_decodes by simp
  from this [of 2] have "\<not> hazardLayers 4 sample_path" by simp
  moreover have "length sample_path = 4" by (simp add: sample_path_def)
  ultimately show ?thesis by (simp only: hasEncodedPathHazard_def simp_thms)
qed

lemma sample_path_split: "splitSlash sample_path = [sample_path]" "sample_path \<noteq> []" "sample_path \<noteq> [dot]" "sample_path \<noteq> [dot, dot]"
  by (simp_all add: sample_path_def)

lemma sample_accepted: "accepted_file DEFAULT_EPUB_INGESTION_POLICY sample_path"
proof -
  have "code_points sample_path = [97, 37, 50, 48]" by (simp add: sample_path_def is_high_surrogate_def)
  then have "pathUtf8ByteLength sample_path = 4" "\<not> hasForbiddenCodePoint sample_path"
    by (simp_all add: pathUtf8ByteLength_def utf8_length_def hasForbiddenCodePoint_def)
  moreover have "isWellFormedUnicode sample_path" "splitSlash sample_path = [sample_path]" "\<not> hasDrivePrefix sample_path"
    "backslash \<notin> set sample_path" "sample_path \<notin> {[], [dot], [dot, dot]}"
    by (simp_all add: sample_path_def is_high_surrogate_def is_low_surrogate_def)
  ultimately show ?thesis
    using sample_hazard by (simp add: accepted_file_def DEFAULT_EPUB_INGESTION_POLICY_def)
qed

theorem accepted_path_is_harmless_witness: "canonical_path DEFAULT_EPUB_INGESTION_POLICY sample_path"
  using accepted_path_is_harmless [of sample_path FileEntry DEFAULT_EPUB_INGESTION_POLICY sample_path] sample_accepted
  by (simp add: parse_file_iff)

theorem hazard_check_is_exact_witness: "\<not> (\<exists>n c. decodings n sample_path = Some c \<and> shows_hazard c)"
  using hazard_check_is_exact [of sample_path] sample_hazard by blast

end
