(* ===== verification/Ocf_Reference.thy ===== *)
theory Ocf_Reference
  imports Path_Encoding
begin

text \<open>
  packages/epub/src/paths/ocf-reference.ts: references inside a publication. A reference is parsed once,
  into decoded components and a fragment, and resolved against the document that holds it; what it
  resolves to is an archive path again, so it cannot leave the archive.
\<close>

section \<open>Parsing\<close>

record ocf_reference =
  relativePath :: js_string
  referenceFragment :: "js_string option"

abbreviation hash :: "16 word" where "hash \<equiv> 35"
abbreviation question :: "16 word" where "question \<equiv> 63"

definition hasControlCodePoint :: "js_string \<Rightarrow> bool" where
  "hasControlCodePoint s = list_ex (\<lambda>c. c \<le> 0x1f \<or> (0x7f \<le> c \<and> c \<le> 0x9f) \<or> c = 0xfeff) (code_points s)"

definition decodeReferencePart :: "js_string \<Rightarrow> path_error + js_string" where
  "decodeReferencePart v = (case decodeURIComponent v of
       None \<Rightarrow> Inl PathBrokenReference
     | Some decoded \<Rightarrow>
         if \<not> isWellFormedUnicode decoded \<or> hasControlCodePoint decoded then Inl PathBrokenReference else Inr decoded)"

text \<open>\<open>/^[a-z][a-z0-9+.-]*:/iu\<close>\<close>

definition is_scheme_unit :: "16 word \<Rightarrow> bool" where
  "is_scheme_unit u \<longleftrightarrow> is_letter_iu u \<or> (48 \<le> u \<and> u \<le> 57) \<or> u = 43 \<or> u = 45 \<or> u = 46"

definition hasScheme :: "js_string \<Rightarrow> bool" where
  "hasScheme s = (case s of [] \<Rightarrow> False
     | u # us \<Rightarrow> is_letter_iu u \<and> (case dropWhile is_scheme_unit us of [] \<Rightarrow> False | v # _ \<Rightarrow> v = 58))"

definition decodeComponent :: "nat \<Rightarrow> js_string \<Rightarrow> path_error + js_string" where
  "decodeComponent i c =
     (if c = [] then Inl PathBrokenReference
      else bindE (decodeReferencePart c) (\<lambda>d.
        if slash \<in> set d \<or> backslash \<in> set d \<or> (i = 0 \<and> hasScheme d) \<or>
           (d \<noteq> c \<and> (d = [dot] \<or> d = [dot, dot])) \<or> hasEncodedPathHazard d
        then Inl PathBrokenReference else Inr d))"

fun decodeComponents :: "nat \<Rightarrow> js_string list \<Rightarrow> path_error + js_string list" where
  "decodeComponents i [] = Inr []"
| "decodeComponents i (c # cs) =
     bindE (decodeComponent i c) (\<lambda>d. bindE (decodeComponents (Suc i) cs) (\<lambda>ds. Inr (d # ds)))"

definition decodeFragment :: "js_string option \<Rightarrow> path_error + js_string option" where
  "decodeFragment raw = (case raw of
       None \<Rightarrow> Inr None
     | Some r \<Rightarrow> bindE (decodeReferencePart r) (\<lambda>f. if backslash \<in> set f then Inl PathBrokenReference else Inr (Some f)))"

definition parseOcfReference :: "js_string \<Rightarrow> ingestion_policy \<Rightarrow> path_error + ocf_reference" where
  "parseOcfReference input p =
     (if \<not> isWellFormedUnicode input \<or> hasControlCodePoint input \<or> backslash \<in> set input then Inl PathBrokenReference
      else let pathPart = takeWhile (\<lambda>u. u \<noteq> hash) input;
          rawFragment = (case dropWhile (\<lambda>u. u \<noteq> hash) input of [] \<Rightarrow> None | _ # f \<Rightarrow> Some f) in
        if maxArchivePathBytes p < pathUtf8ByteLength pathPart then Inl PathResourceLimit
        else if question \<in> set pathPart \<or> (pathPart \<noteq> [] \<and> hd pathPart = slash) \<or> hasScheme pathPart
        then Inl PathBrokenReference
        else bindE (if pathPart = [] then Inr [] else decodeComponents 0 (splitSlash pathPart)) (\<lambda>components.
          bindE (decodeFragment rawFragment) (\<lambda>fragment.
          Inr \<lparr>relativePath = joinSlash components, referenceFragment = fragment\<rparr>)))"

section \<open>Resolving\<close>

record resolved_reference =
  resolvedPath :: js_string
  resolvedFragment :: "js_string option"

text \<open>The loop over the components of the reference: \<open>None\<close> when it climbs out of the archive.\<close>

fun followComponents :: "js_string list \<Rightarrow> js_string list \<Rightarrow> js_string list option" where
  "followComponents base [] = Some base"
| "followComponents base (c # cs) =
     (if c = [dot] then followComponents base cs
      else if c = [dot, dot] then (if base = [] then None else followComponents (butlast base) cs)
      else followComponents (base @ [c]) cs)"

definition resolvePath :: "js_string \<Rightarrow> js_string \<Rightarrow> ingestion_policy \<Rightarrow> path_error + js_string" where
  "resolvePath baseDocument relative p =
     (if relative = [] then Inr baseDocument
      else let components = splitSlash relative in
        if last components = [dot] \<or> last components = [dot, dot] then Inl PathBrokenReference
        else case followComponents (butlast (splitSlash baseDocument)) components of
          None \<Rightarrow> Inl PathBrokenReference
        | Some resolved \<Rightarrow> (case parseArchiveEntryPath (joinSlash resolved) FileEntry p of
              Inl PathResourceLimit \<Rightarrow> Inl PathResourceLimit
            | Inl _ \<Rightarrow> Inl PathBrokenReference
            | Inr path \<Rightarrow> Inr path))"

definition resolveOcfReference :: "js_string \<Rightarrow> ocf_reference \<Rightarrow> ingestion_policy \<Rightarrow> path_error + resolved_reference" where
  "resolveOcfReference baseDocument reference p =
     bindE (resolvePath baseDocument (relativePath reference) p) (\<lambda>path.
     Inr \<lparr>resolvedPath = path, resolvedFragment = referenceFragment reference\<rparr>)"

section \<open>Staying inside\<close>

text \<open>How deep a list of components ends, if it never climbs above where it started.\<close>

fun depth :: "int \<Rightarrow> js_string list \<Rightarrow> int option" where
  "depth n [] = Some n"
| "depth n (c # cs) =
     (if c = [dot] then depth n cs
      else if c = [dot, dot] then (if n = 0 then None else depth (n - 1) cs)
      else depth (n + 1) cs)"

lemma followComponents_depth: "map_option (\<lambda>r. int (length r)) (followComponents base cs) = depth (int (length base)) cs"
proof (induction cs arbitrary: base)
  case (Cons c cs)
  show ?case
  proof (cases "c = [dot, dot] \<and> base \<noteq> []")
    case True
    then have "int (length (butlast base)) = int (length base) - 1" by (simp add: of_nat_diff Suc_leI)
    with True Cons.IH [of "butlast base"] show ?thesis by simp
  next
    case False
    with Cons.IH [of base] Cons.IH [of "base @ [c]"] show ?thesis by (auto simp: add.commute)
  qed
qed simp

lemma followComponents_append:
  "followComponents base (cs @ ds) = (case followComponents base cs of None \<Rightarrow> None | Some b \<Rightarrow> followComponents b ds)"
  by (induction base cs rule: followComponents.induct) auto

lemma followComponents_plain:
  "\<forall>c \<in> set cs. c \<noteq> [dot] \<and> c \<noteq> [dot, dot] \<Longrightarrow> followComponents base cs = Some (base @ cs)"
  by (induction cs arbitrary: base) auto

lemma followComponents_climb: "followComponents base (replicate (length base) [dot, dot]) = Some []"
proof (induction "length base" arbitrary: base)
  case (Suc n)
  then show ?case using Suc.hyps(1) [of "butlast base"] by (cases base rule: rev_cases) auto
qed simp


lemma accepted_components_plain:
  "accepted_file p q \<Longrightarrow> c \<in> set (splitSlash q) \<Longrightarrow> c \<noteq> [] \<and> c \<noteq> [dot] \<and> c \<noteq> [dot, dot] \<and> slash \<notin> set c"
  by (auto simp: accepted_file_def checkComponents_None dest: split_no_slash)

lemma resolvePath_Inr:
  assumes "accepted_file p base" and "resolvePath base relative p = Inr q"
  shows "accepted_file p q \<and> (relative \<noteq> [] \<longrightarrow>
    depth (int (length (splitSlash base)) - 1) (splitSlash relative) = Some (int (length (splitSlash q))))"
proof (cases "relative = []")
  case True
  with assms show ?thesis by (simp add: resolvePath_def)
next
  case False
  let ?dir = "butlast (splitSlash base)"
  from False assms(2) obtain resolved where r: "followComponents ?dir (splitSlash relative) = Some resolved"
    "parseArchiveEntryPath (joinSlash resolved) FileEntry p = Inr q"
    by (auto simp: resolvePath_def Let_def split: if_splits option.splits sum.splits path_error.splits)
  then have q: "q = joinSlash resolved" "accepted_file p q" by (auto simp: parse_file_iff)
  have plain: "\<forall>c \<in> set resolved. slash \<notin> set c"
  proof -
    have "\<forall>c \<in> set b. slash \<notin> set c"
      if "followComponents a cs = Some b" "\<forall>c \<in> set a. slash \<notin> set c" "\<forall>c \<in> set cs. slash \<notin> set c" for a b cs
      using that by (induction a cs rule: followComponents.induct) (auto split: if_splits dest: in_set_butlastD)
    moreover have "\<forall>c \<in> set ?dir. slash \<notin> set c" by (auto dest: in_set_butlastD split_no_slash)
    ultimately show ?thesis using r(1) split_no_slash by blast
  qed
  have "resolved \<noteq> []"
  proof
    assume "resolved = []"
    with q have "accepted_file p []" by simp
    then show False by (simp add: accepted_file_def checkComponents_None)
  qed
  with plain q(1) have "splitSlash q = resolved" by (simp add: split_join)
  moreover have "int (length ?dir) = int (length (splitSlash base)) - 1" by (simp add: of_nat_diff Suc_leI)
  ultimately show ?thesis using followComponents_depth [of ?dir "splitSlash relative"] r(1) q(2) by simp
qed

text \<open>
  C28. A reference never leaves the archive: whatever the reference, when it resolves from a document of the
  archive, what it resolves to is an accepted archive path again, its fragment is that of the reference,
  and no prefix of its components climbs above the root. Every failure is a broken reference or an exceeded
  limit.
\<close>

theorem resolved_reference_stays_inside:
  assumes "parseArchiveEntryPath base FileEntry p = Inr base"
  shows "case resolveOcfReference base reference p of
      Inr r \<Rightarrow> parseArchiveEntryPath (resolvedPath r) FileEntry p = Inr (resolvedPath r) \<and> canonical_path p (resolvedPath r) \<and>
        resolvedFragment r = referenceFragment reference \<and>
        (relativePath reference \<noteq> [] \<longrightarrow>
          depth (int (length (splitSlash base)) - 1) (splitSlash (relativePath reference)) = Some (int (length (splitSlash (resolvedPath r)))))
    | Inl e \<Rightarrow> e \<in> {PathBrokenReference, PathResourceLimit}"
proof (cases "resolvePath base (relativePath reference) p")
  case (Inr q)
  from assms have base: "accepted_file p base" by (simp add: parse_file_iff)
  note q = resolvePath_Inr [OF base Inr]
  with Inr accepted_canonical [of p q] show ?thesis by (simp add: resolveOcfReference_def parse_file_iff)
next
  case (Inl e)
  then have "e \<in> {PathBrokenReference, PathResourceLimit}"
    by (auto simp: resolvePath_def Let_def split: if_splits option.splits sum.splits path_error.splits)
  with Inl show ?thesis by (auto simp: resolveOcfReference_def)
qed

text \<open>
  Every file is reachable from every document: climbing from the directory of the document to the
  root and then following the components of the file resolves to exactly that file, with the fragment of
  the reference.
\<close>

theorem every_file_is_reachable:
  assumes "parseArchiveEntryPath base FileEntry p = Inr base" and "parseArchiveEntryPath q FileEntry p = Inr q"
  shows "resolveOcfReference base
      \<lparr>relativePath = joinSlash (replicate (length (splitSlash base) - 1) [dot, dot] @ splitSlash q), referenceFragment = f\<rparr> p =
    Inr \<lparr>resolvedPath = q, resolvedFragment = f\<rparr>"
proof -
  let ?up = "replicate (length (splitSlash base) - 1) [dot, dot]" and ?dir = "butlast (splitSlash base)"
  let ?cs = "?up @ splitSlash q"
  have q: "accepted_file p q" using assms(2) by (simp add: parse_file_iff)
  note plain = accepted_components_plain [OF q]
  have cs: "splitSlash (joinSlash ?cs) = ?cs" using plain by (intro split_join) auto
  have "last (splitSlash q) \<in> set (splitSlash q)" by simp
  with plain have last: "last ?cs \<noteq> [dot]" "last ?cs \<noteq> [dot, dot]" by auto
  have "followComponents ?dir ?up = Some []" using followComponents_climb [of ?dir] by simp
  then have "followComponents ?dir ?cs = Some (splitSlash q)"
    using plain followComponents_plain [of "splitSlash q" "[]"] by (simp add: followComponents_append)
  moreover have "joinSlash ?cs \<noteq> []"
  proof
    assume "joinSlash ?cs = []"
    with cs have "?cs = [[]]" by simp
    with plain show False by (cases "?up") auto
  qed
  ultimately have "resolvePath base (joinSlash ?cs) p = Inr q" using cs last assms(2) by (simp add: resolvePath_def)
  then show ?thesis by (simp add: resolveOcfReference_def)
qed

section \<open>A reference to try them on\<close>

lemma sample_parses: "parseArchiveEntryPath sample_path FileEntry DEFAULT_EPUB_INGESTION_POLICY = Inr sample_path"
  using sample_accepted by (simp add: parse_file_iff)

lemma sample_resolution:
  "resolveOcfReference sample_path \<lparr>relativePath = sample_path, referenceFragment = Some (js ''n1'')\<rparr> DEFAULT_EPUB_INGESTION_POLICY =
     Inr \<lparr>resolvedPath = sample_path, resolvedFragment = Some (js ''n1'')\<rparr>"
  using sample_parses by (simp add: resolveOcfReference_def resolvePath_def sample_path_split)

theorem resolved_reference_stays_inside_witness: "canonical_path DEFAULT_EPUB_INGESTION_POLICY sample_path"
  using resolved_reference_stays_inside [OF sample_parses, of "\<lparr>relativePath = sample_path, referenceFragment = Some (js ''n1'')\<rparr>"]
  unfolding sample_resolution by simp

theorem every_file_is_reachable_witness:
  "\<exists>relative. resolveOcfReference sample_path \<lparr>relativePath = relative, referenceFragment = None\<rparr> DEFAULT_EPUB_INGESTION_POLICY =
     Inr \<lparr>resolvedPath = sample_path, resolvedFragment = None\<rparr>"
  using every_file_is_reachable [OF sample_parses sample_parses, of None] by blast

end
