(* ===== verification/Archive_Entry.thy ===== *)
theory Archive_Entry
  imports Path_Encoding Processing_Budget
begin

text \<open>
  packages/epub/src/archive/archive-inventory.ts, the part that deals with one entry of an archive: what
  is taken over from the directory of the ZIP file (\<open>createCandidateEntry\<close>) and how the contents of an
  entry are read within the budget (\<open>BoundedArchiveEntryWriter\<close>, \<open>readCandidateData\<close>). The ZIP reader
  is a library: an entry is the record of what it reports, and a call of \<open>getData\<close> is the list of what
  the library does with the objects it was handed, in its own order, with the way the call ends.
\<close>

section \<open>The ZIP reader\<close>

text \<open>
  Everything that can be thrown while an archive is read: an \<open>EpubArchiveError\<close>, an \<open>EpubPathError\<close>, or
  an error of the library, of which two are told apart by their message.
\<close>

datatype thrown =
    ArchiveThrows epub_error | PathThrows path_error | UnsafeFilename | UnsupportedUint64 | OtherThrow

text \<open>
  What a call of \<open>getData\<close> does: it calls back (\<open>onstart\<close>, \<open>onprogress\<close>, \<open>onend\<close>), and either lets an
  exception of the callback through or swallows it; it writes a chunk, which is \<open>None\<close> when it is not a
  \<open>Uint8Array\<close>; it closes or aborts the stream. The call ends with a failure of its own, if any. When
  something it called has thrown, it rejects with that exception or with another one of its own.
\<close>

datatype zip_event = ZipCallback bool | ZipWrite "bytes option" | ZipClose | ZipAbort

record zip_call =
  callEvents :: "zip_event list"
  callFailure :: "thrown option"
  callSubstitute :: "thrown option"

record zip_entry =
  zipDirectory :: bool
  zipEncrypted :: bool
  zipRawFilename :: bytes
  zipFilename :: js_string
  zipOffset :: js_number
  zipCompressedSize :: js_number
  zipUncompressedSize :: js_number
  zipDiskNumberStart :: js_number
  zipCrc32 :: "js_number option"
  zipExternalFileAttributes :: "32 word"
  zipCompressionMethod :: int
  zipZip64 :: bool
  zipHasGetData :: bool
  zipStructureCall :: zip_call
  zipFirstRead :: zip_call

text \<open>A callback of the library, whose exception it lets through or swallows.\<close>

definition calledBack :: "bool \<Rightarrow> ('s, 'e, unit) prog \<Rightarrow> ('s, 'e, unit) prog" where
  "calledBack letsThrough m s = (case m s of
       (Inl e, t) \<Rightarrow> (if letsThrough then Inl e else Inr (), t)
     | (Inr u, t) \<Rightarrow> (Inr u, t))"

lemma wp_calledBack [wp_simps]:
  "wp (calledBack letsThrough m) Q E s = wp m Q (\<lambda>e t. if letsThrough then E e t else Q () t) s"
  by (auto simp: wp_def calledBack_def split: prod.splits sum.splits)

section \<open>Entries of the inventory\<close>

datatype compression_method = Deflate | Stored

record archive_entry =
  archivePath :: js_string
  archiveKind :: entry_kind
  archiveMethod :: compression_method
  archiveCompressedSize :: int
  archiveUncompressedSize :: int
  archiveCrc32 :: int
  archiveOffset :: int
  archiveZip64 :: bool

record candidate_entry =
  inventoryEntry :: archive_entry
  candidateSource :: zip_entry

definition COMPRESSION_METHOD_STORE :: int where "COMPRESSION_METHOD_STORE = 0"
definition COMPRESSION_METHOD_DEFLATE :: int where "COMPRESSION_METHOD_DEFLATE = 8"
definition UNIX_FILE_TYPE_MASK :: "32 word" where "UNIX_FILE_TYPE_MASK = 0xf000"
definition UNIX_FILE_TYPE_DIRECTORY :: "32 word" where "UNIX_FILE_TYPE_DIRECTORY = 0x4000"
definition UNIX_FILE_TYPE_REGULAR :: "32 word" where "UNIX_FILE_TYPE_REGULAR = 0x8000"

definition assertArchiveInteger :: "js_number \<Rightarrow> thrown + int" where
  "assertArchiveInteger x =
     (if number_is_count x then Inr (integral_part x) else Inl (ArchiveThrows ResourceLimitExceeded))"

unbundle bit_operations_syntax

definition readEntryKind :: "zip_entry \<Rightarrow> thrown + entry_kind" where
  "readEntryKind e =
     (let unixFileType = drop_bit 16 (zipExternalFileAttributes e) AND UNIX_FILE_TYPE_MASK in
      if unixFileType \<noteq> 0 \<and> unixFileType \<noteq> UNIX_FILE_TYPE_DIRECTORY \<and> unixFileType \<noteq> UNIX_FILE_TYPE_REGULAR
      then Inl (ArchiveThrows UnsafeEntry)
      else if zipDirectory e then
        (if unixFileType = UNIX_FILE_TYPE_REGULAR then Inl (ArchiveThrows UnsafeEntry) else Inr DirectoryEntry)
      else if unixFileType = UNIX_FILE_TYPE_DIRECTORY then Inl (ArchiveThrows UnsafeEntry)
      else Inr FileEntry)"

definition readCompressionMethod :: "int \<Rightarrow> thrown + compression_method" where
  "readCompressionMethod m =
     (if m = COMPRESSION_METHOD_STORE then Inr Stored
      else if m = COMPRESSION_METHOD_DEFLATE then Inr Deflate
      else Inl (ArchiveThrows InvalidContainer))"

text \<open>The check of the checksum: \<open>undefined\<close>, a fraction and a value outside 32 bits are refused.\<close>

fun readCrc32 :: "js_number option \<Rightarrow> thrown + int" where
  "readCrc32 (Some (Integral n)) = (if n < 0 \<or> 0xffffffff < n then Inl (ArchiveThrows InvalidContainer) else Inr n)"
| "readCrc32 _ = Inl (ArchiveThrows InvalidContainer)"

definition createCandidateEntry :: "zip_entry \<Rightarrow> int \<Rightarrow> ingestion_policy \<Rightarrow> thrown + candidate_entry" where
  "createCandidateEntry e archiveByteLength p =
     bindE (assertArchiveInteger (zipOffset e)) (\<lambda>position.
     bindE (assertArchiveInteger (zipCompressedSize e)) (\<lambda>compressedSize.
     bindE (assertArchiveInteger (zipUncompressedSize e)) (\<lambda>uncompressedSize.
     bindE (assertArchiveInteger (zipDiskNumberStart e)) (\<lambda>disk.
     if disk \<noteq> 0 \<or> archiveByteLength \<le> position then Inl (ArchiveThrows InvalidContainer)
     else if zipEncrypted e then Inl (ArchiveThrows UnsupportedProtection)
     else bindE (readCrc32 (zipCrc32 e)) (\<lambda>crc32.
     bindE (readEntryKind e) (\<lambda>kind.
     case decodeArchiveEntryPath (map unat (zipRawFilename e)) kind p of
       Inl pe \<Rightarrow> Inl (PathThrows pe)
     | Inr path \<Rightarrow>
         let expectedDecodedFilename = (if kind = DirectoryEntry then path @ [slash] else path) in
         if zipFilename e \<noteq> expectedDecodedFilename then Inl (ArchiveThrows UnsafeEntry)
         else bindE (readCompressionMethod (zipCompressionMethod e)) (\<lambda>compressionMethod.
           if kind = DirectoryEntry \<and> (compressionMethod \<noteq> Stored \<or> compressedSize \<noteq> 0 \<or> uncompressedSize \<noteq> 0)
           then Inl (ArchiveThrows UnsafeEntry)
           else Inr \<lparr>inventoryEntry = \<lparr>archivePath = path, archiveKind = kind, archiveMethod = compressionMethod,
               archiveCompressedSize = compressedSize, archiveUncompressedSize = uncompressedSize,
               archiveCrc32 = crc32, archiveOffset = position, archiveZip64 = zipZip64 e\<rparr>,
             candidateSource = e\<rparr>)))))))"

section \<open>Reading an entry\<close>

text \<open>\<open>checkpointOperation\<close>: \<open>callerAborted n\<close> is what a look at the caller's signal sees beside look n of the budget.\<close>

definition checkpointOperation :: "(nat \<Rightarrow> bool) \<Rightarrow> unit budget_prog" where
  "checkpointOperation callerAborted b =
     (if callerAborted (looked b) then (Inl Cancelled, b) else checkpoint b)"

record entry_writer =
  expectedSize :: nat
  writerRead :: entry_read
  writerData :: "bytes option"
  writerOffset :: nat
  writerComplete :: bool
  writerFailure :: "epub_error option"

type_synonym 'a writer_prog = "(entry_writer, thrown, 'a) prog"

definition onRead :: "'a read_prog \<Rightarrow> 'a writer_prog" where
  "onRead m w = (case failing ArchiveThrows m (writerRead w) of (x, r) \<Rightarrow> (x, w\<lparr>writerRead := r\<rparr>))"

definition discardWriter :: "entry_writer \<Rightarrow> entry_writer" where
  "discardWriter w = w\<lparr>writerData := None, writerOffset := 0, writerComplete := False\<rparr>"

definition captureFailure :: "unit writer_prog \<Rightarrow> unit writer_prog" where
  "captureFailure action w = (case action w of
       (Inl (ArchiveThrows e), w) \<Rightarrow> (Inl (ArchiveThrows e), w\<lparr>writerFailure := Some e\<rparr>)
     | r \<Rightarrow> r)"

definition writerWrite :: "bytes option \<Rightarrow> unit writer_prog" where
  "writerWrite chunk = andThen (gets writerData) (\<lambda>data. case (chunk, data) of
       (Some bs, Some ds) \<Rightarrow>
         andThen (onRead (observe (Integral (int (length bs))))) (\<lambda>_ w.
           if expectedSize w - writerOffset w < length bs then (Inl (ArchiveThrows InvalidContainer), discardWriter w)
           else (Inr (), w\<lparr>writerData := Some (take (writerOffset w) ds @ bs @ drop (writerOffset w + length bs) ds),
             writerOffset := writerOffset w + length bs\<rparr>))
     | _ \<Rightarrow> raise (ArchiveThrows InvalidContainer))"

definition writerClose :: "unit writer_prog" where
  "writerClose = andThen (onRead (onBudget checkpoint)) (\<lambda>_ w.
     if writerData w = None \<or> writerOffset w \<noteq> expectedSize w then (Inl (ArchiveThrows InvalidContainer), discardWriter w)
     else (Inr (), w\<lparr>writerComplete := True\<rparr>))"

definition takeData :: "bytes writer_prog" where
  "takeData w = (case writerData w of
       Some ds \<Rightarrow> if writerComplete w then (Inr ds, w\<lparr>writerData := None\<rparr>) else (Inl (ArchiveThrows InternalFailure), w)
     | None \<Rightarrow> (Inl (ArchiveThrows InternalFailure), w))"

text \<open>The constructor: the stream calls \<open>start\<close> at once, and what \<open>start\<close> throws the constructor throws.\<close>

definition createWriter :: "entry_read \<Rightarrow> (thrown + unit) \<times> entry_writer" where
  "createWriter r = captureFailure (onRead (onBudget checkpoint))
     \<lparr>expectedSize = nat (declaredSizeOf r), writerRead = r, writerData = Some (replicate (nat (declaredSizeOf r)) 0),
       writerOffset = 0, writerComplete = False, writerFailure = None\<rparr>"

fun runEvents :: "(nat \<Rightarrow> bool) \<Rightarrow> zip_event list \<Rightarrow> unit writer_prog" where
  "runEvents callerAborted [] = ok ()"
| "runEvents callerAborted (ZipCallback letsThrough # es) =
     andThen (calledBack letsThrough (onRead (onBudget (checkpointOperation callerAborted)))) (\<lambda>_. runEvents callerAborted es)"
| "runEvents callerAborted (ZipWrite chunk # es) =
     andThen (captureFailure (writerWrite chunk)) (\<lambda>_. runEvents callerAborted es)"
| "runEvents callerAborted (ZipClose # es) = andThen (captureFailure writerClose) (\<lambda>_. runEvents callerAborted es)"
| "runEvents callerAborted (ZipAbort # es) = andThen (modify discardWriter) (\<lambda>_. runEvents callerAborted es)"

text \<open>How a call ends, given what became of the objects it called.\<close>

definition callEnds :: "zip_call \<Rightarrow> thrown + unit \<Rightarrow> thrown + unit" where
  "callEnds c r = (case r of
       Inl e \<Rightarrow> Inl (case callSubstitute c of None \<Rightarrow> e | Some d \<Rightarrow> d)
     | Inr u \<Rightarrow> (case callFailure c of None \<Rightarrow> Inr u | Some d \<Rightarrow> Inl d))"

definition getData :: "(nat \<Rightarrow> bool) \<Rightarrow> zip_call \<Rightarrow> unit writer_prog" where
  "getData callerAborted c w = (case runEvents callerAborted (callEvents c) w of (r, w) \<Rightarrow> (callEnds c r, w))"

text \<open>\<open>readCandidateData\<close> up to the call of \<open>getData\<close>, and from it on.\<close>

definition beginCandidateRead :: "candidate_entry \<Rightarrow> js_number option \<Rightarrow> (budget, thrown, entry_writer) prog" where
  "beginCandidateRead c maximumBytes =
     andThen (throwIf (zipDirectory (candidateSource c) \<or> archiveKind (inventoryEntry c) \<noteq> FileEntry)
       (ArchiveThrows InvalidContainer)) (\<lambda>_.
     andThen (failing ArchiveThrows (beginArchiveEntryRead (Integral (archiveCompressedSize (inventoryEntry c)))
       (Integral (archiveUncompressedSize (inventoryEntry c))) maximumBytes)) (\<lambda>r b.
     case createWriter r of
       (Inl e, w) \<Rightarrow> (Inl e, readBudget (writerRead w))
     | (Inr u, w) \<Rightarrow> (Inr w, readBudget (writerRead w))))"

definition finishCandidateRead :: "(nat \<Rightarrow> bool) \<Rightarrow> zip_call \<Rightarrow> bytes writer_prog" where
  "finishCandidateRead callerAborted c w =
     (case andThen (getData callerAborted c) (\<lambda>_. andThen (onRead complete) (\<lambda>_. takeData)) w of
        (Inl e, w) \<Rightarrow> (Inl (case writerFailure w of Some f \<Rightarrow> ArchiveThrows f | None \<Rightarrow> e), discardWriter w)
      | (Inr ds, w) \<Rightarrow> (Inr ds, w))"

definition readCandidateData ::
    "candidate_entry \<Rightarrow> js_number option \<Rightarrow> (nat \<Rightarrow> bool) \<Rightarrow> zip_call \<Rightarrow> (budget, thrown, bytes) prog" where
  "readCandidateData c maximumBytes callerAborted call =
     andThen (beginCandidateRead c maximumBytes) (\<lambda>w _.
       case finishCandidateRead callerAborted call w of (r, w) \<Rightarrow> (r, readBudget (writerRead w)))"

text \<open>\<open>mapArchiveError\<close>, which may look at the budget once more.\<close>

definition mapArchiveError :: "bool \<Rightarrow> thrown \<Rightarrow> budget \<Rightarrow> epub_error \<times> budget" where
  "mapArchiveError callerAborted e b =
     (if callerAborted then (Cancelled, b)
      else case e of
        ArchiveThrows c \<Rightarrow> (c, b)
      | PathThrows c \<Rightarrow> (if c = PathResourceLimit then ResourceLimitExceeded else UnsafeEntry, b)
      | UnsafeFilename \<Rightarrow> (UnsafeEntry, b)
      | UnsupportedUint64 \<Rightarrow> (ResourceLimitExceeded, b)
      | OtherThrow \<Rightarrow> (case checkpoint b of (Inl c, b) \<Rightarrow> (c, b) | (Inr u, b) \<Rightarrow> (InvalidContainer, b)))"

section \<open>What a read keeps\<close>

text \<open>The bytes that the call wrote.\<close>

definition writtenBytes :: "zip_event list \<Rightarrow> bytes" where
  "writtenBytes es = concat (map (\<lambda>e. case e of ZipWrite (Some bs) \<Rightarrow> bs | _ \<Rightarrow> []) es)"

lemma writtenBytes_simps [simp]:
  "writtenBytes [] = []"
  "writtenBytes (ZipCallback c # es) = writtenBytes es"
  "writtenBytes (ZipWrite (Some bs) # es) = bs @ writtenBytes es"
  "writtenBytes (ZipWrite None # es) = writtenBytes es"
  "writtenBytes (ZipClose # es) = writtenBytes es"
  "writtenBytes (ZipAbort # es) = writtenBytes es"
  by (simp_all add: writtenBytes_def)

text \<open>An unfinished read of the same entry: everything but what has been observed is as it was.\<close>

definition same_read :: "entry_read \<Rightarrow> entry_read \<Rightarrow> bool" where
  "same_read r s \<longleftrightarrow> read_wf s \<and> policy (readBudget s) = policy (readBudget r) \<and>
     compressedSizeOf s = compressedSizeOf r \<and> declaredSizeOf s = declaredSizeOf r \<and>
     maximumOutputBytes s = maximumOutputBytes r \<and> completed s = completed r \<and>
     compressedReadBytes (readBudget s) = compressedReadBytes (readBudget r) \<and>
     observedUncompressedBytes (readBudget s) - observedBytes s = observedUncompressedBytes (readBudget r) - observedBytes r \<and>
     declaredUncompressedBytes (readBudget s) = declaredUncompressedBytes (readBudget r)"

lemma same_read_refl: "read_wf r \<Longrightarrow> same_read r r"
  by (simp add: same_read_def)

lemma same_read_looked: "same_read r s \<Longrightarrow> lastObservedAtMs (readBudget s) \<le> t \<Longrightarrow>
    same_read r (s\<lparr>readBudget := (readBudget s)\<lparr>looked := n, lastObservedAtMs := t\<rparr>\<rparr>)"
  by (auto simp: same_read_def read_wf_def budget_wf_def)

lemma wp_onRead: "wp (onRead m) Q E w =
    wp m (\<lambda>x r. Q x (w\<lparr>writerRead := r\<rparr>)) (\<lambda>e r. E (ArchiveThrows e) (w\<lparr>writerRead := r\<rparr>)) (writerRead w)"
  by (auto simp: wp_def onRead_def failing_def split: prod.splits sum.splits)

lemma wp_checkpointOperation:
  assumes "wp checkpoint Q E b" and "E Cancelled b"
  shows "wp (checkpointOperation callerAborted) Q E b"
  using assms by (simp add: wp_def checkpointOperation_def)

lemma same_read_checkpoint: "same_read r s \<Longrightarrow>
    wp checkpoint (\<lambda>_ b. same_read r (s\<lparr>readBudget := b\<rparr>)) (\<lambda>_ b. same_read r (s\<lparr>readBudget := b\<rparr>)) (readBudget s)"
  by (intro wp_checkpoint) (auto intro: same_read_looked)

lemma same_read_observe:
  assumes "same_read r s"
  shows "wp (observe (Integral n)) (\<lambda>_ t. same_read r t) (\<lambda>_ t. same_read r t) s"
proof (rule wp_I)
  fix u t
  assume t: "observe (Integral n) s = (Inr u, t)"
  have wf: "read_wf s" using assms by (simp add: same_read_def)
  from observe_effect [OF t] observe_wf [OF wf t] assms show "same_read r t" by (auto simp: same_read_def)
next
  fix e t
  assume t: "observe (Integral n) s = (Inl e, t)"
  have wf: "read_wf s" using assms by (simp add: same_read_def)
  from observe_throws [OF t] observe_throws_wf [OF wf t] assms show "same_read r t" by (auto simp: same_read_def)
qed

text \<open>A writer whose data, if it has any, begins with exactly what was written.\<close>

definition holds_written :: "entry_writer \<Rightarrow> bytes \<Rightarrow> entry_writer \<Rightarrow> bool" where
  "holds_written v bs w \<longleftrightarrow> expectedSize w = expectedSize v \<and> same_read (writerRead v) (writerRead w) \<and>
     (\<forall>ds. writerData w = Some ds \<longrightarrow> length ds = expectedSize w \<and> writerOffset w \<le> expectedSize w \<and>
        take (writerOffset w) ds = bs \<and> (writerComplete w \<longrightarrow> writerOffset w = expectedSize w))"

definition reads_on :: "entry_writer \<Rightarrow> entry_writer \<Rightarrow> bool" where
  "reads_on v w \<longleftrightarrow> same_read (writerRead v) (writerRead w)"

lemma holds_discard: "holds_written v bs w \<Longrightarrow> holds_written v cs (discardWriter w)"
  by (simp add: holds_written_def discardWriter_def)

lemma holds_reads: "holds_written v bs w \<Longrightarrow> reads_on v w"
  by (simp add: holds_written_def reads_on_def)

lemma holds_read: "holds_written v bs w \<Longrightarrow> same_read (writerRead v) r \<Longrightarrow> holds_written v bs (w\<lparr>writerRead := r\<rparr>)"
  by (auto simp: holds_written_def)

lemma wp_captureFailure:
  assumes "wp m Q E w" and "\<And>e w f. E e w \<Longrightarrow> E e (w\<lparr>writerFailure := f\<rparr>)"
  shows "wp (captureFailure m) Q E w"
  using assms by (auto simp: wp_def captureFailure_def split: prod.splits sum.splits thrown.splits)

lemma reads_on_failure [simp]: "reads_on v (w\<lparr>writerFailure := f\<rparr>) = reads_on v w"
  by (simp add: reads_on_def)

lemma wp_writerWrite:
  assumes "holds_written v bs w"
  shows "wp (writerWrite chunk) (\<lambda>_. holds_written v (bs @ (case chunk of Some cs \<Rightarrow> cs | None \<Rightarrow> []))) (\<lambda>_. reads_on v) w"
proof -
  have same: "same_read (writerRead v) (writerRead w)" using assms by (simp add: holds_written_def)
  show ?thesis
  proof (cases "chunk = None \<or> writerData w = None")
    case True
    then show ?thesis using holds_reads [OF assms] by (cases chunk) (auto simp: writerWrite_def wp_simps)
  next
    case False
    then obtain cs ds where c: "chunk = Some cs" and d: "writerData w = Some ds" by auto
    have written: "wp (\<lambda>w'. if expectedSize w' - writerOffset w' < length cs
           then (Inl (ArchiveThrows InvalidContainer), discardWriter w')
           else (Inr (), w'\<lparr>writerData := Some (take (writerOffset w') ds @ cs @ drop (writerOffset w' + length cs) ds),
             writerOffset := writerOffset w' + length cs\<rparr>))
         (\<lambda>_. holds_written v (bs @ cs)) (\<lambda>_. reads_on v) (w\<lparr>writerRead := r\<rparr>)"
      if r: "same_read (writerRead v) r" for r
      using assms d r by (auto simp: wp_def holds_written_def reads_on_def discardWriter_def)
    show ?thesis
      unfolding writerWrite_def wp_andThen wp_gets c d prod.case option.case wp_onRead
      by (rule wp_mono [OF same_read_observe [OF same]]) (auto simp: reads_on_def intro: written)
  qed
qed

lemma wp_writerClose:
  assumes "holds_written v bs w"
  shows "wp writerClose (\<lambda>_. holds_written v bs) (\<lambda>_. reads_on v) w"
proof -
  have "wp (\<lambda>w. if writerData w = None \<or> writerOffset w \<noteq> expectedSize w
        then (Inl (ArchiveThrows InvalidContainer), discardWriter w) else (Inr (), w\<lparr>writerComplete := True\<rparr>))
      (\<lambda>_. holds_written v bs) (\<lambda>_. reads_on v) (w\<lparr>writerRead := r\<rparr>)" if "same_read (writerRead v) r" for r
    using assms that by (cases "writerData w") (auto simp: wp_def holds_written_def reads_on_def discardWriter_def)
  moreover have "same_read (writerRead v) (writerRead w)" using assms by (simp add: holds_written_def)
  ultimately show ?thesis
    unfolding writerClose_def wp_andThen wp_onRead wp_onBudget
    by (intro wp_mono [OF same_read_checkpoint]) (auto simp: reads_on_def)
qed

lemma wp_runEvents:
  "holds_written v bs w \<Longrightarrow>
     wp (runEvents callerAborted es) (\<lambda>_. holds_written v (bs @ writtenBytes es)) (\<lambda>_. reads_on v) w"
proof (induction es arbitrary: bs w)
  case Nil
  then show ?case by (simp add: wp_def)
next
  case (Cons e es)
  note w = Cons.prems
  have same: "same_read (writerRead v) (writerRead w)" using w by (simp add: holds_written_def)
  show ?case
  proof (cases e)
    case (ZipCallback letsThrough)
    have "wp (onRead (onBudget (checkpointOperation callerAborted))) (\<lambda>_. holds_written v bs) (\<lambda>_. holds_written v bs) w"
      unfolding wp_onRead wp_onBudget
      by (intro wp_checkpointOperation wp_mono [OF same_read_checkpoint [OF same]])
        (use w same in \<open>auto simp: holds_written_def\<close>)
    then show ?thesis
      unfolding ZipCallback runEvents.simps wp_andThen wp_calledBack
      by (rule wp_mono) (use Cons.IH in \<open>auto dest: holds_reads\<close>)
  next
    case (ZipWrite chunk)
    have "wp (captureFailure (writerWrite chunk))
        (\<lambda>_. holds_written v (bs @ (case chunk of Some cs \<Rightarrow> cs | None \<Rightarrow> []))) (\<lambda>_. reads_on v) w"
      by (rule wp_captureFailure [OF wp_writerWrite [OF w]]) simp
    then show ?thesis
      unfolding ZipWrite runEvents.simps wp_andThen
      by (rule wp_mono) (use Cons.IH in \<open>force split: option.splits\<close>, simp)
  next
    case ZipClose
    have "wp (captureFailure writerClose) (\<lambda>_. holds_written v bs) (\<lambda>_. reads_on v) w"
      by (rule wp_captureFailure [OF wp_writerClose [OF w]]) simp
    then show ?thesis
      unfolding ZipClose runEvents.simps wp_andThen
      by (rule wp_mono) (use Cons.IH in auto)
  next
    case ZipAbort
    with Cons.IH [OF holds_discard [OF w, of bs]] show ?thesis by (simp add: wp_simps)
  qed
qed

section \<open>The contract of a read\<close>

lemma wp_getData:
  "holds_written v bs w \<Longrightarrow>
     wp (getData callerAborted c) (\<lambda>_. holds_written v (bs @ writtenBytes (callEvents c))) (\<lambda>_. reads_on v) w"
  using wp_runEvents [of v bs w callerAborted "callEvents c"]
  by (auto simp: wp_def getData_def callEnds_def dest: holds_reads split: prod.splits sum.splits option.splits)

text \<open>What becomes of the budget, whether the read succeeds or not.\<close>

definition budget_follows :: "budget \<Rightarrow> budget \<Rightarrow> bool" where
  "budget_follows b c \<longleftrightarrow> budget_wf c \<and> policy c = policy b \<and>
     declaredUncompressedBytes c = declaredUncompressedBytes b"

lemma same_read_follows: "same_read r s \<Longrightarrow> budget_follows (readBudget r) (readBudget s)"
  by (simp add: same_read_def read_wf_def budget_follows_def)

lemma wp_complete:
  assumes "same_read r s"
  shows "wp complete
    (\<lambda>_ t. budget_follows (readBudget r) (readBudget t) \<and>
       compressedReadBytes (readBudget t) = compressedReadBytes (readBudget r) + compressedSizeOf r \<and>
       observedUncompressedBytes (readBudget t) = observedUncompressedBytes (readBudget r) - observedBytes r + declaredSizeOf r)
    (\<lambda>_ t. budget_follows (readBudget r) (readBudget t)) s"
proof -
  have pos: "0 \<le> compressedSizeOf s" using assms by (simp add: same_read_def read_wf_def)
  show ?thesis
    unfolding complete_def
    by (simp add: wp_simps wp_onBudget, rule wp_checkpoint)
      (use assms pos in \<open>auto simp: same_read_def read_wf_def budget_wf_def budget_follows_def\<close>)
qed

lemma wp_finish:
  assumes "holds_written w [] w"
  shows "wp (finishCandidateRead callerAborted c)
    (\<lambda>ds t. ds = writtenBytes (callEvents c) \<and> length ds = expectedSize w \<and>
       budget_follows (readBudget (writerRead w)) (readBudget (writerRead t)) \<and>
       compressedReadBytes (readBudget (writerRead t)) =
         compressedReadBytes (readBudget (writerRead w)) + compressedSizeOf (writerRead w) \<and>
       observedUncompressedBytes (readBudget (writerRead t)) = observedUncompressedBytes (readBudget (writerRead w)) -
         observedBytes (writerRead w) + declaredSizeOf (writerRead w))
    (\<lambda>_ t. budget_follows (readBudget (writerRead w)) (readBudget (writerRead t))) w"
    (is "wp _ ?Q ?E w")
proof -
  have take: "wp takeData ?Q ?E (v\<lparr>writerRead := r\<rparr>)"
    if "holds_written w (writtenBytes (callEvents c)) v"
      and "budget_follows (readBudget (writerRead w)) (readBudget r) \<and>
       compressedReadBytes (readBudget r) = compressedReadBytes (readBudget (writerRead w)) + compressedSizeOf (writerRead w) \<and>
       observedUncompressedBytes (readBudget r) = observedUncompressedBytes (readBudget (writerRead w)) -
         observedBytes (writerRead w) + declaredSizeOf (writerRead w)" for v r
    using that by (auto simp: wp_def takeData_def holds_written_def split: option.split)
  have "wp (andThen (getData callerAborted c) (\<lambda>_. andThen (onRead complete) (\<lambda>_. takeData))) ?Q ?E w"
    unfolding wp_andThen
  proof (rule wp_mono [OF wp_getData [OF assms]])
    fix v
    assume v: "holds_written w ([] @ writtenBytes (callEvents c)) v"
    then have same: "same_read (writerRead w) (writerRead v)" by (simp add: holds_written_def)
    show "wp (onRead complete) (\<lambda>_. wp takeData ?Q ?E) ?E v"
      unfolding wp_onRead by (rule wp_mono [OF wp_complete [OF same]]) (use v take in auto)
  qed (simp add: reads_on_def same_read_follows)
  then show ?thesis
    by (auto simp: wp_def finishCandidateRead_def discardWriter_def split: prod.splits sum.splits)
qed

text \<open>A writer that has just been made.\<close>

lemma wp_createWriter:
  assumes "read_wf r"
  shows "case createWriter r of
      (Inr u, w) \<Rightarrow> holds_written w [] w \<and> same_read r (writerRead w) \<and> observedBytes (writerRead w) = observedBytes r \<and>
        expectedSize w = nat (declaredSizeOf r) \<and> writerFailure w = None
    | (Inl e, w) \<Rightarrow> same_read r (writerRead w)"
proof -
  let ?w = "\<lparr>expectedSize = nat (declaredSizeOf r), writerRead = r, writerData = Some (replicate (nat (declaredSizeOf r)) 0),
       writerOffset = 0, writerComplete = False, writerFailure = None\<rparr>"
  have "wp checkpoint (\<lambda>_ b. same_read r (r\<lparr>readBudget := b\<rparr>)) (\<lambda>_ b. same_read r (r\<lparr>readBudget := b\<rparr>)) (readBudget r)"
    by (rule same_read_checkpoint [OF same_read_refl [OF assms]])
  then have "wp (onRead (onBudget checkpoint))
      (\<lambda>_ w. \<exists>b. same_read r (r\<lparr>readBudget := b\<rparr>) \<and> w = ?w\<lparr>writerRead := r\<lparr>readBudget := b\<rparr>\<rparr>)
      (\<lambda>_ w. same_read r (writerRead w)) ?w"
    unfolding wp_onRead wp_onBudget entry_writer.select_convs by (elim wp_mono) auto
  then have "wp (captureFailure (onRead (onBudget checkpoint)))
      (\<lambda>_ w. \<exists>b. same_read r (r\<lparr>readBudget := b\<rparr>) \<and> w = ?w\<lparr>writerRead := r\<lparr>readBudget := b\<rparr>\<rparr>)
      (\<lambda>_ w. same_read r (writerRead w)) ?w"
    by (rule wp_captureFailure) simp
  then show ?thesis
    by (auto simp: wp_def createWriter_def holds_written_def same_read_def split: prod.splits sum.splits)
qed

lemma wp_beginArchiveEntryRead:
  assumes "budget_wf b"
  shows "wp (beginArchiveEntryRead (Integral c) (Integral d) m)
    (\<lambda>r b'. read_wf r \<and> readBudget r = b' \<and> budget_follows b b' \<and> observedBytes r = 0 \<and>
       compressedSizeOf r = c \<and> declaredSizeOf r = d \<and> (\<forall>n. m = Some (Integral n) \<longrightarrow> d \<le> n) \<and>
       d \<le> maxEntryUncompressedBytes (policy b) \<and> \<not> ratioExceeded (policy b) d c \<and>
       observedUncompressedBytes b' = observedUncompressedBytes b \<and> compressedReadBytes b' = compressedReadBytes b)
    (\<lambda>_ b'. budget_follows b b') b"
  using assms
  by (auto simp: beginArchiveEntryRead_def wp_simps read_wf_def budget_wf_def budget_follows_def
      is_count_def intro!: wp_checkpoint)

text \<open>A read under way: its writer is fresh, and its entry was admitted within the policy.\<close>

definition read_begun :: "candidate_entry \<Rightarrow> js_number option \<Rightarrow> budget \<Rightarrow> entry_writer \<Rightarrow> bool" where
  "read_begun c m b w \<longleftrightarrow> holds_written w [] w \<and> budget_follows b (readBudget (writerRead w)) \<and>
     observedBytes (writerRead w) = 0 \<and> archiveKind (inventoryEntry c) = FileEntry \<and>
     compressedSizeOf (writerRead w) = archiveCompressedSize (inventoryEntry c) \<and>
     declaredSizeOf (writerRead w) = archiveUncompressedSize (inventoryEntry c) \<and>
     int (expectedSize w) = archiveUncompressedSize (inventoryEntry c) \<and>
     (\<forall>n. m = Some (Integral n) \<longrightarrow> archiveUncompressedSize (inventoryEntry c) \<le> n) \<and>
     archiveUncompressedSize (inventoryEntry c) \<le> maxEntryUncompressedBytes (policy b) \<and>
     \<not> ratioExceeded (policy b) (archiveUncompressedSize (inventoryEntry c)) (archiveCompressedSize (inventoryEntry c)) \<and>
     observedUncompressedBytes (readBudget (writerRead w)) = observedUncompressedBytes b \<and>
     compressedReadBytes (readBudget (writerRead w)) = compressedReadBytes b"

lemma budget_follows_refl: "budget_wf b \<Longrightarrow> budget_follows b b"
  by (simp add: budget_follows_def)

lemma budget_follows_trans: "budget_follows b c \<Longrightarrow> budget_follows c d \<Longrightarrow> budget_follows b d"
  by (simp add: budget_follows_def)

lemma wp_beginCandidateRead:
  assumes "budget_wf b"
  shows "wp (beginCandidateRead c m)
    (\<lambda>w b'. read_begun c m b w \<and> readBudget (writerRead w) = b') (\<lambda>_ b'. budget_follows b b') b"
proof -
  let ?create = "\<lambda>r. \<lambda>b'. case createWriter r of
       (Inl e, w) \<Rightarrow> (Inl e, readBudget (writerRead w)) | (Inr u, w) \<Rightarrow> (Inr w, readBudget (writerRead w))"
  have create: "wp (?create r) (\<lambda>w b'. read_begun c m b w \<and> readBudget (writerRead w) = b') (\<lambda>_ b'. budget_follows b b') b1"
    if r: "read_wf r \<and> readBudget r = b1 \<and> budget_follows b b1 \<and> observedBytes r = 0 \<and>
       compressedSizeOf r = archiveCompressedSize (inventoryEntry c) \<and>
       declaredSizeOf r = archiveUncompressedSize (inventoryEntry c) \<and>
       (\<forall>n. m = Some (Integral n) \<longrightarrow> archiveUncompressedSize (inventoryEntry c) \<le> n) \<and>
       archiveUncompressedSize (inventoryEntry c) \<le> maxEntryUncompressedBytes (policy b) \<and>
       \<not> ratioExceeded (policy b) (archiveUncompressedSize (inventoryEntry c)) (archiveCompressedSize (inventoryEntry c)) \<and>
       observedUncompressedBytes b1 = observedUncompressedBytes b \<and> compressedReadBytes b1 = compressedReadBytes b"
      and "archiveKind (inventoryEntry c) = FileEntry" for r b1
  proof -
    obtain x w where w: "createWriter r = (x, w)" by fastforce
    have pos: "0 \<le> declaredSizeOf r" using r by (simp add: read_wf_def)
    show ?thesis
    proof (cases x)
      case (Inl e)
      with w wp_createWriter [of r] r have "same_read r (writerRead w)" by simp
      with same_read_follows r have "budget_follows b (readBudget (writerRead w))" by (metis budget_follows_trans)
      with w Inl show ?thesis by (simp add: wp_def)
    next
      case (Inr u)
      with w wp_createWriter [of r] r have s: "holds_written w [] w" "same_read r (writerRead w)"
        "observedBytes (writerRead w) = 0" "expectedSize w = nat (declaredSizeOf r)" by simp_all
      from same_read_follows [OF s(2)] r have "budget_follows b (readBudget (writerRead w))" by (metis budget_follows_trans)
      with w Inr s r pos that(2) show ?thesis by (simp add: wp_def read_begun_def same_read_def)
    qed
  qed
  show ?thesis
    unfolding beginCandidateRead_def wp_andThen wp_throwIf wp_failing
    by (auto intro: budget_follows_refl [OF assms] intro!: wp_mono [OF wp_beginArchiveEntryRead [OF assms]] create)
qed

text \<open>What a read that returned bytes has done.\<close>

definition exact_read :: "candidate_entry \<Rightarrow> js_number option \<Rightarrow> zip_call \<Rightarrow> budget \<Rightarrow> bytes \<Rightarrow> budget \<Rightarrow> bool" where
  "exact_read c m call b ds b' \<longleftrightarrow> (let e = inventoryEntry c in
     ds = writtenBytes (callEvents call) \<and> int (length ds) = archiveUncompressedSize e \<and>
     archiveKind e = FileEntry \<and> (\<forall>n. m = Some (Integral n) \<longrightarrow> int (length ds) \<le> n) \<and>
     int (length ds) \<le> maxEntryUncompressedBytes (policy b) \<and>
     \<not> ratioExceeded (policy b) (int (length ds)) (archiveCompressedSize e) \<and>
     observedUncompressedBytes b' = observedUncompressedBytes b + int (length ds) \<and>
     compressedReadBytes b' = compressedReadBytes b + archiveCompressedSize e \<and> budget_follows b b')"

lemma finish_is_exact:
  assumes "read_begun c m b w" and "finishCandidateRead callerAborted call w = (r, t)"
  shows "case r of Inr ds \<Rightarrow> exact_read c m call b ds (readBudget (writerRead t))
    | Inl _ \<Rightarrow> budget_follows b (readBudget (writerRead t))"
proof -
  have "holds_written w [] w" using assms(1) by (simp add: read_begun_def)
  from wp_finish [OF this, of callerAborted call] assms show ?thesis
    by (cases r) (auto simp: wp_def read_begun_def exact_read_def Let_def dest: budget_follows_trans)
qed

lemma read_is_exact:
  assumes "budget_wf b"
  shows "wp (readCandidateData c m callerAborted call) (exact_read c m call b) (\<lambda>_. budget_follows b) b"
proof -
  have finish: "wp (\<lambda>_. case finishCandidateRead callerAborted call w of (r, w) \<Rightarrow> (r, readBudget (writerRead w)))
      (exact_read c m call b) (\<lambda>_. budget_follows b) b1" if w: "read_begun c m b w" for w b1
  proof -
    obtain r t where t: "finishCandidateRead callerAborted call w = (r, t)" by fastforce
    from finish_is_exact [OF w t] t show ?thesis by (cases r) (simp_all add: wp_def)
  qed
  show ?thesis
    unfolding readCandidateData_def wp_andThen
    by (rule wp_mono [OF wp_beginCandidateRead [OF assms(1)]]) (simp_all add: finish)
qed

section \<open>Properties\<close>

text \<open>
  C29. Reading an entry is exact. Whatever the ZIP reader does with the writer it is given, in whatever order,
  and whether its callbacks' exceptions get through or not: when a read returns bytes they are the bytes that
  were written, in order, their number is the declared size of the entry, a file, and that size is within the
  caller's maximum, the limit of the policy and the compression ratio; the budget has been charged exactly
  the sizes of the entry. When it throws, the budget is as sound as before.
\<close>

theorem archive_read_is_exact:
  assumes "budget_wf b"
  shows "case readCandidateData c m callerAborted call b of
      (Inr ds, b') \<Rightarrow> exact_read c m call b ds b' | (Inl x, b') \<Rightarrow> budget_follows b b'"
  using read_is_exact [OF assms, of c m callerAborted call] by (auto simp: wp_def split: prod.splits sum.splits)

definition sample_entry_call :: zip_call where
  "sample_entry_call = \<lparr>callEvents = [ZipWrite (Some [1]), ZipCallback True, ZipWrite (Some [2]), ZipClose],
     callFailure = None, callSubstitute = None\<rparr>"

definition plain_entry :: "js_string \<Rightarrow> int \<Rightarrow> zip_entry \<Rightarrow> candidate_entry" where
  "plain_entry q n z = \<lparr>inventoryEntry = \<lparr>archivePath = q, archiveKind = FileEntry, archiveMethod = Stored,
       archiveCompressedSize = n, archiveUncompressedSize = n, archiveCrc32 = 7, archiveOffset = 0, archiveZip64 = False\<rparr>,
     candidateSource = z\<rparr>"

definition plain_zip :: "bytes \<Rightarrow> js_string \<Rightarrow> zip_call \<Rightarrow> int \<Rightarrow> zip_entry" where
  "plain_zip raw decoded call n = \<lparr>zipDirectory = False, zipEncrypted = False, zipRawFilename = raw, zipFilename = decoded,
     zipOffset = Integral 0, zipCompressedSize = Integral n, zipUncompressedSize = Integral n, zipDiskNumberStart = Integral 0,
     zipCrc32 = Some (Integral 7), zipExternalFileAttributes = 0, zipCompressionMethod = 0, zipZip64 = False,
     zipHasGetData = True, zipStructureCall = \<lparr>callEvents = [ZipCallback False], callFailure = None, callSubstitute = None\<rparr>,
     zipFirstRead = call\<rparr>"

lemmas read_defs = beginCandidateRead_def beginArchiveEntryRead_def andThen_apply checkpoint_def Let_def sample_budget_def
        quiet_env_def MAX_SAFE_INTEGER_def js_sub_def default_policy_simps failing_def createWriter_def captureFailure_def onRead_def
        assertSafeNonnegativeInteger_def is_count_iff assertCompressionRatio_def callEnds_def calledBack_def checkpointOperation_def
        ratioExceeded_def observe_def complete_def onBudget_def addWithinSafeInteger_def readCandidateData_def finishCandidateRead_def
        getData_def writerWrite_def writerClose_def takeData_def discardWriter_def

lemma sample_read:
  "\<exists>b. readCandidateData (plain_entry [97] 2 (plain_zip [97] [97] sample_entry_call 2)) None (\<lambda>_. False) sample_entry_call
     sample_budget = (Inr [1, 2], b)"
  by (simp add: read_defs sample_entry_call_def plain_entry_def plain_zip_def numeral_2_eq_2)

theorem archive_read_is_exact_witness:
  "\<exists>b. exact_read (plain_entry [97] 2 (plain_zip [97] [97] sample_entry_call 2)) None sample_entry_call sample_budget [1, 2] b"
proof -
  have "budget_wf sample_budget" using createEpubProcessingBudget_Inr [OF sample_created] by simp
  from archive_read_is_exact [OF this] sample_read show ?thesis by (metis (no_types, lifting) case_prod_conv sum.case(2))
qed

end
