(* ===== verification/Archive_Inventory.thy ===== *)
theory Archive_Inventory
  imports Archive_Entry "HOL-Library.Multiset"
begin

text \<open>
  packages/epub/src/archive/archive-inventory.ts, \<open>openEpubArchive\<close> and \<open>inventoryEpubArchive\<close>: the
  directory of the archive is admitted entry by entry, the entries are put in the order of their local
  headers, each local structure is checked, and the archive must begin with the stored \<open>mimetype\<close> entry.
\<close>

section \<open>The mimetype entry\<close>

definition MIMETYPE_PATH :: js_string where "MIMETYPE_PATH = js ''mimetype''"
definition MIMETYPE_BYTES :: bytes where "MIMETYPE_BYTES = map of_char ''application/epub+zip''"
definition LOCAL_FILE_HEADER_SIGNATURE :: nat where "LOCAL_FILE_HEADER_SIGNATURE = 0x04034b50"
definition LOCAL_FILE_HEADER_LENGTH :: nat where "LOCAL_FILE_HEADER_LENGTH = 30"
definition LOCAL_FILE_HEADER_FILENAME_LENGTH_OFFSET :: nat where "LOCAL_FILE_HEADER_FILENAME_LENGTH_OFFSET = 26"
definition LOCAL_FILE_HEADER_EXTRA_FIELD_LENGTH_OFFSET :: nat where "LOCAL_FILE_HEADER_EXTRA_FIELD_LENGTH_OFFSET = 28"

text \<open>\<open>view.getUint16(i, true)\<close> and \<open>view.getUint32(i, true)\<close> inside the bytes.\<close>

fun littleEndian :: "bytes \<Rightarrow> nat" where
  "littleEndian [] = 0"
| "littleEndian (b # bs) = unat b + 256 * littleEndian bs"

definition getUint16 :: "bytes \<Rightarrow> nat \<Rightarrow> nat" where
  "getUint16 bs i = littleEndian (take 2 (drop i bs))"

definition getUint32 :: "bytes \<Rightarrow> nat \<Rightarrow> nat" where
  "getUint32 bs i = littleEndian (take 4 (drop i bs))"

definition assertMimetypeLocalHeader :: "bytes \<Rightarrow> archive_entry \<Rightarrow> thrown + unit" where
  "assertMimetypeLocalHeader archiveBytes e =
     (if archiveOffset e \<noteq> 0 \<or> length archiveBytes < LOCAL_FILE_HEADER_LENGTH then Inl (ArchiveThrows InvalidContainer)
      else if getUint32 archiveBytes 0 \<noteq> LOCAL_FILE_HEADER_SIGNATURE then Inl (ArchiveThrows InvalidContainer)
      else let filenameLength = getUint16 archiveBytes LOCAL_FILE_HEADER_FILENAME_LENGTH_OFFSET;
          extraFieldLength = getUint16 archiveBytes LOCAL_FILE_HEADER_EXTRA_FIELD_LENGTH_OFFSET in
        if filenameLength \<noteq> length MIMETYPE_PATH \<or> extraFieldLength \<noteq> 0 \<or>
           length archiveBytes < LOCAL_FILE_HEADER_LENGTH + filenameLength
        then Inl (ArchiveThrows InvalidContainer)
        else if list_all (\<lambda>i. unat (archiveBytes ! (LOCAL_FILE_HEADER_LENGTH + i)) = unat (MIMETYPE_PATH ! i)) [0..<filenameLength]
        then Inr () else Inl (ArchiveThrows InvalidContainer))"

definition validateMimetype :: "bytes \<Rightarrow> candidate_entry list \<Rightarrow> (budget, thrown, unit) prog" where
  "validateMimetype archiveBytes orderedEntries = (case orderedEntries of
       [] \<Rightarrow> raise (ArchiveThrows InvalidContainer)
     | firstEntry # _ \<Rightarrow> let e = inventoryEntry firstEntry in
         if archiveKind e \<noteq> FileEntry \<or> archivePath e \<noteq> MIMETYPE_PATH \<or> archiveMethod e \<noteq> Stored \<or>
            archiveCompressedSize e \<noteq> int (length MIMETYPE_BYTES) \<or> archiveUncompressedSize e \<noteq> int (length MIMETYPE_BYTES) \<or>
            archiveZip64 e \<or> zipDirectory (candidateSource firstEntry)
         then raise (ArchiveThrows InvalidContainer)
         else andThen (lift (assertMimetypeLocalHeader archiveBytes e)) (\<lambda>_.
           andThen (readCandidateData firstEntry None (\<lambda>_. False) (zipFirstRead (candidateSource firstEntry))) (\<lambda>data.
           throwIf (data \<noteq> MIMETYPE_BYTES) (ArchiveThrows InvalidContainer))))"

section \<open>Local structure\<close>

text \<open>A call of \<open>getData\<close> with a stream that takes everything: only the callbacks do something.\<close>

fun runCallbacks :: "zip_event list \<Rightarrow> (budget, thrown, unit) prog" where
  "runCallbacks [] = ok ()"
| "runCallbacks (ZipCallback letsThrough # es) =
     andThen (calledBack letsThrough (failing ArchiveThrows checkpoint)) (\<lambda>_. runCallbacks es)"
| "runCallbacks (_ # es) = runCallbacks es"

definition structureCall :: "zip_call \<Rightarrow> (budget, thrown, unit) prog" where
  "structureCall c b = (case runCallbacks (callEvents c) b of (r, b) \<Rightarrow> (callEnds c r, b))"

definition checkStructure :: "candidate_entry \<Rightarrow> (budget, thrown, unit) prog" where
  "checkStructure c =
     andThen (failing ArchiveThrows checkpoint) (\<lambda>_.
     andThen (throwIf (\<not> zipHasGetData (candidateSource c)) (ArchiveThrows InvalidContainer)) (\<lambda>_.
     andThen (structureCall (zipStructureCall (candidateSource c))) (\<lambda>_.
     failing ArchiveThrows checkpoint)))"

definition validateLocalStructure :: "candidate_entry list \<Rightarrow> (budget, thrown, unit) prog" where
  "validateLocalStructure entries = forEach checkStructure entries"

section \<open>Opening\<close>

text \<open>
  What the reader's generator does while the directory is listed: progress callbacks, whose exceptions it
  lets through or swallows, and entries; and the error it ends with, if any.
\<close>

datatype listing_event = ListProgress bool | ListEntry zip_entry

record zip_listing =
  listingEvents :: "listing_event list"
  listingFailure :: "thrown option"

definition admitEntry :: "int \<Rightarrow> zip_entry \<Rightarrow> candidate_entry list \<Rightarrow> (budget, thrown, candidate_entry list) prog" where
  "admitEntry archiveByteLength e candidates =
     andThen (failing ArchiveThrows checkpoint) (\<lambda>_.
     andThen (gets policy) (\<lambda>p.
     andThen (lift (createCandidateEntry e archiveByteLength p)) (\<lambda>c.
     andThen (failing ArchiveThrows (registerArchiveEntryDeclaration
       (Integral (archiveCompressedSize (inventoryEntry c))) (Integral (archiveUncompressedSize (inventoryEntry c))))) (\<lambda>_.
     ok (candidates @ [c])))))"

fun listEntries :: "int \<Rightarrow> listing_event list \<Rightarrow> candidate_entry list \<Rightarrow> (budget, thrown, candidate_entry list) prog" where
  "listEntries archiveByteLength [] candidates = ok candidates"
| "listEntries archiveByteLength (ListProgress letsThrough # es) candidates =
     andThen (calledBack letsThrough (failing ArchiveThrows checkpoint)) (\<lambda>_. listEntries archiveByteLength es candidates)"
| "listEntries archiveByteLength (ListEntry e # es) candidates =
     andThen (admitEntry archiveByteLength e candidates) (listEntries archiveByteLength es)"

record archive_inventory =
  inventoryEntries :: "archive_entry list"
  entryCount :: nat
  fileCount :: nat
  directoryCount :: nat
  totalDeclaredUncompressedBytes :: int

definition inventoryOf :: "candidate_entry list \<Rightarrow> int \<Rightarrow> archive_inventory" where
  "inventoryOf orderedCandidates declared =
     (let entries = map inventoryEntry orderedCandidates;
        directories = length (filter (\<lambda>e. archiveKind e = DirectoryEntry) entries) in
      \<lparr>inventoryEntries = entries, entryCount = length entries, fileCount = length entries - directories,
       directoryCount = directories, totalDeclaredUncompressedBytes = declared\<rparr>)"

text \<open>The checks of the ordered entries, and the inventory they give.\<close>

definition checkOrdered ::
    "bytes \<Rightarrow> candidate_entry list \<Rightarrow> (budget, thrown, archive_inventory \<times> candidate_entry list) prog" where
  "checkOrdered archiveBytes orderedCandidates =
     andThen (validateLocalStructure orderedCandidates) (\<lambda>_.
     andThen (validateMimetype archiveBytes orderedCandidates) (\<lambda>_.
     andThen (failing ArchiveThrows checkpoint) (\<lambda>_.
     andThen (gets declaredUncompressedBytes) (\<lambda>declared.
     ok (inventoryOf orderedCandidates declared, orderedCandidates)))))"

definition admitArchive ::
    "unicode_forms \<Rightarrow> bytes \<Rightarrow> zip_listing \<Rightarrow> (budget, thrown, archive_inventory \<times> candidate_entry list) prog" where
  "admitArchive u archiveBytes listing =
     andThen (listEntries (int (length archiveBytes)) (listingEvents listing) []) (\<lambda>candidates.
     andThen (lift (case listingFailure listing of Some e \<Rightarrow> Inl e | None \<Rightarrow> Inr ())) (\<lambda>_.
     andThen (lift (case assertNoArchivePathCollisions u (map (\<lambda>c. archivePath (inventoryEntry c)) candidates) of
       Inl e \<Rightarrow> Inl (PathThrows e) | Inr v \<Rightarrow> Inr v)) (\<lambda>_.
     checkOrdered archiveBytes (sort_key (\<lambda>c. archiveOffset (inventoryEntry c)) candidates))))"

record opened_archive =
  archiveInventory :: archive_inventory
  archiveCandidates :: "candidate_entry list"
  archiveBudget :: budget

text \<open>On an exception the reader is closed and the error is mapped; the budget is then out of reach.\<close>

definition openEpubArchive ::
    "unicode_forms \<Rightarrow> policy_overrides \<Rightarrow> (nat \<Rightarrow> tick) \<Rightarrow> bytes \<Rightarrow> zip_listing \<Rightarrow> epub_error + opened_archive" where
  "openEpubArchive u overrides env archiveBytes listing =
     bindE (createEpubProcessingBudget overrides env) (\<lambda>b.
     case registerArchiveInput (Integral (int (length archiveBytes))) b of
       (Inl e, b) \<Rightarrow> Inl e
     | (Inr v, b) \<Rightarrow> (case admitArchive u archiveBytes listing b of
           (Inl e, b) \<Rightarrow> Inl (fst (mapArchiveError False e b))
         | (Inr (inventory, candidates), b) \<Rightarrow>
             Inr \<lparr>archiveInventory = inventory, archiveCandidates = candidates, archiveBudget = b\<rparr>))"

definition inventoryEpubArchive ::
    "unicode_forms \<Rightarrow> policy_overrides \<Rightarrow> (nat \<Rightarrow> tick) \<Rightarrow> bytes \<Rightarrow> zip_listing \<Rightarrow> epub_error + archive_inventory" where
  "inventoryEpubArchive u overrides env archiveBytes listing =
     bindE (openEpubArchive u overrides env archiveBytes listing) (\<lambda>a. Inr (archiveInventory a))"

section \<open>What opening establishes\<close>

definition entry_wf :: "ingestion_policy \<Rightarrow> int \<Rightarrow> archive_entry \<Rightarrow> bool" where
  "entry_wf p n e \<longleftrightarrow> canonical_path p (archivePath e) \<and> 0 \<le> archiveOffset e \<and> archiveOffset e < n \<and>
     0 \<le> archiveCompressedSize e \<and> archiveCompressedSize e \<le> maxCompressedEpubBytes p \<and>
     0 \<le> archiveUncompressedSize e \<and> archiveUncompressedSize e \<le> maxEntryUncompressedBytes p \<and>
     0 \<le> archiveCrc32 e \<and> archiveCrc32 e < 2 ^ 32 \<and>
     \<not> ratioExceeded p (archiveUncompressedSize e) (archiveCompressedSize e) \<and>
     (archiveKind e = DirectoryEntry \<longrightarrow> archiveMethod e = Stored \<and> archiveCompressedSize e = 0 \<and> archiveUncompressedSize e = 0)"

text \<open>What was admitted is what the ZIP reader reports, decoded.\<close>

definition reported :: "ingestion_policy \<Rightarrow> archive_entry \<Rightarrow> zip_entry \<Rightarrow> bool" where
  "reported p e z \<longleftrightarrow> decodeArchiveEntryPath (map unat (zipRawFilename z)) (archiveKind e) p = Inr (archivePath e) \<and>
     zipOffset z = Integral (archiveOffset e) \<and> zipCompressedSize z = Integral (archiveCompressedSize e) \<and>
     zipUncompressedSize z = Integral (archiveUncompressedSize e) \<and> zipCrc32 z = Some (Integral (archiveCrc32 e)) \<and>
     zipDiskNumberStart z = Integral 0 \<and> \<not> zipEncrypted z \<and> zipDirectory z = (archiveKind e = DirectoryEntry)"

lemma assertArchiveInteger_Inr: "assertArchiveInteger x = Inr n \<longleftrightarrow> x = Integral n \<and> is_count n"
  by (cases x) (auto simp: assertArchiveInteger_def)

lemma readCrc32_Inr: "readCrc32 x = Inr n \<longleftrightarrow> x = Some (Integral n) \<and> 0 \<le> n \<and> n < 2 ^ 32"
  by (cases x rule: readCrc32.cases) auto

lemma readEntryKind_Inr: "readEntryKind z = Inr k \<Longrightarrow> zipDirectory z = (k = DirectoryEntry)"
  by (auto simp: readEntryKind_def Let_def split: if_splits)

lemma decoded_canonical: "decodeArchiveEntryPath bs kind p = Inr q \<Longrightarrow> canonical_path p q"
  by (auto simp: decodeArchiveEntryPath_def split: if_splits option.splits dest: parse_Inr)

lemma case_sum_Inr: "(case s of Inl e \<Rightarrow> Inl (f e) | Inr x \<Rightarrow> g x) = Inr y \<longleftrightarrow> (\<exists>x. s = Inr x \<and> g x = Inr y)"
  by (cases s) auto

lemma candidate_reported:
  assumes "createCandidateEntry z n p = Inr c"
  shows "candidateSource c = z \<and> reported p (inventoryEntry c) z \<and>
    (let e = inventoryEntry c in canonical_path p (archivePath e) \<and> 0 \<le> archiveOffset e \<and> archiveOffset e < n \<and>
     0 \<le> archiveCompressedSize e \<and> 0 \<le> archiveUncompressedSize e \<and> 0 \<le> archiveCrc32 e \<and> archiveCrc32 e < 2 ^ 32 \<and>
     (archiveKind e = DirectoryEntry \<longrightarrow> archiveMethod e = Stored \<and> archiveCompressedSize e = 0 \<and> archiveUncompressedSize e = 0))"
  using assms
  by (auto simp: createCandidateEntry_def bindE_Inr case_sum_Inr assertArchiveInteger_Inr readCrc32_Inr Let_def reported_def
      is_count_def dest: readEntryKind_Inr decoded_canonical split: if_splits)

text \<open>The entries listed so far have all been admitted and declared.\<close>

definition listedEntries :: "listing_event list \<Rightarrow> zip_entry list" where
  "listedEntries es = concat (map (\<lambda>e. case e of ListEntry z \<Rightarrow> [z] | ListProgress _ \<Rightarrow> []) es)"

lemma listedEntries_simps [simp]:
  "listedEntries [] = []"
  "listedEntries (ListEntry z # es) = z # listedEntries es"
  "listedEntries (ListProgress l # es) = listedEntries es"
  by (simp_all add: listedEntries_def)

definition declared_sizes :: "candidate_entry list \<Rightarrow> int" where
  "declared_sizes cs = sum_list (map (\<lambda>c. archiveUncompressedSize (inventoryEntry c)) cs)"

definition admitted :: "budget \<Rightarrow> int \<Rightarrow> candidate_entry list \<Rightarrow> budget \<Rightarrow> bool" where
  "admitted b\<^sub>0 n cs b \<longleftrightarrow> budget_wf b \<and> policy b = policy b\<^sub>0 \<and>
     (\<forall>c \<in> set cs. entry_wf (policy b) n (inventoryEntry c) \<and> reported (policy b) (inventoryEntry c) (candidateSource c)) \<and>
     archiveEntryCount b = int (length cs) \<and> declaredUncompressedBytes b = declared_sizes cs"

lemma admitted_looked: "admitted b\<^sub>0 n cs b \<Longrightarrow> lastObservedAtMs b \<le> t \<Longrightarrow> admitted b\<^sub>0 n cs (b\<lparr>looked := l, lastObservedAtMs := t\<rparr>)"
  by (auto simp: admitted_def budget_wf_def)

lemma admitted_checkpoint: "admitted b\<^sub>0 n cs b \<Longrightarrow> wp checkpoint (\<lambda>_. admitted b\<^sub>0 n cs) (\<lambda>_. admitted b\<^sub>0 n cs) b"
  by (intro wp_checkpoint) (auto intro: admitted_looked)

lemma wp_registerDeclaration:
  assumes "budget_wf b"
  shows "wp (registerArchiveEntryDeclaration (Integral c) (Integral u))
    (\<lambda>_ t. budget_wf t \<and> policy t = policy b \<and> archiveEntryCount t = archiveEntryCount b + 1 \<and>
       declaredUncompressedBytes t = declaredUncompressedBytes b + u \<and> u \<le> maxEntryUncompressedBytes (policy b) \<and>
       c \<le> maxCompressedEpubBytes (policy b) \<and> \<not> ratioExceeded (policy b) u c) (\<lambda>_. budget_wf) b"
  using assms by (auto simp: registerArchiveEntryDeclaration_def wp_simps budget_wf_def is_count_def intro!: wp_checkpoint)

lemma wp_admitEntry:
  assumes "admitted b\<^sub>0 n cs b"
  shows "wp (admitEntry n z cs)
    (\<lambda>ds t. admitted b\<^sub>0 n ds t \<and> map candidateSource ds = map candidateSource cs @ [z]) (\<lambda>_. budget_wf) b"
proof -
  have reg: "wp (registerArchiveEntryDeclaration (Integral (archiveCompressedSize (inventoryEntry c)))
        (Integral (archiveUncompressedSize (inventoryEntry c))))
      (\<lambda>_ t. admitted b\<^sub>0 n (cs @ [c]) t \<and> map candidateSource (cs @ [c]) = map candidateSource cs @ [z]) (\<lambda>_. budget_wf) t"
    if t: "admitted b\<^sub>0 n cs t" and c: "createCandidateEntry z n (policy t) = Inr c" for t c
  proof -
    have "budget_wf t" using t by (simp add: admitted_def)
    from wp_registerDeclaration [OF this] show ?thesis
      by (rule wp_mono) (use t candidate_reported [OF c] in
        \<open>auto simp: admitted_def entry_wf_def declared_sizes_def Let_def\<close>)
  qed
  show ?thesis
    unfolding admitEntry_def wp_andThen wp_failing wp_gets
  proof (rule wp_mono [OF admitted_checkpoint [OF assms]])
    fix t
    assume t: "admitted b\<^sub>0 n cs t"
    then have "budget_wf t" by (simp add: admitted_def)
    with t show "wp (lift (createCandidateEntry z n (policy t)))
        (\<lambda>c. wp (registerArchiveEntryDeclaration (Integral (archiveCompressedSize (inventoryEntry c)))
          (Integral (archiveUncompressedSize (inventoryEntry c))))
         (\<lambda>_. wp (ok (cs @ [c])) (\<lambda>ds t. admitted b\<^sub>0 n ds t \<and> map candidateSource ds = map candidateSource cs @ [z])
            (\<lambda>_. budget_wf)) (\<lambda>_. budget_wf)) (\<lambda>_. budget_wf) t"
      by (auto simp: wp_lift wp_fun_ok split: sum.split intro!: reg [simplified])
  qed (simp add: admitted_def)
qed

lemma wp_listEntries:
  "admitted b\<^sub>0 n cs b \<Longrightarrow> wp (listEntries n es cs)
     (\<lambda>ds t. admitted b\<^sub>0 n ds t \<and> map candidateSource ds = map candidateSource cs @ listedEntries es) (\<lambda>_. budget_wf) b"
proof (induction es arbitrary: cs b)
  case Nil
  then show ?case by (simp add: wp_simps)
next
  case (Cons e es)
  show ?case
  proof (cases e)
    case (ListProgress letsThrough)
    show ?thesis
      unfolding ListProgress listEntries.simps wp_andThen wp_calledBack wp_failing
      by (rule wp_mono [OF admitted_checkpoint [OF Cons.prems]]) (use Cons.IH in \<open>auto simp: admitted_def\<close>)
  next
    case (ListEntry z)
    show ?thesis
      unfolding ListEntry listEntries.simps wp_andThen
      by (rule wp_mono [OF wp_admitEntry [OF Cons.prems]]) (use Cons.IH in \<open>force elim: wp_mono\<close>)+
  qed
qed

section \<open>The checks after listing\<close>

lemma follows_checkpoint: "budget_follows b c \<Longrightarrow> wp checkpoint (\<lambda>_. budget_follows b) (\<lambda>_. budget_follows b) c"
  by (intro wp_checkpoint) (auto simp: budget_follows_def budget_wf_def)

lemma wp_runCallbacks: "budget_follows b c \<Longrightarrow> wp (runCallbacks es) (\<lambda>_. budget_follows b) (\<lambda>_. budget_follows b) c"
proof (induction es arbitrary: c rule: runCallbacks.induct)
  case (2 letsThrough es)
  show ?case
    unfolding runCallbacks.simps wp_andThen wp_calledBack wp_failing
    by (rule wp_mono [OF follows_checkpoint [OF "2.prems"]]) (use "2.IH" in auto)
qed (simp_all add: wp_simps)

text \<open>The calls of the structure check.\<close>

lemma wp_structureCall:
  assumes "budget_follows b c"
  shows "wp (structureCall z) (\<lambda>_. budget_follows b) (\<lambda>_. budget_follows b) c"
  using wp_runCallbacks [OF assms, of "callEvents z"]
  by (auto simp: wp_def structureCall_def callEnds_def split: prod.splits sum.splits option.splits)

lemma wp_checkStructure: "budget_follows b c \<Longrightarrow> wp (checkStructure x) (\<lambda>_. budget_follows b) (\<lambda>_. budget_follows b) c"
  unfolding checkStructure_def wp_andThen wp_failing wp_throwIf
  by (rule wp_mono [OF follows_checkpoint])
    (auto simp: wp_fun_andThen wp_simps intro!: wp_mono [OF wp_structureCall] follows_checkpoint)

lemma wp_validateLocalStructure:
  "budget_follows b c \<Longrightarrow> wp (validateLocalStructure cs) (\<lambda>_. budget_follows b) (\<lambda>_. budget_follows b) c"
  unfolding validateLocalStructure_def by (rule wp_forEach) (rule wp_checkStructure)

section \<open>The mimetype\<close>

lemma littleEndian_bound: "littleEndian bs < 256 ^ length bs"
proof (induction bs)
  case (Cons b bs)
  have "unat b < 256" using unsigned_less [of b, where 'a = nat] by simp
  with Cons show ?case by simp
qed simp

lemma littleEndian_inject: "littleEndian bs = littleEndian cs \<Longrightarrow> length bs = length cs \<Longrightarrow> bs = cs"
proof (induction bs cs rule: list_induct2')
  case (4 b bs c cs)
  have b: "unat b < 256" and c: "unat c < 256" using unsigned_less [of b, where 'a = nat] unsigned_less [of c, where 'a = nat] by simp_all
  have "unat b = unat c" using "4.prems"(1) b c by (auto dest: arg_cong [where f = "\<lambda>n. n mod 256"])
  with 4 show ?case by (simp add: word_unat_eq_iff)
qed simp_all

text \<open>What the archive begins with: the local header of a stored entry \<open>mimetype\<close>, and its contents.\<close>

definition begins_with_mimetype :: "bytes \<Rightarrow> candidate_entry \<Rightarrow> bool" where
  "begins_with_mimetype archiveBytes c \<longleftrightarrow> (let e = inventoryEntry c in
     archivePath e = js ''mimetype'' \<and> archiveKind e = FileEntry \<and> archiveMethod e = Stored \<and> archiveOffset e = 0 \<and>
     archiveCompressedSize e = 20 \<and> archiveUncompressedSize e = 20 \<and> \<not> archiveZip64 e \<and>
     take 4 archiveBytes = [0x50, 0x4b, 3, 4] \<and> take 4 (drop 26 archiveBytes) = [8, 0, 0, 0] \<and>
     take 8 (drop 30 archiveBytes) = map of_char ''mimetype'' \<and>
     writtenBytes (callEvents (zipFirstRead (candidateSource c))) = map of_char ''application/epub+zip'')"

lemma header_facts:
  assumes "assertMimetypeLocalHeader bs e = Inr u"
  shows "archiveOffset e = 0 \<and> take 4 bs = [0x50, 0x4b, 3, 4] \<and> take 4 (drop 26 bs) = [8, 0, 0, 0] \<and>
    take 8 (drop 30 bs) = map of_char ''mimetype''"
proof -
  have n: "length MIMETYPE_PATH = 8" by (simp add: MIMETYPE_PATH_def js_def)
  from assms n have h: "archiveOffset e = 0" "30 \<le> length bs" "getUint32 bs 0 = 0x04034b50" "getUint16 bs 26 = 8"
      "getUint16 bs 28 = 0" "38 \<le> length bs" "\<forall>i < 8. unat (bs ! (30 + i)) = unat (MIMETYPE_PATH ! i)"
    by (auto simp: assertMimetypeLocalHeader_def Let_def LOCAL_FILE_HEADER_LENGTH_def LOCAL_FILE_HEADER_SIGNATURE_def
        LOCAL_FILE_HEADER_FILENAME_LENGTH_OFFSET_def LOCAL_FILE_HEADER_EXTRA_FIELD_LENGTH_OFFSET_def list_all_iff
        split: if_splits)
  have sig: "take 4 bs = [0x50, 0x4b, 3, 4]"
    by (rule littleEndian_inject) (use h(2,3) in \<open>simp_all add: getUint32_def\<close>)
  have name: "take 2 (drop 26 bs) = [8, 0]"
    by (rule littleEndian_inject) (use h(2,4) in \<open>simp_all add: getUint16_def\<close>)
  have extra: "take 2 (drop 28 bs) = [0, 0]"
    by (rule littleEndian_inject) (use h(2,5) in \<open>simp_all add: getUint16_def\<close>)
  have "take 4 (drop 26 bs) = take 2 (drop 26 bs) @ take 2 (drop 28 bs)"
    using take_add [of 2 2 "drop 26 bs"] by simp
  moreover have "take 8 (drop 30 bs) = map of_char ''mimetype''"
  proof (rule nth_equalityI)
    show "length (take 8 (drop 30 bs)) = length (map of_char ''mimetype'' :: bytes)" using h(6) by simp
    fix i
    assume "i < length (take 8 (drop 30 bs))"
    then have i: "i < 8" by simp
    then have "i \<in> {0, 1, 2, 3, 4, 5, 6, 7}" by auto
    then have "unat (MIMETYPE_PATH ! i) = unat ((map of_char ''mimetype'' :: bytes) ! i)"
      by (auto simp: MIMETYPE_PATH_def js_def)
    with h(7) i have "unat (bs ! (30 + i)) = unat ((map of_char ''mimetype'' :: bytes) ! i)" by metis
    then have "bs ! (30 + i) = (map of_char ''mimetype'' :: bytes) ! i" by (simp only: unsigned_word_eqI)
    with h(6) i show "take 8 (drop 30 bs) ! i = map of_char ''mimetype'' ! i" by simp
  qed
  ultimately show ?thesis using h(1) sig name extra by simp
qed

lemma wp_readCandidateData:
  assumes "budget_wf b"
  shows "wp (readCandidateData c m callerAborted call)
    (\<lambda>ds t. ds = writtenBytes (callEvents call) \<and> budget_follows b t) (\<lambda>_. budget_follows b) b"
  using read_is_exact [OF assms, of c m callerAborted call] by (rule wp_mono) (simp_all add: exact_read_def Let_def)

lemma wp_validateMimetype:
  assumes "budget_follows b c"
  shows "wp (validateMimetype bs cs) (\<lambda>_ t. budget_follows b t \<and> cs \<noteq> [] \<and> begins_with_mimetype bs (hd cs)) (\<lambda>_. budget_follows b) c"
proof (cases cs)
  case Nil
  then show ?thesis using assms by (simp add: validateMimetype_def wp_simps)
next
  case (Cons x xs)
  have wf: "budget_wf c" using assms by (simp add: budget_follows_def)
  note onwards = budget_follows_trans [OF assms]
  show ?thesis
    unfolding validateMimetype_def Cons Let_def list.case wp_if wp_raise wp_andThen
    by (auto simp: wp_lift assms begins_with_mimetype_def MIMETYPE_PATH_def MIMETYPE_BYTES_def wp_fun_throwIf
        split: sum.split intro!: wp_mono [OF wp_readCandidateData [OF wf]]) (auto dest!: header_facts onwards)
qed

section \<open>The inventory of an opened archive\<close>

definition inventory_wf :: "unicode_forms \<Rightarrow> ingestion_policy \<Rightarrow> bytes \<Rightarrow> candidate_entry list \<Rightarrow> archive_inventory \<Rightarrow> bool" where
  "inventory_wf u p archiveBytes cs inventory \<longleftrightarrow> (let es = inventoryEntries inventory in
     es = map inventoryEntry cs \<and> (\<forall>e \<in> set es. entry_wf p (int (length archiveBytes)) e) \<and>
     (\<forall>c \<in> set cs. reported p (inventoryEntry c) (candidateSource c)) \<and>
     distinct (map (\<lambda>e. caseFoldPath u (normalizeNFC u (archivePath e))) es) \<and>
     sorted (map archiveOffset es) \<and>
     entryCount inventory = length es \<and> int (length es) \<le> maxArchiveEntries p \<and>
     directoryCount inventory = length (filter (\<lambda>e. archiveKind e = DirectoryEntry) es) \<and>
     fileCount inventory = length (filter (\<lambda>e. archiveKind e = FileEntry) es) \<and>
     totalDeclaredUncompressedBytes inventory = sum_list (map archiveUncompressedSize es) \<and>
     totalDeclaredUncompressedBytes inventory \<le> maxTotalUncompressedBytes p \<and>
     cs \<noteq> [] \<and> begins_with_mimetype archiveBytes (hd cs))"

lemma filter_kinds: "length (filter (\<lambda>e. archiveKind e = FileEntry) es) = length es - length (filter (\<lambda>e. archiveKind e = DirectoryEntry) es)"
proof -
  have "length (filter (\<lambda>e. archiveKind e = FileEntry) es) = length (filter (\<lambda>e. archiveKind e \<noteq> DirectoryEntry) es)"
    by (rule arg_cong [where f = length], rule filter_cong) (metis entry_kind.exhaust entry_kind.distinct(1))+
  with sum_length_filter_compl [of "\<lambda>e. archiveKind e = DirectoryEntry" es] show ?thesis by linarith
qed

lemma inventoryOf_wf:
  assumes cs: "admitted b\<^sub>0 (int (length bs)) ds b" and u: "assertNoArchivePathCollisions u (map (\<lambda>c. archivePath (inventoryEntry c)) ds) = Inr v"
    and ordered: "cs = sort_key (\<lambda>c. archiveOffset (inventoryEntry c)) ds"
    and mimetype: "cs \<noteq> []" "begins_with_mimetype bs (hd cs)"
  shows "inventory_wf u (policy b) bs cs (inventoryOf cs (declaredUncompressedBytes b))"
proof -
  have m: "mset cs = mset ds" by (simp add: ordered)
  then have sets: "set cs = set ds" by (metis set_mset_mset)
  have lengths: "length cs = length ds" using m by (metis size_mset)
  have sums: "declared_sizes ds = sum_list (map (\<lambda>c. archiveUncompressedSize (inventoryEntry c)) cs)"
    unfolding declared_sizes_def by (metis m mset_map sum_mset_sum_list)
  have "distinct (map (\<lambda>c. caseFoldPath u (normalizeNFC u (archivePath (inventoryEntry c)))) ds)"
    using u by (auto simp: assertNoArchivePathCollisions_def collisionsAmong_iff comp_def split: if_splits)
  then have dist: "distinct (map (\<lambda>c. caseFoldPath u (normalizeNFC u (archivePath (inventoryEntry c)))) cs)"
    using mset_eq_imp_distinct_iff [of "map (\<lambda>c. caseFoldPath u (normalizeNFC u (archivePath (inventoryEntry c)))) cs"
      "map (\<lambda>c. caseFoldPath u (normalizeNFC u (archivePath (inventoryEntry c)))) ds"] m by simp
  have sorted: "sorted (map (\<lambda>c. archiveOffset (inventoryEntry c)) cs)" by (simp add: ordered)
  have wf: "budget_wf b" using cs by (simp add: admitted_def)
  have entries: "\<forall>c \<in> set cs. entry_wf (policy b) (int (length bs)) (inventoryEntry c) \<and>
      reported (policy b) (inventoryEntry c) (candidateSource c)"
    using cs unfolding admitted_def sets by blast
  have "int (length cs) \<le> maxArchiveEntries (policy b)" using cs lengths wf by (simp add: admitted_def budget_wf_def)
  moreover have "declaredUncompressedBytes b = sum_list (map (\<lambda>c. archiveUncompressedSize (inventoryEntry c)) cs)"
    using cs sums by (simp add: admitted_def)
  moreover have "declaredUncompressedBytes b \<le> maxTotalUncompressedBytes (policy b)" using wf by (simp add: budget_wf_def)
  ultimately show ?thesis
    using entries dist sorted mimetype by (simp add: inventory_wf_def inventoryOf_def Let_def filter_kinds comp_def)
qed

lemma wp_checkOrdered:
  assumes "budget_wf b"
  shows "wp (checkOrdered bs cs)
    (\<lambda>r t. r = (inventoryOf cs (declaredUncompressedBytes b), cs) \<and> budget_follows b t \<and> cs \<noteq> [] \<and>
       begins_with_mimetype bs (hd cs)) (\<lambda>_. budget_follows b) b"
    (is "wp _ ?Q _ _")
  unfolding checkOrdered_def wp_andThen
proof (rule wp_mono [OF wp_validateLocalStructure [OF budget_follows_refl [OF assms]]])
  fix x t
  assume t: "budget_follows b t"
  show "wp (validateMimetype bs cs) (\<lambda>_. wp (failing ArchiveThrows checkpoint) (\<lambda>_. wp (gets declaredUncompressedBytes)
      (\<lambda>declared. wp (ok (inventoryOf cs declared, cs)) ?Q (\<lambda>_. budget_follows b)) (\<lambda>_. budget_follows b))
      (\<lambda>_. budget_follows b)) (\<lambda>_. budget_follows b) t"
  proof (rule wp_mono [OF wp_validateMimetype [OF t]])
    fix x t2
    assume t2: "budget_follows b t2 \<and> cs \<noteq> [] \<and> begins_with_mimetype bs (hd cs)"
    then have "budget_follows b t2" by simp
    from follows_checkpoint [OF this]
    show "wp (failing ArchiveThrows checkpoint) (\<lambda>_. wp (gets declaredUncompressedBytes)
      (\<lambda>declared. wp (ok (inventoryOf cs declared, cs)) ?Q (\<lambda>_. budget_follows b)) (\<lambda>_. budget_follows b))
      (\<lambda>_. budget_follows b) t2"
      unfolding wp_failing by (rule wp_mono) (use t2 in \<open>auto simp: wp_simps budget_follows_def\<close>)
  qed
qed

lemma wp_admitArchive:
  assumes "admitted b (int (length bs)) [] b"
  shows "wp (admitArchive u bs listing)
    (\<lambda>(inventory, cs) t. inventory_wf u (policy b) bs cs inventory \<and> budget_wf t \<and> policy t = policy b \<and>
       mset (map candidateSource cs) = mset (listedEntries (listingEvents listing)) \<and>
       listingFailure listing = None) (\<lambda>_. budget_wf) b"
    (is "wp _ ?Q _ _")
proof -
  let ?ordered = "sort_key (\<lambda>c. archiveOffset (inventoryEntry c))"
  have ordered: "wp (checkOrdered bs (?ordered ds)) ?Q (\<lambda>_. budget_wf) t"
    if t: "admitted b (int (length bs)) ds t" and sources: "map candidateSource ds = listedEntries (listingEvents listing)"
      and none: "listingFailure listing = None"
      and u: "assertNoArchivePathCollisions u (map (\<lambda>c. archivePath (inventoryEntry c)) ds) = Inr ()" for ds t
  proof -
    have wf: "budget_wf t" "policy t = policy b" using t by (simp_all add: admitted_def)
    have m: "mset (map candidateSource (?ordered ds)) = mset (listedEntries (listingEvents listing))" by (simp flip: sources)
    show ?thesis
      by (rule wp_mono [OF wp_checkOrdered [OF wf(1)]])
        (use wf m none inventoryOf_wf [OF t u refl] in \<open>auto simp: budget_follows_def\<close>)
  qed
  show ?thesis
    unfolding admitArchive_def wp_andThen
  proof (rule wp_mono [OF wp_listEntries [OF assms]])
    fix ds t
    assume t: "admitted b (int (length bs)) ds t \<and>
      map candidateSource ds = map candidateSource [] @ listedEntries (listingEvents listing)"
    then have "budget_wf t" by (simp add: admitted_def)
    with t ordered [of ds t] show "wp (lift (case listingFailure listing of None \<Rightarrow> Inr () | Some e \<Rightarrow> Inl e))
      (\<lambda>_. wp (lift (case assertNoArchivePathCollisions u (map (\<lambda>c. archivePath (inventoryEntry c)) ds) of
            Inl e \<Rightarrow> Inl (PathThrows e) | Inr v \<Rightarrow> Inr v))
        (\<lambda>_. wp (checkOrdered bs (?ordered ds)) ?Q (\<lambda>_. budget_wf)) (\<lambda>_. budget_wf)) (\<lambda>_. budget_wf) t"
      by (cases "listingFailure listing"; cases "assertNoArchivePathCollisions u (map (\<lambda>c. archivePath (inventoryEntry c)) ds)")
        (simp_all add: wp_lift)
  qed (simp add: admitted_def)
qed

lemma wp_registerArchiveInput:
  assumes "budget_wf b"
  shows "wp (registerArchiveInput (Integral n))
    (\<lambda>_ t. budget_wf t \<and> policy t = policy b \<and> n \<le> maxCompressedEpubBytes (policy b) \<and>
       archiveEntryCount t = archiveEntryCount b \<and> declaredUncompressedBytes t = declaredUncompressedBytes b)
    (\<lambda>_. budget_wf) b"
  using assms by (auto simp: registerArchiveInput_def wp_simps budget_wf_def is_count_def intro!: wp_checkpoint)

lemma openedArchive_wf:
  assumes "openEpubArchive u overrides env bs listing = Inr a" and "p = policy (archiveBudget a)"
  shows "createEpubIngestionPolicy overrides = Inr p \<and> budget_wf (archiveBudget a) \<and>
    int (length bs) \<le> maxCompressedEpubBytes p \<and> listingFailure listing = None \<and>
    mset (map candidateSource (archiveCandidates a)) = mset (listedEntries (listingEvents listing)) \<and>
    inventory_wf u p bs (archiveCandidates a) (archiveInventory a)"
proof -
  from assms(1) obtain b where b: "createEpubProcessingBudget overrides env = Inr b"
    by (auto simp: openEpubArchive_def bindE_Inr)
  note fresh = createEpubProcessingBudget_Inr [OF b]
  from assms(1) b obtain v t where t: "registerArchiveInput (Integral (int (length bs))) b = (Inr v, t)"
    and rest: "(case admitArchive u bs listing t of
          (Inl e, b) \<Rightarrow> Inl (fst (mapArchiveError False e b))
        | (Inr (inventory, candidates), b) \<Rightarrow>
            Inr \<lparr>archiveInventory = inventory, archiveCandidates = candidates, archiveBudget = b\<rparr>) = Inr a"
    by (auto simp: openEpubArchive_def split: prod.splits sum.splits)
  from wp_registerArchiveInput [of b "int (length bs)"] fresh t have t': "budget_wf t" "policy t = policy b"
    "int (length bs) \<le> maxCompressedEpubBytes (policy b)" "archiveEntryCount t = 0" "declaredUncompressedBytes t = 0"
    by (auto simp: wp_def)
  then have "admitted t (int (length bs)) [] t" by (simp add: admitted_def declared_sizes_def)
  from wp_admitArchive [OF this, of u listing] rest t' fresh assms(2) show ?thesis
    by (auto simp: wp_def split: prod.splits sum.splits)
qed

text \<open>
  C30. An archive that opens is well formed. Its entries are those the ZIP reader listed, each once, in the
  order of their local headers; each is what the reader reports, decoded, with a canonical path, an offset
  inside the file, a 32-bit checksum, and sizes within the limits and the compression ratio; directories are
  empty; no two paths have the same case-folded normal form; the counts and the declared total are those of
  the entries and within the policy; and the file begins with the local header of a stored entry
  \<open>mimetype\<close> whose contents are \<open>application/epub+zip\<close>.
\<close>

theorem opened_archive_is_well_formed:
  assumes "openEpubArchive u overrides env bs listing = Inr a" and "p = policy (archiveBudget a)"
  shows "createEpubIngestionPolicy overrides = Inr p \<and> budget_wf (archiveBudget a) \<and>
    int (length bs) \<le> maxCompressedEpubBytes p \<and> listingFailure listing = None \<and>
    mset (map candidateSource (archiveCandidates a)) = mset (listedEntries (listingEvents listing)) \<and>
    inventory_wf u p bs (archiveCandidates a) (archiveInventory a)"
  using assms by (rule openedArchive_wf)

section \<open>An archive that opens\<close>

definition mimetype_call :: zip_call where
  "mimetype_call = \<lparr>callEvents = [ZipWrite (Some MIMETYPE_BYTES), ZipClose], callFailure = None, callSubstitute = None\<rparr>"

definition mimetype_zip :: zip_entry where
  "mimetype_zip = plain_zip (map of_char ''mimetype'') MIMETYPE_PATH mimetype_call 20"

definition mimetype_archive :: bytes where
  "mimetype_archive = [0x50, 0x4b, 3, 4] @ replicate 22 0 @ [8, 0, 0, 0] @ map of_char ''mimetype''"

definition plain_forms :: unicode_forms where
  "plain_forms = \<lparr>normalizeNFC = id, normalizeNFKC = id, upperUnd = id, lowerUnd = id\<rparr>"

lemma unescaped_harmless: "\<not> hasPercentEscape v \<Longrightarrow> v \<noteq> [] \<Longrightarrow> \<not> hasEncodedPathHazard v"
  by (cases v) (simp_all add: hasEncodedPathHazard_def)

lemma mimetype_decoded: "decodeArchiveEntryPath (map unat (map of_char ''mimetype'' :: bytes)) FileEntry DEFAULT_EPUB_INGESTION_POLICY = Inr MIMETYPE_PATH"
proof -
  have cps: "code_points MIMETYPE_PATH = [109, 105, 109, 101, 116, 121, 112, 101]"
    by (simp add: MIMETYPE_PATH_def js_def is_high_surrogate_def)
  have units: "MIMETYPE_PATH = [109, 105, 109, 101, 116, 121, 112, 101]" by (simp add: MIMETYPE_PATH_def js_def)
  have bytes: "map unat (map of_char ''mimetype'' :: bytes) = utf8Encode MIMETYPE_PATH"
    by (simp add: utf8Encode_def cps utf8_bytes_def)
  have wf: "isWellFormedUnicode MIMETYPE_PATH" by (simp add: units is_high_surrogate_def is_low_surrogate_def)
  have "pathUtf8ByteLength MIMETYPE_PATH = 8" "\<not> hasForbiddenCodePoint MIMETYPE_PATH"
    by (simp_all add: pathUtf8ByteLength_def utf8_length_def hasForbiddenCodePoint_def cps)
  moreover have "splitSlash MIMETYPE_PATH = [MIMETYPE_PATH]" "\<not> hasDrivePrefix MIMETYPE_PATH" "backslash \<notin> set MIMETYPE_PATH"
    "MIMETYPE_PATH \<notin> {[], [dot], [dot, dot]}" "\<not> hasPercentEscape MIMETYPE_PATH" "length MIMETYPE_PATH = Suc 7"
    by (simp_all add: units)
  ultimately have "accepted_file DEFAULT_EPUB_INGESTION_POLICY MIMETYPE_PATH"
    using wf unescaped_harmless [of MIMETYPE_PATH] by (simp add: accepted_file_def DEFAULT_EPUB_INGESTION_POLICY_def)
  then show ?thesis
    unfolding bytes using utf8Decode_Encode [OF wf] parse_file_iff [of MIMETYPE_PATH DEFAULT_EPUB_INGESTION_POLICY MIMETYPE_PATH]
    by (simp add: decodeArchiveEntryPath_def parseArchiveEntryPath_def accepted_file_def length_utf8Encode)
qed

lemma mimetype_candidate:
  "createCandidateEntry mimetype_zip 38 DEFAULT_EPUB_INGESTION_POLICY = Inr (plain_entry MIMETYPE_PATH 20 mimetype_zip)"
  using mimetype_decoded
  by (simp add: createCandidateEntry_def mimetype_zip_def plain_zip_def plain_entry_def assertArchiveInteger_def is_count_iff
      readEntryKind_def readCompressionMethod_def COMPRESSION_METHOD_STORE_def
      UNIX_FILE_TYPE_DIRECTORY_def UNIX_FILE_TYPE_REGULAR_def)

lemma mimetype_header: "assertMimetypeLocalHeader mimetype_archive (inventoryEntry (plain_entry MIMETYPE_PATH 20 mimetype_zip)) = Inr ()"
proof -
  have bs: "mimetype_archive = [0x50, 0x4b, 3, 4, 0, 0, 0, 0, 0, 0, 0, 0, 0, 0, 0, 0, 0, 0, 0, 0, 0, 0, 0, 0, 0, 0, 8, 0, 0, 0,
      109, 105, 109, 101, 116, 121, 112, 101]"
    by (simp add: mimetype_archive_def numeral_eq_Suc)
  have "getUint32 mimetype_archive 0 = LOCAL_FILE_HEADER_SIGNATURE" "getUint16 mimetype_archive 26 = 8" "getUint16 mimetype_archive 28 = 0"
    by (simp_all add: bs getUint32_def getUint16_def LOCAL_FILE_HEADER_SIGNATURE_def)
  moreover have "[0..<8] = [0, 1, 2, 3, 4, 5, 6, 7::nat]" by (simp add: upt_rec)
  then have "list_all (\<lambda>i. unat (mimetype_archive ! (30 + i)) = unat (MIMETYPE_PATH ! i)) [0..<8]"
    by (simp add: bs MIMETYPE_PATH_def js_def)
  moreover have "length MIMETYPE_PATH = 8" "length mimetype_archive = 38" by (simp_all add: bs MIMETYPE_PATH_def js_def)
  ultimately show ?thesis
    by (simp add: assertMimetypeLocalHeader_def plain_entry_def LOCAL_FILE_HEADER_LENGTH_def Let_def
      LOCAL_FILE_HEADER_FILENAME_LENGTH_OFFSET_def LOCAL_FILE_HEADER_EXTRA_FIELD_LENGTH_OFFSET_def)
qed

lemmas open_defs = read_defs registerArchiveEntryDeclaration_def validateLocalStructure_def checkStructure_def structureCall_def
  lift_def throwIf_def validateMimetype_def

lemma sample_listed:
  "listEntries 38 [ListProgress False, ListEntry mimetype_zip] [] (sample_budget\<lparr>archiveInputRegistered := True, looked := 3\<rparr>) =
     (Inr [plain_entry MIMETYPE_PATH 20 mimetype_zip], sample_budget\<lparr>archiveInputRegistered := True, looked := 6, archiveEntryCount := 1,
        declaredCompressedBytes := 20, declaredUncompressedBytes := 20\<rparr>)"
  using mimetype_candidate
  by (simp add: admitEntry_def open_defs) (simp add: plain_entry_def open_defs)

lemma sample_checked:
  "\<exists>b. checkOrdered mimetype_archive [plain_entry MIMETYPE_PATH 20 mimetype_zip] (sample_budget\<lparr>archiveInputRegistered := True, looked := 6, archiveEntryCount := 1,
        declaredCompressedBytes := 20, declaredUncompressedBytes := 20\<rparr>) =
     (Inr (inventoryOf [plain_entry MIMETYPE_PATH 20 mimetype_zip] 20, [plain_entry MIMETYPE_PATH 20 mimetype_zip]), b)"
  using mimetype_header
  by (simp add: checkOrdered_def open_defs)
    (simp add: plain_entry_def open_defs mimetype_zip_def plain_zip_def mimetype_call_def MIMETYPE_BYTES_def)

lemma sample_opens:
  "\<exists>a. openEpubArchive plain_forms [] quiet_env mimetype_archive
     \<lparr>listingEvents = [ListProgress False, ListEntry mimetype_zip], listingFailure = None\<rparr> = Inr a"
proof -
  have n: "length mimetype_archive = 38" by (simp add: mimetype_archive_def)
  have "registerArchiveInput (Integral 38) sample_budget = (Inr (), sample_budget\<lparr>archiveInputRegistered := True, looked := 3\<rparr>)"
    by (simp add: registerArchiveInput_def read_defs)
  with n sample_created sample_listed sample_checked show ?thesis
    by (auto simp: openEpubArchive_def admitArchive_def andThen_apply lift_def assertNoArchivePathCollisions_def)
qed

theorem opened_archive_is_well_formed_witness:
  "\<exists>a :: opened_archive. inventory_wf plain_forms (policy (archiveBudget a)) mimetype_archive (archiveCandidates a) (archiveInventory a)"
proof -
  obtain a where "openEpubArchive plain_forms [] quiet_env mimetype_archive
      \<lparr>listingEvents = [ListProgress False, ListEntry mimetype_zip], listingFailure = None\<rparr> = Inr a"
    using sample_opens by blast
  from opened_archive_is_well_formed [OF this refl] show ?thesis by blast
qed

end
