(* ===== verification/Archive_Handle.thy ===== *)
theory Archive_Handle
  imports Archive_Inventory
begin

text \<open>
  packages/epub/src/archive/archive-inventory.ts, \<open>OpenedEpubArchiveHandle\<close>: the archive a publication
  reads from once it is open. One read at a time; \<open>close\<close> refuses new reads at once and closes the ZIP
  reader when the read under way, if any, has ended. A turn is a call of a method or the end of a call of
  the ZIP reader. The budget of the archive is used by one operation at a time.
\<close>

record archive_read =
  readCandidate :: candidate_entry
  readWriter :: entry_writer
  readIsResource :: bool
  readMaximum :: "js_number option"
  readAborted :: "nat \<Rightarrow> bool"

record archive_handle =
  entriesByPath :: "js_string \<Rightarrow> candidate_entry option"
  handleBudget :: budget
  archiveClosed :: bool
  archiveRead :: "archive_read option"
  closeOperation :: bool
  readerCloses :: nat

definition createArchiveHandle :: "opened_archive \<Rightarrow> archive_handle" where
  "createArchiveHandle a =
     \<lparr>entriesByPath = map_of (rev (map (\<lambda>c. (archivePath (inventoryEntry c), c)) (archiveCandidates a))),
      handleBudget = archiveBudget a, archiveClosed = False, archiveRead = None, closeOperation = False, readerCloses = 0\<rparr>"

text \<open>The budget a read charges: its own for a resource operation, else the archive's.\<close>

definition storeBudget :: "bool \<Rightarrow> budget \<Rightarrow> archive_handle \<Rightarrow> archive_handle" where
  "storeBudget resource b h = (if resource then h else h\<lparr>handleBudget := b\<rparr>)"

definition rejectRead :: "bool \<Rightarrow> (nat \<Rightarrow> bool) \<Rightarrow> thrown \<Rightarrow> budget \<Rightarrow> archive_handle \<Rightarrow> epub_error \<times> archive_handle" where
  "rejectRead resource callerAborted e b h =
     (case mapArchiveError (callerAborted (looked b)) e b of (code, b) \<Rightarrow> (code, storeBudget resource b h))"

definition beginEntryRead ::
    "(js_string \<Rightarrow> candidate_entry option) \<Rightarrow> js_string \<Rightarrow> js_number option \<Rightarrow> (nat \<Rightarrow> bool) \<Rightarrow>
     (budget, thrown, candidate_entry \<times> entry_writer) prog" where
  "beginEntryRead entries path maximumBytes callerAborted =
     andThen (failing ArchiveThrows (checkpointOperation callerAborted)) (\<lambda>_.
     case entries path of
       None \<Rightarrow> raise (ArchiveThrows InvalidContainer)
     | Some c \<Rightarrow>
         if archiveKind (inventoryEntry c) \<noteq> FileEntry then raise (ArchiveThrows InvalidContainer)
         else andThen (beginCandidateRead c maximumBytes) (\<lambda>w. ok (c, w)))"

text \<open>
  \<open>readEntry\<close> up to the call of the ZIP reader: the error it rejects with, or \<open>None\<close> when the read has begun.
  \<open>callerAborted n\<close> is what the caller's signal shows beside look n of the archive's budget.
\<close>

definition readEntry ::
    "js_string \<Rightarrow> js_number option \<Rightarrow> bool \<Rightarrow> (nat \<Rightarrow> bool) \<Rightarrow> archive_handle \<Rightarrow> epub_error option \<times> archive_handle" where
  "readEntry path maximumBytes resource callerAborted h =
     (if archiveClosed h \<or> archiveRead h \<noteq> None then (Some InternalFailure, h)
      else case (if resource then createResourceOperation callerAborted (handleBudget h) else Inr (handleBudget h)) of
        Inl e \<Rightarrow> (case rejectRead False callerAborted (ArchiveThrows e) (handleBudget h) h of (code, h) \<Rightarrow> (Some code, h))
      | Inr operation \<Rightarrow>
          let aborted = (if resource then \<lambda>n. callerAborted (looked (handleBudget h) + n) else callerAborted) in
          (case beginEntryRead (entriesByPath h) path maximumBytes aborted operation of
             (Inl e, b) \<Rightarrow> (case rejectRead resource aborted e b h of (code, h) \<Rightarrow> (Some code, h))
           | (Inr (c, w), b) \<Rightarrow>
               (None, (storeBudget resource b h)\<lparr>archiveRead := Some \<lparr>readCandidate = c, readWriter = w,
                  readIsResource = resource, readMaximum = maximumBytes, readAborted = aborted\<rparr>\<rparr>)))"

definition releaseReader :: "archive_handle \<Rightarrow> archive_handle" where
  "releaseReader h = (if closeOperation h \<and> archiveRead h = None \<and> readerCloses h = 0 then h\<lparr>readerCloses := 1\<rparr> else h)"

text \<open>The rest of \<open>readEntry\<close> once the ZIP reader is through.\<close>

definition settleEntryRead :: "zip_call \<Rightarrow> archive_handle \<Rightarrow> (epub_error + bytes) option \<times> archive_handle" where
  "settleEntryRead call h = (case archiveRead h of
       None \<Rightarrow> (None, h)
     | Some q \<Rightarrow> (case finishCandidateRead (readAborted q) call (readWriter q) of
           (Inr ds, w) \<Rightarrow> (Some (Inr ds),
              releaseReader ((storeBudget (readIsResource q) (readBudget (writerRead w)) h)\<lparr>archiveRead := None\<rparr>))
         | (Inl e, w) \<Rightarrow> (case rejectRead (readIsResource q) (readAborted q) e (readBudget (writerRead w)) h of
              (code, h) \<Rightarrow> (Some (Inl code), releaseReader (h\<lparr>archiveRead := None\<rparr>)))))"

definition closeArchive :: "archive_handle \<Rightarrow> archive_handle" where
  "closeArchive h = (if closeOperation h then h else releaseReader (h\<lparr>archiveClosed := True, closeOperation := True\<rparr>))"

text \<open>\<open>reader.close()\<close> has settled, either way.\<close>

definition settleReaderClose :: "archive_handle \<Rightarrow> archive_handle" where
  "settleReaderClose h = (if readerCloses h = 1 then h\<lparr>entriesByPath := Map.empty\<rparr> else h)"

datatype archive_event =
    ReadEntry js_string "js_number option" bool "nat \<Rightarrow> bool" | EntryReadSettles zip_call | CloseArchive | ReaderCloseSettles

fun archive_step :: "archive_event \<Rightarrow> archive_handle \<Rightarrow> (epub_error + bytes) option \<times> archive_handle" where
  "archive_step (ReadEntry path m resource callerAborted) h =
     (case readEntry path m resource callerAborted h of (e, h) \<Rightarrow> (map_option Inl e, h))"
| "archive_step (EntryReadSettles call) h = settleEntryRead call h"
| "archive_step CloseArchive h = (None, closeArchive h)"
| "archive_step ReaderCloseSettles h = (None, settleReaderClose h)"

section \<open>The invariant\<close>

definition read_underway :: "candidate_entry list \<Rightarrow> archive_read \<Rightarrow> bool" where
  "read_underway cs q \<longleftrightarrow> readCandidate q \<in> set cs \<and> (\<exists>b. budget_wf b \<and> read_begun (readCandidate q) (readMaximum q) b (readWriter q))"

definition archive_handle_inv :: "candidate_entry list \<Rightarrow> archive_handle \<Rightarrow> bool" where
  "archive_handle_inv cs h \<longleftrightarrow> budget_wf (handleBudget h) \<and> closeOperation h = archiveClosed h \<and>
     (\<forall>path c. entriesByPath h path = Some c \<longrightarrow> c \<in> set cs \<and> archivePath (inventoryEntry c) = path) \<and>
     (\<forall>q. archiveRead h = Some q \<longrightarrow> read_underway cs q) \<and>
     readerCloses h = (if archiveClosed h \<and> archiveRead h = None then 1 else 0)"

lemma wp_mapArchiveError: "budget_wf b \<Longrightarrow> budget_wf (snd (mapArchiveError ab e b))"
  using wp_checkpoint [of b "\<lambda>_. budget_wf" "\<lambda>_. budget_wf"]
  by (cases e) (auto simp: mapArchiveError_def wp_def budget_wf_def split: prod.splits sum.splits)

lemma wp_beginEntryRead:
  assumes "budget_wf b" and "\<forall>path c. entries path = Some c \<longrightarrow> c \<in> set cs \<and> archivePath (inventoryEntry c) = path"
  shows "wp (beginEntryRead entries path m callerAborted)
    (\<lambda>(c, w) t. budget_wf t \<and> entries path = Some c \<and> (\<exists>b. budget_wf b \<and> read_begun c m b w)) (\<lambda>_. budget_wf) b"
proof -
  have begin_read: "wp (beginCandidateRead c m) (\<lambda>w. wp (ok (c, w))
      (\<lambda>(d, w) t. budget_wf t \<and> c = d \<and> (\<exists>b. budget_wf b \<and> read_begun d m b w)) (\<lambda>_. budget_wf)) (\<lambda>_. budget_wf) t"
    if "budget_wf t" for c t
    using that by (intro wp_mono [OF wp_beginCandidateRead]) (auto simp: wp_simps read_begun_def budget_follows_def)
  have "wp (checkpointOperation callerAborted) (\<lambda>_. budget_wf) (\<lambda>_. budget_wf) b"
    using assms(1) by (intro wp_checkpointOperation wp_checkpoint) (auto simp: budget_wf_def)
  then show ?thesis
    unfolding beginEntryRead_def wp_andThen wp_failing
    by (rule wp_mono) (auto simp: wp_simps begin_read split: option.split)
qed

lemma createResourceOperation_wf: "createResourceOperation callerAborted b = Inr c \<Longrightarrow> budget_wf c"
  unfolding createResourceOperation_def by (drule createEpubProcessingBudget_Inr) simp

lemma rejectRead_frame:
  assumes "rejectRead resource ab e b h = (code, h')"
  shows "h' = h\<lparr>handleBudget := handleBudget h'\<rparr> \<and> (budget_wf b \<longrightarrow> budget_wf (handleBudget h) \<longrightarrow> budget_wf (handleBudget h'))"
  using assms wp_mapArchiveError [of b "ab (looked b)" e]
  by (auto simp: rejectRead_def storeBudget_def split: prod.splits if_splits)

text \<open>What a call of \<open>readEntry\<close> does, when it is not refused outright.\<close>

lemma readEntry_effect:
  assumes "archive_handle_inv cs h" and "readEntry path m resource callerAborted h = (r, h')"
  shows "(case r of
      Some e \<Rightarrow> h' = h\<lparr>handleBudget := handleBudget h'\<rparr>
    | None \<Rightarrow> \<not> archiveClosed h \<and> archiveRead h = None \<and> (\<exists>q. h' = h\<lparr>handleBudget := handleBudget h', archiveRead := Some q\<rparr> \<and>
        read_underway cs q \<and> readMaximum q = m \<and> archivePath (inventoryEntry (readCandidate q)) = path)) \<and>
    budget_wf (handleBudget h')"
proof (cases "archiveClosed h \<or> archiveRead h \<noteq> None")
  case True
  with assms show ?thesis by (auto simp: readEntry_def archive_handle_inv_def)
next
  case False
  have wf: "budget_wf (handleBudget h)"
    and entries: "\<forall>path c. entriesByPath h path = Some c \<longrightarrow> c \<in> set cs \<and> archivePath (inventoryEntry c) = path"
    using assms(1) by (simp_all add: archive_handle_inv_def)
  show ?thesis
  proof (cases "if resource then createResourceOperation callerAborted (handleBudget h) else Inr (handleBudget h)")
    case (Inl e)
    with assms(2) False wf show ?thesis
      by (auto simp: readEntry_def split: prod.splits dest!: rejectRead_frame)
  next
    case (Inr operation)
    define ab where "ab = (if resource then \<lambda>n. callerAborted (looked (handleBudget h) + n) else callerAborted)"
    have op: "budget_wf operation" using Inr wf createResourceOperation_wf by (auto split: if_splits)
    obtain x b where b: "beginEntryRead (entriesByPath h) path m ab operation = (x, b)" by fastforce
    note begun = wp_beginEntryRead [OF op entries, of path m ab, unfolded wp_def b]
    show ?thesis
    proof (cases x)
      case (Inl e)
      with assms(2) False Inr b begun wf show ?thesis
        by (auto simp: readEntry_def Let_def simp flip: ab_def split: prod.splits dest!: rejectRead_frame)
    next
      fix cw
      assume x: "x = Inr cw"
      obtain c w where cw: "cw = (c, w)" by fastforce
      have "r = None" and h': "h' = (storeBudget resource b h)\<lparr>archiveRead := Some \<lparr>readCandidate = c, readWriter = w,
          readIsResource = resource, readMaximum = m, readAborted = ab\<rparr>\<rparr>"
        using assms(2) False Inr b x cw by (auto simp: readEntry_def Let_def simp flip: ab_def)
      moreover have "handleBudget h' = (if resource then handleBudget h else b)" using h' by (simp add: storeBudget_def)
      ultimately show ?thesis
        using False x cw begun entries wf
        by (auto simp: read_underway_def storeBudget_def intro!: exI [of _ "\<lparr>readCandidate = c, readWriter = w,
          readIsResource = resource, readMaximum = m, readAborted = ab\<rparr>"])
    qed
  qed
qed

text \<open>What the end of a read does: the bytes it returns are those of the entry.\<close>

definition delivers :: "archive_read \<Rightarrow> zip_call \<Rightarrow> bytes \<Rightarrow> bool" where
  "delivers q call ds \<longleftrightarrow> ds = writtenBytes (callEvents call) \<and> archiveKind (inventoryEntry (readCandidate q)) = FileEntry \<and>
     int (length ds) = archiveUncompressedSize (inventoryEntry (readCandidate q)) \<and>
     (\<forall>n. readMaximum q = Some (Integral n) \<longrightarrow> int (length ds) \<le> n)"

lemma settle_effect:
  assumes "archive_handle_inv cs h" and "archiveRead h = Some q" and "settleEntryRead call h = (r, h')"
  shows "\<exists>b. budget_wf b \<and> h' = releaseReader (h\<lparr>handleBudget := b, archiveRead := None\<rparr>) \<and>
    (\<exists>a. r = Some a \<and> (\<forall>ds. a = Inr ds \<longrightarrow> delivers q call ds))"
proof -
  have wf: "budget_wf (handleBudget h)" and "read_underway cs q" using assms(1,2) by (simp_all add: archive_handle_inv_def)
  then obtain b where b: "budget_wf b" "read_begun (readCandidate q) (readMaximum q) b (readWriter q)"
    by (auto simp: read_underway_def)
  obtain x w where w: "finishCandidateRead (readAborted q) call (readWriter q) = (x, w)" by fastforce
  have stored: "(storeBudget resource b h)\<lparr>archiveRead := None\<rparr> =
      h\<lparr>handleBudget := (if resource then handleBudget h else b), archiveRead := None\<rparr>" for resource b
    by (simp add: storeBudget_def)
  note finish = finish_is_exact [OF b(2) w]
  show ?thesis
  proof (cases x)
    case (Inr ds)
    with finish have "delivers q call ds" "budget_wf (readBudget (writerRead w))"
      by (auto simp: exact_read_def delivers_def budget_follows_def Let_def)
    moreover have "r = Some (Inr ds)" and
      "h' = releaseReader ((storeBudget (readIsResource q) (readBudget (writerRead w)) h)\<lparr>archiveRead := None\<rparr>)"
      using assms(2,3) w Inr by (simp_all add: settleEntryRead_def)
    ultimately show ?thesis
      using wf by (intro exI [of _ "if readIsResource q then handleBudget h else readBudget (writerRead w)"]) (simp only: stored, simp)
  next
    case (Inl e)
    obtain code g where g: "rejectRead (readIsResource q) (readAborted q) e (readBudget (writerRead w)) h = (code, g)" by fastforce
    from finish Inl have "budget_wf (readBudget (writerRead w))" by (simp add: budget_follows_def)
    with rejectRead_frame [OF g] wf have "g = h\<lparr>handleBudget := handleBudget g\<rparr>" "budget_wf (handleBudget g)" by blast+
    moreover have "r = Some (Inl code)" "h' = releaseReader (g\<lparr>archiveRead := None\<rparr>)"
      using assms(2,3) w Inl g by (simp_all add: settleEntryRead_def)
    ultimately show ?thesis by (intro exI [of _ "handleBudget g"]) (metis archive_handle.update_convs(2,4) sum.distinct(1))
  qed
qed

lemma archive_step_inv:
  assumes "archive_handle_inv cs h"
  shows "archive_handle_inv cs (snd (archive_step e h))"
proof (cases e)
  case (ReadEntry path m resource ab)
  obtain r h' where r: "readEntry path m resource ab h = (r, h')" by fastforce
  have "archive_handle_inv cs h'"
  proof (cases r)
    case (Some x)
    with readEntry_effect [OF assms r] have h': "h' = h\<lparr>handleBudget := handleBudget h'\<rparr>" "budget_wf (handleBudget h')" by simp_all
    show ?thesis by (subst h'(1)) (use assms h'(2) in \<open>auto simp: archive_handle_inv_def\<close>)
  next
    case None
    with readEntry_effect [OF assms r] obtain q where
      h': "h' = h\<lparr>handleBudget := handleBudget h', archiveRead := Some q\<rparr>" "budget_wf (handleBudget h')"
      and q: "\<not> archiveClosed h" "read_underway cs q" "archiveRead h = None" by auto
    show ?thesis by (subst h'(1)) (use assms h'(2) q in \<open>auto simp: archive_handle_inv_def\<close>)
  qed
  with r ReadEntry show ?thesis by simp
next
  case (EntryReadSettles call)
  show ?thesis
  proof (cases "archiveRead h")
    case None
    with assms EntryReadSettles show ?thesis by (simp add: settleEntryRead_def)
  next
    case (Some q)
    obtain r h' where "settleEntryRead call h = (r, h')" by fastforce
    with settle_effect [OF assms Some this] EntryReadSettles assms show ?thesis
      by (auto simp: archive_handle_inv_def releaseReader_def Some)
  qed
qed (use assms in \<open>auto simp: archive_handle_inv_def closeArchive_def settleReaderClose_def releaseReader_def\<close>)

interpretation archive: guarded_machine archive_step "archive_handle_inv cs"
  by unfold_locales (rule archive_step_inv)

lemma created_archive_inv:
  assumes "openEpubArchive u overrides env bs listing = Inr a"
  shows "archive_handle_inv (archiveCandidates a) (createArchiveHandle a)"
  using openedArchive_wf [OF assms refl]
  by (auto simp: archive_handle_inv_def createArchiveHandle_def dest!: map_of_SomeD)

section \<open>Properties\<close>

lemma closed_archive_step:
  assumes "archive_handle_inv cs h" and "archiveClosed h"
  shows "archiveClosed (snd (archive_step e h)) \<and> (archiveRead h = None \<longrightarrow> archiveRead (snd (archive_step e h)) = None)"
proof (cases e)
  case (EntryReadSettles call)
  show ?thesis
  proof (cases "archiveRead h")
    case None
    with assms EntryReadSettles show ?thesis by (simp add: settleEntryRead_def)
  next
    case (Some q)
    obtain r h' where "settleEntryRead call h = (r, h')" by fastforce
    with settle_effect [OF assms(1) Some this] EntryReadSettles assms Some show ?thesis
      by (auto simp: releaseReader_def)
  qed
qed (use assms in \<open>auto simp: readEntry_def closeArchive_def settleReaderClose_def releaseReader_def\<close>)

lemma closed_archive_run:
  "archive_handle_inv cs h \<Longrightarrow> archiveClosed h \<Longrightarrow>
     archiveClosed (run archive_step es h) \<and> (archiveRead h = None \<longrightarrow> archiveRead (run archive_step es h) = None)"
proof (induction es arbitrary: h)
  case (Cons e es)
  from closed_archive_step [OF Cons.prems, of e] Cons.IH [OF archive_step_inv [OF Cons.prems(1)], of e] show ?case by simp
qed simp

text \<open>
  C31. An opened archive hands out exact entries, one at a time, and closes cleanly. In every reachable state
  the bytes a read returns are all the bytes of an entry of the archive, a file, of the declared size and
  within the caller's maximum; a call while another read is under way or after \<open>close\<close> is refused and changes
  nothing; the ZIP reader is closed exactly once, after \<open>close\<close> was called and the read under way has ended;
  and nothing opens the archive again.
\<close>

theorem archive_reads_exactly_and_closes_once:
  assumes "openEpubArchive u overrides env bs listing = Inr a"
    and "h = run archive_step es (createArchiveHandle a)"
  shows "(\<forall>q call ds. archiveRead h = Some q \<and> fst (archive_step (EntryReadSettles call) h) = Some (Inr ds) \<longrightarrow>
      readCandidate q \<in> set (archiveCandidates a) \<and> delivers q call ds) \<and>
    (archiveClosed h \<or> archiveRead h \<noteq> None \<longrightarrow>
      archive_step (ReadEntry path m resource callerAborted) h = (Some (Inl InternalFailure), h)) \<and>
    readerCloses h = (if archiveClosed h \<and> archiveRead h = None then 1 else 0) \<and>
    (archiveClosed h \<longrightarrow> archiveClosed (run archive_step later h) \<and>
      (archiveRead h = None \<longrightarrow> archiveRead (run archive_step later h) = None))"
proof -
  have inv: "archive_handle_inv (archiveCandidates a) h"
    unfolding assms(2) by (rule archive.run_inv [OF created_archive_inv [OF assms(1)]])
  have "readCandidate q \<in> set (archiveCandidates a) \<and> delivers q call ds"
    if q: "archiveRead h = Some q" "fst (archive_step (EntryReadSettles call) h) = Some (Inr ds)" for q call ds
  proof -
    obtain r h' where r: "settleEntryRead call h = (r, h')" by fastforce
    from settle_effect [OF inv q(1) r] q(2) r have "delivers q call ds" by auto
    with inv q(1) show ?thesis by (simp add: archive_handle_inv_def read_underway_def)
  qed
  moreover have "readerCloses h = (if archiveClosed h \<and> archiveRead h = None then 1 else 0)"
    using inv by (simp add: archive_handle_inv_def)
  ultimately show ?thesis using closed_archive_run [OF inv] by (auto simp: readEntry_def)
qed

theorem archive_reads_exactly_and_closes_once_witness:
  "\<exists>a :: opened_archive. readerCloses (run archive_step [CloseArchive] (createArchiveHandle a)) = 1"
proof -
  obtain a where "openEpubArchive plain_forms [] quiet_env mimetype_archive
      \<lparr>listingEvents = [ListProgress False, ListEntry mimetype_zip], listingFailure = None\<rparr> = Inr a"
    using sample_opens by blast
  from archive_reads_exactly_and_closes_once [OF this refl, of "[CloseArchive]"] show ?thesis
    by (intro exI [of _ a]) (simp add: closeArchive_def createArchiveHandle_def releaseReader_def)
qed

end
