(* ===== verification/Publication_Session.thy ===== *)
theory Publication_Session
  imports Ingestion_Policy "HOL-Library.Multiset"
begin

text \<open>
  apps/desktop/src/publication/publication-session.ts: the owner of the one publication that is open. Its
  methods are asynchronous, so it runs in turns: calls of \<open>open\<close> and \<open>close\<close>, the continuation of an
  \<open>open\<close> call once what it awaits has settled, the answer of the EPUB opener, and the end of the close of a
  publication. Each call of \<open>open\<close> has a number; its attempt and the publication the opener gives it carry
  that number too, as each is a fresh object.
\<close>

section \<open>State\<close>

text \<open>The outcome of the opener: the publication, a failure, or an exception.\<close>

datatype opener_outcome = OpenerSucceeds | OpenerFails epub_error | OpenerThrows

datatype session_open_result = SessionReady nat | SessionCancelled | SessionRejected epub_error

datatype session_close_result = SessionClosed | SessionCloseRejected epub_error

text \<open>
  Each publication that is queued for closing gets an asynchronous function of its own: it awaits the clean-up
  promise there was when it was queued, then calls \<open>close\<close> on the publication and awaits it. The clean-up
  promises are numbered: 0 is the one resolved with \<open>true\<close> at the start, and \<open>Suc j\<close> is that of the j-th
  function. The stage of a function is what it awaits, with what it already knows, or its result. The promise
  of \<open>close()\<close> is its serial number with the clean-up promise it maps.
\<close>

datatype cleanup_stage = AwaitsPrevious nat | Closing bool | Cleaned bool

type_synonym close_promise = "nat \<times> nat"

text \<open>Where a call of \<open>open\<close> stands: what it awaits, or its answer.\<close>

datatype open_call =
    AwaitsClose close_promise nat
  | AwaitsCleanup nat
  | AwaitsOpener
  | AwaitsLateClose nat
  | OpenAnswered session_open_result

text \<open>
  \<open>cleanupQueue\<close> and \<open>cleanupStages\<close> are the publications and the stages of the clean-up functions in the order
  they were started; \<open>closeCalls\<close> and \<open>closeResults\<close> record the publications whose \<open>close\<close> has been called, and
  the outcomes of those calls, in the order this happens.
\<close>

record publication_session =
  activeAttempt :: "nat option"
  abortedAttempts :: "nat list"
  activePublication :: "nat option"
  closePromise :: "close_promise option"
  cleanupPromise :: nat
  cleanupQueue :: "nat list"
  cleanupStages :: "cleanup_stage list"
  closeCalls :: "nat list"
  closeResults :: "bool list"
  intentVersion :: nat
  openCalls :: "nat \<Rightarrow> open_call option"
  nextCall :: nat
  nextClose :: nat

definition createPublicationSession :: publication_session where
  "createPublicationSession = \<lparr>activeAttempt = None, abortedAttempts = [], activePublication = None, closePromise = None,
     cleanupPromise = 0, cleanupQueue = [], cleanupStages = [], closeCalls = [], closeResults = [], intentVersion = 0,
     openCalls = Map.empty, nextCall = 0, nextClose = 0\<rparr>"

text \<open>What a clean-up promise has settled with.\<close>

definition cleanupResult :: "publication_session \<Rightarrow> nat \<Rightarrow> bool option" where
  "cleanupResult s k = (case k of 0 \<Rightarrow> Some True
     | Suc j \<Rightarrow> if length (cleanupStages s) \<le> j then None
         else (case cleanupStages s ! j of Cleaned b \<Rightarrow> Some b | _ \<Rightarrow> None))"

definition cleanupSettled :: "publication_session \<Rightarrow> nat \<Rightarrow> bool" where
  "cleanupSettled s k \<longleftrightarrow> cleanupResult s k \<noteq> None"

definition cleanupValue :: "publication_session \<Rightarrow> nat \<Rightarrow> bool" where
  "cleanupValue s k \<longleftrightarrow> cleanupResult s k = Some True"

section \<open>Operations\<close>

definition cancelOpenAttempt :: "publication_session \<Rightarrow> publication_session" where
  "cancelOpenAttempt s = (case activeAttempt s of
       None \<Rightarrow> s
     | Some a \<Rightarrow> s\<lparr>activeAttempt := None, abortedAttempts := a # abortedAttempts s\<rparr>)"

definition isActiveAttempt :: "nat \<Rightarrow> publication_session \<Rightarrow> bool" where
  "isActiveAttempt a s \<longleftrightarrow> activeAttempt s = Some a \<and> a \<notin> set (abortedAttempts s)"

definition answerOpen :: "nat \<Rightarrow> session_open_result \<Rightarrow> publication_session \<Rightarrow> publication_session" where
  "answerOpen i r s = s\<lparr>openCalls := (openCalls s)(i \<mapsto> OpenAnswered r)\<rparr>"

text \<open>
  \<open>queuePublicationClose\<close>: the state and the promise it returns. The function it starts runs up to its first
  await; \<open>continueCleanup\<close> is its continuation once the promise it awaits has settled, and
  \<open>publicationCloses\<close> the one once \<open>closePublication\<close> has, with whether the close succeeded.
\<close>

definition queuePublicationClose :: "nat option \<Rightarrow> publication_session \<Rightarrow> nat \<times> publication_session" where
  "queuePublicationClose publication s = (case publication of
       None \<Rightarrow> (cleanupPromise s, s)
     | Some p \<Rightarrow>
         let previousCleanup = cleanupPromise s;
           promise = Suc (length (cleanupStages s)) in
         (promise, s\<lparr>cleanupPromise := promise, cleanupQueue := cleanupQueue s @ [p],
            cleanupStages := cleanupStages s @ [AwaitsPrevious previousCleanup]\<rparr>))"

definition continueCleanup :: "nat \<Rightarrow> publication_session \<Rightarrow> publication_session" where
  "continueCleanup j s =
     (if length (cleanupStages s) \<le> j then s
      else case cleanupStages s ! j of
        AwaitsPrevious k \<Rightarrow> (case cleanupResult s k of
            None \<Rightarrow> s
          | Some previousClosed \<Rightarrow> s\<lparr>cleanupStages := (cleanupStages s)[j := Closing previousClosed],
              closeCalls := closeCalls s @ [cleanupQueue s ! j]\<rparr>)
      | _ \<Rightarrow> s)"

definition publicationCloses :: "nat \<Rightarrow> bool \<Rightarrow> publication_session \<Rightarrow> publication_session" where
  "publicationCloses j publicationClosed s =
     (if length (cleanupStages s) \<le> j then s
      else case cleanupStages s ! j of
        Closing previousClosed \<Rightarrow> s\<lparr>cleanupStages := (cleanupStages s)[j := Cleaned (previousClosed \<and> publicationClosed)],
          closeResults := closeResults s @ [publicationClosed]\<rparr>
      | _ \<Rightarrow> s)"

definition detachPublication :: "publication_session \<Rightarrow> nat option \<times> publication_session" where
  "detachPublication s = (activePublication s, s\<lparr>activePublication := None\<rparr>)"

text \<open>The part of \<open>open\<close> that begins the attempt, up to its await.\<close>

definition beginAttempt :: "nat \<Rightarrow> publication_session \<Rightarrow> publication_session" where
  "beginAttempt i s =
     (let s = s\<lparr>activeAttempt := Some i\<rparr>;
        (previousPublication, s) = detachPublication s;
        (k, s) = queuePublicationClose previousPublication s in
      s\<lparr>openCalls := (openCalls s)(i \<mapsto> AwaitsCleanup k)\<rparr>)"

definition openSession :: "publication_session \<Rightarrow> publication_session" where
  "openSession s =
     (let i = nextCall s;
        s = cancelOpenAttempt (s\<lparr>intentVersion := intentVersion s + 1, nextCall := nextCall s + 1\<rparr>) in
      case closePromise s of
        Some p \<Rightarrow> s\<lparr>openCalls := (openCalls s)(i \<mapsto> AwaitsClose p (intentVersion s))\<rparr>
      | None \<Rightarrow> beginAttempt i s)"

text \<open>\<open>finishPreviousClose\<close> once the promise has settled, and the rest of \<open>open\<close> up to its next await.\<close>

definition afterClose :: "nat \<Rightarrow> close_promise \<Rightarrow> nat \<Rightarrow> publication_session \<Rightarrow> publication_session" where
  "afterClose i p intent s =
     (let closed = cleanupValue s (snd p);
        s = (if closed \<and> closePromise s = Some p then s\<lparr>closePromise := None\<rparr> else s) in
      if intent \<noteq> intentVersion s then answerOpen i SessionCancelled s
      else if \<not> closed then answerOpen i (SessionRejected InternalFailure) s
      else beginAttempt i s)"

text \<open>After the clean-up before the attempt: the call of the opener, or the answer.\<close>

definition afterCleanup :: "nat \<Rightarrow> nat \<Rightarrow> publication_session \<Rightarrow> publication_session" where
  "afterCleanup i k s =
     (if \<not> cleanupValue s k then
        (if \<not> isActiveAttempt i s then answerOpen i SessionCancelled s
         else answerOpen i (SessionRejected InternalFailure) (s\<lparr>activeAttempt := None\<rparr>))
      else if \<not> isActiveAttempt i s then answerOpen i SessionCancelled s
      else s\<lparr>openCalls := (openCalls s)(i \<mapsto> AwaitsOpener)\<rparr>)"

definition afterOpener :: "nat \<Rightarrow> opener_outcome \<Rightarrow> publication_session \<Rightarrow> publication_session" where
  "afterOpener i outcome s =
     (if \<not> isActiveAttempt i s then
        (case outcome of
           OpenerSucceeds \<Rightarrow> (case queuePublicationClose (Some i) s of
             (k, s) \<Rightarrow> s\<lparr>openCalls := (openCalls s)(i \<mapsto> AwaitsLateClose k)\<rparr>)
         | _ \<Rightarrow> answerOpen i SessionCancelled s)
      else let s = s\<lparr>activeAttempt := None\<rparr> in
        (case outcome of
           OpenerSucceeds \<Rightarrow> answerOpen i (SessionReady i) (s\<lparr>activePublication := Some i\<rparr>)
         | OpenerFails e \<Rightarrow> answerOpen i (if e = Cancelled then SessionCancelled else SessionRejected e) s
         | OpenerThrows \<Rightarrow> answerOpen i (SessionRejected InternalFailure) s))"

text \<open>\<open>close\<close>: the promise it returns.\<close>

definition closeSession :: "publication_session \<Rightarrow> close_promise \<times> publication_session" where
  "closeSession s =
     (let s = s\<lparr>intentVersion := intentVersion s + 1\<rparr> in
      case closePromise s of
        Some p \<Rightarrow> (p, s)
      | None \<Rightarrow>
          let s = cancelOpenAttempt s;
            (publication, s) = detachPublication s;
            (k, s) = queuePublicationClose publication s;
            p = (nextClose s, k) in
          (p, s\<lparr>closePromise := Some p, nextClose := nextClose s + 1\<rparr>))"

text \<open>What the promise of a \<open>close\<close> settles with.\<close>

definition closeResult :: "publication_session \<Rightarrow> close_promise \<Rightarrow> session_close_result option" where
  "closeResult s p = (if \<not> cleanupSettled s (snd p) then None
     else Some (if cleanupValue s (snd p) then SessionClosed else SessionCloseRejected InternalFailure))"

section \<open>Turns\<close>

datatype session_event =
    OpenSession | CloseSession | ResumeOpen nat | OpenerAnswers nat opener_outcome
  | ContinueCleanup nat | PublicationCloses nat bool

text \<open>A turn that has nothing to run, because what it waits for has not settled, changes nothing.\<close>

definition resumeOpen :: "nat \<Rightarrow> publication_session \<Rightarrow> publication_session" where
  "resumeOpen i s = (case openCalls s i of
       Some (AwaitsClose p intent) \<Rightarrow> if cleanupSettled s (snd p) then afterClose i p intent s else s
     | Some (AwaitsCleanup k) \<Rightarrow> if cleanupSettled s k then afterCleanup i k s else s
     | Some (AwaitsLateClose k) \<Rightarrow> if cleanupSettled s k then answerOpen i SessionCancelled s else s
     | _ \<Rightarrow> s)"

fun session_step :: "session_event \<Rightarrow> publication_session \<Rightarrow> close_promise option \<times> publication_session" where
  "session_step OpenSession s = (None, openSession s)"
| "session_step CloseSession s = (case closeSession s of (p, s) \<Rightarrow> (Some p, s))"
| "session_step (ResumeOpen i) s = (None, resumeOpen i s)"
| "session_step (OpenerAnswers i outcome) s =
     (None, if openCalls s i = Some AwaitsOpener then afterOpener i outcome s else s)"
| "session_step (ContinueCleanup j) s = (None, continueCleanup j s)"
| "session_step (PublicationCloses j closed) s = (None, publicationCloses j closed s)"

section \<open>The clean-up chain\<close>

text \<open>
  The functions run strictly one after the other: of the queue a prefix has been closed, the next one may be
  closing, and every later one still awaits its predecessor. A settled promise tells whether all closes up to
  it succeeded.
\<close>

definition stage_of :: "nat list \<Rightarrow> bool list \<Rightarrow> nat \<Rightarrow> cleanup_stage" where
  "stage_of calls results j =
     (if j < length results then Cleaned (list_all id (take (Suc j) results))
      else if j < length calls then Closing (list_all id results) else AwaitsPrevious j)"

definition chain_ok :: "nat list \<Rightarrow> cleanup_stage list \<Rightarrow> nat \<Rightarrow> nat list \<Rightarrow> bool list \<Rightarrow> bool" where
  "chain_ok queue stages promise calls results \<longleftrightarrow> promise = length queue \<and> length results \<le> length queue \<and>
     stages = map (stage_of calls results) [0..<length queue] \<and>
     (calls = take (length results) queue \<or> length results < length queue \<and> calls = take (Suc (length results)) queue)"

lemma chain_queue:
  assumes "chain_ok queue stages promise calls results"
  shows "chain_ok (queue @ [p]) (stages @ [AwaitsPrevious promise]) (Suc (length stages)) calls results"
  using assms by (auto simp: chain_ok_def stage_of_def)

lemma chain_continues:
  assumes "chain_ok queue stages promise (take (length results) queue) results" and "length results < length queue"
  shows "chain_ok queue (stages[length results := Closing (list_all id results)]) promise (take (Suc (length results)) queue) results"
  using assms by (auto simp: chain_ok_def intro!: nth_equalityI simp: nth_list_update stage_of_def)

lemma chain_closes:
  assumes "chain_ok queue stages promise (take (Suc (length results)) queue) results" and "length results < length queue"
  shows "chain_ok queue (stages[length results := Cleaned (list_all id results \<and> b)]) promise (take (Suc (length results)) queue) (results @ [b])"
  using assms by (auto simp: chain_ok_def intro!: nth_equalityI simp: nth_list_update stage_of_def)

definition chain_of :: "publication_session \<Rightarrow> bool" where
  "chain_of s \<longleftrightarrow> chain_ok (cleanupQueue s) (cleanupStages s) (cleanupPromise s) (closeCalls s) (closeResults s)"

lemma chain_of_updates [simp]:
  "chain_of (s\<lparr>openCalls := cs\<rparr>) = chain_of s" "chain_of (s\<lparr>activeAttempt := a\<rparr>) = chain_of s"
  "chain_of (s\<lparr>abortedAttempts := as\<rparr>) = chain_of s" "chain_of (s\<lparr>activePublication := p\<rparr>) = chain_of s"
  "chain_of (s\<lparr>closePromise := c\<rparr>) = chain_of s" "chain_of (s\<lparr>intentVersion := n\<rparr>) = chain_of s"
  "chain_of (s\<lparr>nextCall := m\<rparr>) = chain_of s" "chain_of (s\<lparr>nextClose := m\<rparr>) = chain_of s"
  by (simp_all add: chain_of_def)

lemmas chain_defs = chain_of_def chain_ok_def

lemma chain_result:
  assumes "chain_of s" and "k \<le> length (cleanupQueue s)"
  shows "cleanupResult s k = (if k \<le> length (closeResults s) then Some (list_all id (take k (closeResults s))) else None)"
  using assms by (cases k) (auto simp: cleanupResult_def chain_defs stage_of_def)

lemma chain_lengths:
  assumes "chain_of s"
  shows "length (cleanupStages s) = length (cleanupQueue s)" and "cleanupPromise s = length (cleanupQueue s)"
    and "length (closeResults s) \<le> length (cleanupQueue s)" and "length (closeCalls s) \<le> length (cleanupQueue s)"
  using assms by (auto simp: chain_defs)

lemma chain_progress:
  assumes "chain_of s"
  shows "length (closeCalls s) = length (closeResults s) \<and> closeCalls s = take (length (closeResults s)) (cleanupQueue s) \<or>
    length (closeCalls s) = Suc (length (closeResults s)) \<and> length (closeResults s) < length (cleanupQueue s) \<and>
      closeCalls s = take (Suc (length (closeResults s))) (cleanupQueue s)"
proof -
  have n: "length (closeResults s) \<le> length (cleanupQueue s)" by (rule chain_lengths(3) [OF assms])
  from assms consider "closeCalls s = take (length (closeResults s)) (cleanupQueue s)"
    | "length (closeResults s) < length (cleanupQueue s)" "closeCalls s = take (Suc (length (closeResults s))) (cleanupQueue s)"
    unfolding chain_of_def chain_ok_def by blast
  then show ?thesis
  proof cases
    case 1
    with arg_cong [OF 1, of length] n show ?thesis by simp
  next
    case 2
    with arg_cong [OF 2(2), of length] show ?thesis by simp
  qed
qed

lemma chain_calls:
  assumes "chain_of s"
  shows "length (closeResults s) = length (closeCalls s) \<Longrightarrow> closeCalls s = take (length (closeResults s)) (cleanupQueue s)"
    and "length (closeResults s) < length (closeCalls s) \<Longrightarrow>
      length (closeResults s) < length (cleanupQueue s) \<and> closeCalls s = take (Suc (length (closeResults s))) (cleanupQueue s)"
  using chain_progress [OF assms] by simp_all

text \<open>The only function that can go on is the first one that has no result yet.\<close>

lemma chain_stage:
  assumes "chain_of s" and "j < length (cleanupQueue s)"
  shows "cleanupStages s ! j = (if j < length (closeResults s) then Cleaned (list_all id (take (Suc j) (closeResults s)))
    else if j = length (closeResults s) \<and> j < length (closeCalls s) then Closing (list_all id (closeResults s)) else AwaitsPrevious j)"
proof -
  have "cleanupStages s ! j = stage_of (closeCalls s) (closeResults s) j" using assms by (simp add: chain_defs)
  moreover have "length (closeCalls s) \<le> Suc (length (closeResults s))" using chain_progress [OF assms(1)] by auto
  ultimately show ?thesis by (auto simp: stage_of_def)
qed

lemma chain_turn:
  assumes "chain_of s"
  shows "continueCleanup j s = (if j = length (closeResults s) \<and> j = length (closeCalls s) \<and> j < length (cleanupQueue s)
      then s\<lparr>cleanupStages := (cleanupStages s)[j := Closing (list_all id (closeResults s))], closeCalls := closeCalls s @ [cleanupQueue s ! j]\<rparr>
      else s)"
    and "publicationCloses j b s = (if j = length (closeResults s) \<and> j < length (closeCalls s)
      then s\<lparr>cleanupStages := (cleanupStages s)[j := Cleaned (list_all id (closeResults s) \<and> b)], closeResults := closeResults s @ [b]\<rparr>
      else s)"
proof -
  note lengths = chain_lengths [OF assms] and stage = chain_stage [OF assms, of j] and progress = chain_progress [OF assms]
  show "continueCleanup j s = (if j = length (closeResults s) \<and> j = length (closeCalls s) \<and> j < length (cleanupQueue s)
      then s\<lparr>cleanupStages := (cleanupStages s)[j := Closing (list_all id (closeResults s))], closeCalls := closeCalls s @ [cleanupQueue s ! j]\<rparr>
      else s)"
  proof (cases "j < length (cleanupQueue s)")
    case True
    with stage chain_result [OF assms, of j] lengths(1) progress show ?thesis
      by (cases "j < length (closeResults s)"; cases "j = length (closeResults s)"; cases "j < length (closeCalls s)") (simp_all add: continueCleanup_def)
  qed (simp add: continueCleanup_def lengths(1))
  show "publicationCloses j b s = (if j = length (closeResults s) \<and> j < length (closeCalls s)
      then s\<lparr>cleanupStages := (cleanupStages s)[j := Cleaned (list_all id (closeResults s) \<and> b)], closeResults := closeResults s @ [b]\<rparr>
      else s)"
  proof (cases "j < length (cleanupQueue s)")
    case True
    with stage lengths(1) show ?thesis
      by (cases "j < length (closeResults s)"; cases "j = length (closeResults s)"; cases "j < length (closeCalls s)") (simp_all add: publicationCloses_def)
  next
    case False
    with lengths(4) show ?thesis by (simp add: publicationCloses_def lengths(1))
  qed
qed

lemma chain_continue:
  assumes "chain_of s"
  shows "chain_of (continueCleanup j s)"
proof (cases "j = length (closeResults s) \<and> j = length (closeCalls s) \<and> j < length (cleanupQueue s)")
  case True
  then have calls: "closeCalls s = take (length (closeResults s)) (cleanupQueue s)" using chain_calls(1) [OF assms] by simp
  have ok: "chain_ok (cleanupQueue s) (cleanupStages s) (cleanupPromise s) (take (length (closeResults s)) (cleanupQueue s)) (closeResults s)"
    using assms unfolding chain_of_def calls [symmetric] .
  have "take (Suc (length (closeResults s))) (cleanupQueue s) = closeCalls s @ [cleanupQueue s ! j]"
    using True calls by (simp add: take_Suc_conv_app_nth)
  with chain_continues [OF ok] True show ?thesis unfolding chain_turn(1) [OF assms] by (simp add: chain_of_def)
next
  case False
  show ?thesis unfolding chain_turn(1) [OF assms] if_not_P [OF False] by (rule assms)
qed

lemma chain_close:
  assumes "chain_of s"
  shows "chain_of (publicationCloses j b s)"
proof (cases "j = length (closeResults s) \<and> j < length (closeCalls s)")
  case True
  then have calls: "closeCalls s = take (Suc (length (closeResults s))) (cleanupQueue s)" "length (closeResults s) < length (cleanupQueue s)"
    using chain_calls(2) [OF assms] by blast+
  have ok: "chain_ok (cleanupQueue s) (cleanupStages s) (cleanupPromise s) (take (Suc (length (closeResults s))) (cleanupQueue s)) (closeResults s)"
    using assms unfolding chain_of_def calls(1) [symmetric] .
  from chain_closes [OF ok calls(2), of b] True show ?thesis
    unfolding chain_turn(2) [OF assms] calls(1) [symmetric] by (simp add: chain_of_def)
next
  case False
  show ?thesis unfolding chain_turn(2) [OF assms] if_not_P [OF False] by (rule assms)
qed

section \<open>The invariant\<close>

text \<open>A call that still waits refers to a promise of the chain; a call that awaits a close is the last one unless superseded.\<close>

fun call_wf :: "publication_session \<Rightarrow> nat \<Rightarrow> open_call \<Rightarrow> bool" where
  "call_wf s i (AwaitsClose p n) \<longleftrightarrow> snd p \<le> length (cleanupQueue s) \<and> n \<le> intentVersion s \<and>
     (n = intentVersion s \<longrightarrow> Suc i = nextCall s \<and> activeAttempt s = None \<and> activePublication s = None \<and>
        closePromise s \<in> {None, Some p})"
| "call_wf s i (AwaitsCleanup k) \<longleftrightarrow> k \<le> length (cleanupQueue s)"
| "call_wf s i AwaitsOpener \<longleftrightarrow> True"
| "call_wf s i (AwaitsLateClose k) \<longleftrightarrow> k \<le> length (cleanupQueue s) \<and> i \<in> set (cleanupQueue s)"
| "call_wf s i (OpenAnswered r) \<longleftrightarrow> (\<forall>p. r = SessionReady p \<longrightarrow> p = i \<and> (activePublication s = Some i \<or> i \<in> set (cleanupQueue s)))"

definition is_waiting :: "open_call option \<Rightarrow> bool" where
  "is_waiting c \<longleftrightarrow> (\<exists>p n. c = Some (AwaitsClose p n)) \<or> (\<exists>k. c = Some (AwaitsCleanup k)) \<or> c = Some AwaitsOpener"

definition session_inv :: "publication_session \<Rightarrow> bool" where
  "session_inv s \<longleftrightarrow>
     chain_of s \<and> distinct (cleanupQueue s) \<and>
     (\<forall>i. openCalls s i \<noteq> None \<longleftrightarrow> i < nextCall s) \<and>
     (\<forall>i c. openCalls s i = Some c \<longrightarrow> call_wf s i c) \<and>
     (\<forall>i \<in> set (cleanupQueue s). i < nextCall s \<and> \<not> is_waiting (openCalls s i)) \<and>
     (\<forall>p. activePublication s = Some p \<longrightarrow> p \<notin> set (cleanupQueue s) \<and> openCalls s p = Some (OpenAnswered (SessionReady p)) \<and>
        activeAttempt s = None \<and> closePromise s = None) \<and>
     (\<forall>a. activeAttempt s = Some a \<longrightarrow> a \<notin> set (abortedAttempts s) \<and> closePromise s = None \<and> Suc a = nextCall s \<and>
        (openCalls s a = Some AwaitsOpener \<or> (\<exists>k. openCalls s a = Some (AwaitsCleanup k)))) \<and>
     (\<forall>a \<in> set (abortedAttempts s). a < nextCall s \<and> (\<forall>p n. openCalls s a \<noteq> Some (AwaitsClose p n))) \<and>
     (\<forall>n k. closePromise s = Some (n, k) \<longrightarrow> k \<le> length (cleanupQueue s))"

lemmas session_defs = cancelOpenAttempt_def isActiveAttempt_def answerOpen_def queuePublicationClose_def
  detachPublication_def beginAttempt_def

lemma created_session_inv: "session_inv createPublicationSession"
  by (simp add: session_inv_def createPublicationSession_def chain_defs)

lemma chain_of_inv: "session_inv s \<Longrightarrow> chain_of s"
  by (simp add: session_inv_def)

text \<open>Only the stages and the two records change when the chain goes on.\<close>

lemma chain_turn_frame [simp]:
  "openCalls (continueCleanup j s) = openCalls s" "openCalls (publicationCloses j b s) = openCalls s"
  "nextCall (continueCleanup j s) = nextCall s" "nextCall (publicationCloses j b s) = nextCall s"
  "cleanupQueue (continueCleanup j s) = cleanupQueue s" "cleanupQueue (publicationCloses j b s) = cleanupQueue s"
  "cleanupPromise (continueCleanup j s) = cleanupPromise s" "cleanupPromise (publicationCloses j b s) = cleanupPromise s"
  "closeResults (continueCleanup j s) = closeResults s" "closeCalls (publicationCloses j b s) = closeCalls s"
  "activePublication (continueCleanup j s) = activePublication s" "activePublication (publicationCloses j b s) = activePublication s"
  "activeAttempt (continueCleanup j s) = activeAttempt s" "activeAttempt (publicationCloses j b s) = activeAttempt s"
  "abortedAttempts (continueCleanup j s) = abortedAttempts s" "abortedAttempts (publicationCloses j b s) = abortedAttempts s"
  "closePromise (continueCleanup j s) = closePromise s" "closePromise (publicationCloses j b s) = closePromise s"
  "intentVersion (continueCleanup j s) = intentVersion s" "intentVersion (publicationCloses j b s) = intentVersion s"
  by (simp_all add: continueCleanup_def publicationCloses_def split: cleanup_stage.split option.split)

lemma chain_turns_inv:
  assumes "session_inv s"
  shows "session_inv (continueCleanup j s)" and "session_inv (publicationCloses j b s)"
proof -
  have calls: "call_wf (continueCleanup j s) i c = call_wf s i c" "call_wf (publicationCloses j b s) i c = call_wf s i c" for i c
    by (cases c; simp)+
  from assms chain_continue [OF chain_of_inv [OF assms], of j] show "session_inv (continueCleanup j s)"
    unfolding session_inv_def by (simp add: calls)
  from assms chain_close [OF chain_of_inv [OF assms], of j b] show "session_inv (publicationCloses j b s)"
    unfolding session_inv_def by (simp add: calls)
qed

text \<open>Queueing a publication starts a function that awaits the last one.\<close>

lemma queue_frame [simp]:
  "closeResults (snd (queuePublicationClose p s)) = closeResults s"
  "closeCalls (snd (queuePublicationClose p s)) = closeCalls s"
  by (simp_all add: queuePublicationClose_def Let_def split: option.split)

lemma queue_chain: "chain_of s \<Longrightarrow> chain_of (snd (queuePublicationClose p s))"
  using chain_queue by (auto simp: chain_of_def queuePublicationClose_def Let_def split: option.split)

lemma queue_detached:
  "chain_of s \<Longrightarrow> chain_of (snd (queuePublicationClose p (s\<lparr>activePublication := q\<rparr>)))"
  by (rule queue_chain) simp

lemma queued_promise:
  assumes "chain_of s"
  shows "fst (queuePublicationClose p s) = length (cleanupQueue (snd (queuePublicationClose p s)))"
  using chain_lengths [OF assms] by (simp add: queuePublicationClose_def Let_def split: option.split)

lemma closeSession_inv:
  assumes "session_inv s"
  shows "session_inv (snd (closeSession s))"
proof (cases "closePromise s")
  case (Some p)
  have "call_wf s i c \<Longrightarrow> call_wf (s\<lparr>intentVersion := Suc (intentVersion s)\<rparr>) i c" for i c by (cases c) auto
  with Some assms show ?thesis by (simp add: session_inv_def closeSession_def)
next
  case None
  let ?t = "snd (closeSession s)"
  note lengths = chain_lengths [OF chain_of_inv [OF assms]]
  have calls: "call_wf s i c \<Longrightarrow> call_wf ?t i c" for i c
    using None by (cases c; cases "activePublication s"; cases "activeAttempt s") (auto simp: closeSession_def session_defs Let_def)
  have frame: "openCalls ?t = openCalls s" "nextCall ?t = nextCall s" "closeResults ?t = closeResults s"
    "cleanupQueue ?t = cleanupQueue s @ (case activePublication s of None \<Rightarrow> [] | Some p \<Rightarrow> [p])"
    "activePublication ?t = None" "activeAttempt ?t = None"
    "abortedAttempts ?t = (case activeAttempt s of None \<Rightarrow> abortedAttempts s | Some a \<Rightarrow> a # abortedAttempts s)"
    "closePromise ?t = Some (nextClose s, length (cleanupQueue s @ (case activePublication s of None \<Rightarrow> [] | Some p \<Rightarrow> [p])))"
    using None lengths by (auto simp: closeSession_def session_defs Let_def split: option.split)
  have chain: "chain_of ?t"
    using None chain_of_inv [OF assms] chain_queue
    by (auto simp: chain_of_def closeSession_def session_defs Let_def split: option.split)
  show ?thesis
    using assms calls chain unfolding session_inv_def frame
    by (cases "activePublication s"; cases "activeAttempt s") (auto simp: frame is_waiting_def)
qed

text \<open>Beginning the attempt of the last call, when nothing else is going on.\<close>

lemma beginAttempt_inv:
  assumes "session_inv s" and "Suc i = nextCall s" and "closePromise s = None" and "activeAttempt s = None"
    and "\<exists>p n. openCalls s i = Some (AwaitsClose p n)"
  shows "session_inv (beginAttempt i s)"
proof -
  let ?t = "beginAttempt i s"
  have fresh: "i \<notin> set (abortedAttempts s)" "i \<notin> set (cleanupQueue s)" "activePublication s \<noteq> Some i"
    using assms(1,5) by (auto simp: session_inv_def is_waiting_def)
  note lengths = chain_lengths [OF chain_of_inv [OF assms(1)]]
  have frame: "openCalls ?t = (openCalls s)(i \<mapsto> AwaitsCleanup (length (cleanupQueue ?t)))" "nextCall ?t = nextCall s"
    "closeResults ?t = closeResults s" "closePromise ?t = closePromise s" "abortedAttempts ?t = abortedAttempts s"
    "cleanupQueue ?t = cleanupQueue s @ (case activePublication s of None \<Rightarrow> [] | Some p \<Rightarrow> [p])"
    "activePublication ?t = None" "activeAttempt ?t = Some i" "intentVersion ?t = intentVersion s"
    using lengths by (auto simp: session_defs Let_def split: option.split)
  have chain: "chain_of ?t"
    using chain_of_inv [OF assms(1)] chain_queue by (auto simp: chain_of_def session_defs Let_def split: option.split)
  have calls: "call_wf s j c \<Longrightarrow> j \<noteq> i \<Longrightarrow> call_wf ?t j c" for j c
    using assms(2) by (cases c; cases "activePublication s") (auto simp: frame)
  show ?thesis
    using assms calls fresh chain unfolding session_inv_def
    by (cases "activePublication s") (auto simp: frame is_waiting_def)
qed

lemma openSession_inv:
  assumes "session_inv s"
  shows "session_inv (openSession s)"
proof -
  let ?i = "nextCall s"
  let ?n = "Suc (intentVersion s)"
  define t where "t = cancelOpenAttempt (s\<lparr>intentVersion := intentVersion s + 1, nextCall := nextCall s + 1\<rparr>)"
  have frame: "openCalls t = openCalls s" "nextCall t = Suc ?i" "closeResults t = closeResults s" "closePromise t = closePromise s"
    "cleanupQueue t = cleanupQueue s" "cleanupStages t = cleanupStages s" "cleanupPromise t = cleanupPromise s" "closeCalls t = closeCalls s"
    "activePublication t = activePublication s" "activeAttempt t = None" "intentVersion t = ?n"
    "abortedAttempts t = (case activeAttempt s of None \<Rightarrow> abortedAttempts s | Some a \<Rightarrow> a # abortedAttempts s)"
    by (auto simp: t_def session_defs split: option.split)
  have chain: "chain_of t" using chain_of_inv [OF assms] by (simp add: chain_of_def frame)
  have opened: "openSession s = (case closePromise t of
      Some p \<Rightarrow> t\<lparr>openCalls := (openCalls t)(?i \<mapsto> AwaitsClose p (intentVersion t))\<rparr> | None \<Rightarrow> beginAttempt ?i t)"
    by (simp only: openSession_def Let_def t_def)
  have new: "?i \<notin> set (abortedAttempts t)" "?i \<notin> set (cleanupQueue s)" "openCalls s ?i = None"
    using assms by (auto simp: session_inv_def frame split: option.split)
  have calls: "call_wf s j c \<Longrightarrow> call_wf (t\<lparr>openCalls := cs\<rparr>) j c" for j c cs
    by (cases c) (auto simp: frame)
  have waiting: "session_inv (t\<lparr>openCalls := (openCalls s)(?i \<mapsto> AwaitsClose p n)\<rparr>)"
    if "snd p \<le> length (cleanupQueue s)" "n \<le> ?n" "n = ?n \<longrightarrow> activePublication s = None \<and> closePromise s = Some p" for p n
    using assms calls new that chain unfolding session_inv_def
    by (cases "activeAttempt s") (auto simp: frame is_waiting_def less_Suc_eq)
  show ?thesis
  proof (cases "closePromise s")
    case (Some p)
    with assms have "activePublication s = None" "snd p \<le> length (cleanupQueue s)"
      by (cases "activePublication s"; cases p; auto simp: session_inv_def)+
    with Some waiting [of p ?n] show ?thesis by (simp add: opened frame)
  next
    case None
    have "beginAttempt ?i (t\<lparr>openCalls := (openCalls s)(?i \<mapsto> AwaitsClose (0, 0) 0)\<rparr>) = beginAttempt ?i t"
      by (simp add: session_defs Let_def frame split: option.split)
    moreover have "session_inv (beginAttempt ?i (t\<lparr>openCalls := (openCalls s)(?i \<mapsto> AwaitsClose (0, 0) 0)\<rparr>))"
      by (rule beginAttempt_inv [OF waiting]) (simp_all add: frame None)
    ultimately show ?thesis using None by (simp add: opened frame)
  qed
qed

text \<open>An answer that makes nothing visible.\<close>

lemma answerOpen_inv:
  assumes "session_inv s" and "openCalls s i \<noteq> None" and "activeAttempt s \<noteq> Some i" and "activePublication s \<noteq> Some i"
    and "\<forall>p. r \<noteq> SessionReady p"
  shows "session_inv (answerOpen i r s)"
proof -
  have calls: "call_wf (answerOpen i r s) j c = call_wf s j c" for j c by (cases c) (auto simp: answerOpen_def)
  show ?thesis
    using assms unfolding session_inv_def
    by (auto simp: calls) (auto simp: answerOpen_def is_waiting_def assms(5) split: if_splits)
qed

lemma clearClose_inv: "session_inv s \<Longrightarrow> session_inv (s\<lparr>closePromise := None\<rparr>)"
proof -
  assume s: "session_inv s"
  have "call_wf s i c \<Longrightarrow> call_wf (s\<lparr>closePromise := None\<rparr>) i c" for i c by (cases c) auto
  with s show ?thesis by (simp add: session_inv_def)
qed

lemma clearAttempt_inv: "session_inv s \<Longrightarrow> session_inv (s\<lparr>activeAttempt := None\<rparr>)"
proof -
  assume s: "session_inv s"
  have "call_wf s i c \<Longrightarrow> call_wf (s\<lparr>activeAttempt := None\<rparr>) i c" for i c by (cases c) auto
  with s show ?thesis by (simp add: session_inv_def)
qed

lemma call_of_inv: "session_inv s \<Longrightarrow> openCalls s i = Some c \<Longrightarrow> call_wf s i c"
  by (simp add: session_inv_def)

lemma waiting_not_active:
  assumes "session_inv s"
  shows "openCalls s i = Some (AwaitsClose p n) \<Longrightarrow> activeAttempt s \<noteq> Some i"
    and "openCalls s i = Some (AwaitsLateClose k) \<Longrightarrow> activeAttempt s \<noteq> Some i"
    and "openCalls s i = Some c \<Longrightarrow> \<forall>r. c \<noteq> OpenAnswered r \<Longrightarrow> activePublication s \<noteq> Some i"
  using assms unfolding session_inv_def by fastforce+

lemma afterClose_inv:
  assumes "session_inv s" and "openCalls s i = Some (AwaitsClose p n)"
  shows "session_inv (afterClose i p n s)"
proof -
  define t where "t = (if cleanupValue s (snd p) \<and> closePromise s = Some p then s\<lparr>closePromise := None\<rparr> else s)"
  have t: "session_inv t" unfolding t_def using assms(1) clearClose_inv by auto
  have frame: "openCalls t = openCalls s" "intentVersion t = intentVersion s" "activeAttempt t = activeAttempt s"
    "activePublication t = activePublication s" "nextCall t = nextCall s" by (simp_all add: t_def)
  have not_active: "activeAttempt t \<noteq> Some i" "activePublication t \<noteq> Some i"
    using waiting_not_active [OF assms(1)] assms(2) by (auto simp: frame)
  have wf: "call_wf s i (AwaitsClose p n)" using assms by (rule call_of_inv)
  have answered: "session_inv (answerOpen i r t)" if "\<forall>p. r \<noteq> SessionReady p" for r
    using that assms(2) not_active by (intro answerOpen_inv [OF t]) (simp_all add: frame)
  have after: "afterClose i p n s = (if n \<noteq> intentVersion t then answerOpen i SessionCancelled t
      else if \<not> cleanupValue s (snd p) then answerOpen i (SessionRejected InternalFailure) t else beginAttempt i t)"
    by (simp only: afterClose_def Let_def t_def)
  show ?thesis
  proof (cases "n = intentVersion s \<and> cleanupValue s (snd p)")
    case True
    then have "closePromise t = None" using wf by (auto simp: t_def)
    moreover have "activeAttempt t = None" "Suc i = nextCall t" using wf True by (auto simp: frame)
    ultimately have "session_inv (beginAttempt i t)" using assms(2) by (intro beginAttempt_inv [OF t]) (auto simp: frame)
    then show ?thesis unfolding after using True by (simp add: frame)
  next
    case False
    then show ?thesis unfolding after using answered by (auto simp: frame)
  qed
qed

lemma afterCleanup_inv:
  assumes "session_inv s" and "openCalls s i = Some (AwaitsCleanup k)"
  shows "session_inv (afterCleanup i k s)"
proof -
  have none: "activePublication s \<noteq> Some i" using waiting_not_active(3) [OF assms] by simp
  have inactive: "activeAttempt s \<noteq> Some i" if "\<not> isActiveAttempt i s"
    using that assms(1) by (auto simp: isActiveAttempt_def session_inv_def)
  have cancelled: "session_inv (answerOpen i SessionCancelled s)" if "\<not> isActiveAttempt i s"
    using assms none inactive [OF that] by (intro answerOpen_inv) auto
  have rejected: "session_inv (answerOpen i (SessionRejected e) (s\<lparr>activeAttempt := None\<rparr>))" for e
    using assms none by (intro answerOpen_inv [OF clearAttempt_inv]) auto
  have asked: "session_inv (s\<lparr>openCalls := (openCalls s)(i \<mapsto> AwaitsOpener)\<rparr>)"
  proof -
    have calls: "call_wf (s\<lparr>openCalls := cs\<rparr>) j c = call_wf s j c" for j c cs by (cases c) auto
    show ?thesis using assms unfolding session_inv_def by (auto simp: calls is_waiting_def split: if_splits)
  qed
  show ?thesis unfolding afterCleanup_def using cancelled rejected asked by simp
qed

text \<open>The opener's answer: a late publication is queued, the awaited one becomes visible.\<close>

lemma afterOpener_inv:
  assumes "session_inv s" and "openCalls s i = Some AwaitsOpener"
  shows "session_inv (afterOpener i r s)"
proof -
  have none: "activePublication s \<noteq> Some i" using waiting_not_active(3) [OF assms] by simp
  have fresh: "i \<notin> set (cleanupQueue s)" "i < nextCall s" using assms by (auto simp: session_inv_def is_waiting_def)
  show ?thesis
  proof (cases "isActiveAttempt i s")
    case False
    then have inactive: "activeAttempt s \<noteq> Some i" using assms(1) by (auto simp: isActiveAttempt_def session_inv_def)
    let ?k = "Suc (length (cleanupQueue s))"
    let ?t = "s\<lparr>cleanupPromise := ?k, cleanupQueue := cleanupQueue s @ [i], cleanupStages := cleanupStages s @ [AwaitsPrevious (cleanupPromise s)],
      openCalls := (openCalls s)(i \<mapsto> AwaitsLateClose ?k)\<rparr>"
    note lengths = chain_lengths [OF chain_of_inv [OF assms(1)]]
    have chain: "chain_of ?t"
      using chain_queue [OF chain_of_inv [OF assms(1), unfolded chain_of_def], of i] lengths by (simp add: chain_of_def)
    have calls: "call_wf s j c \<Longrightarrow> call_wf ?t j c" for j c by (cases c) auto
    have "session_inv ?t"
      using assms fresh none inactive chain unfolding session_inv_def by (auto simp: is_waiting_def calls)
    moreover have "session_inv (answerOpen i SessionCancelled s)"
      using assms none inactive by (intro answerOpen_inv) auto
    ultimately show ?thesis
      using False lengths by (cases r) (simp_all add: afterOpener_def queuePublicationClose_def Let_def)
  next
    case True
    then have active: "activeAttempt s = Some i" by (simp add: isActiveAttempt_def)
    let ?s = "s\<lparr>activeAttempt := None\<rparr>"
    let ?t = "answerOpen i (SessionReady i) (?s\<lparr>activePublication := Some i\<rparr>)"
    have rest: "closePromise s = None" "Suc i = nextCall s" "activePublication s = None" "i \<notin> set (abortedAttempts s)"
      using assms(1) active by (auto simp: session_inv_def)
    have calls: "call_wf s j c \<Longrightarrow> j \<noteq> i \<Longrightarrow> call_wf ?t j c" for j c
      using rest by (cases c) (auto simp: answerOpen_def)
    have "session_inv ?t"
      using assms fresh rest calls unfolding session_inv_def by (auto simp: is_waiting_def answerOpen_def)
    moreover have "session_inv (answerOpen i x ?s)" if "\<forall>p. x \<noteq> SessionReady p" for x
      using assms none that by (intro answerOpen_inv [OF clearAttempt_inv]) auto
    ultimately show ?thesis using True by (cases r) (simp_all add: afterOpener_def Let_def)
  qed
qed

lemma session_step_inv:
  assumes "session_inv s"
  shows "session_inv (snd (session_step e s))"
proof (cases e)
  case (ResumeOpen i)
  have "session_inv (answerOpen i SessionCancelled s)" if "openCalls s i = Some (AwaitsLateClose k)" for k
    using that assms waiting_not_active(2,3) [OF assms that] by (intro answerOpen_inv) auto
  with ResumeOpen assms show ?thesis
    by (auto simp: resumeOpen_def afterClose_inv afterCleanup_inv split: option.split open_call.split)
next
  case CloseSession
  with closeSession_inv [OF assms] show ?thesis by (simp add: case_prod_beta)
next
  case (PublicationCloses j closed)
  with chain_turns_inv [OF assms] show ?thesis by simp
next
  case (ContinueCleanup j)
  with chain_turns_inv [OF assms] show ?thesis by simp
qed (use assms openSession_inv afterOpener_inv in auto)

interpretation session: guarded_machine session_step session_inv
  by unfold_locales (rule session_step_inv)

section \<open>Ownership\<close>

text \<open>The publications the opener hands over, in the order it does.\<close>

definition handedOver :: "session_event \<Rightarrow> publication_session \<Rightarrow> nat list" where
  "handedOver e s = (case e of
       OpenerAnswers i OpenerSucceeds \<Rightarrow> if openCalls s i = Some AwaitsOpener then [i] else []
     | _ \<Rightarrow> [])"

fun handedOverBy :: "session_event list \<Rightarrow> publication_session \<Rightarrow> nat list" where
  "handedOverBy [] s = []"
| "handedOverBy (e # es) s = handedOver e s @ handedOverBy es (snd (session_step e s))"

definition owned :: "publication_session \<Rightarrow> nat multiset" where
  "owned s = mset (cleanupQueue s) + (case activePublication s of None \<Rightarrow> {#} | Some p \<Rightarrow> {#p#})"

lemma owned_simps [simp]:
  "owned (answerOpen i r s) = owned s"
  "owned (cancelOpenAttempt s) = owned s"
  "owned (s\<lparr>closePromise := c\<rparr>) = owned s"
  "owned (s\<lparr>activeAttempt := a\<rparr>) = owned s"
  "owned (s\<lparr>openCalls := cs\<rparr>) = owned s"
  "owned (s\<lparr>intentVersion := n, nextCall := m\<rparr>) = owned s"
  "owned (s\<lparr>intentVersion := n\<rparr>) = owned s"
  "owned (beginAttempt i s) = owned s"
  by (auto simp: owned_def session_defs Let_def split: option.split)

lemma step_owned:
  assumes "session_inv s"
  shows "owned (snd (session_step e s)) = owned s + mset (handedOver e s)"
proof (cases e)
  case OpenSession
  then show ?thesis by (simp add: handedOver_def openSession_def Let_def split: option.split)
next
  case CloseSession
  then show ?thesis
    by (cases "closePromise s"; cases "activePublication s"; cases "activeAttempt s")
      (auto simp: handedOver_def closeSession_def session_defs Let_def owned_def)
next
  case (ResumeOpen i)
  then show ?thesis
    by (auto simp: handedOver_def resumeOpen_def afterClose_def afterCleanup_def Let_def split: option.split open_call.split)
next
  case (OpenerAnswers i r)
  have "activePublication s = None" if "isActiveAttempt i s"
    using that assms by (cases "activePublication s") (auto simp: session_inv_def isActiveAttempt_def)
  with OpenerAnswers show ?thesis
    by (cases r) (auto simp: handedOver_def afterOpener_def queuePublicationClose_def Let_def owned_def answerOpen_def split: option.split)
next
  case (PublicationCloses j c)
  then show ?thesis by (simp add: handedOver_def owned_def)
next
  case (ContinueCleanup j)
  then show ?thesis by (simp add: handedOver_def owned_def)
qed

lemma run_owned: "session_inv s \<Longrightarrow> owned (run session_step es s) = owned s + mset (handedOverBy es s)"
proof (induction es arbitrary: s)
  case (Cons e es)
  from Cons.IH [OF session_step_inv [OF Cons.prems, of e]] step_owned [OF Cons.prems, of e] show ?case
    by (simp add: ac_simps)
qed simp

section \<open>Supersession\<close>

text \<open>From the next \<open>open\<close> or \<open>close\<close> on, only a later call can make a publication visible.\<close>

definition superseded_calls :: "nat \<Rightarrow> publication_session \<Rightarrow> bool" where
  "superseded_calls n s \<longleftrightarrow> n \<le> nextCall s \<and> (\<forall>p. activePublication s = Some p \<longrightarrow> n \<le> p) \<and>
     (\<forall>a. activeAttempt s = Some a \<longrightarrow> n \<le> a) \<and>
     (\<forall>i p k. openCalls s i = Some (AwaitsClose p k) \<and> i < n \<longrightarrow> k < intentVersion s)"

lemma begin_superseded: "superseded_calls n s \<Longrightarrow> n \<le> i \<Longrightarrow> superseded_calls n (beginAttempt i s)"
  by (auto simp: superseded_calls_def session_defs Let_def split: option.split)

lemma answer_superseded: "superseded_calls n s \<Longrightarrow> superseded_calls n (answerOpen i r s)"
  by (auto simp: superseded_calls_def answerOpen_def)

definition no_new_ready :: "nat \<Rightarrow> publication_session \<Rightarrow> publication_session \<Rightarrow> bool" where
  "no_new_ready n s t \<longleftrightarrow> (\<forall>i p. i < n \<longrightarrow> openCalls t i = Some (OpenAnswered (SessionReady p)) \<longrightarrow>
     openCalls s i = Some (OpenAnswered (SessionReady p)))"

lemma superseded_step:
  assumes "session_inv s" and "superseded_calls n s"
  shows "superseded_calls n (snd (session_step e s)) \<and> no_new_ready n s (snd (session_step e s))"
proof (cases e)
  case OpenSession
  have "n \<le> nextCall s" using assms(2) by (simp add: superseded_calls_def)
  with assms(2) OpenSession show ?thesis
    by (cases "activeAttempt s"; cases "closePromise s"; cases "activePublication s")
      (auto simp: superseded_calls_def no_new_ready_def openSession_def session_defs Let_def less_Suc_eq split: if_splits)
next
  case CloseSession
  with assms(2) show ?thesis
    by (cases "activeAttempt s"; cases "closePromise s"; cases "activePublication s")
      (auto simp: superseded_calls_def no_new_ready_def closeSession_def session_defs Let_def less_Suc_eq)
next
  case (ResumeOpen i)
  show ?thesis
  proof (cases "\<exists>p k. openCalls s i = Some (AwaitsClose p k)")
    case True
    then obtain p k where c: "openCalls s i = Some (AwaitsClose p k)" by blast
    have "i < n \<longrightarrow> k < intentVersion s" using c assms(2) by (cases p) (simp add: superseded_calls_def)
    then have "k = intentVersion s \<longrightarrow> n \<le> i" by auto
    with c ResumeOpen assms(2) show ?thesis
      by (cases "activePublication s") (auto simp: superseded_calls_def no_new_ready_def resumeOpen_def afterClose_def session_defs Let_def split: if_splits)
  next
    case False
    with ResumeOpen assms(2) show ?thesis
      by (auto simp: superseded_calls_def no_new_ready_def resumeOpen_def afterCleanup_def answerOpen_def
          split: option.split open_call.split if_splits)
  qed
next
  case (OpenerAnswers i r)
  with assms(2) show ?thesis
    by (cases r) (auto simp: superseded_calls_def no_new_ready_def afterOpener_def queuePublicationClose_def answerOpen_def
        isActiveAttempt_def Let_def split: if_splits)
next
  case (PublicationCloses j c)
  with assms(2) show ?thesis by (auto simp: superseded_calls_def no_new_ready_def)
next
  case (ContinueCleanup j)
  with assms(2) show ?thesis by (auto simp: superseded_calls_def no_new_ready_def)
qed

lemma superseded_run:
  "session_inv s \<Longrightarrow> superseded_calls n s \<Longrightarrow>
     superseded_calls n (run session_step es s) \<and> no_new_ready n s (run session_step es s)"
proof (induction es arbitrary: s)
  case Nil
  then show ?case by (simp add: no_new_ready_def)
next
  case (Cons e es)
  from superseded_step [OF Cons.prems, of e] Cons.IH [OF session_step_inv [OF Cons.prems(1)], of e] show ?case
    by (auto simp: no_new_ready_def)
qed

lemma open_supersedes: "session_inv s \<Longrightarrow> superseded_calls (nextCall s) (openSession s)"
proof -
  assume s: "session_inv s"
  have "k \<le> intentVersion s" if "openCalls s i = Some (AwaitsClose p k)" for i p k
    using call_of_inv [OF s that] by simp
  then have "k < Suc (intentVersion s)" if "openCalls s i = Some (AwaitsClose p k)" for i p k
    using that less_Suc_eq_le by blast
  moreover have "closePromise s \<noteq> None \<longrightarrow> activePublication s = None" using s by (cases "activePublication s") (auto simp: session_inv_def)
  ultimately show ?thesis
    by (cases "activeAttempt s"; cases "closePromise s"; cases "activePublication s")
      (auto simp: superseded_calls_def openSession_def session_defs Let_def split: if_splits)
qed

lemma close_supersedes: "session_inv s \<Longrightarrow> superseded_calls (nextCall s) (snd (closeSession s))"
proof -
  assume s: "session_inv s"
  have "k \<le> intentVersion s" if "openCalls s i = Some (AwaitsClose p k)" for i p k
    using call_of_inv [OF s that] by simp
  then have "k < Suc (intentVersion s)" if "openCalls s i = Some (AwaitsClose p k)" for i p k
    using that less_Suc_eq_le by blast
  moreover have "closePromise s \<noteq> None \<longrightarrow> activePublication s = None \<and> activeAttempt s = None"
    using s by (cases "activePublication s"; cases "activeAttempt s") (auto simp: session_inv_def)
  ultimately show ?thesis
    by (cases "activeAttempt s"; cases "closePromise s"; cases "activePublication s")
      (auto simp: superseded_calls_def closeSession_def session_defs Let_def)
qed

section \<open>Properties\<close>

lemma reachable_session: "session_inv (run session_step es createPublicationSession)"
  by (rule session.run_inv [OF created_session_inv])

text \<open>
  C32. No publication is lost or closed twice, and they are closed one after the other. At every moment the
  publications the opener has handed over are exactly the visible one, if any, and those queued for closing,
  each once. The calls of \<open>close\<close> are made in the order of the queue, each publication at most once, and a call
  is made only when all calls before it have ended; a clean-up promise settles when the closes up to it have
  ended, with whether all of them succeeded.
\<close>

theorem publications_have_one_owner:
  "let s = run session_step es createPublicationSession in
     mset (handedOverBy es createPublicationSession) = owned s \<and> distinct (cleanupQueue s) \<and>
     activePublication s \<notin> Some ` set (cleanupQueue s) \<and>
     closeCalls s = take (length (closeCalls s)) (cleanupQueue s) \<and> length (closeCalls s) \<le> length (cleanupQueue s) \<and>
     (length (closeResults s) = length (closeCalls s) \<or> Suc (length (closeResults s)) = length (closeCalls s)) \<and>
     (\<forall>k \<in> {0..length (cleanupQueue s)}. cleanupResult s k =
        (if k \<le> length (closeResults s) then Some (list_all id (take k (closeResults s))) else None))"
proof -
  let ?s = "run session_step es createPublicationSession"
  note inv = reachable_session [of es] and chain = chain_of_inv [OF reachable_session [of es]]
  have "owned ?s = mset (handedOverBy es createPublicationSession)"
    using run_owned [OF created_session_inv, of es] by (simp add: owned_def createPublicationSession_def)
  moreover have "activePublication ?s \<notin> Some ` set (cleanupQueue ?s)"
    using inv by (cases "activePublication ?s") (auto simp: session_inv_def)
  moreover have "distinct (cleanupQueue ?s)" using inv by (simp add: session_inv_def)
  moreover have "length (closeResults ?s) = length (closeCalls ?s) \<or> Suc (length (closeResults ?s)) = length (closeCalls ?s)"
    using chain by (auto simp: chain_defs)
  moreover from this have "closeCalls ?s = take (length (closeCalls ?s)) (cleanupQueue ?s)"
    using chain_calls [OF chain] by (metis lessI)
  ultimately show ?thesis using chain_result [OF chain] chain_lengths [OF chain] by (auto simp: Let_def)
qed

text \<open>
  A superseded \<open>open\<close> never wins. Once \<open>open\<close> or \<open>close\<close> has been called, no call of \<open>open\<close> made before
  makes its publication visible or is answered \<open>ready\<close> any more, however its file, the opener and the clean-up
  settle; right after the call nothing is visible.
\<close>

theorem superseded_open_never_visible:
  assumes "s = run session_step es createPublicationSession" and "e \<in> {OpenSession, CloseSession}"
    and "t = snd (session_step e s)" and "u = run session_step later t"
  shows "activePublication t = None \<and> (\<forall>p. activePublication u = Some p \<longrightarrow> nextCall s \<le> p) \<and>
    (\<forall>i p. i < nextCall s \<longrightarrow> openCalls u i = Some (OpenAnswered (SessionReady p)) \<longrightarrow>
       openCalls t i = Some (OpenAnswered (SessionReady p)))"
proof -
  have s: "session_inv s" unfolding assms(1) by (rule reachable_session)
  have t: "session_inv t" unfolding assms(3) by (rule session_step_inv [OF s])
  have "superseded_calls (nextCall s) t"
    using assms(2,3) open_supersedes [OF s] close_supersedes [OF s] by (auto simp: case_prod_beta)
  from superseded_run [OF t this, of later] have u: "superseded_calls (nextCall s) u" "no_new_ready (nextCall s) t u"
    unfolding assms(4) by blast+
  have "activePublication t = None"
  proof (cases "activePublication t")
    case (Some p)
    with t have "openCalls t p = Some (OpenAnswered (SessionReady p))" "p < nextCall t" "nextCall s \<le> p"
      using \<open>superseded_calls (nextCall s) t\<close> by (auto simp: session_inv_def superseded_calls_def)
    moreover have "openCalls s (nextCall s) = None" using s by (auto simp: session_inv_def)
    moreover have "nextCall t \<le> Suc (nextCall s)"
      using assms(2,3) by (cases "activeAttempt s"; cases "closePromise s"; cases "activePublication s")
        (auto simp: openSession_def closeSession_def session_defs Let_def)
    ultimately have "p = nextCall s" by linarith
    with \<open>openCalls t p = _\<close> have "openCalls t (nextCall s) = Some (OpenAnswered (SessionReady p))" by simp
    with assms(2,3) \<open>openCalls s (nextCall s) = None\<close> show ?thesis
      by (cases "activeAttempt s"; cases "closePromise s"; cases "activePublication s")
        (auto simp: openSession_def closeSession_def session_defs Let_def)
  qed simp
  with u show ?thesis by (auto simp: superseded_calls_def no_new_ready_def)
qed

section \<open>A session to try them on\<close>

definition sample_session_run :: "session_event list" where
  "sample_session_run = [OpenSession, ResumeOpen 0]"

lemma sample_session:
  "nextCall (run session_step sample_session_run createPublicationSession) = 1 \<and>
   openCalls (run session_step sample_session_run createPublicationSession) 0 = Some AwaitsOpener \<and>
   closeResults (run session_step sample_session_run createPublicationSession) = [] \<and>
   cleanupQueue (run session_step sample_session_run createPublicationSession) = []"
  by (simp add: sample_session_run_def createPublicationSession_def openSession_def resumeOpen_def afterCleanup_def
      cleanupSettled_def cleanupValue_def cleanupResult_def session_defs Let_def)

theorem superseded_open_never_visible_witness:
  "activePublication (run session_step [OpenerAnswers 0 OpenerSucceeds] (snd (session_step OpenSession
     (run session_step sample_session_run createPublicationSession)))) \<noteq> Some 0"
  using superseded_open_never_visible [OF refl, of OpenSession _ sample_session_run "run session_step [OpenerAnswers 0 OpenerSucceeds]
    (snd (session_step OpenSession (run session_step sample_session_run createPublicationSession)))" "[OpenerAnswers 0 OpenerSucceeds]"]
    sample_session by auto

text \<open>Two publications in a row: the first has been closed, the close of the second is under way.\<close>

definition sample_closes :: "session_event list" where
  "sample_closes = [OpenSession, ResumeOpen 0, OpenerAnswers 0 OpenerSucceeds, OpenSession, ContinueCleanup 0, PublicationCloses 0 True,
     ResumeOpen 1, OpenerAnswers 1 OpenerSucceeds, CloseSession, ContinueCleanup 1]"

lemma sample_closing:
  "cleanupQueue (run session_step sample_closes createPublicationSession) = [0, 1] \<and>
   closeResults (run session_step sample_closes createPublicationSession) = [True]"
  by (simp add: sample_closes_def createPublicationSession_def openSession_def closeSession_def resumeOpen_def afterCleanup_def afterOpener_def
      continueCleanup_def publicationCloses_def cleanupSettled_def cleanupValue_def cleanupResult_def session_defs Let_def numeral_2_eq_2)

theorem publications_have_one_owner_witness:
  "cleanupResult (run session_step sample_closes createPublicationSession) 1 = Some True \<and>
   cleanupResult (run session_step sample_closes createPublicationSession) 2 = None"
  using publications_have_one_owner [of sample_closes] sample_closing by (simp add: Let_def)

end
