(* ===== verification/Contract_Values.thy ===== *)
theory Contract_Values
  imports Locator_Contract
begin

text \<open>
  What the versioned contracts of packages/shared/src/contracts share: the failures of their decoders, the
  numeric primitives of packages/shared/src/primitives/numbers.ts, the members of an enumeration, and what
  all of them promise of decoding and of the wire form.
\<close>

section \<open>Failures and primitives\<close>

text \<open>
  A decoder throws its own error with a code, or the error of a primitive escapes it. Most contracts have the
  codes of the locator contract.
\<close>

type_synonym contract_code = locator_error_code

datatype 'c contract_failure = ContractFails 'c | PrimitiveEscapes

fun lift_primitive :: "locator_failure + 'a \<Rightarrow> 'c contract_failure + 'a" where
  "lift_primitive (Inl e) = Inl PrimitiveEscapes"
| "lift_primitive (Inr x) = Inr x"

lemma lift_primitive_Inr [simp]: "lift_primitive m = Inr x \<longleftrightarrow> m = Inr x"
  by (cases m) auto

definition createCount :: "js_value \<Rightarrow> locator_failure + int" where
  "createCount v = createIndex v"

definition createMilliseconds :: "js_value \<Rightarrow> locator_failure + int" where
  "createMilliseconds v = createIndex v"

definition createSampleCount :: "js_value \<Rightarrow> locator_failure + int" where
  "createSampleCount v = createIndex v"

definition createHertz :: "js_value \<Rightarrow> locator_failure + int" where
  "createHertz v = bindE (createIndex v) (\<lambda>n. if n = 0 then Inl PrimitiveError else Inr n)"

text \<open>\<open>typeof input !== "object" || input === null || Array.isArray(input)\<close>, and the version of the object.\<close>

definition readContractVersion :: "'c \<Rightarrow> 'c \<Rightarrow> js_value \<Rightarrow> 'c contract_failure + int" where
  "readContractVersion malformed unsupported input = (case input of
       JObject kvs \<Rightarrow> (case createSchemaVersion (property kvs ''schemaVersion'') of
           Inl _ \<Rightarrow> Inl (ContractFails malformed)
         | Inr n \<Rightarrow> if n \<noteq> 1 then Inl (ContractFails unsupported) else Inr n)
     | _ \<Rightarrow> Inl (ContractFails malformed))"

section \<open>Schema keywords\<close>

text \<open>\<open>{"type": "integer", "minimum": n}\<close>\<close>

fun at_least :: "int \<Rightarrow> js_value \<Rightarrow> bool" where
  "at_least n (JNumber x) = (is_integer_num x \<and> \<not> num_value x < of_int n)"
| "at_least n _ = False"

text \<open>\<open>{"const": n}\<close>: the negative zero is equal to 0.\<close>

fun is_number :: "int \<Rightarrow> js_value \<Rightarrow> bool" where
  "is_number n (JNumber x) = (is_finite_num x \<and> num_value x = of_int n)"
| "is_number n _ = False"

fun is_boolean :: "js_value \<Rightarrow> bool" where
  "is_boolean (JBool b) = True"
| "is_boolean _ = False"

definition valid_identifier_value :: "js_value \<Rightarrow> bool" where
  "valid_identifier_value v \<longleftrightarrow> valid_string 128 identifier_pattern v"

text \<open>The member of an enumeration that a value names.\<close>

definition enum_member :: "('a \<Rightarrow> js_string) \<Rightarrow> 'a list \<Rightarrow> js_value \<Rightarrow> 'a option" where
  "enum_member literal members v = find (\<lambda>m. v = JString (literal m)) members"

lemma enum_member_Some: "enum_member f ms v = Some m \<Longrightarrow> v = JString (f m) \<and> m \<in> set ms"
  by (auto simp: enum_member_def find_Some_iff)

lemma enum_member_literal:
  assumes "inj_on f (set ms)" and "m \<in> set ms"
  shows "enum_member f ms (JString (f m)) = Some m"
proof -
  obtain n where "enum_member f ms (JString (f m)) = Some n"
    using assms(2) by (cases "enum_member f ms (JString (f m))") (auto simp: enum_member_def find_None_iff)
  with enum_member_Some [OF this] assms show ?thesis by (auto dest: inj_onD)
qed

section \<open>Validated values build\<close>

definition intValue :: "js_value \<Rightarrow> int" where
  "intValue v = \<lfloor>num_value (case v of JNumber x \<Rightarrow> x)\<rfloor>"

lemma intValue_wire [simp]: "intValue (wire_int n) = n"
  by (simp add: intValue_def num_value_wire)

lemma valid_identifier_value: "valid_identifier_value v \<Longrightarrow> createIdentifier v = Inr (stringValue v)"
  by (simp add: valid_identifier_value_def valid_identifier)

lemma valid_identifier_string: "valid_identifier_value v \<Longrightarrow> valid_identifier_value (JString (stringValue v))"
  by (simp add: valid_identifier_value_def valid_string_value del: valid_string.simps)

lemma valid_integer_intValue: "valid_integer low v \<Longrightarrow> low \<le> intValue v \<and> intValue v \<le> MAX_SAFE_INTEGER"
  by (auto simp: valid_integer_iff intValue_def)

lemma valid_number: "valid_integer 0 v \<Longrightarrow> v \<noteq> JNumber NegZero \<Longrightarrow> createIndex v = Inr (intValue v)"
  using valid_index [of v] by (simp add: intValue_def)

lemma at_least_intValue: "at_least n v \<Longrightarrow> n \<le> intValue v"
  by (cases v) (auto simp: intValue_def le_floor_iff)

lemma at_least_positive: "at_least 1 v \<Longrightarrow> v \<noteq> JNumber NegZero"
  by auto

lemma at_least_wire [simp]: "at_least n (wire_int m) \<longleftrightarrow> n \<le> m"
  by (auto simp: wire_int_def is_integer_num_def)

lemma is_number_wire [simp]: "is_number n (wire_int m) \<longleftrightarrow> m = n"
  by (auto simp: wire_int_def)

lemma is_number_intValue: "is_number n v \<Longrightarrow> intValue v = n"
  by (cases v) (auto simp: intValue_def)

lemma readContractVersion_Inr: "readContractVersion m u v = Inr n \<Longrightarrow> n = 1 \<and> (\<exists>kvs. v = JObject kvs)"
  by (auto simp: readContractVersion_def split: js_value.splits sum.splits if_splits)

lemma readContractVersion_Inl: "readContractVersion m u v = Inl e \<Longrightarrow> e = ContractFails m \<or> e = ContractFails u"
  by (auto simp: readContractVersion_def split: js_value.splits sum.splits if_splits)

lemma readContractVersion_valid:
  "valid_version_1 (property kvs ''schemaVersion'') \<Longrightarrow> readContractVersion m u (JObject kvs) = Inr 1"
  by (drule valid_version_1_Inr) (simp add: readContractVersion_def del: createSchemaVersion.simps)

section \<open>The contract of a contract\<close>

text \<open>
  Decoding answers with well-formed values only, and reads back the wire form of each. Then the wire form is
  canonical: it decodes to what it stands for, and no two values share one.
\<close>

locale versioned_contract =
  fixes decode :: "js_value \<Rightarrow> 'e + 'a" and wire :: "'a \<Rightarrow> js_value" and wf :: "'a \<Rightarrow> bool"
  assumes decoded_wf: "decode v = Inr x \<Longrightarrow> wf x"
    and wire_decodes: "wf x \<Longrightarrow> decode (wire x) = Inr x"
begin

lemma canonical: "decode v = Inr x \<Longrightarrow> decode (wire x) = Inr x"
  by (rule wire_decodes [OF decoded_wf])

lemma wire_inject: "wf x \<Longrightarrow> wf y \<Longrightarrow> wire x = wire y \<longleftrightarrow> x = y"
  using wire_decodes by (metis sum.inject(2))

lemma decodable_iff_wf: "(\<exists>v. decode v = Inr x) \<longleftrightarrow> wf x"
  using decoded_wf wire_decodes by blast

end

interpretation locators: versioned_contract decodeReadingLocatorV1 locator_wire locator_wf
  by unfold_locales (rule decodeReadingLocatorV1_wf, assumption, rule decodeReadingLocatorV1_wire)

interpretation ranges: versioned_contract decodeLocatorRangeV1 range_wire range_wf
  by unfold_locales (rule decodeLocatorRangeV1_wf, assumption, rule decodeLocatorRangeV1_wire)

end
