(* ===== verification/Operational_Error.thy ===== *)
theory Operational_Error
  imports Contract_Values Ingestion_Policy
begin

text \<open>
  packages/shared/src/contracts/operational-error.ts and packages/epub/src/public/epub-result.ts: the
  content-free errors that cross the boundaries of the application, and the one each failure of the EPUB
  pipeline is reported as.
\<close>

datatype operational_code =
    InvalidInput | UnsupportedInput | CapabilityUnavailable | OperationCancelled | OperationalResourceExhausted
  | OperationalInternalFailure

datatype operational_category = InputCategory | AvailabilityCategory | CancellationCategory | ResourceCategory | InternalCategory

datatype operational_severity = Recoverable | Fatal

record operational_error =
  operationalVersion :: int
  operationalErrorCode :: operational_code
  operationalCategory :: operational_category
  operationalSeverity :: operational_severity

text \<open>\<open>ERROR_SEMANTICS\<close>\<close>

fun errorCategory :: "operational_code \<Rightarrow> operational_category" where
  "errorCategory InvalidInput = InputCategory"
| "errorCategory UnsupportedInput = InputCategory"
| "errorCategory CapabilityUnavailable = AvailabilityCategory"
| "errorCategory OperationCancelled = CancellationCategory"
| "errorCategory OperationalResourceExhausted = ResourceCategory"
| "errorCategory OperationalInternalFailure = InternalCategory"

fun errorSeverity :: "operational_code \<Rightarrow> operational_severity" where
  "errorSeverity OperationalInternalFailure = Fatal"
| "errorSeverity _ = Recoverable"

fun code_literal :: "operational_code \<Rightarrow> js_string" where
  "code_literal InvalidInput = js ''invalid-input''"
| "code_literal UnsupportedInput = js ''unsupported-input''"
| "code_literal CapabilityUnavailable = js ''capability-unavailable''"
| "code_literal OperationCancelled = js ''operation-cancelled''"
| "code_literal OperationalResourceExhausted = js ''resource-exhausted''"
| "code_literal OperationalInternalFailure = js ''internal-failure''"

fun category_literal :: "operational_category \<Rightarrow> js_string" where
  "category_literal InputCategory = js ''input''"
| "category_literal AvailabilityCategory = js ''availability''"
| "category_literal CancellationCategory = js ''cancellation''"
| "category_literal ResourceCategory = js ''resource''"
| "category_literal InternalCategory = js ''internal''"

fun severity_literal :: "operational_severity \<Rightarrow> js_string" where
  "severity_literal Recoverable = js ''recoverable''"
| "severity_literal Fatal = js ''fatal''"

definition operational_codes :: "operational_code list" where
  "operational_codes = [InvalidInput, UnsupportedInput, CapabilityUnavailable, OperationCancelled,
     OperationalResourceExhausted, OperationalInternalFailure]"

definition createOperationalErrorV1 :: "operational_code \<Rightarrow> operational_error" where
  "createOperationalErrorV1 c = \<lparr>operationalVersion = 1, operationalErrorCode = c, operationalCategory = errorCategory c,
     operationalSeverity = errorSeverity c\<rparr>"

section \<open>Decoding\<close>

definition readOperationalVersion :: "js_value \<Rightarrow> contract_code contract_failure + int" where
  "readOperationalVersion input = readContractVersion Malformed locator_error_code.UnsupportedVersion input"

fun validateOperationalErrorV1Wire :: "js_value \<Rightarrow> bool" where
  "validateOperationalErrorV1Wire (JObject kvs) =
     (only_keys [''schemaVersion'', ''code'', ''category'', ''severity''] kvs \<and>
      valid_version_1 (property kvs ''schemaVersion'') \<and>
      enum_member code_literal operational_codes (property kvs ''code'') \<noteq> None \<and>
      enum_member category_literal [InputCategory, AvailabilityCategory, CancellationCategory, ResourceCategory, InternalCategory]
        (property kvs ''category'') \<noteq> None \<and>
      enum_member severity_literal [Recoverable, Fatal] (property kvs ''severity'') \<noteq> None)"
| "validateOperationalErrorV1Wire _ = False"

definition decodeOperationalErrorV1 :: "js_value \<Rightarrow> contract_code contract_failure + operational_error" where
  "decodeOperationalErrorV1 input =
     bindE (readOperationalVersion input) (\<lambda>_.
     if \<not> validateOperationalErrorV1Wire input then Inl (ContractFails Malformed)
     else let kvs = objectFields input in
       (case enum_member code_literal operational_codes (property kvs ''code'') of
          None \<Rightarrow> Inl (ContractFails Malformed)
        | Some c \<Rightarrow>
            if property kvs ''category'' \<noteq> JString (category_literal (errorCategory c)) \<or>
               property kvs ''severity'' \<noteq> JString (severity_literal (errorSeverity c))
            then Inl (ContractFails Malformed) else Inr (createOperationalErrorV1 c)))"

section \<open>The failures of the EPUB pipeline\<close>

text \<open>\<open>OPERATIONAL_CODES\<close>\<close>

fun operationalCode :: "epub_error \<Rightarrow> operational_code" where
  "operationalCode BrokenReference = InvalidInput"
| "operationalCode Cancelled = OperationCancelled"
| "operationalCode InvalidContainer = InvalidInput"
| "operationalCode InternalFailure = OperationalInternalFailure"
| "operationalCode LocatorUnresolved = InvalidInput"
| "operationalCode MalformedPackage = InvalidInput"
| "operationalCode MalformedXml = InvalidInput"
| "operationalCode ResourceLimitExceeded = OperationalResourceExhausted"
| "operationalCode UnsafeEntry = InvalidInput"
| "operationalCode UnsupportedLayout = UnsupportedInput"
| "operationalCode UnsupportedProtection = UnsupportedInput"
| "operationalCode UnsupportedResource = UnsupportedInput"
| "operationalCode UnsupportedVersion = UnsupportedInput"

text \<open>\<open>mapEpubFailure\<close>: an exception that is not an \<open>EpubArchiveError\<close> is \<open>None\<close>.\<close>

definition mapEpubFailure :: "epub_error option \<Rightarrow> epub_error \<times> operational_error" where
  "mapEpubFailure e = (let detail = (case e of Some c \<Rightarrow> c | None \<Rightarrow> InternalFailure) in
     (detail, createOperationalErrorV1 (operationalCode detail)))"

section \<open>Round trip\<close>

definition operational_wire :: "operational_error \<Rightarrow> js_value" where
  "operational_wire e = JObject [(''schemaVersion'', JNumber (Finite (of_int (operationalVersion e)))),
     (''code'', JString (code_literal (operationalErrorCode e))),
     (''category'', JString (category_literal (operationalCategory e))),
     (''severity'', JString (severity_literal (operationalSeverity e)))]"

lemma code_literal_inject [simp]: "code_literal c = code_literal d \<longleftrightarrow> c = d"
  by (cases c; cases d) (simp_all add: js_def)

lemma created_error_decodes: "decodeOperationalErrorV1 (operational_wire (createOperationalErrorV1 c)) = Inr (createOperationalErrorV1 c)"
  by (cases c)
    (simp_all add: decodeOperationalErrorV1_def readOperationalVersion_def readContractVersion_def operational_wire_def createOperationalErrorV1_def
      only_keys_def is_integer_num_def is_safe_integer_num_def safe_integer_def MAX_SAFE_INTEGER_def enum_member_def operational_codes_def js_def)

definition operational_wf :: "operational_error \<Rightarrow> bool" where
  "operational_wf e \<longleftrightarrow> e = createOperationalErrorV1 (operationalErrorCode e)"

lemma decoded_error_is_created: "decodeOperationalErrorV1 v = Inr e \<Longrightarrow> \<exists>c. e = createOperationalErrorV1 c"
  by (auto simp: decodeOperationalErrorV1_def bindE_Inr Let_def split: if_splits option.splits)

interpretation operational_errors: versioned_contract decodeOperationalErrorV1 operational_wire operational_wf
proof
  show "operational_wf e" if "decodeOperationalErrorV1 v = Inr e" for v e
    using decoded_error_is_created [OF that] by (auto simp: operational_wf_def createOperationalErrorV1_def)
  show "decodeOperationalErrorV1 (operational_wire e) = Inr e" if "operational_wf e" for e
    using that created_error_decodes [of "operationalErrorCode e"] by (simp add: operational_wf_def)
qed

end
