(* ===== verification/Open_Flow.thy ===== *)
theory Open_Flow
  imports Publication_Session Operational_Error
begin

text \<open>
  apps/desktop/src/file-ingress/local-epub-file.ts and apps/desktop/src/publication/local-publication-open.ts:
  reading the file the user selected, and the flow that turns a selected file into the open publication. A
  selection supersedes whatever came before it: the publication session is closed at once, while the file is
  read. As in the session, a turn is a call of a method or the settlement of something awaited.
\<close>

section \<open>Reading the file\<close>

definition MAX_LOCAL_EPUB_FILE_BYTES :: int where
  "MAX_LOCAL_EPUB_FILE_BYTES = 100 * 1048576"

datatype size_disposition = SizeAccepted | SizeInvalid | SizeTooLarge

definition classifyLocalEpubFileSize :: "js_number \<Rightarrow> size_disposition" where
  "classifyLocalEpubFileSize byteSize =
     (if \<not> number_is_count byteSize then SizeInvalid
      else if integral_part byteSize \<le> MAX_LOCAL_EPUB_FILE_BYTES then SizeAccepted else SizeTooLarge)"

datatype file_failure = InvalidSize | ReadFailed | SizeMismatch | TooLarge

datatype file_result = FileReady bytes | FileCancelled | FileRejected file_failure

text \<open>One read: the size the file reports, whether the signal has been aborted, and the result once settled.\<close>

record file_read =
  fileSize :: js_number
  signalAborted :: bool
  fileSettled :: "file_result option"

definition finishFile :: "file_result \<Rightarrow> file_read \<Rightarrow> file_read" where
  "finishFile r f = (if fileSettled f \<noteq> None then f else f\<lparr>fileSettled := Some r\<rparr>)"

text \<open>\<open>readLocalEpubFile\<close>: \<open>startThrows\<close> tells whether \<open>readAsArrayBuffer\<close> throws.\<close>

definition readLocalEpubFile :: "js_number \<Rightarrow> bool \<Rightarrow> bool \<Rightarrow> file_read" where
  "readLocalEpubFile byteSize ab startThrows =
     (let f = \<lparr>fileSize = byteSize, signalAborted = ab, fileSettled = None\<rparr> in
      case classifyLocalEpubFileSize byteSize of
        SizeInvalid \<Rightarrow> f\<lparr>fileSettled := Some (FileRejected InvalidSize)\<rparr>
      | SizeTooLarge \<Rightarrow> f\<lparr>fileSettled := Some (FileRejected TooLarge)\<rparr>
      | SizeAccepted \<Rightarrow>
          if ab then f\<lparr>fileSettled := Some FileCancelled\<rparr>
          else if startThrows then finishFile (FileRejected ReadFailed) f else f)"

text \<open>The events of the file reader and of the signal; a result that is not an array buffer is \<open>None\<close>.\<close>

datatype file_event = FileLoads "bytes option" | FileErrors | FileAborts | SignalAborts

fun file_step :: "file_event \<Rightarrow> file_read \<Rightarrow> file_read" where
  "file_step (FileLoads r) f =
     (if signalAborted f then finishFile FileCancelled f
      else case r of
        None \<Rightarrow> finishFile (FileRejected ReadFailed) f
      | Some bs \<Rightarrow>
          if Integral (int (length bs)) \<noteq> fileSize f \<or> MAX_LOCAL_EPUB_FILE_BYTES < int (length bs)
          then finishFile (FileRejected SizeMismatch) f else finishFile (FileReady bs) f)"
| "file_step FileErrors f = finishFile (FileRejected ReadFailed) f"
| "file_step FileAborts f = finishFile FileCancelled f"
| "file_step SignalAborts f = finishFile FileCancelled (f\<lparr>signalAborted := True\<rparr>)"

text \<open>Whatever order the events come in, bytes that are delivered are the whole file, within the limit.\<close>

lemma file_step_settled: "fileSettled f = Some r \<Longrightarrow> fileSettled (file_step e f) = Some r"
  by (cases e) (auto simp: finishFile_def split: option.split)

lemma file_step_size [simp]: "fileSize (file_step e f) = fileSize f"
  by (cases e) (auto simp: finishFile_def split: option.split)

lemma file_step_bytes: "fileSettled (file_step e f) = Some (FileReady bs) \<Longrightarrow>
    fileSettled f = Some (FileReady bs) \<or>
    (fileSize f = Integral (int (length bs)) \<and> int (length bs) \<le> MAX_LOCAL_EPUB_FILE_BYTES \<and> \<not> signalAborted f)"
  by (cases e) (auto simp: finishFile_def split: option.splits if_splits)

lemma delivered_file_is_whole:
  assumes "fileSettled (fold file_step es (readLocalEpubFile byteSize ab startThrows)) = Some (FileReady bs)"
  shows "byteSize = Integral (int (length bs)) \<and> int (length bs) \<le> MAX_LOCAL_EPUB_FILE_BYTES \<and> \<not> ab"
proof -
  have "fileSettled (fold file_step es f) = Some (FileReady bs) \<Longrightarrow>
      fileSettled f = Some (FileReady bs) \<or>
      (fileSize f = Integral (int (length bs)) \<and> int (length bs) \<le> MAX_LOCAL_EPUB_FILE_BYTES)" for f
  proof (induction es arbitrary: f)
    case (Cons e es)
    from Cons.IH [of "file_step e f"] Cons.prems file_step_bytes [of e f bs] show ?case by fastforce
  qed simp
  moreover have "fileSettled (fold file_step es f) = Some r" if "fileSettled f = Some r" for f r
    using that by (induction es arbitrary: f) (auto intro: file_step_settled)
  ultimately show ?thesis
    using assms by (fastforce simp: readLocalEpubFile_def finishFile_def Let_def split: size_disposition.splits if_splits)
qed

section \<open>The flow\<close>

datatype flow_reason =
    FileReadFailed | FileTooLarge | FlowInternalFailure | InvalidEpub | ResourceExhausted | UnsupportedEpub

datatype flow_result = FlowReady nat | FlowCancelled | FlowRejected flow_reason

fun mapReadFailure :: "file_failure \<Rightarrow> flow_result" where
  "mapReadFailure TooLarge = FlowRejected FileTooLarge"
| "mapReadFailure InvalidSize = FlowRejected FileReadFailed"
| "mapReadFailure ReadFailed = FlowRejected FileReadFailed"
| "mapReadFailure SizeMismatch = FlowRejected FileReadFailed"

fun mapOperationalFailure :: "operational_code \<Rightarrow> flow_result" where
  "mapOperationalFailure InvalidInput = FlowRejected InvalidEpub"
| "mapOperationalFailure UnsupportedInput = FlowRejected UnsupportedEpub"
| "mapOperationalFailure OperationalResourceExhausted = FlowRejected ResourceExhausted"
| "mapOperationalFailure OperationCancelled = FlowCancelled"
| "mapOperationalFailure OperationalInternalFailure = FlowRejected FlowInternalFailure"
| "mapOperationalFailure CapabilityUnavailable = FlowRejected FlowInternalFailure"

fun mapSessionOpen :: "session_open_result \<Rightarrow> flow_result" where
  "mapSessionOpen SessionCancelled = FlowCancelled"
| "mapSessionOpen (SessionReady p) = FlowReady p"
| "mapSessionOpen (SessionRejected e) = mapOperationalFailure (operationalCode e)"

text \<open>
  Where a call of the flow stands. The number is the intent of the call; the result of the file is \<open>None\<close>
  when the read threw.
\<close>

datatype flow_call =
    AwaitsFile nat close_promise
  | AwaitsSessionClose nat close_promise "file_result option"
  | AwaitsSession nat nat
  | FlowAnswered flow_result
  | AwaitsFlowClose close_promise
  | FlowCloseAnswered bool

record open_flow =
  flowSession :: publication_session
  fileReading :: "nat option"
  abortedReads :: "nat list"
  flowIntent :: nat
  flowCalls :: "nat \<Rightarrow> flow_call option"
  nextFlowCall :: nat

definition createOpenFlow :: open_flow where
  "createOpenFlow = \<lparr>flowSession = createPublicationSession, fileReading = None, abortedReads = [], flowIntent = 0,
     flowCalls = Map.empty, nextFlowCall = 0\<rparr>"

definition cancelActiveRead :: "open_flow \<Rightarrow> open_flow" where
  "cancelActiveRead f = (case fileReading f of
       None \<Rightarrow> f
     | Some c \<Rightarrow> f\<lparr>fileReading := None, abortedReads := c # abortedReads f\<rparr>)"

definition setCall :: "nat \<Rightarrow> flow_call \<Rightarrow> open_flow \<Rightarrow> open_flow" where
  "setCall i c f = f\<lparr>flowCalls := (flowCalls f)(i \<mapsto> c)\<rparr>"

text \<open>\<open>open(file)\<close> up to the await of the file.\<close>

definition flowOpen :: "open_flow \<Rightarrow> open_flow" where
  "flowOpen f =
     (let i = nextFlowCall f;
        f = cancelActiveRead (f\<lparr>flowIntent := flowIntent f + 1, nextFlowCall := i + 1\<rparr>);
        (replacementClose, s) = closeSession (flowSession f) in
      setCall i (AwaitsFile (flowIntent f) replacementClose) (f\<lparr>flowSession := s, fileReading := Some i\<rparr>))"

definition flowClose :: "open_flow \<Rightarrow> open_flow" where
  "flowClose f =
     (let i = nextFlowCall f;
        f = cancelActiveRead (f\<lparr>flowIntent := flowIntent f + 1, nextFlowCall := i + 1\<rparr>);
        (p, s) = closeSession (flowSession f) in
      setCall i (AwaitsFlowClose p) (f\<lparr>flowSession := s\<rparr>))"

text \<open>After the file has been read, or the read has failed or thrown.\<close>

definition afterFile :: "nat \<Rightarrow> nat \<Rightarrow> close_promise \<Rightarrow> file_result option \<Rightarrow> open_flow \<Rightarrow> open_flow" where
  "afterFile i intent p r f =
     (let f = (if fileReading f = Some i then f\<lparr>fileReading := None\<rparr> else f) in
      if intent \<noteq> flowIntent f then setCall i (FlowAnswered FlowCancelled) f
      else setCall i (AwaitsSessionClose intent p r) f)"

definition afterSessionClose :: "nat \<Rightarrow> nat \<Rightarrow> session_close_result \<Rightarrow> file_result option \<Rightarrow> open_flow \<Rightarrow> open_flow" where
  "afterSessionClose i intent cl r f =
     (if intent \<noteq> flowIntent f then setCall i (FlowAnswered FlowCancelled) f
      else case cl of
        SessionCloseRejected e \<Rightarrow> setCall i (FlowAnswered (FlowRejected FlowInternalFailure)) f
      | SessionClosed \<Rightarrow> (case r of
            None \<Rightarrow> setCall i (FlowAnswered (FlowRejected FileReadFailed)) f
          | Some FileCancelled \<Rightarrow> setCall i (FlowAnswered FlowCancelled) f
          | Some (FileRejected reason) \<Rightarrow> setCall i (FlowAnswered (mapReadFailure reason)) f
          | Some (FileReady bs) \<Rightarrow>
              setCall i (AwaitsSession intent (nextCall (flowSession f))) (f\<lparr>flowSession := openSession (flowSession f)\<rparr>)))"

definition afterSessionOpen :: "nat \<Rightarrow> nat \<Rightarrow> session_open_result \<Rightarrow> open_flow \<Rightarrow> open_flow" where
  "afterSessionOpen i intent r f =
     setCall i (FlowAnswered (if intent \<noteq> flowIntent f then FlowCancelled else mapSessionOpen r)) f"

definition resumeFlow :: "nat \<Rightarrow> open_flow \<Rightarrow> open_flow" where
  "resumeFlow i f = (case flowCalls f i of
       Some (AwaitsSessionClose intent p r) \<Rightarrow> (case closeResult (flowSession f) p of
           None \<Rightarrow> f | Some cl \<Rightarrow> afterSessionClose i intent cl r f)
     | Some (AwaitsSession intent c) \<Rightarrow> (case openCalls (flowSession f) c of
           Some (OpenAnswered r) \<Rightarrow> afterSessionOpen i intent r f | _ \<Rightarrow> f)
     | Some (AwaitsFlowClose p) \<Rightarrow> (case closeResult (flowSession f) p of
           None \<Rightarrow> f | Some cl \<Rightarrow> setCall i (FlowCloseAnswered (cl = SessionClosed)) f)
     | _ \<Rightarrow> f)"

text \<open>The turns the flow does not begin itself.\<close>

datatype flow_event =
    FileSettles nat "file_result option" | ResumeFlow nat
  | SessionResumes nat | SessionOpener nat opener_outcome | SessionCleansUp nat | SessionCloses nat bool

definition onSession :: "session_event \<Rightarrow> open_flow \<Rightarrow> open_flow" where
  "onSession e f = f\<lparr>flowSession := snd (session_step e (flowSession f))\<rparr>"

fun flow_turn :: "flow_event \<Rightarrow> open_flow \<Rightarrow> open_flow" where
  "flow_turn (FileSettles i r) f = (case flowCalls f i of
       Some (AwaitsFile intent p) \<Rightarrow> afterFile i intent p r f
     | _ \<Rightarrow> f)"
| "flow_turn (ResumeFlow i) f = resumeFlow i f"
| "flow_turn (SessionResumes i) f = onSession (ResumeOpen i) f"
| "flow_turn (SessionOpener i r) f = onSession (OpenerAnswers i r) f"
| "flow_turn (SessionCleansUp j) f = onSession (ContinueCleanup j) f"
| "flow_turn (SessionCloses j c) f = onSession (PublicationCloses j c) f"

section \<open>Owners of the publication\<close>

text \<open>
  What the session promises the flow and the flow promises the reader, who both call it: between their calls
  a visible publication stays visible, and a call is answered with a publication only when that publication
  is the visible one.
\<close>

locale publication_owner =
  fixes turn :: "'e \<Rightarrow> 's \<Rightarrow> 's" and internal :: "'e \<Rightarrow> bool" and owner_inv :: "'s \<Rightarrow> bool"
    and visible :: "'s \<Rightarrow> nat option" and delivered :: "nat \<Rightarrow> 's \<Rightarrow> nat option"
  assumes turn_inv: "owner_inv s \<Longrightarrow> internal e \<Longrightarrow> owner_inv (turn e s)"
    and visible_stays: "owner_inv s \<Longrightarrow> internal e \<Longrightarrow> visible s = Some p \<Longrightarrow> visible (turn e s) = Some p"
    and delivered_when_visible:
      "owner_inv s \<Longrightarrow> internal e \<Longrightarrow> delivered c (turn e s) = Some p \<Longrightarrow> delivered c s \<noteq> Some p \<Longrightarrow> visible (turn e s) = Some p"
begin

lemma delivered_is_visible:
  assumes "owner_inv s" and "internal e" and "\<And>p. delivered c s = Some p \<Longrightarrow> visible s = Some p"
    and "delivered c (turn e s) = Some p"
  shows "visible (turn e s) = Some p"
  using assms visible_stays delivered_when_visible by blast

end

fun callsSession :: "session_event \<Rightarrow> bool" where
  "callsSession OpenSession = True"
| "callsSession CloseSession = True"
| "callsSession (ResumeOpen i) = False"
| "callsSession (OpenerAnswers i r) = False"
| "callsSession (ContinueCleanup j) = False"
| "callsSession (PublicationCloses j cl) = False"

definition sessionTurn :: "session_event \<Rightarrow> publication_session \<Rightarrow> publication_session" where
  "sessionTurn e s = snd (session_step e s)"

text \<open>The publication a call of \<open>open\<close> has been answered with.\<close>

definition sessionDelivery :: "nat \<Rightarrow> publication_session \<Rightarrow> nat option" where
  "sessionDelivery i s = (case openCalls s i of Some (OpenAnswered (SessionReady p)) \<Rightarrow> Some p | _ \<Rightarrow> None)"

lemma sessionDelivery_iff: "sessionDelivery i s = Some p \<longleftrightarrow> openCalls s i = Some (OpenAnswered (SessionReady p))"
  by (simp add: sessionDelivery_def split: option.split open_call.split session_open_result.split)

lemma session_visible_stays:
  assumes "session_inv s" and "\<not> callsSession e" and "activePublication s = Some p"
  shows "activePublication (sessionTurn e s) = Some p"
proof -
  have idle: "activeAttempt s = None" using assms(1,3) by (auto simp: session_inv_def)
  have late: "n < intentVersion s" if "openCalls s i = Some (AwaitsClose q n)" for i q n
    using call_of_inv [OF assms(1) that] assms(3) by (auto simp: le_less)
  show ?thesis
  proof (cases e)
    case (ResumeOpen i)
    show ?thesis
    proof (cases "\<exists>q n. openCalls s i = Some (AwaitsClose q n)")
      case True
      then obtain q n where c: "openCalls s i = Some (AwaitsClose q n)" by blast
      from late [OF c] have "n < intentVersion s" by (cases q) simp
      with c ResumeOpen assms(3) show ?thesis
        by (auto simp: sessionTurn_def resumeOpen_def afterClose_def answerOpen_def Let_def)
    next
      case False
      with ResumeOpen assms(3) show ?thesis
        by (auto simp: sessionTurn_def resumeOpen_def afterCleanup_def answerOpen_def split: option.split open_call.split)
    qed
  next
    case (OpenerAnswers i r)
    with idle assms(3) show ?thesis
      by (cases r) (auto simp: sessionTurn_def afterOpener_def isActiveAttempt_def answerOpen_def queuePublicationClose_def)
  qed (use assms in \<open>auto simp: sessionTurn_def\<close>)
qed

lemma session_delivery:
  assumes "session_inv s" and "\<not> callsSession e" and "sessionDelivery c (sessionTurn e s) = Some p" and "sessionDelivery c s \<noteq> Some p"
  shows "activePublication (sessionTurn e s) = Some p"
proof (cases e)
  case (ResumeOpen i)
  with assms(3,4) show ?thesis
    by (auto simp: sessionDelivery_iff sessionTurn_def resumeOpen_def afterClose_def afterCleanup_def session_defs Let_def
        split: option.splits open_call.splits if_splits)
next
  case (OpenerAnswers i r)
  with assms(3,4) show ?thesis
    by (cases r) (auto simp: sessionDelivery_iff sessionTurn_def afterOpener_def queuePublicationClose_def answerOpen_def Let_def split: if_splits)
qed (use assms in \<open>auto simp: sessionTurn_def sessionDelivery_iff split: if_splits\<close>)

interpretation session: publication_owner sessionTurn "\<lambda>e. \<not> callsSession e" session_inv activePublication sessionDelivery
  by unfold_locales (use session_step_inv session_visible_stays session_delivery in \<open>auto simp: sessionTurn_def\<close>)

text \<open>A turn of the session starts no call, and leaves a call that is still waiting or answered in place.\<close>

lemma sessionTurn_frame:
  assumes "\<not> callsSession e"
  shows "nextCall (sessionTurn e s) = nextCall s"
  using assms by (cases e)
    (auto simp: sessionTurn_def resumeOpen_def afterClose_def afterCleanup_def afterOpener_def session_defs Let_def
      split: option.split open_call.split opener_outcome.split)

lemma session_stays_superseded:
  "session_inv s \<Longrightarrow> superseded_calls n s \<Longrightarrow> superseded_calls n (sessionTurn e s)"
  using superseded_step unfolding sessionTurn_def by blast

lemma superseded_shows_nothing:
  assumes "session_inv s" and "superseded_calls (nextCall s) s"
  shows "activePublication s = None"
proof (cases "activePublication s")
  case (Some p)
  with assms(1) have "openCalls s p \<noteq> None" by (auto simp: session_inv_def)
  with assms(1) have "p < nextCall s" by (auto simp: session_inv_def)
  with Some assms(2) show ?thesis by (auto simp: superseded_calls_def)
qed simp

lemma close_leaves_superseded:
  assumes "session_inv s"
  shows "superseded_calls (nextCall (snd (closeSession s))) (snd (closeSession s))"
proof -
  have "nextCall (snd (closeSession s)) = nextCall s"
    by (auto simp: closeSession_def session_defs Let_def split: option.split)
  with close_supersedes [OF assms] show ?thesis by simp
qed

lemma opened_not_delivered:
  assumes "session_inv s"
  shows "sessionDelivery (nextCall s) (openSession s) = None" and "nextCall (openSession s) = Suc (nextCall s)"
  by (auto simp: sessionDelivery_def openSession_def session_defs Let_def split: option.split)

section \<open>The invariant of the flow\<close>

text \<open>
  The last call of the flow is the current one. While it waits for the file or for the close, nothing is
  visible nor can become so; once the session has delivered to it, what it delivered is visible.
\<close>

definition nothing_coming :: "publication_session \<Rightarrow> bool" where
  "nothing_coming s \<longleftrightarrow> superseded_calls (nextCall s) s"

fun flow_call_ok :: "publication_session \<Rightarrow> nat \<Rightarrow> nat \<Rightarrow> flow_call \<Rightarrow> bool" where
  "flow_call_ok s n i (AwaitsFile k p) \<longleftrightarrow> k = Suc i \<and> (k = n \<longrightarrow> nothing_coming s)"
| "flow_call_ok s n i (AwaitsSessionClose k p r) \<longleftrightarrow> k = Suc i \<and> (k = n \<longrightarrow> nothing_coming s)"
| "flow_call_ok s n i (AwaitsSession k c) \<longleftrightarrow> k = Suc i \<and>
     (k = n \<longrightarrow> (\<forall>p. sessionDelivery c s = Some p \<longrightarrow> activePublication s = Some p))"
| "flow_call_ok s n i (FlowAnswered r) \<longleftrightarrow> Suc i = n \<longrightarrow> (\<forall>p. r = FlowReady p \<longrightarrow> activePublication s = Some p)"
| "flow_call_ok s n i (AwaitsFlowClose p) \<longleftrightarrow> True"
| "flow_call_ok s n i (FlowCloseAnswered b) \<longleftrightarrow> True"

definition flow_inv :: "open_flow \<Rightarrow> bool" where
  "flow_inv f \<longleftrightarrow> session_inv (flowSession f) \<and> flowIntent f = nextFlowCall f \<and>
     (\<forall>i. flowCalls f i \<noteq> None \<longleftrightarrow> i < nextFlowCall f) \<and>
     (\<forall>i c. flowCalls f i = Some c \<longrightarrow> flow_call_ok (flowSession f) (nextFlowCall f) i c)"

lemma created_flow_inv: "flow_inv createOpenFlow"
  by (simp add: flow_inv_def createOpenFlow_def created_session_inv)

lemma flow_call_of_inv: "flow_inv f \<Longrightarrow> flowCalls f i = Some c \<Longrightarrow> flow_call_ok (flowSession f) (nextFlowCall f) i c"
  by (simp add: flow_inv_def)

lemma flow_call_ok_older: "flow_call_ok s n i c \<Longrightarrow> i < n \<Longrightarrow> flow_call_ok t (Suc n) i c"
  by (cases c) auto

lemma flow_call_ok_other: "flow_call_ok s n i c \<Longrightarrow> Suc i \<noteq> n \<Longrightarrow> flow_call_ok t n i c"
  by (cases c) auto

lemma nothing_coming_turn:
  "session_inv s \<Longrightarrow> \<not> callsSession e \<Longrightarrow> nothing_coming s \<Longrightarrow> nothing_coming (sessionTurn e s)"
  by (simp add: nothing_coming_def sessionTurn_frame session_stays_superseded)

lemma flow_call_ok_turn:
  assumes "session_inv s" and "\<not> callsSession e" and "flow_call_ok s n i c"
  shows "flow_call_ok (sessionTurn e s) n i c"
proof (cases c)
  case (AwaitsSession k call)
  with assms show ?thesis using session.delivered_is_visible [OF assms(1,2), of call] by auto
next
  case (FlowAnswered r)
  with assms show ?thesis using session.visible_stays [OF assms(1,2)] by auto
qed (use assms nothing_coming_turn in auto)

lemma onSession_inv:
  assumes "flow_inv f" and "\<not> callsSession e"
  shows "flow_inv (onSession e f)"
proof -
  have s: "session_inv (flowSession f)" using assms(1) by (simp add: flow_inv_def)
  have "flowSession (onSession e f) = sessionTurn e (flowSession f)" by (simp add: onSession_def sessionTurn_def)
  with assms flow_call_ok_turn [OF s assms(2)] session.turn_inv [OF s assms(2)] show ?thesis
    by (simp add: flow_inv_def onSession_def)
qed

lemma setCall_inv:
  assumes "flow_inv f" and "flowCalls f i \<noteq> None" and "flow_call_ok (flowSession f) (nextFlowCall f) i c"
  shows "flow_inv (setCall i c f)"
  using assms by (auto simp: flow_inv_def setCall_def)

lemma fileReading_inv: "flow_inv f \<Longrightarrow> flow_inv (f\<lparr>fileReading := r\<rparr>)"
  by (simp add: flow_inv_def)

text \<open>A call of the flow: it becomes the current one, and the session has just been closed.\<close>

lemma cancelActiveRead_frame [simp]:
  "flowSession (cancelActiveRead f) = flowSession f" "flowIntent (cancelActiveRead f) = flowIntent f"
  "flowCalls (cancelActiveRead f) = flowCalls f" "nextFlowCall (cancelActiveRead f) = nextFlowCall f"
  by (simp_all add: cancelActiveRead_def split: option.split)

lemma new_call_inv:
  assumes "flow_inv f" and "session_inv s" and "flow_call_ok s (Suc (nextFlowCall f)) (nextFlowCall f) c"
    and "flowSession g = s" and "flowIntent g = Suc (flowIntent f)" and "nextFlowCall g = Suc (nextFlowCall f)"
    and "flowCalls g = (flowCalls f)(nextFlowCall f \<mapsto> c)"
  shows "flow_inv g"
proof -
  have "flow_call_ok s (Suc (nextFlowCall f)) i d" if "flowCalls f i = Some d" for i d
  proof -
    have "i < nextFlowCall f" using assms(1) that unfolding flow_inv_def by blast
    with flow_call_of_inv [OF assms(1) that] show ?thesis by (rule flow_call_ok_older)
  qed
  with assms(1-3) show ?thesis by (auto simp: flow_inv_def assms(4-7) less_Suc_eq)
qed

lemma closed_session: "session_inv s \<Longrightarrow> session_inv (snd (closeSession s)) \<and> nothing_coming (snd (closeSession s))"
  by (simp add: closeSession_inv close_leaves_superseded nothing_coming_def)

lemma flowOpen_inv:
  assumes "flow_inv f"
  shows "flow_inv (flowOpen f)"
proof -
  have intent: "flowIntent f = nextFlowCall f" and s: "session_inv (flowSession f)" using assms by (simp_all add: flow_inv_def)
  obtain p t where c: "closeSession (flowSession f) = (p, t)" by (cases "closeSession (flowSession f)")
  with closed_session [OF s] have t: "session_inv t" "nothing_coming t" by simp_all
  show ?thesis
    by (rule new_call_inv [OF assms t(1), of "AwaitsFile (Suc (flowIntent f)) p"])
      (simp_all add: flowOpen_def Let_def c setCall_def t intent)
qed

lemma flowClose_inv:
  assumes "flow_inv f"
  shows "flow_inv (flowClose f)"
proof -
  have intent: "flowIntent f = nextFlowCall f" and s: "session_inv (flowSession f)" using assms by (simp_all add: flow_inv_def)
  obtain p t where c: "closeSession (flowSession f) = (p, t)" by (cases "closeSession (flowSession f)")
  with closed_session [OF s] have t: "session_inv t" by simp
  show ?thesis
    by (rule new_call_inv [OF assms t, of "AwaitsFlowClose p"])
      (simp_all add: flowClose_def Let_def c setCall_def)
qed

text \<open>The turns that are no calls.\<close>

lemma afterFile_inv:
  assumes "flow_inv f" and "flowCalls f i = Some (AwaitsFile n p)"
  shows "flow_inv (afterFile i n p r f)"
proof -
  define g where "g = (if fileReading f = Some i then f\<lparr>fileReading := None\<rparr> else f)"
  have g: "flow_inv g" "flowCalls g = flowCalls f" "flowIntent g = flowIntent f" "flowSession g = flowSession f" "nextFlowCall g = nextFlowCall f"
    using assms(1) by (simp_all add: g_def fileReading_inv)
  have ok: "flow_call_ok (flowSession f) (nextFlowCall f) i (AwaitsFile n p)" using assms by (rule flow_call_of_inv)
  have "afterFile i n p r f = (if n \<noteq> flowIntent g then setCall i (FlowAnswered FlowCancelled) g else setCall i (AwaitsSessionClose n p r) g)"
    by (simp only: afterFile_def Let_def g_def)
  then show ?thesis
    using setCall_inv [OF g(1), of i] ok assms(2) by (simp add: g)
qed

lemma afterSessionClose_inv:
  assumes "flow_inv f" and "flowCalls f i = Some (AwaitsSessionClose n p r)"
  shows "flow_inv (afterSessionClose i n cl r f)"
proof -
  have ok: "n = Suc i" "n = nextFlowCall f \<longrightarrow> nothing_coming (flowSession f)" using flow_call_of_inv [OF assms] by auto
  have s: "session_inv (flowSession f)" "flowIntent f = nextFlowCall f" using assms(1) by (simp_all add: flow_inv_def)
  have answered: "flow_inv (setCall i (FlowAnswered x) f)" if "\<forall>q. x \<noteq> FlowReady q" for x
    using assms that by (intro setCall_inv) auto
  have no_read: "mapReadFailure x \<noteq> FlowReady q" for x q by (cases x) auto
  have opens: "flow_inv (setCall i (AwaitsSession n (nextCall (flowSession f))) (f\<lparr>flowSession := openSession (flowSession f)\<rparr>))"
    if "n = flowIntent f"
  proof -
    let ?s = "openSession (flowSession f)"
    have "i < nextFlowCall f" using assms unfolding flow_inv_def by blast
    moreover have "flow_call_ok ?s (nextFlowCall f) i (AwaitsSession n (nextCall (flowSession f)))"
      using ok(1) opened_not_delivered(1) [OF s(1)] by simp
    moreover have "flow_call_ok ?s (nextFlowCall f) j c" if "flowCalls f j = Some c" "j \<noteq> i" for j c
      using flow_call_of_inv [OF assms(1) that(1)] by (rule flow_call_ok_other) (use that ok(1) s(2) \<open>n = flowIntent f\<close> in simp)
    ultimately show ?thesis
      using assms(1) openSession_inv [OF s(1)] unfolding flow_inv_def setCall_def by simp
  qed
  show ?thesis
  proof (cases "n = flowIntent f \<and> (\<exists>bs. cl = SessionClosed \<and> r = Some (FileReady bs))")
    case True
    with opens show ?thesis by (auto simp: afterSessionClose_def)
  next
    case False
    then have "\<exists>x. afterSessionClose i n cl r f = setCall i (FlowAnswered x) f \<and> (\<forall>q. x \<noteq> FlowReady q)"
      using no_read by (simp add: afterSessionClose_def split: session_close_result.split option.split file_result.split) blast
    with answered show ?thesis by metis
  qed
qed

lemma afterSessionOpen_inv:
  assumes "flow_inv f" and "flowCalls f i = Some (AwaitsSession n c)" and "openCalls (flowSession f) c = Some (OpenAnswered r)"
  shows "flow_inv (afterSessionOpen i n r f)"
proof -
  have ok: "n = nextFlowCall f \<longrightarrow> (\<forall>p. sessionDelivery c (flowSession f) = Some p \<longrightarrow> activePublication (flowSession f) = Some p)"
    using flow_call_of_inv [OF assms(1,2)] by auto
  have intent: "flowIntent f = nextFlowCall f" using assms(1) by (simp add: flow_inv_def)
  have operational: "mapOperationalFailure x \<noteq> FlowReady p" for x p by (cases x) auto
  have "r = SessionReady p" if "mapSessionOpen r = FlowReady p" for p using that operational by (cases r) auto
  with ok intent assms(3) have "activePublication (flowSession f) = Some p" if "n = flowIntent f" "mapSessionOpen r = FlowReady p" for p
    using that by (simp add: sessionDelivery_iff)
  then show ?thesis
    unfolding afterSessionOpen_def using assms(1,2) by (intro setCall_inv) auto
qed

lemma resumeFlow_inv: "flow_inv f \<Longrightarrow> flow_inv (resumeFlow i f)"
  using afterSessionClose_inv [of f i] afterSessionOpen_inv [of f i] setCall_inv [of f i]
  by (auto simp: resumeFlow_def split: option.split flow_call.split open_call.split)

lemma flow_turn_inv:
  assumes "flow_inv f"
  shows "flow_inv (flow_turn e f)"
proof (cases e)
  case (FileSettles i r)
  with assms afterFile_inv [OF assms, of i] show ?thesis by (auto split: option.split flow_call.split)
qed (use assms resumeFlow_inv onSession_inv in auto)

section \<open>What the flow promises\<close>

definition flowVisible :: "open_flow \<Rightarrow> nat option" where
  "flowVisible f = activePublication (flowSession f)"

text \<open>The answer of a call counts while the call is the last one.\<close>

definition flowDelivery :: "nat \<Rightarrow> open_flow \<Rightarrow> nat option" where
  "flowDelivery i f = (case flowCalls f i of
       Some (FlowAnswered (FlowReady p)) \<Rightarrow> if Suc i = nextFlowCall f then Some p else None | _ \<Rightarrow> None)"

lemma flowDelivery_iff: "flowDelivery i f = Some p \<longleftrightarrow> flowCalls f i = Some (FlowAnswered (FlowReady p)) \<and> Suc i = nextFlowCall f"
  by (simp add: flowDelivery_def split: option.split flow_call.split flow_result.split)

lemma flow_delivery_visible: "flow_inv f \<Longrightarrow> flowDelivery i f = Some p \<Longrightarrow> flowVisible f = Some p"
  using flow_call_of_inv [of f i] by (auto simp: flowDelivery_iff flowVisible_def)

lemma resumeFlow_visible:
  assumes "flow_inv f" and "flowVisible f = Some p"
  shows "flowVisible (resumeFlow i f) = Some p"
proof -
  have s: "session_inv (flowSession f)" "flowIntent f = nextFlowCall f" using assms(1) by (simp_all add: flow_inv_def)
  have "flowSession (afterSessionClose i n cl r f) = flowSession f" if "flowCalls f i = Some (AwaitsSessionClose n q r)" for n q cl r
  proof (cases "n = flowIntent f")
    case True
    with flow_call_of_inv [OF assms(1) that] s have "nothing_coming (flowSession f)" by simp
    with superseded_shows_nothing [OF s(1)] assms(2) show ?thesis by (simp add: nothing_coming_def flowVisible_def)
  qed (simp add: afterSessionClose_def setCall_def)
  then have "flowVisible (afterSessionClose i n cl r f) = Some p" if "flowCalls f i = Some (AwaitsSessionClose n q r)" for n q cl r
    using that assms(2) by (simp add: flowVisible_def)
  moreover have "flowVisible (afterSessionOpen i n r f) = Some p" "flowVisible (setCall i c f) = Some p" for n r c
    using assms(2) by (simp_all add: flowVisible_def afterSessionOpen_def setCall_def)
  ultimately show ?thesis using assms(2) unfolding resumeFlow_def by (auto split: option.split flow_call.split open_call.split)
qed

lemma flow_turn_visible:
  assumes "flow_inv f" and "flowVisible f = Some p"
  shows "flowVisible (flow_turn e f) = Some p"
proof -
  have s: "session_inv (flowSession f)" using assms(1) by (simp add: flow_inv_def)
  have "flowVisible (onSession x f) = Some p" if "\<not> callsSession x" for x
    using session.visible_stays [OF s that] assms(2) by (simp add: flowVisible_def onSession_def sessionTurn_def)
  with assms resumeFlow_visible [OF assms] show ?thesis
    by (cases e) (auto simp: flowVisible_def afterFile_def setCall_def Let_def split: option.split flow_call.split)
qed

interpretation flow: publication_owner flow_turn "\<lambda>e. True" flow_inv flowVisible flowDelivery
  by unfold_locales (use flow_turn_inv flow_turn_visible flow_delivery_visible in auto)

text \<open>Which calls of the flow are made is told apart from the turns.\<close>

datatype flow_action = FlowOpens | FlowCloses | FlowTurns flow_event

fun flow_step :: "flow_action \<Rightarrow> open_flow \<Rightarrow> open_flow" where
  "flow_step FlowOpens f = flowOpen f"
| "flow_step FlowCloses f = flowClose f"
| "flow_step (FlowTurns e) f = flow_turn e f"

lemma flow_step_inv: "flow_inv f \<Longrightarrow> flow_inv (flow_step a f)"
  using flowOpen_inv flowClose_inv flow_turn_inv by (cases a) auto

lemma flow_run_inv: "flow_inv f \<Longrightarrow> flow_inv (fold flow_step as f)"
  by (induction as arbitrary: f) (simp_all add: flow_step_inv)

end
