(* ===== verification/Reader_Lifecycle.thy ===== *)
theory Reader_Lifecycle
  imports Open_Flow
begin

text \<open>
  apps/desktop/src/publication/reader-lifecycle.ts: the state the reader's shell shows, kept over the flow of
  \<open>Open_Flow\<close>. Each call of a method gets a number, which is also its intent. Listeners are not modelled: they
  only tell React to read the state again.
\<close>

section \<open>State\<close>

text \<open>What the lifecycle reads of a publication: its default start, its title and its authors.\<close>

record publication_facts =
  hasDefaultStart :: bool
  bookTitle :: string
  bookAuthors :: "string list"

datatype reader_failure = FlowFailure flow_reason | CloseFailed | RenderingFailed | OpenInterrupted

record publication_summary =
  summaryTitle :: string
  summaryAuthors :: "string list"

datatype reader_state =
    ReaderIdle | ReaderOpening | ReaderReady nat nat publication_summary | ReaderEmpty
  | ReaderFailure reader_failure | ReaderClosing

text \<open>
  Where a call of the reader stands: its intent, and the call of the flow it waits for. A call of
  \<open>failRendering\<close> and of \<open>cleanup\<close> goes on in the background in the same way.
\<close>

datatype reader_call =
    AwaitsFlowOpen nat nat
  | AwaitsEmptyClose nat nat
  | AwaitsReaderClose nat nat
  | AwaitsFailedClose nat nat
  | AwaitsCleanupClose nat
  | ReaderReturned

record reader =
  readerFlow :: open_flow
  readerState :: reader_state
  readerIntent :: nat
  publicationSequence :: nat
  readerClose :: "nat option"
  readerCalls :: "nat \<Rightarrow> reader_call option"

definition createReaderLifecycle :: reader where
  "createReaderLifecycle = \<lparr>readerFlow = createOpenFlow, readerState = ReaderIdle, readerIntent = 0,
     publicationSequence = 0, readerClose = None, readerCalls = Map.empty\<rparr>"

definition readyReader :: "(nat \<Rightarrow> publication_facts) \<Rightarrow> nat \<Rightarrow> nat \<Rightarrow> reader_state" where
  "readyReader pubs p q = ReaderReady p q \<lparr>summaryTitle = bookTitle (pubs p), summaryAuthors = bookAuthors (pubs p)\<rparr>"

fun stateForOpenResult :: "(nat \<Rightarrow> publication_facts) \<Rightarrow> flow_result \<Rightarrow> nat \<Rightarrow> reader_state" where
  "stateForOpenResult pubs FlowCancelled q = ReaderFailure OpenInterrupted"
| "stateForOpenResult pubs (FlowRejected reason) q = ReaderFailure (FlowFailure reason)"
| "stateForOpenResult pubs (FlowReady p) q = (if \<not> hasDefaultStart (pubs p) then ReaderEmpty else readyReader pubs p q)"

section \<open>Operations\<close>

definition setReaderCall :: "nat \<Rightarrow> reader_call \<Rightarrow> reader \<Rightarrow> reader" where
  "setReaderCall i c r = r\<lparr>readerCalls := (readerCalls r)(i \<mapsto> c)\<rparr>"

definition setState :: "reader_state \<Rightarrow> reader \<Rightarrow> reader" where
  "setState st r = r\<lparr>readerState := st\<rparr>"

text \<open>\<open>closeSafely\<close> up to its await: the call of the flow it waits for.\<close>

definition closeSafely :: "reader \<Rightarrow> nat \<times> reader" where
  "closeSafely r = (nextFlowCall (readerFlow r), r\<lparr>readerFlow := flowClose (readerFlow r)\<rparr>)"

definition readerOpen :: "reader \<Rightarrow> reader" where
  "readerOpen r =
     (let i = readerIntent r;
        r = setState ReaderOpening (r\<lparr>readerIntent := i + 1\<rparr>);
        j = nextFlowCall (readerFlow r) in
      setReaderCall i (AwaitsFlowOpen (i + 1) j) (r\<lparr>readerFlow := flowOpen (readerFlow r)\<rparr>))"

definition trackClose :: "nat \<Rightarrow> reader \<Rightarrow> reader" where
  "trackClose i r = r\<lparr>readerClose := Some i\<rparr>"

definition readerCloses :: "reader \<Rightarrow> reader" where
  "readerCloses r = (case readerClose r of
       Some p \<Rightarrow> r
     | None \<Rightarrow>
         let i = readerIntent r;
           (j, r) = closeSafely (setState ReaderClosing (r\<lparr>readerIntent := i + 1\<rparr>)) in
         trackClose i (setReaderCall i (AwaitsReaderClose (i + 1) j) r))"

definition failRendering :: "reader \<Rightarrow> reader" where
  "failRendering r = (case readerState r of
       ReaderReady p q summary \<Rightarrow>
         let i = readerIntent r;
           (j, r) = closeSafely (setState (ReaderFailure RenderingFailed) (r\<lparr>readerIntent := i + 1\<rparr>)) in
         trackClose i (setReaderCall i (AwaitsFailedClose (i + 1) j) r)
     | _ \<Rightarrow> r)"

definition readerCleanup :: "reader \<Rightarrow> reader" where
  "readerCleanup r =
     (let i = readerIntent r;
        (j, r) = closeSafely (r\<lparr>readerIntent := i + 1, readerState := ReaderIdle\<rparr>) in
      setReaderCall i (AwaitsCleanupClose j) r)"

text \<open>The rest of \<open>open\<close> once the flow has answered, and after the close of an empty publication.\<close>

definition afterFlowOpen :: "(nat \<Rightarrow> publication_facts) \<Rightarrow> nat \<Rightarrow> nat \<Rightarrow> flow_result \<Rightarrow> reader \<Rightarrow> reader" where
  "afterFlowOpen pubs i intent result r =
     (if intent \<noteq> readerIntent r then setReaderCall i ReaderReturned r
      else case result of
        FlowReady p \<Rightarrow>
          if \<not> hasDefaultStart (pubs p) then
            (case closeSafely r of (j, r) \<Rightarrow> setReaderCall i (AwaitsEmptyClose intent j) r)
          else
            let r = r\<lparr>publicationSequence := publicationSequence r + 1\<rparr> in
            setReaderCall i ReaderReturned (setState (stateForOpenResult pubs result (publicationSequence r)) r)
      | _ \<Rightarrow> setReaderCall i ReaderReturned (setState (stateForOpenResult pubs result (publicationSequence r)) r))"

definition afterEmptyClose :: "nat \<Rightarrow> nat \<Rightarrow> bool \<Rightarrow> reader \<Rightarrow> reader" where
  "afterEmptyClose i intent closes r = setReaderCall i ReaderReturned
     (if intent = readerIntent r then setState (if closes then ReaderEmpty else ReaderFailure CloseFailed) r else r)"

definition afterReaderClose :: "nat \<Rightarrow> nat \<Rightarrow> bool \<Rightarrow> reader \<Rightarrow> reader" where
  "afterReaderClose i intent closes r = setReaderCall i ReaderReturned
     (if intent \<noteq> readerIntent r then r
      else setState (if closes then ReaderIdle else ReaderFailure CloseFailed) r)"

definition afterFailedClose :: "nat \<Rightarrow> nat \<Rightarrow> bool \<Rightarrow> reader \<Rightarrow> reader" where
  "afterFailedClose i intent closes r = setReaderCall i ReaderReturned
     (if \<not> closes \<and> intent = readerIntent r then setState (ReaderFailure CloseFailed) r else r)"

section \<open>Turns\<close>

text \<open>What a close of the flow has been answered with.\<close>

definition flowCloseAnswer :: "nat \<Rightarrow> open_flow \<Rightarrow> bool option" where
  "flowCloseAnswer j f = (case flowCalls f j of Some (FlowCloseAnswered b) \<Rightarrow> Some b | _ \<Rightarrow> None)"

definition resumeReader :: "(nat \<Rightarrow> publication_facts) \<Rightarrow> nat \<Rightarrow> reader \<Rightarrow> reader" where
  "resumeReader pubs i r = (case readerCalls r i of
       Some (AwaitsFlowOpen n j) \<Rightarrow> (case flowCalls (readerFlow r) j of
           Some (FlowAnswered x) \<Rightarrow> afterFlowOpen pubs i n x r | _ \<Rightarrow> r)
     | Some (AwaitsEmptyClose n j) \<Rightarrow> (case flowCloseAnswer j (readerFlow r) of None \<Rightarrow> r | Some b \<Rightarrow> afterEmptyClose i n b r)
     | Some (AwaitsReaderClose n j) \<Rightarrow> (case flowCloseAnswer j (readerFlow r) of None \<Rightarrow> r | Some b \<Rightarrow> afterReaderClose i n b r)
     | Some (AwaitsFailedClose n j) \<Rightarrow> (case flowCloseAnswer j (readerFlow r) of None \<Rightarrow> r | Some b \<Rightarrow> afterFailedClose i n b r)
     | Some (AwaitsCleanupClose j) \<Rightarrow> (case flowCloseAnswer j (readerFlow r) of None \<Rightarrow> r | Some b \<Rightarrow> setReaderCall i ReaderReturned r)
     | _ \<Rightarrow> r)"

text \<open>The reaction \<open>trackClose\<close> attaches to the promise.\<close>

definition forgetClose :: "nat \<Rightarrow> reader \<Rightarrow> reader" where
  "forgetClose i r = (if readerCalls r i = Some ReaderReturned \<and> readerClose r = Some i then r\<lparr>readerClose := None\<rparr> else r)"

datatype reader_event =
    ReaderOpens | ReaderCloses | RenderingFails | ReaderCleansUp
  | ResumeReader nat | ForgetClose nat | ReaderFlowTurn flow_event

fun reader_turn :: "(nat \<Rightarrow> publication_facts) \<Rightarrow> reader_event \<Rightarrow> reader \<Rightarrow> reader" where
  "reader_turn pubs ReaderOpens r = readerOpen r"
| "reader_turn pubs ReaderCloses r = readerCloses r"
| "reader_turn pubs RenderingFails r = failRendering r"
| "reader_turn pubs ReaderCleansUp r = readerCleanup r"
| "reader_turn pubs (ResumeReader i) r = resumeReader pubs i r"
| "reader_turn pubs (ForgetClose i) r = forgetClose i r"
| "reader_turn pubs (ReaderFlowTurn e) r = r\<lparr>readerFlow := flow_turn e (readerFlow r)\<rparr>"

lemmas reader_defs = setReaderCall_def setState_def closeSafely_def trackClose_def
section \<open>The invariant\<close>

text \<open>
  A ready reader shows the visible publication of the flow. The current call, the one with the last intent,
  waits in the state \<open>opening\<close>, for the last call of the flow.
\<close>

fun reader_call_ok :: "reader_state \<Rightarrow> nat \<Rightarrow> nat \<Rightarrow> nat \<Rightarrow> reader_call \<Rightarrow> bool" where
  "reader_call_ok st n m i (AwaitsFlowOpen k j) \<longleftrightarrow> k = Suc i \<and> (k = n \<longrightarrow> st = ReaderOpening \<and> Suc j = m)"
| "reader_call_ok st n m i (AwaitsEmptyClose k j) \<longleftrightarrow> k = Suc i"
| "reader_call_ok st n m i (AwaitsReaderClose k j) \<longleftrightarrow> k = Suc i"
| "reader_call_ok st n m i (AwaitsFailedClose k j) \<longleftrightarrow> k = Suc i"
| "reader_call_ok st n m i (AwaitsCleanupClose j) \<longleftrightarrow> True"
| "reader_call_ok st n m i ReaderReturned \<longleftrightarrow> True"

definition shows_visible :: "(nat \<Rightarrow> publication_facts) \<Rightarrow> reader \<Rightarrow> bool" where
  "shows_visible pubs r \<longleftrightarrow> (\<forall>p q s. readerState r = ReaderReady p q s \<longrightarrow>
     flowVisible (readerFlow r) = Some p \<and> hasDefaultStart (pubs p) \<and> readerState r = readyReader pubs p (publicationSequence r))"

definition reader_inv :: "(nat \<Rightarrow> publication_facts) \<Rightarrow> reader \<Rightarrow> bool" where
  "reader_inv pubs r \<longleftrightarrow> flow_inv (readerFlow r) \<and> shows_visible pubs r \<and>
     (\<forall>i. readerCalls r i \<noteq> None \<longleftrightarrow> i < readerIntent r) \<and>
     (\<forall>i c. readerCalls r i = Some c \<longrightarrow> reader_call_ok (readerState r) (readerIntent r) (nextFlowCall (readerFlow r)) i c)"

lemma created_reader_inv: "reader_inv pubs createReaderLifecycle"
  by (simp add: reader_inv_def createReaderLifecycle_def created_flow_inv shows_visible_def)

lemma reader_call_of_inv: "reader_inv pubs r \<Longrightarrow> readerCalls r i = Some c \<Longrightarrow>
    reader_call_ok (readerState r) (readerIntent r) (nextFlowCall (readerFlow r)) i c"
  by (simp add: reader_inv_def)

lemma reader_call_ok_older: "reader_call_ok st n m i c \<Longrightarrow> i < n \<Longrightarrow> reader_call_ok st' (Suc n) m' i c"
  by (cases c) auto

lemma reader_call_ok_other: "reader_call_ok st n m i c \<Longrightarrow> Suc i \<noteq> n \<Longrightarrow> reader_call_ok st' n m' i c"
  by (cases c) auto

text \<open>A call of the reader begins a new intent, in a state that shows no publication.\<close>

lemma new_intent_inv:
  assumes "reader_inv pubs r" and "flow_inv (readerFlow t)" and "readerIntent t = Suc (readerIntent r)"
    and "readerCalls t = (readerCalls r)(readerIntent r \<mapsto> c)" and "\<forall>p q s. readerState t \<noteq> ReaderReady p q s"
    and "reader_call_ok (readerState t) (readerIntent t) (nextFlowCall (readerFlow t)) (readerIntent r) c"
  shows "reader_inv pubs t"
proof -
  have "reader_call_ok (readerState t) (Suc (readerIntent r)) (nextFlowCall (readerFlow t)) i d" if "readerCalls r i = Some d" for i d
  proof -
    have "i < readerIntent r" using assms(1) that unfolding reader_inv_def by blast
    with reader_call_of_inv [OF assms(1) that] show ?thesis by (rule reader_call_ok_older)
  qed
  with assms show ?thesis by (auto simp: reader_inv_def shows_visible_def less_Suc_eq)
qed

text \<open>The current call goes on: it is the only one the new state matters to.\<close>

lemma current_call_inv:
  assumes "reader_inv pubs r" and "readerIntent r = Suc i" and "flow_inv (readerFlow t)" and "readerIntent t = readerIntent r"
    and "readerCalls t = (readerCalls r)(i \<mapsto> c)" and "shows_visible pubs t"
    and "reader_call_ok (readerState t) (readerIntent t) (nextFlowCall (readerFlow t)) i c"
  shows "reader_inv pubs t"
proof -
  have "reader_call_ok (readerState t) (readerIntent t) (nextFlowCall (readerFlow t)) j d"
    if "readerCalls r j = Some d" "j \<noteq> i" for j d
    using reader_call_of_inv [OF assms(1) that(1)] that(2) assms(2,4) by (auto intro: reader_call_ok_other)
  with assms show ?thesis by (auto simp: reader_inv_def)
qed

lemma returned_inv:
  "reader_inv pubs r \<Longrightarrow> readerCalls r i \<noteq> None \<Longrightarrow> reader_inv pubs (setReaderCall i ReaderReturned r)"
  by (auto simp: reader_inv_def setReaderCall_def shows_visible_def)

lemma flow_frame [simp]:
  "nextFlowCall (flowOpen f) = Suc (nextFlowCall f)" "nextFlowCall (flowClose f) = Suc (nextFlowCall f)"
  by (simp_all add: flowOpen_def flowClose_def setCall_def Let_def split: prod.split)

lemma flow_turn_next: "nextFlowCall (flow_turn e f) = nextFlowCall f"
  by (cases e) (simp_all add: afterFile_def resumeFlow_def afterSessionClose_def afterSessionOpen_def setCall_def onSession_def Let_def
      split: option.split flow_call.split session_close_result.split file_result.split open_call.split)

section \<open>The turns keep the invariant\<close>

lemma reader_calls_inv:
  assumes "reader_inv pubs r" and "e \<in> {ReaderOpens, ReaderCloses, RenderingFails, ReaderCleansUp}"
  shows "reader_inv pubs (reader_turn pubs e r)"
proof -
  have f: "flow_inv (readerFlow r)" using assms(1) by (simp add: reader_inv_def)
  have opens: "reader_inv pubs (readerOpen r)"
    by (rule new_intent_inv [OF assms(1), of _ "AwaitsFlowOpen (Suc (readerIntent r)) (nextFlowCall (readerFlow r))"])
      (simp_all add: readerOpen_def reader_defs Let_def flowOpen_inv [OF f])
  have closes: "reader_inv pubs (readerCloses r)" if "readerClose r = None"
    by (rule new_intent_inv [OF assms(1), of _ "AwaitsReaderClose (Suc (readerIntent r)) (nextFlowCall (readerFlow r))"])
      (simp_all add: that readerCloses_def reader_defs Let_def flowClose_inv [OF f])
  have fails: "reader_inv pubs (failRendering r)" if "readerState r = ReaderReady p q s" for p q s
    by (rule new_intent_inv [OF assms(1), of _ "AwaitsFailedClose (Suc (readerIntent r)) (nextFlowCall (readerFlow r))"])
      (simp_all add: that failRendering_def reader_defs Let_def flowClose_inv [OF f])
  have cleans: "reader_inv pubs (readerCleanup r)"
    by (rule new_intent_inv [OF assms(1), of _ "AwaitsCleanupClose (nextFlowCall (readerFlow r))"])
      (simp_all add: readerCleanup_def reader_defs Let_def flowClose_inv [OF f])
  have "reader_inv pubs (readerCloses r)" using closes assms(1) by (cases "readerClose r") (simp_all add: readerCloses_def)
  moreover have "reader_inv pubs (failRendering r)" using fails assms(1) by (cases "readerState r") (simp_all add: failRendering_def)
  ultimately show ?thesis using assms(2) opens cleans by auto
qed

lemma afterFlowOpen_inv:
  assumes "reader_inv pubs r" and "readerCalls r i = Some (AwaitsFlowOpen n j)" and "flowCalls (readerFlow r) j = Some (FlowAnswered x)"
  shows "reader_inv pubs (afterFlowOpen pubs i n x r)"
proof (cases "n = readerIntent r")
  case False
  with returned_inv [OF assms(1)] assms(2) show ?thesis by (simp add: afterFlowOpen_def)
next
  case True
  have f: "flow_inv (readerFlow r)" using assms(1) by (simp add: reader_inv_def)
  have c: "n = Suc i" "readerState r = ReaderOpening" "Suc j = nextFlowCall (readerFlow r)"
    using reader_call_of_inv [OF assms(1,2)] True by auto
  show ?thesis
  proof (cases "\<exists>p. x = FlowReady p")
    case x: True
    then obtain p where p: "x = FlowReady p" by blast
    have visible: "flowVisible (readerFlow r) = Some p"
      using assms(3) c(3) p by (intro flow_delivery_visible [OF f, of j]) (simp add: flowDelivery_iff)
    show ?thesis
    proof (cases "hasDefaultStart (pubs p)")
      case start: True
      show ?thesis
        by (rule current_call_inv [OF assms(1), of i _ ReaderReturned])
          (use True c f visible start in \<open>simp_all add: p afterFlowOpen_def reader_defs Let_def shows_visible_def readyReader_def\<close>)
    next
      case no_start: False
      show ?thesis
        by (rule current_call_inv [OF assms(1), of i _ "AwaitsEmptyClose n (nextFlowCall (readerFlow r))"])
          (use True c flowClose_inv [OF f] no_start in \<open>simp_all add: p afterFlowOpen_def reader_defs Let_def shows_visible_def\<close>)
    qed
  next
    case x: False
    show ?thesis
      by (rule current_call_inv [OF assms(1), of i _ ReaderReturned])
        (use True c f x in \<open>cases x; simp add: afterFlowOpen_def reader_defs Let_def shows_visible_def\<close>)+
  qed
qed

lemma closed_call_inv:
  assumes "reader_inv pubs r" and "readerCalls r i = Some c" and "n = Suc i" and "\<forall>p q s. st \<noteq> ReaderReady p q s"
  shows "reader_inv pubs (setReaderCall i ReaderReturned (if n = readerIntent r then setState st r else r))"
proof (cases "n = readerIntent r")
  case True
  have "flow_inv (readerFlow r)" using assms(1) by (simp add: reader_inv_def)
  with True assms show ?thesis
    by (intro current_call_inv [OF assms(1), of i _ ReaderReturned]) (simp_all add: reader_defs shows_visible_def)
qed (use assms returned_inv in simp)

lemma resumeReader_inv:
  assumes "reader_inv pubs r"
  shows "reader_inv pubs (resumeReader pubs i r)"
proof (cases "readerCalls r i")
  case (Some c)
  have ok: "reader_call_ok (readerState r) (readerIntent r) (nextFlowCall (readerFlow r)) i c" by (rule reader_call_of_inv [OF assms Some])
  note settles = closed_call_inv [OF assms Some] returned_inv [OF assms, of i]
  show ?thesis
  proof (cases c)
    case (AwaitsFlowOpen n j)
    with assms Some afterFlowOpen_inv [OF assms, of i n j] show ?thesis by (auto simp: resumeReader_def split: option.split flow_call.split)
  next
    case (AwaitsEmptyClose n j)
    with assms Some ok settles(1) [of n] show ?thesis by (simp add: resumeReader_def afterEmptyClose_def split: option.split)
  next
    case (AwaitsReaderClose n j)
    with assms Some ok settles(1) [of n] show ?thesis
      by (cases "n = readerIntent r") (simp_all add: resumeReader_def afterReaderClose_def settles(2) split: option.split)
  next
    case (AwaitsFailedClose n j)
    with assms Some ok settles(1) [of n "ReaderFailure CloseFailed"] show ?thesis
      by (cases "n = readerIntent r") (auto simp: resumeReader_def afterFailedClose_def settles(2) split: option.split)
  next
    case (AwaitsCleanupClose j)
    with assms Some show ?thesis by (simp add: resumeReader_def settles(2) split: option.split)
  next
    case ReaderReturned
    with assms Some show ?thesis by (simp add: resumeReader_def)
  qed
qed (use assms in \<open>simp add: resumeReader_def\<close>)

lemma reader_turn_inv:
  assumes "reader_inv pubs r"
  shows "reader_inv pubs (reader_turn pubs e r)"
proof (cases e)
  case (ReaderFlowTurn x)
  have "flow_inv (readerFlow r)" using assms by (simp add: reader_inv_def)
  with assms flow.turn_inv [where e = x] flow.visible_stays [where e = x] ReaderFlowTurn show ?thesis
    by (auto simp: reader_inv_def shows_visible_def flow_turn_next)
next
  case (ForgetClose i)
  with assms show ?thesis by (simp add: forgetClose_def reader_inv_def shows_visible_def)
qed (use reader_calls_inv [OF assms, of e] resumeReader_inv [OF assms] in auto)

lemma reader_run_inv: "reader_inv pubs r \<Longrightarrow> reader_inv pubs (fold (reader_turn pubs) es r)"
  by (induction es arbitrary: r) (simp_all add: reader_turn_inv)

section \<open>What the reader shows\<close>

lemma reachable_reader: "reader_inv pubs (fold (reader_turn pubs) es createReaderLifecycle)"
  by (rule reader_run_inv [OF created_reader_inv])

text \<open>
  C33. The reader shows what is open. In every reachable state in which the reader is ready, the publication it
  shows is the one the session holds open, it has somewhere to start reading, its summary is its own, and
  it is not among those closed or about to be.
\<close>

theorem reader_shows_open_publication:
  assumes "r = fold (reader_turn pubs) es createReaderLifecycle" and "readerState r = ReaderReady p q summary"
  shows "activePublication (flowSession (readerFlow r)) = Some p \<and> p \<notin> set (cleanupQueue (flowSession (readerFlow r))) \<and>
    hasDefaultStart (pubs p) \<and> q = publicationSequence r \<and>
    summary = \<lparr>summaryTitle = bookTitle (pubs p), summaryAuthors = bookAuthors (pubs p)\<rparr>"
proof -
  have r: "reader_inv pubs r" unfolding assms(1) by (rule reachable_reader)
  then have "session_inv (flowSession (readerFlow r))" by (simp add: reader_inv_def flow_inv_def)
  moreover have "flowVisible (readerFlow r) = Some p" "hasDefaultStart (pubs p)" "readerState r = readyReader pubs p (publicationSequence r)"
    using r assms(2) unfolding reader_inv_def shows_visible_def by blast+
  ultimately show ?thesis using assms(2) by (auto simp: flowVisible_def readyReader_def session_inv_def)
qed

text \<open>Once the session is superseded, it stays so whatever the flow and the reader do.\<close>

definition flow_superseded :: "nat \<Rightarrow> open_flow \<Rightarrow> bool" where
  "flow_superseded n f \<longleftrightarrow> superseded_calls n (flowSession f)"

lemma superseded_session_calls:
  assumes "session_inv s" and "superseded_calls n s"
  shows "superseded_calls n (openSession s)" and "superseded_calls n (snd (closeSession s))"
  using superseded_step [OF assms, of OpenSession] superseded_step [OF assms, of CloseSession]
  by (auto simp: case_prod_beta)

lemma flow_calls_superseded:
  assumes "flow_inv f" and "flow_superseded n f"
  shows "flow_superseded n (flowOpen f)" and "flow_superseded n (flowClose f)"
  using superseded_session_calls(2) [of "flowSession f" n] assms
  by (auto simp: flow_superseded_def flow_inv_def flowOpen_def flowClose_def setCall_def Let_def split: prod.split)

lemma flow_turn_superseded:
  assumes "flow_inv f" and "flow_superseded n f"
  shows "flow_superseded n (flow_turn e f)"
proof -
  have s: "session_inv (flowSession f)" using assms(1) by (simp add: flow_inv_def)
  have "flow_superseded n (onSession x f)" for x
    using session_stays_superseded [OF s] assms(2) by (simp add: flow_superseded_def onSession_def sessionTurn_def)
  moreover have "flow_superseded n (resumeFlow i f)" for i
    using superseded_session_calls(1) [OF s] assms(2)
    by (simp add: flow_superseded_def resumeFlow_def afterSessionClose_def afterSessionOpen_def setCall_def
        split: option.split flow_call.split session_close_result.split file_result.split open_call.split)
  moreover have "flow_superseded n (afterFile i k p r f)" for i k p r
    using assms(2) by (simp add: flow_superseded_def afterFile_def setCall_def Let_def)
  ultimately show ?thesis using assms(2) by (cases e) (auto split: option.split flow_call.split)
qed

lemma reader_turn_superseded:
  assumes "reader_inv pubs r" and "flow_superseded n (readerFlow r)"
  shows "flow_superseded n (readerFlow (reader_turn pubs e r))"
proof -
  have f: "flow_inv (readerFlow r)" using assms(1) by (simp add: reader_inv_def)
  note calls = flow_calls_superseded [OF f assms(2)] flow_turn_superseded [OF f assms(2)] assms(2)
  have "flow_superseded n (readerFlow (resumeReader pubs i r))" for i
    using calls
    by (simp add: resumeReader_def afterFlowOpen_def afterEmptyClose_def afterReaderClose_def afterFailedClose_def reader_defs Let_def
        split: option.split reader_call.split flow_call.split flow_result.split)
  with calls show ?thesis
    by (cases e) (simp_all add: readerOpen_def readerCloses_def failRendering_def readerCleanup_def forgetClose_def reader_defs Let_def
        split: option.split reader_state.split)
qed

lemma reader_run_superseded:
  "reader_inv pubs r \<Longrightarrow> flow_superseded n (readerFlow r) \<Longrightarrow> flow_superseded n (readerFlow (fold (reader_turn pubs) es r))"
  by (induction es arbitrary: r) (simp_all add: reader_turn_inv reader_turn_superseded)

text \<open>
  C34. What the user has left does not come back. From a selection of a file, a close that does not join an
  earlier one, or the clean-up on, the reader shows nothing until it is ready with a publication of a call
  of the session made since, whatever was still being read, opened or closed.
\<close>

theorem reader_never_shows_superseded:
  assumes "r = fold (reader_turn pubs) es createReaderLifecycle"
    and "e \<in> {ReaderOpens, ReaderCleansUp} \<or> e = ReaderCloses \<and> readerClose r = None"
    and "t = reader_turn pubs e r" and "u = fold (reader_turn pubs) later t"
  shows "(\<forall>p q summary. readerState t \<noteq> ReaderReady p q summary) \<and>
    (\<forall>p q summary. readerState u = ReaderReady p q summary \<longrightarrow> nextCall (flowSession (readerFlow r)) \<le> p)"
proof -
  have r: "reader_inv pubs r" unfolding assms(1) by (rule reachable_reader)
  have t: "reader_inv pubs t" unfolding assms(3) by (rule reader_turn_inv [OF r])
  have u: "reader_inv pubs u" unfolding assms(4) by (rule reader_run_inv [OF t])
  have s: "session_inv (flowSession (readerFlow r))" using r by (simp add: reader_inv_def flow_inv_def)
  have "flow_superseded (nextCall (flowSession (readerFlow r))) (readerFlow t)"
    using assms(2,3) close_supersedes [OF s]
    by (auto simp: readerOpen_def readerCloses_def readerCleanup_def reader_defs Let_def flow_superseded_def flowOpen_def flowClose_def setCall_def
        split: prod.split)
  from reader_run_superseded [OF t this, of later]
  have later: "superseded_calls (nextCall (flowSession (readerFlow r))) (flowSession (readerFlow u))" unfolding assms(4) flow_superseded_def .
  have "nextCall (flowSession (readerFlow r)) \<le> p" if "readerState u = ReaderReady p q summary" for p q summary
  proof -
    have "flowVisible (readerFlow u) = Some p" using u that unfolding reader_inv_def shows_visible_def by blast
    with later show ?thesis by (auto simp: superseded_calls_def flowVisible_def)
  qed
  moreover have "readerState t \<noteq> ReaderReady p q summary" for p q summary
    using assms(2,3) by (auto simp: readerOpen_def readerCloses_def readerCleanup_def reader_defs Let_def)
  ultimately show ?thesis by blast
qed

text \<open>
  A close that joins an earlier one does nothing at all after a selection: it returns the promise of the earlier
  close, and the selection stays the current intent.
\<close>

lemma joined_close_is_lost: "readerClose r = Some p \<Longrightarrow> readerCloses (readerOpen r) = readerOpen r"
  by (simp add: readerOpen_def readerCloses_def reader_defs Let_def)

section \<open>Readers to try them on\<close>

definition sample_pubs :: "nat \<Rightarrow> publication_facts" where
  "sample_pubs p = \<lparr>hasDefaultStart = True, bookTitle = ''A book'', bookAuthors = []\<rparr>"

definition sample_turns :: "flow_event list" where
  "sample_turns = [FileSettles 0 (Some (FileReady [])), ResumeFlow 0, SessionResumes 0, SessionResumes 0, SessionOpener 0 OpenerSucceeds, ResumeFlow 0]"

definition sample_opening :: "reader_event list" where
  "sample_opening = ReaderOpens # map ReaderFlowTurn sample_turns @ [ResumeReader 0]"

lemma sample_reader:
  "readerState (fold (reader_turn sample_pubs) sample_opening createReaderLifecycle) = readyReader sample_pubs 0 1"
  by (simp add: sample_opening_def sample_turns_def createReaderLifecycle_def createOpenFlow_def createPublicationSession_def
      sample_pubs_def readerOpen_def flowOpen_def closeSession_def session_defs reader_defs cancelActiveRead_def setCall_def afterFile_def
      resumeFlow_def closeResult_def cleanupSettled_def cleanupValue_def cleanupResult_def afterSessionClose_def openSession_def
      onSession_def resumeOpen_def afterClose_def afterCleanup_def afterOpener_def afterSessionOpen_def resumeReader_def afterFlowOpen_def
      readyReader_def Let_def)

theorem reader_shows_open_publication_witness:
  "activePublication (flowSession (readerFlow (fold (reader_turn sample_pubs) sample_opening createReaderLifecycle))) = Some 0"
  using reader_shows_open_publication [OF refl sample_reader [unfolded readyReader_def]] by blast

theorem reader_never_shows_superseded_witness:
  "nextCall (flowSession (readerFlow (fold (reader_turn sample_pubs) [] createReaderLifecycle))) \<le> 0"
  using reader_never_shows_superseded [OF refl, of ReaderOpens sample_pubs "[]", OF _ refl refl, of "map ReaderFlowTurn sample_turns @ [ResumeReader 0]"]
    sample_reader by (simp add: sample_opening_def readyReader_def)

end
