(* ===== verification/Reader_Opening.thy ===== *)
theory Reader_Opening
  imports Reader_Lifecycle
begin

text \<open>
  The progress of the reader over its flow and its session (\<open>Reader_Lifecycle\<close>, \<open>Open_Flow\<close>,
  \<open>Publication_Session\<close>): the turns that are no calls use up a finite amount of work, so every schedule of them
  comes to rest, and when nothing goes wrong it comes to rest with the selected book on the screen.
\<close>

section \<open>Machines that come to rest\<close>

text \<open>A schedule in which every turn does something.\<close>

fun productive :: "('e \<Rightarrow> 's \<Rightarrow> 's) \<Rightarrow> 'e list \<Rightarrow> 's \<Rightarrow> bool" where
  "productive turn [] s \<longleftrightarrow> True"
| "productive turn (e # es) s \<longleftrightarrow> turn e s \<noteq> s \<and> productive turn es (turn e s)"

locale draining =
  fixes turn :: "'e \<Rightarrow> 's \<Rightarrow> 's" and internal :: "'e \<Rightarrow> bool" and machine_inv :: "'s \<Rightarrow> bool" and work :: "'s \<Rightarrow> nat"
  assumes keeps: "machine_inv s \<Longrightarrow> internal e \<Longrightarrow> machine_inv (turn e s)"
    and drains: "machine_inv s \<Longrightarrow> internal e \<Longrightarrow> turn e s = s \<or> work (turn e s) < work s"
begin

lemma productive_bounded:
  "machine_inv s \<Longrightarrow> \<forall>e \<in> set es. internal e \<Longrightarrow> productive turn es s \<Longrightarrow> length es \<le> work s"
proof (induction es arbitrary: s)
  case (Cons e es)
  from Cons.prems have e: "internal e" "turn e s \<noteq> s" "productive turn es (turn e s)" "\<forall>x \<in> set es. internal x" by auto
  have "length es \<le> work (turn e s)" using Cons.IH [OF keeps [OF Cons.prems(1) e(1)] e(4,3)] .
  moreover have "work (turn e s) < work s" using drains [OF Cons.prems(1) e(1)] e(2) by blast
  ultimately show ?case by simp
qed simp

end

section \<open>Work\<close>

text \<open>The work of a table of numbered calls.\<close>

definition total :: "('a \<Rightarrow> nat) \<Rightarrow> (nat \<Rightarrow> 'a option) \<Rightarrow> nat \<Rightarrow> nat" where
  "total w f n = (\<Sum>i<n. case f i of None \<Rightarrow> 0 | Some x \<Rightarrow> w x)"

lemma total_upd:
  assumes "i < n" and "f i = Some x"
  shows "total w (f(i \<mapsto> y)) n + w x = total w f n + w y"
proof -
  have i: "i \<in> {..<n}" using assms(1) by simp
  have "total w g n = (case g i of None \<Rightarrow> 0 | Some x \<Rightarrow> w x) + (\<Sum>k \<in> {..<n} - {i}. case g k of None \<Rightarrow> 0 | Some x \<Rightarrow> w x)" for g
    unfolding total_def by (rule sum.remove [OF _ i]) simp
  moreover have "(\<Sum>k \<in> {..<n} - {i}. case (f(i \<mapsto> y)) k of None \<Rightarrow> 0 | Some x \<Rightarrow> w x) =
      (\<Sum>k \<in> {..<n} - {i}. case f k of None \<Rightarrow> 0 | Some x \<Rightarrow> w x)"
    by (rule sum.cong) auto
  ultimately show ?thesis using assms(2) by simp
qed

lemma total_new: "total w (f(n \<mapsto> y)) (Suc n) = total w f n + w y"
proof -
  have "(\<Sum>i<n. case (f(n \<mapsto> y)) i of None \<Rightarrow> 0 | Some x \<Rightarrow> w x) = (\<Sum>i<n. case f i of None \<Rightarrow> 0 | Some x \<Rightarrow> w x)"
    by (rule sum.cong) auto
  then show ?thesis by (simp add: total_def)
qed

subsection \<open>The session\<close>

fun call_work :: "open_call \<Rightarrow> nat" where
  "call_work (AwaitsClose p n) = 8"
| "call_work (AwaitsCleanup k) = 5"
| "call_work AwaitsOpener = 4"
| "call_work (AwaitsLateClose k) = 1"
| "call_work (OpenAnswered r) = 0"

fun stage_work :: "cleanup_stage \<Rightarrow> nat" where
  "stage_work (AwaitsPrevious k) = 2"
| "stage_work (Closing b) = 1"
| "stage_work (Cleaned b) = 0"

definition session_work :: "publication_session \<Rightarrow> nat" where
  "session_work s = total call_work (openCalls s) (nextCall s) + sum_list (map stage_work (cleanupStages s))"

lemma session_work_updates [simp]:
  "session_work (s\<lparr>activeAttempt := a\<rparr>) = session_work s" "session_work (s\<lparr>closePromise := p\<rparr>) = session_work s"
  "session_work (s\<lparr>activePublication := q\<rparr>) = session_work s" "session_work (s\<lparr>abortedAttempts := as\<rparr>) = session_work s"
  "session_work (s\<lparr>intentVersion := n\<rparr>) = session_work s" "session_work (s\<lparr>nextClose := n\<rparr>) = session_work s"
  by (simp_all add: session_work_def)

lemma call_upd_work:
  assumes "i < nextCall s" and "openCalls s i = Some x"
  shows "session_work (s\<lparr>openCalls := (openCalls s)(i \<mapsto> y)\<rparr>) + call_work x = session_work s + call_work y"
  using total_upd [of i "nextCall s" "openCalls s" x call_work y] assms by (simp add: session_work_def)

lemma queue_work: "session_work (snd (queuePublicationClose p s)) \<le> session_work s + 2"
  by (simp add: queuePublicationClose_def session_work_def Let_def split: option.split)

lemma queue_calls [simp]:
  "openCalls (snd (queuePublicationClose p s)) = openCalls s" "nextCall (snd (queuePublicationClose p s)) = nextCall s"
  "activeAttempt (snd (queuePublicationClose p s)) = activeAttempt s" "intentVersion (snd (queuePublicationClose p s)) = intentVersion s"
  by (simp_all add: queuePublicationClose_def Let_def split: option.split)

lemma begin_as_queue:
  "beginAttempt i s = (let q = queuePublicationClose (activePublication s) (s\<lparr>activeAttempt := Some i, activePublication := None\<rparr>) in
     (snd q)\<lparr>openCalls := (openCalls s)(i \<mapsto> AwaitsCleanup (fst q))\<rparr>)"
  by (simp add: beginAttempt_def detachPublication_def Let_def case_prod_beta)

lemma begin_work:
  assumes "i < nextCall s" and "openCalls s i = Some x"
  shows "session_work (beginAttempt i s) + call_work x \<le> session_work s + 7"
proof -
  define t where "t = snd (queuePublicationClose (activePublication s) (s\<lparr>activeAttempt := Some i, activePublication := None\<rparr>))"
  have "session_work t \<le> session_work s + 2"
    unfolding t_def using queue_work [of "activePublication s" "s\<lparr>activeAttempt := Some i, activePublication := None\<rparr>"] by simp
  moreover have "i < nextCall t" "openCalls t i = Some x" "openCalls t = openCalls s" using assms by (simp_all add: t_def)
  then have "session_work (t\<lparr>openCalls := (openCalls s)(i \<mapsto> AwaitsCleanup k)\<rparr>) + call_work x = session_work t + 5" for k
    using call_upd_work [of i t x "AwaitsCleanup k"] by simp
  ultimately show ?thesis unfolding begin_as_queue Let_def t_def [symmetric] by simp
qed

lemma close_work: "session_work (snd (closeSession s)) \<le> session_work s + 2"
  by (cases "activeAttempt s"; cases "closePromise s"; cases "activePublication s")
    (simp_all add: closeSession_def session_defs Let_def session_work_def)

lemma open_work: "session_work (openSession s) \<le> session_work s + 8"
  by (cases "activeAttempt s"; cases "closePromise s"; cases "activePublication s")
    (simp_all add: openSession_def session_defs Let_def session_work_def total_new)

lemma resume_work:
  assumes "session_inv s"
  shows "resumeOpen i s = s \<or> session_work (resumeOpen i s) < session_work s"
proof (cases "openCalls s i")
  case (Some x)
  with assms have i: "i < nextCall s" by (auto simp: session_inv_def)
  have upd: "session_work (s\<lparr>openCalls := (openCalls s)(i \<mapsto> y)\<rparr>) < session_work s" if "call_work y < call_work x" for y
    using call_upd_work [OF i Some, of y] that by linarith
  have answered: "session_work (answerOpen i r t) < session_work s"
    if "0 < call_work x" "session_work t = session_work s" "nextCall t = nextCall s" "openCalls t = openCalls s" for r t
    using call_upd_work [of i t x "OpenAnswered r"] i Some that by (simp add: answerOpen_def)
  have begun: "session_work (beginAttempt i t) < session_work s"
    if "call_work x = 8" "session_work t = session_work s" "nextCall t = nextCall s" "openCalls t = openCalls s" for t
    using begin_work [of i t x] i Some that by simp
  show ?thesis
  proof (cases x)
    case (AwaitsClose p n)
    with Some answered begun show ?thesis
      by (cases "cleanupSettled s (snd p)") (auto simp: resumeOpen_def afterClose_def Let_def)
  next
    case (AwaitsCleanup k)
    with Some answered upd [of AwaitsOpener] show ?thesis
      by (cases "cleanupSettled s k") (auto simp: resumeOpen_def afterCleanup_def)
  next
    case (AwaitsLateClose k)
    with Some answered show ?thesis by (cases "cleanupSettled s k") (auto simp: resumeOpen_def)
  qed (use Some in \<open>simp_all add: resumeOpen_def\<close>)
qed (simp add: resumeOpen_def)

lemma opener_work:
  assumes "session_inv s" and "openCalls s i = Some AwaitsOpener"
  shows "session_work (afterOpener i r s) < session_work s"
proof -
  have i: "i < nextCall s" using assms by (auto simp: session_inv_def)
  have answered: "session_work (answerOpen i x t) + 4 = session_work s"
    if "session_work t = session_work s" "nextCall t = nextCall s" "openCalls t = openCalls s" for x t
    using call_upd_work [of i t AwaitsOpener "OpenAnswered x"] i assms(2) that by (simp add: answerOpen_def)
  have late: "session_work ((snd (queuePublicationClose (Some i) s))\<lparr>openCalls := (openCalls s)(i \<mapsto> AwaitsLateClose k)\<rparr>) < session_work s" for k
  proof -
    have "session_work ((snd (queuePublicationClose (Some i) s))\<lparr>openCalls := (openCalls s)(i \<mapsto> AwaitsLateClose k)\<rparr>) + 4
        = session_work (snd (queuePublicationClose (Some i) s)) + 1"
      using call_upd_work [of i "snd (queuePublicationClose (Some i) s)" AwaitsOpener "AwaitsLateClose k"] i assms(2) by simp
    with queue_work [of "Some i" s] show ?thesis by linarith
  qed
  have less: "session_work (answerOpen i x t) < session_work s"
    if "session_work t = session_work s" "nextCall t = nextCall s" "openCalls t = openCalls s" for x t
    using answered [OF that, of x] by linarith
  show ?thesis
  proof (cases "isActiveAttempt i s")
    case True
    with less show ?thesis by (cases r) (simp_all add: afterOpener_def Let_def)
  next
    case False
    with less [of s] late show ?thesis by (cases r) (simp_all add: afterOpener_def case_prod_beta)
  qed
qed

lemma stage_upd_work:
  assumes "j < length st" and "stage_work x < stage_work (st ! j)"
  shows "sum_list (map stage_work (st[j := x])) < sum_list (map stage_work st)"
proof -
  have "sum_list ((map stage_work st)[j := stage_work x]) = sum_list (map stage_work st) + stage_work x - map stage_work st ! j"
    using assms(1) by (intro sum_list_update) simp
  moreover have "map stage_work st ! j \<le> sum_list (map stage_work st)" using assms(1) by (intro elem_le_sum_list) simp
  ultimately show ?thesis using assms by (simp add: map_update)
qed

lemma chain_work:
  assumes "chain_of s"
  shows "continueCleanup j s = s \<or> session_work (continueCleanup j s) < session_work s"
    and "publicationCloses j b s = s \<or> session_work (publicationCloses j b s) < session_work s"
proof -
  have less: "session_work (s\<lparr>cleanupStages := (cleanupStages s)[j := x]\<rparr>) < session_work s"
    if "j < length (cleanupQueue s)" "stage_work x < stage_work (cleanupStages s ! j)" for x
    using stage_upd_work [of j "cleanupStages s" x] that chain_lengths(1) [OF assms] by (simp add: session_work_def)
  have records: "session_work (t\<lparr>closeCalls := cs\<rparr>) = session_work t" "session_work (t\<lparr>closeResults := rs\<rparr>) = session_work t" for t cs rs
    by (simp_all add: session_work_def)
  show "continueCleanup j s = s \<or> session_work (continueCleanup j s) < session_work s"
  proof (cases "j = length (closeResults s) \<and> j = length (closeCalls s) \<and> j < length (cleanupQueue s)")
    case True
    then have "stage_work (Closing (list_all id (closeResults s))) < stage_work (cleanupStages s ! j)"
      using chain_stage [OF assms, of j] by simp
    with less True show ?thesis unfolding chain_turn(1) [OF assms] if_P [OF True] records by blast
  next
    case False
    show ?thesis unfolding chain_turn(1) [OF assms] if_not_P [OF False] by simp
  qed
  show "publicationCloses j b s = s \<or> session_work (publicationCloses j b s) < session_work s"
  proof (cases "j = length (closeResults s) \<and> j < length (closeCalls s)")
    case True
    then have j: "j < length (cleanupQueue s)" using chain_lengths(4) [OF assms] by simp
    with True have "stage_work (Cleaned (list_all id (closeResults s) \<and> b)) < stage_work (cleanupStages s ! j)"
      using chain_stage [OF assms, of j] by simp
    with less j show ?thesis unfolding chain_turn(2) [OF assms] if_P [OF True] records by blast
  next
    case False
    show ?thesis unfolding chain_turn(2) [OF assms] if_not_P [OF False] by simp
  qed
qed

lemma session_drains:
  assumes "session_inv s" and "\<not> callsSession e"
  shows "sessionTurn e s = s \<or> session_work (sessionTurn e s) < session_work s"
  using assms(2) resume_work [OF assms(1)] opener_work [OF assms(1)] chain_work [OF chain_of_inv [OF assms(1)]]
  by (cases e) (simp_all add: sessionTurn_def)

interpretation session_rest: draining sessionTurn "\<lambda>e. \<not> callsSession e" session_inv session_work
  by unfold_locales (simp_all add: session.turn_inv session_drains)

subsection \<open>The flow\<close>

fun flow_work :: "flow_call \<Rightarrow> nat" where
  "flow_work (AwaitsFile n p) = 11"
| "flow_work (AwaitsSessionClose n p r) = 10"
| "flow_work (AwaitsSession n c) = 1"
| "flow_work (FlowAnswered r) = 0"
| "flow_work (AwaitsFlowClose p) = 1"
| "flow_work (FlowCloseAnswered b) = 0"

definition flow_total :: "open_flow \<Rightarrow> nat" where
  "flow_total f = total flow_work (flowCalls f) (nextFlowCall f) + session_work (flowSession f)"

lemma flow_total_reading [simp]: "flow_total (f\<lparr>fileReading := r\<rparr>) = flow_total f"
  by (simp add: flow_total_def)

lemma setCall_work:
  assumes "i < nextFlowCall f" and "flowCalls f i = Some x"
  shows "flow_total (setCall i y f) + flow_work x = flow_total f + flow_work y"
  using total_upd [of i "nextFlowCall f" "flowCalls f" x flow_work y] assms by (simp add: flow_total_def setCall_def)

lemma flowClose_work: "flow_total (flowClose f) \<le> flow_total f + 3"
  using close_work [of "flowSession f"]
  by (simp add: flowClose_def flow_total_def setCall_def Let_def total_new case_prod_beta)

lemma afterSessionClose_work:
  assumes "i < nextFlowCall f" and "flowCalls f i = Some (AwaitsSessionClose n p r)"
  shows "flow_total (afterSessionClose i n cl r f) < flow_total f"
proof -
  have answered: "flow_total (setCall i (FlowAnswered x) f) < flow_total f" for x
    using setCall_work [OF assms, of "FlowAnswered x"] by simp
  have "flow_total (setCall i (AwaitsSession m c) (f\<lparr>flowSession := openSession (flowSession f)\<rparr>)) < flow_total f" for m c
  proof -
    let ?f = "f\<lparr>flowSession := openSession (flowSession f)\<rparr>"
    have "flow_total ?f \<le> flow_total f + 8" using open_work [of "flowSession f"] by (simp add: flow_total_def)
    with setCall_work [where i = i and f = ?f and x = "AwaitsSessionClose n p r" and y = "AwaitsSession m c"] assms show ?thesis by simp
  qed
  with answered show ?thesis
    by (simp add: afterSessionClose_def split: session_close_result.split option.split file_result.split)
qed

lemma flow_drains:
  assumes "flow_inv f"
  shows "flow_turn e f = f \<or> flow_total (flow_turn e f) < flow_total f"
proof -
  have s: "session_inv (flowSession f)" using assms by (simp add: flow_inv_def)
  have on: "onSession x f = f \<or> flow_total (onSession x f) < flow_total f" if "\<not> callsSession x" for x
    using session_drains [OF s that] by (auto simp: onSession_def sessionTurn_def flow_total_def)
  have bound: "i < nextFlowCall f" if "flowCalls f i = Some x" for i x using assms that unfolding flow_inv_def by blast
  have resumed: "resumeFlow i f = f \<or> flow_total (resumeFlow i f) < flow_total f" for i
  proof (cases "flowCalls f i")
    case (Some x)
    have upd: "flow_total (setCall i y f) < flow_total f" if "flow_work y < flow_work x" for y
      using setCall_work [OF bound [OF Some] Some, of y] that by linarith
    show ?thesis
    proof (cases x)
      case (AwaitsSessionClose n p r)
      with Some bound [OF Some] afterSessionClose_work [where i = i and f = f and n = n and p = p and r = r] show ?thesis by (auto simp: resumeFlow_def split: option.split)
    next
      case (AwaitsSession n c)
      with Some upd show ?thesis
        by (auto simp: resumeFlow_def afterSessionOpen_def split: option.split open_call.split)
    next
      case (AwaitsFlowClose p)
      with Some upd show ?thesis by (auto simp: resumeFlow_def split: option.split)
    qed (use Some in \<open>simp_all add: resumeFlow_def\<close>)
  qed (simp add: resumeFlow_def)
  have filed: "flow_total (afterFile i n p r f) < flow_total f" if "flowCalls f i = Some (AwaitsFile n p)" for i n p r
  proof -
    define g where "g = (if fileReading f = Some i then f\<lparr>fileReading := None\<rparr> else f)"
    have g: "flow_total g = flow_total f" "i < nextFlowCall g" "flowCalls g i = Some (AwaitsFile n p)"
      using bound [OF that] that by (simp_all add: g_def)
    have "flow_total (setCall i y g) < flow_total f" if "flow_work y < 11" for y
      using setCall_work [OF g(2,3), of y] that g(1) by simp
    then show ?thesis by (simp add: afterFile_def Let_def g_def [symmetric])
  qed
  show ?thesis
  proof (cases e)
    case (FileSettles i r)
    with filed [of i] show ?thesis by (auto split: option.split flow_call.split)
  qed (use on resumed in simp_all)
qed

interpretation flow_rest: draining flow_turn "\<lambda>e. True" flow_inv flow_total
  by unfold_locales (simp_all add: flow_turn_inv flow_drains)

subsection \<open>The reader\<close>

fun callsReader :: "reader_event \<Rightarrow> bool" where
  "callsReader ReaderOpens = True"
| "callsReader ReaderCloses = True"
| "callsReader RenderingFails = True"
| "callsReader ReaderCleansUp = True"
| "callsReader (ResumeReader i) = False"
| "callsReader (ForgetClose i) = False"
| "callsReader (ReaderFlowTurn e) = False"

fun reader_call_work :: "reader_call \<Rightarrow> nat" where
  "reader_call_work (AwaitsFlowOpen n j) = 5"
| "reader_call_work (AwaitsEmptyClose n j) = 1"
| "reader_call_work (AwaitsReaderClose n j) = 1"
| "reader_call_work (AwaitsFailedClose n j) = 1"
| "reader_call_work (AwaitsCleanupClose j) = 1"
| "reader_call_work ReaderReturned = 0"

definition reader_total :: "reader \<Rightarrow> nat" where
  "reader_total r = total reader_call_work (readerCalls r) (readerIntent r) + flow_total (readerFlow r) +
     (if readerClose r = None then 0 else 1)"

lemma reader_total_updates [simp]:
  "reader_total (setState st r) = reader_total r" "reader_total (r\<lparr>publicationSequence := q\<rparr>) = reader_total r"
  by (simp_all add: reader_total_def setState_def)

lemma setReaderCall_work:
  assumes "i < readerIntent r" and "readerCalls r i = Some x"
  shows "reader_total (setReaderCall i y r) + reader_call_work x = reader_total r + reader_call_work y"
  using total_upd [of i "readerIntent r" "readerCalls r" x reader_call_work y] assms by (simp add: reader_total_def setReaderCall_def)

lemma resumeReader_work:
  assumes "reader_inv pubs r"
  shows "resumeReader pubs i r = r \<or> reader_total (resumeReader pubs i r) < reader_total r"
proof (cases "readerCalls r i")
  case (Some x)
  have i: "i < readerIntent r" using assms Some unfolding reader_inv_def by blast
  have less: "reader_total (setReaderCall i ReaderReturned t) < reader_total r"
    if "0 < reader_call_work x" "reader_total t = reader_total r" "readerIntent t = readerIntent r" "readerCalls t = readerCalls r" for t
    using setReaderCall_work [of i t x ReaderReturned] i Some that by simp
  have same: "readerIntent (setState st r) = readerIntent r" "readerCalls (setState st r) = readerCalls r" for st
    by (simp_all add: setState_def)
  show ?thesis
  proof (cases x)
    case (AwaitsFlowOpen n j)
    have empty: "reader_total (setReaderCall i (AwaitsEmptyClose n k) (r\<lparr>readerFlow := flowClose (readerFlow r)\<rparr>)) < reader_total r" for k
    proof -
      let ?t = "r\<lparr>readerFlow := flowClose (readerFlow r)\<rparr>"
      have "reader_total ?t \<le> reader_total r + 3" using flowClose_work [of "readerFlow r"] by (simp add: reader_total_def)
      with setReaderCall_work [where i = i and r = ?t and x = x and y = "AwaitsEmptyClose n k"] i Some AwaitsFlowOpen show ?thesis by simp
    qed
    have "reader_total (afterFlowOpen pubs i n y r) < reader_total r" for y
    proof (cases "n = readerIntent r")
      case True
      have "reader_total (setReaderCall i ReaderReturned (setState st (r\<lparr>publicationSequence := q\<rparr>))) < reader_total r"
        "reader_total (setReaderCall i ReaderReturned (setState st r)) < reader_total r" for st q
        using less AwaitsFlowOpen same by (simp_all add: setState_def reader_total_def)
      with True empty show ?thesis
        by (cases y) (simp_all add: afterFlowOpen_def closeSafely_def Let_def)
    next
      case False
      with less [of r] AwaitsFlowOpen show ?thesis by (simp add: afterFlowOpen_def)
    qed
    with Some AwaitsFlowOpen show ?thesis by (simp add: resumeReader_def split: option.split flow_call.split)
  qed (use Some less [of r] less [of "setState st r" for st] same in
      \<open>auto simp: resumeReader_def afterEmptyClose_def afterReaderClose_def afterFailedClose_def split: option.split\<close>)
qed (simp add: resumeReader_def)

lemma reader_drains:
  assumes "reader_inv pubs r" and "\<not> callsReader e"
  shows "reader_turn pubs e r = r \<or> reader_total (reader_turn pubs e r) < reader_total r"
proof (cases e)
  case (ReaderFlowTurn x)
  have "flow_inv (readerFlow r)" using assms(1) by (simp add: reader_inv_def)
  from flow_drains [OF this, of x] ReaderFlowTurn show ?thesis by (auto simp: reader_total_def)
next
  case (ForgetClose i)
  then show ?thesis by (simp add: forgetClose_def reader_total_def)
qed (use assms resumeReader_work in auto)

interpretation reader_rest: draining "reader_turn pubs" "\<lambda>e. \<not> callsReader e" "reader_inv pubs" reader_total for pubs
  by unfold_locales (simp_all add: reader_turn_inv reader_drains)

section \<open>A selection for which nothing goes wrong\<close>

text \<open>
  \<open>j\<close> is the call of the flow the selection makes, \<open>c\<close> the call of the session it will make. The turns in which
  nothing goes wrong: any turn that is no call of the reader, in any order, except that the file of this
  selection is read, the opener delivers its publication, and no close of a publication fails. What the file
  reads and the openers of other calls answer is free.
\<close>

fun favourable_session :: "nat \<Rightarrow> session_event \<Rightarrow> bool" where
  "favourable_session c OpenSession = False"
| "favourable_session c CloseSession = False"
| "favourable_session c (ResumeOpen i) = True"
| "favourable_session c (OpenerAnswers i r) = (i = c \<longrightarrow> r = OpenerSucceeds)"
| "favourable_session c (ContinueCleanup k) = True"
| "favourable_session c (PublicationCloses k b) = b"

fun is_file :: "file_result option \<Rightarrow> bool" where
  "is_file (Some (FileReady bs)) = True"
| "is_file r = False"

fun favourable_flow :: "nat \<Rightarrow> nat \<Rightarrow> flow_event \<Rightarrow> bool" where
  "favourable_flow j c (FileSettles i r) = (i = j \<longrightarrow> is_file r)"
| "favourable_flow j c (ResumeFlow i) = True"
| "favourable_flow j c (SessionResumes i) = True"
| "favourable_flow j c (SessionOpener i r) = (i = c \<longrightarrow> r = OpenerSucceeds)"
| "favourable_flow j c (SessionCleansUp k) = True"
| "favourable_flow j c (SessionCloses k b) = b"

fun favourable :: "nat \<Rightarrow> nat \<Rightarrow> reader_event \<Rightarrow> bool" where
  "favourable j c (ReaderFlowTurn e) = favourable_flow j c e"
| "favourable j c e = (\<not> callsReader e)"

lemma is_file_iff: "is_file r \<longleftrightarrow> (\<exists>bs. r = Some (FileReady bs))"
  by (cases r rule: is_file.cases) simp_all

lemma favourable_internal:
  "favourable_session c e \<Longrightarrow> \<not> callsSession e" "favourable j c x \<Longrightarrow> \<not> callsReader x"
  by (cases e; simp) (cases x; simp)

subsection \<open>The call of the session\<close>

text \<open>No close has failed so far.\<close>

definition healthy :: "publication_session \<Rightarrow> bool" where
  "healthy s \<longleftrightarrow> False \<notin> set (closeResults s)"

fun call_opening :: "publication_session \<Rightarrow> nat \<Rightarrow> open_call \<Rightarrow> bool" where
  "call_opening s c (AwaitsClose p n) \<longleftrightarrow> n = intentVersion s"
| "call_opening s c (AwaitsCleanup k) \<longleftrightarrow> activeAttempt s = Some c"
| "call_opening s c AwaitsOpener \<longleftrightarrow> activeAttempt s = Some c"
| "call_opening s c (AwaitsLateClose k) \<longleftrightarrow> False"
| "call_opening s c (OpenAnswered r) \<longleftrightarrow> r = SessionReady c"

definition session_opening :: "publication_session \<Rightarrow> nat \<Rightarrow> bool" where
  "session_opening s c \<longleftrightarrow> (\<exists>x. openCalls s c = Some x \<and> call_opening s c x)"

lemma settled_value:
  assumes "session_inv s" and "healthy s" and "k \<le> length (cleanupQueue s)"
  shows "cleanupSettled s k \<longleftrightarrow> k \<le> length (closeResults s)" and "cleanupSettled s k \<Longrightarrow> cleanupValue s k"
proof -
  note result = chain_result [OF chain_of_inv [OF assms(1)] assms(3)]
  then show "cleanupSettled s k \<longleftrightarrow> k \<le> length (closeResults s)" by (simp add: cleanupSettled_def)
  assume "cleanupSettled s k"
  moreover have "x" if "x \<in> set (take k (closeResults s))" for x
    using that assms(2) in_set_takeD unfolding healthy_def by (metis (full_types))
  then have "\<forall>x \<in> set (take k (closeResults s)). x" by blast
  then have "list_all id (take k (closeResults s))" by (simp add: list_all_iff)
  ultimately show "cleanupValue s k" using result by (simp add: cleanupSettled_def cleanupValue_def split: if_splits)
qed

lemma answer_fields [simp]:
  "openCalls (answerOpen i r s) = (openCalls s)(i \<mapsto> OpenAnswered r)" "activeAttempt (answerOpen i r s) = activeAttempt s"
  "intentVersion (answerOpen i r s) = intentVersion s" "closeResults (answerOpen i r s) = closeResults s"
  "cleanupQueue (answerOpen i r s) = cleanupQueue s"
  by (simp_all add: answerOpen_def)

lemma begin_fields [simp]:
  "openCalls (beginAttempt i s) i = Some (AwaitsCleanup (fst (queuePublicationClose (activePublication s)
     (s\<lparr>activeAttempt := Some i, activePublication := None\<rparr>))))"
  "j \<noteq> i \<Longrightarrow> openCalls (beginAttempt i s) j = openCalls s j" "activeAttempt (beginAttempt i s) = Some i"
  "closeResults (beginAttempt i s) = closeResults s"
  by (simp_all add: begin_as_queue Let_def)

lemma turn_results:
  assumes "session_inv s" and "\<not> callsSession e"
  shows "closeResults (sessionTurn e s) = closeResults s \<or> (\<exists>k b. e = PublicationCloses k b \<and> closeResults (sessionTurn e s) = closeResults s @ [b])"
proof (cases e)
  case (PublicationCloses k b)
  then show ?thesis by (simp add: sessionTurn_def chain_turn(2) [OF chain_of_inv [OF assms(1)]])
next
  case (ResumeOpen i)
  then show ?thesis
    by (simp add: sessionTurn_def resumeOpen_def afterClose_def afterCleanup_def Let_def split: option.split open_call.split)
next
  case (OpenerAnswers i r)
  then show ?thesis
    by (cases r) (simp_all add: sessionTurn_def afterOpener_def case_prod_beta Let_def)
qed (use assms in \<open>simp_all add: sessionTurn_def\<close>)

lemma turn_queue:
  assumes "\<not> callsSession e"
  shows "length (cleanupQueue s) \<le> length (cleanupQueue (sessionTurn e s))"
  using assms
  by (cases e) (auto simp: sessionTurn_def resumeOpen_def afterClose_def afterCleanup_def afterOpener_def session_defs Let_def
      split: option.split open_call.split opener_outcome.split)

lemma healthy_turn: "session_inv s \<Longrightarrow> healthy s \<Longrightarrow> favourable_session c e \<Longrightarrow> healthy (sessionTurn e s)"
  using turn_results [of s e] favourable_internal(1) [of c e] by (auto simp: healthy_def)

lemma unsettled_close:
  assumes "session_inv s" and "openCalls s i = Some (AwaitsClose p n)"
  shows "snd p \<le> length (cleanupQueue s)" and "n \<le> intentVersion s"
    and "n = intentVersion s \<Longrightarrow> Suc i = nextCall s \<and> activeAttempt s = None \<and> closePromise s \<in> {None, Some p}"
  using call_of_inv [OF assms] by simp_all

text \<open>The turns of the call itself.\<close>

lemma own_resume:
  assumes "session_inv s" and "healthy s" and "session_opening s c"
  shows "session_opening (resumeOpen c s) c"
proof -
  from assms(3) obtain x where x: "openCalls s c = Some x" "call_opening s c x" unfolding session_opening_def by blast
  show ?thesis
  proof (cases x)
    case (AwaitsClose p n)
    with x unsettled_close(1) [OF assms(1), of c p n] settled_value(2) [OF assms(1,2)] assms(3) show ?thesis
      by (cases "cleanupSettled s (snd p)") (auto simp: resumeOpen_def afterClose_def Let_def session_opening_def)
  next
    case (AwaitsCleanup k)
    have "k \<le> length (cleanupQueue s)" using call_of_inv [OF assms(1), of c] x AwaitsCleanup by simp
    moreover have "isActiveAttempt c s" using assms(1) x AwaitsCleanup by (simp add: isActiveAttempt_def session_inv_def)
    ultimately show ?thesis
      using x AwaitsCleanup settled_value(2) [OF assms(1,2)] assms(3)
      by (cases "cleanupSettled s k") (auto simp: resumeOpen_def afterCleanup_def session_opening_def)
  qed (use x assms(3) in \<open>simp_all add: resumeOpen_def\<close>)
qed

text \<open>The turns of other calls do not concern it.\<close>

lemma other_turn:
  assumes "openCalls t c = openCalls s c" and "intentVersion t = intentVersion s"
    and "activeAttempt t = activeAttempt s \<or> activeAttempt s \<noteq> Some c" and "session_opening s c"
  shows "session_opening t c"
proof -
  from assms(4) obtain x where x: "openCalls s c = Some x" "call_opening s c x" unfolding session_opening_def by blast
  with assms(1-3) have "call_opening t c x" by (cases x) auto
  with x assms(1) show ?thesis by (simp add: session_opening_def)
qed

lemma other_resume:
  assumes "session_inv s" and "session_opening s c" and "i \<noteq> c"
  shows "session_opening (resumeOpen i s) c"
proof (cases "openCalls s i")
  case (Some y)
  show ?thesis
  proof (cases y)
    case (AwaitsClose p n)
    define t where "t = (if cleanupValue s (snd p) \<and> closePromise s = Some p then s\<lparr>closePromise := None\<rparr> else s)"
    have t: "openCalls t = openCalls s" "intentVersion t = intentVersion s" "activeAttempt t = activeAttempt s" by (simp_all add: t_def)
    have after: "afterClose i p n s = (if n \<noteq> intentVersion t then answerOpen i SessionCancelled t
        else if \<not> cleanupValue s (snd p) then answerOpen i (SessionRejected InternalFailure) t else beginAttempt i t)"
      by (simp only: afterClose_def Let_def t_def)
    have intent: "intentVersion (beginAttempt i t) = intentVersion t" by (simp add: begin_as_queue Let_def)
    have free: "activeAttempt s \<noteq> Some c" if "n = intentVersion s"
      using unsettled_close(3) [OF assms(1), of i p n] Some AwaitsClose that by simp
    have "session_opening (afterClose i p n s) c"
      using after free t intent assms(3) by (intro other_turn [OF _ _ _ assms(2)]) (auto split: if_splits)
    with Some AwaitsClose assms(2) show ?thesis by (simp add: resumeOpen_def)
  next
    case (AwaitsCleanup k)
    have "session_opening (afterCleanup i k s) c"
      using assms(3) by (intro other_turn [OF _ _ _ assms(2)]) (auto simp: afterCleanup_def isActiveAttempt_def)
    with Some AwaitsCleanup assms(2) show ?thesis by (simp add: resumeOpen_def)
  next
    case (AwaitsLateClose k)
    have "session_opening (answerOpen i SessionCancelled s) c" using assms(3) by (intro other_turn [OF _ _ _ assms(2)]) simp_all
    with Some AwaitsLateClose assms(2) show ?thesis by (simp add: resumeOpen_def)
  qed (use Some assms(2) in \<open>simp_all add: resumeOpen_def\<close>)
qed (use assms(2) in \<open>simp add: resumeOpen_def\<close>)

lemma opener_turn:
  assumes "session_inv s" and "session_opening s c" and "openCalls s i = Some AwaitsOpener" and "i = c \<longrightarrow> r = OpenerSucceeds"
  shows "session_opening (afterOpener i r s) c"
proof (cases "i = c")
  case True
  from assms(2) have "activeAttempt s = Some c" using assms(3) True by (simp add: session_opening_def)
  with assms True show ?thesis
    by (simp add: afterOpener_def isActiveAttempt_def session_inv_def session_opening_def Let_def)
next
  case False
  then have "openCalls (afterOpener i r s) c = openCalls s c" "intentVersion (afterOpener i r s) = intentVersion s"
    "activeAttempt (afterOpener i r s) = activeAttempt s \<or> activeAttempt s \<noteq> Some c"
    by (cases r; auto simp: afterOpener_def isActiveAttempt_def case_prod_beta Let_def)+
  then show ?thesis using assms(2) by (rule other_turn)
qed

lemma session_opening_turn:
  assumes "session_inv s" and "healthy s" and "session_opening s c" and "favourable_session c e"
  shows "session_opening (sessionTurn e s) c"
proof (cases e)
  case (ResumeOpen i)
  with own_resume [OF assms(1-3)] other_resume [OF assms(1,3), of i] show ?thesis by (cases "i = c") (simp_all add: sessionTurn_def)
next
  case (OpenerAnswers i r)
  with opener_turn [OF assms(1,3), of i r] assms(3,4) show ?thesis by (simp add: sessionTurn_def)
next
  case (ContinueCleanup k)
  then show ?thesis using assms(3) by (intro other_turn [OF _ _ _ assms(3)]) (simp_all add: sessionTurn_def)
next
  case (PublicationCloses k b)
  then show ?thesis using assms(3) by (intro other_turn [OF _ _ _ assms(3)]) (simp_all add: sessionTurn_def)
qed (use assms(4) in simp_all)

text \<open>When no favourable turn changes anything, every close has ended and the call has been answered.\<close>

lemma closes_at_rest:
  assumes "session_inv s" and "\<And>k. continueCleanup k s = s" and "\<And>k. publicationCloses k True s = s"
  shows "length (closeResults s) = length (cleanupQueue s)"
proof (rule ccontr)
  assume "length (closeResults s) \<noteq> length (cleanupQueue s)"
  note chain = chain_of_inv [OF assms(1)]
  with \<open>length (closeResults s) \<noteq> length (cleanupQueue s)\<close> have less: "length (closeResults s) < length (cleanupQueue s)"
    using chain_lengths(3) by fastforce
  show False
  proof (cases "length (closeCalls s) = length (closeResults s)")
    case True
    have "closeCalls (continueCleanup (length (closeResults s)) s) = closeCalls s" by (simp only: assms(2))
    with True less show False by (simp add: chain_turn(1) [OF chain])
  next
    case False
    have "closeResults (publicationCloses (length (closeResults s)) True s) = closeResults s" by (simp only: assms(3))
    with False less chain_progress [OF chain] show False by (simp add: chain_turn(2) [OF chain])
  qed
qed

lemma call_at_rest:
  assumes "session_inv s" and "healthy s" and "session_opening s c" and "length (closeResults s) = length (cleanupQueue s)"
    and "resumeOpen c s = s" and "openCalls s c = Some AwaitsOpener \<Longrightarrow> afterOpener c OpenerSucceeds s = s"
  shows "openCalls s c = Some (OpenAnswered (SessionReady c))"
proof -
  from assms(3) obtain x where x: "openCalls s c = Some x" "call_opening s c x" unfolding session_opening_def by blast
  have settled: "cleanupSettled s k" "cleanupValue s k" if "k \<le> length (cleanupQueue s)" for k
    using settled_value [OF assms(1,2) that] that assms(4) by simp_all
  have same: "openCalls (resumeOpen c s) c = openCalls s c" by (simp only: assms(5))
  show ?thesis
  proof (cases x)
    case (AwaitsClose p n)
    with x unsettled_close(1) [OF assms(1), of c p n] settled [of "snd p"] same show ?thesis
      by (simp add: resumeOpen_def afterClose_def Let_def split: if_splits)
  next
    case (AwaitsCleanup k)
    have "k \<le> length (cleanupQueue s)" using call_of_inv [OF assms(1), of c] x AwaitsCleanup by simp
    with x AwaitsCleanup settled [of k] same show ?thesis by (simp add: resumeOpen_def afterCleanup_def split: if_splits)
  next
    case AwaitsOpener
    then have "openCalls (afterOpener c OpenerSucceeds s) c = openCalls s c" using assms(6) x by simp
    with x AwaitsOpener show ?thesis by (simp add: afterOpener_def case_prod_beta Let_def split: if_splits)
  qed (use x in simp_all)
qed

subsection \<open>The call of the flow\<close>

fun flow_call_opening :: "open_flow \<Rightarrow> nat \<Rightarrow> flow_call \<Rightarrow> bool" where
  "flow_call_opening f c (AwaitsFile n p) \<longleftrightarrow> n = flowIntent f \<and> nextCall (flowSession f) = c \<and> snd p \<le> length (cleanupQueue (flowSession f))"
| "flow_call_opening f c (AwaitsSessionClose n p r) \<longleftrightarrow> n = flowIntent f \<and> nextCall (flowSession f) = c \<and>
     snd p \<le> length (cleanupQueue (flowSession f)) \<and> is_file r"
| "flow_call_opening f c (AwaitsSession n d) \<longleftrightarrow> n = flowIntent f \<and> d = c \<and> session_opening (flowSession f) c"
| "flow_call_opening f c (FlowAnswered r) \<longleftrightarrow> r = FlowReady c"
| "flow_call_opening f c (AwaitsFlowClose p) \<longleftrightarrow> False"
| "flow_call_opening f c (FlowCloseAnswered b) \<longleftrightarrow> False"

definition flow_opening :: "nat \<Rightarrow> nat \<Rightarrow> open_flow \<Rightarrow> bool" where
  "flow_opening j c f \<longleftrightarrow> Suc j = nextFlowCall f \<and> healthy (flowSession f) \<and> (\<exists>x. flowCalls f j = Some x \<and> flow_call_opening f c x)"

lemma setCall_fields [simp]:
  "flowSession (setCall i y f) = flowSession f" "flowIntent (setCall i y f) = flowIntent f" "nextFlowCall (setCall i y f) = nextFlowCall f"
  "flowCalls (setCall i y f) = (flowCalls f)(i \<mapsto> y)" "fileReading (setCall i y f) = fileReading f"
  by (simp_all add: setCall_def)

text \<open>What happens to other calls of the flow does not concern it.\<close>

lemma flow_other:
  assumes "flow_opening j c f" and "flowCalls g j = flowCalls f j" and "flowSession g = flowSession f"
    and "flowIntent g = flowIntent f" and "nextFlowCall g = nextFlowCall f"
  shows "flow_opening j c g"
proof -
  have "flow_call_opening g c x = flow_call_opening f c x" for x using assms(3,4) by (cases x) simp_all
  with assms show ?thesis by (simp add: flow_opening_def)
qed

lemma flow_moves:
  assumes "flow_opening j c f" and "flow_call_opening f c y"
  shows "flow_opening j c (setCall j y f)"
proof -
  have "flow_call_opening (setCall j y f) c y = flow_call_opening f c y" by (cases y) simp_all
  with assms show ?thesis by (simp add: flow_opening_def)
qed

lemma session_in_flow:
  assumes "flow_inv f" and "flow_opening j c f" and "favourable_session c e"
  shows "flow_opening j c (onSession e f)"
proof -
  have s: "session_inv (flowSession f)" using assms(1) by (simp add: flow_inv_def)
  have e: "\<not> callsSession e" using assms(3) by (rule favourable_internal)
  obtain x where x: "flowCalls f j = Some x" "flow_call_opening f c x" and f: "healthy (flowSession f)" "Suc j = nextFlowCall f"
    using assms(2) unfolding flow_opening_def by blast
  have g: "flowSession (onSession e f) = sessionTurn e (flowSession f)" "flowCalls (onSession e f) = flowCalls f"
    "flowIntent (onSession e f) = flowIntent f" "nextFlowCall (onSession e f) = nextFlowCall f"
    by (simp_all add: onSession_def sessionTurn_def)
  have "flow_call_opening (onSession e f) c x"
    using x(2) turn_queue [OF e, of "flowSession f"] sessionTurn_frame [OF e, of "flowSession f"] session_opening_turn [OF s f(1) _ assms(3)]
    by (cases x) (auto simp: g)
  with x(1) f healthy_turn [OF s f(1) assms(3)] show ?thesis by (simp add: flow_opening_def g)
qed

lemma openSession_opens:
  assumes "session_inv s" and "c = nextCall s"
  shows "session_opening (openSession s) c" and "closeResults (openSession s) = closeResults s"
  by (cases "closePromise s"; cases "activeAttempt s"; cases "activePublication s";
      simp add: assms(2) session_opening_def openSession_def session_defs Let_def)+

lemma own_flow_resume:
  assumes "flow_inv f" and "flow_opening j c f"
  shows "flow_opening j c (resumeFlow j f)"
proof -
  have s: "session_inv (flowSession f)" using assms(1) by (simp add: flow_inv_def)
  obtain x where x: "flowCalls f j = Some x" "flow_call_opening f c x" and f: "healthy (flowSession f)" "Suc j = nextFlowCall f"
    using assms(2) unfolding flow_opening_def by blast
  show ?thesis
  proof (cases x)
    case (AwaitsSessionClose n p r)
    show ?thesis
    proof (cases "closeResult (flowSession f) p")
      case (Some cl)
      have "snd p \<le> length (cleanupQueue (flowSession f))" using x AwaitsSessionClose by simp
      with Some settled_value(2) [OF s f(1)] have "cl = SessionClosed" by (auto simp: closeResult_def split: if_splits)
      moreover obtain bs where "r = Some (FileReady bs)" using x AwaitsSessionClose by (auto simp: is_file_iff)
      ultimately have "resumeFlow j f = setCall j (AwaitsSession n c) (f\<lparr>flowSession := openSession (flowSession f)\<rparr>)"
        using x AwaitsSessionClose Some by (simp add: resumeFlow_def afterSessionClose_def)
      moreover have "flow_call_opening (f\<lparr>flowSession := openSession (flowSession f)\<rparr>) c (AwaitsSession n c)"
        using x AwaitsSessionClose openSession_opens(1) [OF s] by simp
      ultimately show ?thesis
        using f openSession_opens(2) [OF s] by (simp add: flow_opening_def healthy_def)
    qed (use x AwaitsSessionClose assms(2) in \<open>simp add: resumeFlow_def\<close>)
  next
    case (AwaitsSession n d)
    with x have d: "d = c" "n = flowIntent f" "session_opening (flowSession f) c" by simp_all
    then obtain y where y: "openCalls (flowSession f) c = Some y" "call_opening (flowSession f) c y" unfolding session_opening_def by blast
    show ?thesis
    proof (cases y)
      case (OpenAnswered r)
      with y have "r = SessionReady c" by simp
      with x AwaitsSession d y OpenAnswered have "resumeFlow j f = setCall j (FlowAnswered (FlowReady c)) f"
        by (simp add: resumeFlow_def afterSessionOpen_def)
      with flow_moves [OF assms(2), of "FlowAnswered (FlowReady c)"] show ?thesis by simp
    qed (use x AwaitsSession d y assms(2) in \<open>simp_all add: resumeFlow_def\<close>)
  qed (use x assms(2) in \<open>simp_all add: resumeFlow_def\<close>)
qed

lemma other_flow_resume:
  assumes "flow_inv f" and "flow_opening j c f" and "i \<noteq> j"
  shows "flow_opening j c (resumeFlow i f)"
proof -
  have j: "Suc j = nextFlowCall f" using assms(2) by (simp add: flow_opening_def)
  have moved: "flow_opening j c (setCall i y f)" for y using assms(3) by (intro flow_other [OF assms(2)]) simp_all
  have "flow_opening j c (afterSessionClose i n cl r f)" if "flowCalls f i = Some (AwaitsSessionClose n p r)" for n p cl r
  proof -
    have "n = Suc i" using flow_call_of_inv [OF assms(1) that] by simp
    moreover have "flowIntent f = nextFlowCall f" using assms(1) by (simp add: flow_inv_def)
    ultimately have "n \<noteq> flowIntent f" using j assms(3) by simp
    with moved show ?thesis by (simp add: afterSessionClose_def)
  qed
  with moved assms(2) show ?thesis
    by (auto simp: resumeFlow_def afterSessionOpen_def split: option.split flow_call.split open_call.split)
qed

lemma flow_opening_turn:
  assumes "flow_inv f" and "flow_opening j c f" and "favourable_flow j c e"
  shows "flow_opening j c (flow_turn e f)"
proof (cases e)
  case (FileSettles i r)
  show ?thesis
  proof (cases "\<exists>n p. flowCalls f i = Some (AwaitsFile n p)")
    case True
    then obtain n p where x: "flowCalls f i = Some (AwaitsFile n p)" by blast
    define g where "g = (if fileReading f = Some i then f\<lparr>fileReading := None\<rparr> else f)"
    have same: "flowCalls g = flowCalls f" "flowSession g = flowSession f" "flowIntent g = flowIntent f" "nextFlowCall g = nextFlowCall f"
      by (simp_all add: g_def)
    then have g: "flow_opening j c g" by (intro flow_other [OF assms(2)]) simp_all
    have after: "afterFile i n p r f = (if n \<noteq> flowIntent g then setCall i (FlowAnswered FlowCancelled) g else setCall i (AwaitsSessionClose n p r) g)"
      by (simp only: afterFile_def Let_def g_def)
    have "flow_opening j c (afterFile i n p r f)"
    proof (cases "i = j")
      case True
      with assms(2) x have "flow_call_opening f c (AwaitsFile n p)" by (simp add: flow_opening_def)
      then have "flow_call_opening g c (AwaitsSessionClose n p r)" "n = flowIntent g"
        using True same assms(3) FileSettles by simp_all
      with flow_moves [OF g] True show ?thesis unfolding after by simp
    next
      case False
      then have "flow_opening j c (setCall i y g)" for y by (intro flow_other [OF g]) simp_all
      then show ?thesis by (simp add: after)
    qed
    with x FileSettles show ?thesis by simp
  next
    case False
    with FileSettles assms(2) show ?thesis by (auto split: option.split flow_call.split)
  qed
next
  case (ResumeFlow i)
  with own_flow_resume [OF assms(1,2)] other_flow_resume [OF assms(1,2), of i] show ?thesis by (cases "i = j") simp_all
qed (use assms(3) session_in_flow [OF assms(1,2)] in simp_all)

text \<open>When nothing favourable is left to do, the flow has answered with the publication.\<close>

lemma session_at_rest:
  assumes "onSession e f = f"
  shows "sessionTurn e (flowSession f) = flowSession f"
proof -
  have "flowSession (onSession e f) = flowSession f" by (simp only: assms)
  then show ?thesis by (simp add: onSession_def sessionTurn_def)
qed

lemma closes_of_flow_at_rest:
  assumes "flow_inv f" and "\<And>e. favourable_flow j c e \<Longrightarrow> flow_turn e f = f"
  shows "length (closeResults (flowSession f)) = length (cleanupQueue (flowSession f))"
proof -
  have s: "session_inv (flowSession f)" using assms(1) by (simp add: flow_inv_def)
  have "continueCleanup k (flowSession f) = flowSession f" for k
    using assms(2) [of "SessionCleansUp k"] session_at_rest [of "ContinueCleanup k" f] by (simp add: sessionTurn_def)
  moreover have "publicationCloses k True (flowSession f) = flowSession f" for k
    using assms(2) [of "SessionCloses k True"] session_at_rest [of "PublicationCloses k True" f] by (simp add: sessionTurn_def)
  ultimately show ?thesis by (rule closes_at_rest [OF s])
qed

lemma flow_at_rest:
  assumes "flow_inv f" and "flow_opening j c f" and "\<And>e. favourable_flow j c e \<Longrightarrow> flow_turn e f = f"
  shows "flowCalls f j = Some (FlowAnswered (FlowReady c))"
proof -
  have s: "session_inv (flowSession f)" using assms(1) by (simp add: flow_inv_def)
  obtain x where x: "flowCalls f j = Some x" "flow_call_opening f c x" and f: "healthy (flowSession f)"
    using assms(2) unfolding flow_opening_def by blast
  note closes = closes_of_flow_at_rest [OF assms(1,3)]
  have resumed: "flowCalls (resumeFlow j f) j = flowCalls f j" using assms(3) [of "ResumeFlow j"] by simp
  show ?thesis
  proof (cases x)
    case (AwaitsFile n p)
    have "flow_turn (FileSettles j (Some (FileReady []))) f = f" by (rule assms(3)) simp
    then have "flowCalls (afterFile j n p (Some (FileReady [])) f) j = flowCalls f j" using x AwaitsFile by simp
    with x AwaitsFile show ?thesis by (simp add: afterFile_def Let_def split: if_splits)
  next
    case (AwaitsSessionClose n p r)
    then have p: "snd p \<le> length (cleanupQueue (flowSession f))" "is_file r" "n = flowIntent f" using x by simp_all
    with closes settled_value [OF s f p(1)] have "closeResult (flowSession f) p = Some SessionClosed" by (simp add: closeResult_def)
    with x AwaitsSessionClose p resumed show ?thesis by (auto simp: resumeFlow_def afterSessionClose_def is_file_iff)
  next
    case (AwaitsSession n d)
    then have d: "d = c" "session_opening (flowSession f) c" using x by simp_all
    have "resumeOpen c (flowSession f) = flowSession f"
      using assms(3) [of "SessionResumes c"] session_at_rest [of "ResumeOpen c" f] by (simp add: sessionTurn_def)
    moreover have "afterOpener c OpenerSucceeds (flowSession f) = flowSession f" if "openCalls (flowSession f) c = Some AwaitsOpener"
      using assms(3) [of "SessionOpener c OpenerSucceeds"] session_at_rest [of "OpenerAnswers c OpenerSucceeds" f] that by (simp add: sessionTurn_def)
    ultimately have "openCalls (flowSession f) c = Some (OpenAnswered (SessionReady c))"
      using call_at_rest [OF s f d(2) closes] by blast
    with x AwaitsSession d resumed show ?thesis by (simp add: resumeFlow_def afterSessionOpen_def)
  qed (use x in simp_all)
qed

text \<open>A close of the flow in a session in which no close fails.\<close>

definition flow_closing :: "nat \<Rightarrow> open_flow \<Rightarrow> bool" where
  "flow_closing k f \<longleftrightarrow> healthy (flowSession f) \<and>
     ((\<exists>p. flowCalls f k = Some (AwaitsFlowClose p) \<and> snd p \<le> length (cleanupQueue (flowSession f))) \<or>
      flowCalls f k = Some (FlowCloseAnswered True))"

lemma flow_turn_healthy:
  assumes "flow_inv f" and "healthy (flowSession f)" and "favourable_flow j c e"
  shows "healthy (flowSession (flow_turn e f))" and "length (cleanupQueue (flowSession f)) \<le> length (cleanupQueue (flowSession (flow_turn e f)))"
proof -
  have s: "session_inv (flowSession f)" using assms(1) by (simp add: flow_inv_def)
  have opened: "closeResults (openSession (flowSession f)) = closeResults (flowSession f)"
    "length (cleanupQueue (flowSession f)) \<le> length (cleanupQueue (openSession (flowSession f)))"
    by (cases "closePromise (flowSession f)"; cases "activeAttempt (flowSession f)"; cases "activePublication (flowSession f)";
        simp add: openSession_def session_defs Let_def)+
  have session: "healthy (flowSession (onSession x f)) \<and> length (cleanupQueue (flowSession f)) \<le> length (cleanupQueue (flowSession (onSession x f)))"
    if "favourable_session c x" for x
    using healthy_turn [OF s assms(2) that] turn_queue [of x "flowSession f"] favourable_internal(1) [OF that]
    by (simp add: onSession_def sessionTurn_def)
  have resumed: "closeResults (flowSession (resumeFlow i f)) = closeResults (flowSession f) \<and>
      length (cleanupQueue (flowSession f)) \<le> length (cleanupQueue (flowSession (resumeFlow i f)))" for i
    using opened by (simp add: resumeFlow_def afterSessionClose_def afterSessionOpen_def
        split: option.split flow_call.split session_close_result.split file_result.split open_call.split)
  have filed: "flowSession (afterFile i n p r f) = flowSession f" for i n p r by (simp add: afterFile_def Let_def)
  have "healthy (flowSession (flow_turn e f)) \<and> length (cleanupQueue (flowSession f)) \<le> length (cleanupQueue (flowSession (flow_turn e f)))"
  proof (cases e)
    case (FileSettles i r)
    with filed assms(2) show ?thesis by (simp split: option.split flow_call.split)
  next
    case (ResumeFlow i)
    with resumed [of i] assms(2) show ?thesis by (simp add: healthy_def)
  qed (use assms(3) session in simp_all)
  then show "healthy (flowSession (flow_turn e f))"
    and "length (cleanupQueue (flowSession f)) \<le> length (cleanupQueue (flowSession (flow_turn e f)))" by blast+
qed

lemma flow_closing_turn:
  assumes "flow_inv f" and "flow_closing k f" and "favourable_flow j c e"
  shows "flow_closing k (flow_turn e f)"
proof -
  have s: "session_inv (flowSession f)" using assms(1) by (simp add: flow_inv_def)
  have healthy: "healthy (flowSession f)" using assms(2) by (simp add: flow_closing_def)
  note turn = flow_turn_healthy [OF assms(1) healthy assms(3)]
  have kept: "flow_closing k (flow_turn e f)" if "flowCalls (flow_turn e f) k = flowCalls f k"
    using assms(2) turn that by (auto simp: flow_closing_def)
  have own: "flowCalls (resumeFlow k f) k = Some (FlowCloseAnswered True) \<or> flowCalls (resumeFlow k f) k = flowCalls f k"
    using assms(2) settled_value(2) [OF s healthy]
    by (auto simp: flow_closing_def resumeFlow_def closeResult_def split: if_splits)
  have other: "flowCalls (resumeFlow i f) k = flowCalls f k" if "i \<noteq> k" for i
    using that by (simp add: resumeFlow_def afterSessionClose_def afterSessionOpen_def
        split: option.split flow_call.split session_close_result.split file_result.split open_call.split)
  show ?thesis
  proof (cases e)
    case (FileSettles i r)
    then have "flowCalls (flow_turn e f) k = flowCalls f k"
      using assms(2) by (cases "i = k") (auto simp: flow_closing_def afterFile_def Let_def split: option.split flow_call.split)
    then show ?thesis by (rule kept)
  next
    case (ResumeFlow i)
    with kept own other [of i] turn(1) show ?thesis by (cases "i = k") (auto simp: flow_closing_def)
  qed (rule kept, simp add: onSession_def)+
qed

lemma close_at_rest:
  assumes "flow_inv f" and "flow_closing k f" and "\<And>e. favourable_flow j c e \<Longrightarrow> flow_turn e f = f"
  shows "flowCalls f k = Some (FlowCloseAnswered True)"
proof -
  have s: "session_inv (flowSession f)" using assms(1) by (simp add: flow_inv_def)
  have healthy: "healthy (flowSession f)" using assms(2) by (simp add: flow_closing_def)
  have "flowCalls (resumeFlow k f) k = flowCalls f k" using assms(3) [of "ResumeFlow k"] by simp
  with assms(2) closes_of_flow_at_rest [OF assms(1,3)] settled_value [OF s healthy] show ?thesis
    by (auto simp: flow_closing_def resumeFlow_def closeResult_def)
qed

subsection \<open>The call of the reader\<close>

text \<open>
  Where the selection \<open>i\<close> stands: it waits for the flow, or shows the book, or closes a book that has nowhere to
  start reading, or has closed it.
\<close>

definition reader_opening :: "(nat \<Rightarrow> publication_facts) \<Rightarrow> nat \<Rightarrow> nat \<Rightarrow> nat \<Rightarrow> nat \<Rightarrow> reader \<Rightarrow> bool" where
  "reader_opening pubs i j c q r \<longleftrightarrow> readerIntent r = Suc i \<and> healthy (flowSession (readerFlow r)) \<and>
     (readerCalls r i = Some (AwaitsFlowOpen (Suc i) j) \<and> flow_opening j c (readerFlow r) \<and> publicationSequence r = q \<or>
      hasDefaultStart (pubs c) \<and> readerCalls r i = Some ReaderReturned \<and> readerState r = readyReader pubs c (Suc q) \<or>
      \<not> hasDefaultStart (pubs c) \<and> (\<exists>k. readerCalls r i = Some (AwaitsEmptyClose (Suc i) k) \<and> flow_closing k (readerFlow r)) \<or>
      \<not> hasDefaultStart (pubs c) \<and> readerCalls r i = Some ReaderReturned \<and> readerState r = ReaderEmpty)"

text \<open>A close of the flow begins as one in which nothing has failed.\<close>

lemma flowClose_closing:
  assumes "flow_inv f" and "healthy (flowSession f)"
  shows "flow_closing (nextFlowCall f) (flowClose f)"
proof -
  have s: "session_inv (flowSession f)" using assms(1) by (simp add: flow_inv_def)
  obtain p t where c: "closeSession (flowSession f) = (p, t)" by (cases "closeSession (flowSession f)")
  have t: "session_inv t" "closePromise t = Some p" "closeResults t = closeResults (flowSession f)"
    using closeSession_inv [OF s] c by (auto simp: closeSession_def session_defs Let_def split: option.splits)
  then have "snd p \<le> length (cleanupQueue t)" by (cases p) (simp add: session_inv_def)
  with t assms(2) show ?thesis by (simp add: flow_closing_def flowClose_def Let_def c healthy_def)
qed

lemma selection_opening:
  assumes "reader_inv pubs r" and "healthy (flowSession (readerFlow r))"
  shows "reader_opening pubs (readerIntent r) (nextFlowCall (readerFlow r)) (nextCall (flowSession (readerFlow r)))
    (publicationSequence r) (readerOpen r)"
proof -
  have f: "flow_inv (readerFlow r)" using assms(1) by (simp add: reader_inv_def)
  then have s: "session_inv (flowSession (readerFlow r))" by (simp add: flow_inv_def)
  obtain p t where c: "closeSession (flowSession (readerFlow r)) = (p, t)" by (cases "closeSession (flowSession (readerFlow r))")
  have t: "session_inv t" "closePromise t = Some p" "closeResults t = closeResults (flowSession (readerFlow r))"
      "nextCall t = nextCall (flowSession (readerFlow r))"
    using closeSession_inv [OF s] c by (auto simp: closeSession_def session_defs Let_def split: option.splits)
  then have "snd p \<le> length (cleanupQueue t)" by (cases p) (simp add: session_inv_def)
  with t assms(2) have "flow_opening (nextFlowCall (readerFlow r)) (nextCall (flowSession (readerFlow r))) (flowOpen (readerFlow r))"
    by (simp add: flow_opening_def flowOpen_def Let_def c healthy_def)
  moreover have "flowSession (flowOpen (readerFlow r)) = t" by (simp add: flowOpen_def Let_def c)
  ultimately show ?thesis using t(3) assms(2) by (simp add: reader_opening_def readerOpen_def reader_defs Let_def healthy_def)
qed

text \<open>The call of an older intent only returns.\<close>

lemma older_resume:
  assumes "reader_inv pubs r" and "readerIntent r = Suc i" and "k \<noteq> i"
  shows "resumeReader pubs k r = r \<or> resumeReader pubs k r = setReaderCall k ReaderReturned r"
proof (cases "readerCalls r k")
  case (Some x)
  note ok = reader_call_of_inv [OF assms(1) Some]
  have old: "n \<noteq> readerIntent r" if "n = Suc k" for n using that assms(2,3) by simp
  show ?thesis
  proof (cases x)
    case (AwaitsFlowOpen n j)
    then have "n \<noteq> readerIntent r" using ok old by simp
    with Some AwaitsFlowOpen show ?thesis by (simp add: resumeReader_def afterFlowOpen_def split: option.split flow_call.split)
  next
    case (AwaitsEmptyClose n j)
    then have "n \<noteq> readerIntent r" using ok old by simp
    with Some AwaitsEmptyClose show ?thesis by (simp add: resumeReader_def afterEmptyClose_def split: option.split)
  next
    case (AwaitsReaderClose n j)
    then have "n \<noteq> readerIntent r" using ok old by simp
    with Some AwaitsReaderClose show ?thesis by (simp add: resumeReader_def afterReaderClose_def split: option.split)
  next
    case (AwaitsFailedClose n j)
    then have "n \<noteq> readerIntent r" using ok old by simp
    with Some AwaitsFailedClose show ?thesis by (simp add: resumeReader_def afterFailedClose_def split: option.split)
  qed (use Some in \<open>simp_all add: resumeReader_def split: option.split\<close>)
qed (simp add: resumeReader_def)

lemma own_reader_resume:
  assumes "reader_inv pubs r" and "reader_opening pubs i j c q r"
  shows "reader_opening pubs i j c q (resumeReader pubs i r)"
proof -
  have intent: "readerIntent r = Suc i" and healthy: "healthy (flowSession (readerFlow r))" using assms(2) by (simp_all add: reader_opening_def)
  have f: "flow_inv (readerFlow r)" using assms(1) by (simp add: reader_inv_def)
  from assms(2) consider
      "readerCalls r i = Some (AwaitsFlowOpen (Suc i) j)" "flow_opening j c (readerFlow r)" "publicationSequence r = q"
    | "readerCalls r i = Some ReaderReturned"
    | k where "\<not> hasDefaultStart (pubs c)" "readerCalls r i = Some (AwaitsEmptyClose (Suc i) k)" "flow_closing k (readerFlow r)"
    unfolding reader_opening_def by blast
  then show ?thesis
  proof cases
    case 1
    then obtain x where x: "flowCalls (readerFlow r) j = Some x" "flow_call_opening (readerFlow r) c x" unfolding flow_opening_def by blast
    show ?thesis
    proof (cases x)
      case (FlowAnswered y)
      then have y: "y = FlowReady c" using x by simp
      show ?thesis
      proof (cases "hasDefaultStart (pubs c)")
        case True
        with 1 x FlowAnswered y intent healthy show ?thesis
          by (simp add: resumeReader_def afterFlowOpen_def reader_opening_def reader_defs Let_def readyReader_def)
      next
        case False
        have "flow_closing (nextFlowCall (readerFlow r)) (flowClose (readerFlow r))" by (rule flowClose_closing [OF f healthy])
        moreover from this have "healthy (flowSession (flowClose (readerFlow r)))" by (simp add: flow_closing_def)
        ultimately show ?thesis using False 1 x FlowAnswered y intent
          by (simp add: resumeReader_def afterFlowOpen_def reader_opening_def reader_defs Let_def)
      qed
    qed (use 1 x assms(2) in \<open>simp_all add: resumeReader_def\<close>)
  next
    case 2
    with assms(2) show ?thesis by (simp add: resumeReader_def)
  next
    case 3
    show ?thesis
    proof (cases "flowCalls (readerFlow r) k = Some (FlowCloseAnswered True)")
      case True
      with 3 intent healthy show ?thesis
        by (simp add: resumeReader_def flowCloseAnswer_def afterEmptyClose_def reader_opening_def reader_defs)
    next
      case False
      with 3 have "flowCloseAnswer k (readerFlow r) = None" by (auto simp: flow_closing_def flowCloseAnswer_def)
      with 3 assms(2) show ?thesis by (simp add: resumeReader_def)
    qed
  qed
qed

lemma reader_opening_turn:
  assumes "reader_inv pubs r" and "reader_opening pubs i j c q r" and "favourable j c e"
  shows "reader_opening pubs i j c q (reader_turn pubs e r)"
proof -
  have intent: "readerIntent r = Suc i" and healthy: "healthy (flowSession (readerFlow r))" using assms(2) by (simp_all add: reader_opening_def)
  have f: "flow_inv (readerFlow r)" using assms(1) by (simp add: reader_inv_def)
  show ?thesis
  proof (cases e)
    case (ResumeReader k)
    show ?thesis
    proof (cases "k = i")
      case True
      with ResumeReader own_reader_resume [OF assms(1,2)] show ?thesis by simp
    next
      case False
      have "reader_opening pubs i j c q (setReaderCall k ReaderReturned r)"
        using assms(2) False by (simp add: reader_opening_def setReaderCall_def)
      with older_resume [OF assms(1) intent False] assms(2) ResumeReader show ?thesis by auto
    qed
  next
    case (ForgetClose k)
    with assms(2) show ?thesis by (simp add: forgetClose_def reader_opening_def)
  next
    case (ReaderFlowTurn x)
    then have x: "favourable_flow j c x" using assms(3) by simp
    from assms(2) flow_opening_turn [OF f _ x] flow_closing_turn [OF f _ x] flow_turn_healthy(1) [OF f healthy x] ReaderFlowTurn
    show ?thesis by (auto simp: reader_opening_def)
  qed (use assms(3) in simp_all)
qed

lemma reader_at_rest:
  assumes "reader_inv pubs r" and "reader_opening pubs i j c q r" and "\<And>e. favourable j c e \<Longrightarrow> reader_turn pubs e r = r"
  shows "readerState r = (if hasDefaultStart (pubs c) then readyReader pubs c (Suc q) else ReaderEmpty)"
proof -
  have intent: "readerIntent r = Suc i" using assms(2) by (simp add: reader_opening_def)
  have f: "flow_inv (readerFlow r)" using assms(1) by (simp add: reader_inv_def)
  have rest: "flow_turn e (readerFlow r) = readerFlow r" if "favourable_flow j c e" for e
  proof -
    have "readerFlow (reader_turn pubs (ReaderFlowTurn e) r) = readerFlow r" using assms(3) [of "ReaderFlowTurn e"] that by simp
    then show ?thesis by simp
  qed
  have resumed: "readerCalls (resumeReader pubs i r) i = readerCalls r i" using assms(3) [of "ResumeReader i"] by simp
  from assms(2) consider
      "readerCalls r i = Some (AwaitsFlowOpen (Suc i) j)" "flow_opening j c (readerFlow r)"
    | k where "readerCalls r i = Some (AwaitsEmptyClose (Suc i) k)" "flow_closing k (readerFlow r)"
    | "readerState r = (if hasDefaultStart (pubs c) then readyReader pubs c (Suc q) else ReaderEmpty)"
    unfolding reader_opening_def by auto
  then show ?thesis
  proof cases
    case 1
    with flow_at_rest [OF f 1(2) rest] intent resumed show ?thesis
      by (cases "hasDefaultStart (pubs c)") (simp_all add: resumeReader_def afterFlowOpen_def reader_defs Let_def)
  next
    case 2
    with close_at_rest [OF f 2(2) rest] resumed show ?thesis
      by (simp add: resumeReader_def flowCloseAnswer_def afterEmptyClose_def reader_defs)
  qed
qed

lemma favourable_run:
  "reader_inv pubs r \<Longrightarrow> reader_opening pubs i j c q r \<Longrightarrow> \<forall>e \<in> set es. favourable j c e \<Longrightarrow>
     reader_opening pubs i j c q (fold (reader_turn pubs) es r)"
  by (induction es arbitrary: r) (simp_all add: reader_turn_inv reader_opening_turn)

section \<open>Properties\<close>

text \<open>
  C35. A selected book is opened, whatever the schedule. Take any reachable state in which no close of a publication
  has failed, and select a file. Let only favourable turns follow, in any order and with any interleaving: no
  further call of the reader, no failing close, the selected file is read and its opener delivers, everything
  else is free. Then only finitely many turns do anything, and when none does anything any more the reader
  shows the publication of the selected file; if that has nowhere to start reading, it has been closed and the
  reader shows the empty state.
\<close>

theorem selected_book_becomes_ready:
  assumes "r = fold (reader_turn pubs) es createReaderLifecycle" and "False \<notin> set (closeResults (flowSession (readerFlow r)))"
    and "j = nextFlowCall (readerFlow r)" and "c = nextCall (flowSession (readerFlow r))" and "t = reader_turn pubs ReaderOpens r"
  shows "(\<exists>bound. \<forall>later. (\<forall>e \<in> set later. favourable j c e) \<and> productive (reader_turn pubs) later t \<longrightarrow> length later \<le> bound) \<and>
    (\<forall>later u. (\<forall>e \<in> set later. favourable j c e) \<and> u = fold (reader_turn pubs) later t \<and>
       (\<forall>e. favourable j c e \<longrightarrow> reader_turn pubs e u = u) \<longrightarrow>
       readerState u = (if hasDefaultStart (pubs c) then readyReader pubs c (publicationSequence r + 1) else ReaderEmpty))"
proof -
  have r: "reader_inv pubs r" unfolding assms(1) by (rule reachable_reader)
  then have t: "reader_inv pubs t" unfolding assms(5) by (rule reader_turn_inv)
  have selected: "reader_opening pubs (readerIntent r) j c (publicationSequence r) t"
    using selection_opening [OF r] assms(2) by (simp add: assms(3-5) healthy_def)
  have "length later \<le> reader_total t" if "\<forall>e \<in> set later. favourable j c e" "productive (reader_turn pubs) later t" for later
    using reader_rest.productive_bounded [OF t _ that(2)] that(1) favourable_internal(2) by blast
  moreover have "readerState u = (if hasDefaultStart (pubs c) then readyReader pubs c (Suc (publicationSequence r)) else ReaderEmpty)"
    if "\<forall>e \<in> set later. favourable j c e" "u = fold (reader_turn pubs) later t" "\<And>e. favourable j c e \<Longrightarrow> reader_turn pubs e u = u" for later u
    using reader_at_rest [OF _ _ that(3)] reader_run_inv [OF t, of later] favourable_run [OF t selected that(1)] that(2) by blast
  ultimately show ?thesis by (metis Suc_eq_plus1)
qed

text \<open>The sample reader at the end of its opening: nothing is left to do.\<close>

definition opened_flow :: open_flow where
  "opened_flow = fold flow_turn sample_turns (flowOpen createOpenFlow)"

lemmas sample_defs = sample_turns_def createReaderLifecycle_def createOpenFlow_def createPublicationSession_def
  flowOpen_def closeSession_def session_defs reader_defs cancelActiveRead_def setCall_def afterFile_def resumeFlow_def closeResult_def
  cleanupSettled_def cleanupValue_def cleanupResult_def afterSessionClose_def openSession_def onSession_def resumeOpen_def afterClose_def
  afterCleanup_def afterOpener_def afterSessionOpen_def

lemma opened_flow_eq:
  "opened_flow = \<lparr>flowSession = \<lparr>activeAttempt = None, abortedAttempts = [], activePublication = Some 0, closePromise = None,
       cleanupPromise = 0, cleanupQueue = [], cleanupStages = [], closeCalls = [], closeResults = [], intentVersion = 2,
       openCalls = [0 \<mapsto> OpenAnswered (SessionReady 0)], nextCall = 1, nextClose = 1\<rparr>,
     fileReading = None, abortedReads = [], flowIntent = 1, flowCalls = [0 \<mapsto> FlowAnswered (FlowReady 0)], nextFlowCall = 1\<rparr>"
  by (simp add: opened_flow_def sample_defs Let_def)

lemma sample_at_rest:
  assumes "favourable 0 0 e" and "u = fold (reader_turn sample_pubs) sample_opening createReaderLifecycle"
  shows "reader_turn sample_pubs e u = u"
proof -
  have u: "u = \<lparr>readerFlow = opened_flow, readerState = readyReader sample_pubs 0 1, readerIntent = 1, publicationSequence = 1,
      readerClose = None, readerCalls = [0 \<mapsto> ReaderReturned]\<rparr>"
  proof -
    have turns: "fold (reader_turn sample_pubs) (map ReaderFlowTurn fs) x = x\<lparr>readerFlow := fold flow_turn fs (readerFlow x)\<rparr>" for fs x
      by (induction fs arbitrary: x) simp_all
    have "readerOpen createReaderLifecycle = \<lparr>readerFlow = flowOpen createOpenFlow, readerState = ReaderOpening, readerIntent = 1,
        publicationSequence = 0, readerClose = None, readerCalls = [0 \<mapsto> AwaitsFlowOpen 1 0]\<rparr>"
      by (simp add: readerOpen_def createReaderLifecycle_def reader_defs Let_def createOpenFlow_def)
    moreover have "flowCalls opened_flow 0 = Some (FlowAnswered (FlowReady 0))" by (simp add: opened_flow_eq)
    ultimately show ?thesis
      by (simp add: assms(2) sample_opening_def turns flip: opened_flow_def)
        (simp add: resumeReader_def afterFlowOpen_def reader_defs Let_def sample_pubs_def readyReader_def)
  qed
  have "flow_turn x opened_flow = opened_flow" for x
    by (cases x) (simp_all add: opened_flow_eq resumeFlow_def onSession_def resumeOpen_def continueCleanup_def publicationCloses_def)
  then show ?thesis
    using assms(1) by (cases e) (simp_all add: u resumeReader_def forgetClose_def)
qed

theorem selected_book_becomes_ready_witness:
  "readerState (fold (reader_turn sample_pubs) sample_opening createReaderLifecycle) = readyReader sample_pubs 0 1"
proof -
  let ?later = "map ReaderFlowTurn sample_turns @ [ResumeReader 0]"
  let ?t = "reader_turn sample_pubs ReaderOpens createReaderLifecycle"
  define u where "u = fold (reader_turn sample_pubs) sample_opening createReaderLifecycle"
  have start: "nextFlowCall (readerFlow createReaderLifecycle) = 0" "nextCall (flowSession (readerFlow createReaderLifecycle)) = 0"
    "closeResults (flowSession (readerFlow createReaderLifecycle)) = []" "publicationSequence createReaderLifecycle = 0"
    by (simp_all add: createReaderLifecycle_def createOpenFlow_def createPublicationSession_def)
  have u: "(\<forall>e \<in> set ?later. favourable 0 0 e) \<and> u = fold (reader_turn sample_pubs) ?later ?t \<and>
      (\<forall>e. favourable 0 0 e \<longrightarrow> reader_turn sample_pubs e u = u)"
    using sample_at_rest [OF _ u_def] by (simp add: sample_turns_def) (simp add: u_def sample_opening_def sample_turns_def)
  have "createReaderLifecycle = fold (reader_turn sample_pubs) [] createReaderLifecycle" by simp
  from selected_book_becomes_ready [OF this, of 0 0 ?t, THEN conjunct2] u start
  have "readerState u = (if hasDefaultStart (sample_pubs 0) then readyReader sample_pubs 0 (publicationSequence createReaderLifecycle + 1) else ReaderEmpty)"
    by (simp only: list.set(1) empty_iff not_False_eq_True simp_thms) blast
  then show ?thesis using start(4) by (simp add: u_def sample_pubs_def)
qed

end
