(* ===== verification/Audio_Frame.thy ===== *)
theory Audio_Frame
  imports Contract_Values
begin

text \<open>
  packages/shared/src/contracts/audio-frame.ts with its generated validator: the metadata of one frame of
  audio, and the duration of a contiguous run of frames of one segment.
\<close>

record audio_frame =
  frameSchemaVersion :: int
  frameId :: js_string
  frameSessionId :: js_string
  frameGenerationId :: js_string
  frameSegmentId :: js_string
  frameSequence :: int
  sampleRateHz :: int
  sampleCountSamples :: int
  channelCount :: int
  endOfSegment :: bool

datatype continuity_error =
    FrameIdentityMismatch | FrameFormatMismatch | DuplicateFrameId | SequenceGap | FrameAfterSegmentEnd
  | DurationOverflow

section \<open>Decoding\<close>

definition valid_frame_identity :: "(string \<times> js_value) list \<Rightarrow> bool" where
  "valid_frame_identity kvs \<longleftrightarrow>
     valid_identifier_value (property kvs ''frameId'') \<and> valid_identifier_value (property kvs ''sessionId'') \<and>
     valid_identifier_value (property kvs ''generationId'') \<and> valid_identifier_value (property kvs ''segmentId'')"

definition valid_frame_format :: "(string \<times> js_value) list \<Rightarrow> bool" where
  "valid_frame_format kvs \<longleftrightarrow>
     valid_integer 0 (property kvs ''sequence'') \<and> valid_integer 1 (property kvs ''sampleRateHz'') \<and>
     valid_integer 0 (property kvs ''sampleCountSamples'') \<and> at_least 1 (property kvs ''sampleCountSamples'') \<and>
     valid_integer 0 (property kvs ''channelCount'') \<and> at_least 1 (property kvs ''channelCount'')"

fun validateAudioFrameV1Wire :: "js_value \<Rightarrow> bool" where
  "validateAudioFrameV1Wire (JObject kvs) =
     (only_keys [''schemaVersion'', ''frameId'', ''sessionId'', ''generationId'', ''segmentId'', ''sequence'',
        ''sampleRateHz'', ''sampleCountSamples'', ''channelCount'', ''endOfSegment''] kvs \<and>
      valid_version_1 (property kvs ''schemaVersion'') \<and>
      valid_frame_identity kvs \<and> valid_frame_format kvs \<and> is_boolean (property kvs ''endOfSegment''))"
| "validateAudioFrameV1Wire _ = False"

definition readAudioFrameVersion :: "js_value \<Rightarrow> contract_code contract_failure + int" where
  "readAudioFrameVersion = readContractVersion Malformed UnsupportedVersion"

definition decodeAudioFrameV1 :: "js_value \<Rightarrow> contract_code contract_failure + audio_frame" where
  "decodeAudioFrameV1 input =
     bindE (readAudioFrameVersion input) (\<lambda>version.
     if \<not> validateAudioFrameV1Wire input then Inl (ContractFails Malformed)
     else let kvs = objectFields input in
       bindE (lift_primitive (createIdentifier (property kvs ''frameId''))) (\<lambda>f.
       bindE (lift_primitive (createIdentifier (property kvs ''sessionId''))) (\<lambda>s.
       bindE (lift_primitive (createIdentifier (property kvs ''generationId''))) (\<lambda>g.
       bindE (lift_primitive (createIdentifier (property kvs ''segmentId''))) (\<lambda>seg.
       bindE (lift_primitive (createIndex (property kvs ''sequence''))) (\<lambda>q.
       bindE (lift_primitive (createHertz (property kvs ''sampleRateHz''))) (\<lambda>hz.
       bindE (lift_primitive (createSampleCount (property kvs ''sampleCountSamples''))) (\<lambda>n.
       bindE (lift_primitive (createCount (property kvs ''channelCount''))) (\<lambda>c.
       Inr \<lparr>frameSchemaVersion = version, frameId = f, frameSessionId = s, frameGenerationId = g, frameSegmentId = seg,
         frameSequence = q, sampleRateHz = hz, sampleCountSamples = n, channelCount = c,
         endOfSegment = (property kvs ''endOfSegment'' = JBool True)\<rparr>)))))))))"

section \<open>Durations\<close>

definition durationMsFromSampleCount :: "int \<Rightarrow> int \<Rightarrow> continuity_error + int" where
  "durationMsFromSampleCount samples rate =
     (let durationMs = samples * 1000 div rate in
      if MAX_SAFE_INTEGER < durationMs then Inl DurationOverflow else Inr durationMs)"

definition calculateAudioFrameDurationMs :: "audio_frame \<Rightarrow> continuity_error + int" where
  "calculateAudioFrameDurationMs f = durationMsFromSampleCount (sampleCountSamples f) (sampleRateHz f)"

text \<open>One round of the loop: the checks of a frame, given the ids seen and the frame before it.\<close>

definition checkFrame :: "audio_frame \<Rightarrow> js_string list \<Rightarrow> audio_frame option \<Rightarrow> audio_frame \<Rightarrow> continuity_error + unit" where
  "checkFrame first frameIds previous f =
     (if frameId f \<in> set frameIds then Inl DuplicateFrameId
      else if frameSessionId f \<noteq> frameSessionId first \<or> frameGenerationId f \<noteq> frameGenerationId first \<or>
        frameSegmentId f \<noteq> frameSegmentId first then Inl FrameIdentityMismatch
      else if sampleRateHz f \<noteq> sampleRateHz first \<or> channelCount f \<noteq> channelCount first then Inl FrameFormatMismatch
      else case previous of
        None \<Rightarrow> Inr ()
      | Some p \<Rightarrow>
          if endOfSegment p then Inl FrameAfterSegmentEnd
          else if frameSequence p = MAX_SAFE_INTEGER \<or> frameSequence f \<noteq> frameSequence p + 1 then Inl SequenceGap
          else Inr ())"

fun sumContiguous :: "audio_frame \<Rightarrow> js_string list \<Rightarrow> audio_frame option \<Rightarrow> int \<Rightarrow> audio_frame list \<Rightarrow> continuity_error + int" where
  "sumContiguous first frameIds previous samples [] = Inr samples"
| "sumContiguous first frameIds previous samples (f # fs) =
     bindE (checkFrame first frameIds previous f) (\<lambda>_.
     sumContiguous first (frameId f # frameIds) (Some f) (samples + sampleCountSamples f) fs)"

definition calculateContiguousAudioDurationMs :: "audio_frame list \<Rightarrow> continuity_error + int" where
  "calculateContiguousAudioDurationMs frames = (case frames of
       [] \<Rightarrow> Inr 0
     | first # _ \<Rightarrow> bindE (sumContiguous first [] None 0 frames) (\<lambda>n. durationMsFromSampleCount n (sampleRateHz first)))"

section \<open>Decoded frames\<close>

definition frame_wf :: "audio_frame \<Rightarrow> bool" where
  "frame_wf f \<longleftrightarrow> frameSchemaVersion f = 1 \<and>
     valid_identifier_value (JString (frameId f)) \<and> valid_identifier_value (JString (frameSessionId f)) \<and>
     valid_identifier_value (JString (frameGenerationId f)) \<and> valid_identifier_value (JString (frameSegmentId f)) \<and>
     0 \<le> frameSequence f \<and> frameSequence f \<le> MAX_SAFE_INTEGER \<and>
     1 \<le> sampleRateHz f \<and> sampleRateHz f \<le> MAX_SAFE_INTEGER \<and>
     1 \<le> sampleCountSamples f \<and> sampleCountSamples f \<le> MAX_SAFE_INTEGER \<and>
     1 \<le> channelCount f \<and> channelCount f \<le> MAX_SAFE_INTEGER"

definition frame_wire :: "audio_frame \<Rightarrow> js_value" where
  "frame_wire f = JObject [(''schemaVersion'', wire_int (frameSchemaVersion f)), (''frameId'', JString (frameId f)),
     (''sessionId'', JString (frameSessionId f)), (''generationId'', JString (frameGenerationId f)),
     (''segmentId'', JString (frameSegmentId f)), (''sequence'', wire_int (frameSequence f)),
     (''sampleRateHz'', wire_int (sampleRateHz f)), (''sampleCountSamples'', wire_int (sampleCountSamples f)),
     (''channelCount'', wire_int (channelCount f)), (''endOfSegment'', JBool (endOfSegment f))]"

text \<open>The frame a validated object stands for.\<close>

definition frame_of :: "(string \<times> js_value) list \<Rightarrow> audio_frame" where
  "frame_of kvs = \<lparr>frameSchemaVersion = 1, frameId = stringValue (property kvs ''frameId''),
     frameSessionId = stringValue (property kvs ''sessionId''), frameGenerationId = stringValue (property kvs ''generationId''),
     frameSegmentId = stringValue (property kvs ''segmentId''), frameSequence = intValue (property kvs ''sequence''),
     sampleRateHz = intValue (property kvs ''sampleRateHz''), sampleCountSamples = intValue (property kvs ''sampleCountSamples''),
     channelCount = intValue (property kvs ''channelCount''), endOfSegment = (property kvs ''endOfSegment'' = JBool True)\<rparr>"

lemma validated_frame_decodes:
  assumes "validateAudioFrameV1Wire (JObject kvs)"
  shows "decodeAudioFrameV1 (JObject kvs) =
    (if property kvs ''sequence'' = JNumber NegZero then Inl PrimitiveEscapes else Inr (frame_of kvs))"
proof -
  have v: "valid_version_1 (property kvs ''schemaVersion'')" "valid_frame_identity kvs" "valid_frame_format kvs"
    using assms by (simp_all del: valid_version_1.simps)
  have version: "readAudioFrameVersion (JObject kvs) = Inr 1"
    using v(1) by (simp add: readAudioFrameVersion_def readContractVersion_valid del: valid_version_1.simps)
  have ids: "createIdentifier (property kvs k) = Inr (stringValue (property kvs k))"
    if "k \<in> {''frameId'', ''sessionId'', ''generationId'', ''segmentId''}" for k
    using v(2) that by (auto simp: valid_frame_identity_def simp del: createIdentifier.simps intro: valid_identifier_value)
  have hz: "createHertz (property kvs ''sampleRateHz'') = Inr (intValue (property kvs ''sampleRateHz''))"
  proof -
    have "valid_integer 1 (property kvs ''sampleRateHz'')" using v(3) by (simp add: valid_frame_format_def)
    then have "valid_integer 0 (property kvs ''sampleRateHz'')" "intValue (property kvs ''sampleRateHz'') \<noteq> 0"
      "property kvs ''sampleRateHz'' \<noteq> JNumber NegZero"
      using valid_integer_intValue by (fastforce simp: valid_integer_iff)+
    then show ?thesis by (simp add: createHertz_def valid_number)
  qed
  have counts: "createIndex (property kvs k) = Inr (intValue (property kvs k))" if "k \<in> {''sampleCountSamples'', ''channelCount''}" for k
    using v(3) that at_least_positive by (intro valid_number) (auto simp: valid_frame_format_def)
  have sequence: "createIndex (property kvs ''sequence'') =
      (if property kvs ''sequence'' = JNumber NegZero then Inl PrimitiveError else Inr (intValue (property kvs ''sequence'')))"
    using v(3) valid_index [of "property kvs ''sequence''"] by (simp add: valid_frame_format_def intValue_def)
  show ?thesis
    using assms by (simp add: decodeAudioFrameV1_def version ids hz sequence counts createSampleCount_def createCount_def frame_of_def
        del: createIdentifier.simps createIndex.simps validateAudioFrameV1Wire.simps)
qed

lemma frame_of_wf:
  assumes "validateAudioFrameV1Wire (JObject kvs)"
  shows "frame_wf (frame_of kvs)"
proof -
  have v: "valid_frame_identity kvs" "valid_frame_format kvs" using assms by simp_all
  then show ?thesis
    using valid_integer_intValue at_least_intValue
    unfolding valid_frame_identity_def valid_frame_format_def frame_wf_def frame_of_def
    by (auto simp: valid_identifier_string dest!: valid_integer_intValue at_least_intValue)
qed

lemma decodeAudioFrame_Inr:
  "decodeAudioFrameV1 v = Inr f \<longleftrightarrow> (\<exists>kvs. v = JObject kvs \<and> validateAudioFrameV1Wire v \<and>
     property kvs ''sequence'' \<noteq> JNumber NegZero \<and> f = frame_of kvs)"
proof
  assume d: "decodeAudioFrameV1 v = Inr f"
  then obtain n where "readAudioFrameVersion v = Inr n" "validateAudioFrameV1Wire v"
    by (auto simp: decodeAudioFrameV1_def bindE_Inr split: if_splits)
  then obtain kvs where "v = JObject kvs" by (cases v) auto
  with d \<open>validateAudioFrameV1Wire v\<close> validated_frame_decodes [of kvs]
  show "\<exists>kvs. v = JObject kvs \<and> validateAudioFrameV1Wire v \<and> property kvs ''sequence'' \<noteq> JNumber NegZero \<and> f = frame_of kvs"
    by (auto simp del: validateAudioFrameV1Wire.simps split: if_splits)
qed (auto simp: validated_frame_decodes simp del: validateAudioFrameV1Wire.simps)

lemma frame_wire_decodes:
  assumes "frame_wf f"
  shows "decodeAudioFrameV1 (frame_wire f) = Inr f"
proof -
  let ?kvs = "objectFields (frame_wire f)"
  have wire: "frame_wire f = JObject ?kvs" by (simp add: frame_wire_def)
  have "validateAudioFrameV1Wire (JObject ?kvs)"
    using assms by (simp add: frame_wire_def frame_wf_def valid_frame_identity_def valid_frame_format_def valid_wire_int valid_version_1_wire
        del: valid_version_1.simps valid_integer.simps at_least.simps)
  moreover have "frame_of ?kvs = f"
    using assms by (simp add: frame_of_def frame_wire_def frame_wf_def)
  moreover have "property ?kvs ''sequence'' \<noteq> JNumber NegZero" by (simp add: frame_wire_def wire_int_nonzero)
  ultimately show ?thesis using validated_frame_decodes [of ?kvs] wire by simp
qed

interpretation frames: versioned_contract decodeAudioFrameV1 frame_wire frame_wf
proof
  show "frame_wf f" if "decodeAudioFrameV1 v = Inr f" for v f
    using that frame_of_wf by (auto simp: decodeAudioFrame_Inr)
qed (rule frame_wire_decodes)

section \<open>Contiguous runs\<close>

text \<open>What a contiguous run of frames of one segment is, read off the frames themselves.\<close>

definition same_work :: "audio_frame \<Rightarrow> audio_frame \<Rightarrow> bool" where
  "same_work f g \<longleftrightarrow> frameSessionId g = frameSessionId f \<and> frameGenerationId g = frameGenerationId f \<and>
     frameSegmentId g = frameSegmentId f \<and> sampleRateHz g = sampleRateHz f \<and> channelCount g = channelCount f"

definition next_frame :: "audio_frame \<Rightarrow> audio_frame \<Rightarrow> bool" where
  "next_frame p f \<longleftrightarrow> \<not> endOfSegment p \<and> frameSequence p < MAX_SAFE_INTEGER \<and> frameSequence f = frameSequence p + 1"

definition contiguous :: "audio_frame list \<Rightarrow> bool" where
  "contiguous fs \<longleftrightarrow> distinct (map frameId fs) \<and> (\<forall>f \<in> set fs. same_work (hd fs) f) \<and> successively next_frame fs"

lemma checkFrame_Inr:
  assumes "\<forall>p. previous = Some p \<longrightarrow> frame_wf p"
  shows "checkFrame first ids previous f = Inr u \<longleftrightarrow> frameId f \<notin> set ids \<and> same_work first f \<and>
    (\<forall>p. previous = Some p \<longrightarrow> next_frame p f)"
  using assms by (cases previous) (auto simp: checkFrame_def same_work_def next_frame_def frame_wf_def)

lemma sumContiguous_Inr:
  assumes "\<forall>f \<in> set fs. frame_wf f" and "\<forall>p. previous = Some p \<longrightarrow> frame_wf p"
  shows "sumContiguous first ids previous n fs = Inr m \<longleftrightarrow>
    distinct (map frameId fs) \<and> set ids \<inter> frameId ` set fs = {} \<and> (\<forall>f \<in> set fs. same_work first f) \<and>
    successively next_frame (case previous of None \<Rightarrow> fs | Some p \<Rightarrow> p # fs) \<and> m = n + sum_list (map sampleCountSamples fs)"
  using assms
proof (induction fs arbitrary: ids previous n)
  case Nil
  then show ?case by (cases previous) auto
next
  case (Cons f fs)
  have "sumContiguous first ids previous n (f # fs) = Inr m \<longleftrightarrow> (frameId f \<notin> set ids \<and> same_work first f \<and>
      (\<forall>p. previous = Some p \<longrightarrow> next_frame p f)) \<and>
      sumContiguous first (frameId f # ids) (Some f) (n + sampleCountSamples f) fs = Inr m"
    using checkFrame_Inr [OF Cons.prems(2), of first ids f] by (auto simp: bindE_Inr)
  with Cons.IH [of "Some f" "frameId f # ids" "n + sampleCountSamples f"] Cons.prems show ?case
    by (cases previous) (auto simp: ac_simps)
qed

lemma same_work_refl: "same_work f f"
  by (simp add: same_work_def)

lemma contiguousDuration_Inr:
  assumes "\<forall>f \<in> set fs. frame_wf f"
  shows "calculateContiguousAudioDurationMs fs = Inr d \<longleftrightarrow> contiguous fs \<and>
    d = sum_list (map sampleCountSamples fs) * 1000 div sampleRateHz (hd fs) \<and> d \<le> MAX_SAFE_INTEGER"
proof (cases fs)
  case Nil
  then show ?thesis by (auto simp: calculateContiguousAudioDurationMs_def contiguous_def MAX_SAFE_INTEGER_def)
next
  case (Cons first rest)
  have "calculateContiguousAudioDurationMs fs = Inr d \<longleftrightarrow>
      (\<exists>n. sumContiguous first [] None 0 fs = Inr n \<and> durationMsFromSampleCount n (sampleRateHz first) = Inr d)"
    by (simp add: Cons calculateContiguousAudioDurationMs_def bindE_Inr del: sumContiguous.simps)
  also have "\<dots> \<longleftrightarrow> contiguous fs \<and> durationMsFromSampleCount (sum_list (map sampleCountSamples fs)) (sampleRateHz first) = Inr d"
    using sumContiguous_Inr [OF assms, of None first "[]" 0] by (auto simp: contiguous_def Cons simp del: sumContiguous.simps)
  finally show ?thesis by (auto simp: durationMsFromSampleCount_def Let_def Cons)
qed

text \<open>Truncating once loses less than truncating each frame: what each frame loses is below a millisecond.\<close>

lemma div_sum_bounds:
  fixes r :: int
  assumes "0 < r"
  shows "(\<Sum>n \<leftarrow> ns. n * 1000 div r) \<le> sum_list ns * 1000 div r \<and>
    sum_list ns * 1000 div r \<le> (\<Sum>n \<leftarrow> ns. n * 1000 div r) + int (length ns)"
proof (induction ns)
  case (Cons n ns)
  have "(a + b) div r = a div r + b div r + (a mod r + b mod r) div r \<and> 0 \<le> (a mod r + b mod r) div r \<and> (a mod r + b mod r) div r \<le> 1" for a b :: int
  proof -
    have "0 \<le> a mod r" "0 \<le> b mod r" "a mod r < r" "b mod r < r" using assms by simp_all
    then have "0 \<le> (a mod r + b mod r) div r" using assms by (simp add: pos_imp_zdiv_nonneg_iff)
    moreover have "a mod r + b mod r < 2 * r" using \<open>a mod r < r\<close> \<open>b mod r < r\<close> by simp
    moreover have "(a mod r + b mod r) div r * r \<le> a mod r + b mod r"
      using assms minus_mod_eq_div_mult [of "a mod r + b mod r" r] pos_mod_sign [of r "a mod r + b mod r"] by linarith
    ultimately have "0 \<le> (a mod r + b mod r) div r" "(a mod r + b mod r) div r * r < 2 * r" by linarith+
    then have "(a mod r + b mod r) div r \<le> 1" using assms by simp
    with \<open>0 \<le> (a mod r + b mod r) div r\<close> show ?thesis using div_add1_eq [of a b r] by simp
  qed
  note carry = this [of "n * 1000" "sum_list ns * 1000"]
  have "sum_list (n # ns) * 1000 = n * 1000 + sum_list ns * 1000" by simp
  with carry Cons.IH show ?case by simp
qed simp

text \<open>
  C36. The duration of a run is exact. For decoded frames the calculation succeeds exactly on the contiguous runs
  of one segment whose duration is a safe integer, and its result is the whole duration, truncated once.
\<close>

theorem contiguous_duration_is_exact:
  assumes "\<forall>f \<in> set fs. \<exists>v. decodeAudioFrameV1 v = Inr f"
  shows "calculateContiguousAudioDurationMs fs = Inr d \<longleftrightarrow> contiguous fs \<and>
    d = sum_list (map sampleCountSamples fs) * 1000 div sampleRateHz (hd fs) \<and> d \<le> MAX_SAFE_INTEGER"
proof (rule contiguousDuration_Inr)
  show "\<forall>f \<in> set fs. frame_wf f" using assms frames.decodable_iff_wf by blast
qed

text \<open>
  Rounding does not accumulate. The duration of a run is at least what its frames sum to when each is
  truncated on its own, and exceeds that sum by at most a millisecond per frame.
\<close>

theorem run_duration_bounds_frames:
  assumes "\<forall>f \<in> set fs. \<exists>v. decodeAudioFrameV1 v = Inr f" and "calculateContiguousAudioDurationMs fs = Inr d"
  shows "\<exists>ds. map Inr ds = map calculateAudioFrameDurationMs fs \<and> sum_list ds \<le> d \<and> d \<le> sum_list ds + int (length fs)"
proof -
  have wf: "\<forall>f \<in> set fs. frame_wf f" using assms(1) frames.decodable_iff_wf by blast
  let ?r = "sampleRateHz (hd fs)"
  have d: "contiguous fs" "d = sum_list (map sampleCountSamples fs) * 1000 div ?r" "d \<le> MAX_SAFE_INTEGER"
    using assms(2) contiguousDuration_Inr [OF wf] by blast+
  define ds where "ds = map (\<lambda>f. sampleCountSamples f * 1000 div ?r) fs"
  have rate: "fs = [] \<or> 0 < ?r" using wf by (cases fs) (auto simp: frame_wf_def)
  have ds: "sum_list ds = (\<Sum>n \<leftarrow> map sampleCountSamples fs. n * 1000 div ?r)" by (simp add: ds_def comp_def)
  have bounds: "sum_list ds \<le> d \<and> d \<le> sum_list ds + int (length fs)"
  proof (cases "fs = []")
    case False
    with rate div_sum_bounds [of ?r "map sampleCountSamples fs"] d(2) ds show ?thesis by simp
  qed (use d in \<open>simp add: ds_def\<close>)
  have "calculateAudioFrameDurationMs f = Inr (sampleCountSamples f * 1000 div ?r)" if f: "f \<in> set fs" for f
  proof -
    have "sampleRateHz f = ?r" using d(1) f by (auto simp: contiguous_def same_work_def)
    moreover have "sampleCountSamples f * 1000 div ?r \<le> sum_list ds"
      unfolding ds_def
    proof (rule sum_list_member_le [OF _ f])
      fix g
      assume g: "g \<in> set fs"
      then have "fs \<noteq> []" by (cases fs) simp_all
      with rate have "0 < ?r" by blast
      moreover have "frame_wf g" using wf g by blast
      then have "0 \<le> sampleCountSamples g * 1000" by (simp add: frame_wf_def)
      ultimately show "0 \<le> sampleCountSamples g * 1000 div ?r" using pos_imp_zdiv_nonneg_iff by blast
    qed
    ultimately show ?thesis using bounds d(3) by (simp add: calculateAudioFrameDurationMs_def durationMsFromSampleCount_def)
  qed
  then have "map Inr ds = map calculateAudioFrameDurationMs fs" by (simp add: ds_def)
  with bounds show ?thesis by blast
qed

section \<open>Frames to try them on\<close>

definition sample_frame :: "nat \<Rightarrow> audio_frame" where
  "sample_frame n = \<lparr>frameSchemaVersion = 1, frameId = (if n = 0 then js ''a'' else js ''b''), frameSessionId = js ''s'',
     frameGenerationId = js ''g'', frameSegmentId = js ''t'', frameSequence = int n, sampleRateHz = 24000,
     sampleCountSamples = 1012, channelCount = 1, endOfSegment = (n = 1)\<rparr>"

lemma sample_letters:
  "code_points (js ''a'') = [97]" "code_points (js ''b'') = [98]" "code_points (js ''s'') = [115]"
  "code_points (js ''g'') = [103]" "code_points (js ''t'') = [116]"
  by (simp_all add: js_def)

lemma sample_frame_wf: "frame_wf (sample_frame 0)" "frame_wf (sample_frame 1)"
  unfolding frame_wf_def sample_frame_def by (simp_all add: valid_identifier_value_def sample_letters identifier_pattern_def identifier_edge_def MAX_SAFE_INTEGER_def)

lemma sample_frame_decodes: "\<exists>v. decodeAudioFrameV1 v = Inr (sample_frame 0)" "\<exists>v. decodeAudioFrameV1 v = Inr (sample_frame 1)"
  using sample_frame_wf frames.decodable_iff_wf by blast+

theorem contiguous_duration_is_exact_witness:
  "calculateContiguousAudioDurationMs [sample_frame 0, sample_frame 1] = Inr 84"
proof -
  have "\<forall>f \<in> set [sample_frame 0, sample_frame 1]. \<exists>v. decodeAudioFrameV1 v = Inr f" using sample_frame_decodes by auto
  note contiguous_duration_is_exact [OF this, of 84]
  then show ?thesis
    by (simp add: sample_frame_def contiguous_def same_work_def next_frame_def js_def MAX_SAFE_INTEGER_def)
qed

theorem run_duration_bounds_frames_witness:
  "\<exists>ds. map Inr ds = map calculateAudioFrameDurationMs [sample_frame 0] \<and> sum_list ds \<le> 42 \<and> (42 :: int) \<le> sum_list ds + 1"
proof -
  have "\<forall>f \<in> set [sample_frame 0]. \<exists>v. decodeAudioFrameV1 v = Inr f" by (simp add: sample_frame_decodes)
  moreover have "calculateContiguousAudioDurationMs [sample_frame 0] = Inr 42"
    by (simp add: calculateContiguousAudioDurationMs_def checkFrame_def sample_frame_def durationMsFromSampleCount_def MAX_SAFE_INTEGER_def)
  ultimately show ?thesis using run_duration_bounds_frames [of "[sample_frame 0]" 42] by simp
qed

end
