(* ===== verification/Session_Contracts.thy ===== *)
theory Session_Contracts
  imports Contract_Values
begin

text \<open>
  The contracts of a reading session and of the work done for it, packages/shared/src/contracts/reading-session.ts,
  buffer-status.ts, capability-report.ts and narration-segment.ts, with their generated validators.
\<close>

section \<open>Reading sessions\<close>

record reading_session =
  sessionSchemaVersion :: int
  sessionId :: js_string
  sessionBookIdentity :: book_identity
  generationId :: js_string

record generation_work =
  workSessionId :: js_string
  workGenerationId :: js_string

datatype work_eligibility = Eligible | StaleSession | StaleGeneration

definition getGenerationWorkIdentity :: "reading_session \<Rightarrow> generation_work" where
  "getGenerationWorkIdentity s = \<lparr>workSessionId = sessionId s, workGenerationId = generationId s\<rparr>"

definition classifyGenerationWorkEligibility :: "reading_session option \<Rightarrow> generation_work \<Rightarrow> work_eligibility" where
  "classifyGenerationWorkEligibility active work = (case active of
       None \<Rightarrow> StaleSession
     | Some s \<Rightarrow> if sessionId s \<noteq> workSessionId work then StaleSession
         else if generationId s \<noteq> workGenerationId work then StaleGeneration else Eligible)"

definition isGenerationWorkEligible :: "reading_session option \<Rightarrow> generation_work \<Rightarrow> bool" where
  "isGenerationWorkEligible active work \<longleftrightarrow> classifyGenerationWorkEligibility active work = Eligible"

fun validateReadingSessionV1Wire :: "js_value \<Rightarrow> bool" where
  "validateReadingSessionV1Wire (JObject kvs) =
     (only_keys [''schemaVersion'', ''sessionId'', ''bookIdentity'', ''generationId''] kvs \<and>
      valid_version_1 (property kvs ''schemaVersion'') \<and> valid_identifier_value (property kvs ''sessionId'') \<and>
      validateBookIdentity (property kvs ''bookIdentity'') \<and> valid_identifier_value (property kvs ''generationId''))"
| "validateReadingSessionV1Wire _ = False"

definition readSessionVersion :: "js_value \<Rightarrow> contract_code contract_failure + int" where
  "readSessionVersion = readContractVersion Malformed UnsupportedVersion"

text \<open>The book identity of a validated contract, built from its parts.\<close>

definition createBookIdentity :: "js_value \<Rightarrow> locator_failure + book_identity" where
  "createBookIdentity v = (let b = objectFields v in
     bindE (createSchemaVersion (property b ''schemeVersion'')) (\<lambda>sv.
     bindE (createIdentifier (property b ''value'')) (\<lambda>i.
     Inr \<lparr>scheme = stringValue (property b ''scheme''), schemeVersion = sv, identityValue = i\<rparr>)))"

definition decodeReadingSessionV1 :: "js_value \<Rightarrow> contract_code contract_failure + reading_session" where
  "decodeReadingSessionV1 input =
     bindE (readSessionVersion input) (\<lambda>version.
     if \<not> validateReadingSessionV1Wire input then Inl (ContractFails Malformed)
     else let kvs = objectFields input in
       bindE (lift_primitive (createIdentifier (property kvs ''sessionId''))) (\<lambda>s.
       bindE (lift_primitive (createBookIdentity (property kvs ''bookIdentity''))) (\<lambda>b.
       bindE (lift_primitive (createIdentifier (property kvs ''generationId''))) (\<lambda>g.
       Inr \<lparr>sessionSchemaVersion = version, sessionId = s, sessionBookIdentity = b, generationId = g\<rparr>))))"

section \<open>Buffer status\<close>

datatype buffer_state = BufferEmpty | Buffering | BufferReady | BufferPlaying | BufferPaused

record buffer_thresholds =
  lowWaterMarkMs :: int
  targetBufferMs :: int
  maximumBufferMs :: int

record buffer_status =
  statusSchemaVersion :: int
  statusSessionId :: js_string
  statusGenerationId :: js_string
  contiguousPlayableDurationMs :: int
  thresholds :: buffer_thresholds
  underrunCount :: int
  bufferState :: buffer_state

datatype buffer_status_code =
    BufferMalformed | BufferUnsupportedVersion | InvalidThresholdOrder | DurationExceedsMaximum | InvalidStateDuration

fun buffer_state_literal :: "buffer_state \<Rightarrow> js_string" where
  "buffer_state_literal BufferEmpty = js ''empty''"
| "buffer_state_literal Buffering = js ''buffering''"
| "buffer_state_literal BufferReady = js ''ready''"
| "buffer_state_literal BufferPlaying = js ''playing''"
| "buffer_state_literal BufferPaused = js ''paused''"

definition buffer_states :: "buffer_state list" where
  "buffer_states = [BufferEmpty, Buffering, BufferReady, BufferPlaying, BufferPaused]"

fun validateBufferThresholds :: "js_value \<Rightarrow> bool" where
  "validateBufferThresholds (JObject kvs) =
     (only_keys [''lowWaterMarkMs'', ''targetBufferMs'', ''maximumBufferMs''] kvs \<and>
      valid_integer 0 (property kvs ''lowWaterMarkMs'') \<and> valid_integer 0 (property kvs ''targetBufferMs'') \<and>
      valid_integer 0 (property kvs ''maximumBufferMs''))"
| "validateBufferThresholds _ = False"

fun validateBufferStatusV1Wire :: "js_value \<Rightarrow> bool" where
  "validateBufferStatusV1Wire (JObject kvs) =
     (only_keys [''schemaVersion'', ''sessionId'', ''generationId'', ''contiguousPlayableDurationMs'', ''thresholds'',
        ''underrunCount'', ''state''] kvs \<and>
      valid_version_1 (property kvs ''schemaVersion'') \<and> valid_identifier_value (property kvs ''sessionId'') \<and>
      valid_identifier_value (property kvs ''generationId'') \<and>
      valid_integer 0 (property kvs ''contiguousPlayableDurationMs'') \<and>
      validateBufferThresholds (property kvs ''thresholds'') \<and>
      valid_integer 0 (property kvs ''underrunCount'') \<and>
      enum_member buffer_state_literal buffer_states (property kvs ''state'') \<noteq> None)"
| "validateBufferStatusV1Wire _ = False"

definition readBufferStatusVersion :: "js_value \<Rightarrow> buffer_status_code contract_failure + int" where
  "readBufferStatusVersion = readContractVersion BufferMalformed BufferUnsupportedVersion"

definition assertValidBufferStatus :: "buffer_status \<Rightarrow> buffer_status_code contract_failure + unit" where
  "assertValidBufferStatus st =
     (let t = thresholds st; d = contiguousPlayableDurationMs st in
      if targetBufferMs t < lowWaterMarkMs t \<or> maximumBufferMs t < targetBufferMs t then Inl (ContractFails InvalidThresholdOrder)
      else if maximumBufferMs t < d then Inl (ContractFails DurationExceedsMaximum)
      else if (bufferState st = BufferEmpty \<and> d \<noteq> 0) \<or> (bufferState st = Buffering \<and> targetBufferMs t \<le> d) \<or>
        (bufferState st = BufferReady \<and> d < targetBufferMs t) \<or> (bufferState st = BufferPlaying \<and> d = 0)
      then Inl (ContractFails InvalidStateDuration)
      else Inr ())"

definition createBufferThresholds :: "js_value \<Rightarrow> locator_failure + buffer_thresholds" where
  "createBufferThresholds v = (let t = objectFields v in
     bindE (createMilliseconds (property t ''lowWaterMarkMs'')) (\<lambda>l.
     bindE (createMilliseconds (property t ''targetBufferMs'')) (\<lambda>g.
     bindE (createMilliseconds (property t ''maximumBufferMs'')) (\<lambda>m.
     Inr \<lparr>lowWaterMarkMs = l, targetBufferMs = g, maximumBufferMs = m\<rparr>))))"

definition decodeBufferStatusV1 :: "js_value \<Rightarrow> buffer_status_code contract_failure + buffer_status" where
  "decodeBufferStatusV1 input =
     bindE (readBufferStatusVersion input) (\<lambda>version.
     if \<not> validateBufferStatusV1Wire input then Inl (ContractFails BufferMalformed)
     else let kvs = objectFields input in
       bindE (lift_primitive (createIdentifier (property kvs ''sessionId''))) (\<lambda>s.
       bindE (lift_primitive (createIdentifier (property kvs ''generationId''))) (\<lambda>g.
       bindE (lift_primitive (createMilliseconds (property kvs ''contiguousPlayableDurationMs''))) (\<lambda>d.
       bindE (lift_primitive (createBufferThresholds (property kvs ''thresholds''))) (\<lambda>t.
       bindE (lift_primitive (createCount (property kvs ''underrunCount''))) (\<lambda>u.
       case enum_member buffer_state_literal buffer_states (property kvs ''state'') of
         None \<Rightarrow> Inl (ContractFails BufferMalformed)
       | Some b \<Rightarrow>
           let st = \<lparr>statusSchemaVersion = version, statusSessionId = s, statusGenerationId = g,
             contiguousPlayableDurationMs = d, thresholds = t, underrunCount = u, bufferState = b\<rparr> in
           bindE (assertValidBufferStatus st) (\<lambda>_. Inr st)))))))"

section \<open>Capability reports\<close>

datatype capability_status = CapabilitySupported | CapabilityUnsupported | CapabilityUnknown

record capability_set =
  localSpeechGeneration :: capability_status
  streamingGeneration :: capability_status
  generationCancellation :: capability_status
  hardwareAcceleration :: capability_status
  cpuFallback :: capability_status

record capability_report =
  capabilitySchemaVersion :: int
  capabilities :: capability_set

fun capability_literal :: "capability_status \<Rightarrow> js_string" where
  "capability_literal CapabilitySupported = js ''supported''"
| "capability_literal CapabilityUnsupported = js ''unsupported''"
| "capability_literal CapabilityUnknown = js ''unknown''"

definition capability_of :: "js_value \<Rightarrow> capability_status option" where
  "capability_of = enum_member capability_literal [CapabilitySupported, CapabilityUnsupported, CapabilityUnknown]"

fun validateCapabilitySet :: "js_value \<Rightarrow> bool" where
  "validateCapabilitySet (JObject kvs) =
     (only_keys [''localSpeechGeneration'', ''streamingGeneration'', ''generationCancellation'', ''hardwareAcceleration'',
        ''cpuFallback''] kvs \<and>
      capability_of (property kvs ''localSpeechGeneration'') \<noteq> None \<and>
      capability_of (property kvs ''streamingGeneration'') \<noteq> None \<and>
      capability_of (property kvs ''generationCancellation'') \<noteq> None \<and>
      capability_of (property kvs ''hardwareAcceleration'') \<noteq> None \<and>
      capability_of (property kvs ''cpuFallback'') \<noteq> None)"
| "validateCapabilitySet _ = False"

fun validateCapabilityReportV1Wire :: "js_value \<Rightarrow> bool" where
  "validateCapabilityReportV1Wire (JObject kvs) =
     (only_keys [''schemaVersion'', ''capabilities''] kvs \<and> valid_version_1 (property kvs ''schemaVersion'') \<and>
      validateCapabilitySet (property kvs ''capabilities''))"
| "validateCapabilityReportV1Wire _ = False"

definition readCapabilityVersion :: "js_value \<Rightarrow> contract_code contract_failure + int" where
  "readCapabilityVersion = readContractVersion Malformed UnsupportedVersion"

text \<open>The validated members; the default only stands where the validator has already refused.\<close>

definition capability_set_of :: "js_value \<Rightarrow> capability_set" where
  "capability_set_of v = (let at_key = (\<lambda>k. case capability_of (property (objectFields v) k) of None \<Rightarrow> CapabilityUnknown | Some c \<Rightarrow> c) in
     \<lparr>localSpeechGeneration = at_key ''localSpeechGeneration'', streamingGeneration = at_key ''streamingGeneration'',
      generationCancellation = at_key ''generationCancellation'', hardwareAcceleration = at_key ''hardwareAcceleration'',
      cpuFallback = at_key ''cpuFallback''\<rparr>)"

definition decodeCapabilityReportV1 :: "js_value \<Rightarrow> contract_code contract_failure + capability_report" where
  "decodeCapabilityReportV1 input =
     bindE (readCapabilityVersion input) (\<lambda>version.
     if \<not> validateCapabilityReportV1Wire input then Inl (ContractFails Malformed)
     else Inr \<lparr>capabilitySchemaVersion = version, capabilities = capability_set_of (property (objectFields input) ''capabilities'')\<rparr>)"

section \<open>Narration segments\<close>

record narration_segment =
  segmentSchemaVersion :: int
  segmentId :: js_string
  segmentBookIdentity :: book_identity
  segmentSessionId :: js_string
  segmentGenerationId :: js_string
  segmentSequence :: int
  sourceRange :: locator_range
  segmentText :: js_string

fun nonempty_string :: "js_value \<Rightarrow> bool" where
  "nonempty_string (JString s) = (\<not> length (code_points s) < 1)"
| "nonempty_string _ = False"

fun validateNarrationSegmentV1Wire :: "js_value \<Rightarrow> bool" where
  "validateNarrationSegmentV1Wire (JObject kvs) =
     (only_keys [''schemaVersion'', ''segmentId'', ''bookIdentity'', ''sessionId'', ''generationId'', ''sequence'',
        ''sourceRange'', ''text''] kvs \<and>
      valid_version_1 (property kvs ''schemaVersion'') \<and> valid_identifier_value (property kvs ''segmentId'') \<and>
      validateBookIdentity (property kvs ''bookIdentity'') \<and> valid_identifier_value (property kvs ''sessionId'') \<and>
      valid_identifier_value (property kvs ''generationId'') \<and> valid_integer 0 (property kvs ''sequence'') \<and>
      validateLocatorRangeV1Wire (property kvs ''sourceRange'') \<and> nonempty_string (property kvs ''text''))"
| "validateNarrationSegmentV1Wire _ = False"

fun decodeSourceRange :: "js_value \<Rightarrow> contract_code contract_failure + locator_range" where
  "decodeSourceRange v = (case decodeLocatorRangeV1 v of
       Inl (LocatorContractError c) \<Rightarrow> Inl (ContractFails c)
     | Inl PrimitiveError \<Rightarrow> Inl PrimitiveEscapes
     | Inr r \<Rightarrow> Inr r)"

definition readSegmentVersion :: "js_value \<Rightarrow> contract_code contract_failure + int" where
  "readSegmentVersion = readContractVersion Malformed UnsupportedVersion"

definition decodeNarrationSegmentV1 :: "js_value \<Rightarrow> contract_code contract_failure + narration_segment" where
  "decodeNarrationSegmentV1 input =
     bindE (readSegmentVersion input) (\<lambda>version. let kvs = objectFields input in
     bindE (decodeSourceRange (property kvs ''sourceRange'')) (\<lambda>r.
     if \<not> validateNarrationSegmentV1Wire input then Inl (ContractFails Malformed)
     else
       bindE (lift_primitive (createBookIdentity (property kvs ''bookIdentity''))) (\<lambda>b.
       if \<not> bookIdentitiesMatch b (bookIdentity (rangeStart r)) then Inl (ContractFails Malformed)
       else
         bindE (lift_primitive (createIdentifier (property kvs ''segmentId''))) (\<lambda>i.
         bindE (lift_primitive (createIdentifier (property kvs ''sessionId''))) (\<lambda>s.
         bindE (lift_primitive (createIdentifier (property kvs ''generationId''))) (\<lambda>g.
         bindE (lift_primitive (createIndex (property kvs ''sequence''))) (\<lambda>q.
         Inr \<lparr>segmentSchemaVersion = version, segmentId = i, segmentBookIdentity = b, segmentSessionId = s,
           segmentGenerationId = g, segmentSequence = q, sourceRange = r, segmentText = stringValue (property kvs ''text'')\<rparr>)))))))"

section \<open>What the decoders promise\<close>

lemma createIdentifier_valid: "valid_identifier_value v \<Longrightarrow> createIdentifier v = Inr s \<Longrightarrow> valid_identifier_value (JString s)"
  using valid_identifier_value valid_identifier_string by fastforce

lemma createIdentifier_wire: "valid_identifier_value (JString s) \<Longrightarrow> createIdentifier (JString s) = Inr s"
  using valid_identifier_value by fastforce

lemma createBookIdentity_wf:
  assumes "validateBookIdentity v" and "createBookIdentity v = Inr b"
  shows "identity_wf b"
  using validateBookIdentity_parts [OF assms(1)] assms(2)
  by (auto simp: createBookIdentity_def Let_def bindE_Inr simp del: createSchemaVersion.simps createIdentifier.simps)

lemma createBookIdentity_wire:
  assumes "identity_wf b"
  shows "createBookIdentity (identity_wire b) = Inr b"
proof -
  have "createSchemaVersion (wire_int (schemeVersion b)) = Inr (schemeVersion b)"
    "createIdentifier (JString (identityValue b)) = Inr (identityValue b)"
    using assms by (simp_all add: identity_wf_def createSchemaVersion_wire valid_identifier [of 128] del: valid_string.simps createIdentifier.simps)
  then show ?thesis by (simp add: createBookIdentity_def identity_wire_def del: createSchemaVersion.simps createIdentifier.simps)
qed

lemmas contract_creators = createIdentifier_wire createBookIdentity_wire createIndex_wire createCount_def createMilliseconds_def

lemmas contract_wires = valid_wire_int valid_version_1_wire validate_identity_wire contract_creators

subsection \<open>Sessions\<close>

definition session_wf :: "reading_session \<Rightarrow> bool" where
  "session_wf s \<longleftrightarrow> sessionSchemaVersion s = 1 \<and> valid_identifier_value (JString (sessionId s)) \<and>
     identity_wf (sessionBookIdentity s) \<and> valid_identifier_value (JString (generationId s))"

definition session_wire :: "reading_session \<Rightarrow> js_value" where
  "session_wire s = JObject [(''schemaVersion'', wire_int (sessionSchemaVersion s)), (''sessionId'', JString (sessionId s)),
     (''bookIdentity'', identity_wire (sessionBookIdentity s)), (''generationId'', JString (generationId s))]"

interpretation sessions: versioned_contract decodeReadingSessionV1 session_wire session_wf
proof
  fix v s
  assume d: "decodeReadingSessionV1 v = Inr s"
  then have val: "validateReadingSessionV1Wire v" by (auto simp: decodeReadingSessionV1_def bindE_Inr split: if_splits)
  then obtain kvs where v: "v = JObject kvs" by (cases v) auto
  from d val v show "session_wf s"
    by (auto simp: decodeReadingSessionV1_def readSessionVersion_def bindE_Inr Let_def session_wf_def
        simp del: validateBookIdentity.simps createIdentifier.simps
        dest!: readContractVersion_Inr intro: createIdentifier_valid createBookIdentity_wf)
next
  fix s
  assume "session_wf s"
  then show "decodeReadingSessionV1 (session_wire s) = Inr s"
    by (simp add: decodeReadingSessionV1_def readSessionVersion_def session_wire_def session_wf_def readContractVersion_valid contract_wires
        del: validateBookIdentity.simps createIdentifier.simps valid_version_1.simps)
qed

subsection \<open>Buffer status\<close>

definition is_duration :: "int \<Rightarrow> bool" where
  "is_duration n \<longleftrightarrow> 0 \<le> n \<and> n \<le> MAX_SAFE_INTEGER"

definition status_consistent :: "buffer_status \<Rightarrow> bool" where
  "status_consistent s \<longleftrightarrow> lowWaterMarkMs (thresholds s) \<le> targetBufferMs (thresholds s) \<and>
     targetBufferMs (thresholds s) \<le> maximumBufferMs (thresholds s) \<and>
     contiguousPlayableDurationMs s \<le> maximumBufferMs (thresholds s) \<and>
     (case bufferState s of
        BufferEmpty \<Rightarrow> contiguousPlayableDurationMs s = 0
      | Buffering \<Rightarrow> contiguousPlayableDurationMs s < targetBufferMs (thresholds s)
      | BufferReady \<Rightarrow> targetBufferMs (thresholds s) \<le> contiguousPlayableDurationMs s
      | BufferPlaying \<Rightarrow> contiguousPlayableDurationMs s \<noteq> 0
      | BufferPaused \<Rightarrow> True)"

definition status_wf :: "buffer_status \<Rightarrow> bool" where
  "status_wf s \<longleftrightarrow> statusSchemaVersion s = 1 \<and> valid_identifier_value (JString (statusSessionId s)) \<and>
     valid_identifier_value (JString (statusGenerationId s)) \<and> is_duration (contiguousPlayableDurationMs s) \<and>
     is_duration (lowWaterMarkMs (thresholds s)) \<and> is_duration (targetBufferMs (thresholds s)) \<and>
     is_duration (maximumBufferMs (thresholds s)) \<and> is_duration (underrunCount s) \<and> status_consistent s"

lemma assertValidBufferStatus_Inr: "assertValidBufferStatus s = Inr u \<longleftrightarrow> status_consistent s"
  by (cases "bufferState s") (auto simp: assertValidBufferStatus_def status_consistent_def Let_def)

definition thresholds_wire :: "buffer_thresholds \<Rightarrow> js_value" where
  "thresholds_wire t = JObject [(''lowWaterMarkMs'', wire_int (lowWaterMarkMs t)), (''targetBufferMs'', wire_int (targetBufferMs t)),
     (''maximumBufferMs'', wire_int (maximumBufferMs t))]"

definition status_wire :: "buffer_status \<Rightarrow> js_value" where
  "status_wire s = JObject [(''schemaVersion'', wire_int (statusSchemaVersion s)), (''sessionId'', JString (statusSessionId s)),
     (''generationId'', JString (statusGenerationId s)), (''contiguousPlayableDurationMs'', wire_int (contiguousPlayableDurationMs s)),
     (''thresholds'', thresholds_wire (thresholds s)), (''underrunCount'', wire_int (underrunCount s)),
     (''state'', JString (buffer_state_literal (bufferState s)))]"

lemma buffer_state_member: "enum_member buffer_state_literal buffer_states (JString (buffer_state_literal b)) = Some b"
proof (rule enum_member_literal)
  show "inj_on buffer_state_literal (set buffer_states)" by (auto simp: inj_on_def buffer_states_def js_def)
  show "b \<in> set buffer_states" by (cases b) (simp_all add: buffer_states_def)
qed

lemma createBufferThresholds_Inr:
  "createBufferThresholds v = Inr t \<Longrightarrow> is_duration (lowWaterMarkMs t) \<and> is_duration (targetBufferMs t) \<and> is_duration (maximumBufferMs t)"
  by (auto simp: createBufferThresholds_def Let_def bindE_Inr createMilliseconds_def is_duration_def
      simp del: createIndex.simps dest!: createIndex_Inr)

lemma createBufferThresholds_wire:
  "is_duration (lowWaterMarkMs t) \<Longrightarrow> is_duration (targetBufferMs t) \<Longrightarrow> is_duration (maximumBufferMs t) \<Longrightarrow>
     createBufferThresholds (thresholds_wire t) = Inr t \<and> validateBufferThresholds (thresholds_wire t)"
  by (simp add: createBufferThresholds_def thresholds_wire_def is_duration_def contract_wires del: createIndex.simps)

interpretation buffer_statuses: versioned_contract decodeBufferStatusV1 status_wire status_wf
proof
  fix v s
  assume d: "decodeBufferStatusV1 v = Inr s"
  then have val: "validateBufferStatusV1Wire v" by (auto simp: decodeBufferStatusV1_def bindE_Inr split: if_splits)
  then obtain kvs where v: "v = JObject kvs" by (cases v) auto
  from d val v show "status_wf s"
    by (auto simp: decodeBufferStatusV1_def readBufferStatusVersion_def bindE_Inr Let_def status_wf_def assertValidBufferStatus_Inr
        is_duration_def createMilliseconds_def createCount_def
        simp del: validateBufferThresholds.simps createIdentifier.simps createIndex.simps
        dest!: readContractVersion_Inr createBufferThresholds_Inr createIndex_Inr split: option.splits)
      (blast intro: createIdentifier_valid)+
next
  fix s
  assume wf: "status_wf s"
  then have t: "createBufferThresholds (thresholds_wire (thresholds s)) = Inr (thresholds s)"
    "validateBufferThresholds (thresholds_wire (thresholds s))"
    using createBufferThresholds_wire by (simp_all add: status_wf_def)
  from wf show "decodeBufferStatusV1 (status_wire s) = Inr s"
    using assertValidBufferStatus_Inr [of s "()"] t
    by (cases s) (simp add: Let_def decodeBufferStatusV1_def readBufferStatusVersion_def status_wire_def status_wf_def readContractVersion_valid contract_wires
        buffer_state_member is_duration_def
        del: validateBufferThresholds.simps createIdentifier.simps createIndex.simps valid_version_1.simps)
qed

subsection \<open>Capability reports\<close>

definition capability_wire :: "capability_report \<Rightarrow> js_value" where
  "capability_wire r = JObject [(''schemaVersion'', wire_int (capabilitySchemaVersion r)),
     (''capabilities'', JObject [
        (''localSpeechGeneration'', JString (capability_literal (localSpeechGeneration (capabilities r)))),
        (''streamingGeneration'', JString (capability_literal (streamingGeneration (capabilities r)))),
        (''generationCancellation'', JString (capability_literal (generationCancellation (capabilities r)))),
        (''hardwareAcceleration'', JString (capability_literal (hardwareAcceleration (capabilities r)))),
        (''cpuFallback'', JString (capability_literal (cpuFallback (capabilities r))))])]"

definition capability_wf :: "capability_report \<Rightarrow> bool" where
  "capability_wf r \<longleftrightarrow> capabilitySchemaVersion r = 1"

lemma capability_member: "capability_of (JString (capability_literal c)) = Some c"
  unfolding capability_of_def
proof (rule enum_member_literal)
  show "inj_on capability_literal (set [CapabilitySupported, CapabilityUnsupported, CapabilityUnknown])"
    by (auto simp: inj_on_def js_def)
  show "c \<in> set [CapabilitySupported, CapabilityUnsupported, CapabilityUnknown]" by (cases c) simp_all
qed

interpretation capability_reports: versioned_contract decodeCapabilityReportV1 capability_wire capability_wf
proof
  fix v r
  assume "decodeCapabilityReportV1 v = Inr r"
  then show "capability_wf r"
    by (auto simp: decodeCapabilityReportV1_def readCapabilityVersion_def bindE_Inr capability_wf_def
        dest!: readContractVersion_Inr split: if_splits)
next
  fix r
  assume "capability_wf r"
  then show "decodeCapabilityReportV1 (capability_wire r) = Inr r"
    by (simp add: decodeCapabilityReportV1_def readCapabilityVersion_def capability_wire_def capability_wf_def readContractVersion_valid
        capability_set_of_def capability_member valid_version_1_wire del: valid_version_1.simps)
qed

subsection \<open>Narration segments\<close>

text \<open>A segment speaks of its own book: the range it was taken from lies in the book it names.\<close>

definition segment_wf :: "narration_segment \<Rightarrow> bool" where
  "segment_wf s \<longleftrightarrow> segmentSchemaVersion s = 1 \<and> valid_identifier_value (JString (segmentId s)) \<and>
     identity_wf (segmentBookIdentity s) \<and> valid_identifier_value (JString (segmentSessionId s)) \<and>
     valid_identifier_value (JString (segmentGenerationId s)) \<and> is_duration (segmentSequence s) \<and>
     range_wf (sourceRange s) \<and> segmentBookIdentity s = bookIdentity (rangeStart (sourceRange s)) \<and> segmentText s \<noteq> []"

definition segment_wire :: "narration_segment \<Rightarrow> js_value" where
  "segment_wire s = JObject [(''schemaVersion'', wire_int (segmentSchemaVersion s)), (''segmentId'', JString (segmentId s)),
     (''bookIdentity'', identity_wire (segmentBookIdentity s)), (''sessionId'', JString (segmentSessionId s)),
     (''generationId'', JString (segmentGenerationId s)), (''sequence'', wire_int (segmentSequence s)),
     (''sourceRange'', range_wire (sourceRange s)), (''text'', JString (segmentText s))]"

lemma decodeSourceRange_Inr: "decodeSourceRange v = Inr r \<longleftrightarrow> decodeLocatorRangeV1 v = Inr r"
  by (auto split: sum.splits locator_failure.splits)

lemma validate_range_wire: "range_wf r \<Longrightarrow> validateLocatorRangeV1Wire (range_wire r)"
  by (simp add: range_wf_def range_wire_def valid_version_1_wire validate_locator_wire
      del: valid_version_1.simps validateReadingLocatorV1Wire.simps)

lemma nonempty_string_iff: "nonempty_string (JString s) \<longleftrightarrow> s \<noteq> []"
  by (simp add: Suc_le_eq not_less)

interpretation segments: versioned_contract decodeNarrationSegmentV1 segment_wire segment_wf
proof
  fix v s
  assume d: "decodeNarrationSegmentV1 v = Inr s"
  then have val: "validateNarrationSegmentV1Wire v" by (auto simp: decodeNarrationSegmentV1_def bindE_Inr Let_def split: if_splits)
  then obtain kvs where v: "v = JObject kvs" by (cases v) auto
  have text_value: "stringValue (property kvs ''text'') \<noteq> []" using val v by (cases "property kvs ''text''") auto
  from d val v text_value show "segment_wf s"
    by (auto simp: decodeNarrationSegmentV1_def readSegmentVersion_def bindE_Inr Let_def segment_wf_def decodeSourceRange_Inr
        bookIdentitiesMatch_eq is_duration_def if_Inl_Inr
        simp del: decodeSourceRange.simps validateBookIdentity.simps createIdentifier.simps createIndex.simps validateLocatorRangeV1Wire.simps
          nonempty_string.simps
        dest!: readContractVersion_Inr createIndex_Inr decodeLocatorRangeV1_wf)
      (blast intro: createIdentifier_valid createBookIdentity_wf)+
next
  fix s
  assume wf: "segment_wf s"
  then have "decodeSourceRange (range_wire (sourceRange s)) = Inr (sourceRange s)" "validateLocatorRangeV1Wire (range_wire (sourceRange s))"
    using decodeLocatorRangeV1_wire validate_range_wire by (simp_all add: segment_wf_def decodeSourceRange_Inr del: decodeSourceRange.simps)
  moreover have "identity_wf (bookIdentity (rangeStart (sourceRange s)))" using wf unfolding segment_wf_def by metis
  ultimately show "decodeNarrationSegmentV1 (segment_wire s) = Inr s"
    using wf by (simp add: Let_def decodeNarrationSegmentV1_def readSegmentVersion_def segment_wire_def segment_wf_def readContractVersion_valid contract_wires
        bookIdentitiesMatch_eq is_duration_def nonempty_string_iff
        del: decodeSourceRange.simps validateBookIdentity.simps createIdentifier.simps createIndex.simps validateLocatorRangeV1Wire.simps
          nonempty_string.simps valid_version_1.simps)
qed

section \<open>Properties\<close>

text \<open>
  C37. The session contracts are canonical. Whatever a reading session, a buffer status, a capability report or a
  narration segment was decoded from, its wire form decodes to it again.
\<close>

theorem session_contracts_are_canonical:
  "(decodeReadingSessionV1 v = Inr s \<longrightarrow> decodeReadingSessionV1 (session_wire s) = Inr s) \<and>
   (decodeBufferStatusV1 v = Inr b \<longrightarrow> decodeBufferStatusV1 (status_wire b) = Inr b) \<and>
   (decodeCapabilityReportV1 v = Inr r \<longrightarrow> decodeCapabilityReportV1 (capability_wire r) = Inr r) \<and>
   (decodeNarrationSegmentV1 v = Inr n \<longrightarrow> decodeNarrationSegmentV1 (segment_wire n) = Inr n)"
  using sessions.canonical buffer_statuses.canonical capability_reports.canonical segments.canonical by blast

text \<open>
  C38. A decoded buffer status is consistent. Its thresholds are ordered, its duration is within the maximum, and
  its state agrees with the duration; and every such status is decoded from its wire form.
\<close>

theorem buffer_status_is_consistent:
  "(\<exists>v. decodeBufferStatusV1 v = Inr b) \<longleftrightarrow> statusSchemaVersion b = 1 \<and>
     valid_identifier_value (JString (statusSessionId b)) \<and> valid_identifier_value (JString (statusGenerationId b)) \<and>
     0 \<le> contiguousPlayableDurationMs b \<and> 0 \<le> lowWaterMarkMs (thresholds b) \<and>
     0 \<le> underrunCount b \<and> underrunCount b \<le> MAX_SAFE_INTEGER \<and> maximumBufferMs (thresholds b) \<le> MAX_SAFE_INTEGER \<and>
     status_consistent b"
proof -
  have "status_wf b \<longleftrightarrow> statusSchemaVersion b = 1 \<and>
     valid_identifier_value (JString (statusSessionId b)) \<and> valid_identifier_value (JString (statusGenerationId b)) \<and>
     0 \<le> contiguousPlayableDurationMs b \<and> 0 \<le> lowWaterMarkMs (thresholds b) \<and>
     0 \<le> underrunCount b \<and> underrunCount b \<le> MAX_SAFE_INTEGER \<and> maximumBufferMs (thresholds b) \<le> MAX_SAFE_INTEGER \<and>
     status_consistent b"
    by (auto simp: status_wf_def is_duration_def status_consistent_def)
  with buffer_statuses.decodable_iff_wf show ?thesis by blast
qed

theorem session_contracts_are_canonical_witness:
  "decodeCapabilityReportV1 (capability_wire \<lparr>capabilitySchemaVersion = 1, capabilities =
     \<lparr>localSpeechGeneration = CapabilitySupported, streamingGeneration = CapabilityUnknown, generationCancellation = CapabilitySupported,
      hardwareAcceleration = CapabilityUnsupported, cpuFallback = CapabilitySupported\<rparr>\<rparr>) = Inr \<lparr>capabilitySchemaVersion = 1, capabilities =
     \<lparr>localSpeechGeneration = CapabilitySupported, streamingGeneration = CapabilityUnknown, generationCancellation = CapabilitySupported,
      hardwareAcceleration = CapabilityUnsupported, cpuFallback = CapabilitySupported\<rparr>\<rparr>"
  using session_contracts_are_canonical [THEN conjunct2, THEN conjunct2, THEN conjunct1] capability_reports.wire_decodes
  by (simp add: capability_wf_def)

end
