(* ===== verification/Tts_Protocol.thy ===== *)
theory Tts_Protocol
  imports Audio_Frame Session_Contracts Operational_Error
begin

text \<open>
  packages/shared/src/contracts/tts-protocol-control.ts with its generated validators: the control messages that
  the application and the local speech service exchange. A message is one JSON object; the raw audio is
  carried next to it and is not modelled.
\<close>

section \<open>Reasons and states\<close>

datatype protocol_reason =
    ReasonMalformedFrame | ReasonUnsupportedProtocolVersion | ReasonUnknownRecordKind | ReasonInvalidFlags
  | ReasonEmptyPayload | ReasonOverLimit | ReasonInvalidUtf8 | ReasonMalformedJson | ReasonUnknownMessageKind
  | ReasonUnsupportedSchemaVersion | ReasonInvalidMessage | ReasonInvalidState | ReasonIdentityMismatch
  | ReasonDuplicateIdentity | ReasonSequenceGap | ReasonFormatMismatch | ReasonBusy | ReasonEngineFailure
  | ReasonEngineTimeout | ReasonOperationCancelled | ReasonResourceExhausted

fun reason_literal :: "protocol_reason \<Rightarrow> js_string" where
  "reason_literal ReasonMalformedFrame = js ''malformed-frame''"
| "reason_literal ReasonUnsupportedProtocolVersion = js ''unsupported-protocol-version''"
| "reason_literal ReasonUnknownRecordKind = js ''unknown-record-kind''"
| "reason_literal ReasonInvalidFlags = js ''invalid-flags''"
| "reason_literal ReasonEmptyPayload = js ''empty-payload''"
| "reason_literal ReasonOverLimit = js ''over-limit''"
| "reason_literal ReasonInvalidUtf8 = js ''invalid-utf8''"
| "reason_literal ReasonMalformedJson = js ''malformed-json''"
| "reason_literal ReasonUnknownMessageKind = js ''unknown-message-kind''"
| "reason_literal ReasonUnsupportedSchemaVersion = js ''unsupported-schema-version''"
| "reason_literal ReasonInvalidMessage = js ''invalid-message''"
| "reason_literal ReasonInvalidState = js ''invalid-state''"
| "reason_literal ReasonIdentityMismatch = js ''identity-mismatch''"
| "reason_literal ReasonDuplicateIdentity = js ''duplicate-identity''"
| "reason_literal ReasonSequenceGap = js ''sequence-gap''"
| "reason_literal ReasonFormatMismatch = js ''format-mismatch''"
| "reason_literal ReasonBusy = js ''busy''"
| "reason_literal ReasonEngineFailure = js ''engine-failure''"
| "reason_literal ReasonEngineTimeout = js ''engine-timeout''"
| "reason_literal ReasonOperationCancelled = js ''operation-cancelled''"
| "reason_literal ReasonResourceExhausted = js ''resource-exhausted''"

definition protocol_reasons :: "protocol_reason list" where
  "protocol_reasons = [ReasonMalformedFrame, ReasonUnsupportedProtocolVersion, ReasonUnknownRecordKind, ReasonInvalidFlags,
     ReasonEmptyPayload, ReasonOverLimit, ReasonInvalidUtf8, ReasonMalformedJson, ReasonUnknownMessageKind,
     ReasonUnsupportedSchemaVersion, ReasonInvalidMessage, ReasonInvalidState, ReasonIdentityMismatch, ReasonDuplicateIdentity,
     ReasonSequenceGap, ReasonFormatMismatch, ReasonBusy, ReasonEngineFailure, ReasonEngineTimeout, ReasonOperationCancelled,
     ReasonResourceExhausted]"

definition reason_of :: "js_value \<Rightarrow> protocol_reason option" where
  "reason_of = enum_member reason_literal protocol_reasons"

definition service_states :: "js_string list" where
  "service_states = [js ''starting'', js ''handshaking'', js ''unloaded'', js ''loading'', js ''warming'', js ''ready'',
     js ''generating'', js ''cancelling'', js ''stopping'', js ''stopped'', js ''failed'']"

fun expectedOperationalErrorCode :: "protocol_reason \<Rightarrow> operational_code" where
  "expectedOperationalErrorCode ReasonUnsupportedProtocolVersion = UnsupportedInput"
| "expectedOperationalErrorCode ReasonUnsupportedSchemaVersion = UnsupportedInput"
| "expectedOperationalErrorCode ReasonOperationCancelled = OperationCancelled"
| "expectedOperationalErrorCode ReasonBusy = OperationalResourceExhausted"
| "expectedOperationalErrorCode ReasonResourceExhausted = OperationalResourceExhausted"
| "expectedOperationalErrorCode ReasonEngineFailure = OperationalInternalFailure"
| "expectedOperationalErrorCode ReasonEngineTimeout = OperationalInternalFailure"
| "expectedOperationalErrorCode ReasonFormatMismatch = OperationalInternalFailure"
| "expectedOperationalErrorCode ReasonSequenceGap = OperationalInternalFailure"
| "expectedOperationalErrorCode ReasonMalformedFrame = InvalidInput"
| "expectedOperationalErrorCode ReasonUnknownRecordKind = InvalidInput"
| "expectedOperationalErrorCode ReasonInvalidFlags = InvalidInput"
| "expectedOperationalErrorCode ReasonEmptyPayload = InvalidInput"
| "expectedOperationalErrorCode ReasonOverLimit = InvalidInput"
| "expectedOperationalErrorCode ReasonInvalidUtf8 = InvalidInput"
| "expectedOperationalErrorCode ReasonMalformedJson = InvalidInput"
| "expectedOperationalErrorCode ReasonUnknownMessageKind = InvalidInput"
| "expectedOperationalErrorCode ReasonInvalidMessage = InvalidInput"
| "expectedOperationalErrorCode ReasonInvalidState = InvalidInput"
| "expectedOperationalErrorCode ReasonIdentityMismatch = InvalidInput"
| "expectedOperationalErrorCode ReasonDuplicateIdentity = InvalidInput"

section \<open>Validators\<close>

text \<open>The part all messages share: no further keys, the two versions and the kind.\<close>

definition valid_message :: "string list \<Rightarrow> string \<Rightarrow> ((string \<times> js_value) list \<Rightarrow> bool) \<Rightarrow> js_value \<Rightarrow> bool" where
  "valid_message ks kind rest v = (case v of
       JObject kvs \<Rightarrow> only_keys ([''schemaVersion'', ''protocolVersion'', ''kind''] @ ks) kvs \<and>
         valid_version_1 (property kvs ''schemaVersion'') \<and> is_number 1 (property kvs ''protocolVersion'') \<and>
         property kvs ''kind'' = JString (js kind) \<and> rest kvs
     | _ \<Rightarrow> False)"

fun validateWorkIdentity :: "js_value \<Rightarrow> bool" where
  "validateWorkIdentity (JObject kvs) =
     (only_keys [''requestId'', ''sessionId'', ''generationId'', ''segmentId''] kvs \<and>
      valid_identifier_value (property kvs ''requestId'') \<and> valid_identifier_value (property kvs ''sessionId'') \<and>
      valid_identifier_value (property kvs ''generationId'') \<and> valid_identifier_value (property kvs ''segmentId''))"
| "validateWorkIdentity _ = False"

definition has_instance :: "(string \<times> js_value) list \<Rightarrow> bool" where
  "has_instance kvs \<longleftrightarrow> valid_identifier_value (property kvs ''serviceInstanceId'')"

definition validateHandshake :: "js_value \<Rightarrow> bool" where
  "validateHandshake = valid_message [''serviceInstanceId''] ''handshake'' has_instance"

definition validateLoad :: "js_value \<Rightarrow> bool" where
  "validateLoad = valid_message [''serviceInstanceId''] ''load'' has_instance"

definition validateWarm :: "js_value \<Rightarrow> bool" where
  "validateWarm = valid_message [''serviceInstanceId''] ''warm'' has_instance"

definition validateSynthesize :: "js_value \<Rightarrow> bool" where
  "validateSynthesize = valid_message [''serviceInstanceId'', ''requestId'', ''segment''] ''synthesize'' (\<lambda>kvs. has_instance kvs \<and>
     valid_identifier_value (property kvs ''requestId'') \<and>
     validateNarrationSegmentV1Wire (property kvs ''segment'') \<and>
     valid_string 640 (\<lambda>cs. True) (property (objectFields (property kvs ''segment'')) ''text''))"

definition validateCancel :: "js_value \<Rightarrow> bool" where
  "validateCancel = valid_message [''serviceInstanceId'', ''workIdentity''] ''cancel'' (\<lambda>kvs. has_instance kvs \<and>
     validateWorkIdentity (property kvs ''workIdentity''))"

definition validateHealth :: "js_value \<Rightarrow> bool" where
  "validateHealth = valid_message [''serviceInstanceId''] ''health'' has_instance"

definition validateShutdown :: "js_value \<Rightarrow> bool" where
  "validateShutdown = valid_message [''serviceInstanceId''] ''shutdown'' has_instance"

definition validateHandshakeAccepted :: "js_value \<Rightarrow> bool" where
  "validateHandshakeAccepted = valid_message [''serviceInstanceId''] ''handshakeAccepted'' has_instance"

definition validateState :: "js_value \<Rightarrow> bool" where
  "validateState = valid_message [''serviceInstanceId'', ''state''] ''state'' (\<lambda>kvs. has_instance kvs \<and>
     property kvs ''state'' \<in> JString ` set service_states)"

definition validateCapabilities :: "js_value \<Rightarrow> bool" where
  "validateCapabilities = valid_message [''serviceInstanceId'', ''report'', ''cancellationContainment''] ''capabilities'' (\<lambda>kvs.
     has_instance kvs \<and> validateCapabilityReportV1Wire (property kvs ''report'') \<and>
     property kvs ''cancellationContainment'' = JString (js ''identity-invalidation-then-worker-termination''))"

text \<open>The one frame a service answers with: the first and last of its segment, mono, at most twenty seconds.\<close>

definition valid_service_frame :: "js_value \<Rightarrow> bool" where
  "valid_service_frame v \<longleftrightarrow> validateAudioFrameV1Wire v \<and> (let f = objectFields v in
     is_number 0 (property f ''sequence'') \<and> is_number 24000 (property f ''sampleRateHz'') \<and>
     at_least 1 (property f ''sampleCountSamples'') \<and> intValue (property f ''sampleCountSamples'') \<le> 480000 \<and>
     is_number 1 (property f ''channelCount'') \<and> property f ''endOfSegment'' = JBool True)"

definition valid_payload_bytes :: "js_value \<Rightarrow> bool" where
  "valid_payload_bytes v \<longleftrightarrow> at_least 4 v \<and> intValue v \<le> 1920000 \<and> 4 dvd intValue v"

definition validateAudioMetadata :: "js_value \<Rightarrow> bool" where
  "validateAudioMetadata = valid_message [''serviceInstanceId'', ''requestId'', ''frame'', ''sampleFormat'', ''payloadBytes'']
     ''audioMetadata'' (\<lambda>kvs. has_instance kvs \<and> valid_identifier_value (property kvs ''requestId'') \<and>
     valid_service_frame (property kvs ''frame'') \<and> property kvs ''sampleFormat'' = JString (js ''float32-le'') \<and>
     valid_payload_bytes (property kvs ''payloadBytes''))"

definition validateCompleted :: "js_value \<Rightarrow> bool" where
  "validateCompleted = valid_message [''serviceInstanceId'', ''workIdentity''] ''completed'' (\<lambda>kvs. has_instance kvs \<and>
     validateWorkIdentity (property kvs ''workIdentity''))"

definition validateCancelled :: "js_value \<Rightarrow> bool" where
  "validateCancelled = valid_message [''serviceInstanceId'', ''workIdentity''] ''cancelled'' (\<lambda>kvs. has_instance kvs \<and>
     validateWorkIdentity (property kvs ''workIdentity''))"

definition validateError :: "js_value \<Rightarrow> bool" where
  "validateError = valid_message [''serviceInstanceId'', ''reason'', ''error'', ''workIdentity''] ''error'' (\<lambda>kvs. has_instance kvs \<and>
     reason_of (property kvs ''reason'') \<noteq> None \<and> validateOperationalErrorV1Wire (property kvs ''error'') \<and>
     (property kvs ''workIdentity'' = JUndefined \<or> validateWorkIdentity (property kvs ''workIdentity'')))"

definition validateProtocolRejected :: "js_value \<Rightarrow> bool" where
  "validateProtocolRejected = valid_message [''reason''] ''protocolRejected'' (\<lambda>kvs. reason_of (property kvs ''reason'') \<noteq> None)"

definition message_validators :: "(string \<times> (js_value \<Rightarrow> bool)) list" where
  "message_validators = [(''handshake'', validateHandshake), (''load'', validateLoad), (''warm'', validateWarm),
     (''synthesize'', validateSynthesize), (''cancel'', validateCancel), (''health'', validateHealth),
     (''shutdown'', validateShutdown), (''handshakeAccepted'', validateHandshakeAccepted), (''state'', validateState),
     (''capabilities'', validateCapabilities), (''audioMetadata'', validateAudioMetadata), (''completed'', validateCompleted),
     (''cancelled'', validateCancelled), (''error'', validateError), (''protocolRejected'', validateProtocolRejected)]"

text \<open>\<open>oneOf\<close>: exactly one of the schemas matches.\<close>

definition validateTtsProtocolControlV1Wire :: "js_value \<Rightarrow> bool" where
  "validateTtsProtocolControlV1Wire v \<longleftrightarrow> length (filter (\<lambda>(k, valid). valid v) message_validators) = 1"

section \<open>Decoding\<close>

definition MAX_NARRATION_UTF8_BYTES :: nat where
  "MAX_NARRATION_UTF8_BYTES = 2048"

definition utf8_byteLength :: "js_string \<Rightarrow> nat" where
  "utf8_byteLength s = sum_list (map utf8_length (code_points s))"

fun is_safe_integer_value :: "js_value \<Rightarrow> bool" where
  "is_safe_integer_value (JNumber x) = is_safe_integer_num x"
| "is_safe_integer_value _ = False"

type_synonym 'a decoded = "contract_code contract_failure + 'a"

definition assertSupportedVersions :: "js_value \<Rightarrow> unit decoded" where
  "assertSupportedVersions input = (case input of
       JObject r \<Rightarrow>
         if \<not> is_safe_integer_value (property r ''schemaVersion'') \<or> \<not> is_safe_integer_value (property r ''protocolVersion'')
         then Inl (ContractFails Malformed)
         else if \<not> is_number 1 (property r ''schemaVersion'') \<or> \<not> is_number 1 (property r ''protocolVersion'')
         then Inl (ContractFails locator_error_code.UnsupportedVersion)
         else Inr ()
     | _ \<Rightarrow> Inl (ContractFails Malformed))"

text \<open>\<open>catch (error) { if (error instanceof ...ContractError) return malformed(); throw error; }\<close>\<close>

fun asMalformed :: "'a decoded \<Rightarrow> 'a decoded" where
  "asMalformed (Inl (ContractFails c)) = Inl (ContractFails Malformed)"
| "asMalformed m = m"

definition validateSemanticRelationships :: "js_value \<Rightarrow> unit decoded" where
  "validateSemanticRelationships input = (let m = objectFields input in
     if property m ''kind'' = JString (js ''synthesize'') then
       bindE (asMalformed (decodeNarrationSegmentV1 (property m ''segment''))) (\<lambda>_.
       if MAX_NARRATION_UTF8_BYTES < utf8_byteLength (stringValue (property (objectFields (property m ''segment'')) ''text''))
       then Inl (ContractFails Malformed) else Inr ())
     else if property m ''kind'' = JString (js ''audioMetadata'') then
       bindE (asMalformed (decodeAudioFrameV1 (property m ''frame''))) (\<lambda>f.
       if frameSequence f \<noteq> 0 \<or> sampleRateHz f \<noteq> 24000 \<or> channelCount f \<noteq> 1 \<or> \<not> endOfSegment f \<or>
         intValue (property m ''payloadBytes'') \<noteq> sampleCountSamples f * 4
       then Inl (ContractFails Malformed) else Inr ())
     else if property m ''kind'' = JString (js ''error'') then
       bindE (asMalformed (decodeOperationalErrorV1 (property m ''error''))) (\<lambda>e.
       case reason_of (property m ''reason'') of
         None \<Rightarrow> Inl (ContractFails Malformed)
       | Some reason \<Rightarrow> if operationalErrorCode e \<noteq> expectedOperationalErrorCode reason
           then Inl (ContractFails Malformed) else Inr ())
     else Inr ())"

text \<open>\<open>freezeJsonValue\<close> rebuilds the value it is given.\<close>

definition decodeTtsProtocolControlV1 :: "js_value \<Rightarrow> js_value decoded" where
  "decodeTtsProtocolControlV1 input =
     bindE (assertSupportedVersions input) (\<lambda>_.
     if \<not> validateTtsProtocolControlV1Wire input then Inl (ContractFails Malformed)
     else bindE (validateSemanticRelationships input) (\<lambda>_. Inr input))"

section \<open>One kind per message\<close>

lemma js_eq_iff [simp]: "js a = js b \<longleftrightarrow> a = b"
proof -
  have "inj (of_char :: char \<Rightarrow> 16 word)"
  proof (rule injI)
    fix c d :: char
    assume e: "of_char c = (of_char d :: 16 word)"
    have "of_nat (of_char c) = (of_nat (of_char d) :: 16 word)" unfolding of_nat_of_char by (rule e)
    then have "take_bit 16 (of_char c :: nat) = take_bit 16 (of_char d :: nat)" by (simp only: word_of_nat_eq_iff) simp
    moreover have small: "take_bit 16 (of_char x :: nat) = of_char x" for x :: char
      by (rule take_bit_nat_eq_self, rule less_trans [OF nat_of_char_less_256]) simp
    ultimately show "c = d" unfolding small by simp
  qed
  then show ?thesis by (simp add: js_def inj_map_eq_map)
qed

lemma js_Nil_iff [simp]: "js s = [] \<longleftrightarrow> s = []"
  by (simp add: js_def)

lemma valid_message_kind: "valid_message ks k rest v \<Longrightarrow> property (objectFields v) ''kind'' = JString (js k)"
  by (cases v) (simp_all add: valid_message_def)

lemma validator_kind:
  assumes "(k, valid) \<in> set message_validators" and "valid v"
  shows "property (objectFields v) ''kind'' = JString (js k)"
  using assms
  by (auto simp: message_validators_def validateHandshake_def validateLoad_def validateWarm_def validateSynthesize_def validateCancel_def
      validateHealth_def validateShutdown_def validateHandshakeAccepted_def validateState_def validateCapabilities_def
      validateAudioMetadata_def validateCompleted_def validateCancelled_def validateError_def validateProtocolRejected_def
      dest!: valid_message_kind)

lemma exclusive_one_of:
  assumes "distinct (map fst fs)" and "\<And>k f. (k, f) \<in> set fs \<Longrightarrow> f v \<Longrightarrow> k = key"
  shows "length (filter (\<lambda>(k, f). f v) fs) = (if \<exists>(k, f) \<in> set fs. f v then 1 else 0)"
  using assms
proof (induction fs)
  case (Cons p fs)
  obtain k f where p: "p = (k, f)" by (cases p)
  show ?case
  proof (cases "f v")
    case True
    then have "\<not> g v" if "(l, g) \<in> set fs" for l g
      using Cons.prems(1) Cons.prems(2) [of k f] Cons.prems(2) [of l g] that p by force
    then have "filter (\<lambda>(k, f). f v) fs = []" by (auto simp: filter_empty_conv)
    with True p show ?thesis by simp
  next
    case False
    with p have "filter (\<lambda>(k, f). f v) (p # fs) = filter (\<lambda>(k, f). f v) fs" by simp
    moreover have "(\<exists>(k, f) \<in> set (p # fs). f v) \<longleftrightarrow> (\<exists>(k, f) \<in> set fs. f v)" using False p by auto
    moreover note Cons.IH
    ultimately show ?thesis using Cons.prems by (metis (no_types, lifting) distinct.simps(2) list.set_intros(2) list.simps(9))
  qed
qed simp

lemma one_of_validators:
  "validateTtsProtocolControlV1Wire v \<longleftrightarrow> (\<exists>(k, valid) \<in> set message_validators. valid v)"
proof -
  have "distinct (map fst message_validators)" by (simp add: message_validators_def)
  moreover have "k = (SOME k. property (objectFields v) ''kind'' = JString (js k))" if "(k, f) \<in> set message_validators" "f v" for k f
    using validator_kind [OF that] by simp
  ultimately show ?thesis unfolding validateTtsProtocolControlV1Wire_def by (subst exclusive_one_of) auto
qed

lemma validated_kind:
  assumes "validateTtsProtocolControlV1Wire v" and "property (objectFields v) ''kind'' = JString (js k)" and "(k, valid) \<in> set message_validators"
  shows "valid v"
proof -
  from assms(1) obtain l f where f: "(l, f) \<in> set message_validators" "f v" by (auto simp: one_of_validators)
  with validator_kind [OF f] assms(2) have "(k, f) \<in> set message_validators" by simp
  moreover have "distinct (map fst message_validators)" by (simp add: message_validators_def)
  ultimately have "f = valid" using assms(3) by (metis eq_key_imp_eq_value)
  with f(2) show ?thesis by simp
qed

section \<open>Decoded messages\<close>

lemma decoded_message:
  "decodeTtsProtocolControlV1 v = Inr w \<longleftrightarrow> w = v \<and> assertSupportedVersions v = Inr () \<and> validateTtsProtocolControlV1Wire v \<and>
     validateSemanticRelationships v = Inr ()"
  by (auto simp: decodeTtsProtocolControlV1_def bindE_Inr)

lemma asMalformed_Inr [simp]: "asMalformed m = Inr x \<longleftrightarrow> m = Inr x"
  by (cases m rule: asMalformed.cases) auto

text \<open>
  C39. A decoded message means what it says. It is handed on unchanged and is of exactly one kind. An audio
  message carries the one, first and last, mono frame of its segment, and as many bytes of payload as
  that frame has samples; a request to speak carries a well-formed segment within both limits of its text;
  an error carries the error its reason stands for.
\<close>

theorem decoded_message_means_what_it_says:
  assumes "decodeTtsProtocolControlV1 v = Inr w"
  shows "w = v \<and> (\<exists>!k. k \<in> fst ` set message_validators \<and> property (objectFields v) ''kind'' = JString (js k)) \<and>
    (property (objectFields v) ''kind'' = JString (js ''audioMetadata'') \<longrightarrow>
       (\<exists>f. decodeAudioFrameV1 (property (objectFields v) ''frame'') = Inr f \<and> frameSequence f = 0 \<and> endOfSegment f \<and>
          sampleRateHz f = 24000 \<and> channelCount f = 1 \<and> sampleCountSamples f \<le> 480000 \<and>
          intValue (property (objectFields v) ''payloadBytes'') = 4 * sampleCountSamples f)) \<and>
    (property (objectFields v) ''kind'' = JString (js ''synthesize'') \<longrightarrow>
       (\<exists>s. decodeNarrationSegmentV1 (property (objectFields v) ''segment'') = Inr s \<and>
          length (code_points (segmentText s)) \<le> 640 \<and> utf8_byteLength (segmentText s) \<le> 2048)) \<and>
    (property (objectFields v) ''kind'' = JString (js ''error'') \<longrightarrow>
       (\<exists>reason. reason_of (property (objectFields v) ''reason'') = Some reason \<and>
          decodeOperationalErrorV1 (property (objectFields v) ''error'') = Inr (createOperationalErrorV1 (expectedOperationalErrorCode reason))))"
proof -
  let ?m = "objectFields v"
  have v: "validateTtsProtocolControlV1Wire v" "validateSemanticRelationships v = Inr ()" "w = v" using assms by (simp_all add: decoded_message)
  from v(1) obtain l f where f: "(l, f) \<in> set message_validators" "f v" by (auto simp: one_of_validators)
  note kind = validator_kind [OF f]
  have one: "\<exists>!k. k \<in> fst ` set message_validators \<and> property ?m ''kind'' = JString (js k)"
    using f(1) kind by (intro ex1I [of _ l]) (auto simp: image_iff intro: bexI [of _ "(l, f)"])
  have audio: "\<exists>f. decodeAudioFrameV1 (property ?m ''frame'') = Inr f \<and> frameSequence f = 0 \<and> endOfSegment f \<and>
      sampleRateHz f = 24000 \<and> channelCount f = 1 \<and> sampleCountSamples f \<le> 480000 \<and>
      intValue (property ?m ''payloadBytes'') = 4 * sampleCountSamples f"
    if k: "property ?m ''kind'' = JString (js ''audioMetadata'')"
  proof -
    from v(2) k obtain f where d: "decodeAudioFrameV1 (property ?m ''frame'') = Inr f" "frameSequence f = 0" "sampleRateHz f = 24000"
      "channelCount f = 1" "endOfSegment f" "intValue (property ?m ''payloadBytes'') = sampleCountSamples f * 4"
      by (auto simp: validateSemanticRelationships_def Let_def bindE_Inr split: if_splits)
    have "validateAudioMetadata v" by (rule validated_kind [OF v(1) k]) (simp add: message_validators_def)
    then have "valid_service_frame (property ?m ''frame'')" by (cases v) (simp_all add: validateAudioMetadata_def valid_message_def)
    then have "sampleCountSamples f \<le> 480000" using d(1) by (auto simp: valid_service_frame_def decodeAudioFrame_Inr frame_of_def Let_def)
    with d show ?thesis by (intro exI [of _ f]) simp
  qed
  have speech: "\<exists>s. decodeNarrationSegmentV1 (property ?m ''segment'') = Inr s \<and>
      length (code_points (segmentText s)) \<le> 640 \<and> utf8_byteLength (segmentText s) \<le> 2048"
    if k: "property ?m ''kind'' = JString (js ''synthesize'')"
  proof -
    from v(2) k obtain s where d: "decodeNarrationSegmentV1 (property ?m ''segment'') = Inr s"
      "utf8_byteLength (stringValue (property (objectFields (property ?m ''segment'')) ''text'')) \<le> 2048"
      by (auto simp: validateSemanticRelationships_def Let_def bindE_Inr MAX_NARRATION_UTF8_BYTES_def split: if_splits)
    have spoken: "segmentText s = stringValue (property (objectFields (property ?m ''segment'')) ''text'')"
      using d(1) by (auto simp: decodeNarrationSegmentV1_def Let_def bindE_Inr if_Inl_Inr)
    have "validateSynthesize v" by (rule validated_kind [OF v(1) k]) (simp add: message_validators_def)
    then have "valid_string 640 (\<lambda>cs. True) (property (objectFields (property ?m ''segment'')) ''text'')"
      by (cases v) (simp_all add: validateSynthesize_def valid_message_def)
    then have "length (code_points (segmentText s)) \<le> 640"
      unfolding spoken by (cases "property (objectFields (property ?m ''segment'')) ''text''") (simp_all add: Let_def)
    with d spoken show ?thesis by auto
  qed
  have failure: "\<exists>reason. reason_of (property ?m ''reason'') = Some reason \<and>
      decodeOperationalErrorV1 (property ?m ''error'') = Inr (createOperationalErrorV1 (expectedOperationalErrorCode reason))"
    if k: "property ?m ''kind'' = JString (js ''error'')"
  proof -
    from v(2) k obtain e reason where d: "decodeOperationalErrorV1 (property ?m ''error'') = Inr e"
      "reason_of (property ?m ''reason'') = Some reason" "operationalErrorCode e = expectedOperationalErrorCode reason"
      by (auto simp: validateSemanticRelationships_def Let_def bindE_Inr split: if_splits option.splits)
    with operational_errors.decoded_wf [OF d(1)] show ?thesis by (simp add: operational_wf_def)
  qed
  from v(3) one audio speech failure show ?thesis by blast
qed

text \<open>
  C40. How decoding fails. A value that does not decode is refused with the error of the contract, except in two
  places: a validated audio message whose frame has the sequence -0, which the schema takes for 0, and a
  validated request to speak whose segment does the same, let the \<open>RangeError\<close> of a primitive escape.
\<close>

theorem message_failures:
  "decodeTtsProtocolControlV1 v = Inl PrimitiveEscapes \<longleftrightarrow>
     assertSupportedVersions v = Inr () \<and> validateTtsProtocolControlV1Wire v \<and>
     (property (objectFields v) ''kind'' = JString (js ''audioMetadata'') \<and>
        property (objectFields (property (objectFields v) ''frame'')) ''sequence'' = JNumber NegZero \<or>
      property (objectFields v) ''kind'' = JString (js ''synthesize'') \<and>
        decodeNarrationSegmentV1 (property (objectFields v) ''segment'') = Inl PrimitiveEscapes)"
proof -
  let ?m = "objectFields v"
  have versions: "assertSupportedVersions v \<noteq> Inl PrimitiveEscapes" by (simp add: assertSupportedVersions_def split: js_value.split)
  have caught: "asMalformed m = Inl PrimitiveEscapes \<longleftrightarrow> m = Inl PrimitiveEscapes" for m :: "'a decoded"
    by (cases m rule: asMalformed.cases) auto
  have operational: "decodeOperationalErrorV1 x \<noteq> Inl PrimitiveEscapes" for x
    by (auto simp: decodeOperationalErrorV1_def bindE_Inl Let_def readOperationalVersion_def dest!: readContractVersion_Inl split: option.splits)
  have audio: "decodeAudioFrameV1 (property ?m ''frame'') = Inl PrimitiveEscapes \<longleftrightarrow>
      property (objectFields (property ?m ''frame'')) ''sequence'' = JNumber NegZero"
    if "validateTtsProtocolControlV1Wire v" "property ?m ''kind'' = JString (js ''audioMetadata'')"
  proof -
    have "validateAudioMetadata v" by (rule validated_kind [OF that]) (simp add: message_validators_def)
    then have "valid_service_frame (property ?m ''frame'')" by (cases v) (simp_all add: validateAudioMetadata_def valid_message_def)
    then have "validateAudioFrameV1Wire (property ?m ''frame'')" by (simp add: valid_service_frame_def)
    then obtain kvs where "property ?m ''frame'' = JObject kvs" "validateAudioFrameV1Wire (JObject kvs)" by (cases "property ?m ''frame''") auto
    then show ?thesis by (simp add: validated_frame_decodes del: validateAudioFrameV1Wire.simps)
  qed
  have "validateSemanticRelationships v = Inl PrimitiveEscapes \<longleftrightarrow>
      (property ?m ''kind'' = JString (js ''audioMetadata'') \<and> decodeAudioFrameV1 (property ?m ''frame'') = Inl PrimitiveEscapes \<or>
       property ?m ''kind'' = JString (js ''synthesize'') \<and> decodeNarrationSegmentV1 (property ?m ''segment'') = Inl PrimitiveEscapes)"
    by (auto simp: validateSemanticRelationships_def Let_def bindE_Inl caught operational split: option.splits)
  with versions audio show ?thesis
    by (auto simp: decodeTtsProtocolControlV1_def bindE_Inl)
qed

section \<open>Messages to try them on\<close>

definition message :: "string \<Rightarrow> (string \<times> js_value) list \<Rightarrow> js_value" where
  "message k kvs = JObject ([(''schemaVersion'', wire_int 1), (''protocolVersion'', wire_int 1), (''kind'', JString (js k)),
     (''serviceInstanceId'', JString (js ''s''))] @ kvs)"

definition sample_audio :: "js_value \<Rightarrow> js_value" where
  "sample_audio q = message ''audioMetadata'' [(''requestId'', JString (js ''a'')),
     (''frame'', JObject [(''schemaVersion'', wire_int 1), (''frameId'', JString (js ''a'')), (''sessionId'', JString (js ''s'')),
        (''generationId'', JString (js ''g'')), (''segmentId'', JString (js ''t'')), (''sequence'', q), (''sampleRateHz'', wire_int 24000),
        (''sampleCountSamples'', wire_int 1012), (''channelCount'', wire_int 1), (''endOfSegment'', JBool True)]),
     (''sampleFormat'', JString (js ''float32-le'')), (''payloadBytes'', wire_int 4048)]"

lemma sample_audio_validates:
  assumes "q \<in> {wire_int 0, JNumber NegZero}"
  shows "validateTtsProtocolControlV1Wire (sample_audio q) \<and> assertSupportedVersions (sample_audio q) = Inr ()"
proof -
  have q: "valid_integer 0 q \<and> is_number 0 q"
    using assms by (auto simp: valid_wire_int is_integer_num_def MAX_SAFE_INTEGER_def simp del: is_number.simps(1))
      (simp_all add: is_integer_num_def MAX_SAFE_INTEGER_def)
  have ids: "valid_identifier_value (JString (js [c]))" if "c \<in> {CHR ''a'', CHR ''s'', CHR ''g'', CHR ''t''}" for c
    using that by (auto simp: valid_identifier_value_def sample_letters identifier_pattern_def identifier_edge_def)
  have "valid_service_frame (property (objectFields (sample_audio q)) ''frame'')"
    using q by (simp add: sample_audio_def message_def valid_service_frame_def valid_frame_identity_def valid_frame_format_def ids
        valid_wire_int valid_version_1_wire MAX_SAFE_INTEGER_def del: valid_version_1.simps valid_integer.simps at_least.simps is_number.simps)
  then have "validateAudioMetadata (sample_audio q)"
    by (simp add: sample_audio_def message_def validateAudioMetadata_def valid_message_def has_instance_def ids valid_version_1_wire
        valid_payload_bytes_def del: valid_version_1.simps at_least.simps is_number.simps)
  moreover have "(''audioMetadata'', validateAudioMetadata) \<in> set message_validators" by (simp add: message_validators_def)
  ultimately have "validateTtsProtocolControlV1Wire (sample_audio q)" unfolding one_of_validators by blast
  moreover have "is_safe_integer_value (wire_int 1)" by (simp add: wire_int_def is_safe_integer_num_def is_integer_num_def safe_integer_def MAX_SAFE_INTEGER_def)
  ultimately show ?thesis
    by (simp add: sample_audio_def message_def assertSupportedVersions_def del: is_safe_integer_value.simps is_number.simps)
qed

lemma sample_audio_decodes: "decodeTtsProtocolControlV1 (sample_audio (wire_int 0)) = Inr (sample_audio (wire_int 0))"
proof -
  let ?f = "\<lparr>frameSchemaVersion = 1, frameId = js ''a'', frameSessionId = js ''s'', frameGenerationId = js ''g'', frameSegmentId = js ''t'',
    frameSequence = 0, sampleRateHz = 24000, sampleCountSamples = 1012, channelCount = 1, endOfSegment = True\<rparr>"
  have "frame_wf ?f"
    by (simp add: frame_wf_def valid_identifier_value_def sample_letters identifier_pattern_def identifier_edge_def MAX_SAFE_INTEGER_def)
  then have "decodeAudioFrameV1 (frame_wire ?f) = Inr ?f" by (rule frame_wire_decodes)
  moreover have "property (objectFields (sample_audio (wire_int 0))) ''frame'' = frame_wire ?f"
    by (simp add: sample_audio_def message_def frame_wire_def)
  ultimately have "validateSemanticRelationships (sample_audio (wire_int 0)) = Inr ()"
    by (simp add: validateSemanticRelationships_def) (simp add: sample_audio_def message_def)
  with sample_audio_validates show ?thesis by (simp add: decoded_message)
qed

theorem decoded_message_means_what_it_says_witness:
  "\<exists>f. decodeAudioFrameV1 (property (objectFields (sample_audio (wire_int 0))) ''frame'') = Inr f \<and> sampleCountSamples f = 1012"
proof -
  note means = decoded_message_means_what_it_says [OF sample_audio_decodes]
  have "property (objectFields (sample_audio (wire_int 0))) ''kind'' = JString (js ''audioMetadata'')"
    "intValue (property (objectFields (sample_audio (wire_int 0))) ''payloadBytes'') = 4048" by (simp_all add: sample_audio_def message_def)
  with means obtain f where "decodeAudioFrameV1 (property (objectFields (sample_audio (wire_int 0))) ''frame'') = Inr f"
    "4048 = 4 * sampleCountSamples f" by metis
  then show ?thesis by (intro exI [of _ f]) simp
qed

text \<open>The message a service sends when it writes the sequence of its frame as -0.\<close>

lemma negative_zero_escapes: "decodeTtsProtocolControlV1 (sample_audio (JNumber NegZero)) = Inl PrimitiveEscapes"
proof -
  have "property (objectFields (sample_audio (JNumber NegZero))) ''kind'' = JString (js ''audioMetadata'')"
    "property (objectFields (property (objectFields (sample_audio (JNumber NegZero))) ''frame'')) ''sequence'' = JNumber NegZero"
    by (simp_all add: sample_audio_def message_def)
  have "validateAudioFrameV1Wire (property (objectFields (sample_audio (JNumber NegZero))) ''frame'')"
    using validated_kind [of "sample_audio (JNumber NegZero)" "''audioMetadata''" validateAudioMetadata] sample_audio_validates
    by (simp add: message_validators_def sample_audio_def message_def validateAudioMetadata_def valid_message_def valid_service_frame_def
        del: validateAudioFrameV1Wire.simps)
  then have "decodeAudioFrameV1 (property (objectFields (sample_audio (JNumber NegZero))) ''frame'') = Inl PrimitiveEscapes"
    using validated_frame_decodes by (simp add: sample_audio_def message_def del: validateAudioFrameV1Wire.simps)
  then have "validateSemanticRelationships (sample_audio (JNumber NegZero)) = Inl PrimitiveEscapes"
    by (simp add: validateSemanticRelationships_def) (simp add: sample_audio_def message_def)
  with sample_audio_validates [of "JNumber NegZero"] show ?thesis by (simp add: decodeTtsProtocolControlV1_def)
qed

end
