(* ===== verification/Budget_Users.thy ===== *)
theory Budget_Users
  imports Processing_Budget
begin

text \<open>
  The users of one processing budget (packages/epub/src/security/processing-budget.ts): its own operations
  and the archive entry reads begun on it, interleaved in any order, and what the accounting guarantees then.
\<close>

section \<open>One budget, many reads\<close>

text \<open>
  Every read that is begun charges the budget it was begun on, and several reads may be under way at once.
  What the users of one budget share is the budget and the reads begun on it; a read that runs sees the
  budget as the others have left it. A resource operation (\<open>createResourceOperation\<close>) is a budget of its own,
  from the same constructor.
\<close>

record budget_users =
  sharedBudget :: budget
  begunReads :: "entry_read list"

definition inRead :: "nat \<Rightarrow> unit read_prog \<Rightarrow> (budget_users, epub_error, unit) prog" where
  "inRead i m s =
     (if length (begunReads s) \<le> i then (Inr (), s)
      else case m ((begunReads s ! i)\<lparr>readBudget := sharedBudget s\<rparr>) of
        (x, r) \<Rightarrow> (x, s\<lparr>sharedBudget := readBudget r, begunReads := (begunReads s)[i := r]\<rparr>))"

datatype budget_use =
    UseBudget budget_op
  | BeginRead js_number js_number "js_number option"
  | CheckpointRead nat
  | ObserveRead nat js_number
  | CompleteRead nat

fun use_step :: "budget_use \<Rightarrow> (budget_users, epub_error, unit) prog" where
  "use_step (UseBudget x) s = (case budget_step x (sharedBudget s) of (r, b) \<Rightarrow> (r, s\<lparr>sharedBudget := b\<rparr>))"
| "use_step (BeginRead c d m) s = (case beginArchiveEntryRead c d m (sharedBudget s) of
     (Inl e, b) \<Rightarrow> (Inl e, s\<lparr>sharedBudget := b\<rparr>)
   | (Inr r, b) \<Rightarrow> (Inr (), s\<lparr>sharedBudget := b, begunReads := begunReads s @ [r]\<rparr>))"
| "use_step (CheckpointRead i) s = inRead i (onBudget checkpoint) s"
| "use_step (ObserveRead i n) s = inRead i (observe n) s"
| "use_step (CompleteRead i) s = inRead i complete s"

definition unusedBudget :: "budget \<Rightarrow> budget_users" where
  "unusedBudget b = \<lparr>sharedBudget = b, begunReads = []\<rparr>"

text \<open>A read within the policy: within its own maximum and the limits, and complete only at its declared size.\<close>

definition read_within :: "ingestion_policy \<Rightarrow> entry_read \<Rightarrow> bool" where
  "read_within p r \<longleftrightarrow>
     0 \<le> observedBytes r \<and> observedBytes r \<le> maximumOutputBytes r \<and>
     maximumOutputBytes r \<le> maxEntryUncompressedBytes p \<and>
     0 \<le> compressedSizeOf r \<and> compressedSizeOf r \<le> maxCompressedEpubBytes p \<and>
     0 \<le> declaredSizeOf r \<and> declaredSizeOf r \<le> maximumOutputBytes r \<and>
     \<not> ratioExceeded p (observedBytes r) (compressedSizeOf r) \<and>
     \<not> ratioExceeded p (declaredSizeOf r) (compressedSizeOf r) \<and>
     (completed r \<longrightarrow> observedBytes r = declaredSizeOf r)"

definition completedSize :: "entry_read \<Rightarrow> int" where
  "completedSize r = (if completed r then compressedSizeOf r else 0)"

text \<open>
  The budget is within the policy and so is every read; the two counters of the reads are exact sums over
  the reads, and what has been inflated in all is within the compression ratio of what was read.
  \<open>compressedReadBytes\<close> has no limit in the policy: it is the compressed size of the completed reads as
  long as that is a safe integer, beyond which the code refuses to add to it.
\<close>

definition users_wf :: "ingestion_policy \<Rightarrow> budget_users \<Rightarrow> bool" where
  "users_wf p s \<longleftrightarrow> budget_wf (sharedBudget s) \<and> policy (sharedBudget s) = p \<and>
     (\<forall>r \<in> set (begunReads s). read_within p r) \<and>
     observedUncompressedBytes (sharedBudget s) = sum_list (map observedBytes (begunReads s)) \<and>
     \<not> ratioExceeded p (observedUncompressedBytes (sharedBudget s)) (sum_list (map compressedSizeOf (begunReads s))) \<and>
     compressedReadBytes (sharedBudget s) \<le> sum_list (map completedSize (begunReads s)) \<and>
     (sum_list (map completedSize (begunReads s)) \<le> MAX_SAFE_INTEGER \<longrightarrow>
        compressedReadBytes (sharedBudget s) = sum_list (map completedSize (begunReads s)))"

lemma ratioExceeded_mono: "policy_wf p \<Longrightarrow> ratioExceeded p n d \<Longrightarrow> 0 \<le> c \<Longrightarrow> c \<le> d \<Longrightarrow> ratioExceeded p n c"
  using policy_wf_simps [of p] mult_right_mono [of c d "maxCompressionRatio p"]
  by (auto simp: ratioExceeded_def)

lemma budget_step_frame:
  "wp (budget_step x) (\<lambda>_ t. policy t = policy b \<and> observedUncompressedBytes t = observedUncompressedBytes b \<and>
       compressedReadBytes t = compressedReadBytes b)
     (\<lambda>_ t. policy t = policy b \<and> observedUncompressedBytes t = observedUncompressedBytes b \<and>
       compressedReadBytes t = compressedReadBytes b) b"
  by (cases x) (auto simp: budget_op_defs wp_simps intro!: wp_checkpoint)

lemma begin_frame:
  "wp (beginArchiveEntryRead c d m) (\<lambda>_ _. True)
     (\<lambda>_ t. policy t = policy b \<and> observedUncompressedBytes t = observedUncompressedBytes b \<and>
       compressedReadBytes t = compressedReadBytes b) b"
  by (auto simp: beginArchiveEntryRead_def wp_simps intro!: wp_checkpoint)

lemma created_users: "createEpubProcessingBudget ov env = Inr b \<Longrightarrow> users_wf (policy b) (unusedBudget b)"
  using createEpubProcessingBudget_Inr [of ov env b] by (simp add: users_wf_def unusedBudget_def budget_wf_def)

lemma sum_list_update_int: "i < length xs \<Longrightarrow> sum_list (xs[i := x]) = sum_list xs + x - (xs ! i :: int)"
proof (induction xs arbitrary: i)
  case (Cons y ys)
  then show ?case by (cases i) simp_all
qed simp

lemma map_update_sum:
  "i < length xs \<Longrightarrow> sum_list (map f (xs[i := r])) = sum_list (map f xs) + f r - (f (xs ! i) :: int)"
  by (simp add: map_update sum_list_update_int)

text \<open>The completed reads and one more, still open, are not larger than all reads.\<close>

lemma completed_and_open:
  assumes "\<forall>r \<in> set rs. 0 \<le> compressedSizeOf r" and "i < length rs" and "\<not> completed (rs ! i)"
  shows "sum_list (map completedSize rs) + compressedSizeOf (rs ! i) \<le> sum_list (map compressedSizeOf rs)"
proof -
  have "sum_list ((map completedSize rs)[i := compressedSizeOf (rs ! i)]) \<le> sum_list (map compressedSizeOf rs)"
    by (rule sum_list_mono2) (use assms in \<open>auto simp: nth_list_update completedSize_def\<close>)
  then show ?thesis using assms(2,3) by (simp add: sum_list_update_int completedSize_def)
qed

text \<open>What a step of one read must do to the read and to the budget for the whole to stay well-formed.\<close>

lemma users_wf_read:
  assumes wf: "users_wf p s" and i: "i < length (begunReads s)" and r: "read_within p r"
    and b: "budget_wf (readBudget r)" "policy (readBudget r) = p"
    and frame: "compressedSizeOf r = compressedSizeOf (begunReads s ! i)"
    and total: "observedUncompressedBytes (readBudget r) - observedBytes r =
      observedUncompressedBytes (sharedBudget s) - observedBytes (begunReads s ! i)"
    and ratio: "\<not> ratioExceeded p (observedUncompressedBytes (readBudget r)) (sum_list (map compressedSizeOf (begunReads s)))"
    and read: "compressedReadBytes (readBudget r) - compressedReadBytes (sharedBudget s) \<le> completedSize r - completedSize (begunReads s ! i)"
      "sum_list (map completedSize (begunReads s)) + completedSize r - completedSize (begunReads s ! i) \<le> MAX_SAFE_INTEGER \<Longrightarrow>
        sum_list (map completedSize (begunReads s)) \<le> MAX_SAFE_INTEGER \<and>
        compressedReadBytes (readBudget r) - compressedReadBytes (sharedBudget s) = completedSize r - completedSize (begunReads s ! i)"
  shows "users_wf p (s\<lparr>sharedBudget := readBudget r, begunReads := (begunReads s)[i := r]\<rparr>)"
proof -
  have "\<forall>q \<in> set ((begunReads s)[i := r]). read_within p q"
    using wf r set_update_subset_insert [of "begunReads s" i r] by (auto simp: users_wf_def)
  with assms show ?thesis by (auto simp: users_wf_def map_update_sum)
qed

lemma reads_of_wf: "users_wf p s \<Longrightarrow> i < length (begunReads s) \<Longrightarrow> read_within p (begunReads s ! i)"
  by (simp add: users_wf_def)

lemma complete_throws:
  assumes "complete r = (Inl e, r')"
  shows "\<exists>l t. lastObservedAtMs (readBudget r) \<le> t \<and>
    (r' = r\<lparr>readBudget := (readBudget r)\<lparr>looked := l, lastObservedAtMs := t\<rparr>\<rparr> \<or>
     r' = r\<lparr>readBudget := (readBudget r)\<lparr>looked := l, lastObservedAtMs := t\<rparr>, completed := True\<rparr> \<and>
       \<not> completed r \<and> observedBytes r = declaredSizeOf r \<and>
       MAX_SAFE_INTEGER < compressedReadBytes (readBudget r) + compressedSizeOf r)"
  (is "?P r'")
proof -
  have "wp complete (\<lambda>_ _. True) (\<lambda>_. ?P) r"
    unfolding complete_def
    by (simp add: wp_simps wp_onBudget, rule wp_checkpoint) auto
  with assms show ?thesis by (simp add: wp_def)
qed

lemma completedSize_readBudget [simp]: "completedSize (r\<lparr>readBudget := b\<rparr>) = completedSize r"
  by (simp add: completedSize_def)

lemma users_wf_untouched:
  assumes "users_wf p s" and "i < length (begunReads s)" and "lastObservedAtMs (sharedBudget s) \<le> t"
    and "r = (begunReads s ! i)\<lparr>readBudget := (sharedBudget s)\<lparr>looked := l, lastObservedAtMs := t\<rparr>\<rparr>"
  shows "users_wf p (s\<lparr>sharedBudget := readBudget r, begunReads := (begunReads s)[i := r]\<rparr>)"
  unfolding assms(4)
  by (rule users_wf_read [OF assms(1,2)])
    (use assms(1,3) reads_of_wf [OF assms(1,2)] in \<open>auto simp: users_wf_def read_within_def budget_wf_def\<close>)

lemma observe_users:
  assumes wf: "users_wf p s" and i: "i < length (begunReads s)"
    and eq: "observe n ((begunReads s ! i)\<lparr>readBudget := sharedBudget s\<rparr>) = (x, r)"
  shows "users_wf p (s\<lparr>sharedBudget := readBudget r, begunReads := (begunReads s)[i := r]\<rparr>)"
proof (cases x)
  case (Inl e)
  then have "observe n ((begunReads s ! i)\<lparr>readBudget := sharedBudget s\<rparr>) = (Inl e, r)" using eq by simp
  from observe_throws [OF this] show ?thesis by (auto intro!: users_wf_untouched [OF wf i] simp del: entry_read.update_convs)
next
  case (Inr u)
  let ?b = "sharedBudget s" and ?r = "begunReads s ! i"
  have p: "policy ?b = p" "policy_wf p" "budget_wf ?b" using wf by (auto simp: users_wf_def budget_wf_def)
  from eq Inr have "observe n (?r\<lparr>readBudget := ?b\<rparr>) = (Inr u, r)" by simp
  from observe_effect [OF this] obtain k t where k: "0 \<le> k" "lastObservedAtMs ?b \<le> t" "\<not> completed ?r"
    and r: "r = ?r\<lparr>observedBytes := observedBytes ?r + k,
        readBudget := ?b\<lparr>looked := Suc (looked ?b), lastObservedAtMs := t, observedUncompressedBytes := observedUncompressedBytes ?b + k\<rparr>\<rparr>"
    and bounds: "observedBytes ?r + k \<le> maximumOutputBytes ?r" "observedUncompressedBytes ?b + k \<le> maxTotalUncompressedBytes p"
      "\<not> ratioExceeded p (observedBytes ?r + k) (compressedSizeOf ?r)"
      "\<not> ratioExceeded p (observedUncompressedBytes ?b + k) (compressedReadBytes ?b + compressedSizeOf ?r)"
    by (auto simp: p)
  have nonneg: "\<forall>q \<in> set (begunReads s). 0 \<le> compressedSizeOf q" using wf by (simp add: users_wf_def read_within_def)
  have "0 \<le> compressedReadBytes ?b + compressedSizeOf ?r"
    using p(3) nonneg i by (simp add: budget_wf_def)
  moreover have "compressedReadBytes ?b + compressedSizeOf ?r \<le> sum_list (map compressedSizeOf (begunReads s))"
    using completed_and_open [OF nonneg i k(3)] wf by (simp add: users_wf_def)
  ultimately have "\<not> ratioExceeded p (observedUncompressedBytes ?b + k) (sum_list (map compressedSizeOf (begunReads s)))"
    using ratioExceeded_mono [OF p(2)] bounds(4) by blast
  then show ?thesis
    by (intro users_wf_read [OF wf i])
      (use r k bounds reads_of_wf [OF wf i] p in \<open>auto simp: read_within_def completedSize_def budget_wf_def\<close>)
qed

lemma complete_users:
  assumes wf: "users_wf p s" and i: "i < length (begunReads s)"
    and eq: "complete ((begunReads s ! i)\<lparr>readBudget := sharedBudget s\<rparr>) = (x, r)"
  shows "users_wf p (s\<lparr>sharedBudget := readBudget r, begunReads := (begunReads s)[i := r]\<rparr>)"
proof -
  let ?b = "sharedBudget s" and ?r = "begunReads s ! i"
  have p: "policy ?b = p" "budget_wf ?b" "compressedReadBytes ?b \<le> sum_list (map completedSize (begunReads s))"
    "\<not> ratioExceeded p (observedUncompressedBytes ?b) (sum_list (map compressedSizeOf (begunReads s)))"
    "sum_list (map completedSize (begunReads s)) \<le> MAX_SAFE_INTEGER \<longrightarrow> compressedReadBytes ?b = sum_list (map completedSize (begunReads s))"
    using wf unfolding users_wf_def by blast+
  have c: "0 \<le> compressedSizeOf ?r" using reads_of_wf [OF wf i] by (simp add: read_within_def)
  show ?thesis
  proof (cases x)
    case (Inl e)
    then have "complete (?r\<lparr>readBudget := ?b\<rparr>) = (Inl e, r)" using eq by simp
    from complete_throws [OF this] obtain l t where t: "lastObservedAtMs ?b \<le> t"
      and r: "r = ?r\<lparr>readBudget := ?b\<lparr>looked := l, lastObservedAtMs := t\<rparr>\<rparr> \<or>
        r = ?r\<lparr>readBudget := ?b\<lparr>looked := l, lastObservedAtMs := t\<rparr>, completed := True\<rparr> \<and>
          \<not> completed ?r \<and> observedBytes ?r = declaredSizeOf ?r \<and> MAX_SAFE_INTEGER < compressedReadBytes ?b + compressedSizeOf ?r"
      by auto
    from r show ?thesis
    proof
      assume "r = ?r\<lparr>readBudget := ?b\<lparr>looked := l, lastObservedAtMs := t\<rparr>\<rparr>"
      with users_wf_untouched [OF wf i t] show ?thesis by blast
    next
      assume r: "r = ?r\<lparr>readBudget := ?b\<lparr>looked := l, lastObservedAtMs := t\<rparr>, completed := True\<rparr> \<and>
        \<not> completed ?r \<and> observedBytes ?r = declaredSizeOf ?r \<and> MAX_SAFE_INTEGER < compressedReadBytes ?b + compressedSizeOf ?r"
      then have over: "MAX_SAFE_INTEGER < sum_list (map completedSize (begunReads s)) + compressedSizeOf ?r"
        using p(3) by linarith
      show ?thesis
        by (rule users_wf_read [OF wf i])
          (use r over c p t reads_of_wf [OF wf i] in \<open>auto simp: read_within_def completedSize_def budget_wf_def\<close>)
    qed
  next
    case (Inr u)
    then have "complete (?r\<lparr>readBudget := ?b\<rparr>) = (Inr u, r)" using eq by simp
    from complete_effect [OF this] obtain t where t: "lastObservedAtMs ?b \<le> t" "\<not> completed ?r" "observedBytes ?r = declaredSizeOf ?r"
        "compressedReadBytes ?b + compressedSizeOf ?r \<le> MAX_SAFE_INTEGER"
      and r: "r = ?r\<lparr>completed := True, readBudget := ?b\<lparr>looked := Suc (looked ?b), lastObservedAtMs := t,
          compressedReadBytes := compressedReadBytes ?b + compressedSizeOf ?r\<rparr>\<rparr>"
      by auto
    from t r c p reads_of_wf [OF wf i] show ?thesis
      by (intro users_wf_read [OF wf i]) (auto simp: read_within_def completedSize_def budget_wf_def)
  qed
qed

lemma checkpoint_users:
  assumes wf: "users_wf p s" and i: "i < length (begunReads s)"
    and eq: "onBudget checkpoint ((begunReads s ! i)\<lparr>readBudget := sharedBudget s\<rparr>) = (x, r)"
  shows "users_wf p (s\<lparr>sharedBudget := readBudget r, begunReads := (begunReads s)[i := r]\<rparr>)"
proof -
  let ?P = "\<lambda>r. users_wf p (s\<lparr>sharedBudget := readBudget r, begunReads := (begunReads s)[i := r]\<rparr>)"
  have "wp (onBudget checkpoint) (\<lambda>_. ?P) (\<lambda>_. ?P) ((begunReads s ! i)\<lparr>readBudget := sharedBudget s\<rparr>)"
    unfolding wp_onBudget by (rule wp_checkpoint) (rule users_wf_untouched [OF wf i], simp, simp)+
  with eq show ?thesis by (cases x) (simp_all add: wp_def)
qed

lemma use_step_wf:
  assumes wf: "users_wf p s"
  shows "users_wf p (snd (use_step x s))"
proof -
  have b: "budget_wf (sharedBudget s)" using wf by (simp add: users_wf_def)
  have inRead: "users_wf p (snd (inRead i m s))"
    if "\<And>y r. i < length (begunReads s) \<Longrightarrow> m ((begunReads s ! i)\<lparr>readBudget := sharedBudget s\<rparr>) = (y, r) \<Longrightarrow>
      users_wf p (s\<lparr>sharedBudget := readBudget r, begunReads := (begunReads s)[i := r]\<rparr>)" for i m
    using that wf by (auto simp: inRead_def split: prod.split)
  have swapped: "users_wf p (s\<lparr>sharedBudget := t\<rparr>)"
    if "budget_wf t" "policy t = policy (sharedBudget s)" "observedUncompressedBytes t = observedUncompressedBytes (sharedBudget s)"
      "compressedReadBytes t = compressedReadBytes (sharedBudget s)" for t
    using that wf unfolding users_wf_def by (simp only: budget_users.simps) auto
  show ?thesis
  proof (cases x)
    case (UseBudget y)
    with swapped budget_step_wf [OF b, of y] budget_step_frame [of y "sharedBudget s"] show ?thesis
      by (auto simp: wp_def split: prod.splits sum.splits)
  next
    case (BeginRead c d m)
    show ?thesis
    proof (cases "beginArchiveEntryRead c d m (sharedBudget s)")
      case (Pair y t)
      show ?thesis
      proof (cases y)
        case (Inl e)
        with BeginRead Pair swapped begin_frame [of c d m "sharedBudget s"] beginArchiveEntryRead_wf [OF b, of c d m] show ?thesis
          by (simp add: wp_def)
      next
        case (Inr r)
        from beginArchiveEntryRead_wf [OF b, of c d m] Pair Inr have r: "read_wf r" "policy t = policy (sharedBudget s)" "budget_wf t"
          "readBudget r = t" "observedBytes r = 0" "\<not> completed r" "\<not> ratioExceeded (policy (sharedBudget s)) (declaredSizeOf r) (compressedSizeOf r)"
          "observedUncompressedBytes t = observedUncompressedBytes (sharedBudget s)" "compressedReadBytes t = compressedReadBytes (sharedBudget s)"
          by (auto simp: wp_def)
        from r wf have within: "read_within p r" by (simp add: users_wf_def read_wf_def read_within_def)
        have p: "policy_wf p" "0 \<le> sum_list (map compressedSizeOf (begunReads s))"
          using wf by (auto simp: users_wf_def budget_wf_def read_within_def intro!: sum_list_nonneg_int)
        have "sum_list (map compressedSizeOf (begunReads s)) \<le> sum_list (map compressedSizeOf (begunReads s)) + compressedSizeOf r"
          using within by (simp add: read_within_def)
        with ratioExceeded_mono [OF p(1) _ p(2)] wf
        have "\<not> ratioExceeded p (observedUncompressedBytes (sharedBudget s)) (sum_list (map compressedSizeOf (begunReads s)) + compressedSizeOf r)"
          unfolding users_wf_def by blast
        with BeginRead Pair Inr r within wf show ?thesis by (simp add: users_wf_def completedSize_def)
      qed
    qed
  next
    case (CheckpointRead i)
    with inRead checkpoint_users [OF wf] show ?thesis by simp
  next
    case (ObserveRead i n)
    with inRead observe_users [OF wf] show ?thesis by simp
  next
    case (CompleteRead i)
    with inRead complete_users [OF wf] show ?thesis by simp
  qed
qed

interpretation budget_users: guarded_machine use_step "users_wf p" for p
  by unfold_locales (rule use_step_wf)

section \<open>Properties\<close>

text \<open>
  C1. Whatever sequence of operations is applied to a budget the constructor returned, on the budget itself and
  on any number of archive entry reads begun on it, in any interleaving, and whether they return or throw:
  every counter stays between zero and its limit of the policy; the declared totals stay within the
  compression ratio; every read stays within its maximum, the entry limit and the ratio, and is complete
  only at its declared size; the observed total is exactly the sum over the reads, within the ratio of their
  compressed sizes; and the compressed total is exactly that of the completed reads while that sum is a
  safe integer.
\<close>

theorem budget_always_within_policy:
  assumes "createEpubProcessingBudget ov env = Inr b"
  shows "users_wf (policy b) (run use_step uses (unusedBudget b))"
  by (rule budget_users.run_inv [OF created_users [OF assms]])

text \<open>Two reads that overlap: the second is begun and charged between the chunks of the first.\<close>

definition sample_uses :: "budget_use list" where
  "sample_uses = [UseBudget (RegisterArchiveInput (Integral 9)), BeginRead (Integral 4) (Integral 5) None, ObserveRead 0 (Integral 2),
     BeginRead (Integral 1) (Integral 1) None, ObserveRead 1 (Integral 1), ObserveRead 0 (Integral 3), CompleteRead 0]"

lemma sample_totals:
  "observedUncompressedBytes (sharedBudget (run use_step sample_uses (unusedBudget sample_budget))) = 6 \<and>
   compressedReadBytes (sharedBudget (run use_step sample_uses (unusedBudget sample_budget))) = 4"
  by (simp add: sample_uses_def unusedBudget_def inRead_def registerArchiveInput_def beginArchiveEntryRead_def andThen_apply
      checkpoint_def Let_def sample_budget_def quiet_env_def MAX_SAFE_INTEGER_def js_sub_def default_policy_simps
      assertSafeNonnegativeInteger_def is_count_iff assertCompressionRatio_def ratioExceeded_def observe_def complete_def
      onBudget_def addWithinSafeInteger_def)

theorem budget_always_within_policy_witness:
  "sum_list (map observedBytes (begunReads (run use_step sample_uses (unusedBudget sample_budget)))) = 6 \<and>
   sum_list (map completedSize (begunReads (run use_step sample_uses (unusedBudget sample_budget)))) \<ge> 4"
  using budget_always_within_policy [OF sample_created, of sample_uses] sample_totals unfolding users_wf_def by linarith

end
