(* ===== verification/Spec2Isabelle.thy ===== *)
theory Spec2Isabelle
  imports Processing_Budget Scheduler_Invariant Packer_Theorems Target_Resolver Reading_Session Ocf_Reference Archive_Handle
          Reader_Opening Tts_Protocol Budget_Users
begin

text \<open>
  VoxLeaf is a desktop reader that opens an EPUB file, shows it and reads it aloud. This development models its
  TypeScript core (packages/epub/src, packages/shared/src, apps/desktop/src) and proves what that core promises.

  \<^bold>\<open>The program.\<close> The user selects a file. The reader's lifecycle hands it to the opening
  flow, which reads it within a size limit and gives it to the publication session; the session asks the EPUB
  opener for a publication and owns it until it is closed. The opener reads the archive through a processing
  budget that enforces the limits of an ingestion policy, refuses harmful entry names, resolves the references
  between the documents, and builds the index by which reading positions (locators) name places in the text. An
  opened publication serves its images, resolves locators and link targets, and prepares narration batches: the
  packer cuts normalized blocks into segments under a work controller that counts work, looks at the abort
  signal and yields. The buffer scheduler decides when to prepare and to synthesize, holds the audio units and
  drives playback. The save coordinator writes reading positions and preferences to the repository, and the
  restore coordinator opens the publication where it was left. What crosses a process boundary or is stored goes
  through the versioned contracts of packages/shared.

  \<^bold>\<open>How code becomes definitions.\<close> Names are those of the source where Isabelle allows it.
  An object is a record with the fields of its class. A synchronous method is a program of type
  \<open>prog\<close> (\<open>Prelude\<close>): it takes the state and returns the state it reached with a
  result or an error, so what was done before a throw is kept. An asynchronous object runs in turns: its events
  are the calls of its methods, the settlements of what it awaits and the callbacks of its timers, each event is
  one run to the next \<open>await\<close>, and a theorem over all lists of events is one over all
  interleavings. A clock or an abort signal is the stream of what the code sees when it looks for the n-th time.
  Errors are values of a sum type; a decoder's own error and a primitive error that escapes it are different
  values. Strings are lists of 16-bit words, bytes are 8-bit words, JavaScript numbers are exact integers or
  rationals with the negative zero, NaN and the infinities kept apart where the code can tell them apart, and
  rounding to binary64 is written out (\<open>Js_Number\<close>) where the code leaves the integers.

  \<^bold>\<open>Theories and sources.\<close>

  \<^item> Foundations. \<open>Prelude\<close>: programs, loops, weakest preconditions and the interfaces below.
    \<open>Js_Number\<close>, \<open>Js_Value\<close>: numbers, strings and untrusted values of the language.
  \<^item> Limits. \<open>Ingestion_Policy\<close> (security/ingestion-policy.ts, archive/archive-error.ts),
    \<open>Processing_Budget\<close> (security/processing-budget.ts) and \<open>Budget_Users\<close>, in which
    any number of entry reads share one budget.
  \<^item> Archive. \<open>Archive_Path\<close>, \<open>Path_Facts\<close>, \<open>Path_Encoding\<close>
    (paths/archive-path.ts), \<open>Ocf_Reference\<close> (paths/ocf-reference.ts),
    \<open>Archive_Entry\<close>, \<open>Archive_Inventory\<close>, \<open>Archive_Handle\<close>
    (archive/archive-inventory.ts: one entry, the directory, the opened archive).
  \<^item> Positions. \<open>Locator_Contract\<close> (contracts/locator.ts, primitives, the generated
    validators), \<open>Locator_Index\<close> (locator/locator-index.ts, document/document-model.ts),
    \<open>Locator_Resolver\<close> (locator/locator-resolver.ts), \<open>Locator_Facts\<close> and
    \<open>Locator_Theorems\<close> about them, and \<open>Target_Resolver\<close> (locator/target-resolver.ts).
  \<^item> The opened publication. \<open>Opened_Publication\<close> (resource/opened-publication.ts, the image
    catalog and the image signatures).
  \<^item> Narration text. \<open>Narration_Work\<close>, \<open>Work_Facts\<close>
    (narration/narration-policy.ts, the Piper and Chatterbox policies, narration-work-controller.ts),
    \<open>Segment_Packer\<close>, \<open>Packer_Segments\<close>, \<open>Packer_Facts\<close>,
    \<open>Packer_Theorems\<close> (narration-segment-packer.ts).
  \<^item> Narration buffer. \<open>Buffer_Authority\<close> (tts/adaptive-buffer-authority.ts,
    playback-transition-policy.ts), \<open>Playback_Rate\<close> (the three reader-settings-playback-authority
    files), \<open>Buffer_Scheduler\<close>, \<open>Scheduler_Invariant\<close>
    (tts/adaptive-buffer-scheduler.ts).
  \<^item> Stored positions. \<open>Persisted_State\<close> (contracts/persisted-reading-state.ts),
    \<open>Reader_Preferences\<close> (reader/reader-preferences.ts), \<open>Position_Repository\<close>,
    \<open>Repository_Theorems\<close> (persistence/reader-position-repository.ts),
    \<open>Save_Coordinator\<close>, \<open>Save_Facts\<close>, \<open>Save_Invariant\<close>,
    \<open>Save_Theorems\<close>, \<open>Save_Properties\<close> (reader-position-save-coordinator.ts),
    \<open>Restore_Coordinator\<close> (reader-position-restore-coordinator.ts), and
    \<open>Reading_Session\<close>, which joins them to the publication.
  \<^item> Opening a book. \<open>Publication_Session\<close> (publication/publication-session.ts),
    \<open>Open_Flow\<close> (file-ingress/local-epub-file.ts, publication/local-publication-open.ts),
    \<open>Reader_Lifecycle\<close> (publication/reader-lifecycle.ts), \<open>Reader_Opening\<close>: their
    progress together.
  \<^item> Contracts. \<open>Contract_Values\<close>, \<open>Operational_Error\<close>
    (contracts/operational-error.ts, public/epub-result.ts), \<open>Session_Contracts\<close>
    (reading-session.ts, buffer-status.ts, capability-report.ts, narration-segment.ts),
    \<open>Audio_Frame\<close> (audio-frame.ts), \<open>Tts_Protocol\<close> (tts-protocol-control.ts), all with
    their validators in generated/validators/standalone.ts.
\<close>

text \<open>
  \<^bold>\<open>What is shown.\<close>

  \<^item> Accounting: however the users of one budget interleave, every counter stays within the policy and the
    totals are the sums over the reads; the scheduler's resource snapshot is the exact sum of what it holds, and
    every audio unit is held or released exactly once; the work controller notices an abort within one
    checkpoint interval.
  \<^item> Input: the decoders accept exactly the values of their schema, up to the negative zero that two of
    them let escape as a primitive error, and what they return has a wire form that decodes to it again; an
    accepted archive path is harmless under any number of decodings; a reference never leaves the archive; bytes
    handed out are exactly those the ZIP reader wrote, of the declared size.
  \<^item> Reference semantics: locator resolution meets a declarative relation and is idempotent, target
    resolution gives what the documents say, the segments of a block cut it without gap or overlap and speak all
    of it, in cuts that do not depend on the size of the batch, the bounded search for path hazards equals the
    unbounded one, and the duration of a run of frames is exact.
  \<^item> State machines, over all interleavings: one write at a time, only verified positions are written, a
    flush persists the latest position that was asked for, closing is final, superseded restore requests and
    superseded openings never show, a closed publication hands out nothing, publications have one owner and are
    closed one at a time in the order in which they were given up, and every schedule of turns after a selection
    comes to rest, with the selected book on the screen when nothing goes wrong.
  \<^item> Across components: what was saved is where the book is opened again.

  \<^bold>\<open>Interfaces.\<close> \<open>ledger\<close> (charging against a limit: entries, decoded text,
  work units), \<open>guarded_machine\<close> and \<open>monotone_machine\<close> (operations that keep an
  invariant, and never take a measure back: budget, its users, scheduler, archive, publication, both
  coordinators, session), \<open>observer\<close> (what the packer needs of the work controller),
  \<open>versioned_contract\<close> (decoding and the wire form: every contract), \<open>position_source\<close>
  (what the coordinators need of a publication), \<open>publication_owner\<close> (what a client of the session,
  and of the flow over it, may rely on) and \<open>draining\<close> (turns that use up work: session, flow and
  reader). Each is interpreted on the model's own definitions in the theory of the component that provides it.

  \<^bold>\<open>Recursion and bounds.\<close> No definition has fuel of its own. The loops that are not
  structural are \<open>function\<close>s whose termination is proved: the UTF-8 and percent decoders by the
  length of what is left, \<open>consume_loop\<close> by the queued units and whether frames are left to render,
  \<open>avoidCollisions\<close> and \<open>countFrom\<close> by the reserved names not yet tried and the text
  left to count, \<open>fitPositions\<close> by the number of states, the drains of the save coordinator by
  whether a write is queued, and \<open>packSegments\<close> by the units after the cut. The bound in
  \<open>hazardLayers\<close> is the source's own, the length of the text, and is proved to lose nothing. The
  repository keeps at most 128 positions and as many as fit its limit on the length of the stored text.

  \<^bold>\<open>Parameters.\<close> Code that is not part of the repository is an argument of the definitions
  or an event of the turns, and may answer anything in any order: the ZIP reader, the file reader, web storage,
  timers, the clock and abort signals. The Unicode tables of the regular expressions and normal forms are
  records of functions. The JSON codec is a parameter; the theorems that need more of it assume that parsing
  inverts printing, and their witnesses run on a codec for which it does.

  \<^bold>\<open>Not modelled.\<close> The XML event reader, which adapts a third-party parser, and with it what
  consumes its events: the container, package, navigation and XHTML documents and the sequence that opens a
  publication (to the session it may answer anything). The normalization of spoken text, the boundary scanner
  and the narration sources, whose results are the packer's input. Audio playback and its signal processing, the
  clients of the speech service, the coordinator that joins scheduler, playback and service (the scheduler is
  proved for any client), hardware profiles, and the remaining stored preferences. The view: DOM measurements,
  raster decoding, React. The native host (Rust), the speech service (Python) and the build scripts. Inside the
  modelled files: listeners, which only make the view read the state again; a callback that calls back into the
  save coordinator; an abort signal whose own methods throw; a revoked proxy as a link target; and the
  checkpoint callback of an entry read, which is the budget's own wherever the source passes one.
\<close>

end
